(* ===== verification/JsValue.thy ===== *)
theory JsValue
  imports Prelude
begin

text \<open>
  The JavaScript values and standard-library operations the modelled TypeScript uses.
  A string is the list of the bytes of its UTF-8 encoding, so that \<open>length\<close> is what
  \<open>Buffer.byteLength (s, "utf8")\<close> returns; strings with lone surrogates have no such
  form and are left out.  A plain object is the association list of its own properties
  in insertion order.  Numbers in dynamic values are the integers together with the
  three non-finite values.
\<close>

section \<open>Values\<close>

datatype jsnum = Fin int | NaN | PosInf | NegInf

datatype jsval =
    JUndef
  | JNull
  | JBool bool
  | JNum jsnum
  | JStr string
  | JArr "jsval list"
  | JObj "(string \<times> jsval) list"

type_synonym jsobj = "(string \<times> jsval) list"

fun truthy :: "jsval \<Rightarrow> bool" where
  "truthy JUndef = False"
| "truthy JNull = False"
| "truthy (JBool b) = b"
| "truthy (JNum (Fin i)) = (i \<noteq> 0)"
| "truthy (JNum NaN) = False"
| "truthy (JNum _) = True"
| "truthy (JStr s) = (s \<noteq> [])"
| "truthy (JArr _) = True"
| "truthy (JObj _) = True"

text \<open>The operator \<open>a || b\<close>, on values and on optional strings.\<close>

definition js_or :: "jsval \<Rightarrow> jsval \<Rightarrow> jsval" where
  "js_or a b = (if truthy a then a else b)"

definition str_or :: "string option \<Rightarrow> string \<Rightarrow> string" where
  "str_or a b = (case a of Some s \<Rightarrow> if s = [] then b else s | None \<Rightarrow> b)"

text \<open>Own property access \<open>o.k\<close>: \<open>undefined\<close> when absent.\<close>

definition prop_of :: "jsobj \<Rightarrow> string \<Rightarrow> jsval" where
  "prop_of ps k = (case map_of ps k of None \<Rightarrow> JUndef | Some v \<Rightarrow> v)"

fun is_record :: "jsval \<Rightarrow> bool" where
  "is_record (JObj _) = True"
| "is_record _ = False"

fun is_string :: "jsval \<Rightarrow> bool" where
  "is_string (JStr _) = True"
| "is_string _ = False"

fun is_bool :: "jsval \<Rightarrow> bool" where
  "is_bool (JBool _) = True"
| "is_bool _ = False"

lemma is_record_iff: "is_record v \<longleftrightarrow> (\<exists>ps. v = JObj ps)"
  by (cases v) auto

lemma is_string_iff: "is_string v \<longleftrightarrow> (\<exists>s. v = JStr s)"
  by (cases v) auto

lemma is_bool_iff: "is_bool v \<longleftrightarrow> (\<exists>b. v = JBool b)"
  by (cases v) auto

section \<open>Strings\<close>

fun starts_with :: "string \<Rightarrow> string \<Rightarrow> bool" where
  "starts_with s [] = True"
| "starts_with [] (p # ps) = False"
| "starts_with (c # cs) (p # ps) = (c = p \<and> starts_with cs ps)"

definition ends_with :: "string \<Rightarrow> string \<Rightarrow> bool" where
  "ends_with s p = starts_with (rev s) (rev p)"

fun str_includes :: "string \<Rightarrow> string \<Rightarrow> bool" where
  "str_includes [] p = (p = [])"
| "str_includes (c # cs) p = (starts_with (c # cs) p \<or> str_includes cs p)"

lemma starts_with_prefix: "starts_with s p \<longleftrightarrow> prefix p s"
  by (induction s p rule: starts_with.induct) auto

lemma includes_sublist: "str_includes s p \<longleftrightarrow> sublist p s"
  by (induction s p rule: str_includes.induct) (auto simp: starts_with_prefix sublist_Cons_right)

text \<open>\<open>xs.join(sep)\<close> on strings.\<close>

fun join :: "string \<Rightarrow> string list \<Rightarrow> string" where
  "join sep [] = []"
| "join sep [x] = x"
| "join sep (x # y # ys) = x @ sep @ join sep (y # ys)"

text \<open>\<open>s.split(sep)\<close> for a one-character separator.\<close>

fun split_on :: "char \<Rightarrow> string \<Rightarrow> string list" where
  "split_on c [] = [[]]"
| "split_on c (x # xs) =
     (if x = c then [] # split_on c xs
      else (case split_on c xs of [] \<Rightarrow> [[x]] | y # ys \<Rightarrow> (x # y) # ys))"

lemma split_on_not_Nil [simp]: "split_on c s \<noteq> []"
  by (induction s) (auto split: list.splits)

lemma split_on_no_sep: "\<forall>p \<in> set (split_on c s). c \<notin> set p"
  by (induction s) (auto split: list.splits)

lemma split_on_plain: "c \<notin> set s \<Longrightarrow> split_on c s = [s]"
  by (induction s) auto

lemma split_on_append: "c \<notin> set a \<Longrightarrow> split_on c (a @ c # b) = a # split_on c b"
  by (induction a) auto

text \<open>White space as \<open>String.prototype.trim\<close> knows it, each character as its UTF-8 bytes.\<close>

definition ws_chars :: "string list" where
  "ws_chars = [[CHR 0x20], [CHR 0x09], [CHR 0x0A], [CHR 0x0B], [CHR 0x0C], [CHR 0x0D],
     [CHR 0xC2, CHR 0xA0], [CHR 0xE1, CHR 0x9A, CHR 0x80],
     [CHR 0xE2, CHR 0x80, CHR 0x80], [CHR 0xE2, CHR 0x80, CHR 0x81], [CHR 0xE2, CHR 0x80, CHR 0x82],
     [CHR 0xE2, CHR 0x80, CHR 0x83], [CHR 0xE2, CHR 0x80, CHR 0x84], [CHR 0xE2, CHR 0x80, CHR 0x85],
     [CHR 0xE2, CHR 0x80, CHR 0x86], [CHR 0xE2, CHR 0x80, CHR 0x87], [CHR 0xE2, CHR 0x80, CHR 0x88],
     [CHR 0xE2, CHR 0x80, CHR 0x89], [CHR 0xE2, CHR 0x80, CHR 0x8A],
     [CHR 0xE2, CHR 0x80, CHR 0xA8], [CHR 0xE2, CHR 0x80, CHR 0xA9], [CHR 0xE2, CHR 0x80, CHR 0xAF],
     [CHR 0xE2, CHR 0x81, CHR 0x9F], [CHR 0xE3, CHR 0x80, CHR 0x80], [CHR 0xEF, CHR 0xBB, CHR 0xBF]]"

fun match_ws :: "string list \<Rightarrow> string \<Rightarrow> string option" where
  "match_ws [] s = None"
| "match_ws (w # ws) s = (if starts_with s w then Some (drop (length w) s) else match_ws ws s)"

lemma match_ws_shorter:
  "\<forall>w \<in> set ws. w \<noteq> [] \<Longrightarrow> match_ws ws s = Some t \<Longrightarrow> length t < length s"
proof (induction ws)
  case (Cons w ws)
  show ?case
  proof (cases "starts_with s w")
    case True
    then have "length w \<le> length s" by (simp add: starts_with_prefix prefix_length_le)
    with True Cons.prems show ?thesis by (cases w) auto
  next
    case False
    with Cons show ?thesis by simp
  qed
qed simp

lemma ws_chars_nonempty: "\<forall>w \<in> set ws_chars. w \<noteq> []"
  by (simp add: ws_chars_def)

lemma rev_ws_chars_nonempty: "\<forall>w \<in> set (map rev ws_chars). w \<noteq> []"
  by (simp add: ws_chars_def)

function strip_with :: "string list \<Rightarrow> string \<Rightarrow> string" where
  "strip_with ws s =
     (if \<forall>w \<in> set ws. w \<noteq> []
      then (case match_ws ws s of None \<Rightarrow> s | Some t \<Rightarrow> strip_with ws t)
      else s)"
  by pat_completeness auto
termination
  by (relation "measure (\<lambda>(ws, s). length s)") (auto dest: match_ws_shorter)

declare strip_with.simps [simp del]

definition js_trim :: "string \<Rightarrow> string" where
  "js_trim s = rev (strip_with (map rev ws_chars) (rev (strip_with ws_chars s)))"

lemma strip_with_Nil [simp]: "strip_with ws [] = []"
proof -
  have "\<forall>w \<in> set ws. w \<noteq> [] \<Longrightarrow> match_ws ws [] = None"
    by (induction ws) (auto simp: starts_with_prefix)
  then show ?thesis by (subst strip_with.simps) auto
qed

lemma js_trim_Nil [simp]: "js_trim [] = []"
  by (simp add: js_trim_def)

lemma strip_with_match_None: "match_ws ws s = None \<Longrightarrow> strip_with ws s = s"
  by (subst strip_with.simps) simp

lemma strip_with_stripped:
  "\<forall>w \<in> set ws. w \<noteq> [] \<Longrightarrow> match_ws ws (strip_with ws s) = None"
proof (induction ws s rule: strip_with.induct)
  case (1 ws s)
  show ?case
  proof (cases "match_ws ws s")
    case None
    then show ?thesis by (simp add: strip_with_match_None)
  next
    case (Some t)
    with 1 show ?thesis by (subst strip_with.simps) simp
  qed
qed

text \<open>Lower case, exact on ASCII and on the two characters whose lower case contains an
  ASCII letter (U+212A and U+0130); every other character has a non-ASCII lower case and
  is left alone, since the code only looks for ASCII text in the result.\<close>

definition lower_char :: "char \<Rightarrow> char" where
  "lower_char c = 
     (if 65 \<le> (of_char c :: nat) \<and> of_char c \<le> (90 :: nat)
      then char_of (of_char c + (32 :: nat)) else c)"

fun js_lower :: "string \<Rightarrow> string" where
  "js_lower [] = []"
| "js_lower (c # cs) =
     (if starts_with (c # cs) [CHR 0xE2, CHR 0x84, CHR 0xAA] then CHR ''k'' # js_lower (drop 2 cs)
      else if starts_with (c # cs) [CHR 0xC4, CHR 0xB0]
           then CHR ''i'' # CHR 0xCC # CHR 0x87 # js_lower (drop 1 cs)
      else lower_char c # js_lower cs)"

text \<open>Numbers and arbitrary values as strings: \<open>String(v)\<close>.\<close>

fun show_nat :: "nat \<Rightarrow> string" where
  "show_nat n = (if n < 10 then [char_of (48 + n)] else show_nat (n div 10) @ [char_of (48 + n mod 10)])"

declare show_nat.simps [simp del]

definition show_int :: "int \<Rightarrow> string" where
  "show_int i = (if i < 0 then CHR ''-'' # show_nat (nat (- i)) else show_nat (nat i))"

fun show_num :: "jsnum \<Rightarrow> string" where
  "show_num (Fin i) = show_int i"
| "show_num NaN = ''NaN''"
| "show_num PosInf = ''Infinity''"
| "show_num NegInf = ''-Infinity''"

fun js_string :: "jsval \<Rightarrow> string" where
  "js_string JUndef = ''undefined''"
| "js_string JNull = ''null''"
| "js_string (JBool b) = (if b then ''true'' else ''false'')"
| "js_string (JNum n) = show_num n"
| "js_string (JStr s) = s"
| "js_string (JArr vs) =
     join '','' (map (\<lambda>v. if v = JUndef \<or> v = JNull then [] else js_string v) vs)"
| "js_string (JObj _) = ''[object Object]''"

text \<open>\<open>xs.join(sep)\<close> on arbitrary values.\<close>

definition js_join :: "string \<Rightarrow> jsval list \<Rightarrow> string" where
  "js_join sep vs = join sep (map (\<lambda>v. if v = JUndef \<or> v = JNull then [] else js_string v) vs)"

end
