(* ===== verification/Guards.thy ===== *)
theory Guards
  imports JsValue
begin

text \<open>
  The guard registry and the guard evaluator of the workflow state machine
  (\<open>packages/foundation/src/workflow/state-machine/guards\<close>).  A guard reads named fields
  of an untyped context object and answers with a result record; the properties show that
  evaluation is fail-closed: a positive answer requires a registered runtime guard, the
  presence of every context field it declares, and the evidence the guard stands for.
\<close>

section \<open>The registry\<close>

datatype runtime_mode = Executable | StaticOnly | DeclaredOnly

record guard_def =
  gd_contextRequired :: "string list"
  gd_riskLevel :: string
  gd_runtimeMode :: runtime_mode

definition guard_entry :: "string list \<Rightarrow> string \<Rightarrow> runtime_mode \<Rightarrow> guard_def" where
  "guard_entry req risk mode = \<lparr>gd_contextRequired = req, gd_riskLevel = risk, gd_runtimeMode = mode\<rparr>"

definition state_machine_guards :: "(string \<times> guard_def) list" where
  "state_machine_guards =
    [(''require_p0_passed_or_waived'', guard_entry [''readinessReport''] ''high'' Executable),
     (''require_baseline_v0_1_scopes_resolved'', guard_entry [''readinessReport'', ''scopeRegistry''] ''medium'' Executable),
     (''require_architect_approval'', guard_entry [''approvalRecord''] ''high'' Executable),
     (''require_approval'', guard_entry [''approvalRecord''] ''medium'' Executable),
     (''require_adoption_policy'', guard_entry [''adoptionPolicy''] ''medium'' Executable),
     (''require_admin'', guard_entry [''subjectPermissions''] ''high'' Executable),
     (''policyAllowed'', guard_entry [''policyDecision''] ''high'' Executable),
     (''appendOnly'', guard_entry [''existingState''] ''high'' Executable),
     (''treeExists'', guard_entry [''treeState''] ''low'' Executable),
     (''nodeExists'', guard_entry [''nodeState''] ''low'' Executable),
     (''previewGenerated'', guard_entry [''previewState''] ''low'' Executable),
     (''noApprovalRequired'', guard_entry [] ''low'' StaticOnly),
     (''approvalApproved'', guard_entry [''approvalRecord''] ''medium'' Executable),
     (''require_policy'', guard_entry [''policyDecision''] ''high'' Executable),
     (''require_ledger'', guard_entry [''operationRecord''] ''high'' Executable),
     (''require_audit'', guard_entry [''auditRecord''] ''medium'' Executable)]"

text \<open>
  The registry is a plain object, so indexing it and the \<open>in\<close> operator also see the
  properties it inherits from \<open>Object.prototype\<close>.
\<close>

definition object_prototype_keys :: "string list" where
  "object_prototype_keys = [''constructor'', ''__defineGetter__'', ''__defineSetter__'',
     ''hasOwnProperty'', ''__lookupGetter__'', ''__lookupSetter__'', ''isPrototypeOf'',
     ''propertyIsEnumerable'', ''toString'', ''valueOf'', ''__proto__'', ''toLocaleString'']"

datatype registry_slot = NoEntry | Inherited | OwnEntry guard_def

definition registry_slot :: "string \<Rightarrow> registry_slot" where
  "registry_slot k =
     (case map_of state_machine_guards k of
        Some d \<Rightarrow> OwnEntry d
      | None \<Rightarrow> if k \<in> set object_prototype_keys then Inherited else NoEntry)"

definition guardExists :: "string \<Rightarrow> bool" where
  "guardExists k = (registry_slot k \<noteq> NoEntry)"

definition listAllGuardIds :: "string list" where
  "listAllGuardIds = map fst state_machine_guards"

text \<open>An inherited property has no \<open>runtimeMode\<close>, which reads as runtime safe.\<close>

definition isGuardRuntimeSafe :: "string \<Rightarrow> bool" where
  "isGuardRuntimeSafe k =
     (case registry_slot k of
        NoEntry \<Rightarrow> False
      | Inherited \<Rightarrow> True
      | OwnEntry d \<Rightarrow> gd_runtimeMode d \<noteq> StaticOnly \<and> gd_runtimeMode d \<noteq> DeclaredOnly)"

definition listAllRuntimeGuardIds :: "string list" where
  "listAllRuntimeGuardIds =
     map fst (filter (\<lambda>p. gd_runtimeMode (snd p) \<noteq> StaticOnly \<and> gd_runtimeMode (snd p) \<noteq> DeclaredOnly)
       state_machine_guards)"

definition isStaticOnlyGuard :: "string \<Rightarrow> bool" where
  "isStaticOnlyGuard k =
     (case registry_slot k of OwnEntry d \<Rightarrow> gd_runtimeMode d = StaticOnly | _ \<Rightarrow> False)"

section \<open>Results\<close>

record guard_result =
  gr_ok :: bool
  gr_guardId :: string
  gr_reason :: "string option"
  gr_rest :: jsobj

definition allow :: "string \<Rightarrow> string \<Rightarrow> guard_result" where
  "allow g r = \<lparr>gr_ok = True, gr_guardId = g, gr_reason = Some r, gr_rest = []\<rparr>"

definition deny :: "string \<Rightarrow> string \<Rightarrow> string \<Rightarrow> jsobj \<Rightarrow> guard_result" where
  "deny g r msg extra =
     \<lparr>gr_ok = False, gr_guardId = g, gr_reason = Some r, gr_rest = (''message'', JStr msg) # extra\<rparr>"

lemma allow_sel [simp]: "gr_ok (allow g r)" "gr_guardId (allow g r) = g"
  by (simp_all add: allow_def)

lemma deny_sel [simp]: "\<not> gr_ok (deny g r m x)" "gr_guardId (deny g r m x) = g"
    "gr_reason (deny g r m x) = Some r"
  by (simp_all add: deny_def)

definition guard_msg :: "string \<Rightarrow> string \<Rightarrow> string" where
  "guard_msg g s = ''Guard '' @ [CHR 0x27] @ g @ [CHR 0x27] @ s"

fun asRecord :: "jsval \<Rightarrow> jsobj" where
  "asRecord (JObj ps) = ps"
| "asRecord _ = []"

fun asRecords :: "jsval \<Rightarrow> jsobj list" where
  "asRecords (JArr vs) = map asRecord vs"
| "asRecords _ = []"

lemma asRecord_prop: "prop_of (asRecord v) k \<noteq> JUndef \<Longrightarrow> \<exists>ps. v = JObj ps"
  by (cases v) (auto simp: prop_of_def)

section \<open>The predicate of each guard\<close>

definition guard_policy :: "string \<Rightarrow> jsobj \<Rightarrow> guard_result" where
  "guard_policy g ctx =
     (let pd = asRecord (prop_of ctx ''policyDecision'');
          decision = js_or (prop_of pd ''decision'') (prop_of pd ''status'')
      in if prop_of pd ''allowed'' = JBool True \<or> decision = JStr ''allow''
         then allow g ''policy_allow''
         else deny g ''policy_not_allowed''
           (guard_msg g '': policyDecision does not allow this transition.'')
           [(''policyDecision'', JObj [(''allowed'', prop_of pd ''allowed''),
              (''decision'', decision), (''status'', prop_of pd ''status'')])])"

definition guard_approval :: "string \<Rightarrow> jsobj \<Rightarrow> guard_result" where
  "guard_approval g ctx =
     (let ar = asRecord (prop_of ctx ''approvalRecord'')
      in if prop_of ar ''status'' = JStr ''approved'' then allow g ''approval_approved''
         else deny g ''approval_not_approved''
           (guard_msg g '': approval record is not in approved state.'')
           [(''approvalRecord'', JObj [(''status'', prop_of ar ''status'')])])"

definition guard_architect :: "string \<Rightarrow> jsobj \<Rightarrow> guard_result" where
  "guard_architect g ctx =
     (let ar = asRecord (prop_of ctx ''approvalRecord'')
      in if ar = [] then deny g ''approval_missing'' ''Architect approval record is missing.'' []
         else if prop_of ar ''status'' \<noteq> JStr ''approved''
         then deny g ''architect_approval_not_approved''
           ''Architect approval record is not in approved state.''
           [(''approvalRecord'', JObj [(''status'', prop_of ar ''status'')])]
         else if \<not> (prop_of ar ''role'' = JStr ''architect'' \<or> prop_of ar ''approverRole'' = JStr ''architect''
               \<or> prop_of ar ''scope'' = JStr ''architect'' \<or> prop_of ar ''type'' = JStr ''architect_approval''
               \<or> prop_of ar ''architectApproved'' = JBool True)
         then deny g ''not_architect_approval''
           ''Approval is present but does not constitute architect approval.'' []
         else allow g ''architect_approved'')"

fun js_elems :: "jsval \<Rightarrow> jsval list" where
  "js_elems (JArr vs) = vs"
| "js_elems _ = []"

definition guard_admin :: "string \<Rightarrow> jsobj \<Rightarrow> guard_result" where
  "guard_admin g ctx =
     (let sp = asRecord (prop_of ctx ''subjectPermissions'');
          roles = js_elems (prop_of sp ''roles'')
      in if prop_of sp ''admin'' = JBool True \<or> JStr ''owner'' \<in> set roles
         then allow g ''admin_authorized''
         else deny g ''not_admin''
           (guard_msg ''require_admin'' '': subject lacks admin authorization.'') [])"

definition guard_append_only :: "string \<Rightarrow> jsobj \<Rightarrow> guard_result" where
  "guard_append_only g ctx =
     (let es = asRecord (prop_of ctx ''existingState'')
      in if prop_of ctx ''existingState'' = JUndef
         then deny g ''missing_context''
           (guard_msg ''appendOnly'' '' requires existingState context to verify no deletion/overwrite.'') []
         else if prop_of es ''_deleted'' = JBool True \<or> prop_of es ''_overwritten'' = JBool True
               \<or> prop_of ctx ''operationType'' = JStr ''delete'' \<or> prop_of ctx ''operationType'' = JStr ''overwrite''
         then deny g ''not_append_only''
           (guard_msg ''appendOnly'' '': operation would delete or overwrite existing records.'') []
         else allow g ''append_only_allowed'')"

definition entity_absent :: "jsobj \<Rightarrow> bool" where
  "entity_absent s \<longleftrightarrow> s = [] \<or> prop_of s ''status'' = JStr ''non-existent'' \<or> prop_of s ''deleted'' = JBool True"

definition guard_tree_exists :: "string \<Rightarrow> jsobj \<Rightarrow> guard_result" where
  "guard_tree_exists g ctx =
     (if entity_absent (asRecord (prop_of ctx ''treeState''))
      then deny g ''tree_not_found'' ''Target checkpoint tree does not exist.'' []
      else allow g ''tree_exists'')"

definition guard_node_exists :: "string \<Rightarrow> jsobj \<Rightarrow> guard_result" where
  "guard_node_exists g ctx =
     (if entity_absent (asRecord (prop_of ctx ''nodeState''))
      then deny g ''node_not_found'' ''Target checkpoint node does not exist.'' []
      else allow g ''node_exists'')"

definition guard_preview :: "string \<Rightarrow> jsobj \<Rightarrow> guard_result" where
  "guard_preview g ctx =
     (if prop_of (asRecord (prop_of ctx ''previewState'')) ''generated'' \<noteq> JBool True
      then deny g ''preview_not_generated'' ''Restore preview must be generated before applying.'' []
      else allow g ''preview_generated'')"

definition guard_ledger :: "string \<Rightarrow> jsobj \<Rightarrow> guard_result" where
  "guard_ledger g ctx =
     (let r = asRecord (prop_of ctx ''operationRecord''); st = prop_of r ''status''
      in if r = [] then deny g ''ledger_missing'' ''Operation ledger entry is missing.'' []
         else if st \<noteq> JStr ''started'' \<and> st \<noteq> JStr ''completed'' \<and> st \<noteq> JStr ''active''
         then deny g ''ledger_not_acceptable''
           (''Operation ledger status '' @ [CHR 0x27] @ js_string st @ [CHR 0x27] @ '' is not acceptable.'')
           [(''operationRecord'', JObj [(''status'', st)])]
         else allow g ''ledger_acceptable'')"

definition guard_audit :: "string \<Rightarrow> jsobj \<Rightarrow> guard_result" where
  "guard_audit g ctx =
     (let r = asRecord (prop_of ctx ''auditRecord''); st = prop_of r ''status''
      in if r = [] then deny g ''audit_missing'' ''Audit record is missing for this transition.'' []
         else if st = JStr ''rejected'' \<or> st = JStr ''deleted'' \<or> st = JStr ''corrupted''
         then deny g ''audit_not_acceptable''
           (''Audit record status '' @ [CHR 0x27] @ js_string st @ [CHR 0x27] @ '' is not acceptable.'')
           [(''auditRecord'', JObj [(''status'', st)])]
         else allow g ''audit_acceptable'')"

definition guard_adoption :: "string \<Rightarrow> jsobj \<Rightarrow> guard_result" where
  "guard_adoption g ctx =
     (let ap = asRecord (prop_of ctx ''adoptionPolicy'')
      in if ap = [] then deny g ''adoption_policy_missing'' ''Adoption policy context is missing.'' []
         else if prop_of ap ''compliant'' \<noteq> JBool True
         then deny g ''adoption_not_compliant''
           ''Adoption does not comply with contribution adoption policy rules.'' []
         else allow g ''adoption_compliant'')"

text \<open>The status test of a readiness scope: \<open>["passed", "waived"].includes(String(scope.status || ""))\<close>.\<close>

definition scope_settled :: "jsobj \<Rightarrow> bool" where
  "scope_settled s =
     (js_string (js_or (prop_of s ''status'') (JStr [])) \<in> {''passed'', ''waived''})"

definition scope_ids :: "jsobj list \<Rightarrow> jsval list" where
  "scope_ids ss = map (\<lambda>s. prop_of s ''scopeId'') ss"

definition guard_p0 :: "string \<Rightarrow> jsobj \<Rightarrow> guard_result" where
  "guard_p0 g ctx =
     (let report = asRecord (prop_of ctx ''readinessReport'');
          failed = filter (\<lambda>s. prop_of s ''productionRequired'' = JBool True \<and> \<not> scope_settled s)
                     (asRecords (prop_of report ''scopes''))
      in if failed \<noteq> []
         then deny g ''p0_scope_not_passed_or_waived''
           (guard_msg g ('': P0 scopes not passed or waived: '' @ js_join '', '' (scope_ids failed) @ ''.''))
           [(''failedScopes'', JArr (scope_ids failed))]
         else allow g ''p0_passed_or_waived'')"

definition guard_baseline :: "string \<Rightarrow> jsobj \<Rightarrow> guard_result" where
  "guard_baseline g ctx =
     (let report = asRecord (prop_of ctx ''readinessReport'');
          scopes = asRecords (prop_of report ''scopes'');
          failed = filter (\<lambda>s. prop_of s ''baselineV0_1Required'' = JBool True \<and> \<not> scope_settled s) scopes;
          unclassified = filter (\<lambda>s. \<not> truthy (prop_of s ''status'')) scopes
      in if failed \<noteq> []
         then deny g ''baseline_scope_not_passed''
           (guard_msg g ('': Baseline scopes not passed: '' @ js_join '', '' (scope_ids failed) @ ''.''))
           [(''failedScopes'', JArr (scope_ids failed))]
         else if unclassified \<noteq> []
         then deny g ''scope_unclassified''
           (guard_msg g ('': Unclassified scopes: '' @ js_join '', '' (scope_ids unclassified) @ ''.''))
           [(''unclassifiedScopes'', JArr (scope_ids unclassified))]
         else allow g ''baseline_resolved'')"

text \<open>The \<open>switch\<close> over the guard id, in the source's order, with its default case.\<close>

definition evaluateGuardPredicate :: "string \<Rightarrow> jsobj \<Rightarrow> guard_result" where
  "evaluateGuardPredicate g ctx =
     (if g = ''policyAllowed'' \<or> g = ''require_policy'' then guard_policy g ctx
      else if g = ''approvalApproved'' \<or> g = ''require_approval'' then guard_approval g ctx
      else if g = ''require_architect_approval'' then guard_architect g ctx
      else if g = ''require_admin'' then guard_admin g ctx
      else if g = ''appendOnly'' then guard_append_only g ctx
      else if g = ''treeExists'' then guard_tree_exists g ctx
      else if g = ''nodeExists'' then guard_node_exists g ctx
      else if g = ''previewGenerated'' then guard_preview g ctx
      else if g = ''require_ledger'' then guard_ledger g ctx
      else if g = ''require_audit'' then guard_audit g ctx
      else if g = ''require_adoption_policy'' then guard_adoption g ctx
      else if g = ''noApprovalRequired'' then allow g ''no_approval_required''
      else if g = ''require_p0_passed_or_waived'' then guard_p0 g ctx
      else if g = ''require_baseline_v0_1_scopes_resolved'' then guard_baseline g ctx
      else deny g ''no_runtime_predicate''
        (guard_msg g '' has no runtime predicate implementation and is not marked staticOnly.'') [])"

section \<open>Evaluation\<close>

datatype guard_error = TypeError

text \<open>The first declared context field that is missing, if any.\<close>

definition missing_field :: "string list \<Rightarrow> jsobj \<Rightarrow> string option" where
  "missing_field req ctx = find (\<lambda>k. prop_of ctx k = JUndef) req"

fun mode_label :: "runtime_mode \<Rightarrow> string" where
  "mode_label StaticOnly = ''staticOnly''"
| "mode_label DeclaredOnly = ''declaredOnly''"
| "mode_label Executable = ''without runtime predicate''"

text \<open>
  An id that names an inherited property finds a definition without \<open>contextRequired\<close>;
  iterating over it throws.
\<close>

definition evaluateGuard :: "jsval \<Rightarrow> jsobj \<Rightarrow> guard_error + guard_result" where
  "evaluateGuard v ctx =
     (let g = js_string (js_or v (JStr []))
      in case registry_slot g of
           NoEntry \<Rightarrow> Inr (deny g ''unknown_guard'' (guard_msg g '' is not registered.'') [])
         | Inherited \<Rightarrow> Inl TypeError
         | OwnEntry d \<Rightarrow>
             (case missing_field (gd_contextRequired d) ctx of
                Some k \<Rightarrow> Inr (deny g ''missing_context''
                  (guard_msg g ('' requires context field '' @ [CHR 0x27] @ k @ [CHR 0x27] @ ''.'')) [])
              | None \<Rightarrow>
                  if \<not> isGuardRuntimeSafe g
                  then Inr (deny g
                    (if gd_runtimeMode d = StaticOnly then ''static_only_guard'' else ''no_runtime_predicate'')
                    (guard_msg g ('' is marked '' @ mode_label (gd_runtimeMode d)
                       @ '' and cannot be used for runtime enforcement.'')) [])
                  else Inr (evaluateGuardPredicate g ctx)))"

definition evaluateGuardSet :: "jsval \<Rightarrow> jsobj \<Rightarrow> guard_error + guard_result list" where
  "evaluateGuardSet ids ctx = map_res (\<lambda>i. evaluateGuard i ctx) (js_elems ids)"

section \<open>Lemmas\<close>

lemmas guard_predicates = guard_policy_def guard_approval_def guard_architect_def guard_admin_def
  guard_append_only_def guard_tree_exists_def guard_node_exists_def guard_preview_def guard_ledger_def
  guard_audit_def guard_adoption_def guard_p0_def guard_baseline_def

lemma guard_predicate_ids:
  "gr_guardId (guard_policy g ctx) = g"
  "gr_guardId (guard_approval g ctx) = g"
  "gr_guardId (guard_architect g ctx) = g"
  "gr_guardId (guard_admin g ctx) = g"
  "gr_guardId (guard_append_only g ctx) = g"
  "gr_guardId (guard_tree_exists g ctx) = g"
  "gr_guardId (guard_node_exists g ctx) = g"
  "gr_guardId (guard_preview g ctx) = g"
  "gr_guardId (guard_ledger g ctx) = g"
  "gr_guardId (guard_audit g ctx) = g"
  "gr_guardId (guard_adoption g ctx) = g"
  "gr_guardId (guard_p0 g ctx) = g"
  "gr_guardId (guard_baseline g ctx) = g"
  by (simp_all add: guard_predicates Let_def)

lemma predicate_guardId [simp]: "gr_guardId (evaluateGuardPredicate g ctx) = g"
  unfolding evaluateGuardPredicate_def by (simp add: guard_predicate_ids)

lemma evaluateGuard_guardId: "evaluateGuard v ctx = Inr r \<Longrightarrow> gr_guardId r = js_string (js_or v (JStr []))"
  by (auto simp: evaluateGuard_def Let_def split: registry_slot.splits option.splits if_splits)

lemma js_or_str_empty: "js_string (js_or (JStr s) (JStr [])) = s"
  by (simp add: js_or_def)

text \<open>Answers come one per id, in the order of the ids, each labelled by its id.\<close>

lemma evaluateGuardSet_ids:
  assumes "evaluateGuardSet (JArr (map JStr gs)) ctx = Inr rs"
  shows "map gr_guardId rs = gs"
proof -
  have "list_all2 (\<lambda>g r. evaluateGuard (JStr g) ctx = Inr r) gs rs"
    using assms by (simp add: evaluateGuardSet_def map_res_Inr_iff list_all2_map1)
  then show ?thesis
    by (induction rule: list_all2_induct) (auto dest: evaluateGuard_guardId simp: js_or_str_empty)
qed

lemma missing_field_None: "missing_field req ctx = None \<longleftrightarrow> (\<forall>k \<in> set req. prop_of ctx k \<noteq> JUndef)"
  by (simp add: missing_field_def find_None_all)

lemma registry_slot_OwnEntry [simp]: "registry_slot g = OwnEntry d \<longleftrightarrow> map_of state_machine_guards g = Some d"
  by (auto simp: registry_slot_def split: option.splits)

lemma evaluateGuard_ok_cases:
  assumes "evaluateGuard v ctx = Inr r" and "gr_ok r"
  obtains d where "map_of state_machine_guards (gr_guardId r) = Some d"
    and "missing_field (gd_contextRequired d) ctx = None"
    and "isGuardRuntimeSafe (gr_guardId r)"
    and "gr_ok (evaluateGuardPredicate (gr_guardId r) ctx)"
proof -
  define g where "g = js_string (js_or v (JStr []))"
  have id: "gr_guardId r = g" using evaluateGuard_guardId [OF assms(1)] by (simp add: g_def)
  from assms obtain d where d: "registry_slot g = OwnEntry d"
    by (auto simp: evaluateGuard_def g_def [symmetric] Let_def split: registry_slot.splits)
  with assms have "missing_field (gd_contextRequired d) ctx = None \<and> isGuardRuntimeSafe g
      \<and> gr_ok (evaluateGuardPredicate g ctx)"
    by (auto simp: evaluateGuard_def g_def [symmetric] Let_def split: option.splits if_splits)
  with d id show ?thesis by (intro that [of d]) simp_all
qed

text \<open>The registered ids are exactly the ones the \<open>switch\<close> handles, and none of them is an inherited name.\<close>

lemma registered_not_inherited: "g \<in> fst ` set state_machine_guards \<Longrightarrow> g \<notin> set object_prototype_keys"
  by (auto simp: state_machine_guards_def object_prototype_keys_def)

text \<open>The field of the context that carries the evidence of a guard.\<close>

definition evidence_field :: "(string \<times> string) list" where
  "evidence_field =
     [(''policyAllowed'', ''policyDecision''), (''require_policy'', ''policyDecision''),
      (''approvalApproved'', ''approvalRecord''), (''require_approval'', ''approvalRecord''),
      (''require_architect_approval'', ''approvalRecord''), (''require_admin'', ''subjectPermissions''),
      (''treeExists'', ''treeState''), (''nodeExists'', ''nodeState''),
      (''previewGenerated'', ''previewState''), (''require_ledger'', ''operationRecord''),
      (''require_audit'', ''auditRecord''), (''require_adoption_policy'', ''adoptionPolicy'')]"

lemma prop_of_Nil [simp]: "prop_of [] k = JUndef"
  by (simp add: prop_of_def)

lemma asRecord_nonempty: "asRecord v \<noteq> [] \<Longrightarrow> \<exists>ps. v = JObj ps \<and> ps \<noteq> []"
  by (cases v) auto

lemma predicate_needs_record:
  assumes "(g, k) \<in> set evidence_field" and "gr_ok (evaluateGuardPredicate g ctx)"
  shows "asRecord (prop_of ctx k) \<noteq> []"
proof
  assume "asRecord (prop_of ctx k) = []"
  then have "\<not> gr_ok (evaluateGuardPredicate g ctx)"
    using assms(1) unfolding evidence_field_def list.set insert_iff prod.inject empty_iff
    by (elim disjE conjE)
      (simp_all add: evaluateGuardPredicate_def guard_predicates js_or_def entity_absent_def)
  with assms(2) show False by contradiction
qed

text \<open>Evaluation throws exactly on the inherited names.\<close>

lemma evaluateGuard_total: "(\<exists>r. evaluateGuard (JStr g) ctx = Inr r) \<longleftrightarrow> g \<notin> set object_prototype_keys"
  using registered_not_inherited [of g]
  by (force simp: evaluateGuard_def js_or_str_empty registry_slot_def Let_def
      split: option.splits dest: map_of_SomeD)

lemma guard_set_total: "(\<exists>rs. evaluateGuardSet (JArr (map JStr gs)) ctx = Inr rs)
    \<longleftrightarrow> set gs \<inter> set object_prototype_keys = {}"
proof -
  have "(\<exists>rs. evaluateGuardSet (JArr (map JStr gs)) ctx = Inr rs) \<longleftrightarrow> (\<forall>g \<in> set gs. \<exists>r. evaluateGuard (JStr g) ctx = Inr r)"
  proof
    assume "\<forall>g \<in> set gs. \<exists>r. evaluateGuard (JStr g) ctx = Inr r"
    then have "\<And>v. v \<in> set (map JStr gs) \<Longrightarrow> \<exists>r. evaluateGuard v ctx = Inr r" by auto
    then show "\<exists>rs. evaluateGuardSet (JArr (map JStr gs)) ctx = Inr rs"
      using map_res_total [of "map JStr gs" "\<lambda>i. evaluateGuard i ctx"] by (simp add: evaluateGuardSet_def)
  qed (auto simp: evaluateGuardSet_def map_res_Inr_iff list_all2_conv_all_nth in_set_conv_nth)
  then show ?thesis using evaluateGuard_total by blast
qed

section \<open>Properties\<close>

text \<open>A positive guard answer implies that the guard is registered, that it is allowed at run
  time, and that every context field it declares was present.\<close>

lemma guard_answer_fail_closed:
  assumes "evaluateGuardSet (JArr ids) ctx = Inr rs" and "r \<in> set rs" and "gr_ok r"
  shows "\<exists>d. map_of state_machine_guards (gr_guardId r) = Some d \<and> gd_runtimeMode d = Executable
           \<and> gr_guardId r \<in> set listAllRuntimeGuardIds
           \<and> (\<forall>k \<in> set (gd_contextRequired d). prop_of ctx k \<noteq> JUndef)"
proof -
  obtain v where "evaluateGuard v ctx = Inr r"
    using assms(1,2) by (auto simp: evaluateGuardSet_def map_res_Inr_iff list_all2_conv_all_nth in_set_conv_nth)
  then obtain d where d: "map_of state_machine_guards (gr_guardId r) = Some d"
      "missing_field (gd_contextRequired d) ctx = None" "isGuardRuntimeSafe (gr_guardId r)"
    using assms(3) by (rule evaluateGuard_ok_cases)
  from d(1) have "registry_slot (gr_guardId r) = OwnEntry d" by simp
  with d(3) have m: "gd_runtimeMode d \<noteq> StaticOnly" "gd_runtimeMode d \<noteq> DeclaredOnly"
    by (simp_all add: isGuardRuntimeSafe_def)
  then have "gr_guardId r \<in> set listAllRuntimeGuardIds"
    using map_of_SomeD [OF d(1)] by (force simp: listAllRuntimeGuardIds_def)
  with d m show ?thesis by (cases "gd_runtimeMode d") (auto simp: missing_field_None)
qed

lemma guard_answer_fail_closed_witness:
  "\<exists>r. evaluateGuardSet (JArr [JStr ''require_approval''])
        [(''approvalRecord'', JObj [(''status'', JStr ''approved'')])] = Inr [r]
     \<and> gr_ok r \<and> gr_guardId r \<in> set listAllRuntimeGuardIds"
proof -
  let ?ctx = "[(''approvalRecord'', JObj [(''status'', JStr ''approved'')])]"
  let ?r = "allow ''require_approval'' ''approval_approved''"
  have e: "evaluateGuardSet (JArr [JStr ''require_approval'']) ?ctx = Inr [?r]"
    by (simp add: evaluateGuardSet_def evaluateGuard_def js_or_def registry_slot_def
        state_machine_guards_def guard_entry_def missing_field_def isGuardRuntimeSafe_def
        evaluateGuardPredicate_def guard_approval_def prop_of_def)
  have "?r \<in> set [?r]" and "gr_ok ?r" by simp_all
  from guard_answer_fail_closed [OF e this] e show ?thesis by auto
qed

text \<open>Every guard with an evidence record answers positively only when its context field holds a
  non-empty object; no null, array, string or empty object is ever taken as evidence.\<close>

lemma guard_answer_needs_evidence:
  assumes "(g, k) \<in> set evidence_field" and "evaluateGuard (JStr g) ctx = Inr r" and "gr_ok r"
  shows "\<exists>ps. prop_of ctx k = JObj ps \<and> ps \<noteq> []"
proof -
  from assms(2,3) have "gr_ok (evaluateGuardPredicate (gr_guardId r) ctx)"
    by (rule evaluateGuard_ok_cases)
  moreover have "gr_guardId r = g"
    using evaluateGuard_guardId [OF assms(2)] by (simp add: js_or_str_empty)
  ultimately show ?thesis
    using predicate_needs_record [OF assms(1)] asRecord_nonempty by simp
qed

theorem guard_answer_needs_evidence_witness:
  "\<exists>r. evaluateGuard (JStr ''treeExists'') [(''treeState'', JObj [(''status'', JStr ''open'')])] = Inr r \<and> gr_ok r
     \<and> (\<exists>ps. prop_of [(''treeState'', JObj [(''status'', JStr ''open'')])] ''treeState'' = JObj ps \<and> ps \<noteq> [])"
proof -
  let ?ctx = "[(''treeState'', JObj [(''status'', JStr ''open'')])]"
  let ?r = "allow ''treeExists'' ''tree_exists''"
  have e: "evaluateGuard (JStr ''treeExists'') ?ctx = Inr ?r"
    by (simp add: evaluateGuard_def js_or_def registry_slot_def state_machine_guards_def
        guard_entry_def missing_field_def isGuardRuntimeSafe_def evaluateGuardPredicate_def
        guard_tree_exists_def entity_absent_def prop_of_def)
  have m: "(''treeExists'', ''treeState'') \<in> set evidence_field" by (simp add: evidence_field_def)
  from guard_answer_needs_evidence [OF m e] e show ?thesis by simp
qed

text \<open>Evaluating a list of guard ids returns one answer per id, in order and labelled by its id,
  exactly when no id names a property inherited from \<open>Object.prototype\<close>; such an id throws.\<close>

lemma guard_set_returns_iff:
  "(\<exists>rs. evaluateGuardSet (JArr (map JStr gs)) ctx = Inr rs \<and> map gr_guardId rs = gs)
   \<longleftrightarrow> set gs \<inter> set object_prototype_keys = {}"
  using guard_set_total [of gs ctx] evaluateGuardSet_ids [of gs ctx] by blast

text \<open>The P0 readiness guard, given any defined report, is positive exactly when every scope of
  the report marked as required for production has status passed or waived; a report that is
  not an object or lists no scopes has no such scope and passes.\<close>

lemma p0_guard_iff:
  assumes "prop_of ctx ''readinessReport'' \<noteq> JUndef"
  shows "\<exists>r. evaluateGuard (JStr ''require_p0_passed_or_waived'') ctx = Inr r
    \<and> (gr_ok r \<longleftrightarrow> (\<forall>s \<in> set (asRecords (prop_of (asRecord (prop_of ctx ''readinessReport'')) ''scopes'')).
          prop_of s ''productionRequired'' = JBool True \<longrightarrow> scope_settled s))"
proof -
  have "evaluateGuard (JStr ''require_p0_passed_or_waived'') ctx
      = Inr (guard_p0 ''require_p0_passed_or_waived'' ctx)"
    using assms
    by (simp add: evaluateGuard_def js_or_def registry_slot_def state_machine_guards_def
        guard_entry_def missing_field_def isGuardRuntimeSafe_def evaluateGuardPredicate_def)
  then show ?thesis by (auto simp: guard_p0_def Let_def filter_empty_conv)
qed

theorem p0_guard_iff_witness:
  "\<exists>r. evaluateGuard (JStr ''require_p0_passed_or_waived'') [(''readinessReport'', JNull)] = Inr r \<and> gr_ok r"
proof -
  have "prop_of [(''readinessReport'', JNull)] ''readinessReport'' \<noteq> JUndef" by (simp add: prop_of_def)
  from p0_guard_iff [OF this] show ?thesis by (simp add: prop_of_def)
qed

end
