(* ===== verification/JsMap.thy ===== *)
theory JsMap
  imports Prelude
begin

text \<open>
  The JavaScript \<open>Map\<close>: an association list with distinct keys in insertion order.
  Storing under an existing key keeps its position, storing under a new one appends, as
  the iteration order of \<open>Map\<close> prescribes.  The locale states the contract the
  components rely on; the interpretation discharges it for the list model.
\<close>

section \<open>The contract of an insertion-ordered store\<close>

locale ordered_store =
  fixes lookup :: "'m \<Rightarrow> 'k \<Rightarrow> 'v option"
    and insert_at :: "'m \<Rightarrow> 'k \<Rightarrow> 'v \<Rightarrow> 'm"
    and delete_at :: "'m \<Rightarrow> 'k \<Rightarrow> 'm"
    and key_list :: "'m \<Rightarrow> 'k list"
    and wf :: "'m \<Rightarrow> bool"
  assumes lookup_insert: "lookup (insert_at m k v) k' = (if k' = k then Some v else lookup m k')"
    and lookup_delete: "lookup (delete_at m k) k' = (if k' = k then None else lookup m k')"
    and keys_lookup: "k \<in> set (key_list m) \<longleftrightarrow> lookup m k \<noteq> None"
    and keys_insert: "key_list (insert_at m k v) =
          (if k \<in> set (key_list m) then key_list m else key_list m @ [k])"
    and keys_delete: "key_list (delete_at m k) = filter (\<lambda>j. j \<noteq> k) (key_list m)"
    and wf_distinct: "wf m \<Longrightarrow> distinct (key_list m)"
    and wf_insert: "wf m \<Longrightarrow> wf (insert_at m k v)"
    and wf_delete: "wf m \<Longrightarrow> wf (delete_at m k)"
begin

lemma insert_same: "lookup (insert_at m k v) k = Some v"
  by (simp add: lookup_insert)

lemma insert_frame: "k' \<noteq> k \<Longrightarrow> lookup (insert_at m k v) k' = lookup m k'"
  by (simp add: lookup_insert)

lemma delete_frame: "k' \<noteq> k \<Longrightarrow> lookup (delete_at m k) k' = lookup m k'"
  by (simp add: lookup_delete)

lemma size_insert_new:
  "lookup m k = None \<Longrightarrow> length (key_list (insert_at m k v)) = Suc (length (key_list m))"
  using keys_lookup [of k m] by (simp add: keys_insert)

lemma size_insert_old:
  "lookup m k \<noteq> None \<Longrightarrow> length (key_list (insert_at m k v)) = length (key_list m)"
  using keys_lookup [of k m] by (simp add: keys_insert)

lemma size_insert_bound:
  "length (key_list m) \<le> n \<Longrightarrow> lookup m k \<noteq> None \<or> length (key_list m) < n
   \<Longrightarrow> length (key_list (insert_at m k v)) \<le> n"
  by (cases "lookup m k = None") (simp_all add: size_insert_new size_insert_old)

lemma size_delete_le: "length (key_list (delete_at m k)) \<le> length (key_list m)"
  by (simp add: keys_delete)

lemma size_delete_present:
  assumes "wf m" and "lookup m k \<noteq> None"
  shows "length (key_list (delete_at m k)) = length (key_list m) - 1"
proof -
  from assms have d: "distinct (key_list m)" and k: "k \<in> set (key_list m)"
    by (simp_all add: wf_distinct keys_lookup)
  have "filter (\<lambda>j. j \<noteq> k) (key_list m) = remove1 k (key_list m)"
    using d distinct_remove1_removeAll [OF d, of k] by (simp add: removeAll_filter_not_eq eq_commute)
  then show ?thesis
    using k by (simp add: keys_delete length_remove1)
qed

lemma insert_delete_roundtrip:
  "lookup m k = None \<Longrightarrow> lookup (delete_at (insert_at m k v) k) = lookup m"
  by (auto simp: fun_eq_iff lookup_delete lookup_insert)

lemma delete_many_lookup:
  "lookup (foldl delete_at m ks) k = (if k \<in> set ks then None else lookup m k)"
  by (induction ks arbitrary: m) (auto simp: lookup_delete)

lemma delete_many_wf: "wf m \<Longrightarrow> wf (foldl delete_at m ks)"
  by (induction ks arbitrary: m) (auto simp: wf_delete)

end

section \<open>The list model\<close>

type_synonym ('k, 'v) jsmap = "('k \<times> 'v) list"

abbreviation map_get :: "('k, 'v) jsmap \<Rightarrow> 'k \<Rightarrow> 'v option" where
  "map_get m k \<equiv> map_of m k"

definition map_has :: "('k, 'v) jsmap \<Rightarrow> 'k \<Rightarrow> bool" where
  "map_has m k = (map_of m k \<noteq> None)"

fun map_set :: "('k, 'v) jsmap \<Rightarrow> 'k \<Rightarrow> 'v \<Rightarrow> ('k, 'v) jsmap" where
  "map_set [] k v = [(k, v)]"
| "map_set ((j, u) # m) k v = (if j = k then (j, v) # m else (j, u) # map_set m k v)"

definition map_del :: "('k, 'v) jsmap \<Rightarrow> 'k \<Rightarrow> ('k, 'v) jsmap" where
  "map_del m k = filter (\<lambda>p. fst p \<noteq> k) m"

definition wf_map :: "('k, 'v) jsmap \<Rightarrow> bool" where
  "wf_map m = distinct (map fst m)"

lemma map_of_map_set [simp]: "map_of (map_set m k v) k' = (if k' = k then Some v else map_of m k')"
  by (induction m k v rule: map_set.induct) auto

lemma keys_map_set: "map fst (map_set m k v) =
    (if k \<in> fst ` set m then map fst m else map fst m @ [k])"
  by (induction m k v rule: map_set.induct) auto

lemma map_of_map_del [simp]: "map_of (map_del m k) k' = (if k' = k then None else map_of m k')"
  by (auto simp: map_del_def map_of_filter_key [where P = "\<lambda>j. j \<noteq> k"])

lemma keys_map_del: "map fst (map_del m k) = filter (\<lambda>j. j \<noteq> k) (map fst m)"
  by (simp add: map_del_def filter_map comp_def)

lemma set_map_del: "set (map_del m k) = {p \<in> set m. fst p \<noteq> k}"
  by (auto simp: map_del_def)

lemma wf_map_Nil [simp]: "wf_map []"
  by (simp add: wf_map_def)

lemma wf_map_map_del [simp]: "wf_map m \<Longrightarrow> wf_map (map_del m k)"
  by (simp add: wf_map_def keys_map_del)

lemma wf_map_map_set [simp]: "wf_map m \<Longrightarrow> wf_map (map_set m k v)"
  by (simp add: wf_map_def keys_map_set)

interpretation js_store: ordered_store "map_of :: ('k, 'v) jsmap \<Rightarrow> 'k \<Rightarrow> 'v option"
  map_set map_del "map fst" wf_map
proof unfold_locales
  fix k :: 'k and m :: "('k, 'v) jsmap"
  show "k \<in> set (map fst m) \<longleftrightarrow> map_of m k \<noteq> None"
    by (metis domIff dom_map_of_conv_image_fst image_set)
next
  fix m :: "('k, 'v) jsmap" and k v
  show "map fst (map_set m k v) =
      (if k \<in> set (map fst m) then map fst m else map fst m @ [k])"
    by (simp add: keys_map_set)
qed (simp_all add: keys_map_del wf_map_def keys_map_set)

text \<open>In a well-formed map the entries and the lookups agree.\<close>

lemma wf_map_in_set: "wf_map m \<Longrightarrow> (k, v) \<in> set m \<longleftrightarrow> map_of m k = Some v"
  by (auto simp: wf_map_def dest: map_of_SomeD)

lemma set_map_set: "wf_map m \<Longrightarrow> set (map_set m k v) = insert (k, v) {p \<in> set m. fst p \<noteq> k}"
  by (auto simp: wf_map_in_set set_eq_iff split: if_splits)

lemma length_map_set: "length (map_set m k v) = (if map_of m k = None then Suc (length m) else length m)"
  using js_store.size_insert_new [of m k v] js_store.size_insert_old [of m k v] by simp

lemma length_map_del_le: "length (map_del m k) \<le> length m"
  by (simp add: map_del_def)

text \<open>Sums over the entries: the aggregate counters the components report, and the collections of
  items spread over them.\<close>

definition map_sum :: "('v \<Rightarrow> 'a::comm_monoid_add) \<Rightarrow> ('k, 'v) jsmap \<Rightarrow> 'a" where
  "map_sum f m = sum_list (map (f \<circ> snd) m)"

lemma map_sum_set_old: "map_of m k = Some u \<Longrightarrow> map_sum f (map_set m k v) + f u = map_sum f m + f v"
  by (induction m k v rule: map_set.induct) (auto simp: map_sum_def ac_simps split: if_splits)

lemma map_sum_set_new: "map_of m k = None \<Longrightarrow> map_sum f (map_set m k v) = map_sum f m + f v"
  by (induction m k v rule: map_set.induct) (auto simp: map_sum_def ac_simps split: if_splits)

lemma map_sum_del: "wf_map m \<Longrightarrow> map_of m k = Some u \<Longrightarrow> map_sum f (map_del m k) + f u = map_sum f m"
proof (induction m)
  case (Cons p m)
  show ?case
  proof (cases "fst p = k")
    case True
    with Cons.prems have "k \<notin> fst ` set m" by (auto simp: wf_map_def)
    then have "filter (\<lambda>q. fst q \<noteq> k) m = m" by (force simp: filter_id_conv)
    with True Cons.prems show ?thesis by (auto simp: map_sum_def map_del_def ac_simps split: prod.splits)
  next
    case False
    with Cons show ?thesis by (cases p) (simp add: map_sum_def map_del_def wf_map_def ac_simps)
  qed
qed simp

lemma map_sum_map: "map_sum f (map (\<lambda>(k, b). (k, g b)) m) = map_sum (f \<circ> g) m"
  by (induction m) (auto simp: map_sum_def)

lemma map_sum_filter: "(\<And>p. p \<in> set m \<Longrightarrow> \<not> P p \<Longrightarrow> f (snd p) = 0) \<Longrightarrow> map_sum f (filter P m) = map_sum f m"
  by (induction m) (auto simp: map_sum_def)

lemma map_sum_cong: "(\<And>p. p \<in> set m \<Longrightarrow> f (snd p) = g (snd p)) \<Longrightarrow> map_sum f m = map_sum g m"
  by (induction m) (auto simp: map_sum_def)

text \<open>Updating every value.\<close>

lemma map_of_map_values [simp]: "map_of (map (\<lambda>(k, b). (k, g b)) m) k = map_option g (map_of m k)"
  by (induction m) auto

lemma keys_map_values [simp]: "map fst (map (\<lambda>(k, b). (k, g b)) m) = map fst m"
  by (induction m) auto

lemma wf_map_map_values [simp]: "wf_map (map (\<lambda>(k, b). (k, g b)) m) = wf_map m"
  unfolding wf_map_def keys_map_values by (rule refl)

lemma wf_map_filter: "wf_map m \<Longrightarrow> wf_map (filter P m)"
  by (induction m) (auto simp: wf_map_def)

lemma map_of_filter_values: "wf_map m \<Longrightarrow>
    map_of (filter (\<lambda>p. P (snd p)) m) k = (case map_of m k of None \<Rightarrow> None | Some v \<Rightarrow> if P v then Some v else None)"
proof (induction m)
  case (Cons p m)
  then have "fst p \<notin> fst ` set m" by (simp add: wf_map_def)
  then have "fst p \<notin> fst ` set (filter (\<lambda>p. P (snd p)) m)" by auto
  then have "map_of (filter (\<lambda>p. P (snd p)) m) (fst p) = None" by (simp add: map_of_eq_None_iff)
  with Cons show ?case by (cases p) (auto simp: wf_map_def)
qed simp

end
