(* ===== verification/Machine.thy ===== *)
theory Machine
  imports JsValue JsMap
begin

text \<open>
  State machine definitions and their topology checks
  (\<open>engine/state-machine-result-types.ts\<close>, \<open>verification/state-machine-definition-schema.ts\<close> and
  \<open>verification/state-machine-topology.ts\<close> under
  \<open>packages/foundation/src/workflow/state-machine\<close>).  A check that throws returns the
  message of the thrown error, \<open>None\<close> when it passes.
\<close>

section \<open>Definitions\<close>

record state_def =
  sd_id :: string
  sd_terminal :: bool
  sd_externalEntry :: bool
  sd_waiting :: bool
  sd_passive :: bool

record event_def =
  ed_id :: string
  ed_idempotent :: bool
  ed_riskLevel :: "string option"

record matrix_cell =
  cl_from :: string
  cl_event :: string
  cl_result :: string
  cl_to :: "string option"
  cl_errorCode :: "string option"
  cl_reopen :: bool
  cl_guards :: "string list option"
  cl_requiredGuards :: "string list option"
  cl_sideEffects :: "string list option"

record machine_def =
  md_machineId :: string
  md_entityType :: string
  md_initialState :: string
  md_states :: "state_def list"
  md_events :: "event_def list"
  md_totalMatrix :: "matrix_cell list"
  md_allowedTerminalEvents :: "string list option"

definition valid_transition_results :: "string list" where
  "valid_transition_results = [''legal_transition'', ''illegal_transition'', ''ignored_idempotent_event'',
     ''requires_policy'', ''requires_approval'', ''requires_external_receipt'', ''deferred_async_transition'']"

definition reachable_transition_results :: "string list" where
  "reachable_transition_results = [''legal_transition'', ''requires_policy'', ''requires_approval'',
     ''requires_external_receipt'', ''deferred_async_transition'']"

definition opt_list :: "'a list option \<Rightarrow> 'a list" where
  "opt_list o' = (case o' of None \<Rightarrow> [] | Some xs \<Rightarrow> xs)"

lemma opt_list_simps [simp]: "opt_list None = []" "opt_list (Some xs) = xs"
  by (simp_all add: opt_list_def)

abbreviation is_illegal :: "matrix_cell \<Rightarrow> bool" where
  "is_illegal c \<equiv> cl_result c = ''illegal_transition''"

abbreviation is_ignored :: "matrix_cell \<Rightarrow> bool" where
  "is_ignored c \<equiv> cl_result c = ''ignored_idempotent_event''"

text \<open>The guard ids of a cell: \<open>[...(cell.guards || []), ...(cell.requiredGuards || [])]\<close>.\<close>

definition cell_guards :: "matrix_cell \<Rightarrow> string list" where
  "cell_guards c = opt_list (cl_guards c) @ opt_list (cl_requiredGuards c)"

text \<open>The state a cell leads to: \<open>cell.to || current\<close>, where the cell leaves the current state.\<close>

definition cell_target :: "matrix_cell \<Rightarrow> string" where
  "cell_target c = str_or (cl_to c) (cl_from c)"

section \<open>Error codes\<close>

text \<open>The constants of \<open>ERROR_CODES\<close>, kept folded so that proofs do not look into the strings.\<close>

definition err_invalid_definition :: string where
  "err_invalid_definition = ''STATE_MACHINE_INVALID_DEFINITION''"

definition err_unknown_status :: string where
  "err_unknown_status = ''STATE_MACHINE_UNKNOWN_STATUS''"

definition err_unknown_event :: string where
  "err_unknown_event = ''STATE_MACHINE_UNKNOWN_EVENT''"

definition err_transition_not_allowed :: string where
  "err_transition_not_allowed = ''STATE_MACHINE_TRANSITION_NOT_ALLOWED''"

definition err_guard_blocked :: string where
  "err_guard_blocked = ''STATE_MACHINE_GUARD_BLOCKED''"

definition err_guard_unknown :: string where
  "err_guard_unknown = ''STATE_MACHINE_GUARD_UNKNOWN''"

definition err_guard_context_missing :: string where
  "err_guard_context_missing = ''STATE_MACHINE_GUARD_CONTEXT_MISSING''"

definition err_ambiguous_transition :: string where
  "err_ambiguous_transition = ''STATE_MACHINE_AMBIGUOUS_TRANSITION''"

definition err_invalid_input :: string where
  "err_invalid_input = ''STATE_MACHINE_INVALID_INPUT''"

definition err_guard_injection_rejected :: string where
  "err_guard_injection_rejected = ''STATE_MACHINE_GUARD_INJECTION_REJECTED''"

section \<open>Totality\<close>

definition cell_key :: "string \<Rightarrow> string \<Rightarrow> string" where
  "cell_key s e = s @ ''::'' @ e"

definition groupMatrixCells :: "matrix_cell list \<Rightarrow> (string, matrix_cell list) jsmap" where
  "groupMatrixCells cells =
     foldl (\<lambda>m c. let k = cell_key (cl_from c) (cl_event c)
                  in case map_get m k of
                       Some cs \<Rightarrow> map_set m k (cs @ [c])
                     | None \<Rightarrow> map_set m k [c]) [] cells"

definition missing_keys :: "machine_def \<Rightarrow> string list" where
  "missing_keys d =
     (let groups = groupMatrixCells (md_totalMatrix d)
      in concat (map (\<lambda>s. filter (\<lambda>k. \<not> map_has groups k)
           (map (\<lambda>e. cell_key (sd_id s) (ed_id e)) (md_events d))) (md_states d)))"

definition group_error :: "string \<times> matrix_cell list \<Rightarrow> string option" where
  "group_error g =
     (let (key, cells) = g;
          illegal = filter is_illegal cells;
          executable = filter (\<lambda>c. \<not> is_illegal c) cells;
          unguarded = filter (\<lambda>c. opt_list (cl_guards c) = [] \<and> opt_list (cl_requiredGuards c) = []) executable
      in if length cells = 1 then None
         else if length illegal > 1 then Some (''Matrix cell '' @ key @ '' contains duplicate illegal outcomes'')
         else if length unguarded > 0 then Some (''Duplicate unguarded outcomes for '' @ key
                @ ''; multiple executable outcomes require fully guarded disambiguation'')
         else None)"

definition assertMatrixTotality :: "machine_def \<Rightarrow> string option" where
  "assertMatrixTotality d =
     (let missing = missing_keys d
      in if length missing > 0
         then Some (''Matrix totality check failed. Missing '' @ show_nat (length missing)
                      @ '' cells: '' @ join '', '' missing)
         else first_error (map group_error (groupMatrixCells (md_totalMatrix d))))"

section \<open>Reachability\<close>

definition advances :: "matrix_cell \<Rightarrow> bool" where
  "advances c = (cl_result c \<in> set reachable_transition_results)"

text \<open>One round of the breadth-first search: the targets of the current state that were not seen
  before are added to the set and to the end of the queue.\<close>

definition bfs_visit :: "matrix_cell list \<Rightarrow> string \<Rightarrow> string list \<Rightarrow> string list \<times> string list" where
  "bfs_visit cells cur seen =
     foldl (\<lambda>(seen, new) c.
        if cl_from c \<noteq> cur \<or> \<not> advances c then (seen, new)
        else (let target = str_or (cl_to c) cur
              in if target \<in> set seen then (seen, new) else (seen @ [target], new @ [target])))
       (seen, []) cells"

lemma bfs_visit_props:
  assumes "bfs_visit cells cur seen = (seen', new)"
  shows "seen' = seen @ new" and "distinct new" and "set new \<inter> set seen = {}"
    and "set new = {str_or (cl_to c) cur | c. c \<in> set cells \<and> cl_from c = cur \<and> advances c} - set seen"
proof -
  have "fst (bfs_visit cells cur seen) = seen @ snd (bfs_visit cells cur seen)
    \<and> distinct (snd (bfs_visit cells cur seen)) \<and> set (snd (bfs_visit cells cur seen)) \<inter> set seen = {}
    \<and> set (snd (bfs_visit cells cur seen))
      = {str_or (cl_to c) cur | c. c \<in> set cells \<and> cl_from c = cur \<and> advances c} - set seen"
  proof (induction cells rule: rev_induct)
    case (snoc c cells)
    then show ?case
      by (cases "bfs_visit cells cur seen") (auto simp: bfs_visit_def Let_def)
  qed (simp add: bfs_visit_def)
  with assms show "seen' = seen @ new" "distinct new" "set new \<inter> set seen = {}"
    "set new = {str_or (cl_to c) cur | c. c \<in> set cells \<and> cl_from c = cur \<and> advances c} - set seen"
    by auto
qed

definition cell_targets :: "matrix_cell list \<Rightarrow> string set" where
  "cell_targets cells = cell_target ` set cells"

lemma bfs_visit_measure:
  assumes "bfs_visit cells cur seen = (seen', new)"
  shows "card (cell_targets cells - set seen') + length new = card (cell_targets cells - set seen)"
proof -
  note p = bfs_visit_props [OF assms]
  have sub: "set new \<subseteq> cell_targets cells - set seen"
    using p(4) by (auto simp: cell_targets_def cell_target_def)
  have fin: "finite (cell_targets cells - set seen)" by (simp add: cell_targets_def)
  have "cell_targets cells - set seen' = (cell_targets cells - set seen) - set new"
    using p(1) by auto
  then have "card (cell_targets cells - set seen') = card (cell_targets cells - set seen) - card (set new)"
    using card_Diff_subset [OF finite_set sub] by simp
  moreover have "card (set new) \<le> card (cell_targets cells - set seen)"
    by (rule card_mono [OF fin sub])
  ultimately show ?thesis using distinct_card [OF p(2)] by simp
qed

function bfs :: "matrix_cell list \<Rightarrow> string list \<Rightarrow> string list \<Rightarrow> string list" where
  "bfs cells seen [] = seen"
| "bfs cells seen (cur # queue) =
     (let (seen', new) = bfs_visit cells cur seen in bfs cells seen' (queue @ new))"
  by pat_completeness auto
termination
proof (relation "measure (\<lambda>(cells, seen, queue). length queue + card (cell_targets cells - set seen))")
  fix cells seen cur queue x seen' new
  assume "x = bfs_visit cells cur seen" and "(seen', new) = x"
  then have "card (cell_targets cells - set seen') + length new = card (cell_targets cells - set seen)"
    by (intro bfs_visit_measure) simp
  then show "((cells, seen', queue @ new), cells, seen, cur # queue)
      \<in> measure (\<lambda>(cells, seen, queue). length queue + card (cell_targets cells - set seen))"
    by simp
qed simp

definition assertReachability :: "machine_def \<Rightarrow> string option" where
  "assertReachability d =
     (let reachable = bfs (md_totalMatrix d) [md_initialState d] [md_initialState d];
          unreachable = map sd_id (filter (\<lambda>s. \<not> sd_externalEntry s \<and> sd_id s \<notin> set reachable) (md_states d))
      in if length unreachable > 0
         then Some (''Reachability check failed. Unreachable states: '' @ join '', '' unreachable) else None)"

section \<open>The other checks\<close>

definition has_outgoing :: "matrix_cell list \<Rightarrow> string \<Rightarrow> bool" where
  "has_outgoing cells s =
     (\<exists>c \<in> set cells. cl_from c = s \<and> (case cl_to c of None \<Rightarrow> False | Some t \<Rightarrow> t \<noteq> [] \<and> t \<noteq> s)
        \<and> \<not> is_illegal c \<and> \<not> is_ignored c)"

definition assertNonTerminalTransitions :: "machine_def \<Rightarrow> string option" where
  "assertNonTerminalTransitions d =
     first_error (map (\<lambda>s. check (sd_terminal s \<or> sd_passive s \<or> sd_waiting s
           \<or> has_outgoing (md_totalMatrix d) (sd_id s))
         (''Non-terminal state '' @ [CHR 0x27] @ sd_id s @ [CHR 0x27]
            @ '' must have an outgoing transition or be marked passive'')) (md_states d))"

definition terminal_cell_allowed :: "machine_def \<Rightarrow> matrix_cell \<Rightarrow> bool" where
  "terminal_cell_allowed d c =
     (is_illegal c \<or> is_ignored c
      \<or> (case map_of (rev (map (\<lambda>e. (ed_id e, e)) (md_events d))) (cl_event c) of
           None \<Rightarrow> False | Some e \<Rightarrow> ed_idempotent e)
      \<or> cl_event c \<in> set (opt_list (md_allowedTerminalEvents d)) \<or> cl_reopen c)"

definition assertTerminalSemantics :: "machine_def \<Rightarrow> string option" where
  "assertTerminalSemantics d =
     first_error (concat (map (\<lambda>s. map (\<lambda>c. check (terminal_cell_allowed d c)
           (''Terminal state '' @ [CHR 0x27] @ sd_id s @ [CHR 0x27] @ '' has invalid outgoing transition on ''
              @ [CHR 0x27] @ cl_event c @ [CHR 0x27]))
         (filter (\<lambda>c. cl_from c = sd_id s) (md_totalMatrix d))) (filter sd_terminal (md_states d))))"

definition assertIllegalTransitionErrorCodes :: "machine_def \<Rightarrow> string option" where
  "assertIllegalTransitionErrorCodes d =
     first_error (map (\<lambda>c. check (\<not> (is_illegal c \<and> str_or (cl_errorCode c) [] = []))
         (''Illegal transition from '' @ [CHR 0x27] @ cl_from c @ [CHR 0x27] @ '' on ''
            @ [CHR 0x27] @ cl_event c @ [CHR 0x27] @ '' is missing '' @ [CHR 0x27] @ ''errorCode'' @ [CHR 0x27]))
       (md_totalMatrix d))"

definition cell_reference_error :: "string set \<Rightarrow> string set \<Rightarrow> matrix_cell \<Rightarrow> string option" where
  "cell_reference_error states events c =
     (if cl_from c \<notin> states
      then Some (''Matrix cell references unknown state '' @ [CHR 0x27] @ cl_from c @ [CHR 0x27] @ '' (from field)'')
      else if cl_event c \<notin> events
      then Some (''Matrix cell references unknown event '' @ [CHR 0x27] @ cl_event c @ [CHR 0x27])
      else case cl_to c of
             None \<Rightarrow> None
           | Some t \<Rightarrow> if t \<noteq> [] \<and> t \<notin> states
               then Some (''Matrix cell references unknown state '' @ [CHR 0x27] @ t @ [CHR 0x27] @ '' (to field)'')
               else None)"

definition assertCellReferences :: "machine_def \<Rightarrow> string option" where
  "assertCellReferences d =
     first_error (map (cell_reference_error (sd_id ` set (md_states d)) (ed_id ` set (md_events d)))
       (md_totalMatrix d))"

definition validateStateMachineTopology :: "machine_def \<Rightarrow> bool \<times> string list" where
  "validateStateMachineTopology d =
     (let errors = List.map_filter (\<lambda>chk. chk d)
        [assertMatrixTotality, assertReachability, assertNonTerminalTransitions,
         assertTerminalSemantics, assertIllegalTransitionErrorCodes, assertCellReferences]
      in (length errors = 0, errors))"

section \<open>Grouping\<close>

lemma groupMatrixCells_snoc: "groupMatrixCells (cells @ [c]) =
    (let m = groupMatrixCells cells; k = cell_key (cl_from c) (cl_event c)
     in map_set m k ((case map_of m k of Some cs \<Rightarrow> cs | None \<Rightarrow> []) @ [c]))"
  by (simp add: groupMatrixCells_def Let_def split: option.splits)

definition cells_at :: "matrix_cell list \<Rightarrow> string \<Rightarrow> matrix_cell list" where
  "cells_at cells k = filter (\<lambda>c. cell_key (cl_from c) (cl_event c) = k) cells"

lemma cells_at_Nil_iff: "cells_at cells k = [] \<longleftrightarrow> (\<forall>c \<in> set cells. cell_key (cl_from c) (cl_event c) \<noteq> k)"
  by (simp add: cells_at_def filter_empty_conv)

lemma groupMatrixCells_lookup:
  "map_of (groupMatrixCells cells) k = (if cells_at cells k = [] then None else Some (cells_at cells k))"
proof (induction cells rule: rev_induct)
  case Nil
  then show ?case by (simp add: groupMatrixCells_def cells_at_def)
next
  case (snoc c cells)
  then show ?case
    by (auto simp: groupMatrixCells_snoc Let_def cells_at_def)
qed

lemma groupMatrixCells_wf: "wf_map (groupMatrixCells cells)"
proof (induction cells rule: rev_induct)
  case (snoc c cells)
  then show ?case by (simp add: groupMatrixCells_snoc Let_def)
qed (simp add: groupMatrixCells_def)

lemma groupMatrixCells_entries:
  "(k, cs) \<in> set (groupMatrixCells cells) \<longleftrightarrow> cs \<noteq> [] \<and> cs = cells_at cells k"
  using wf_map_in_set [OF groupMatrixCells_wf, of k cs cells] by (auto simp: groupMatrixCells_lookup)

lemma missing_keys_Nil_iff:
  "missing_keys d = [] \<longleftrightarrow> (\<forall>s \<in> set (md_states d). \<forall>e \<in> set (md_events d).
      cells_at (md_totalMatrix d) (cell_key (sd_id s) (ed_id e)) \<noteq> [])"
  by (auto simp: missing_keys_def map_has_def groupMatrixCells_lookup filter_empty_conv split: if_splits)

text \<open>A state id without a colon splits back out of a key in one way only.\<close>

lemma append_sep_eq:
  "c \<notin> set a \<Longrightarrow> c \<notin> set a' \<Longrightarrow> a @ c # b = a' @ c # b' \<longleftrightarrow> a = a' \<and> b = b'"
proof (induction a arbitrary: a')
  case Nil
  then show ?case by (cases a') auto
next
  case (Cons x a)
  then show ?case by (cases a') auto
qed

lemma cell_key_inject:
  "CHR '':'' \<notin> set s \<Longrightarrow> CHR '':'' \<notin> set s' \<Longrightarrow> cell_key s e = cell_key s' e' \<longleftrightarrow> s = s' \<and> e = e'"
  by (simp add: cell_key_def append_sep_eq)

definition colon_free :: "machine_def \<Rightarrow> bool" where
  "colon_free d \<longleftrightarrow> (\<forall>s \<in> set (md_states d). CHR '':'' \<notin> set (sd_id s))
      \<and> (\<forall>c \<in> set (md_totalMatrix d). CHR '':'' \<notin> set (cl_from c))"

section \<open>The search finds exactly the reachable states\<close>

inductive machine_reach :: "matrix_cell list \<Rightarrow> string \<Rightarrow> string \<Rightarrow> bool"
  for cells :: "matrix_cell list" and init :: string where
  mr_init: "machine_reach cells init init"
| mr_step: "machine_reach cells init (cl_from c) \<Longrightarrow> c \<in> set cells \<Longrightarrow> advances c
     \<Longrightarrow> machine_reach cells init (cell_target c)"

lemma bfs_sound:
  assumes "\<forall>s \<in> set seen \<union> set queue. machine_reach cells init s" and "s \<in> set (bfs cells seen queue)"
  shows "machine_reach cells init s"
  using assms
proof (induction cells seen queue rule: bfs.induct)
  case (2 cells seen cur queue)
  obtain seen' new where v: "bfs_visit cells cur seen = (seen', new)" by fastforce
  note p = bfs_visit_props [OF v]
  have "\<forall>s \<in> set new. machine_reach cells init s"
  proof
    fix s assume "s \<in> set new"
    then obtain c where c: "s = str_or (cl_to c) cur" "c \<in> set cells" "cl_from c = cur" "advances c"
      using p(4) by auto
    then show "machine_reach cells init s"
      using "2.prems"(1) mr_step [of cells init c] by (simp add: cell_target_def)
  qed
  with "2.prems" p(1) v show ?case
    by (intro "2.IH" [OF v [symmetric] refl]) auto
qed simp

definition explored :: "matrix_cell list \<Rightarrow> string list \<Rightarrow> string \<Rightarrow> bool" where
  "explored cells seen s \<longleftrightarrow> (\<forall>c \<in> set cells. cl_from c = s \<longrightarrow> advances c \<longrightarrow> cell_target c \<in> set seen)"

lemma bfs_complete:
  assumes "\<forall>s \<in> set seen. s \<in> set queue \<or> explored cells seen s"
  shows "set seen \<subseteq> set (bfs cells seen queue)
    \<and> (\<forall>s \<in> set (bfs cells seen queue). explored cells (bfs cells seen queue) s)"
  using assms
proof (induction cells seen queue rule: bfs.induct)
  case (2 cells seen cur queue)
  obtain seen' new where v: "bfs_visit cells cur seen = (seen', new)" by fastforce
  note p = bfs_visit_props [OF v]
  have cur: "explored cells seen' cur"
    using p(1,4) by (auto simp: explored_def cell_target_def)
  have "\<forall>s \<in> set seen'. s \<in> set (queue @ new) \<or> explored cells seen' s"
  proof
    fix s assume "s \<in> set seen'"
    then consider "s \<in> set new" | "s = cur" | "s \<in> set queue" | "explored cells seen s"
      using p(1) "2.prems" by auto
    then show "s \<in> set (queue @ new) \<or> explored cells seen' s"
      using cur p(1) by cases (auto simp: explored_def)
  qed
  from "2.IH" [OF v [symmetric] refl this] show ?case using p(1) v by auto
qed simp

lemma bfs_reach:
  "set (bfs cells [init] [init]) = {s. machine_reach cells init s}"
proof (intro equalityI subsetI)
  fix s assume "s \<in> set (bfs cells [init] [init])"
  then show "s \<in> {s. machine_reach cells init s}"
    using bfs_sound [of "[init]" "[init]" cells init s] by (simp add: mr_init)
next
  fix s assume "s \<in> {s. machine_reach cells init s}"
  then have "machine_reach cells init s" by simp
  then show "s \<in> set (bfs cells [init] [init])"
  proof (induction rule: machine_reach.induct)
    case mr_init
    then show ?case using bfs_complete [of "[init]" "[init]" cells] by simp
  next
    case (mr_step c)
    then show ?case using bfs_complete [of "[init]" "[init]" cells] by (auto simp: explored_def)
  qed
qed

lemma assertReachability_iff:
  "assertReachability d = None \<longleftrightarrow> (\<forall>s \<in> set (md_states d). \<not> sd_externalEntry s
      \<longrightarrow> machine_reach (md_totalMatrix d) (md_initialState d) (sd_id s))"
  by (auto simp: assertReachability_def Let_def bfs_reach filter_empty_conv simp del: bfs.simps)

section \<open>What a passing validation means\<close>

lemma topology_ok_iff: "fst (validateStateMachineTopology d) \<longleftrightarrow>
    assertMatrixTotality d = None \<and> assertReachability d = None \<and> assertNonTerminalTransitions d = None
    \<and> assertTerminalSemantics d = None \<and> assertIllegalTransitionErrorCodes d = None
    \<and> assertCellReferences d = None"
  by (auto simp: validateStateMachineTopology_def List.map_filter_def Let_def split: option.splits)

lemma assertMatrixTotality_iff:
  "assertMatrixTotality d = None \<longleftrightarrow> missing_keys d = []
     \<and> (\<forall>g \<in> set (groupMatrixCells (md_totalMatrix d)). group_error g = None)"
  by (simp add: assertMatrixTotality_def Let_def)

lemma group_error_None_iff:
  "group_error (k, cells) = None \<longleftrightarrow> length cells = 1
     \<or> length (filter is_illegal cells) \<le> 1 \<and> (\<forall>c \<in> set cells. is_illegal c \<or> cell_guards c \<noteq> [])"
  by (auto simp: group_error_def Let_def cell_guards_def filter_empty_conv)

lemma assertTerminalSemantics_iff:
  "assertTerminalSemantics d = None \<longleftrightarrow> (\<forall>s \<in> set (md_states d). sd_terminal s \<longrightarrow>
      (\<forall>c \<in> set (md_totalMatrix d). cl_from c = sd_id s \<longrightarrow> terminal_cell_allowed d c))"
  by (auto simp: assertTerminalSemantics_def)

lemma assertNonTerminalTransitions_iff:
  "assertNonTerminalTransitions d = None \<longleftrightarrow> (\<forall>s \<in> set (md_states d).
      sd_terminal s \<or> sd_passive s \<or> sd_waiting s \<or> has_outgoing (md_totalMatrix d) (sd_id s))"
  by (simp add: assertNonTerminalTransitions_def)

lemma cell_reference_error_None_iff:
  "cell_reference_error S E c = None \<longleftrightarrow> cl_from c \<in> S \<and> cl_event c \<in> E
     \<and> (\<forall>t. cl_to c = Some t \<longrightarrow> t = [] \<or> t \<in> S)"
  by (auto simp: cell_reference_error_def split: option.splits)

lemma assertCellReferences_iff:
  "assertCellReferences d = None \<longleftrightarrow> (\<forall>c \<in> set (md_totalMatrix d).
      cl_from c \<in> sd_id ` set (md_states d) \<and> cl_event c \<in> ed_id ` set (md_events d)
      \<and> (\<forall>t. cl_to c = Some t \<longrightarrow> t = [] \<or> t \<in> sd_id ` set (md_states d)))"
  by (simp add: assertCellReferences_def cell_reference_error_None_iff)

lemma cells_at_colon_free:
  assumes "colon_free d" and "s \<in> set (md_states d)"
  shows "cells_at (md_totalMatrix d) (cell_key (sd_id s) e)
       = filter (\<lambda>c. cl_from c = sd_id s \<and> cl_event c = e) (md_totalMatrix d)"
  unfolding cells_at_def
  by (rule filter_cong) (use assms in \<open>auto simp: colon_free_def cell_key_inject\<close>)

lemma reach_declared:
  assumes "assertCellReferences d = None" and "md_initialState d \<in> sd_id ` set (md_states d)"
    and "machine_reach (md_totalMatrix d) (md_initialState d) s"
  shows "s \<in> sd_id ` set (md_states d)"
  using assms(3)
proof (induction rule: machine_reach.induct)
  case (mr_step c)
  then show ?case
    using assms(1) by (auto simp: assertCellReferences_iff cell_target_def str_or_def split: option.splits)
qed (rule assms(2))

section \<open>A small machine for the witnesses\<close>

definition demo_cell :: "string \<Rightarrow> string \<Rightarrow> string \<Rightarrow> string option \<Rightarrow> matrix_cell" where
  "demo_cell s e r t = \<lparr>cl_from = s, cl_event = e, cl_result = r, cl_to = t, cl_errorCode = Some ''DENIED'',
     cl_reopen = False, cl_guards = None, cl_requiredGuards = None, cl_sideEffects = None\<rparr>"

definition demo_machine :: machine_def where
  "demo_machine = \<lparr>md_machineId = ''demo'', md_entityType = ''demo'', md_initialState = ''open'',
     md_states = [\<lparr>sd_id = ''open'', sd_terminal = False, sd_externalEntry = False, sd_waiting = False, sd_passive = False\<rparr>,
                  \<lparr>sd_id = ''closed'', sd_terminal = True, sd_externalEntry = False, sd_waiting = False, sd_passive = False\<rparr>],
     md_events = [\<lparr>ed_id = ''finish'', ed_idempotent = False, ed_riskLevel = None\<rparr>],
     md_totalMatrix = [demo_cell ''open'' ''finish'' ''legal_transition'' (Some ''closed''),
                       demo_cell ''closed'' ''finish'' ''illegal_transition'' None],
     md_allowedTerminalEvents = None\<rparr>"

lemma demo_machine_groups: "groupMatrixCells (md_totalMatrix demo_machine) =
    [(''open::finish'', [demo_cell ''open'' ''finish'' ''legal_transition'' (Some ''closed'')]),
     (''closed::finish'', [demo_cell ''closed'' ''finish'' ''illegal_transition'' None])]"
  by (simp add: groupMatrixCells_def demo_machine_def demo_cell_def cell_key_def Let_def)

lemma demo_machine_ok: "fst (validateStateMachineTopology demo_machine)"
proof -
  have "assertMatrixTotality demo_machine = None"
    unfolding assertMatrixTotality_def missing_keys_def demo_machine_groups
    by (simp add: demo_machine_def demo_cell_def map_has_def cell_key_def group_error_def)
  moreover have "assertReachability demo_machine = None"
    by code_simp
  moreover have "assertNonTerminalTransitions demo_machine = None"
    by (simp add: assertNonTerminalTransitions_def demo_machine_def demo_cell_def has_outgoing_def)
  moreover have "assertTerminalSemantics demo_machine = None"
    by (simp add: assertTerminalSemantics_def demo_machine_def demo_cell_def terminal_cell_allowed_def)
  moreover have "assertIllegalTransitionErrorCodes demo_machine = None"
    by (simp add: assertIllegalTransitionErrorCodes_def demo_machine_def demo_cell_def str_or_def)
  moreover have "assertCellReferences demo_machine = None"
    by (simp add: assertCellReferences_iff demo_machine_def demo_cell_def)
  ultimately show ?thesis by (simp add: topology_ok_iff)
qed

section \<open>Properties\<close>

text \<open>C31. The reachability check passes exactly when every state that is not marked as an external
  entry is reachable from the initial state by transitions that advance the machine: the
  worklist loop terminates and computes the inductively defined set of reachable states.\<close>

theorem reachability_check_exact:
  "assertReachability d = None \<longleftrightarrow>
     (\<forall>s \<in> set (md_states d). sd_externalEntry s
        \<or> machine_reach (md_totalMatrix d) (md_initialState d) (sd_id s))"
  by (auto simp: assertReachability_iff)

theorem reachability_check_exact_witness: "machine_reach (md_totalMatrix demo_machine) ''open'' ''closed''"
proof -
  have "assertReachability demo_machine = None" by code_simp
  then show ?thesis using reachability_check_exact [of demo_machine] by (simp add: demo_machine_def)
qed

text \<open>In a definition whose topology validates, with ids that do not contain a colon, every
  pair of a declared state and event has a matrix cell, and where it has several, at most
  one is illegal and all the others are guarded.\<close>

lemma validated_topology_total:
  assumes "fst (validateStateMachineTopology d)" and "colon_free d"
    and "s \<in> set (md_states d)" and "e \<in> set (md_events d)"
  shows "let cs = filter (\<lambda>c. cl_from c = sd_id s \<and> cl_event c = ed_id e) (md_totalMatrix d)
         in cs \<noteq> [] \<and> (length cs = 1 \<or> length (filter is_illegal cs) \<le> 1
              \<and> (\<forall>c \<in> set cs. is_illegal c \<or> cell_guards c \<noteq> []))"
proof -
  let ?k = "cell_key (sd_id s) (ed_id e)"
  let ?cs = "cells_at (md_totalMatrix d) ?k"
  from assms(1) have t: "assertMatrixTotality d = None" by (simp add: topology_ok_iff)
  then have ne: "?cs \<noteq> []"
    using assms(3,4) by (simp add: assertMatrixTotality_iff missing_keys_Nil_iff)
  then have "(?k, ?cs) \<in> set (groupMatrixCells (md_totalMatrix d))"
    by (simp add: groupMatrixCells_entries)
  then have "group_error (?k, ?cs) = None" using t by (simp add: assertMatrixTotality_iff)
  with ne show ?thesis
    by (simp add: group_error_None_iff cells_at_colon_free [OF assms(2,3)] Let_def)
qed

theorem validated_topology_total_witness:
  "filter (\<lambda>c. cl_from c = ''closed'' \<and> cl_event c = ''finish'') (md_totalMatrix demo_machine) \<noteq> []"
proof -
  have c: "colon_free demo_machine" by (simp add: colon_free_def demo_machine_def demo_cell_def)
  have s: "\<lparr>sd_id = ''closed'', sd_terminal = True, sd_externalEntry = False, sd_waiting = False, sd_passive = False\<rparr>
      \<in> set (md_states demo_machine)" by (simp add: demo_machine_def)
  have e: "\<lparr>ed_id = ''finish'', ed_idempotent = False, ed_riskLevel = None\<rparr> \<in> set (md_events demo_machine)"
    by (simp add: demo_machine_def)
  from validated_topology_total [OF demo_machine_ok c s e] show ?thesis by (simp add: Let_def)
qed

text \<open>In a definition whose topology validates, with a declared initial state and no external
  entry states, the states reachable from the initial one are exactly the declared ones.\<close>

lemma validated_reachable_states:
  assumes "fst (validateStateMachineTopology d)"
    and "md_initialState d \<in> sd_id ` set (md_states d)"
    and "\<forall>s \<in> set (md_states d). \<not> sd_externalEntry s"
  shows "{s. machine_reach (md_totalMatrix d) (md_initialState d) s} = sd_id ` set (md_states d)"
proof -
  from assms(1) have "assertReachability d = None" and "assertCellReferences d = None"
    by (simp_all add: topology_ok_iff)
  then show ?thesis using reach_declared assms(2,3) by (auto simp: assertReachability_iff)
qed

lemma validated_reachable_states_witness:
  "{s. machine_reach (md_totalMatrix demo_machine) ''open'' s} = {''open'', ''closed''}"
proof -
  have i: "md_initialState demo_machine \<in> sd_id ` set (md_states demo_machine)"
    and x: "\<forall>s \<in> set (md_states demo_machine). \<not> sd_externalEntry s"
    by (simp_all add: demo_machine_def)
  from validated_reachable_states [OF demo_machine_ok i x] show ?thesis
    by (auto simp: demo_machine_def)
qed

end
