(* ===== verification/Selector.thy ===== *)
theory Selector
  imports Guards Machine
begin

text \<open>
  Selection of the matrix cell that answers an event
  (\<open>engine/transition-selector.ts\<close>).  The guard evaluator is an interface: the built-in
  one is the registry of theory Guards, an injected one is an arbitrary function whose
  answer is parsed by \<open>guardResultsFrom\<close>.
\<close>

section \<open>Inputs and results\<close>

record transition_input =
  ti_currentStatus :: string
  ti_eventType :: string
  ti_guardContext :: jsobj
  ti_guardEvaluator :: jsval
  ti_resumePointer :: jsval
  ti_operationId :: jsval
  ti_traceId :: jsval
  ti_metadata :: jsval
  ti_fields :: jsobj

record cell_verdict =
  cv_ok :: bool
  cv_guardResults :: "guard_result list"
  cv_failedGuards :: "string list"
  cv_blockedBy :: "string option"

record selection =
  sel_ok :: bool
  sel_cell :: "matrix_cell option"
  sel_guardResults :: "guard_result list option"
  sel_failedGuards :: "string list option"
  sel_blockedBy :: "string option"
  sel_errorCode :: "string option"
  sel_message :: "string option"
  sel_allowedEvents :: "string list option"
  sel_ambiguousCells :: "string list option"

definition selected :: "matrix_cell \<Rightarrow> guard_result list \<Rightarrow> selection" where
  "selected c rs = \<lparr>sel_ok = True, sel_cell = Some c, sel_guardResults = Some rs, sel_failedGuards = None,
     sel_blockedBy = None, sel_errorCode = None, sel_message = None, sel_allowedEvents = None,
     sel_ambiguousCells = None\<rparr>"

definition refused :: "string \<Rightarrow> string \<Rightarrow> selection" where
  "refused code msg = \<lparr>sel_ok = False, sel_cell = None, sel_guardResults = None, sel_failedGuards = None,
     sel_blockedBy = None, sel_errorCode = Some code, sel_message = Some msg, sel_allowedEvents = None,
     sel_ambiguousCells = None\<rparr>"

lemma selected_sel [simp]: "sel_ok (selected c rs)" "sel_cell (selected c rs) = Some c"
    "sel_guardResults (selected c rs) = Some rs" "sel_errorCode (selected c rs) = None"
  by (simp_all add: selected_def)

lemma refused_sel [simp]: "\<not> sel_ok (refused code msg)" "sel_cell (refused code msg) = None"
    "sel_errorCode (refused code msg) = Some code"
  by (simp_all add: refused_def)

section \<open>Guard answers as values\<close>

fun parse_guard_result :: "jsval \<Rightarrow> guard_result option" where
  "parse_guard_result (JObj ps) =
     (case (prop_of ps ''guardId'', prop_of ps ''ok'') of
        (JStr g, JBool b) \<Rightarrow>
          (let named = (\<lambda>k. k = ''guardId'' \<or> k = ''ok'' \<or> k = ''reason'' \<and> is_string (prop_of ps ''reason''))
           in Some \<lparr>gr_ok = b, gr_guardId = g,
                gr_reason = (case prop_of ps ''reason'' of JStr r \<Rightarrow> Some r | _ \<Rightarrow> None),
                gr_rest = filter (\<lambda>p. \<not> named (fst p)) ps\<rparr>)
      | _ \<Rightarrow> None)"
| "parse_guard_result _ = None"

fun guardResultsFrom :: "jsval \<Rightarrow> guard_result list" where
  "guardResultsFrom (JArr vs) = List.map_filter parse_guard_result vs"
| "guardResultsFrom _ = []"

definition guard_result_value :: "guard_result \<Rightarrow> jsval" where
  "guard_result_value r =
     JObj ([(''ok'', JBool (gr_ok r)), (''guardId'', JStr (gr_guardId r))]
       @ (case gr_reason r of None \<Rightarrow> [] | Some s \<Rightarrow> [(''reason'', JStr s)]) @ gr_rest r)"

type_synonym evaluator = "string list \<Rightarrow> jsobj \<Rightarrow> guard_error + guard_result list"

definition builtin_evaluator :: evaluator where
  "builtin_evaluator gs ctx =
     bind_res (evaluateGuardSet (JArr (map JStr gs)) ctx)
       (\<lambda>rs. Inr (guardResultsFrom (JArr (map guard_result_value rs))))"

definition injected_evaluator :: "(string list \<Rightarrow> jsobj \<Rightarrow> jsval) \<Rightarrow> evaluator" where
  "injected_evaluator f gs ctx = Inr (guardResultsFrom (f gs ctx))"

definition evaluator_of :: "(string list \<Rightarrow> jsobj \<Rightarrow> jsval) option \<Rightarrow> evaluator" where
  "evaluator_of opt = (case opt of Some f \<Rightarrow> injected_evaluator f | None \<Rightarrow> builtin_evaluator)"

section \<open>The guards of one cell\<close>

definition evaluateCellGuards :: "evaluator \<Rightarrow> matrix_cell \<Rightarrow> jsobj \<Rightarrow> guard_error + cell_verdict" where
  "evaluateCellGuards eval cell ctx =
     (let ids = cell_guards cell
      in if ids = []
         then Inr \<lparr>cv_ok = True, cv_guardResults = [], cv_failedGuards = [], cv_blockedBy = None\<rparr>
         else bind_res (eval ids ctx) (\<lambda>rs.
           let failed = filter (\<lambda>r. \<not> gr_ok r) rs
           in Inr \<lparr>cv_ok = (failed = []), cv_guardResults = rs,
                cv_failedGuards = map gr_guardId failed,
                cv_blockedBy = (if failed \<noteq> [] then Some ''guard'' else None)\<rparr>))"

record guard_classes =
  gc_unknown :: "string list"
  gc_missingContext :: "string list"
  gc_blocked :: "string list"

definition classifyFailedGuardsForSelect :: "guard_result list \<Rightarrow> guard_classes" where
  "classifyFailedGuardsForSelect rs =
     foldl (\<lambda>c g. if gr_ok g then c
        else if gr_reason g = Some ''unknown_guard'' then c\<lparr>gc_unknown := gc_unknown c @ [gr_guardId g]\<rparr>
        else if gr_reason g = Some ''missing_context'' then c\<lparr>gc_missingContext := gc_missingContext c @ [gr_guardId g]\<rparr>
        else c\<lparr>gc_blocked := gc_blocked c @ [gr_guardId g]\<rparr>)
       \<lparr>gc_unknown = [], gc_missingContext = [], gc_blocked = []\<rparr> rs"

fun classifyGuardFailureForCode :: "guard_result list \<Rightarrow> string" where
  "classifyGuardFailureForCode [] = err_guard_blocked"
| "classifyGuardFailureForCode (g # gs) =
     (if gr_ok g then classifyGuardFailureForCode gs
      else if gr_reason g = Some ''unknown_guard'' \<or> gr_reason g = Some ''no_runtime_predicate''
      then err_guard_unknown
      else if gr_reason g = Some ''missing_context'' then err_guard_context_missing
      else classifyGuardFailureForCode gs)"

definition guardSummary :: "guard_result list \<Rightarrow> guard_result list option" where
  "guardSummary rs = (if rs = [] then None else Some (map (\<lambda>r. r\<lparr>gr_rest := []\<rparr>) rs))"

definition listAllowedEvents :: "machine_def \<Rightarrow> string \<Rightarrow> string list" where
  "listAllowedEvents d status =
     map cl_event (filter (\<lambda>c. cl_from c = status \<and> \<not> is_illegal c) (md_totalMatrix d))"

section \<open>Selection\<close>

definition arrow :: "string \<Rightarrow> string \<Rightarrow> string" where
  "arrow s e = s @ '' -> '' @ e"

definition msg_illegal :: "string \<Rightarrow> string \<Rightarrow> string" where
  "msg_illegal s e = (''Transition illegal: '' @ arrow s e)"

definition msg_undefined :: "string \<Rightarrow> string \<Rightarrow> string" where
  "msg_undefined s e = (''Transition not defined for '' @ arrow s e)"

definition msg_all_illegal :: "string \<Rightarrow> string \<Rightarrow> string" where
  "msg_all_illegal s e = (''All transitions for '' @ arrow s e @ '' are illegal.'')"

definition msg_ambiguous_unguarded :: "nat \<Rightarrow> string \<Rightarrow> string \<Rightarrow> string" where
  "msg_ambiguous_unguarded n s e = (''Ambiguous transition: '' @ show_nat n @ '' unguarded cells match '' @ arrow s e @ ''.'')"

definition msg_ambiguous_guarded :: "nat \<Rightarrow> string \<Rightarrow> string \<Rightarrow> string" where
  "msg_ambiguous_guarded n s e = (''Ambiguous transition: '' @ show_nat n @ '' guarded cells pass for '' @ arrow s e @ ''.'')"

definition msg_unknown_guards :: "string list \<Rightarrow> string" where
  "msg_unknown_guards gs = (''Unknown guard(s): '' @ join '', '' gs @ ''.'')"

definition msg_missing_context :: "string list \<Rightarrow> string" where
  "msg_missing_context gs = (''Missing guard context for: '' @ join '', '' gs @ ''.'')"

definition msg_blocked :: "string list \<Rightarrow> string" where
  "msg_blocked gs = (''All matching cells blocked by guards: '' @ join '', '' gs @ ''.'')"

definition msg_invalid_input :: "string" where
  "msg_invalid_input = ''State machine definition or transition input is invalid.''"

definition cell_label :: "matrix_cell \<Rightarrow> string" where
  "cell_label c = cl_from c @ ''-'' @ cl_event c @ ''-'' @ str_or (cl_to c) ''self''"

definition matching_cells :: "machine_def \<Rightarrow> string \<Rightarrow> string \<Rightarrow> matrix_cell list" where
  "matching_cells d s e = filter (\<lambda>c. cl_from c = s \<and> cl_event c = e) (md_totalMatrix d)"

text \<open>The branch for a single matching cell.\<close>

definition select_single :: "evaluator \<Rightarrow> machine_def \<Rightarrow> transition_input \<Rightarrow> matrix_cell \<Rightarrow> guard_error + selection" where
  "select_single eval d inp cell =
     (let s = ti_currentStatus inp; e = ti_eventType inp; allowed = listAllowedEvents d s
      in if is_illegal cell
         then Inr ((refused (str_or (cl_errorCode cell) err_transition_not_allowed)
                (msg_illegal s e))\<lparr>sel_cell := Some cell, sel_allowedEvents := Some allowed\<rparr>)
         else if length (cell_guards cell) > 0
         then bind_res (evaluateCellGuards eval cell (ti_guardContext inp)) (\<lambda>v.
           if \<not> cv_ok v
           then Inr \<lparr>sel_ok = False, sel_cell = None, sel_guardResults = Some (cv_guardResults v),
                  sel_failedGuards = Some (cv_failedGuards v), sel_blockedBy = cv_blockedBy v,
                  sel_errorCode = Some (classifyGuardFailureForCode (cv_guardResults v)),
                  sel_message = None, sel_allowedEvents = Some allowed, sel_ambiguousCells = None\<rparr>
           else Inr (selected cell (cv_guardResults v)))
         else Inr (selected cell []))"

text \<open>The refusal when the guards of every eligible cell fail.\<close>

definition guard_refusal :: "string \<Rightarrow> string \<Rightarrow> string list \<Rightarrow> string list \<Rightarrow> guard_result list \<Rightarrow> selection" where
  "guard_refusal code msg failed allowed rs =
     (refused code msg)\<lparr>sel_blockedBy := Some ''guard'', sel_failedGuards := Some failed,
        sel_allowedEvents := Some allowed, sel_guardResults := guardSummary rs\<rparr>"

definition select_blocked :: "machine_def \<Rightarrow> string \<Rightarrow> cell_verdict list \<Rightarrow> selection" where
  "select_blocked d s verdicts =
     (let failed = concat (map cv_failedGuards verdicts);
          results = concat (map cv_guardResults verdicts);
          classes = classifyFailedGuardsForSelect results;
          allowed = listAllowedEvents d s
      in if length (gc_unknown classes) > 0
         then guard_refusal err_guard_unknown
           (msg_unknown_guards (gc_unknown classes)) (gc_unknown classes) allowed results
         else if length (gc_missingContext classes) > 0
         then guard_refusal err_guard_context_missing
           (msg_missing_context (gc_missingContext classes))
           (gc_missingContext classes) allowed results
         else guard_refusal err_guard_blocked
           (msg_blocked failed) failed allowed results)"

text \<open>The disambiguation of several matching cells.\<close>

definition has_guards :: "matrix_cell \<Rightarrow> bool" where
  "has_guards c \<longleftrightarrow> opt_list (cl_guards c) \<noteq> [] \<or> opt_list (cl_requiredGuards c) \<noteq> []"

definition eligible_cells :: "matrix_cell list \<Rightarrow> matrix_cell list" where
  "eligible_cells cells = filter (\<lambda>c. \<not> is_illegal c) cells"

text \<open>The verdicts of the eligible cells: none passes, several pass, or exactly one is selected.\<close>

definition select_passed :: "machine_def \<Rightarrow> string \<Rightarrow> string \<Rightarrow> matrix_cell list \<Rightarrow> cell_verdict list \<Rightarrow> selection" where
  "select_passed d s e eligible verdicts =
     (let passed = map fst (filter (\<lambda>p. cv_ok (snd p)) (zip eligible verdicts))
      in if passed = [] then select_blocked d s verdicts
         else if length passed > 1
         then (refused err_ambiguous_transition (msg_ambiguous_guarded (length passed) s e))
                \<lparr>sel_ambiguousCells := Some (map cell_label passed)\<rparr>
         else selected (hd passed) (concat (map cv_guardResults (filter cv_ok verdicts))))"

definition select_multi :: "evaluator \<Rightarrow> machine_def \<Rightarrow> transition_input \<Rightarrow> matrix_cell list \<Rightarrow> guard_error + selection" where
  "select_multi eval d inp matching =
     (let s = ti_currentStatus inp; e = ti_eventType inp;
          eligible = eligible_cells matching;
          guarded = filter has_guards eligible;
          unguarded = filter (\<lambda>c. \<not> has_guards c) eligible
      in if eligible = []
         then Inr ((refused err_transition_not_allowed
                (msg_all_illegal s e))\<lparr>sel_allowedEvents := Some (listAllowedEvents d s)\<rparr>)
         else if length unguarded > 1
         then Inr (refused err_ambiguous_transition
                (msg_ambiguous_unguarded (length unguarded) s e))
         else if length unguarded = 1 \<and> guarded = []
         then Inr (selected (hd unguarded) [])
         else bind_res (map_res (\<lambda>c. evaluateCellGuards eval c (ti_guardContext inp)) eligible)
                (\<lambda>verdicts. Inr (select_passed d s e eligible verdicts)))"

definition selectCell :: "evaluator \<Rightarrow> machine_def \<Rightarrow> transition_input \<Rightarrow> guard_error + selection" where
  "selectCell eval d inp =
     (let s = ti_currentStatus inp; e = ti_eventType inp; matching = matching_cells d s e
      in case matching of
           [] \<Rightarrow> Inr ((refused err_transition_not_allowed (msg_undefined s e))
                   \<lparr>sel_allowedEvents := Some (listAllowedEvents d s)\<rparr>)
         | [cell] \<Rightarrow> select_single eval d inp cell
         | _ \<Rightarrow> select_multi eval d inp matching)"

text \<open>A definition or an input of the wrong shape is \<open>None\<close>.\<close>

definition selectTransitionCell ::
  "machine_def option \<Rightarrow> transition_input option \<Rightarrow> (string list \<Rightarrow> jsobj \<Rightarrow> jsval) option \<Rightarrow> guard_error + selection" where
  "selectTransitionCell dopt iopt opt =
     (case (dopt, iopt) of
        (Some d, Some inp) \<Rightarrow> selectCell (evaluator_of opt) d inp
      | _ \<Rightarrow> Inr (refused err_invalid_input msg_invalid_input))"

text \<open>\<open>evaluateTransitionGuardsForValidatedDefinition\<close>: the reason is the error code without its prefix, in lower case.\<close>

definition strip_prefix :: "string \<Rightarrow> string \<Rightarrow> string" where
  "strip_prefix p s = (if starts_with s p then drop (length p) s else s)"

definition guard_preview_reason :: "selection \<Rightarrow> string option" where
  "guard_preview_reason r =
     (if sel_ok r then None
      else Some (case sel_errorCode r of
             Some code \<Rightarrow> if code = [] then ''select_failed'' else js_lower (strip_prefix ''STATE_MACHINE_'' code)
           | None \<Rightarrow> ''select_failed''))"

section \<open>Successful selections\<close>

lemma select_blocked_refuses [simp]: "\<not> sel_ok (select_blocked d s vs)"
  by (simp add: select_blocked_def guard_refusal_def Let_def)

lemma select_passed_ok:
  assumes "sel_ok (select_passed d s e eligible vs)"
  obtains c where "map fst (filter (\<lambda>p. cv_ok (snd p)) (zip eligible vs)) = [c]"
    and "sel_cell (select_passed d s e eligible vs) = Some c"
proof (cases "map fst (filter (\<lambda>p. cv_ok (snd p)) (zip eligible vs))")
  case Nil
  with assms show ?thesis by (simp add: select_passed_def)
next
  case (Cons c cs)
  show ?thesis
  proof (cases cs)
    case Nil
    with Cons show ?thesis by (intro that [of c]) (simp_all add: select_passed_def)
  next
    case (Cons c2 cs2)
    with \<open>map _ _ = c # cs\<close> assms show ?thesis by (simp add: select_passed_def)
  qed
qed

lemma select_multi_cases:
  assumes "select_multi eval d inp cells = Inr r" and "sel_ok r"
  obtains (direct) c where "eligible_cells cells = [c]" and "\<not> has_guards c" and "sel_cell r = Some c"
    | (voted) vs c where "map_res (\<lambda>c. evaluateCellGuards eval c (ti_guardContext inp)) (eligible_cells cells) = Inr vs"
      and "map fst (filter (\<lambda>p. cv_ok (snd p)) (zip (eligible_cells cells) vs)) = [c]"
      and "sel_cell r = Some c"
proof -
  let ?el = "eligible_cells cells"
  let ?un = "filter (\<lambda>c. \<not> has_guards c) ?el"
  have el: "?el \<noteq> []"
  proof
    assume "?el = []"
    with assms(1) have "r = (refused err_transition_not_allowed (msg_all_illegal (ti_currentStatus inp) (ti_eventType inp)))
        \<lparr>sel_allowedEvents := Some (listAllowedEvents d (ti_currentStatus inp))\<rparr>"
      by (simp add: select_multi_def Let_def)
    with assms(2) show False by simp
  qed
  have un: "\<not> length ?un > 1"
  proof
    assume "length ?un > 1"
    with assms el have "r = refused err_ambiguous_transition
        (msg_ambiguous_unguarded (length ?un) (ti_currentStatus inp) (ti_eventType inp))"
      by (simp add: select_multi_def Let_def)
    with assms(2) show False by simp
  qed
  show ?thesis
  proof (cases "length ?un = 1 \<and> filter has_guards ?el = []")
    case True
    then obtain c where c: "?un = [c]" by (metis One_nat_def length_0_conv length_Suc_conv)
    from True have "?un = ?el" by (simp add: filter_id_conv filter_empty_conv)
    with c have "?el = [c]" by simp
    moreover from c have "\<not> has_guards c" using filter_eq_single_mem [of "\<lambda>c. \<not> has_guards c" ?el c] by simp
    moreover from assms(1) el True c have "r = selected c []" by (simp add: select_multi_def Let_def)
    ultimately show ?thesis by (intro direct [of c]) simp_all
  next
    case False
    with assms(1) el un obtain vs
      where vs: "map_res (\<lambda>c. evaluateCellGuards eval c (ti_guardContext inp)) ?el = Inr vs"
        and r: "r = select_passed d (ti_currentStatus inp) (ti_eventType inp) ?el vs"
      unfolding select_multi_def Let_def
      by (simp only: if_False if_not_P bind_res_Inr_iff) blast
    from assms(2) r obtain c where "map fst (filter (\<lambda>p. cv_ok (snd p)) (zip ?el vs)) = [c]"
        and "sel_cell r = Some c"
      by (auto elim: select_passed_ok)
    with vs show ?thesis by (rule voted)
  qed
qed

text \<open>Both arms in one statement: the selected cell is eligible, its verdict is positive, and no
  other eligible cell has a positive verdict.\<close>

definition sole_choice :: "evaluator \<Rightarrow> jsobj \<Rightarrow> matrix_cell list \<Rightarrow> matrix_cell \<Rightarrow> bool" where
  "sole_choice eval ctx cells c \<longleftrightarrow> c \<in> set cells \<and> \<not> is_illegal c
     \<and> (\<exists>v. evaluateCellGuards eval c ctx = Inr v \<and> cv_ok v)
     \<and> (\<forall>c' v'. c' \<in> set cells \<longrightarrow> \<not> is_illegal c' \<longrightarrow> evaluateCellGuards eval c' ctx = Inr v' \<longrightarrow> cv_ok v' \<longrightarrow> c' = c)"

lemma unguarded_verdict: "\<not> has_guards c \<Longrightarrow>
    evaluateCellGuards eval c ctx = Inr \<lparr>cv_ok = True, cv_guardResults = [], cv_failedGuards = [], cv_blockedBy = None\<rparr>"
  by (simp add: evaluateCellGuards_def cell_guards_def has_guards_def)

lemma zip_filter_nth:
  assumes "length xs = length ys"
  shows "c \<in> set (map fst (filter (\<lambda>p. P (snd p)) (zip xs ys))) \<longleftrightarrow> (\<exists>i < length xs. xs ! i = c \<and> P (ys ! i))"
  using assms by (force simp: in_set_zip image_iff)

lemma select_multi_sole:
  assumes "select_multi eval d inp cells = Inr r" and "sel_ok r"
  shows "\<exists>c. sel_cell r = Some c \<and> sole_choice eval (ti_guardContext inp) cells c"
  using assms
proof (cases rule: select_multi_cases)
  case (direct c)
  then have "set [c] = {c \<in> set cells. \<not> is_illegal c}" by (metis eligible_cells_def set_filter)
  then have "\<And>c'. c' \<in> set cells \<and> \<not> is_illegal c' \<longleftrightarrow> c' = c" by auto
  with direct show ?thesis by (auto simp: sole_choice_def unguarded_verdict)
next
  case (voted vs c)
  let ?eval = "\<lambda>c. evaluateCellGuards eval c (ti_guardContext inp)"
  let ?el = "eligible_cells cells"
  from voted(1) have all2: "list_all2 (\<lambda>x y. ?eval x = Inr y) ?el vs" by (simp add: map_res_Inr_iff)
  then have len: "length ?el = length vs" by (rule list_all2_lengthD)
  have ev: "?eval (?el ! i) = Inr (vs ! i)" if "i < length ?el" for i
    using all2 that by (simp add: list_all2_conv_all_nth)
  have mem: "c' = c \<longleftrightarrow> (\<exists>i < length ?el. ?el ! i = c' \<and> cv_ok (vs ! i))" for c'
    using zip_filter_nth [OF len, of c' cv_ok] voted(2) by simp
  have el: "c' \<in> set ?el \<longleftrightarrow> c' \<in> set cells \<and> \<not> is_illegal c'" for c' by (simp add: eligible_cells_def)
  from mem [of c] obtain i where i: "i < length ?el" "?el ! i = c" "cv_ok (vs ! i)" by auto
  then have "c \<in> set ?el" by auto
  with i ev [of i] have "c \<in> set cells \<and> \<not> is_illegal c \<and> (\<exists>v. ?eval c = Inr v \<and> cv_ok v)" by (simp add: el)
  moreover have "c' = c" if c': "c' \<in> set cells" "\<not> is_illegal c'" "?eval c' = Inr v'" "cv_ok v'" for c' v'
  proof -
    from c'(1,2) have "c' \<in> set ?el" by (simp add: el)
    then obtain j where j: "j < length ?el" "?el ! j = c'" by (auto simp: in_set_conv_nth)
    with ev [of j] c'(3,4) have "cv_ok (vs ! j)" by simp
    with j mem [of c'] show ?thesis by blast
  qed
  ultimately have "sole_choice eval (ti_guardContext inp) cells c" unfolding sole_choice_def by blast
  with voted(3) show ?thesis by blast
qed

lemma select_single_ok:
  assumes "select_single eval d inp c = Inr r" and "sel_ok r"
  shows "sel_cell r = Some c" and "\<not> is_illegal c"
    and "\<exists>v. evaluateCellGuards eval c (ti_guardContext inp) = Inr v \<and> cv_ok v"
proof -
  show legal: "\<not> is_illegal c"
  proof
    assume "is_illegal c"
    with assms(1) have "sel_ok r = False" by (auto simp: select_single_def Let_def)
    with assms(2) show False by simp
  qed
  have "sel_cell r = Some c \<and> (\<exists>v. evaluateCellGuards eval c (ti_guardContext inp) = Inr v \<and> cv_ok v)"
  proof (cases "cell_guards c = []")
    case True
    with assms legal show ?thesis
      by (auto simp: select_single_def evaluateCellGuards_def)
  next
    case False
    with assms(1) legal obtain v where v: "evaluateCellGuards eval c (ti_guardContext inp) = Inr v"
        and r: "(if \<not> cv_ok v then Inr \<lparr>sel_ok = False, sel_cell = None, sel_guardResults = Some (cv_guardResults v),
                  sel_failedGuards = Some (cv_failedGuards v), sel_blockedBy = cv_blockedBy v,
                  sel_errorCode = Some (classifyGuardFailureForCode (cv_guardResults v)),
                  sel_message = None, sel_allowedEvents = Some (listAllowedEvents d (ti_currentStatus inp)),
                  sel_ambiguousCells = None\<rparr>
             else Inr (selected c (cv_guardResults v))) = (Inr r :: guard_error + selection)"
      unfolding select_single_def Let_def by (simp only: length_greater_0_conv not_False_eq_True if_True if_False bind_res_Inr_iff) blast
    show ?thesis
    proof (cases "cv_ok v")
      case True
      with r v show ?thesis by auto
    next
      case False
      with r assms(2) show ?thesis by auto
    qed
  qed
  then show "sel_cell r = Some c" and "\<exists>v. evaluateCellGuards eval c (ti_guardContext inp) = Inr v \<and> cv_ok v"
    by simp_all
qed

lemma selectCell_sole:
  assumes "selectCell eval d inp = Inr r" and "sel_ok r"
  shows "\<exists>c. sel_cell r = Some c
    \<and> sole_choice eval (ti_guardContext inp) (matching_cells d (ti_currentStatus inp) (ti_eventType inp)) c"
proof -
  let ?m = "matching_cells d (ti_currentStatus inp) (ti_eventType inp)"
  consider "?m = []" | c where "?m = [c]" | c c' cs where "?m = c # c' # cs"
    by (metis list.exhaust)
  then show ?thesis
  proof cases
    case 1
    with assms have "r = (refused err_transition_not_allowed (msg_undefined (ti_currentStatus inp) (ti_eventType inp)))
        \<lparr>sel_allowedEvents := Some (listAllowedEvents d (ti_currentStatus inp))\<rparr>"
      by (simp add: selectCell_def Let_def)
    with assms(2) show ?thesis by simp
  next
    case (2 c)
    with assms(1) have "select_single eval d inp c = Inr r" by (simp add: selectCell_def Let_def)
    from select_single_ok [OF this assms(2)] show ?thesis by (simp add: sole_choice_def 2)
  next
    case (3 c c' cs)
    with assms(1) have "select_multi eval d inp ?m = Inr r" by (simp add: selectCell_def Let_def)
    from select_multi_sole [OF this assms(2)] show ?thesis .
  qed
qed

section \<open>The guard service interface\<close>

text \<open>A guard service answers every id it is asked about, in order and under that id.\<close>

locale guard_service =
  fixes eval :: evaluator
  assumes answers_labelled: "eval gs ctx = Inr rs \<Longrightarrow> map gr_guardId rs = gs"
begin

lemma verdict_results:
  assumes "evaluateCellGuards eval c ctx = Inr v" and "cv_ok v" and "cell_guards c \<noteq> []"
  shows "eval (cell_guards c) ctx = Inr (cv_guardResults v)" and "\<forall>r \<in> set (cv_guardResults v). gr_ok r"
  using assms by (auto simp: evaluateCellGuards_def Let_def bind_res_Inr_iff filter_empty_conv)

lemma verdict_ok_guards:
  assumes "evaluateCellGuards eval c ctx = Inr v" and "cv_ok v" and "g \<in> set (cell_guards c)"
  shows "\<exists>r \<in> set (cv_guardResults v). gr_guardId r = g \<and> gr_ok r"
proof -
  from assms(3) have "cell_guards c \<noteq> []" by auto
  note rs = verdict_results [OF assms(1,2) this]
  from answers_labelled [OF rs(1)] assms(3) have "g \<in> gr_guardId ` set (cv_guardResults v)" by (metis set_map)
  with rs(2) show ?thesis by auto
qed

end

text \<open>A sound service answers positively only for guards it supports in the given context.\<close>

locale sound_guard_service = guard_service +
  fixes supports :: "string \<Rightarrow> jsobj \<Rightarrow> bool"
  assumes answers_sound: "eval gs ctx = Inr rs \<Longrightarrow> r \<in> set rs \<Longrightarrow> gr_ok r \<Longrightarrow> supports (gr_guardId r) ctx"
begin

lemma verdict_supported:
  assumes "evaluateCellGuards eval c ctx = Inr v" and "cv_ok v" and "g \<in> set (cell_guards c)"
  shows "supports g ctx"
proof -
  obtain r where r: "r \<in> set (cv_guardResults v)" "gr_guardId r = g" "gr_ok r"
    using verdict_ok_guards [OF assms] by blast
  from assms(3) have "cell_guards c \<noteq> []" by auto
  from verdict_results(1) [OF assms(1,2) this] r show ?thesis using answers_sound by blast
qed

lemma selectCell_supported:
  assumes "selectCell eval d inp = Inr r" and "sel_ok r" and "sel_cell r = Some c" and "g \<in> set (cell_guards c)"
  shows "supports g (ti_guardContext inp)"
proof -
  from selectCell_sole [OF assms(1,2)] assms(3) obtain v
    where "evaluateCellGuards eval c (ti_guardContext inp) = Inr v" "cv_ok v"
    by (auto simp: sole_choice_def)
  from verdict_supported [OF this assms(4)] show ?thesis .
qed

end

section \<open>The built-in evaluator provides the sound service\<close>

text \<open>The detail fields of an answer never clash with its id, verdict and reason, so an answer
  survives being read back from a value.\<close>

definition clean_rest :: "jsobj \<Rightarrow> bool" where
  "clean_rest ps \<longleftrightarrow> (\<forall>p \<in> set ps. fst p \<notin> {''ok'', ''guardId'', ''reason''})"

lemma clean_allow: "clean_rest (gr_rest (allow g r))"
  by (simp add: clean_rest_def allow_def)

lemma clean_deny: "clean_rest (gr_rest (deny g r m ps)) \<longleftrightarrow> clean_rest ps"
  by (simp add: clean_rest_def deny_def)

lemma clean_simps:
  "clean_rest []"
  "clean_rest ((k, v) # ps) \<longleftrightarrow> k \<notin> {''ok'', ''guardId'', ''reason''} \<and> clean_rest ps"
  by (auto simp: clean_rest_def)

lemma clean_predicates:
  "clean_rest (gr_rest (guard_policy g ctx))"
  "clean_rest (gr_rest (guard_approval g ctx))"
  "clean_rest (gr_rest (guard_architect g ctx))"
  "clean_rest (gr_rest (guard_admin g ctx))"
  "clean_rest (gr_rest (guard_append_only g ctx))"
  "clean_rest (gr_rest (guard_tree_exists g ctx))"
  "clean_rest (gr_rest (guard_node_exists g ctx))"
  "clean_rest (gr_rest (guard_preview g ctx))"
  "clean_rest (gr_rest (guard_ledger g ctx))"
  "clean_rest (gr_rest (guard_audit g ctx))"
  "clean_rest (gr_rest (guard_adoption g ctx))"
  "clean_rest (gr_rest (guard_p0 g ctx))"
  "clean_rest (gr_rest (guard_baseline g ctx))"
  by (simp_all add: guard_predicates Let_def clean_allow clean_deny clean_simps)

lemma clean_predicate: "clean_rest (gr_rest (evaluateGuardPredicate g ctx))"
  unfolding evaluateGuardPredicate_def by (simp add: clean_predicates clean_allow clean_deny clean_simps)

lemma clean_evaluateGuard: "evaluateGuard v ctx = Inr r \<Longrightarrow> clean_rest (gr_rest r)"
  by (auto simp: evaluateGuard_def Let_def clean_predicate clean_deny clean_simps
      split: registry_slot.splits option.splits if_splits)

lemma clean_prop: "clean_rest ps \<Longrightarrow> k \<in> {''ok'', ''guardId'', ''reason''} \<Longrightarrow> map_of ps k = None"
  unfolding clean_rest_def map_of_eq_None_iff by blast

lemma clean_filter: "clean_rest ps \<Longrightarrow>
    filter (\<lambda>p. fst p \<noteq> ''guardId'' \<and> fst p \<noteq> ''ok'') ps = ps"
    "clean_rest ps \<Longrightarrow>
    filter (\<lambda>p. fst p \<noteq> ''guardId'' \<and> fst p \<noteq> ''ok'' \<and> fst p \<noteq> ''reason'') ps = ps"
  by (simp_all add: clean_rest_def filter_id_conv)

lemma parse_guard_result_value:
  assumes "clean_rest (gr_rest r)"
  shows "parse_guard_result (guard_result_value r) = Some r"
  using assms
  by (cases r; cases "gr_reason r")
    (simp_all add: guard_result_value_def prop_of_def clean_prop clean_filter)

lemma guardResultsFrom_values: "\<forall>r \<in> set rs. clean_rest (gr_rest r) \<Longrightarrow>
    guardResultsFrom (JArr (map guard_result_value rs)) = rs"
  by (induction rs) (simp_all add: List.map_filter_def parse_guard_result_value)

lemma builtin_evaluator_eq: "builtin_evaluator gs ctx = evaluateGuardSet (JArr (map JStr gs)) ctx"
proof (cases "evaluateGuardSet (JArr (map JStr gs)) ctx")
  case (Inr rs)
  have "clean_rest (gr_rest r)" if r: "r \<in> set rs" for r
  proof -
    from r Inr obtain v where "evaluateGuard v ctx = Inr r"
      by (auto simp: evaluateGuardSet_def map_res_Inr_iff list_all2_conv_all_nth in_set_conv_nth)
    then show ?thesis by (rule clean_evaluateGuard)
  qed
  with Inr show ?thesis by (simp add: builtin_evaluator_def guardResultsFrom_values del: guardResultsFrom.simps)
qed (simp add: builtin_evaluator_def)

text \<open>A registered guard whose predicate holds in the context.\<close>

definition guard_holds :: "string \<Rightarrow> jsobj \<Rightarrow> bool" where
  "guard_holds g ctx \<longleftrightarrow> g \<in> set listAllRuntimeGuardIds \<and> gr_ok (evaluateGuardPredicate g ctx)"

interpretation builtin: sound_guard_service builtin_evaluator guard_holds
proof unfold_locales
  fix gs :: "string list" and ctx rs
  assume "builtin_evaluator gs ctx = Inr rs"
  then show "map gr_guardId rs = gs" by (simp add: builtin_evaluator_eq evaluateGuardSet_ids)
next
  fix gs :: "string list" and ctx rs and r :: guard_result
  assume "builtin_evaluator gs ctx = Inr rs" and r: "r \<in> set rs" "gr_ok r"
  then obtain v where "evaluateGuard v ctx = Inr r"
    by (auto simp: builtin_evaluator_eq evaluateGuardSet_def map_res_Inr_iff list_all2_conv_all_nth in_set_conv_nth)
  then obtain d where d: "map_of state_machine_guards (gr_guardId r) = Some d" "isGuardRuntimeSafe (gr_guardId r)"
      "gr_ok (evaluateGuardPredicate (gr_guardId r) ctx)"
    using r(2) by (rule evaluateGuard_ok_cases)
  then have "registry_slot (gr_guardId r) = OwnEntry d" by simp
  with d(2) have "gd_runtimeMode d \<noteq> StaticOnly \<and> gd_runtimeMode d \<noteq> DeclaredOnly" by (simp add: isGuardRuntimeSafe_def)
  with d map_of_SomeD [OF d(1)] show "guard_holds (gr_guardId r) ctx"
    by (force simp: guard_holds_def listAllRuntimeGuardIds_def)
qed

text \<open>Without a filter on shape an injected evaluator is a service only if its answers are well formed;
  the other refusals are uniform.\<close>

lemma refusal_blocked_code:
  "sel_errorCode (select_blocked d s vs) \<in> {Some err_guard_unknown, Some err_guard_context_missing, Some err_guard_blocked}"
  by (simp add: select_blocked_def guard_refusal_def Let_def)

section \<open>Properties\<close>

text \<open>With the built-in guard registry, a selected matrix cell starts in the current state, answers
  the event, is not marked illegal, and every one of its guards is a registered runtime guard whose
  predicate holds in the guard context.\<close>

lemma selected_cell_guards_hold:
  assumes "selectTransitionCell (Some d) (Some inp) None = Inr r" and "sel_ok r"
  shows "\<exists>c \<in> set (md_totalMatrix d). sel_cell r = Some c \<and> cl_from c = ti_currentStatus inp
     \<and> cl_event c = ti_eventType inp \<and> \<not> is_illegal c
     \<and> (\<forall>g \<in> set (cell_guards c). g \<in> set listAllRuntimeGuardIds
           \<and> gr_ok (evaluateGuardPredicate g (ti_guardContext inp)))"
proof -
  from assms(1) have s: "selectCell builtin_evaluator d inp = Inr r"
    by (simp add: selectTransitionCell_def evaluator_of_def)
  from selectCell_sole [OF s assms(2)] obtain c where c: "sel_cell r = Some c"
      "c \<in> set (matching_cells d (ti_currentStatus inp) (ti_eventType inp))" "\<not> is_illegal c"
    by (auto simp: sole_choice_def)
  have "\<forall>g \<in> set (cell_guards c). guard_holds g (ti_guardContext inp)"
    using builtin.selectCell_supported [OF s assms(2) c(1)] by blast
  with c show ?thesis by (auto simp: matching_cells_def guard_holds_def)
qed

definition demo_input :: "string \<Rightarrow> string \<Rightarrow> jsobj \<Rightarrow> transition_input" where
  "demo_input s e ctx = \<lparr>ti_currentStatus = s, ti_eventType = e, ti_guardContext = ctx, ti_guardEvaluator = JUndef,
     ti_resumePointer = JUndef, ti_operationId = JUndef, ti_traceId = JUndef, ti_metadata = JUndef, ti_fields = []\<rparr>"

definition guarded_demo :: machine_def where
  "guarded_demo = demo_machine\<lparr>md_totalMatrix :=
     [(demo_cell ''open'' ''finish'' ''legal_transition'' (Some ''closed''))\<lparr>cl_requiredGuards := Some [''treeExists'']\<rparr>,
      demo_cell ''closed'' ''finish'' ''illegal_transition'' None]\<rparr>"

lemma guarded_demo_selects:
  "\<exists>r. selectTransitionCell (Some guarded_demo)
      (Some (demo_input ''open'' ''finish'' [(''treeState'', JObj [(''status'', JStr ''open'')])])) None = Inr r
     \<and> sel_ok r \<and> sel_cell r = Some (hd (md_totalMatrix guarded_demo))"
  by (simp add: selectTransitionCell_def evaluator_of_def selectCell_def matching_cells_def guarded_demo_def
      demo_input_def demo_cell_def select_single_def cell_guards_def evaluateCellGuards_def builtin_evaluator_eq
      evaluateGuardSet_def evaluateGuard_def js_or_def registry_slot_def state_machine_guards_def guard_entry_def
      missing_field_def isGuardRuntimeSafe_def evaluateGuardPredicate_def guard_tree_exists_def entity_absent_def prop_of_def)

lemma guarded_demo_passes:
  "\<exists>v. evaluateCellGuards builtin_evaluator (hd (md_totalMatrix guarded_demo))
        [(''treeState'', JObj [(''status'', JStr ''open'')])] = Inr v \<and> cv_ok v"
  by (simp add: guarded_demo_def demo_cell_def cell_guards_def evaluateCellGuards_def builtin_evaluator_eq
      evaluateGuardSet_def evaluateGuard_def js_or_def registry_slot_def state_machine_guards_def guard_entry_def
      missing_field_def isGuardRuntimeSafe_def evaluateGuardPredicate_def guard_tree_exists_def entity_absent_def prop_of_def)

lemma selected_cell_guards_hold_witness:
  "gr_ok (evaluateGuardPredicate ''treeExists'' [(''treeState'', JObj [(''status'', JStr ''open'')])])"
proof -
  let ?inp = "demo_input ''open'' ''finish'' [(''treeState'', JObj [(''status'', JStr ''open'')])]"
  obtain r where r: "selectTransitionCell (Some guarded_demo) (Some ?inp) None = Inr r" "sel_ok r"
      "sel_cell r = Some (hd (md_totalMatrix guarded_demo))"
    using guarded_demo_selects by blast
  from selected_cell_guards_hold [OF r(1,2)] r(3)
  show ?thesis by (simp add: guarded_demo_def demo_cell_def cell_guards_def demo_input_def)
qed

text \<open>Selection is unambiguous: when it succeeds, with any evaluator, no other non-illegal cell for
  the same state and event has guards that pass.\<close>

lemma selected_cell_unique:
  assumes "selectTransitionCell (Some d) (Some inp) opt = Inr r" and "sel_ok r" and "sel_cell r = Some c"
    and "c' \<in> set (matching_cells d (ti_currentStatus inp) (ti_eventType inp))" and "\<not> is_illegal c'"
    and "evaluateCellGuards (evaluator_of opt) c' (ti_guardContext inp) = Inr v" and "cv_ok v"
  shows "c' = c"
proof -
  from assms(1) have "selectCell (evaluator_of opt) d inp = Inr r" by (simp add: selectTransitionCell_def)
  from selectCell_sole [OF this assms(2)] assms(3-) show ?thesis by (auto simp: sole_choice_def)
qed

theorem selected_cell_unique_witness:
  "\<exists>r c. selectTransitionCell (Some guarded_demo)
        (Some (demo_input ''open'' ''finish'' [(''treeState'', JObj [(''status'', JStr ''open'')])])) None = Inr r
        \<and> sel_cell r = Some c \<and> hd (md_totalMatrix guarded_demo) = c"
proof -
  let ?ctx = "[(''treeState'', JObj [(''status'', JStr ''open'')])]"
  let ?inp = "demo_input ''open'' ''finish'' ?ctx"
  let ?c = "hd (md_totalMatrix guarded_demo)"
  obtain r c where r: "selectTransitionCell (Some guarded_demo) (Some ?inp) None = Inr r" "sel_ok r" "sel_cell r = Some c"
    using guarded_demo_selects by blast
  obtain v where v: "evaluateCellGuards (evaluator_of None) ?c (ti_guardContext ?inp) = Inr v" "cv_ok v"
    using guarded_demo_passes by (auto simp: evaluator_of_def demo_input_def)
  have m: "?c \<in> set (matching_cells guarded_demo (ti_currentStatus ?inp) (ti_eventType ?inp))"
    and i: "\<not> is_illegal ?c"
    by (simp_all add: matching_cells_def guarded_demo_def demo_cell_def demo_input_def)
  from selected_cell_unique [OF r m i v] r show ?thesis by blast
qed

end
