(* ===== verification/Schema.thy ===== *)
theory Schema
  imports Machine "HOL-Library.List_Lexorder" "HOL-Library.Char_ord"
begin

text \<open>
  The schema check of a state machine definition given as an untyped value
  (\<open>verification/state-machine-definition-schema.ts\<close>).  The check returns the message of the
  error it throws, or \<open>None\<close>.  \<open>decode_definition\<close> reads the typed record out of a value; the
  lemmas show that after a passing check this reading loses nothing the engine looks at.
\<close>

section \<open>Reading values\<close>

fun str_of :: "jsval \<Rightarrow> string" where
  "str_of (JStr s) = s"
| "str_of _ = []"

fun opt_str_of :: "jsval \<Rightarrow> string option" where
  "opt_str_of (JStr s) = Some s"
| "opt_str_of _ = None"

fun elems_of :: "jsval \<Rightarrow> jsval list" where
  "elems_of (JArr vs) = vs"
| "elems_of _ = []"

fun opt_strs_of :: "jsval \<Rightarrow> string list option" where
  "opt_strs_of (JArr vs) = Some (map str_of vs)"
| "opt_strs_of _ = None"

fun fields_of :: "jsval \<Rightarrow> jsobj" where
  "fields_of (JObj ps) = ps"
| "fields_of _ = []"

fun is_array :: "jsval \<Rightarrow> bool" where
  "is_array (JArr _) = True"
| "is_array _ = False"

fun nonblank :: "jsval \<Rightarrow> bool" where
  "nonblank (JStr s) = (js_trim s \<noteq> [])"
| "nonblank _ = False"

fun string_array :: "jsval \<Rightarrow> bool" where
  "string_array (JArr vs) = (\<forall>v \<in> set vs. nonblank v)"
| "string_array _ = False"

definition optional :: "(jsval \<Rightarrow> bool) \<Rightarrow> jsval \<Rightarrow> bool" where
  "optional P v \<longleftrightarrow> v = JUndef \<or> P v"

definition quoted :: "string \<Rightarrow> string" where
  "quoted s = [CHR 0x27] @ s @ [CHR 0x27]"

lemma nonblank_trim: "nonblank v \<Longrightarrow> js_trim (str_of v) \<noteq> []"
  by (cases v) auto

lemma if_None_iff: "(if b then None else x) = None \<longleftrightarrow> b \<or> x = None"
    "(if b then x else None) = None \<longleftrightarrow> (b \<longrightarrow> x = None)"
  by simp_all

section \<open>The check of each part\<close>

definition requireStringArray :: "jsval \<Rightarrow> string \<Rightarrow> string option" where
  "requireStringArray v field = check (string_array v) (field @ '' must be an array of non-empty strings'')"

fun state_schema_error :: "jsval \<Rightarrow> string option" where
  "state_schema_error (JObj s) =
     (let fld = (\<lambda>k. ''state '' @ quoted (js_string (prop_of s ''id'')) @ '' field '' @ quoted k @ '' must be a boolean'')
      in first_error
       [check (nonblank (prop_of s ''id'')) (''state item '' @ quoted ''id'' @ '' must be a non-empty string''),
        check (optional is_bool (prop_of s ''terminal'')) (fld ''terminal''),
        check (optional is_bool (prop_of s ''externalEntryState'')) (fld ''externalEntryState''),
        check (optional is_bool (prop_of s ''waitingStateWithTimeout'')) (fld ''waitingStateWithTimeout''),
        check (optional is_bool (prop_of s ''passiveState'')) (fld ''passiveState'')])"
| "state_schema_error _ = Some ''state item must be a JSON object''"

definition risk_levels :: "jsval set" where
  "risk_levels = {JStr ''low'', JStr ''medium'', JStr ''high''}"

fun event_schema_error :: "jsval \<Rightarrow> string option" where
  "event_schema_error (JObj e) =
     (let label = ''event '' @ quoted (js_string (prop_of e ''id''))
      in first_error
       [check (nonblank (prop_of e ''id'')) (''event item '' @ quoted ''id'' @ '' must be a non-empty string''),
        check (optional is_bool (prop_of e ''idempotent'')) (label @ '' field '' @ quoted ''idempotent'' @ '' must be a boolean''),
        check (optional (\<lambda>v. v \<in> risk_levels) (prop_of e ''riskLevel''))
          (label @ '' field '' @ quoted ''riskLevel'' @ '' must be '' @ quoted ''low'' @ '', '' @ quoted ''medium''
             @ '', or '' @ quoted ''high'')])"
| "event_schema_error _ = Some ''event item must be a JSON object''"

definition guard_list_error :: "string \<Rightarrow> jsval \<Rightarrow> string option" where
  "guard_list_error field v =
     (if v = JUndef then None
      else first_error [check (is_array v) (''matrix cell '' @ quoted field @ '' must be an array of strings''),
             check (string_array v) (field @ '' list items must be non-empty strings'')])"

fun cell_schema_error :: "jsval \<Rightarrow> string option" where
  "cell_schema_error (JObj c) =
     first_error
       [check (nonblank (prop_of c ''from'')) (''matrix cell '' @ quoted ''from'' @ '' must be a non-empty string''),
        check (nonblank (prop_of c ''event'')) (''matrix cell '' @ quoted ''event'' @ '' must be a non-empty string''),
        check (prop_of c ''result'' \<in> JStr ` set valid_transition_results)
          (''matrix cell from '' @ quoted (js_string (prop_of c ''from'')) @ '' on '' @ quoted (js_string (prop_of c ''event''))
             @ '' has invalid result: '' @ quoted (js_string (prop_of c ''result''))),
        check (optional is_string (prop_of c ''to'')) (''matrix cell '' @ quoted ''to'' @ '' must be a string''),
        check (optional is_string (prop_of c ''errorCode'')) (''matrix cell '' @ quoted ''errorCode'' @ '' must be a string''),
        check (optional is_bool (prop_of c ''allowedReopenTransition''))
          (''matrix cell '' @ quoted ''allowedReopenTransition'' @ '' must be a boolean''),
        guard_list_error ''guards'' (prop_of c ''guards''),
        guard_list_error ''requiredGuards'' (prop_of c ''requiredGuards''),
        (if prop_of c ''sideEffects'' = JUndef then None
         else requireStringArray (prop_of c ''sideEffects'') (''matrix cell '' @ quoted ''sideEffects'')),
        (if prop_of c ''proofObligations'' = JUndef then None
         else requireStringArray (prop_of c ''proofObligations'') (''matrix cell '' @ quoted ''proofObligations''))]"
| "cell_schema_error _ = Some ''matrix cell must be a JSON object''"

fun mapping_schema_error :: "jsval \<Rightarrow> string option" where
  "mapping_schema_error (JObj m) =
     first_error
       [check (nonblank (prop_of m ''obligationId'')) (''proofMapping '' @ quoted ''obligationId'' @ '' must be a non-empty string''),
        check (nonblank (prop_of m ''method'')) (''proofMapping '' @ quoted ''method'' @ '' must be a non-empty string''),
        check (optional is_record (prop_of m ''params'')) (''proofMapping '' @ quoted ''params'' @ '' must be an object'')]"
| "mapping_schema_error _ = Some ''proofMapping item must be a JSON object''"

definition array_field_error :: "jsobj \<Rightarrow> string \<Rightarrow> (jsval \<Rightarrow> string option) \<Rightarrow> string option" where
  "array_field_error d field item_error =
     (case prop_of d field of
        JArr vs \<Rightarrow> first_error (map item_error vs)
      | _ \<Rightarrow> Some (''definition field '' @ quoted field @ '' must be an array''))"

section \<open>Capability acceptance definitions\<close>

record proof_contract =
  pc_method :: string
  pc_params :: "string list"
  pc_role :: "string option"

definition acceptance_proof_contracts :: "(string \<times> proof_contract) list" where
  "acceptance_proof_contracts =
    [(''PO-ACCEPTANCE-REGISTRY-LINK'', \<lparr>pc_method = ''registry_entry_matches_machine'',
        pc_params = [''registryPath'', ''capabilityId'', ''machineId''], pc_role = None\<rparr>),
     (''PO-ACCEPTANCE-CHECKPOINT-IMPLEMENTATION'', \<lparr>pc_method = ''checkpoint_role_exists'',
        pc_params = [''checkpointPath'', ''role''], pc_role = Some ''implementation''\<rparr>),
     (''PO-ACCEPTANCE-FINAL-VALIDATION'', \<lparr>pc_method = ''checkpoint_role_exists'',
        pc_params = [''checkpointPath'', ''role''], pc_role = Some ''final_validation''\<rparr>),
     (''PO-ACCEPTANCE-PLATFORM-REDUCER-BOUNDARY'', \<lparr>pc_method = ''external_platform_reducer_reference'',
        pc_params = [''platformReducerCommand'', ''capabilityReportPath''], pc_role = None\<rparr>),
     (''PO-ACCEPTANCE-PRIVACY-SAFE-EVIDENCE'', \<lparr>pc_method = ''report_leak_scan'',
        pc_params = [''reportPath''], pc_role = None\<rparr>)]"

definition requireExactString :: "jsobj \<Rightarrow> string \<Rightarrow> string option \<Rightarrow> string option" where
  "requireExactString r key expected = first_error
     [check (nonblank (prop_of r key)) (''capability acceptance field '' @ quoted key @ '' must be a non-empty string''),
      (case expected of None \<Rightarrow> None
       | Some e \<Rightarrow> check (prop_of r key = JStr e) (''capability acceptance field '' @ quoted key @ '' must equal '' @ quoted e))]"

text \<open>The proof mappings as a \<open>Map\<close> from obligation id to mapping; a second entry for an id throws.\<close>

fun build_mappings :: "(string, jsobj) jsmap \<Rightarrow> jsobj list \<Rightarrow> string + (string, jsobj) jsmap" where
  "build_mappings m [] = Inr m"
| "build_mappings m (p # ps) =
     (let i = str_of (prop_of p ''obligationId'')
      in if map_has m i then Inl (''duplicate proof mapping for '' @ quoted i)
         else build_mappings (map_set m i p) ps)"

definition contract_error :: "string set \<Rightarrow> (string, jsobj) jsmap \<Rightarrow> string \<times> proof_contract \<Rightarrow> string option" where
  "contract_error obligations mappings entry =
     (let (i, contract) = entry
      in if i \<notin> obligations
         then Some (''capability acceptance proof obligation '' @ quoted i @ '' is required'')
         else case map_get mappings i of
           None \<Rightarrow> Some (''proof obligation '' @ quoted i @ '' must use method '' @ quoted (pc_method contract))
         | Some mapping \<Rightarrow>
             (let params = fields_of (prop_of mapping ''params'');
                  expectedKeys = sort (pc_params contract)
              in first_error
                 ([check (prop_of mapping ''method'' = JStr (pc_method contract))
                     (''proof obligation '' @ quoted i @ '' must use method '' @ quoted (pc_method contract)),
                   check (sort (map fst params) = expectedKeys)
                     (''proof method '' @ quoted (pc_method contract) @ '' must declare exactly: '' @ join '', '' expectedKeys)]
                  @ map (\<lambda>k. requireExactString params k None) expectedKeys
                  @ [(case pc_role contract of None \<Rightarrow> None
                      | Some role \<Rightarrow> check (prop_of params ''role'' = JStr role)
                          (''proof obligation '' @ quoted i @ '' must bind role '' @ quoted role))])))"

definition acceptance_expected_params :: "jsobj \<Rightarrow> jsobj \<Rightarrow> (string \<times> jsobj) list" where
  "acceptance_expected_params def acc =
    [(''PO-ACCEPTANCE-REGISTRY-LINK'', [(''registryPath'', prop_of acc ''registryPath''),
        (''capabilityId'', prop_of acc ''capabilityId''), (''machineId'', prop_of def ''machineId'')]),
     (''PO-ACCEPTANCE-CHECKPOINT-IMPLEMENTATION'', [(''checkpointPath'', prop_of acc ''checkpointPath''),
        (''role'', JStr ''implementation'')]),
     (''PO-ACCEPTANCE-FINAL-VALIDATION'', [(''checkpointPath'', prop_of acc ''checkpointPath''),
        (''role'', JStr ''final_validation'')]),
     (''PO-ACCEPTANCE-PLATFORM-REDUCER-BOUNDARY'', [(''platformReducerCommand'', prop_of acc ''platformReducerCommand''),
        (''capabilityReportPath'', prop_of acc ''reportPath'')]),
     (''PO-ACCEPTANCE-PRIVACY-SAFE-EVIDENCE'', [(''reportPath'', prop_of acc ''reportPath'')])]"

text \<open>The parameters are strings at this point, so equality of their JSON texts is equality of the
  property lists, order included.\<close>

definition expected_params_error :: "(string, jsobj) jsmap \<Rightarrow> string \<times> jsobj \<Rightarrow> string option" where
  "expected_params_error mappings entry =
     check (case map_get mappings (fst entry) of None \<Rightarrow> False | Some m \<Rightarrow> prop_of m ''params'' = JObj (snd entry))
       (''proof obligation '' @ quoted (fst entry) @ '' parameters do not match acceptance metadata'')"

definition acceptance_header_error :: "jsobj \<Rightarrow> jsobj \<Rightarrow> string option" where
  "acceptance_header_error def acc =
     (let capability = str_of (prop_of acc ''capabilityId'')
      in first_error
       [requireExactString acc ''capabilityId'' None,
        requireExactString acc ''registryPath'' (Some ''tools/registry/capability-acceptance.registry.json''),
        requireExactString acc ''checkpointPath''
          (Some (''tools/registry/capability-acceptance-checkpoints/'' @ capability @ ''.json'')),
        requireExactString acc ''platformReducerCommand'' (Some ''npm run verify:acceptance''),
        requireExactString acc ''verifier'' (Some ''tools/server-scripts/verify-capability-acceptance-machines.ts''),
        requireExactString acc ''reportPath'' (Some ''build/reports/capability-acceptance-machines.json''),
        check (prop_of def ''machineId'' = JStr (''acceptance.'' @ capability))
          ''capability acceptance machineId must match acceptance.capabilityId''])"

definition acceptance_verification_error :: "jsobj \<Rightarrow> string option" where
  "acceptance_verification_error def =
     (let event = find (\<lambda>e. prop_of (fields_of e) ''id'' = JStr ''capability_verifiers_pass'') (elems_of (prop_of def ''events''));
          cell = find (\<lambda>c. prop_of (fields_of c) ''from'' = JStr ''implemented''
                   \<and> prop_of (fields_of c) ''event'' = JStr ''capability_verifiers_pass'') (elems_of (prop_of def ''totalMatrix''))
      in first_error
       [check (case event of None \<Rightarrow> False | Some e \<Rightarrow> prop_of (fields_of e) ''riskLevel'' = JStr ''high'')
          ''capability_verifiers_pass must be classified as high risk'',
        check (case cell of None \<Rightarrow> False
           | Some c \<Rightarrow> prop_of (fields_of c) ''result'' = JStr ''requires_external_receipt''
               \<and> (\<exists>s \<in> set (opt_list (opt_strs_of (prop_of (fields_of c) ''sideEffects''))). str_includes s ''receipt''))
          ''implemented capability verification must require a verification receipt''])"

fun checkCapabilityAcceptanceDefinition :: "jsobj \<Rightarrow> string option" where
  "checkCapabilityAcceptanceDefinition def =
     (case prop_of def ''acceptance'' of
        JObj acc \<Rightarrow>
          (case acceptance_header_error def acc of
             Some e \<Rightarrow> Some e
           | None \<Rightarrow>
               (case build_mappings [] (map fields_of (elems_of (prop_of def ''proofMappings''))) of
                  Inl e \<Rightarrow> Some e
                | Inr mappings \<Rightarrow>
                    (let obligations = map str_of (elems_of (prop_of def ''proofObligations''))
                     in first_error
                      (map (contract_error (set obligations) mappings) acceptance_proof_contracts
                       @ [check (length mappings = length (remdups obligations) \<and> length mappings = length acceptance_proof_contracts)
                            ''capability acceptance proof obligations and mappings must match the canonical contract exactly'']
                       @ map (expected_params_error mappings) (acceptance_expected_params def acc)
                       @ [acceptance_verification_error def]))))
      | _ \<Rightarrow> Some ''capability acceptance definition requires acceptance metadata'')"

section \<open>The whole check\<close>

definition required_string_fields :: "string list" where
  "required_string_fields = [''machineId'', ''entityType'', ''version'', ''description'', ''initialState'']"

definition invariant_item_error :: "jsval \<Rightarrow> string option" where
  "invariant_item_error v = check (nonblank v) ''invariant list items must be non-empty strings''"

definition obligation_item_error :: "jsval \<Rightarrow> string option" where
  "obligation_item_error v = check (nonblank v) ''proofObligations list items must be non-empty strings''"

fun checkDefinitionSchema :: "jsval \<Rightarrow> string option" where
  "checkDefinitionSchema (JObj d) =
     first_error
       (map (\<lambda>f. check (nonblank (prop_of d f)) (''definition field '' @ quoted f @ '' must be a non-empty string''))
          required_string_fields
        @ [array_field_error d ''states'' state_schema_error,
           array_field_error d ''events'' event_schema_error,
           array_field_error d ''totalMatrix'' cell_schema_error,
           array_field_error d ''invariants'' invariant_item_error,
           array_field_error d ''proofObligations'' obligation_item_error,
           (if prop_of d ''proofMappings'' = JUndef then None
            else array_field_error d ''proofMappings'' mapping_schema_error),
           (if prop_of d ''guardRegistryRefs'' = JUndef then None
            else requireStringArray (prop_of d ''guardRegistryRefs'') (''definition field '' @ quoted ''guardRegistryRefs'')),
           (if prop_of d ''allowedTerminalEvents'' = JUndef then None
            else requireStringArray (prop_of d ''allowedTerminalEvents'') (''definition field '' @ quoted ''allowedTerminalEvents'')),
           (if prop_of d ''entityType'' = JStr ''capability_acceptance'' then checkCapabilityAcceptanceDefinition d else None)])"
| "checkDefinitionSchema _ = Some ''definition must be a JSON object''"

section \<open>Reading the typed definition\<close>

definition decode_state :: "jsval \<Rightarrow> state_def" where
  "decode_state v = (let s = fields_of v in
     \<lparr>sd_id = str_of (prop_of s ''id''), sd_terminal = truthy (prop_of s ''terminal''),
      sd_externalEntry = truthy (prop_of s ''externalEntryState''),
      sd_waiting = truthy (prop_of s ''waitingStateWithTimeout''), sd_passive = truthy (prop_of s ''passiveState'')\<rparr>)"

definition decode_event :: "jsval \<Rightarrow> event_def" where
  "decode_event v = (let e = fields_of v in
     \<lparr>ed_id = str_of (prop_of e ''id''), ed_idempotent = truthy (prop_of e ''idempotent''),
      ed_riskLevel = opt_str_of (prop_of e ''riskLevel'')\<rparr>)"

definition decode_cell :: "jsval \<Rightarrow> matrix_cell" where
  "decode_cell v = (let c = fields_of v in
     \<lparr>cl_from = str_of (prop_of c ''from''), cl_event = str_of (prop_of c ''event''),
      cl_result = str_of (prop_of c ''result''), cl_to = opt_str_of (prop_of c ''to''),
      cl_errorCode = opt_str_of (prop_of c ''errorCode''), cl_reopen = truthy (prop_of c ''allowedReopenTransition''),
      cl_guards = opt_strs_of (prop_of c ''guards''), cl_requiredGuards = opt_strs_of (prop_of c ''requiredGuards''),
      cl_sideEffects = opt_strs_of (prop_of c ''sideEffects'')\<rparr>)"

definition decode_definition :: "jsval \<Rightarrow> machine_def" where
  "decode_definition v = (let d = fields_of v in
     \<lparr>md_machineId = str_of (prop_of d ''machineId''), md_entityType = str_of (prop_of d ''entityType''),
      md_initialState = str_of (prop_of d ''initialState''),
      md_states = map decode_state (elems_of (prop_of d ''states'')),
      md_events = map decode_event (elems_of (prop_of d ''events'')),
      md_totalMatrix = map decode_cell (elems_of (prop_of d ''totalMatrix'')),
      md_allowedTerminalEvents = opt_strs_of (prop_of d ''allowedTerminalEvents'')\<rparr>)"

section \<open>What a passing check means\<close>

lemma array_field_error_None: "array_field_error d f g = None \<longleftrightarrow>
    (\<exists>vs. prop_of d f = JArr vs \<and> (\<forall>v \<in> set vs. g v = None))"
  by (auto simp: array_field_error_def split: jsval.splits)

lemma requireStringArray_None [simp]: "requireStringArray v f = None \<longleftrightarrow> string_array v"
  by (simp add: requireStringArray_def)

lemma guard_list_error_None [simp]: "guard_list_error f v = None \<longleftrightarrow> optional string_array v"
  by (cases v) (auto simp: guard_list_error_def optional_def)

lemma state_schema_error_None: "state_schema_error v = None \<longleftrightarrow>
    (\<exists>s. v = JObj s \<and> nonblank (prop_of s ''id'') \<and> optional is_bool (prop_of s ''terminal'')
      \<and> optional is_bool (prop_of s ''externalEntryState'') \<and> optional is_bool (prop_of s ''waitingStateWithTimeout'')
      \<and> optional is_bool (prop_of s ''passiveState''))"
  by (cases v) (simp_all add: Let_def)

lemma event_schema_error_None: "event_schema_error v = None \<longleftrightarrow>
    (\<exists>e. v = JObj e \<and> nonblank (prop_of e ''id'') \<and> optional is_bool (prop_of e ''idempotent'')
      \<and> optional (\<lambda>v. v \<in> risk_levels) (prop_of e ''riskLevel''))"
  by (cases v) (simp_all add: Let_def)

lemma cell_schema_error_None: "cell_schema_error v = None \<longleftrightarrow>
    (\<exists>c. v = JObj c \<and> nonblank (prop_of c ''from'') \<and> nonblank (prop_of c ''event'')
      \<and> prop_of c ''result'' \<in> JStr ` set valid_transition_results \<and> optional is_string (prop_of c ''to'')
      \<and> optional is_string (prop_of c ''errorCode'') \<and> optional is_bool (prop_of c ''allowedReopenTransition'')
      \<and> optional string_array (prop_of c ''guards'') \<and> optional string_array (prop_of c ''requiredGuards'')
      \<and> optional string_array (prop_of c ''sideEffects'') \<and> optional string_array (prop_of c ''proofObligations''))"
  by (cases v) (simp_all add: Let_def optional_def)

lemma schema_None: "checkDefinitionSchema (JObj d) = None \<longleftrightarrow>
    (\<forall>f \<in> set required_string_fields. nonblank (prop_of d f))
    \<and> array_field_error d ''states'' state_schema_error = None
    \<and> array_field_error d ''events'' event_schema_error = None
    \<and> array_field_error d ''totalMatrix'' cell_schema_error = None
    \<and> string_array (prop_of d ''invariants'') \<and> string_array (prop_of d ''proofObligations'')
    \<and> (prop_of d ''proofMappings'' = JUndef \<or> array_field_error d ''proofMappings'' mapping_schema_error = None)
    \<and> optional string_array (prop_of d ''guardRegistryRefs'')
    \<and> optional string_array (prop_of d ''allowedTerminalEvents'')
    \<and> (prop_of d ''entityType'' = JStr ''capability_acceptance'' \<longrightarrow> checkCapabilityAcceptanceDefinition d = None)"
proof -
  have arr: "array_field_error d f (\<lambda>v. check (nonblank v) m) = None \<longleftrightarrow> string_array (prop_of d f)" for f m
    by (cases "prop_of d f") (auto simp: array_field_error_def)
  show ?thesis
    unfolding checkDefinitionSchema.simps invariant_item_error_def obligation_item_error_def
    by (simp add: arr optional_def ball_Un if_None_iff del: checkCapabilityAcceptanceDefinition.simps)
      (rule iffI; (elim conjE; intro conjI; assumption))
qed

lemma schema_record: "checkDefinitionSchema v = None \<Longrightarrow> \<exists>d. v = JObj d"
  by (cases v) auto

lemma string_array_strs: "string_array v \<Longrightarrow> opt_strs_of v = Some gs \<Longrightarrow> g \<in> set gs \<Longrightarrow> js_trim g \<noteq> []"
  by (cases v) (auto simp: nonblank_trim)

lemma optional_array_strs: "optional string_array v \<Longrightarrow> g \<in> set (opt_list (opt_strs_of v)) \<Longrightarrow> js_trim g \<noteq> []"
  by (cases v) (auto simp: optional_def nonblank_trim)

section \<open>Writing a definition as a value\<close>

definition opt_field :: "string \<Rightarrow> ('a \<Rightarrow> jsval) \<Rightarrow> 'a option \<Rightarrow> jsobj" where
  "opt_field k f x = (case x of None \<Rightarrow> [] | Some a \<Rightarrow> [(k, f a)])"

definition strs :: "string list \<Rightarrow> jsval" where
  "strs xs = JArr (map JStr xs)"

definition encode_state :: "state_def \<Rightarrow> jsval" where
  "encode_state s = JObj [(''id'', JStr (sd_id s)), (''terminal'', JBool (sd_terminal s)),
     (''externalEntryState'', JBool (sd_externalEntry s)), (''waitingStateWithTimeout'', JBool (sd_waiting s)),
     (''passiveState'', JBool (sd_passive s))]"

definition encode_event :: "event_def \<Rightarrow> jsval" where
  "encode_event e = JObj ((''id'', JStr (ed_id e)) # (''idempotent'', JBool (ed_idempotent e))
     # opt_field ''riskLevel'' JStr (ed_riskLevel e))"

definition encode_cell :: "matrix_cell \<Rightarrow> jsval" where
  "encode_cell c = JObj ((''from'', JStr (cl_from c)) # (''event'', JStr (cl_event c)) # (''result'', JStr (cl_result c))
     # (''allowedReopenTransition'', JBool (cl_reopen c))
     # opt_field ''to'' JStr (cl_to c) @ opt_field ''errorCode'' JStr (cl_errorCode c)
     @ opt_field ''guards'' strs (cl_guards c) @ opt_field ''requiredGuards'' strs (cl_requiredGuards c)
     @ opt_field ''sideEffects'' strs (cl_sideEffects c))"

definition encode_definition :: "string \<Rightarrow> string \<Rightarrow> machine_def \<Rightarrow> jsval" where
  "encode_definition version description d = JObj (
     (''machineId'', JStr (md_machineId d)) # (''entityType'', JStr (md_entityType d))
     # (''version'', JStr version) # (''description'', JStr description)
     # (''initialState'', JStr (md_initialState d))
     # (''states'', JArr (map encode_state (md_states d))) # (''events'', JArr (map encode_event (md_events d)))
     # (''totalMatrix'', JArr (map encode_cell (md_totalMatrix d)))
     # (''invariants'', JArr []) # (''proofObligations'', JArr [])
     # opt_field ''allowedTerminalEvents'' strs (md_allowedTerminalEvents d))"

lemma prop_of_Cons: "prop_of ((k, v) # ps) j = (if j = k then v else prop_of ps j)"
  by (simp add: prop_of_def)

lemma prop_of_nil: "prop_of [] j = JUndef"
  by (simp add: prop_of_def)

lemma prop_of_opt_append: "prop_of (opt_field k f x @ ps) j =
    (if j = k \<and> x \<noteq> None then f (the x) else prop_of ps j)"
  by (auto simp: prop_of_def opt_field_def split: option.splits)

lemma prop_of_opt: "prop_of (opt_field k f x) j = (if j = k \<and> x \<noteq> None then f (the x) else JUndef)"
  by (cases x) (simp_all add: opt_field_def prop_of_def)

lemmas prop_of_encoded = prop_of_Cons prop_of_nil prop_of_opt_append prop_of_opt

lemma opt_strs_of_strs [simp]: "opt_strs_of (strs xs) = Some xs"
  by (simp add: strs_def comp_def)

lemma string_array_strs_iff [simp]: "string_array (strs xs) \<longleftrightarrow> (\<forall>x \<in> set xs. js_trim x \<noteq> [])"
  by (simp add: strs_def)

lemma strs_defined [simp]: "strs xs \<noteq> JUndef"
  by (simp add: strs_def)

lemma decode_encode_state: "decode_state (encode_state s) = s"
  by (cases s) (simp add: encode_state_def decode_state_def prop_of_encoded)

lemma decode_encode_event: "decode_event (encode_event e) = e"
  by (cases e, cases "ed_riskLevel e") (simp_all add: encode_event_def decode_event_def prop_of_encoded)

lemma decode_encode_cell: "decode_cell (encode_cell c) = c"
proof (rule matrix_cell.equality)
  let ?d = "decode_cell (encode_cell c)"
  show "cl_to ?d = cl_to c" by (cases "cl_to c") (simp_all add: encode_cell_def decode_cell_def prop_of_encoded)
  show "cl_errorCode ?d = cl_errorCode c" by (cases "cl_errorCode c") (simp_all add: encode_cell_def decode_cell_def prop_of_encoded)
  show "cl_guards ?d = cl_guards c" by (cases "cl_guards c") (simp_all add: encode_cell_def decode_cell_def prop_of_encoded)
  show "cl_requiredGuards ?d = cl_requiredGuards c" by (cases "cl_requiredGuards c") (simp_all add: encode_cell_def decode_cell_def prop_of_encoded)
  show "cl_sideEffects ?d = cl_sideEffects c" by (cases "cl_sideEffects c") (simp_all add: encode_cell_def decode_cell_def prop_of_encoded)
qed (simp_all add: encode_cell_def decode_cell_def prop_of_encoded)

lemma decode_encode_definition: "decode_definition (encode_definition ver desc d) = d"
  by (cases d; cases "md_allowedTerminalEvents d")
    (simp_all add: encode_definition_def decode_definition_def prop_of_encoded comp_def
      decode_encode_state decode_encode_event decode_encode_cell)

text \<open>What the schema demands of a typed definition.\<close>

definition cell_wf :: "matrix_cell \<Rightarrow> bool" where
  "cell_wf c \<longleftrightarrow> js_trim (cl_from c) \<noteq> [] \<and> js_trim (cl_event c) \<noteq> []
     \<and> cl_result c \<in> set valid_transition_results \<and> (\<forall>g \<in> set (cell_guards c). js_trim g \<noteq> [])
     \<and> (\<forall>g \<in> set (opt_list (cl_sideEffects c)). js_trim g \<noteq> [])"

definition known_risk :: "string option \<Rightarrow> bool" where
  "known_risk r \<longleftrightarrow> r \<in> {None, Some ''low'', Some ''medium'', Some ''high''}"

definition definition_wf :: "machine_def \<Rightarrow> bool" where
  "definition_wf d \<longleftrightarrow> js_trim (md_machineId d) \<noteq> [] \<and> js_trim (md_entityType d) \<noteq> [] \<and> js_trim (md_initialState d) \<noteq> []
     \<and> (\<forall>s \<in> set (md_states d). js_trim (sd_id s) \<noteq> [])
     \<and> (\<forall>e \<in> set (md_events d). js_trim (ed_id e) \<noteq> [] \<and> known_risk (ed_riskLevel e))
     \<and> (\<forall>c \<in> set (md_totalMatrix d). cell_wf c)
     \<and> (\<forall>e \<in> set (opt_list (md_allowedTerminalEvents d)). js_trim e \<noteq> [])"

lemma decode_cell_wf:
  assumes "cell_schema_error v = None" shows "cell_wf (decode_cell v)"
proof -
  from assms obtain c where c: "v = JObj c" "nonblank (prop_of c ''from'')" "nonblank (prop_of c ''event'')"
      "prop_of c ''result'' \<in> JStr ` set valid_transition_results"
      "optional string_array (prop_of c ''guards'')" "optional string_array (prop_of c ''requiredGuards'')"
      "optional string_array (prop_of c ''sideEffects'')"
    by (auto simp: cell_schema_error_None)
  have "str_of (prop_of c ''result'') \<in> set valid_transition_results" using c(4) by auto
  moreover have "js_trim g \<noteq> []" if "g \<in> set (opt_list (opt_strs_of (prop_of c f)))" "f \<in> {''guards'', ''requiredGuards'', ''sideEffects''}" for f g
    using that c(5-7) optional_array_strs by blast
  ultimately show ?thesis
    using c(1-3) by (auto simp: cell_wf_def decode_cell_def cell_guards_def dest: nonblank_trim)
qed

lemma decode_event_wf:
  assumes "event_schema_error v = None"
  shows "js_trim (ed_id (decode_event v)) \<noteq> [] \<and> known_risk (ed_riskLevel (decode_event v))"
proof -
  from assms obtain e where e: "v = JObj e" "nonblank (prop_of e ''id'')"
      "optional (\<lambda>v. v \<in> risk_levels) (prop_of e ''riskLevel'')"
    by (auto simp: event_schema_error_None)
  from e(3) have "known_risk (opt_str_of (prop_of e ''riskLevel''))"
    by (auto simp: optional_def risk_levels_def known_risk_def)
  with e(1,2) show ?thesis by (auto simp: decode_event_def dest: nonblank_trim)
qed

lemma decode_state_wf: "state_schema_error v = None \<Longrightarrow> js_trim (sd_id (decode_state v)) \<noteq> []"
  by (auto simp: state_schema_error_None decode_state_def dest: nonblank_trim)

lemma decode_definition_wf:
  assumes "checkDefinitionSchema v = None" shows "definition_wf (decode_definition v)"
proof -
  from schema_record [OF assms] obtain d where v: "v = JObj d" by blast
  note s = assms [unfolded v schema_None]
  from s obtain ss es cs where a: "prop_of d ''states'' = JArr ss" "prop_of d ''events'' = JArr es"
      "prop_of d ''totalMatrix'' = JArr cs" "\<forall>v \<in> set ss. state_schema_error v = None"
      "\<forall>v \<in> set es. event_schema_error v = None" "\<forall>v \<in> set cs. cell_schema_error v = None"
    unfolding array_field_error_None by blast
  from s have req: "nonblank (prop_of d ''machineId'')" "nonblank (prop_of d ''entityType'')" "nonblank (prop_of d ''initialState'')"
    by (simp_all add: required_string_fields_def)
  from s have "optional string_array (prop_of d ''allowedTerminalEvents'')" by blast
  then have "\<forall>e \<in> set (opt_list (opt_strs_of (prop_of d ''allowedTerminalEvents''))). js_trim e \<noteq> []"
    using optional_array_strs by blast
  then show ?thesis
    using a req by (simp add: v definition_wf_def decode_definition_def decode_cell_wf decode_event_wf decode_state_wf nonblank_trim)
qed

lemma optional_encoded:
  "optional string_array (case_option JUndef strs x) \<longleftrightarrow> (\<forall>g \<in> set (opt_list x). js_trim g \<noteq> [])"
  "optional is_string (case_option JUndef JStr y)"
  by (cases x; simp add: optional_def) (cases y; simp add: optional_def)

lemma encode_cell_schema: "cell_schema_error (encode_cell c) = None \<longleftrightarrow> cell_wf c"
proof -
  obtain ps where e: "encode_cell c = JObj ps" by (simp add: encode_cell_def)
  then have p: "prop_of ps ''from'' = JStr (cl_from c)" "prop_of ps ''event'' = JStr (cl_event c)" "prop_of ps ''result'' = JStr (cl_result c)"
    "prop_of ps ''allowedReopenTransition'' = JBool (cl_reopen c)" "prop_of ps ''proofObligations'' = JUndef"
    by (auto simp: encode_cell_def prop_of_encoded)
  from e have o1: "prop_of ps ''to'' = case_option JUndef JStr (cl_to c)" "prop_of ps ''errorCode'' = case_option JUndef JStr (cl_errorCode c)"
    "prop_of ps ''guards'' = case_option JUndef strs (cl_guards c)"
    "prop_of ps ''requiredGuards'' = case_option JUndef strs (cl_requiredGuards c)"
    "prop_of ps ''sideEffects'' = case_option JUndef strs (cl_sideEffects c)"
    by (auto simp: encode_cell_def prop_of_encoded split: option.split)
  show ?thesis unfolding cell_schema_error_None e
    by (auto simp: p o1 optional_encoded cell_wf_def cell_guards_def optional_def [of is_bool] optional_def [of string_array JUndef])
qed

lemma encode_event_schema: "event_schema_error (encode_event e) = None \<longleftrightarrow>
    js_trim (ed_id e) \<noteq> [] \<and> known_risk (ed_riskLevel e)"
  unfolding event_schema_error_None
  by (cases "ed_riskLevel e") (simp_all add: encode_event_def prop_of_encoded optional_def risk_levels_def known_risk_def)

lemma encode_state_schema: "state_schema_error (encode_state s) = None \<longleftrightarrow> js_trim (sd_id s) \<noteq> []"
  unfolding state_schema_error_None
  by (simp add: encode_state_def prop_of_encoded optional_def)

lemma schema_encoded:
  assumes "js_trim ver \<noteq> []" and "js_trim desc \<noteq> []" and "md_entityType d \<noteq> ''capability_acceptance''"
  shows "checkDefinitionSchema (encode_definition ver desc d) = None \<longleftrightarrow> definition_wf d"
  unfolding encode_definition_def schema_None array_field_error_None
  using assms
  by (cases "md_allowedTerminalEvents d")
    (auto simp: prop_of_encoded required_string_fields_def optional_def definition_wf_def
      encode_cell_schema encode_event_schema encode_state_schema)

lemma demo_trims: "js_trim ''demo'' \<noteq> []" "js_trim ''open'' \<noteq> []" "js_trim ''closed'' \<noteq> []" "js_trim ''finish'' \<noteq> []"
  by code_simp+

lemma demo_machine_wf: "definition_wf demo_machine"
  by (simp add: definition_wf_def demo_machine_def demo_cell_def cell_wf_def cell_guards_def demo_trims
      known_risk_def valid_transition_results_def)

lemma demo_machine_entity: "md_entityType demo_machine \<noteq> ''capability_acceptance''"
  by (simp add: demo_machine_def)

section \<open>Properties\<close>

text \<open>A definition value that passes the schema check decodes to a typed definition in which every
  id, guard and side effect is non-blank, every transition result is one of the seven known ones
  and every risk level is a known one.\<close>

lemma schema_gives_types:
  assumes "checkDefinitionSchema v = None"
  shows "definition_wf (decode_definition v)"
  by (rule decode_definition_wf [OF assms])

theorem schema_gives_types_witness:
  "definition_wf (decode_definition (encode_definition ''demo'' ''demo'' demo_machine))"
proof (rule schema_gives_types)
  show "checkDefinitionSchema (encode_definition ''demo'' ''demo'' demo_machine) = None"
    using schema_encoded [OF demo_trims(1) demo_trims(1) demo_machine_entity] demo_machine_wf by simp
qed

text \<open>Writing a typed definition as a value and reading it back gives the definition, and the value
  passes the schema check exactly when the definition is well formed (for entity types other than
  capability acceptance, with non-blank version and description).\<close>

lemma schema_roundtrip:
  assumes "js_trim ver \<noteq> []" and "js_trim desc \<noteq> []" and "md_entityType d \<noteq> ''capability_acceptance''"
  shows "decode_definition (encode_definition ver desc d) = d
    \<and> (checkDefinitionSchema (encode_definition ver desc d) = None \<longleftrightarrow> definition_wf d)"
  using schema_encoded [OF assms] by (simp add: decode_encode_definition)

lemma schema_roundtrip_witness:
  "checkDefinitionSchema (encode_definition ''demo'' ''demo'' demo_machine) = None"
  using schema_roundtrip [OF demo_trims(1) demo_trims(1) demo_machine_entity] demo_machine_wf by simp

end
