(* ===== verification/Redaction.thy ===== *)
theory Redaction
  imports JsValue
begin

text \<open>
  Redaction of the metadata stored with a transition record
  (\<open>redactMetadata\<close> and its helpers in \<open>engine/state-machine-core.ts\<close>).
\<close>

section \<open>Sensitive keys and texts\<close>

definition is_alnum_lower :: "char \<Rightarrow> bool" where
  "is_alnum_lower c = (let n = (of_char c :: nat) in 97 \<le> n \<and> n \<le> 122 \<or> 48 \<le> n \<and> n \<le> 57)"

definition normalizeKey :: "string \<Rightarrow> string" where
  "normalizeKey k = filter is_alnum_lower (js_lower k)"

definition safe_keys :: "string list" where
  "safe_keys = [''reasoncode'', ''operationid'', ''traceid'', ''scopeid'', ''status'',
     ''machineid'', ''entityid'', ''eventtype'', ''fromstatus'', ''tostatus'',
     ''guardid'', ''ok'', ''reason'', ''branch'', ''commit'', ''runid'',
     ''verificationmode'', ''mode'', ''labels'', ''type'', ''id'', ''name'',
     ''count'', ''total'', ''version'', ''schemaversion'']"

definition redact_key_patterns :: "string list" where
  "redact_key_patterns = [''token'', ''secret'', ''password'', ''cookie'', ''authorization'',
     ''apikey'', ''accesskey'', ''refreshtoken'', ''accesstoken'',
     ''privatepath'', ''absolutepath'', ''opaque'', ''capability'',
     ''keyhash'', ''lookupkey'', ''credential'', ''signature'', ''signingkey'',
     ''clientsecret'', ''credentialbundle'']"

definition isSensitiveKeyNormalized :: "string \<Rightarrow> bool" where
  "isSensitiveKeyNormalized k = (k \<notin> set safe_keys \<and> (\<exists>p \<in> set redact_key_patterns. str_includes k p))"

definition is_letter :: "char \<Rightarrow> bool" where
  "is_letter c = (let n = (of_char c :: nat) in 65 \<le> n \<and> n \<le> 90 \<or> 97 \<le> n \<and> n \<le> 122)"

fun windows_root :: "string \<Rightarrow> bool" where
  "windows_root (a # b # c # _) = (is_letter a \<and> b = CHR '':'' \<and> (c = CHR 0x5C \<or> c = CHR ''/''))"
| "windows_root _ = False"

definition posix_roots :: "string list" where
  "posix_roots = [''Users'', ''home'', ''root'', ''tmp'', ''var'', ''etc'', ''opt'', ''usr'']"

definition isAbsPath :: "string \<Rightarrow> bool" where
  "isAbsPath s = (windows_root s \<or> (\<exists>r \<in> set posix_roots. starts_with s (''/'' @ r @ ''/'')))"

definition token_fragments :: "string list" where
  "token_fragments = [''?token='', ''&token='', ''&access_token='', ''?access_token='',
     ''&refresh_token='', ''?refresh_token='', ''?api_key='', ''&api_key='',
     ''authorization:'', ''x-api-key:'', ''client_secret='', ''&client_secret='',
     ''authorization = bearer'', ''authorization=bearer'']"

definition containsToken :: "string \<Rightarrow> bool" where
  "containsToken s = (let l = js_lower s in
     starts_with l ''bearer '' \<or> starts_with l ''basic '' \<or> (\<exists>f \<in> set token_fragments. str_includes l f))"

definition isSensitiveStringValue :: "string \<Rightarrow> bool" where
  "isSensitiveStringValue s = (let l = js_trim (js_lower s) in
     starts_with l ''bearer '' \<or> starts_with l ''basic '' \<or> starts_with l ''sk-'' \<or> starts_with l ''ock_'')"

section \<open>Redaction\<close>

definition redacted :: "string \<Rightarrow> jsval" where
  "redacted reason = JObj [(''redacted'', JBool True), (''reason'', JStr reason)]"

definition marker_key :: jsval where
  "marker_key = redacted ''sensitive_key''"

definition marker_path :: jsval where
  "marker_path = redacted ''absolute_path''"

definition marker_depth :: jsval where
  "marker_depth = redacted ''max_depth_exceeded''"

definition redact_text :: "string \<Rightarrow> jsval" where
  "redact_text s =
     (if isAbsPath s then marker_path
      else if containsToken s then marker_key
      else if isSensitiveStringValue s then marker_key
      else JStr s)"

text \<open>A string that is the value of a property is also redacted when it reads like a sensitive key.\<close>

definition redact_property_text :: "string \<Rightarrow> jsval" where
  "redact_property_text s =
     (if isAbsPath s then marker_path
      else if containsToken s then marker_key
      else if isSensitiveStringValue s then marker_key
      else if isSensitiveKeyNormalized (normalizeKey s) then marker_key
      else JStr s)"

fun is_object :: "jsval \<Rightarrow> bool" where
  "is_object (JArr _) = True"
| "is_object (JObj _) = True"
| "is_object _ = False"

text \<open>Assigning the property \<open>__proto__\<close> of a fresh object sets its prototype and stores no
  property, so that name never appears in the result.\<close>

fun redactMetadata :: "nat \<Rightarrow> jsval \<Rightarrow> jsval" where
  "redactMetadata d (JArr vs) =
     (if d > 10 then marker_depth else JArr (map (redactMetadata (Suc d)) vs))"
| "redactMetadata d (JObj ps) =
     (if d > 10 then marker_depth
      else JObj (filter (\<lambda>p. fst p \<noteq> ''__proto__'') (map (\<lambda>(k, v). (k,
        if isSensitiveKeyNormalized (normalizeKey k)
        then (if is_object v then redactMetadata (Suc d) v else marker_key)
        else (case v of
                JStr s \<Rightarrow> redact_property_text s
              | JArr vs \<Rightarrow> redactMetadata (Suc d) v
              | JObj qs \<Rightarrow> redactMetadata (Suc d) v
              | JNull \<Rightarrow> redactMetadata (Suc d) v
              | _ \<Rightarrow> v))) ps)))"
| "redactMetadata d (JStr s) = (if d > 10 then marker_depth else redact_text s)"
| "redactMetadata d v = (if d > 10 then marker_depth else v)"

section \<open>Lemmas\<close>

definition sensitive_text :: "string \<Rightarrow> bool" where
  "sensitive_text s \<longleftrightarrow> isAbsPath s \<or> containsToken s \<or> isSensitiveStringValue s"

text \<open>A value in which no string is a path or a credential and no sensitive key holds a primitive.\<close>

fun leak_free :: "jsval \<Rightarrow> bool" where
  "leak_free (JStr s) = (\<not> sensitive_text s)"
| "leak_free (JArr vs) = (\<forall>v \<in> set vs. leak_free v)"
| "leak_free (JObj ps) = (\<forall>(k, v) \<in> set ps. leak_free v \<and> (isSensitiveKeyNormalized (normalizeKey k) \<longrightarrow> is_object v))"
| "leak_free _ = True"

fun nesting :: "jsval \<Rightarrow> nat" where
  "nesting (JArr vs) = Suc (fold max (map nesting vs) 0)"
| "nesting (JObj ps) = Suc (fold max (map (\<lambda>(k, v). nesting v) ps) 0)"
| "nesting _ = 0"


lemma marker_safe_keys: "\<not> isSensitiveKeyNormalized (normalizeKey ''redacted'')"
    "\<not> isSensitiveKeyNormalized (normalizeKey ''reason'')"
  by code_simp+

lemma marker_texts: "\<not> sensitive_text ''sensitive_key''" "\<not> sensitive_text ''absolute_path''"
    "\<not> sensitive_text ''max_depth_exceeded''"
  by code_simp+

lemma markers_leak_free [simp]: "leak_free marker_key" "leak_free marker_path" "leak_free marker_depth"
  by (simp_all add: marker_key_def marker_path_def marker_depth_def redacted_def marker_safe_keys marker_texts)

lemma markers_object [simp]: "is_object marker_key" "is_object marker_path" "is_object marker_depth"
  by (simp_all add: marker_key_def marker_path_def marker_depth_def redacted_def)

lemma markers_nesting [simp]: "nesting marker_key = 1" "nesting marker_path = 1" "nesting marker_depth = 1"
  by (simp_all add: marker_key_def marker_path_def marker_depth_def redacted_def)

lemma redact_text_leak_free [simp]: "leak_free (redact_text s)" "leak_free (redact_property_text s)"
  by (auto simp: redact_text_def redact_property_text_def sensitive_text_def)







section \<open>Properties\<close>


text \<open>A list under a sensitive key is not redacted as a whole: a plain secret string inside it is stored
  as it is.\<close>

lemma redaction_keeps_lists_under_sensitive_keys:
  assumes "isSensitiveKeyNormalized (normalizeKey k)" and "k \<noteq> ''__proto__''" and "\<not> sensitive_text s"
  shows "redactMetadata 0 (JObj [(k, JArr [JStr s])]) = JObj [(k, JArr [JStr s])]
    \<and> redactMetadata 0 (JObj [(k, JStr s)]) = JObj [(k, marker_key)]"
  using assms by (simp add: redact_text_def sensitive_text_def)

lemma redaction_keeps_lists_under_sensitive_keys_witness:
  "redactMetadata 0 (JObj [(''password'', JArr [JStr ''hunter2''])]) = JObj [(''password'', JArr [JStr ''hunter2''])]"
proof -
  have "isSensitiveKeyNormalized (normalizeKey ''password'')" and "\<not> sensitive_text ''hunter2''"
    by code_simp+
  from redaction_keeps_lists_under_sensitive_keys [OF this(1) _ this(2)] show ?thesis by simp
qed

end
