(* ===== verification/Engine.thy ===== *)
theory Engine
  imports Selector Schema Redaction
begin

text \<open>
  The transition engine (\<open>engine/state-machine-core.ts\<close>): validation of a definition given as an
  untyped value, the transition function and its envelope checks.  The digest of a definition is a
  parameter.  When the caller skips validation the definition is taken to conform to its TypeScript
  type, which is what \<open>decode_definition\<close> reads.
\<close>

section \<open>Validation\<close>

type_synonym issue = "string \<times> string"

definition invalid :: "string \<Rightarrow> issue" where
  "invalid m = (err_invalid_definition, m)"

record validation_result =
  vr_ok :: bool
  vr_errors :: "issue list"

definition validation :: "issue list \<Rightarrow> validation_result" where
  "validation errors = \<lparr>vr_ok = (errors = []), vr_errors = errors\<rparr>"

lemma validation_sel [simp]: "vr_ok (validation es) \<longleftrightarrow> es = []" "vr_errors (validation es) = es"
  by (simp_all add: validation_def)

definition issue_if :: "bool \<Rightarrow> string \<Rightarrow> issue list" where
  "issue_if b m = (if b then [invalid m] else [])"

lemma issue_if_Nil [simp]: "issue_if b m = [] \<longleftrightarrow> \<not> b"
  by (simp add: issue_if_def)

definition id_text :: "jsval \<Rightarrow> string" where
  "id_text v = js_string (js_or v (JStr []))"

definition structure_issues :: "jsobj \<Rightarrow> issue list" where
  "structure_issues d =
     issue_if (\<not> truthy (prop_of d ''machineId'')) ''machineId is required''
     @ issue_if (\<not> truthy (prop_of d ''initialState'')) ''initialState is required''
     @ issue_if (\<not> is_array (prop_of d ''states'')) ''states array is required''
     @ issue_if (\<not> is_array (prop_of d ''events'')) ''events array is required''
     @ issue_if (\<not> is_array (prop_of d ''totalMatrix'')) ''totalMatrix array is required''"

definition state_issues :: "jsobj \<Rightarrow> issue list" where
  "state_issues d =
     (let states = elems_of (prop_of d ''states'');
          ids = map (\<lambda>v. id_text (prop_of (fields_of v) ''id'')) states
      in issue_if (\<not> distinct ids) ''Duplicate state IDs found''
         @ issue_if (id_text (prop_of d ''initialState'') \<notin> set ids)
             (''initialState '' @ quoted (js_string (prop_of d ''initialState'')) @ '' is not in states list'')
         @ concat (map (\<lambda>v. issue_if (truthy (prop_of (fields_of v) ''terminal'')
                 \<and> id_text (prop_of (fields_of v) ''id'') \<notin> set ids)
               (''terminal state '' @ quoted (js_string (prop_of (fields_of v) ''id'')) @ '' is not in states list''))
             states))"

fun validateStateMachineDefinition :: "jsval \<Rightarrow> validation_result" where
  "validateStateMachineDefinition (JObj d) =
     (if structure_issues d \<noteq> [] then validation (structure_issues d) else validation (state_issues d))"
| "validateStateMachineDefinition _ = validation [invalid ''Definition is null.'']"

definition msg_blank_guard :: "string \<Rightarrow> string" where
  "msg_blank_guard field = ''Matrix cell '' @ field @ '' contain empty or non-string item''"

definition msg_unregistered :: "string \<Rightarrow> string \<Rightarrow> string" where
  "msg_unregistered label g = label @ '' '' @ quoted g @ '' is not registered in guard registry''"

definition guard_place :: "string \<Rightarrow> matrix_cell \<Rightarrow> string" where
  "guard_place field c = '' in cell.'' @ field @ '' for '' @ cl_from c @ ''->'' @ cl_event c"

definition msg_static_guard :: "string \<Rightarrow> string \<Rightarrow> string" where
  "msg_static_guard g place = ''staticOnly guard '' @ quoted g @ place
     @ '' is not allowed. staticOnly guards cannot gate runtime transitions.''"

definition msg_unsafe_guard :: "string \<Rightarrow> string \<Rightarrow> string" where
  "msg_unsafe_guard g place = ''Guard '' @ quoted g @ place @ '' is not runtime-safe and cannot gate runtime transitions.''"

definition registration_issues :: "string \<Rightarrow> string \<Rightarrow> string list \<Rightarrow> issue list" where
  "registration_issues field label gs =
     concat (map (\<lambda>g.
       if js_trim g = [] then [invalid (msg_blank_guard field)]
       else if g \<notin> set listAllGuardIds then [invalid (msg_unregistered label g)]
       else []) gs)"

definition runtime_issues :: "string \<Rightarrow> matrix_cell \<Rightarrow> string list \<Rightarrow> issue list" where
  "runtime_issues field c gs =
     concat (map (\<lambda>g.
       if isStaticOnlyGuard g then [invalid (msg_static_guard g (guard_place field c))]
       else if \<not> isGuardRuntimeSafe g \<and> guardExists g then [invalid (msg_unsafe_guard g (guard_place field c))]
       else []) gs)"

text \<open>The checks of a definition whose schema and structure are in order.\<close>

definition executable_issues :: "machine_def \<Rightarrow> issue list" where
  "executable_issues d =
     issue_if (\<not> distinct (map ed_id (md_events d))) ''Duplicate event IDs found''
     @ concat (map (\<lambda>c. registration_issues ''guards'' ''Guard'' (opt_list (cl_guards c))
           @ registration_issues ''requiredGuards'' ''requiredGuard'' (opt_list (cl_requiredGuards c))) (md_totalMatrix d))
     @ map invalid (snd (validateStateMachineTopology d))
     @ concat (map (\<lambda>c. runtime_issues ''guards'' c (opt_list (cl_guards c))
           @ runtime_issues ''requiredGuards'' c (opt_list (cl_requiredGuards c))) (md_totalMatrix d))"

definition executableDefinition :: "jsval \<Rightarrow> machine_def option" where
  "executableDefinition v =
     (let d = fields_of v
      in if is_record v \<and> is_string (prop_of d ''machineId'') \<and> is_string (prop_of d ''initialState'')
            \<and> is_array (prop_of d ''states'') \<and> is_array (prop_of d ''events'') \<and> is_array (prop_of d ''totalMatrix'')
         then Some (decode_definition v) else None)"

definition validateExecutableStateMachineDefinition :: "jsval \<Rightarrow> validation_result" where
  "validateExecutableStateMachineDefinition v =
     (let errors = (case checkDefinitionSchema v of None \<Rightarrow> [] | Some m \<Rightarrow> [invalid (''Schema check failed: '' @ m)])
            @ vr_errors (validateStateMachineDefinition v)
      in if errors \<noteq> [] then validation errors
         else case executableDefinition v of
           None \<Rightarrow> validation [invalid ''Definition structure is invalid.'']
         | Some d \<Rightarrow> validation (executable_issues d))"

definition assertStateMachineDefinition :: "jsval \<Rightarrow> (string \<times> string \<times> issue list) + unit" where
  "assertStateMachineDefinition v =
     (let r = validateExecutableStateMachineDefinition v
      in if \<not> vr_ok r then Inl (err_invalid_definition, join ''; '' (map snd (vr_errors r)), vr_errors r) else Inr ())"

definition isTerminalStatus :: "jsval \<Rightarrow> string \<Rightarrow> bool" where
  "isTerminalStatus v status =
     (case executableDefinition v of
        None \<Rightarrow> False
      | Some d \<Rightarrow> (case find (\<lambda>s. sd_id s = status) (md_states d) of None \<Rightarrow> False | Some s \<Rightarrow> sd_terminal s))"

definition allowedEvents :: "jsval \<Rightarrow> string \<Rightarrow> string list" where
  "allowedEvents v status = (case executableDefinition v of None \<Rightarrow> [] | Some d \<Rightarrow> listAllowedEvents d status)"

section \<open>Transition results\<close>

record required_effects =
  re_policy :: bool
  re_approval :: bool
  re_externalReceipt :: bool
  re_async :: bool
  re_ledger :: bool
  re_checkpoint :: bool
  re_audit :: bool

text \<open>The record of a transition; the fields copied from the input are kept as an object.\<close>

record transition_record =
  tr_entityType :: string
  tr_fromStatus :: string
  tr_toStatus :: string
  tr_eventType :: string
  tr_metadata :: jsval
  tr_copied :: jsobj
  tr_guardResults :: "guard_result list option"

record accepted =
  ac_machineId :: string
  ac_entityId :: jsval
  ac_entityType :: string
  ac_fromStatus :: string
  ac_toStatus :: string
  ac_eventType :: string
  ac_idempotent :: bool
  ac_transitionRecord :: transition_record
  ac_requiredEffects :: required_effects
  ac_asyncTransition :: "jsobj option"

datatype transition_outcome = Refused selection | NotExecutable "issue list" | Accepted accepted

definition copied :: "string list \<Rightarrow> jsobj \<Rightarrow> jsobj" where
  "copied ks fs = map (\<lambda>k. (k, prop_of fs k)) ks"

definition no_effects :: required_effects where
  "no_effects = \<lparr>re_policy = False, re_approval = False, re_externalReceipt = False, re_async = False,
     re_ledger = False, re_checkpoint = False, re_audit = False\<rparr>"

definition ignored_result :: "machine_def \<Rightarrow> transition_input \<Rightarrow> guard_result list \<Rightarrow> accepted" where
  "ignored_result d inp rs =
     \<lparr>ac_machineId = md_machineId d, ac_entityId = prop_of (ti_fields inp) ''entityId'',
      ac_entityType = md_entityType d, ac_fromStatus = ti_currentStatus inp, ac_toStatus = ti_currentStatus inp,
      ac_eventType = ti_eventType inp, ac_idempotent = True,
      ac_transitionRecord = \<lparr>tr_entityType = md_entityType d, tr_fromStatus = ti_currentStatus inp,
        tr_toStatus = ti_currentStatus inp, tr_eventType = ti_eventType inp,
        tr_metadata = redactMetadata 0 (ti_metadata inp),
        tr_copied = copied [''entityId'', ''operationId'', ''now'', ''actor'', ''reason''] (ti_fields inp),
        tr_guardResults = guardSummary rs\<rparr>,
      ac_requiredEffects = no_effects, ac_asyncTransition = None\<rparr>"

definition js_or_null :: "jsval \<Rightarrow> jsval" where
  "js_or_null v = js_or v JNull"

definition moved_result :: "machine_def \<Rightarrow> transition_input \<Rightarrow> matrix_cell \<Rightarrow> guard_result list \<Rightarrow> accepted" where
  "moved_result d inp c rs =
     (let toStatus = str_or (cl_to c) (ti_currentStatus inp);
          async = (cl_result c = ''deferred_async_transition'')
      in \<lparr>ac_machineId = md_machineId d, ac_entityId = prop_of (ti_fields inp) ''entityId'',
          ac_entityType = md_entityType d, ac_fromStatus = ti_currentStatus inp, ac_toStatus = toStatus,
          ac_eventType = ti_eventType inp, ac_idempotent = False,
          ac_transitionRecord = \<lparr>tr_entityType = md_entityType d, tr_fromStatus = ti_currentStatus inp,
            tr_toStatus = toStatus, tr_eventType = ti_eventType inp,
            tr_metadata = redactMetadata 0 (ti_metadata inp),
            tr_copied = copied [''entityId'', ''operationId'', ''now'', ''actor'', ''reason'', ''traceId'', ''auditId'',
              ''checkpointNodeId'', ''policyDecisionId'', ''approvalId''] (ti_fields inp),
            tr_guardResults = guardSummary rs\<rparr>,
          ac_requiredEffects = \<lparr>re_policy = (cl_result c = ''requires_policy''),
            re_approval = (cl_result c = ''requires_approval''),
            re_externalReceipt = (cl_result c = ''requires_external_receipt''), re_async = async, re_ledger = True,
            re_checkpoint = (''checkpoint'' \<in> set (opt_list (cl_sideEffects c))),
            re_audit = (''audit'' \<in> set (opt_list (cl_sideEffects c)))\<rparr>,
          ac_asyncTransition = (if async then Some [(''required'', JBool True),
              (''resumePointer'', js_or_null (ti_resumePointer inp)), (''operationId'', js_or_null (ti_operationId inp)),
              (''traceId'', js_or_null (ti_traceId inp))] else None)\<rparr>)"

section \<open>Evidence of the gated results\<close>

definition policy_evidence :: "jsobj \<Rightarrow> bool" where
  "policy_evidence ctx =
     (let pd = asRecord (prop_of ctx ''policyDecision'')
      in prop_of pd ''allowed'' = JBool True \<or> js_or (prop_of pd ''decision'') (prop_of pd ''status'') = JStr ''allow'')"

definition approval_evidence :: "jsobj \<Rightarrow> bool" where
  "approval_evidence ctx = (prop_of (asRecord (prop_of ctx ''approvalRecord'')) ''status'' = JStr ''approved'')"

definition receipt_evidence :: "jsobj \<Rightarrow> bool" where
  "receipt_evidence ctx = (prop_of (asRecord (prop_of ctx ''externalReceipt'')) ''status'' = JStr ''recorded'')"

definition resume_evidence :: "transition_input \<Rightarrow> bool" where
  "resume_evidence inp = (truthy (ti_resumePointer inp) \<or> truthy (ti_operationId inp))"

definition gate_refusal :: "string \<Rightarrow> string \<Rightarrow> string list \<Rightarrow> selection" where
  "gate_refusal blocked msg allowed =
     (refused err_guard_blocked msg)\<lparr>sel_blockedBy := Some blocked, sel_allowedEvents := Some allowed\<rparr>"

definition msg_policy :: string where "msg_policy = ''Transition requires policy approval but no allow evidence found.''"
definition msg_approval :: string where "msg_approval = ''Transition requires approval but no approved evidence found.''"
definition msg_receipt :: string where "msg_receipt = ''Transition requires external receipt but no recorded evidence found.''"
definition msg_async :: string where "msg_async = ''Deferred async transition requires resumePointer or operationId.''"
definition msg_envelope :: string where "msg_envelope = ''Definition or transition input is invalid.''"
definition msg_injection :: string where
  "msg_injection = ''Guard evaluator injection via input is not allowed. Use internal options path only.''"

definition evidence_gate :: "machine_def \<Rightarrow> transition_input \<Rightarrow> matrix_cell \<Rightarrow> selection option" where
  "evidence_gate d inp c =
     (let allowed = listAllowedEvents d (ti_currentStatus inp)
      in if cl_result c = ''requires_policy'' \<and> \<not> policy_evidence (ti_guardContext inp)
         then Some (gate_refusal ''policy'' msg_policy allowed)
         else if cl_result c = ''requires_approval'' \<and> \<not> approval_evidence (ti_guardContext inp)
         then Some (gate_refusal ''approval'' msg_approval allowed)
         else if cl_result c = ''requires_external_receipt'' \<and> \<not> receipt_evidence (ti_guardContext inp)
         then Some (gate_refusal ''externalReceipt'' msg_receipt allowed)
         else if cl_result c = ''deferred_async_transition'' \<and> \<not> resume_evidence inp
         then Some (gate_refusal ''async'' msg_async allowed)
         else None)"

section \<open>The transition function\<close>

definition transitionInput :: "jsval \<Rightarrow> transition_input option" where
  "transitionInput v =
     (let fs = fields_of v
      in if is_record v \<and> is_string (prop_of fs ''currentStatus'') \<and> is_string (prop_of fs ''eventType'')
         then Some \<lparr>ti_currentStatus = str_of (prop_of fs ''currentStatus''), ti_eventType = str_of (prop_of fs ''eventType''),
                ti_guardContext = asRecord (prop_of fs ''guardContext''), ti_guardEvaluator = prop_of fs ''guardEvaluator'',
                ti_resumePointer = prop_of fs ''resumePointer'', ti_operationId = prop_of fs ''operationId'',
                ti_traceId = prop_of fs ''traceId'', ti_metadata = prop_of fs ''metadata'', ti_fields = fs\<rparr>
         else None)"

record transition_options =
  to_skip :: bool
  to_guardEvaluator :: "(string list \<Rightarrow> jsobj \<Rightarrow> jsval) option"
  to_validatedHash :: "string option"

definition default_options :: transition_options where
  "default_options = \<lparr>to_skip = False, to_guardEvaluator = None, to_validatedHash = None\<rparr>"

definition skipValidation :: "(jsval \<Rightarrow> string) \<Rightarrow> jsval \<Rightarrow> transition_options \<Rightarrow> bool" where
  "skipValidation hash v opts =
     (to_skip opts \<or> (case to_validatedHash opts of None \<Rightarrow> False | Some h \<Rightarrow> h \<noteq> [] \<and> h = hash v))"

text \<open>The part after the envelope checks: the selected cell decides.\<close>

definition apply_cell :: "machine_def \<Rightarrow> transition_input \<Rightarrow> matrix_cell \<Rightarrow> guard_result list \<Rightarrow> transition_outcome" where
  "apply_cell d inp c rs =
     (if is_illegal c
      then Refused ((refused (str_or (cl_errorCode c) err_transition_not_allowed)
             (msg_illegal (ti_currentStatus inp) (ti_eventType inp)))
             \<lparr>sel_allowedEvents := Some (listAllowedEvents d (ti_currentStatus inp))\<rparr>)
      else if is_ignored c then Accepted (ignored_result d inp rs)
      else case evidence_gate d inp c of
             Some r \<Rightarrow> Refused r
           | None \<Rightarrow> Accepted (moved_result d inp c rs))"

definition perform :: "machine_def \<Rightarrow> transition_input \<Rightarrow> (string list \<Rightarrow> jsobj \<Rightarrow> jsval) option \<Rightarrow> guard_error + transition_outcome" where
  "perform d inp opt =
     (if ti_guardEvaluator inp \<noteq> JUndef then Inr (Refused (refused err_guard_injection_rejected msg_injection))
      else if ti_currentStatus inp \<notin> set (map sd_id (md_states d))
      then Inr (Refused (refused err_unknown_status (''Unknown status: '' @ ti_currentStatus inp)))
      else if ti_eventType inp \<notin> set (map ed_id (md_events d))
      then Inr (Refused (refused err_unknown_event (''Unknown event: '' @ ti_eventType inp)))
      else bind_res (selectTransitionCell (Some d) (Some inp) opt) (\<lambda>sel.
        if \<not> sel_ok sel then Inr (Refused sel)
        else case sel_cell sel of
               None \<Rightarrow> Inr (Refused (refused err_transition_not_allowed ''Transition selection returned no cell.''))
             | Some c \<Rightarrow> Inr (apply_cell d inp c (opt_list (sel_guardResults sel)))))"

definition transitionState :: "(jsval \<Rightarrow> string) \<Rightarrow> jsval \<Rightarrow> jsval \<Rightarrow> transition_options \<Rightarrow> guard_error + transition_outcome" where
  "transitionState hash dv iv opts =
     (case (executableDefinition dv, transitionInput iv) of
        (Some d, Some inp) \<Rightarrow>
          (let r = validateExecutableStateMachineDefinition dv
           in if \<not> skipValidation hash dv opts \<and> \<not> vr_ok r then Inr (NotExecutable (vr_errors r))
              else perform d inp (to_guardEvaluator opts))
      | _ \<Rightarrow> Inr (Refused (refused err_invalid_input msg_envelope)))"

text \<open>\<open>assertTransitionAllowed\<close> throws a \<open>StateMachineError\<close> made of the refusal.\<close>

datatype assert_error = GuardThrew guard_error | NotAllowed string string

definition assertTransitionAllowed :: "(jsval \<Rightarrow> string) \<Rightarrow> jsval \<Rightarrow> jsval \<Rightarrow> assert_error + accepted" where
  "assertTransitionAllowed hash dv iv =
     (case transitionState hash dv iv default_options of
        Inl e \<Rightarrow> Inl (GuardThrew e)
      | Inr (Accepted a) \<Rightarrow> Inr a
      | Inr (NotExecutable es) \<Rightarrow> Inl (NotAllowed err_invalid_definition ''Definition is not executable.'')
      | Inr (Refused r) \<Rightarrow> Inl (NotAllowed (str_or (sel_errorCode r) err_transition_not_allowed)
             (str_or (sel_message r) ''Transition not allowed.'')))"

record compiled =
  cm_definition :: jsval
  cm_definitionHash :: string
  cm_validationResult :: validation_result
  cm_compiled :: bool

definition compileStateMachineDefinition :: "(jsval \<Rightarrow> string) \<Rightarrow> jsval \<Rightarrow> compiled" where
  "compileStateMachineDefinition hash v =
     \<lparr>cm_definition = v, cm_definitionHash = hash v,
      cm_validationResult = validateExecutableStateMachineDefinition v,
      cm_compiled = vr_ok (validateExecutableStateMachineDefinition v)\<rparr>"

record guard_preview =
  gp_ok :: bool
  gp_reason :: "string option"
  gp_errorCode :: "string option"
  gp_message :: "string option"
  gp_guardResults :: "guard_result list option"
  gp_failedGuards :: "string list option"
  gp_blockedBy :: "string option"
  gp_details :: "issue list option"

definition evaluateTransitionGuardsForValidatedDefinition :: "jsval \<Rightarrow> jsval \<Rightarrow> jsval \<Rightarrow> jsobj \<Rightarrow> guard_error + guard_preview" where
  "evaluateTransitionGuardsForValidatedDefinition v fromStatus eventType ctx =
     bind_res (selectTransitionCell (executableDefinition v)
         (transitionInput (JObj [(''currentStatus'', fromStatus), (''eventType'', eventType), (''guardContext'', JObj ctx)])) None)
       (\<lambda>r. Inr (if sel_ok r
          then \<lparr>gp_ok = True, gp_reason = None, gp_errorCode = None, gp_message = None,
                 gp_guardResults = Some (opt_list (sel_guardResults r)), gp_failedGuards = None, gp_blockedBy = None, gp_details = None\<rparr>
          else \<lparr>gp_ok = False, gp_reason = guard_preview_reason r, gp_errorCode = None, gp_message = sel_message r,
                 gp_guardResults = sel_guardResults r, gp_failedGuards = sel_failedGuards r, gp_blockedBy = sel_blockedBy r,
                 gp_details = None\<rparr>))"

definition evaluateTransitionGuards ::
  "(jsval \<Rightarrow> string) \<Rightarrow> jsval \<Rightarrow> jsval \<Rightarrow> jsval \<Rightarrow> jsobj \<Rightarrow> transition_options \<Rightarrow> guard_error + guard_preview" where
  "evaluateTransitionGuards hash v fromStatus eventType ctx opts =
     (let r = validateExecutableStateMachineDefinition v
      in if \<not> skipValidation hash v opts \<and> \<not> vr_ok r
         then Inr \<lparr>gp_ok = False, gp_reason = Some ''invalid_definition'', gp_errorCode = Some err_invalid_definition,
                gp_message = Some ''Definition is not executable.'', gp_guardResults = None, gp_failedGuards = None,
                gp_blockedBy = None, gp_details = Some (vr_errors r)\<rparr>
         else evaluateTransitionGuardsForValidatedDefinition v fromStatus eventType ctx)"

section \<open>What a passing validation means\<close>

definition sound_definition :: "machine_def \<Rightarrow> bool" where
  "sound_definition d \<longleftrightarrow> definition_wf d \<and> distinct (map sd_id (md_states d)) \<and> distinct (map ed_id (md_events d))
     \<and> md_initialState d \<in> sd_id ` set (md_states d) \<and> fst (validateStateMachineTopology d)
     \<and> (\<forall>c \<in> set (md_totalMatrix d). \<forall>g \<in> set (cell_guards c). g \<in> set listAllRuntimeGuardIds)"

lemma nonblank_id_text: "nonblank v \<Longrightarrow> id_text v = str_of v \<and> truthy v"
  by (cases v) (auto simp: id_text_def js_or_def)

lemma registration_issues_Nil: "registration_issues f l gs = [] \<longleftrightarrow> (\<forall>g \<in> set gs. js_trim g \<noteq> [] \<and> g \<in> set listAllGuardIds)"
  unfolding registration_issues_def concat_eq_Nil_conv set_map ball_simps by auto

lemma runtime_issues_Nil: "runtime_issues f c gs = [] \<longleftrightarrow> (\<forall>g \<in> set gs. \<not> isStaticOnlyGuard g \<and> (isGuardRuntimeSafe g \<or> \<not> guardExists g))"
  unfolding runtime_issues_def concat_eq_Nil_conv set_map ball_simps by auto

lemma registered_guard_ids: "g \<in> set listAllGuardIds \<longleftrightarrow> (\<exists>d. map_of state_machine_guards g = Some d)"
proof -
  have "g \<in> set listAllGuardIds \<longleftrightarrow> g \<in> fst ` set state_machine_guards" by (simp add: listAllGuardIds_def)
  then show ?thesis by (metis domIff dom_map_of_conv_image_fst not_None_eq)
qed

lemma registry_distinct: "distinct (map fst state_machine_guards)"
  by (simp add: state_machine_guards_def)

lemma registered_runtime_iff:
  assumes "g \<in> set listAllGuardIds"
  shows "\<not> isStaticOnlyGuard g \<and> (isGuardRuntimeSafe g \<or> \<not> guardExists g) \<longleftrightarrow> g \<in> set listAllRuntimeGuardIds"
proof -
  from assms obtain d where d: "map_of state_machine_guards g = Some d" by (auto simp: registered_guard_ids)
  then have s: "registry_slot g = OwnEntry d" by simp
  have "g \<in> set listAllRuntimeGuardIds \<longleftrightarrow> gd_runtimeMode d \<noteq> StaticOnly \<and> gd_runtimeMode d \<noteq> DeclaredOnly"
  proof -
    have "(g, d') \<in> set state_machine_guards \<longleftrightarrow> d' = d" for d'
      using map_of_eq_Some_iff [OF registry_distinct, of g d'] d by auto
    then show ?thesis unfolding listAllRuntimeGuardIds_def by (auto simp: image_iff Bex_def)
  qed
  then show ?thesis unfolding isStaticOnlyGuard_def isGuardRuntimeSafe_def guardExists_def s
    by (cases "gd_runtimeMode d") simp_all
qed

lemma runtime_registered: "g \<in> set listAllRuntimeGuardIds \<Longrightarrow> g \<in> set listAllGuardIds"
  by (auto simp: listAllRuntimeGuardIds_def listAllGuardIds_def)

lemma topology_errors_Nil: "snd (validateStateMachineTopology d) = [] \<longleftrightarrow> fst (validateStateMachineTopology d)"
  by (simp add: validateStateMachineTopology_def Let_def)

lemma executable_issues_Nil:
  "executable_issues d = [] \<longleftrightarrow> distinct (map ed_id (md_events d)) \<and> fst (validateStateMachineTopology d)
     \<and> (\<forall>c \<in> set (md_totalMatrix d). \<forall>g \<in> set (cell_guards c). js_trim g \<noteq> [] \<and> g \<in> set listAllRuntimeGuardIds)"
proof -
  have g: "(\<forall>g \<in> set gs. js_trim g \<noteq> [] \<and> g \<in> set listAllGuardIds)
      \<and> (\<forall>g \<in> set gs. \<not> isStaticOnlyGuard g \<and> (isGuardRuntimeSafe g \<or> \<not> guardExists g))
      \<longleftrightarrow> (\<forall>g \<in> set gs. js_trim g \<noteq> [] \<and> g \<in> set listAllRuntimeGuardIds)" for gs
    using registered_runtime_iff runtime_registered by blast
  have "executable_issues d = [] \<longleftrightarrow> distinct (map ed_id (md_events d)) \<and> fst (validateStateMachineTopology d)
     \<and> (\<forall>c \<in> set (md_totalMatrix d).
          ((\<forall>g \<in> set (opt_list (cl_guards c)). js_trim g \<noteq> [] \<and> g \<in> set listAllGuardIds)
           \<and> (\<forall>g \<in> set (opt_list (cl_guards c)). \<not> isStaticOnlyGuard g \<and> (isGuardRuntimeSafe g \<or> \<not> guardExists g)))
        \<and> ((\<forall>g \<in> set (opt_list (cl_requiredGuards c)). js_trim g \<noteq> [] \<and> g \<in> set listAllGuardIds)
           \<and> (\<forall>g \<in> set (opt_list (cl_requiredGuards c)). \<not> isStaticOnlyGuard g \<and> (isGuardRuntimeSafe g \<or> \<not> guardExists g))))"
    unfolding executable_issues_def append_is_Nil_conv issue_if_Nil map_is_Nil_conv topology_errors_Nil
      concat_eq_Nil_conv set_map ball_simps registration_issues_Nil runtime_issues_Nil not_not
    by blast
  then show ?thesis unfolding g by (simp add: cell_guards_def ball_Un)
qed

lemma structure_issues_Nil: "structure_issues d = [] \<longleftrightarrow> truthy (prop_of d ''machineId'') \<and> truthy (prop_of d ''initialState'')
    \<and> is_array (prop_of d ''states'') \<and> is_array (prop_of d ''events'') \<and> is_array (prop_of d ''totalMatrix'')"
  by (simp add: structure_issues_def)

lemma state_issues_Nil: "state_issues d = [] \<longleftrightarrow>
    (let ids = map (\<lambda>v. id_text (prop_of (fields_of v) ''id'')) (elems_of (prop_of d ''states''))
     in distinct ids \<and> id_text (prop_of d ''initialState'') \<in> set ids)"
  by (auto simp: state_issues_def Let_def)

text \<open>After the schema check the structural check is about the decoded definition.\<close>

lemma schema_parts:
  assumes "checkDefinitionSchema (JObj d) = None"
  obtains ss es cs where "prop_of d ''states'' = JArr ss" "prop_of d ''events'' = JArr es" "prop_of d ''totalMatrix'' = JArr cs"
    "\<forall>v \<in> set ss. state_schema_error v = None"
    "nonblank (prop_of d ''machineId'')" "nonblank (prop_of d ''initialState'')"
proof -
  from assms [unfolded schema_None array_field_error_None] obtain ss es cs
    where "prop_of d ''states'' = JArr ss" "prop_of d ''events'' = JArr es" "prop_of d ''totalMatrix'' = JArr cs"
      "\<forall>v \<in> set ss. state_schema_error v = None"
    by blast
  moreover from assms [unfolded schema_None]
  have "nonblank (prop_of d ''machineId'')" "nonblank (prop_of d ''initialState'')"
    by (simp_all add: required_string_fields_def)
  ultimately show ?thesis by (rule that)
qed

lemma decoded_state_id: "state_schema_error v = None \<Longrightarrow> id_text (prop_of (fields_of v) ''id'') = sd_id (decode_state v)"
  by (auto simp: state_schema_error_None decode_state_def nonblank_id_text)

lemma structure_after_schema:
  assumes "checkDefinitionSchema v = None"
  shows "vr_ok (validateStateMachineDefinition v) \<longleftrightarrow>
      distinct (map sd_id (md_states (decode_definition v))) \<and> md_initialState (decode_definition v) \<in> sd_id ` set (md_states (decode_definition v))"
    and "executableDefinition v = Some (decode_definition v)"
proof -
  from schema_record [OF assms] obtain d where v: "v = JObj d" by blast
  obtain ss es cs where p: "prop_of d ''states'' = JArr ss" "prop_of d ''events'' = JArr es" "prop_of d ''totalMatrix'' = JArr cs"
    "\<forall>v \<in> set ss. state_schema_error v = None" "nonblank (prop_of d ''machineId'')" "nonblank (prop_of d ''initialState'')"
    using assms unfolding v by (rule schema_parts)
  have "structure_issues d = []" using p nonblank_id_text by (simp add: structure_issues_Nil)
  then have ok: "vr_ok (validateStateMachineDefinition v) \<longleftrightarrow> state_issues d = []" by (simp add: v)
  have ids: "map (\<lambda>v. id_text (prop_of (fields_of v) ''id'')) (elems_of (prop_of d ''states'')) = map sd_id (map decode_state ss)"
    using p(4) by (simp add: p(1) decoded_state_id)
  show "vr_ok (validateStateMachineDefinition v) \<longleftrightarrow>
      distinct (map sd_id (md_states (decode_definition v))) \<and> md_initialState (decode_definition v) \<in> sd_id ` set (md_states (decode_definition v))"
    unfolding ok state_issues_Nil ids Let_def
    by (simp add: v p(1) decode_definition_def nonblank_id_text [OF p(6)] image_image)
  show "executableDefinition v = Some (decode_definition v)"
    using p by (cases "prop_of d ''machineId''"; cases "prop_of d ''initialState''") (simp_all add: v executableDefinition_def)
qed

lemma validated_iff:
  "vr_ok (validateExecutableStateMachineDefinition v) \<longleftrightarrow> checkDefinitionSchema v = None \<and> sound_definition (decode_definition v)"
proof (cases "checkDefinitionSchema v")
  case None
  note s = structure_after_schema [OF None] and wf = decode_definition_wf [OF None]
  have ok: "vr_errors (validateStateMachineDefinition v) = [] \<longleftrightarrow> vr_ok (validateStateMachineDefinition v)"
    by (cases v) (simp_all add: validation_def)
  have g: "\<forall>c \<in> set (md_totalMatrix (decode_definition v)). \<forall>g \<in> set (cell_guards c). js_trim g \<noteq> []"
    using wf by (simp add: definition_wf_def cell_wf_def)
  have "vr_ok (validateExecutableStateMachineDefinition v) \<longleftrightarrow>
      vr_ok (validateStateMachineDefinition v) \<and> executable_issues (decode_definition v) = []"
    using None s(2) by (simp add: validateExecutableStateMachineDefinition_def ok)
  then show ?thesis
    using wf g None by (auto simp: sound_definition_def s(1) executable_issues_Nil)
next
  case (Some m)
  then show ?thesis by (simp add: validateExecutableStateMachineDefinition_def)
qed

lemma validated_executable:
  assumes "vr_ok (validateExecutableStateMachineDefinition v)"
  shows "executableDefinition v = Some (decode_definition v)" and "sound_definition (decode_definition v)"
  using assms structure_after_schema(2) by (simp_all add: validated_iff)

section \<open>Accepted transitions\<close>

lemma evidence_gate_None: "evidence_gate d inp c = None \<longleftrightarrow>
    (cl_result c = ''requires_policy'' \<longrightarrow> policy_evidence (ti_guardContext inp))
    \<and> (cl_result c = ''requires_approval'' \<longrightarrow> approval_evidence (ti_guardContext inp))
    \<and> (cl_result c = ''requires_external_receipt'' \<longrightarrow> receipt_evidence (ti_guardContext inp))
    \<and> (cl_result c = ''deferred_async_transition'' \<longrightarrow> resume_evidence inp)"
  unfolding evidence_gate_def Let_def by (simp split: if_splits)

definition outcome_of :: "machine_def \<Rightarrow> transition_input \<Rightarrow> matrix_cell \<Rightarrow> accepted \<Rightarrow> bool" where
  "outcome_of d inp c a \<longleftrightarrow> (\<exists>rs. is_ignored c \<and> a = ignored_result d inp rs
      \<or> \<not> is_ignored c \<and> evidence_gate d inp c = None \<and> a = moved_result d inp c rs)"

lemma perform_accepted:
  assumes "perform d inp opt = Inr (Accepted a)"
  obtains sel c where "selectTransitionCell (Some d) (Some inp) opt = Inr sel" and "sel_ok sel" and "sel_cell sel = Some c"
    and "c \<in> set (md_totalMatrix d)" and "cl_from c = ti_currentStatus inp" and "cl_event c = ti_eventType inp"
    and "\<not> is_illegal c" and "outcome_of d inp c a"
    and "ti_currentStatus inp \<in> sd_id ` set (md_states d)" and "ti_eventType inp \<in> ed_id ` set (md_events d)"
proof -
  from assms have known: "ti_currentStatus inp \<in> set (map sd_id (md_states d))" "ti_eventType inp \<in> set (map ed_id (md_events d))"
    and b: "bind_res (selectTransitionCell (Some d) (Some inp) opt) (\<lambda>sel.
        if \<not> sel_ok sel then Inr (Refused sel)
        else case sel_cell sel of
               None \<Rightarrow> Inr (Refused (refused err_transition_not_allowed ''Transition selection returned no cell.''))
             | Some c \<Rightarrow> Inr (apply_cell d inp c (opt_list (sel_guardResults sel)))) = Inr (Accepted a)"
    unfolding perform_def by (simp_all only: split: if_splits) auto
  from b obtain sel where sel: "selectTransitionCell (Some d) (Some inp) opt = Inr sel"
    and r: "(if \<not> sel_ok sel then Inr (Refused sel)
        else case sel_cell sel of
               None \<Rightarrow> Inr (Refused (refused err_transition_not_allowed ''Transition selection returned no cell.''))
             | Some c \<Rightarrow> Inr (apply_cell d inp c (opt_list (sel_guardResults sel)))) = (Inr (Accepted a) :: guard_error + transition_outcome)"
    unfolding bind_res_Inr_iff by blast
  from r obtain c where ok: "sel_ok sel" and c: "sel_cell sel = Some c"
      and ap: "apply_cell d inp c (opt_list (sel_guardResults sel)) = Accepted a"
    by (cases "sel_ok sel"; cases "sel_cell sel") auto
  from sel have "selectCell (evaluator_of opt) d inp = Inr sel" by (simp add: selectTransitionCell_def)
  from selectCell_sole [OF this ok] c
  have m: "c \<in> set (matching_cells d (ti_currentStatus inp) (ti_eventType inp))" "\<not> is_illegal c"
    by (auto simp: sole_choice_def)
  from ap m(2) have "outcome_of d inp c a"
    by (auto simp: apply_cell_def outcome_of_def split: if_splits option.splits)
  with sel ok c m known show ?thesis by (intro that [of sel c]) (auto simp: matching_cells_def)
qed

lemma transitionState_accepted:
  assumes "transitionState hash dv iv opts = Inr (Accepted a)"
  obtains inp where "transitionInput iv = Some inp" and "executableDefinition dv = Some (decode_definition dv)"
    and "skipValidation hash dv opts \<or> vr_ok (validateExecutableStateMachineDefinition dv)"
    and "perform (decode_definition dv) inp (to_guardEvaluator opts) = Inr (Accepted a)"
proof -
  from assms obtain d inp where d: "executableDefinition dv = Some d" and i: "transitionInput iv = Some inp"
    by (auto simp: transitionState_def split: option.splits)
  moreover from d have "d = decode_definition dv" by (auto simp: executableDefinition_def Let_def split: if_splits)
  ultimately show ?thesis
    using assms by (intro that [of inp]) (auto simp: transitionState_def Let_def split: if_splits)
qed

lemma valid_result_cases:
  "r \<in> set valid_transition_results \<Longrightarrow> r \<noteq> ''illegal_transition'' \<Longrightarrow> r \<noteq> ''ignored_idempotent_event''
   \<Longrightarrow> r \<in> set reachable_transition_results"
  by (auto simp: valid_transition_results_def reachable_transition_results_def)

lemma sound_cell_advances:
  "sound_definition d \<Longrightarrow> c \<in> set (md_totalMatrix d) \<Longrightarrow> \<not> is_illegal c \<Longrightarrow> \<not> is_ignored c \<Longrightarrow> advances c"
  by (auto simp: sound_definition_def definition_wf_def cell_wf_def advances_def intro: valid_result_cases)

lemma sound_cell_target:
  assumes "sound_definition d" and "c \<in> set (md_totalMatrix d)"
  shows "cell_target c \<in> sd_id ` set (md_states d)"
proof -
  from assms(1) have "assertCellReferences d = None" by (simp add: sound_definition_def topology_ok_iff)
  with assms(2) show ?thesis
    by (auto simp: assertCellReferences_iff cell_target_def str_or_def split: option.splits)
qed

lemma outcome_target:
  assumes "outcome_of d inp c a" and "cl_from c = ti_currentStatus inp"
  shows "ac_fromStatus a = ti_currentStatus inp" and "ac_eventType a = ti_eventType inp"
    and "ac_toStatus a = (if is_ignored c then ti_currentStatus inp else cell_target c)"
    and "ac_idempotent a \<longleftrightarrow> is_ignored c"
  using assms by (auto simp: outcome_of_def ignored_result_def moved_result_def Let_def cell_target_def)

lemma terminal_cell_allowed_cases:
  assumes "terminal_cell_allowed d c" and "\<not> is_illegal c"
  shows "is_ignored c \<or> cl_reopen c \<or> cl_event c \<in> set (opt_list (md_allowedTerminalEvents d))
    \<or> (\<exists>e \<in> set (md_events d). ed_id e = cl_event c \<and> ed_idempotent e)"
proof (cases "map_of (rev (map (\<lambda>e. (ed_id e, e)) (md_events d))) (cl_event c)")
  case (Some e)
  from map_of_SomeD [OF Some] have "e \<in> set (md_events d) \<and> ed_id e = cl_event c" by auto
  with assms Some show ?thesis by (auto simp: terminal_cell_allowed_def)
next
  case None
  with assms show ?thesis by (auto simp: terminal_cell_allowed_def)
qed

text \<open>One accepted step, as a relation between statuses.\<close>

definition machine_step :: "machine_def \<Rightarrow> string \<Rightarrow> string \<Rightarrow> string \<Rightarrow> bool" where
  "machine_step d s e t \<longleftrightarrow> s \<in> sd_id ` set (md_states d) \<and> e \<in> ed_id ` set (md_events d)
     \<and> (\<exists>c \<in> set (md_totalMatrix d). cl_from c = s \<and> cl_event c = e \<and> \<not> is_illegal c
          \<and> t = (if is_ignored c then s else cell_target c))"

lemma perform_step:
  assumes "perform d inp opt = Inr (Accepted a)"
  shows "ac_fromStatus a = ti_currentStatus inp" and "ac_eventType a = ti_eventType inp"
    and "machine_step d (ti_currentStatus inp) (ti_eventType inp) (ac_toStatus a)"
proof -
  from assms obtain c where c: "c \<in> set (md_totalMatrix d)" "cl_from c = ti_currentStatus inp" "cl_event c = ti_eventType inp"
    "\<not> is_illegal c" "outcome_of d inp c a"
    "ti_currentStatus inp \<in> sd_id ` set (md_states d)" "ti_eventType inp \<in> ed_id ` set (md_events d)"
    by (rule perform_accepted)
  note o' = outcome_target [OF c(5,2)]
  from o' show "ac_fromStatus a = ti_currentStatus inp" and "ac_eventType a = ti_eventType inp" by simp_all
  from c o'(3) show "machine_step d (ti_currentStatus inp) (ti_eventType inp) (ac_toStatus a)"
    unfolding machine_step_def by blast
qed

lemma machine_step_declared:
  "sound_definition d \<Longrightarrow> machine_step d s e t \<Longrightarrow> t \<in> sd_id ` set (md_states d)"
  by (auto simp: machine_step_def dest: sound_cell_target split: if_splits)

lemma machine_step_reach:
  assumes "sound_definition d" and "machine_step d s e t" and "machine_reach (md_totalMatrix d) i s"
  shows "machine_reach (md_totalMatrix d) i t"
proof -
  from assms(2) obtain c where c: "c \<in> set (md_totalMatrix d)" "cl_from c = s" "\<not> is_illegal c"
      "t = (if is_ignored c then s else cell_target c)"
    unfolding machine_step_def by blast
  show ?thesis
  proof (cases "is_ignored c")
    case True
    with c assms(3) show ?thesis by simp
  next
    case False
    with sound_cell_advances [OF assms(1) c(1,3)] have "advances c" by simp
    with c False assms(3) show ?thesis using mr_step [of "md_totalMatrix d" i c] by simp
  qed
qed

section \<open>Totality with the built-in guards\<close>









section \<open>A gated machine for the witnesses\<close>

definition gated_demo :: machine_def where
  "gated_demo = demo_machine\<lparr>md_events := [\<lparr>ed_id = ''finish'', ed_idempotent = False, ed_riskLevel = Some ''high''\<rparr>],
     md_totalMatrix :=
     [(demo_cell ''open'' ''finish'' ''requires_policy'' (Some ''closed''))\<lparr>cl_requiredGuards := Some [''treeExists'']\<rparr>,
      demo_cell ''closed'' ''finish'' ''illegal_transition'' None]\<rparr>"

definition gated_value :: jsval where
  "gated_value = encode_definition ''demo'' ''demo'' gated_demo"

definition gated_context :: jsobj where
  "gated_context = [(''treeState'', JObj [(''status'', JStr ''open'')]), (''policyDecision'', JObj [(''allowed'', JBool True)])]"

definition gated_input :: jsval where
  "gated_input = JObj [(''currentStatus'', JStr ''open''), (''eventType'', JStr ''finish''), (''guardContext'', JObj gated_context)]"

lemma gated_demo_topology: "fst (validateStateMachineTopology gated_demo)"
proof -
  have "assertMatrixTotality gated_demo = None" by code_simp
  moreover have "assertReachability gated_demo = None" by code_simp
  moreover have "assertNonTerminalTransitions gated_demo = None" by code_simp
  moreover have "assertTerminalSemantics gated_demo = None" by code_simp
  moreover have "assertIllegalTransitionErrorCodes gated_demo = None" by code_simp
  moreover have "assertCellReferences gated_demo = None" by code_simp
  ultimately show ?thesis by (simp add: topology_ok_iff)
qed

lemma tree_guard_trim: "js_trim ''treeExists'' \<noteq> []"
  by code_simp

lemma tree_guard_runtime: "''treeExists'' \<in> set listAllRuntimeGuardIds"
  by code_simp

lemma gated_demo_sound: "sound_definition gated_demo"
proof -
  have "definition_wf gated_demo"
    by (simp add: definition_wf_def gated_demo_def demo_machine_def demo_cell_def cell_wf_def cell_guards_def demo_trims
        tree_guard_trim known_risk_def valid_transition_results_def)
  moreover have "distinct (map sd_id (md_states gated_demo)) \<and> distinct (map ed_id (md_events gated_demo))
      \<and> md_initialState gated_demo \<in> sd_id ` set (md_states gated_demo)"
    by (simp add: gated_demo_def demo_machine_def)
  moreover have "\<forall>c \<in> set (md_totalMatrix gated_demo). \<forall>g \<in> set (cell_guards c). g \<in> set listAllRuntimeGuardIds"
    by (simp add: gated_demo_def demo_cell_def cell_guards_def tree_guard_runtime)
  ultimately show ?thesis using gated_demo_topology by (simp add: sound_definition_def)
qed

lemma gated_decode: "decode_definition gated_value = gated_demo"
  by (simp add: gated_value_def decode_encode_definition)

lemma gated_validated: "vr_ok (validateExecutableStateMachineDefinition gated_value)"
proof -
  have "md_entityType gated_demo \<noteq> ''capability_acceptance''" by (simp add: gated_demo_def demo_machine_def)
  then have "checkDefinitionSchema gated_value = None"
    using schema_encoded [OF demo_trims(1) demo_trims(1), of gated_demo] gated_demo_sound
    by (simp add: gated_value_def sound_definition_def)
  then show ?thesis using gated_demo_sound by (simp add: validated_iff gated_decode)
qed

lemma gated_transitionInput: "\<exists>inp. transitionInput gated_input = Some inp \<and> ti_currentStatus inp = ''open''
    \<and> ti_eventType inp = ''finish'' \<and> ti_guardContext inp = gated_context \<and> ti_guardEvaluator inp = JUndef"
  by (simp add: transitionInput_def gated_input_def prop_of_def)

lemma gated_guard_passes: "evaluateGuard (JStr ''treeExists'') gated_context = Inr (allow ''treeExists'' ''tree_exists'')"
  by (simp add: gated_context_def evaluateGuard_def js_or_def registry_slot_def state_machine_guards_def
      guard_entry_def missing_field_def isGuardRuntimeSafe_def evaluateGuardPredicate_def
      guard_tree_exists_def entity_absent_def prop_of_def)

lemma gated_policy: "policy_evidence gated_context"
  by (simp add: policy_evidence_def gated_context_def prop_of_def)

lemma gated_perform:
  assumes inp: "ti_currentStatus inp = ''open''" "ti_eventType inp = ''finish''"
    "ti_guardContext inp = gated_context" "ti_guardEvaluator inp = JUndef"
  shows "\<exists>a. perform gated_demo inp None = Inr (Accepted a) \<and> ac_toStatus a = ''closed''"
proof -
  let ?c = "hd (md_totalMatrix gated_demo)"
  have c: "matching_cells gated_demo ''open'' ''finish'' = [?c]"
    by (simp add: matching_cells_def gated_demo_def demo_cell_def)
  have g: "cell_guards ?c = [''treeExists'']" "\<not> is_illegal ?c" "\<not> is_ignored ?c" "cl_result ?c = ''requires_policy''" "cl_to ?c = Some ''closed''"
    by (simp_all add: gated_demo_def demo_cell_def cell_guards_def)
  have v: "evaluateCellGuards builtin_evaluator ?c gated_context
      = Inr \<lparr>cv_ok = True, cv_guardResults = [allow ''treeExists'' ''tree_exists''], cv_failedGuards = [], cv_blockedBy = None\<rparr>"
    by (simp add: evaluateCellGuards_def g(1) builtin_evaluator_eq evaluateGuardSet_def gated_guard_passes)
  have s: "selectTransitionCell (Some gated_demo) (Some inp) None = Inr (selected ?c [allow ''treeExists'' ''tree_exists''])"
    by (simp add: selectTransitionCell_def evaluator_of_def selectCell_def inp c select_single_def g v)
  have ev: "evidence_gate gated_demo inp ?c = None" using g(4) by (simp add: evidence_gate_None inp gated_policy)
  have ids: "''open'' \<in> set (map sd_id (md_states gated_demo))" "''finish'' \<in> set (map ed_id (md_events gated_demo))"
    by (simp_all add: gated_demo_def demo_machine_def)
  have "perform gated_demo inp None = Inr (apply_cell gated_demo inp ?c [allow ''treeExists'' ''tree_exists''])"
    using ids unfolding perform_def inp s by simp
  moreover have "apply_cell gated_demo inp ?c rs = Accepted (moved_result gated_demo inp ?c rs)" for rs
    using g(2,3) ev by (simp add: apply_cell_def)
  moreover have "ac_toStatus (moved_result gated_demo inp ?c rs) = ''closed''" for rs
    by (simp add: moved_result_def Let_def g(5) str_or_def)
  ultimately show ?thesis by simp
qed

lemma gated_transition:
  assumes "transitionInput iv = Some inp" and "ti_currentStatus inp = ''open''" "ti_eventType inp = ''finish''"
    "ti_guardContext inp = gated_context" "ti_guardEvaluator inp = JUndef"
  shows "\<exists>a. transitionState hash gated_value iv default_options = Inr (Accepted a) \<and> ac_toStatus a = ''closed''"
  using gated_perform [OF assms(2-5)] gated_validated validated_executable(1) [OF gated_validated] assms(1)
  by (auto simp: transitionState_def default_options_def gated_decode)

lemma gated_accepts: "\<exists>a. transitionState hash gated_value gated_input default_options = Inr (Accepted a)
    \<and> ac_toStatus a = ''closed''"
  using gated_transitionInput gated_transition by blast

lemma default_not_skipped: "\<not> skipValidation hash dv default_options"
  by (simp add: skipValidation_def default_options_def)

text \<open>A machine whose terminal state ignores the event.\<close>

definition ended_demo :: machine_def where
  "ended_demo = demo_machine\<lparr>md_totalMatrix :=
     [demo_cell ''open'' ''finish'' ''legal_transition'' (Some ''closed''),
      demo_cell ''closed'' ''finish'' ''ignored_idempotent_event'' None]\<rparr>"

definition ended_value :: jsval where
  "ended_value = encode_definition ''demo'' ''demo'' ended_demo"

definition ended_input :: jsval where
  "ended_input = JObj [(''currentStatus'', JStr ''closed''), (''eventType'', JStr ''finish'')]"

lemma ended_demo_topology: "fst (validateStateMachineTopology ended_demo)"
proof -
  have "assertMatrixTotality ended_demo = None" by code_simp
  moreover have "assertReachability ended_demo = None" by code_simp
  moreover have "assertNonTerminalTransitions ended_demo = None" by code_simp
  moreover have "assertTerminalSemantics ended_demo = None" by code_simp
  moreover have "assertIllegalTransitionErrorCodes ended_demo = None" by code_simp
  moreover have "assertCellReferences ended_demo = None" by code_simp
  ultimately show ?thesis by (simp add: topology_ok_iff)
qed

lemma ended_demo_sound: "sound_definition ended_demo"
proof -
  have "definition_wf ended_demo"
    by (simp add: definition_wf_def ended_demo_def demo_machine_def demo_cell_def cell_wf_def cell_guards_def demo_trims
        known_risk_def valid_transition_results_def)
  moreover have "distinct (map sd_id (md_states ended_demo)) \<and> distinct (map ed_id (md_events ended_demo))
      \<and> md_initialState ended_demo \<in> sd_id ` set (md_states ended_demo)"
    by (simp add: ended_demo_def demo_machine_def)
  moreover have "\<forall>c \<in> set (md_totalMatrix ended_demo). \<forall>g \<in> set (cell_guards c). g \<in> set listAllRuntimeGuardIds"
    by (simp add: ended_demo_def demo_cell_def cell_guards_def)
  ultimately show ?thesis using ended_demo_topology by (simp add: sound_definition_def)
qed

lemma ended_decode: "decode_definition ended_value = ended_demo"
  by (simp add: ended_value_def decode_encode_definition)

lemma ended_validated: "vr_ok (validateExecutableStateMachineDefinition ended_value)"
proof -
  have "md_entityType ended_demo \<noteq> ''capability_acceptance''" by (simp add: ended_demo_def demo_machine_def)
  then have "checkDefinitionSchema ended_value = None"
    using schema_encoded [OF demo_trims(1) demo_trims(1), of ended_demo] ended_demo_sound
    by (simp add: ended_value_def sound_definition_def)
  then show ?thesis using ended_demo_sound by (simp add: validated_iff ended_decode)
qed

lemma ended_accepts: "\<exists>a. transitionState hash ended_value ended_input default_options = Inr (Accepted a)
    \<and> ac_fromStatus a = ''closed''"
proof -
  obtain inp where inp: "transitionInput ended_input = Some inp" "ti_currentStatus inp = ''closed''" "ti_eventType inp = ''finish''"
      "ti_guardEvaluator inp = JUndef"
    by (auto simp: transitionInput_def ended_input_def prop_of_def)
  let ?c = "demo_cell ''closed'' ''finish'' ''ignored_idempotent_event'' None"
  have c: "matching_cells ended_demo ''closed'' ''finish'' = [?c]"
    by (simp add: matching_cells_def ended_demo_def demo_cell_def)
  have g: "cell_guards ?c = []" "\<not> is_illegal ?c" "is_ignored ?c" by (simp_all add: demo_cell_def cell_guards_def)
  have s: "selectTransitionCell (Some ended_demo) (Some inp) None = Inr (selected ?c [])"
    by (simp add: selectTransitionCell_def evaluator_of_def selectCell_def inp c select_single_def g)
  have ids: "''closed'' \<in> set (map sd_id (md_states ended_demo))" "''finish'' \<in> set (map ed_id (md_events ended_demo))"
    by (simp_all add: ended_demo_def demo_machine_def)
  have "perform ended_demo inp None = Inr (apply_cell ended_demo inp ?c [])"
    using ids unfolding perform_def inp s by (simp add: inp)
  moreover have "apply_cell ended_demo inp ?c [] = Accepted (ignored_result ended_demo inp [])"
    using g by (simp add: apply_cell_def)
  moreover have "ac_fromStatus (ignored_result ended_demo inp []) = ''closed''"
    by (simp add: ignored_result_def inp)
  ultimately show ?thesis
    using ended_validated validated_executable(1) [OF ended_validated] inp(1)
    by (simp add: transitionState_def default_options_def ended_decode)
qed


section \<open>Properties\<close>

text \<open>C4. A definition value is accepted as executable exactly when it passes the schema check and the
  decoded definition has distinct state and event ids, a declared initial state, a valid topology, and
  only registered runtime guards on its cells.\<close>

theorem executable_validation_exact:
  "vr_ok (validateExecutableStateMachineDefinition v) \<longleftrightarrow> checkDefinitionSchema v = None
    \<and> definition_wf (decode_definition v)
    \<and> distinct (map sd_id (md_states (decode_definition v))) \<and> distinct (map ed_id (md_events (decode_definition v)))
    \<and> md_initialState (decode_definition v) \<in> sd_id ` set (md_states (decode_definition v))
    \<and> fst (validateStateMachineTopology (decode_definition v))
    \<and> (\<forall>c \<in> set (md_totalMatrix (decode_definition v)). \<forall>g \<in> set (cell_guards c). g \<in> set listAllRuntimeGuardIds)"
  by (simp add: validated_iff sound_definition_def)

theorem executable_validation_exact_witness:
  "vr_ok (validateExecutableStateMachineDefinition gated_value) \<and> distinct (map sd_id (md_states gated_demo))"
  using executable_validation_exact [of gated_value] gated_validated by (simp add: gated_decode)

text \<open>C2. An accepted transition of a definition that was not waved through starts in a declared state,
  is a declared event, follows a matrix cell that is not illegal, and ends in a declared state: the one
  the cell names, or the current one for an ignored idempotent event.\<close>

theorem accepted_transition_follows_matrix:
  assumes "transitionState hash dv iv opts = Inr (Accepted a)" and "\<not> skipValidation hash dv opts"
  shows "machine_step (decode_definition dv) (ac_fromStatus a) (ac_eventType a) (ac_toStatus a)
     \<and> ac_toStatus a \<in> sd_id ` set (md_states (decode_definition dv))"
proof -
  from assms(1) obtain inp where i: "skipValidation hash dv opts \<or> vr_ok (validateExecutableStateMachineDefinition dv)"
      "perform (decode_definition dv) inp (to_guardEvaluator opts) = Inr (Accepted a)"
    by (rule transitionState_accepted)
  with assms(2) have "sound_definition (decode_definition dv)" using validated_executable(2) by blast
  with perform_step [OF i(2)] show ?thesis using machine_step_declared by simp
qed

theorem accepted_transition_follows_matrix_witness:
  "\<exists>a. transitionState (\<lambda>_. ''h'') gated_value gated_input default_options = Inr (Accepted a)
     \<and> machine_step gated_demo (ac_fromStatus a) (ac_eventType a) ''closed''"
proof -
  obtain a where a: "transitionState (\<lambda>_. ''h'') gated_value gated_input default_options = Inr (Accepted a)" "ac_toStatus a = ''closed''"
    using gated_accepts by blast
  from accepted_transition_follows_matrix [OF a(1) default_not_skipped] a show ?thesis by (auto simp: gated_decode)
qed





text \<open>From a terminal state only an ignored event, an idempotent event, an event on the list of allowed
  terminal events or an explicit reopen transition is accepted.\<close>

lemma terminal_state_exits:
  assumes "transitionState hash dv iv opts = Inr (Accepted a)" and "\<not> skipValidation hash dv opts"
    and "isTerminalStatus dv (ac_fromStatus a)"
  shows "\<exists>c \<in> set (md_totalMatrix (decode_definition dv)). cl_from c = ac_fromStatus a \<and> cl_event c = ac_eventType a
     \<and> (is_ignored c \<or> cl_reopen c \<or> cl_event c \<in> set (opt_list (md_allowedTerminalEvents (decode_definition dv)))
        \<or> (\<exists>e \<in> set (md_events (decode_definition dv)). ed_id e = cl_event c \<and> ed_idempotent e))"
proof -
  let ?d = "decode_definition dv"
  from assms(1) obtain inp where i: "executableDefinition dv = Some ?d" "skipValidation hash dv opts \<or> vr_ok (validateExecutableStateMachineDefinition dv)"
      "perform ?d inp (to_guardEvaluator opts) = Inr (Accepted a)"
    by (rule transitionState_accepted)
  with assms(2) have s: "sound_definition ?d" using validated_executable(2) by blast
  from i(3) obtain c where c: "c \<in> set (md_totalMatrix ?d)" "cl_from c = ti_currentStatus inp" "cl_event c = ti_eventType inp" "\<not> is_illegal c"
    by (rule perform_accepted)
  note st = perform_step(1,2) [OF i(3)]
  from assms(3) i(1) obtain st where "st \<in> set (md_states ?d)" "sd_id st = ac_fromStatus a" "sd_terminal st"
    by (auto simp: isTerminalStatus_def split: option.splits dest: find_Some_in)
  moreover from s have "assertTerminalSemantics ?d = None" by (simp add: sound_definition_def topology_ok_iff)
  ultimately have "terminal_cell_allowed ?d c" using c st by (auto simp: assertTerminalSemantics_iff)
  from terminal_cell_allowed_cases [OF this c(4)] c st show ?thesis by (intro bexI [of _ c]) simp_all
qed

lemma terminal_state_exits_witness:
  "\<exists>c \<in> set (md_totalMatrix (decode_definition ended_value)). cl_from c = ''closed''
     \<and> (is_ignored c \<or> cl_reopen c \<or> cl_event c \<in> set (opt_list (md_allowedTerminalEvents (decode_definition ended_value)))
        \<or> (\<exists>e \<in> set (md_events (decode_definition ended_value)). ed_id e = cl_event c \<and> ed_idempotent e))"
proof -
  obtain a where a: "transitionState (\<lambda>_. []) ended_value ended_input default_options = Inr (Accepted a)"
      "ac_fromStatus a = ''closed''" using ended_accepts by blast
  have "isTerminalStatus ended_value ''closed''"
    by (simp add: isTerminalStatus_def validated_executable(1) [OF ended_validated] ended_decode ended_demo_def demo_machine_def)
  with a(2) have "isTerminalStatus ended_value (ac_fromStatus a)" by simp
  from terminal_state_exits [OF a(1) default_not_skipped this] a(2) show ?thesis by auto
qed

text \<open>Compiling pays off and costs nothing: for a definition whose compilation succeeded, passing the
  returned hash changes no result, while validation is skipped.\<close>

lemma compiled_transition_equivalent:
  assumes "cm_compiled (compileStateMachineDefinition hash v)" and "hash v \<noteq> []"
  shows "transitionState hash v iv (opts\<lparr>to_validatedHash := Some (cm_definitionHash (compileStateMachineDefinition hash v))\<rparr>)
       = transitionState hash v iv (opts\<lparr>to_validatedHash := None\<rparr>)
    \<and> skipValidation hash v (opts\<lparr>to_validatedHash := Some (cm_definitionHash (compileStateMachineDefinition hash v))\<rparr>)"
proof -
  from assms(1) have "vr_ok (validateExecutableStateMachineDefinition v)" by (simp add: compileStateMachineDefinition_def)
  with assms(2) show ?thesis
    by (simp add: transitionState_def compileStateMachineDefinition_def skipValidation_def split: option.splits)
qed

lemma compiled_transition_equivalent_witness:
  "skipValidation (\<lambda>_. ''h'') gated_value
     (default_options\<lparr>to_validatedHash := Some (cm_definitionHash (compileStateMachineDefinition (\<lambda>_. ''h'') gated_value))\<rparr>)"
proof -
  have "cm_compiled (compileStateMachineDefinition (\<lambda>_. ''h'') gated_value)"
    using gated_validated by (simp add: compileStateMachineDefinition_def)
  from compiled_transition_equivalent [OF this] show ?thesis by simp
qed

end
