(* ===== verification/Verifier.thy ===== *)
theory Verifier
  imports Engine
begin

text \<open>
  The static verifier of state machine definitions
  (\<open>foundation/src/workflow/state-machine/verification/state-machine-verifier.ts\<close>): the list of named checks,
  the report, and the variant that throws at the first failing check.  The definition is read both as the
  raw value, for the fields that only the verifier looks at, and decoded.  Upper case is exact on ASCII,
  and the patterns with the flag \<open>i\<close> only fold ASCII letters.
\<close>

section \<open>Reading the raw definition\<close>

definition raw_cells :: "jsobj \<Rightarrow> jsobj list" where
  "raw_cells d = map fields_of (elems_of (prop_of d ''totalMatrix''))"

definition strings_at :: "jsobj \<Rightarrow> string \<Rightarrow> string list" where
  "strings_at d k = opt_list (opt_strs_of (prop_of d k))"

definition raw_mappings :: "jsobj \<Rightarrow> jsobj list" where
  "raw_mappings d = map fields_of (elems_of (prop_of d ''proofMappings''))"

definition cell_of :: "jsobj \<Rightarrow> matrix_cell" where
  "cell_of r = decode_cell (JObj r)"

section \<open>Risk and guards\<close>

definition high_risk_protection_results :: "string list" where
  "high_risk_protection_results = [''requires_policy'', ''requires_approval'', ''requires_external_receipt'',
     ''deferred_async_transition'']"

definition mentions :: "string list \<Rightarrow> string list \<Rightarrow> bool" where
  "mentions words items = (\<exists>i \<in> set items. \<exists>w \<in> set words. str_includes i w)"

definition receipt_words :: "string list" where
  "receipt_words = [''receipt'', ''external'', ''proof'']"

definition async_words :: "string list" where
  "async_words = [''async'', ''resume'', ''deferred'']"

definition cell_mentions :: "string list \<Rightarrow> jsobj \<Rightarrow> bool" where
  "cell_mentions words r = (mentions words (strings_at r ''sideEffects'') \<or> mentions words (strings_at r ''proofObligations''))"

definition protected_cell :: "matrix_cell \<Rightarrow> bool" where
  "protected_cell c = (cl_result c \<in> set high_risk_protection_results \<or> has_guards c)"

definition risk_of :: "machine_def \<Rightarrow> string \<Rightarrow> string option" where
  "risk_of d e = (case find (\<lambda>v. ed_id v = e) (md_events d) of None \<Rightarrow> None | Some v \<Rightarrow> ed_riskLevel v)"

definition msg_unprotected :: "matrix_cell \<Rightarrow> string" where
  "msg_unprotected c = ''High-risk event '' @ quoted (cl_event c) @ '' in transition from '' @ quoted (cl_from c)
     @ '' must define a guard (guards/requiredGuards), policy/approval/external_receipt/deferred_async result''"

definition msg_risk_receipt :: "matrix_cell \<Rightarrow> string" where
  "msg_risk_receipt c = ''High-risk event '' @ quoted (cl_event c)
     @ '' with requires_external_receipt must define receipt-related sideEffects or proofObligations''"

definition msg_risk_async :: "matrix_cell \<Rightarrow> string" where
  "msg_risk_async c = ''High-risk event '' @ quoted (cl_event c)
     @ '' with deferred_async_transition must define async/resume-related sideEffects or proofObligations''"

definition msg_risk_static :: "matrix_cell \<Rightarrow> string \<Rightarrow> string" where
  "msg_risk_static c g = ''High-risk event '' @ quoted (cl_event c) @ '' cannot use staticOnly guard '' @ quoted g
     @ ''. staticOnly guards may not gate high-risk runtime transitions.''"

definition msg_risk_predicate :: "matrix_cell \<Rightarrow> string \<Rightarrow> string" where
  "msg_risk_predicate c g = ''Guard '' @ quoted g @ '' on high-risk event '' @ quoted (cl_event c)
     @ '' has no runtime predicate. Ensure guards have runtime implementations or use riskLevel=low/medium.''"

definition high_risk_error :: "machine_def \<Rightarrow> jsobj \<Rightarrow> string option" where
  "high_risk_error d r =
     (let c = cell_of r
      in if risk_of d (cl_event c) \<noteq> Some ''high'' \<or> is_illegal c \<or> is_ignored c then None
         else first_error
           ([check (protected_cell c) (msg_unprotected c),
             check (cl_result c = ''requires_external_receipt'' \<longrightarrow> cell_mentions receipt_words r) (msg_risk_receipt c),
             check (cl_result c = ''deferred_async_transition'' \<longrightarrow> cell_mentions async_words r) (msg_risk_async c)]
            @ map (\<lambda>g. if isStaticOnlyGuard g then Some (msg_risk_static c g)
                        else check (isGuardRuntimeSafe g \<or> \<not> guardExists g) (msg_risk_predicate c g)) (cell_guards c)))"

definition msg_guard_registry :: "string \<Rightarrow> matrix_cell \<Rightarrow> string \<Rightarrow> string" where
  "msg_guard_registry label c g = label @ '' '' @ quoted g @ '' in transition from '' @ quoted (cl_from c) @ '' on ''
     @ quoted (cl_event c) @ '' is not registered. Known guards: '' @ join '', '' listAllGuardIds"

definition guard_registry_error :: "matrix_cell \<Rightarrow> string option" where
  "guard_registry_error c =
     first_error (map (\<lambda>g. check (g \<in> set listAllGuardIds) (msg_guard_registry ''Guard'' c g)) (opt_list (cl_guards c))
       @ map (\<lambda>g. check (g \<in> set listAllGuardIds) (msg_guard_registry ''requiredGuard'' c g)) (opt_list (cl_requiredGuards c)))"

definition msg_static_isolation :: "string \<Rightarrow> matrix_cell \<Rightarrow> string \<Rightarrow> string" where
  "msg_static_isolation field c g = ''staticOnly guard '' @ quoted g @ '' is not allowed in cell.'' @ field
     @ '' for transition from '' @ quoted (cl_from c) @ '' on '' @ quoted (cl_event c)
     @ ''. staticOnly guards must only be used in staticAnnotations/proofAnnotations.''"

definition static_isolation_error :: "matrix_cell \<Rightarrow> string option" where
  "static_isolation_error c =
     first_error (map (\<lambda>g. check (\<not> isStaticOnlyGuard g) (msg_static_isolation ''guards'' c g)) (opt_list (cl_guards c))
       @ map (\<lambda>g. check (\<not> isStaticOnlyGuard g) (msg_static_isolation ''requiredGuards'' c g)) (opt_list (cl_requiredGuards c)))"

definition msg_guard_obligation :: "string \<Rightarrow> string" where
  "msg_guard_obligation g = ''Guard '' @ quoted g @ '' referenced in guardRegistryRefs has no proof obligation mapping in ''
     @ quoted ''proofMappings'' @ ''.''"

definition guard_obligation_error :: "jsobj \<Rightarrow> string option" where
  "guard_obligation_error d =
     (if filter (\<lambda>o'. starts_with o' ''PO-READY-'') (strings_at d ''proofObligations'') = [] then None
      else first_error (map (\<lambda>g. check (\<exists>m \<in> set (raw_mappings d). prop_of m ''method'' = JStr ''guard_validation_by_risk''
              \<and> prop_of (fields_of (prop_of m ''params'')) ''guardId'' = JStr g) (msg_guard_obligation g))
            (strings_at d ''guardRegistryRefs'')))"

definition msg_receipt_evidence :: "matrix_cell \<Rightarrow> string" where
  "msg_receipt_evidence c = ''Cell with '' @ quoted ''requires_external_receipt'' @ '' from '' @ quoted (cl_from c) @ '' on ''
     @ quoted (cl_event c) @ '' must define receipt-related sideEffects or proofObligations.''"

definition msg_async_evidence :: "matrix_cell \<Rightarrow> string" where
  "msg_async_evidence c = ''Cell with '' @ quoted ''deferred_async_transition'' @ '' from '' @ quoted (cl_from c) @ '' on ''
     @ quoted (cl_event c) @ '' must define async/resume-related sideEffects or proofObligations.''"

definition receipt_evidence_error :: "jsobj \<Rightarrow> string option" where
  "receipt_evidence_error r =
     check (cl_result (cell_of r) = ''requires_external_receipt'' \<longrightarrow> cell_mentions receipt_words r) (msg_receipt_evidence (cell_of r))"

definition async_evidence_error :: "jsobj \<Rightarrow> string option" where
  "async_evidence_error r =
     check (cl_result (cell_of r) = ''deferred_async_transition'' \<longrightarrow> cell_mentions async_words r) (msg_async_evidence (cell_of r))"

section \<open>Names and obligations\<close>

definition upper_char :: "char \<Rightarrow> char" where
  "upper_char c = (let n = of_char c :: nat in if 97 \<le> n \<and> n \<le> 122 then char_of (n - 32) else c)"

definition machine_prefix :: "string \<Rightarrow> string" where
  "machine_prefix i = map upper_char (hd (split_on CHR ''.'' i))"

definition msg_invariant_name :: "string \<Rightarrow> string \<Rightarrow> string" where
  "msg_invariant_name px i = ''Invariant '' @ quoted i @ '' does not conform to naming specification ''
     @ quoted ''SM-GOV-xxx'' @ '' or '' @ quoted (''SM-'' @ px @ ''-xxx'')"

definition invariant_names_error :: "machine_def \<Rightarrow> jsobj \<Rightarrow> string option" where
  "invariant_names_error m d =
     (let px = machine_prefix (md_machineId m)
      in first_error (map (\<lambda>i. check (starts_with i ''SM-GOV-'' \<or> starts_with i (''SM-'' @ px @ ''-'')) (msg_invariant_name px i))
           (strings_at d ''invariants'')))"

definition msg_obligation_unmapped :: "string \<Rightarrow> string" where
  "msg_obligation_unmapped p = ''Proof obligation '' @ quoted p @ '' is missing mapping details in '' @ quoted ''proofMappings''"

definition obligations_mapped_error :: "jsobj \<Rightarrow> string option" where
  "obligations_mapped_error d =
     first_error (map (\<lambda>p. check (\<exists>m \<in> set (raw_mappings d). prop_of m ''obligationId'' = JStr p) (msg_obligation_unmapped p))
       (strings_at d ''proofObligations''))"

section \<open>The secret scan\<close>

definition fold_case :: "string \<Rightarrow> string" where
  "fold_case s = map lower_char s"

fun drive_path :: "string \<Rightarrow> bool" where
  "drive_path (a # b # c # cs) = (is_letter a \<and> b = CHR '':'' \<and> c = CHR 0x5C \<or> drive_path (b # c # cs))"
| "drive_path _ = False"

definition local_path :: "string \<Rightarrow> bool" where
  "local_path s = (str_includes (fold_case s) ''/users/'' \<or> str_includes (fold_case s) ''/home/'' \<or> drive_path s)"

text \<open>The forbidden patterns in lower case; the second group is the one that structural references may hold.\<close>

definition secret_patterns :: "string list" where
  "secret_patterns = [''api_key'', ''secret'', ''token'', ''cookie'', ''bearer'', ''akia'', ''-----begin'']"

definition authorization_pattern :: string where
  "authorization_pattern = ''authorization''"

definition structural_suffixes :: "string list" where
  "structural_suffixes = [''.machineId'', ''.entityType'', ''.version'', ''.id'', ''.from'', ''.to'', ''.event'', ''.errorCode'',
     ''.obligationId'', ''.method'', ''.capabilityId'', ''.planPath'', ''.checkpointPath'', ''.reportPath'', ''.verifier'',
     ''.platformReducerCommand'']"

definition ascii_digit :: "char \<Rightarrow> bool" where
  "ascii_digit c = (48 \<le> (of_char c :: nat) \<and> (of_char c :: nat) \<le> 57)"

text \<open>The pattern \<open>/\.name\.\d+$/\<close>.\<close>

definition indexed_path :: "string \<Rightarrow> string \<Rightarrow> bool" where
  "indexed_path name path =
     (takeWhile ascii_digit (rev path) \<noteq> [] \<and> starts_with (dropWhile ascii_digit (rev path)) (rev (''.'' @ name @ ''.'')))"

definition isStructuralReferencePath :: "string \<Rightarrow> bool" where
  "isStructuralReferencePath path =
     ((\<exists>x \<in> set structural_suffixes. ends_with path x) \<or> indexed_path ''invariants'' path \<or> indexed_path ''proofObligations'' path)"

definition reviewed_placeholder :: "string \<Rightarrow> bool" where
  "reviewed_placeholder s =
     (starts_with s ''<redacted-'' \<or> starts_with s ''redacted-'' \<or> s = ''UNREVIEWED'' \<or> s = ''sensitive_key'')"

definition described_path :: "string \<Rightarrow> bool" where
  "described_path path = (str_includes path ''description'' \<or> str_includes path ''label'')"

definition msg_path_match :: "string \<Rightarrow> string \<Rightarrow> string" where
  "msg_path_match s path = ''Absolute path matched: value '' @ quoted s @ '' at '' @ quoted path @ '' contains absolute local paths.''"

definition msg_secret_match :: "string \<Rightarrow> string \<Rightarrow> string" where
  "msg_secret_match s path = ''Sensitive pattern matched: value '' @ quoted s @ '' at '' @ quoted path @ '' contains secret-like content.''"

definition scan_string :: "string \<Rightarrow> string \<Rightarrow> string option" where
  "scan_string path s =
     (if local_path s then Some (msg_path_match s path)
      else if reviewed_placeholder s then None
      else if \<not> described_path path
         \<and> ((\<exists>x \<in> set secret_patterns. str_includes (fold_case s) x)
            \<or> str_includes (fold_case s) authorization_pattern \<and> \<not> isStructuralReferencePath path)
      then Some (msg_secret_match s path)
      else None)"

function scanSensitive :: "string \<Rightarrow> jsval \<Rightarrow> string option" where
  "scanSensitive path (JStr s) = scan_string path s"
| "scanSensitive path (JObj ps) = first_error (map (\<lambda>(k, v). scanSensitive (path @ ''.'' @ k) v) ps)"
| "scanSensitive path (JArr vs) = first_error (map (\<lambda>(i, v). scanSensitive (path @ ''.'' @ show_nat i) v) (zip [0..<length vs] vs))"
| "scanSensitive path JUndef = None"
| "scanSensitive path JNull = None"
| "scanSensitive path (JBool b) = None"
| "scanSensitive path (JNum n) = None"
  by pat_completeness auto
termination
proof (relation "measure (\<lambda>(path, v). size v)", goal_cases)
  case (2 path ps p k v)
  then show ?case by (induction ps) auto
next
  case (3 path vs p i v)
  then have "v \<in> set vs" by (auto dest: set_zip_rightD)
  then show ?case by (induction vs) auto
qed simp

section \<open>The report\<close>

type_synonym check_result = "string \<times> string option"

record verification_report =
  vf_machineId :: string
  vf_version :: string
  vf_ok :: bool
  vf_stateCount :: nat
  vf_eventCount :: nat
  vf_matrixCellCount :: nat
  vf_checks :: "check_result list"

definition core_error :: "jsval \<Rightarrow> string option" where
  "core_error v =
     (let r = validateStateMachineDefinition v
      in check (vr_ok r) (''Core validation failed: '' @ join ''; '' (map snd (vr_errors r))))"

definition machine_checks :: "jsval \<Rightarrow> check_result list" where
  "machine_checks v =
     (let d = decode_definition v; ps = fields_of v
      in [(''C2-core-validation'', core_error v),
          (''C2-matrix-totality'', assertMatrixTotality d),
          (''C3-reachability'', assertReachability d),
          (''C3-non-terminal-transitions'', assertNonTerminalTransitions d),
          (''C3-terminal-statuses'', assertTerminalSemantics d),
          (''C2-illegal-transition-error-codes'', assertIllegalTransitionErrorCodes d),
          (''C3-high-risk-guards'', first_error (map (high_risk_error d) (raw_cells ps))),
          (''C3-guard-registry'', first_error (map (\<lambda>r. guard_registry_error (cell_of r)) (raw_cells ps))),
          (''C3-guard-staticOnly-isolation'', first_error (map (\<lambda>r. static_isolation_error (cell_of r)) (raw_cells ps))),
          (''C3-guard-proof-obligation'', guard_obligation_error ps),
          (''C3-cell-reference-validity'', assertCellReferences d),
          (''C3-cell-disambiguation'', assertMatrixTotality d),
          (''C3-external-receipt-evidence'', first_error (map receipt_evidence_error (raw_cells ps))),
          (''C3-deferred-async-evidence'', first_error (map async_evidence_error (raw_cells ps))),
          (''C3-invariants-identification'', invariant_names_error d ps),
          (''C3-proof-obligations-mapping'', obligations_mapped_error ps),
          (''C3-secret-hygiene-scan'', scanSensitive ''root'' v)])"

definition msg_check_failed :: "string \<Rightarrow> check_result \<Rightarrow> string" where
  "msg_check_failed path r =
     ''['' @ path @ ''] Check '' @ quoted (fst r) @ '' failed: '' @ (case snd r of None \<Rightarrow> [] | Some e \<Rightarrow> e)"

text \<open>\<open>Inl\<close> is the thrown error, of the first failing check.\<close>

definition report_checks :: "string \<Rightarrow> bool \<Rightarrow> check_result list \<Rightarrow> verification_report \<Rightarrow> string + verification_report" where
  "report_checks path throwing checks report =
     (case find (\<lambda>r. snd r \<noteq> None) checks of
        Some r \<Rightarrow> if throwing then Inl (msg_check_failed path r) else Inr (report\<lparr>vf_checks := checks, vf_ok := False\<rparr>)
      | None \<Rightarrow> Inr (report\<lparr>vf_checks := checks, vf_ok := True\<rparr>))"

definition verifyMachineDefinition :: "jsval \<Rightarrow> string \<Rightarrow> bool \<Rightarrow> string + verification_report" where
  "verifyMachineDefinition v path throwing =
     (let c1 = (''C1-schema-validation'', checkDefinitionSchema v); d = decode_definition v
      in if snd c1 \<noteq> None
         then report_checks path throwing [c1]
           \<lparr>vf_machineId = [], vf_version = [], vf_ok = False, vf_stateCount = 0, vf_eventCount = 0,
            vf_matrixCellCount = 0, vf_checks = []\<rparr>
         else report_checks path throwing (c1 # machine_checks v)
           \<lparr>vf_machineId = md_machineId d, vf_version = str_of (prop_of (fields_of v) ''version''), vf_ok = False,
            vf_stateCount = length (md_states d), vf_eventCount = length (md_events d),
            vf_matrixCellCount = length (md_totalMatrix d), vf_checks = []\<rparr>)"

section \<open>Lemmas\<close>

lemma report_ok_iff:
  assumes "report_checks path throwing checks r0 = Inr r"
  shows "vf_ok r \<longleftrightarrow> (\<forall>c \<in> set checks. snd c = None)"
proof (cases "find (\<lambda>r. snd r \<noteq> None) checks")
  case None
  then have "\<forall>c \<in> set checks. snd c = None" unfolding find_None_iff by blast
  with None assms show ?thesis by (auto simp: report_checks_def simp del: not_None_eq)
next
  case (Some c)
  then have "c \<in> set checks" and "snd c \<noteq> None" by (auto simp: find_Some_iff simp del: not_None_eq)
  with Some assms show ?thesis by (auto simp: report_checks_def simp del: not_None_eq split: if_splits)
qed

lemma high_risk_error_None:
  assumes "high_risk_error d r = None" and "risk_of d (cl_event (cell_of r)) = Some ''high''"
    and "\<not> is_illegal (cell_of r)" and "\<not> is_ignored (cell_of r)"
  shows "protected_cell (cell_of r)"
proof (rule ccontr)
  assume "\<not> protected_cell (cell_of r)"
  then have "high_risk_error d r \<noteq> None"
    using assms(2-4) by (simp add: high_risk_error_def Let_def check_def)
  with assms(1) show False by simp
qed

lemma verified_checks:
  assumes "verifyMachineDefinition v path throwing = Inr r" and "vf_ok r"
  shows "checkDefinitionSchema v = None" and "c \<in> set (machine_checks v) \<Longrightarrow> snd c = None"
proof -
  show s: "checkDefinitionSchema v = None"
  proof (rule ccontr)
    assume "checkDefinitionSchema v \<noteq> None"
    with assms(1) have "vf_ok r \<longleftrightarrow> (\<forall>c \<in> set [(''C1-schema-validation'', checkDefinitionSchema v)]. snd c = None)"
      unfolding verifyMachineDefinition_def Let_def by (intro report_ok_iff) simp
    with assms(2) \<open>checkDefinitionSchema v \<noteq> None\<close> show False by simp
  qed
  assume "c \<in> set (machine_checks v)"
  moreover from assms(1) s have "vf_ok r \<longleftrightarrow> (\<forall>c \<in> set ((''C1-schema-validation'', checkDefinitionSchema v) # machine_checks v). snd c = None)"
    unfolding verifyMachineDefinition_def Let_def by (intro report_ok_iff) simp
  ultimately show "snd c = None" using assms(2) by simp
qed

lemma raw_cells_decode: "md_totalMatrix (decode_definition v) = map decode_cell (elems_of (prop_of (fields_of v) ''totalMatrix''))"
  by (simp add: decode_definition_def Let_def)

lemma decode_cell_fields: "decode_cell w = cell_of (fields_of w)"
  by (simp add: cell_of_def decode_cell_def Let_def)

lemma verified_high_risk:
  assumes "verifyMachineDefinition v path throwing = Inr r" and "vf_ok r"
    and "c \<in> set (md_totalMatrix (decode_definition v))" and "risk_of (decode_definition v) (cl_event c) = Some ''high''"
  shows "is_illegal c \<or> is_ignored c \<or> protected_cell c"
proof -
  from assms(3) obtain w where w: "w \<in> set (elems_of (prop_of (fields_of v) ''totalMatrix''))" "c = cell_of (fields_of w)"
    by (auto simp: raw_cells_decode decode_cell_fields)
  have "first_error (map (high_risk_error (decode_definition v)) (raw_cells (fields_of v))) = None"
    using verified_checks(2) [OF assms(1,2), of "(''C3-high-risk-guards'', first_error (map (high_risk_error (decode_definition v)) (raw_cells (fields_of v))))"]
    by (simp add: machine_checks_def Let_def)
  with w(1) have "high_risk_error (decode_definition v) (fields_of w) = None" by (simp add: raw_cells_def)
  with assms(4) w(2) show ?thesis using high_risk_error_None by blast
qed

lemma verify_passes:
  assumes "checkDefinitionSchema v = None" and "list_all (\<lambda>c. snd c = None) (machine_checks v)"
  shows "\<exists>r. verifyMachineDefinition v path throwing = Inr r \<and> vf_ok r"
proof -
  have "find (\<lambda>r. snd r \<noteq> None) ((''C1-schema-validation'', checkDefinitionSchema v) # machine_checks v) = None"
    using assms unfolding find_None_iff list_all_iff by auto
  with assms(1) show ?thesis by (simp add: verifyMachineDefinition_def report_checks_def Let_def del: not_None_eq)
qed

section \<open>The gated machine passes the verifier\<close>

lemma gated_schema: "checkDefinitionSchema gated_value = None"
proof -
  have "md_entityType gated_demo \<noteq> ''capability_acceptance''" by (simp add: gated_demo_def demo_machine_def)
  then show ?thesis using schema_encoded [OF demo_trims(1) demo_trims(1), of gated_demo] gated_demo_sound
    by (simp add: gated_value_def sound_definition_def)
qed

lemma gated_fields: "fields_of gated_value =
   [(''machineId'', JStr ''demo''), (''entityType'', JStr ''demo''), (''version'', JStr ''demo''), (''description'', JStr ''demo''),
    (''initialState'', JStr ''open''), (''states'', JArr (map encode_state (md_states gated_demo))),
    (''events'', JArr (map encode_event (md_events gated_demo))),
    (''totalMatrix'', JArr (map encode_cell (md_totalMatrix gated_demo))), (''invariants'', JArr []), (''proofObligations'', JArr [])]"
  by (simp add: gated_value_def encode_definition_def gated_demo_def demo_machine_def opt_field_def)

lemma gated_core: "core_error gated_value = None"
proof -
  have "vr_ok (validateStateMachineDefinition gated_value)" 
    unfolding structure_after_schema(1) [OF gated_schema] gated_decode by (simp add: gated_demo_def demo_machine_def)
  then show ?thesis by (simp add: core_error_def check_def)
qed

lemma gated_scan: "scanSensitive ''root'' gated_value = None"
  by code_simp

lemma gated_cell_checks:
  "first_error (map (high_risk_error gated_demo) (raw_cells (fields_of gated_value))) = None"
  "first_error (map (\<lambda>r. guard_registry_error (cell_of r)) (raw_cells (fields_of gated_value))) = None"
  "first_error (map (\<lambda>r. static_isolation_error (cell_of r)) (raw_cells (fields_of gated_value))) = None"
  "first_error (map receipt_evidence_error (raw_cells (fields_of gated_value))) = None"
  "first_error (map async_evidence_error (raw_cells (fields_of gated_value))) = None"
  by code_simp+

lemma gated_obligations:
  "guard_obligation_error (fields_of gated_value) = None"
  "invariant_names_error gated_demo (fields_of gated_value) = None"
  "obligations_mapped_error (fields_of gated_value) = None"
  by code_simp+

lemma gated_verified: "\<exists>r. verifyMachineDefinition gated_value path throwing = Inr r \<and> vf_ok r"
proof (rule verify_passes [OF gated_schema])
  have "assertMatrixTotality gated_demo = None" "assertReachability gated_demo = None" "assertNonTerminalTransitions gated_demo = None"
    "assertTerminalSemantics gated_demo = None" "assertIllegalTransitionErrorCodes gated_demo = None" "assertCellReferences gated_demo = None"
    using gated_demo_topology unfolding topology_ok_iff by blast+
  then show "list_all (\<lambda>c. snd c = None) (machine_checks gated_value)"
    by (simp only: machine_checks_def Let_def gated_decode gated_core gated_cell_checks gated_obligations gated_scan list.pred_inject snd_conv simp_thms)
qed

end
