(* ===== verification/Json.thy ===== *)
theory Json
  imports JsValue "HOL-Library.List_Lexorder" "HOL-Library.Char_ord" "HOL-Library.Multiset"
begin

text \<open>
  JSON texts.  \<open>JSON.stringify\<close> and the repository's canonical JSON
  (\<open>packages/contracts/src/serialization/canonical-json.ts\<close>) first choose a JSON tree and then
  print it; the printer is proved to be uniquely readable, so that equal texts come from
  equal trees.  Property keys are ordered by their bytes, which is the order of the code for keys
  of the basic multilingual plane below the surrogates.
\<close>

section \<open>Trees and their text\<close>

datatype json = NullJ | BoolJ bool | NumJ int | StrJ string | ArrJ "json list" | ObjJ "(string \<times> json) list"

definition hex_digit :: "nat \<Rightarrow> char" where
  "hex_digit n = (if n < 10 then char_of (48 + n) else char_of (87 + n))"

text \<open>The escape of one byte in a JSON string.\<close>

definition esc :: "char \<Rightarrow> string" where
  "esc c =
     (if c = CHR 0x22 then [CHR 0x5C, CHR 0x22]
      else if c = CHR 0x5C then [CHR 0x5C, CHR 0x5C]
      else if c = CHR 0x08 then [CHR 0x5C, CHR ''b'']
      else if c = CHR 0x0C then [CHR 0x5C, CHR ''f'']
      else if c = CHR 0x0A then [CHR 0x5C, CHR ''n'']
      else if c = CHR 0x0D then [CHR 0x5C, CHR ''r'']
      else if c = CHR 0x09 then [CHR 0x5C, CHR ''t'']
      else if of_char c < (32 :: nat)
      then [CHR 0x5C, CHR ''u'', CHR ''0'', CHR ''0'', hex_digit (of_char c div 16), hex_digit (of_char c mod 16)]
      else [c])"

definition json_string :: "string \<Rightarrow> string" where
  "json_string s = CHR 0x22 # concat (map esc s) @ [CHR 0x22]"

fun print :: "json \<Rightarrow> string" where
  "print NullJ = ''null''"
| "print (BoolJ b) = (if b then ''true'' else ''false'')"
| "print (NumJ i) = show_int i"
| "print (StrJ s) = json_string s"
| "print (ArrJ js) = ''['' @ join '','' (map print js) @ '']''"
| "print (ObjJ ps) = CHR 0x7B # join '','' (map (\<lambda>(k, v). json_string k @ '':'' @ print v) ps) @ [CHR 0x7D]"

section \<open>From values to trees\<close>

text \<open>\<open>JSON.stringify\<close>: undefined properties are left out, undefined elements and non-finite numbers
  become null.\<close>

fun plain :: "jsval \<Rightarrow> json" where
  "plain JUndef = NullJ"
| "plain JNull = NullJ"
| "plain (JBool b) = BoolJ b"
| "plain (JNum (Fin i)) = NumJ i"
| "plain (JNum _) = NullJ"
| "plain (JStr s) = StrJ s"
| "plain (JArr vs) = ArrJ (map plain vs)"
| "plain (JObj ps) = ObjJ (map snd (filter fst (map (\<lambda>(k, v). (v \<noteq> JUndef, (k, plain v))) ps)))"

definition json_stringify :: "jsval \<Rightarrow> string option" where
  "json_stringify v = (if v = JUndef then None else Some (print (plain v)))"

text \<open>Canonical JSON: undefined is null everywhere and properties are sorted by key.\<close>

fun canon :: "jsval \<Rightarrow> json" where
  "canon JUndef = NullJ"
| "canon JNull = NullJ"
| "canon (JBool b) = BoolJ b"
| "canon (JNum (Fin i)) = NumJ i"
| "canon (JNum _) = NullJ"
| "canon (JStr s) = StrJ s"
| "canon (JArr vs) = ArrJ (map canon vs)"
| "canon (JObj ps) = ObjJ (sort_key fst (map (\<lambda>(k, v). (k, canon v)) ps))"

definition canonicalJson :: "jsval \<Rightarrow> string" where
  "canonicalJson v = print (canon v)"

definition canonicalEqual :: "jsval \<Rightarrow> jsval \<Rightarrow> bool" where
  "canonicalEqual v w = (canonicalJson v = canonicalJson w)"

section \<open>Reading back one escaped byte\<close>

definition unhex :: "char \<Rightarrow> nat" where
  "unhex c = (let n = of_char c in if n < 58 then n - 48 else n - 87)"

fun unesc :: "string \<Rightarrow> char \<times> string" where
  "unesc (a # b # cs) =
     (if a = CHR 0x5C
      then (if b = CHR ''u'' then (char_of (16 * unhex (cs ! 2) + unhex (cs ! 3)), drop 4 cs)
            else ((if b = CHR ''b'' then CHR 0x08 else if b = CHR ''f'' then CHR 0x0C else if b = CHR ''n'' then CHR 0x0A
                   else if b = CHR ''r'' then CHR 0x0D else if b = CHR ''t'' then CHR 0x09 else b), cs))
      else (a, b # cs))"
| "unesc [a] = (a, [])"
| "unesc [] = (CHR ''x'', [])"

lemma unhex_hex_digit: "n < 16 \<Longrightarrow> unhex (hex_digit n) = n"
  by (auto simp: unhex_def hex_digit_def of_char_of take_bit_eq_mod)

lemma unesc_esc: "unesc (esc c @ x) = (c, x)"
proof (cases "of_char c < (32 :: nat)")
  case True
  let ?n = "of_char c :: nat"
  have "unhex (hex_digit (?n div 16)) = ?n div 16" "unhex (hex_digit (?n mod 16)) = ?n mod 16"
    using True by (simp_all add: unhex_hex_digit)
  then have "char_of (16 * unhex (hex_digit (?n div 16)) + unhex (hex_digit (?n mod 16))) = c" by simp
  then show ?thesis by (simp add: esc_def True)
next
  case False
  then show ?thesis by (cases x) (simp_all add: esc_def)
qed

lemma esc_prefix_free: "esc c @ x = esc d @ y \<Longrightarrow> c = d \<and> x = y"
proof -
  assume "esc c @ x = esc d @ y"
  then have "unesc (esc c @ x) = unesc (esc d @ y)" by (simp only:)
  then show "c = d \<and> x = y" unfolding unesc_esc by simp
qed

lemma esc_head: "\<exists>a as. esc c = a # as \<and> a \<noteq> CHR 0x22"
  by (simp add: esc_def)

lemma esc_body_inj:
  "concat (map esc s) @ CHR 0x22 # r = concat (map esc t) @ CHR 0x22 # r' \<Longrightarrow> s = t \<and> r = r'"
proof (induction s arbitrary: t)
  case Nil
  then show ?case using esc_head by (cases t) (auto, metis append_Cons list.inject)
next
  case (Cons c s)
  show ?case
  proof (cases t)
    case Nil
    then show ?thesis using Cons.prems esc_head [of c] by auto
  next
    case (Cons d t')
    with Cons.prems have "esc c @ concat (map esc s) @ CHR 0x22 # r = esc d @ concat (map esc t') @ CHR 0x22 # r'" by simp
    from esc_prefix_free [OF this] Cons.IH [of t'] Cons show ?thesis by simp
  qed
qed

lemma json_string_inj: "json_string s @ r = json_string t @ r' \<Longrightarrow> s = t \<and> r = r'"
  using esc_body_inj [of s r t r'] by (simp add: json_string_def)

section \<open>Numbers\<close>

definition is_digit :: "char \<Rightarrow> bool" where
  "is_digit c \<longleftrightarrow> 48 \<le> (of_char c :: nat) \<and> (of_char c :: nat) \<le> 57"

lemma show_nat_small: "n < 10 \<Longrightarrow> show_nat n = [char_of (48 + n)]"
  by (simp add: show_nat.simps)

lemma show_nat_large: "10 \<le> n \<Longrightarrow> show_nat n = show_nat (n div 10) @ [char_of (48 + n mod 10)]"
  by (simp add: show_nat.simps)

lemma of_char_digit: "n < 10 \<Longrightarrow> (of_char (char_of (48 + n) :: char) :: nat) = 48 + n"
  by (simp add: of_char_of)

lemma show_nat_digits: "show_nat n \<noteq> [] \<and> (\<forall>c \<in> set (show_nat n). is_digit c)"
proof (induction n rule: show_nat.induct)
  case (1 n)
  show ?case
  proof (cases "n < 10")
    case True
    then show ?thesis by (simp add: show_nat_small is_digit_def of_char_digit)
  next
    case False
    then show ?thesis using 1 by (simp add: show_nat_large is_digit_def of_char_digit)
  qed
qed

definition read_nat :: "string \<Rightarrow> nat" where
  "read_nat s = foldl (\<lambda>a c. 10 * a + (of_char c - 48)) 0 s"

lemma read_show_nat: "read_nat (show_nat n) = n"
proof (induction n rule: show_nat.induct)
  case (1 n)
  show ?case
  proof (cases "n < 10")
    case True
    then show ?thesis by (simp add: show_nat_small read_nat_def of_char_digit)
  next
    case False
    then show ?thesis using 1 by (simp add: show_nat_large read_nat_def of_char_digit)
  qed
qed

lemma show_nat_inj: "show_nat m = show_nat n \<longleftrightarrow> m = n"
  using read_show_nat by metis

definition delim :: "string \<Rightarrow> bool" where
  "delim r \<longleftrightarrow> r = [] \<or> hd r \<in> {CHR '','', CHR '']'', CHR 0x7D}"

lemma delim_not_digit: "delim (c # r) \<Longrightarrow> \<not> is_digit c"
  by (auto simp: delim_def is_digit_def)

lemma digits_split:
  assumes "\<forall>c \<in> set xs. is_digit c" and "\<forall>c \<in> set ys. is_digit c" and "delim r" and "delim r'" and "xs @ r = ys @ r'"
  shows "xs = ys \<and> r = r'"
proof -
  have "takeWhile is_digit (zs @ q) = zs" if "\<forall>c \<in> set zs. is_digit c" "delim q" for zs q
    using that delim_not_digit by (cases q) (simp_all add: takeWhile_append)
  then have "xs = ys" using assms by metis
  with assms(5) show ?thesis by simp
qed

lemma minus_not_digit: "\<not> is_digit CHR ''-''"
  by (simp add: is_digit_def)

lemma show_int_inj:
  assumes "delim r" and "delim r'" and "show_int i @ r = show_int j @ r'"
  shows "i = j \<and> r = r'"
proof -
  have nn: "show_nat m @ r = show_nat n @ r' \<Longrightarrow> m = n \<and> r = r'" for m n
    using digits_split [OF _ _ assms(1,2)] show_nat_digits show_nat_inj by metis
  have no: "show_nat m @ q \<noteq> CHR ''-'' # q'" for m q q'
    using show_nat_digits [of m] minus_not_digit by (cases "show_nat m") auto
  consider "i < 0" "j < 0" | "0 \<le> i" "0 \<le> j" | "i < 0" "0 \<le> j" | "0 \<le> i" "j < 0" by linarith
  then show ?thesis
  proof cases
    case 1
    with assms(3) have "show_nat (nat (- i)) @ r = show_nat (nat (- j)) @ r'" by (simp add: show_int_def)
    from nn [OF this] 1 show ?thesis by auto
  next
    case 2
    with assms(3) have "show_nat (nat i) @ r = show_nat (nat j) @ r'" by (simp add: show_int_def)
    from nn [OF this] 2 show ?thesis by auto
  next
    case 3
    with assms(3) have "show_nat (nat j) @ r' = CHR ''-'' # show_nat (nat (- i)) @ r" by (simp add: show_int_def)
    with no show ?thesis by blast
  next
    case 4
    with assms(3) have "show_nat (nat i) @ r = CHR ''-'' # show_nat (nat (- j)) @ r'" by (simp add: show_int_def)
    with no show ?thesis by blast
  qed
qed

lemma show_nat_head: "\<exists>c cs. show_nat n = c # cs \<and> is_digit c"
  using show_nat_digits [of n] by (cases "show_nat n") auto

lemma show_int_head: "\<exists>c cs. show_int i = c # cs \<and> (c = CHR ''-'' \<or> is_digit c)"
  using show_nat_head [of "nat i"] by (auto simp: show_int_def)

section \<open>Separated items\<close>

fun tail_text :: "('a \<Rightarrow> string) \<Rightarrow> 'a list \<Rightarrow> string" where
  "tail_text f [] = []"
| "tail_text f (x # xs) = CHR '','' # f x @ tail_text f xs"

lemma join_tail: "join '','' (map f (x # xs)) = f x @ tail_text f xs"
  by (induction xs arbitrary: x) auto

text \<open>Texts of which each can be told from its beginning, up to a delimiter.\<close>

definition readable :: "('a \<Rightarrow> string) \<Rightarrow> 'a \<Rightarrow> bool" where
  "readable f x \<longleftrightarrow> (\<forall>y r r'. delim r \<longrightarrow> delim r' \<longrightarrow> f x @ r = f y @ r' \<longrightarrow> x = y \<and> r = r')"

lemma readableD: "readable f x \<Longrightarrow> delim r \<Longrightarrow> delim r' \<Longrightarrow> f x @ r = f y @ r' \<Longrightarrow> x = y \<and> r = r'"
  unfolding readable_def by blast

lemma delim_tail: "c \<in> {CHR '']'', CHR 0x7D} \<Longrightarrow> delim (tail_text f xs @ c # r)"
  by (cases xs) (auto simp: delim_def)

lemma tail_text_inj:
  assumes "c \<in> {CHR '']'', CHR 0x7D}" and "\<forall>x \<in> set xs. readable f x"
    and "tail_text f xs @ c # r = tail_text f ys @ c # r'"
  shows "xs = ys \<and> r = r'"
  using assms(2,3)
proof (induction xs arbitrary: ys)
  case Nil
  then show ?case using assms(1) by (cases ys) auto
next
  case (Cons x xs)
  show ?case
  proof (cases ys)
    case Nil
    then show ?thesis using Cons.prems assms(1) by auto
  next
    case (Cons y ys')
    with Cons.prems have "f x @ tail_text f xs @ c # r = f y @ tail_text f ys' @ c # r'" and "readable f x" by simp_all
    then have "x = y \<and> tail_text f xs @ c # r = tail_text f ys' @ c # r'"
      by (intro readableD [of f x] delim_tail [OF assms(1)])
    with Cons.IH [of ys'] Cons.prems Cons show ?thesis by simp
  qed
qed

lemma items_inj:
  assumes "c \<in> {CHR '']'', CHR 0x7D}" and "\<forall>x \<in> set xs. readable f x" and "\<And>x. \<exists>a as. f x = a # as \<and> a \<noteq> c"
    and "join '','' (map f xs) @ c # r = join '','' (map f ys) @ c # r'"
  shows "xs = ys \<and> r = r'"
proof (cases xs)
  case Nil
  then show ?thesis
  proof (cases ys)
    case (Cons y ys')
    obtain a as where "f y = a # as" "a \<noteq> c" using assms(3) by blast
    with Nil Cons assms(4) show ?thesis by (simp add: join_tail del: list.map(2))
  qed (use Nil assms(4) in simp)
next
  case (Cons x xs')
  note x = Cons
  show ?thesis
  proof (cases ys)
    case Nil
    obtain a as where "f x = a # as" "a \<noteq> c" using assms(3) by blast
    with Nil Cons assms(4) show ?thesis by (simp add: join_tail del: list.map(2))
  next
    case (Cons y ys')
    with x assms(4) have "f x @ tail_text f xs' @ c # r = f y @ tail_text f ys' @ c # r'"
      by (simp add: join_tail del: list.map(2))
    moreover from x assms(2) have "readable f x" by simp
    ultimately have "x = y \<and> tail_text f xs' @ c # r = tail_text f ys' @ c # r'"
      by (intro readableD [of f x] delim_tail [OF assms(1)])
    with tail_text_inj [OF assms(1), of xs' f r ys' r'] x Cons assms(2) show ?thesis by simp
  qed
qed

section \<open>The printer is uniquely readable\<close>

definition entry_text :: "string \<times> json \<Rightarrow> string" where
  "entry_text p = json_string (fst p) @ '':'' @ print (snd p)"

lemma print_ObjJ: "print (ObjJ ps) = CHR 0x7B # join '','' (map entry_text ps) @ [CHR 0x7D]"
proof -
  have "(\<lambda>(k, v). json_string k @ '':'' @ print v) = entry_text" by (auto simp: fun_eq_iff entry_text_def)
  then show ?thesis by (simp del: join.simps)
qed

lemma entry_readable: "readable print v \<Longrightarrow> readable entry_text (k, v)"
  unfolding readable_def entry_text_def by (auto dest!: json_string_inj)

lemma json_string_head: "\<exists>as. json_string s = CHR 0x22 # as"
  by (simp add: json_string_def)

lemma entry_text_head: "\<exists>a as. entry_text p = a # as \<and> a \<noteq> CHR 0x7D"
  using json_string_head [of "fst p"] by (auto simp: entry_text_def)

text \<open>The first character tells the kind of a tree.\<close>

fun kind_char :: "json \<Rightarrow> char \<Rightarrow> bool" where
  "kind_char NullJ c = (c = CHR ''n'')"
| "kind_char (BoolJ b) c = (c = (if b then CHR ''t'' else CHR ''f''))"
| "kind_char (NumJ i) c = (c = CHR ''-'' \<or> is_digit c)"
| "kind_char (StrJ s) c = (c = CHR 0x22)"
| "kind_char (ArrJ js) c = (c = CHR ''['')"
| "kind_char (ObjJ ps) c = (c = CHR 0x7B)"

lemma print_head: "\<exists>a as. print j = a # as \<and> kind_char j a"
  using show_int_head json_string_head by (cases j) auto

lemma kind_char_not_close: "kind_char j a \<Longrightarrow> a \<noteq> CHR '']''"
  by (cases j) (auto simp: is_digit_def)

lemma print_head_open: "\<exists>a as. print j = a # as \<and> a \<noteq> CHR '']''"
  using print_head kind_char_not_close by blast

fun same_kind :: "json \<Rightarrow> json \<Rightarrow> bool" where
  "same_kind NullJ NullJ = True"
| "same_kind (BoolJ b) (BoolJ b') = (b = b')"
| "same_kind (NumJ i) (NumJ i') = True"
| "same_kind (StrJ s) (StrJ s') = True"
| "same_kind (ArrJ s) (ArrJ s') = True"
| "same_kind (ObjJ s) (ObjJ s') = True"
| "same_kind _ _ = False"

lemma kind_char_same: "kind_char i a \<Longrightarrow> kind_char j a \<Longrightarrow> same_kind i j"
  by (cases i; cases j) (auto simp: is_digit_def split: if_splits)

lemma print_same_kind: "print i @ r = print j @ r' \<Longrightarrow> same_kind i j"
  using print_head [of i] print_head [of j] kind_char_same by fastforce

lemma print_readable: "readable print j"
proof (induction j)
  case (ArrJ js)
  show ?case unfolding readable_def
  proof (intro allI impI)
    fix y r r' assume e: "print (ArrJ js) @ r = print y @ r'"
    from print_same_kind [OF e] obtain js' where y: "y = ArrJ js'" by (cases y) auto
    with e have "join '','' (map print js) @ CHR '']'' # r = join '','' (map print js') @ CHR '']'' # r'" by simp
    from items_inj [OF _ _ print_head_open this] ArrJ y show "ArrJ js = y \<and> r = r'" by simp
  qed
next
  case (ObjJ ps)
  have items: "\<forall>p \<in> set ps. readable entry_text p"
  proof
    fix p assume "p \<in> set ps"
    with ObjJ have "readable print (snd p)" by (cases p) (auto simp: snds.simps)
    then show "readable entry_text p" using entry_readable [of "snd p" "fst p"] by simp
  qed
  show ?case unfolding readable_def
  proof (intro allI impI)
    fix y r r' assume e: "print (ObjJ ps) @ r = print y @ r'"
    from print_same_kind [OF e] obtain ps' where y: "y = ObjJ ps'" by (cases y) auto
    with e have "join '','' (map entry_text ps) @ CHR 0x7D # r = join '','' (map entry_text ps') @ CHR 0x7D # r'"
      by (simp add: print_ObjJ del: print.simps(6))
    from items_inj [OF _ items entry_text_head this] y show "ObjJ ps = y \<and> r = r'" by simp
  qed
next
  case (NumJ i)
  show ?case unfolding readable_def
  proof (intro allI impI)
    fix y r r' assume d: "delim r" "delim r'" and e: "print (NumJ i) @ r = print y @ r'"
    from print_same_kind [OF e] obtain i' where y: "y = NumJ i'" by (cases y) auto
    with e have "show_int i @ r = show_int i' @ r'" by simp
    from show_int_inj [OF d this] y show "NumJ i = y \<and> r = r'" by simp
  qed
next
  case (StrJ s)
  show ?case unfolding readable_def
  proof (intro allI impI)
    fix y r r' assume e: "print (StrJ s) @ r = print y @ r'"
    from print_same_kind [OF e] obtain s' where y: "y = StrJ s'" by (cases y) auto
    with e have "json_string s @ r = json_string s' @ r'" by simp
    from json_string_inj [OF this] y show "StrJ s = y \<and> r = r'" by simp
  qed
next
  case NullJ
  show ?case unfolding readable_def
  proof (intro allI impI)
    fix y r r' assume e: "print NullJ @ r = print y @ r'"
    from print_same_kind [OF e] have y: "y = NullJ" by (cases y) auto
    with e show "NullJ = y \<and> r = r'" by simp
  qed
next
  case (BoolJ b)
  show ?case unfolding readable_def
  proof (intro allI impI)
    fix y r r' assume e: "print (BoolJ b) @ r = print y @ r'"
    from print_same_kind [OF e] have y: "y = BoolJ b" by (cases y) auto
    with e show "BoolJ b = y \<and> r = r'" by simp
  qed
qed

lemma print_inj: "print i = print j \<longleftrightarrow> i = j"
  using readableD [OF print_readable, of "[]" "[]" i j] by (auto simp: delim_def)

section \<open>Property order does not matter\<close>

lemma sort_key_fst_unique:
  fixes xs ys :: "('a::linorder \<times> 'b) list"
  assumes "mset xs = mset ys" and "distinct (map fst xs)"
  shows "sort_key fst xs = sort_key fst ys"
proof -
  have s: "set xs = set ys" using assms(1) by (rule mset_eq_setD)
  have m: "mset (map fst xs) = mset (map fst ys)" using assms(1) by simp
  have d: "distinct (map fst ys)" using assms(2) m mset_eq_imp_distinct_iff by blast
  have sd: "distinct (map fst (sort_key fst zs))" if "distinct (map fst zs)" for zs :: "('a \<times> 'b) list"
    using that by (simp add: distinct_map)
  have inj: "inj_on fst (set xs)" using assms(2) by (simp add: distinct_map)
  show ?thesis
    by (rule map_sorted_distinct_set_unique [where f = fst]) (use s inj sd assms(2) d in simp_all)
qed

text \<open>Two objects with the same properties in any order have the same canonical text.\<close>

lemma canon_permute:
  assumes "mset ps = mset qs" and "distinct (map fst ps)"
  shows "canon (JObj ps) = canon (JObj qs)"
proof -
  let ?f = "\<lambda>(k, v). (k, canon v)"
  have m: "mset (map ?f ps) = mset (map ?f qs)" using assms(1) by simp
  have "map fst (map ?f ps) = map fst ps" by (auto simp: comp_def case_prod_beta)
  with assms(2) have "distinct (map fst (map ?f ps))" by (simp only:)
  from sort_key_fst_unique [OF m this] show ?thesis by (simp only: canon.simps)
qed

section \<open>Properties\<close>

text \<open>Canonical JSON is a faithful identity for digests: two values have the same text exactly when
  they have the same canonical tree, so no two different trees are confused by quoting, escaping,
  numbers or separators.\<close>

lemma canonical_text_injective: "canonicalEqual v w \<longleftrightarrow> canon v = canon w"
  by (simp add: canonicalEqual_def canonicalJson_def print_inj)

text \<open>Canonical JSON does not depend on the order of the properties of an object.\<close>

lemma canonical_text_order_free:
  assumes "mset ps = mset qs" and "distinct (map fst ps)"
  shows "canonicalJson (JObj ps) = canonicalJson (JObj qs)"
  using canon_permute [OF assms] by (simp add: canonicalJson_def)

theorem canonical_text_order_free_witness:
  "canonicalJson (JObj [(''b'', JBool True), (''a'', JNull)]) = canonicalJson (JObj [(''a'', JNull), (''b'', JBool True)])"
  by (rule canonical_text_order_free) simp_all

end
