(* ===== verification/Systems.thy ===== *)
theory Systems
  imports Prelude
begin

text \<open>
  Labelled transition systems over the states of a component.  A component is a start
  predicate and a step relation labelled by its operations; the locale lifts an invariant
  that every operation keeps to every reachable state and to every run.
\<close>

inductive reach :: "('s \<Rightarrow> bool) \<Rightarrow> ('s \<Rightarrow> 'e \<Rightarrow> 's \<Rightarrow> bool) \<Rightarrow> 's \<Rightarrow> bool"
  for start :: "'s \<Rightarrow> bool" and step :: "'s \<Rightarrow> 'e \<Rightarrow> 's \<Rightarrow> bool" where
  reach_start: "start s \<Longrightarrow> reach start step s"
| reach_step: "reach start step s \<Longrightarrow> step s e t \<Longrightarrow> reach start step t"

inductive runs :: "('s \<Rightarrow> 'e \<Rightarrow> 's \<Rightarrow> bool) \<Rightarrow> 's \<Rightarrow> 'e list \<Rightarrow> 's \<Rightarrow> bool"
  for step :: "'s \<Rightarrow> 'e \<Rightarrow> 's \<Rightarrow> bool" where
  runs_Nil: "runs step s [] s"
| runs_Cons: "step s e t \<Longrightarrow> runs step t es u \<Longrightarrow> runs step s (e # es) u"

inductive_simps runs_Nil_iff [simp]: "runs step s [] t"
inductive_simps runs_Cons_iff [simp]: "runs step s (e # es) t"

lemma runs_append: "runs step s (es @ fs) u \<longleftrightarrow> (\<exists>t. runs step s es t \<and> runs step t fs u)"
  by (induction es arbitrary: s) auto

lemma reach_runs: "reach start step s \<Longrightarrow> runs step s es t \<Longrightarrow> reach start step t"
  by (induction es arbitrary: s) (auto intro: reach_step)

locale safe_system =
  fixes start :: "'s \<Rightarrow> bool"
    and step :: "'s \<Rightarrow> 'e \<Rightarrow> 's \<Rightarrow> bool"
    and inv :: "'s \<Rightarrow> bool"
  assumes start_inv: "start s \<Longrightarrow> inv s"
    and step_inv: "inv s \<Longrightarrow> step s e t \<Longrightarrow> inv t"
begin

lemma reach_inv: "reach start step s \<Longrightarrow> inv s"
  by (induction rule: reach.induct) (auto intro: start_inv step_inv)

lemma runs_inv: "inv s \<Longrightarrow> runs step s es t \<Longrightarrow> inv t"
  by (induction es arbitrary: s) (auto intro: step_inv)

end

text \<open>A safe system with a quantity that no step lowers: it is monotone along runs.\<close>

locale monotone_system = safe_system start step inv
  for start :: "'s \<Rightarrow> bool" and step :: "'s \<Rightarrow> 'e \<Rightarrow> 's \<Rightarrow> bool" and inv :: "'s \<Rightarrow> bool" +
  fixes level :: "'s \<Rightarrow> nat"
  assumes step_level: "inv s \<Longrightarrow> step s e t \<Longrightarrow> level s \<le> level t"
begin

lemma runs_level: "inv s \<Longrightarrow> runs step s es t \<Longrightarrow> level s \<le> level t"
proof (induction es arbitrary: s)
  case (Cons e es)
  then obtain u where u: "step s e u" and r: "runs step u es t" by auto
  from Cons.prems u have "inv u" and "level s \<le> level u"
    by (auto intro: step_inv step_level)
  with Cons.IH r show ?case by force
qed simp

end

end
