(* ===== verification/Replay.thy ===== *)
theory Replay
  imports Engine Json JsMap Systems
begin

text \<open>
  The transition front end and replay
  (\<open>workflow/state-machine/transition.ts\<close> and \<open>replay.ts\<close>): single transitions, batches,
  deterministic replay of a history, the hash chain of a history and the check of a
  transition sequence.  The digest function of the chain is a parameter.
\<close>

section \<open>One transition\<close>

definition default_to :: "jsval \<Rightarrow> jsval \<Rightarrow> jsval" where
  "default_to v w = (if v = JUndef then w else v)"

text \<open>The input envelope the front end builds; it has no resume pointer.\<close>

definition transition_envelope :: "jsobj \<Rightarrow> jsval \<Rightarrow> jsobj \<Rightarrow> jsval" where
  "transition_envelope st event ctx = JObj
     [(''entityId'', default_to (prop_of st ''entityId'') (JStr ''default'')),
      (''currentStatus'', prop_of st ''currentStatus''), (''eventType'', event),
      (''actor'', default_to (prop_of ctx ''actor'') (JStr ''system'')),
      (''reason'', default_to (prop_of ctx ''reason'') (JStr [])),
      (''metadata'', default_to (prop_of ctx ''metadata'') (JObj [])),
      (''operationId'', prop_of ctx ''operationId''), (''traceId'', prop_of ctx ''traceId''),
      (''auditId'', prop_of ctx ''auditId''), (''checkpointNodeId'', prop_of ctx ''checkpointNodeId''),
      (''policyDecisionId'', prop_of ctx ''policyDecisionId''), (''approvalId'', prop_of ctx ''approvalId''),
      (''now'', prop_of ctx ''now''), (''guardContext'', prop_of ctx ''guardContext'')]"

definition msg_machine_required :: string where "msg_machine_required = ''Machine definition is required''"
definition msg_state_required :: string where "msg_state_required = ''State context is required''"
definition msg_event_required :: string where "msg_event_required = ''Event type is required''"
definition msg_status_required :: string where "msg_status_required = ''Current status is required''"

text \<open>The engine is called without options, so no digest is ever computed.\<close>

definition transition :: "jsval \<Rightarrow> jsval \<Rightarrow> jsval \<Rightarrow> jsobj \<Rightarrow> guard_error + transition_outcome" where
  "transition machine st event ctx =
     (if \<not> truthy machine then Inr (Refused (refused err_invalid_definition msg_machine_required))
      else if \<not> truthy st then Inr (Refused (refused err_unknown_status msg_state_required))
      else if \<not> truthy event then Inr (Refused (refused err_unknown_event msg_event_required))
      else if \<not> nonblank (prop_of (fields_of st) ''currentStatus'')
      then Inr (Refused (refused err_unknown_status msg_status_required))
      else transitionState (\<lambda>_. []) machine (transition_envelope (fields_of st) event ctx) default_options)"

text \<open>The static question looks at the first matching cell only.\<close>

definition isTransitionAllowed :: "machine_def option \<Rightarrow> string \<Rightarrow> string \<Rightarrow> bool" where
  "isTransitionAllowed machine s e =
     (case machine of
        None \<Rightarrow> False
      | Some d \<Rightarrow> (case find (\<lambda>c. cl_from c = s \<and> cl_event c = e) (md_totalMatrix d) of
            None \<Rightarrow> False
          | Some c \<Rightarrow> \<not> is_illegal c \<and> \<not> is_ignored c))"

definition listEvents :: "machine_def option \<Rightarrow> string \<Rightarrow> string list" where
  "listEvents machine s = (case machine of None \<Rightarrow> [] | Some d \<Rightarrow> listAllowedEvents d s)"

section \<open>Batches\<close>

definition with_status :: "jsobj \<Rightarrow> string \<Rightarrow> jsobj" where
  "with_status st s = map_set st ''currentStatus'' (JStr s)"

fun outcome_status :: "transition_outcome \<Rightarrow> string option" where
  "outcome_status (Accepted a) = Some (ac_toStatus a)"
| "outcome_status _ = None"

record batch_entry =
  be_event :: jsval
  be_fromStatus :: jsval
  be_toStatus :: jsval
  be_ok :: bool
  be_result :: transition_outcome

fun batch_loop :: "jsval \<Rightarrow> jsobj \<Rightarrow> (jsval \<times> jsobj) list \<Rightarrow> guard_error + batch_entry list \<times> jsobj" where
  "batch_loop machine st [] = Inr ([], st)"
| "batch_loop machine st ((event, ctx) # ts) =
     bind_res (transition machine (JObj st) event ctx) (\<lambda>r.
       let entry = \<lparr>be_event = event, be_fromStatus = prop_of st ''currentStatus'',
             be_toStatus = (case outcome_status r of Some s \<Rightarrow> JStr s | None \<Rightarrow> prop_of st ''currentStatus''),
             be_ok = (outcome_status r \<noteq> None), be_result = r\<rparr>;
           st' = (case outcome_status r of Some s \<Rightarrow> if s \<noteq> [] then with_status st s else st | None \<Rightarrow> st)
       in bind_res (batch_loop machine st' ts) (\<lambda>(es, fin). Inr (entry # es, fin)))"

definition batchTransition :: "jsval \<Rightarrow> jsobj \<Rightarrow> (jsval \<times> jsobj) list \<Rightarrow> guard_error + batch_entry list \<times> jsobj \<times> bool" where
  "batchTransition machine st ts =
     bind_res (batch_loop machine st ts) (\<lambda>(es, fin). Inr (es, fin, \<forall>e \<in> set es. be_ok e))"

section \<open>Replay\<close>

definition definitionRecord :: "jsval \<Rightarrow> jsval option" where
  "definitionRecord v = (if is_record v \<and> is_string (prop_of (fields_of v) ''initialState'') then Some v else None)"


definition historyEntry :: "jsval \<Rightarrow> (jsval \<times> jsobj) option" where
  "historyEntry v =
     (let fs = fields_of v
      in if is_record v \<and> is_string (prop_of fs ''event'') \<and> optional is_record (prop_of fs ''context'')
         then Some (prop_of fs ''event'', fields_of (prop_of fs ''context'')) else None)"




fun outcome_message :: "transition_outcome \<Rightarrow> string option" where
  "outcome_message (Refused r) = sel_message r"
| "outcome_message (NotExecutable _) = Some ''Definition is not executable.''"
| "outcome_message (Accepted _) = None"

definition msg_entry_invalid :: string where "msg_entry_invalid = ''History entry is invalid''"




section \<open>The hash chain\<close>

record tamper_report =
  tp_tampered :: bool
  tp_errors :: "string list"
  tp_verifiedCount :: nat

definition record_or_empty :: "jsval \<Rightarrow> jsobj" where
  "record_or_empty v = fields_of v"

text \<open>The text the entry hash covers.\<close>

definition entry_canonical :: "jsobj \<Rightarrow> string" where
  "entry_canonical e = print (plain (JObj [(''event'', prop_of e ''event''), (''previousHash'', prop_of e ''previousHash''),
     (''context'', js_or (prop_of e ''context'') (JObj []))]))"

definition at_entry :: "nat \<Rightarrow> string \<Rightarrow> string" where
  "at_entry i m = ''Entry '' @ show_nat i @ '': '' @ m"

definition msg_previous_required :: string where "msg_previous_required = ''previousHash is required for hash-chain verification''"
definition msg_hash_required :: string where "msg_hash_required = ''hash is required for hash-chain verification''"
definition em_dash :: string where "em_dash = [CHR 0xE2, CHR 0x80, CHR 0x94]"
definition msg_previous_mismatch :: "string \<Rightarrow> jsval \<Rightarrow> string" where
  "msg_previous_mismatch expected got = ''previousHash mismatch '' @ em_dash @ '' expected '' @ expected @ '', got '' @ js_string got"
definition msg_hash_mismatch :: string where "msg_hash_mismatch = ''hash mismatch '' @ em_dash @ '' tampering detected''"

definition expected_previous :: "jsval list \<Rightarrow> nat \<Rightarrow> string" where
  "expected_previous history i =
     (if i = 0 then [] else js_string (js_or (prop_of (record_or_empty (history ! (i - 1))) ''hash'') (JStr [])))"

text \<open>The errors and the verified count of entry \<open>i\<close>.\<close>

definition check_entry :: "(string \<Rightarrow> string) \<Rightarrow> jsval list \<Rightarrow> nat \<Rightarrow> string list \<times> nat" where
  "check_entry digest history i =
     (let e = record_or_empty (history ! i);
          previous = expected_previous history i;
          e1 = (if is_string (prop_of e ''previousHash'') then [] else [at_entry i msg_previous_required])
      in case prop_of e ''hash'' of
           JStr h \<Rightarrow>
             (if h = [] then (e1 @ [at_entry i msg_hash_required], 0)
              else (let e2 = (if prop_of e ''previousHash'' \<noteq> JStr previous
                              then [at_entry i (msg_previous_mismatch previous (prop_of e ''previousHash''))] else [])
                    in if h \<noteq> digest (entry_canonical e) then (e1 @ e2 @ [at_entry i msg_hash_mismatch], 0)
                       else (e1 @ e2, if prop_of e ''previousHash'' = JStr previous then 1 else 0)))
         | _ \<Rightarrow> (e1 @ [at_entry i msg_hash_required], 0))"

definition detectTampering :: "(string \<Rightarrow> string) \<Rightarrow> jsval \<Rightarrow> tamper_report" where
  "detectTampering digest v =
     (case v of
        JArr history \<Rightarrow>
          (let results = map (check_entry digest history) [0..<length history];
               errors = concat (map fst results)
           in \<lparr>tp_tampered = (errors \<noteq> []), tp_errors = errors, tp_verifiedCount = sum_list (map snd results)\<rparr>)
      | _ \<Rightarrow> \<lparr>tp_tampered = False, tp_errors = [], tp_verifiedCount = 0\<rparr>)"

section \<open>The sequence check\<close>

definition at_step :: "nat \<Rightarrow> string \<Rightarrow> string" where
  "at_step i m = ''Step '' @ show_nat i @ '': '' @ m"

definition msg_rejected :: "string \<Rightarrow> string \<Rightarrow> string" where
  "msg_rejected s e = ''Transition rejected for '' @ arrow s e"

definition sequence_state :: "string \<Rightarrow> jsval" where
  "sequence_state s = JObj [(''entityId'', JStr ''sequence-verification''), (''currentStatus'', JStr s)]"

fun sequence_loop :: "jsval \<Rightarrow> nat \<Rightarrow> string \<Rightarrow> jsval list \<Rightarrow> guard_error + string list \<times> string list" where
  "sequence_loop machine i cur [] = Inr ([], [])"
| "sequence_loop machine i cur (h # hs) =
     (case historyEntry h of
        None \<Rightarrow> Inr ([at_step i msg_entry_invalid], [])
      | Some (event, ctx) \<Rightarrow>
          bind_res (transition machine (sequence_state cur) event ctx) (\<lambda>r.
            case outcome_status r of
              None \<Rightarrow> Inr ([at_step i (str_or (outcome_message r) (msg_rejected cur (js_string event)))], [])
            | Some s \<Rightarrow> bind_res (sequence_loop machine (Suc i) s hs) (\<lambda>(errs, seq). Inr (errs, s # seq))))"

record sequence_report =
  sq_valid :: bool
  sq_errors :: "string list"
  sq_stateSequence :: "string list"

definition verifyTransitionSequence :: "jsval \<Rightarrow> jsval \<Rightarrow> guard_error + sequence_report" where
  "verifyTransitionSequence dv history =
     (case (definitionRecord dv, history) of
        (Some machine, JArr hs) \<Rightarrow>
          (let init = str_of (prop_of (fields_of dv) ''initialState'')
           in bind_res (sequence_loop machine 0 init hs) (\<lambda>(errs, seq).
                Inr \<lparr>sq_valid = (errs = []), sq_errors = errs, sq_stateSequence = init # seq\<rparr>))
      | _ \<Rightarrow> Inr \<lparr>sq_valid = False, sq_errors = [''Definition and history are required''], sq_stateSequence = []\<rparr>)"

section \<open>Runs of a definition\<close>

text \<open>The accepted steps of a sound definition, as a transition system over statuses.\<close>

interpretation engine: safe_system "\<lambda>s. sound_definition d \<and> s = md_initialState d"
    "\<lambda>s e t. sound_definition d \<and> machine_step d s e t"
    "\<lambda>s. s \<in> sd_id ` set (md_states d) \<and> machine_reach (md_totalMatrix d) (md_initialState d) s"
  for d
proof unfold_locales
  fix s assume "sound_definition d \<and> s = md_initialState d"
  then show "s \<in> sd_id ` set (md_states d) \<and> machine_reach (md_totalMatrix d) (md_initialState d) s"
    by (simp add: sound_definition_def mr_init)
next
  fix s e t
  assume "s \<in> sd_id ` set (md_states d) \<and> machine_reach (md_totalMatrix d) (md_initialState d) s"
    and "sound_definition d \<and> machine_step d s e t"
  then show "t \<in> sd_id ` set (md_states d) \<and> machine_reach (md_totalMatrix d) (md_initialState d) t"
    using machine_step_declared machine_step_reach by blast
qed

definition sound_step :: "machine_def \<Rightarrow> string \<Rightarrow> string \<Rightarrow> string \<Rightarrow> bool" where
  "sound_step d s e t \<longleftrightarrow> sound_definition d \<and> machine_step d s e t"

lemma transition_accepted:
  assumes "transition m st event ctx = Inr (Accepted a)" and "prop_of (fields_of st) ''currentStatus'' = JStr s"
  shows "\<exists>e. event = JStr e \<and> sound_step (decode_definition m) s e (ac_toStatus a)"
proof -
  let ?env = "transition_envelope (fields_of st) event ctx"
  from assms(1) have t: "transitionState (\<lambda>_. []) m ?env default_options = Inr (Accepted a)"
    by (auto simp: transition_def split: if_splits)
  then obtain inp where i: "transitionInput ?env = Some inp"
      "skipValidation (\<lambda>_. []) m default_options \<or> vr_ok (validateExecutableStateMachineDefinition m)"
      "perform (decode_definition m) inp (to_guardEvaluator default_options) = Inr (Accepted a)"
    by (rule transitionState_accepted)
  from i(1) assms(2) have "is_string event" "ti_eventType inp = str_of event" "ti_currentStatus inp = s"
    by (auto simp: transitionInput_def transition_envelope_def prop_of_Cons Let_def split: if_splits)
  moreover have "sound_definition (decode_definition m)"
    using i(2) default_not_skipped validated_executable(2) by blast
  ultimately show ?thesis using perform_step(3) [OF i(3)] by (cases event) (auto simp: sound_step_def)
qed

lemma outcome_status_Some: "outcome_status r = Some s \<longleftrightarrow> (\<exists>a. r = Accepted a \<and> s = ac_toStatus a)"
  by (cases r) auto

lemma sequence_loop_runs:
  "sequence_loop m i cur hs = Inr ([], seq) \<Longrightarrow>
    \<exists>es. length es = length hs \<and> length seq = length hs \<and> runs (sound_step (decode_definition m)) cur es (last (cur # seq))
      \<and> (\<forall>k < length hs. \<exists>ctx. historyEntry (hs ! k) = Some (JStr (es ! k), ctx))"
proof (induction m i cur hs arbitrary: seq rule: sequence_loop.induct)
  case (2 m i cur h hs)
  from "2.prems" obtain event ctx where h: "historyEntry h = Some (event, ctx)" by (auto split: option.splits)
  with "2.prems" obtain r where r: "transition m (sequence_state cur) event ctx = Inr r"
    by (auto simp: bind_res_Inr_iff)
  with "2.prems" h obtain s where s: "outcome_status r = Some s" by (cases "outcome_status r") auto
  with "2.prems" h r obtain seq' where l: "sequence_loop m (Suc i) s hs = Inr ([], seq')" and seq: "seq = s # seq'"
    by (auto simp: bind_res_Inr_iff)
  from "2.IH" [OF h refl s l] obtain es where es: "length es = length hs" "length seq' = length hs"
      "runs (sound_step (decode_definition m)) s es (last (s # seq'))"
      "\<forall>k < length hs. \<exists>ctx. historyEntry (hs ! k) = Some (JStr (es ! k), ctx)" by blast
  from s obtain a where a: "r = Accepted a" "s = ac_toStatus a" by (auto simp: outcome_status_Some)
  have "prop_of (fields_of (sequence_state cur)) ''currentStatus'' = JStr cur"
    by (simp add: sequence_state_def prop_of_def)
  from transition_accepted [OF r [unfolded a(1)] this] obtain e where e: "event = JStr e"
      "sound_step (decode_definition m) cur e s" using a(2) by blast
  have "\<forall>k < length (h # hs). \<exists>ctx. historyEntry ((h # hs) ! k) = Some (JStr ((e # es) ! k), ctx)"
  proof (intro allI impI)
    fix k assume "k < length (h # hs)"
    then show "\<exists>ctx. historyEntry ((h # hs) ! k) = Some (JStr ((e # es) ! k), ctx)"
      using es(4) h e(1) by (cases k) auto
  qed
  with es e seq show ?case by (intro exI [of _ "e # es"]) auto
qed simp

lemma sound_runs_reach:
  assumes "runs (sound_step d) s es t"
    and "s \<in> sd_id ` set (md_states d) \<and> machine_reach (md_totalMatrix d) (md_initialState d) s"
  shows "t \<in> sd_id ` set (md_states d) \<and> machine_reach (md_totalMatrix d) (md_initialState d) t"
  using engine.runs_inv [where d = d and s = s and es = es and t = t] assms by (simp add: sound_step_def [abs_def])

section \<open>Replay and the sequence check agree\<close>












lemma with_status_prop [simp]: "prop_of (with_status st s) ''currentStatus'' = JStr s"
  by (simp add: with_status_def prop_of_def)


section \<open>The hash chain binds the history\<close>

definition entry_linked :: "(string \<Rightarrow> string) \<Rightarrow> string \<Rightarrow> jsval \<Rightarrow> bool" where
  "entry_linked digest previous v \<longleftrightarrow> prop_of (record_or_empty v) ''previousHash'' = JStr previous
     \<and> prop_of (record_or_empty v) ''hash'' = JStr (digest (entry_canonical (record_or_empty v)))
     \<and> digest (entry_canonical (record_or_empty v)) \<noteq> []"

definition chain_linked :: "(string \<Rightarrow> string) \<Rightarrow> jsval list \<Rightarrow> bool" where
  "chain_linked digest hs \<longleftrightarrow> (\<forall>i < length hs. entry_linked digest (expected_previous hs i) (hs ! i))"

lemma check_entry_clean:
  "fst (check_entry digest hs i) = [] \<longleftrightarrow> entry_linked digest (expected_previous hs i) (hs ! i)"
proof (cases "prop_of (record_or_empty (hs ! i)) ''hash''")
  case (JStr h)
  then show ?thesis
    by (cases "prop_of (record_or_empty (hs ! i)) ''previousHash''")
      (auto simp: check_entry_def entry_linked_def Let_def)
qed (auto simp: check_entry_def entry_linked_def Let_def)

lemma check_entry_count:
  "entry_linked digest (expected_previous hs i) (hs ! i) \<Longrightarrow> snd (check_entry digest hs i) = 1"
  by (auto simp: check_entry_def entry_linked_def Let_def)

lemma detectTampering_iff: "\<not> tp_tampered (detectTampering digest (JArr hs)) \<longleftrightarrow> chain_linked digest hs"
proof -
  have "\<not> tp_tampered (detectTampering digest (JArr hs)) \<longleftrightarrow> (\<forall>i \<in> {0..<length hs}. fst (check_entry digest hs i) = [])"
    by (simp add: detectTampering_def Let_def concat_eq_Nil_conv)
  then show ?thesis by (simp add: check_entry_clean chain_linked_def Ball_def)
qed

lemma verified_count: "chain_linked digest hs \<Longrightarrow> tp_verifiedCount (detectTampering digest (JArr hs)) = length hs"
proof -
  assume "chain_linked digest hs"
  then have ones: "map (\<lambda>i. snd (check_entry digest hs i)) [0..<length hs] = map (\<lambda>i. 1) [0..<length hs]"
    by (simp add: chain_linked_def check_entry_count)
  have "tp_verifiedCount (detectTampering digest (JArr hs)) = sum_list (map (\<lambda>i. snd (check_entry digest hs i)) [0..<length hs])"
    by (simp add: detectTampering_def Let_def comp_def)
  then show ?thesis unfolding ones by (simp add: sum_list_triv)
qed

text \<open>The hash of the last entry, which links to the next one.\<close>

definition last_hash :: "jsval list \<Rightarrow> string" where
  "last_hash hs = expected_previous hs (length hs)"

lemma expected_previous_append: "i \<le> length hs \<Longrightarrow> expected_previous (hs @ xs) i = expected_previous hs i"
  by (auto simp: expected_previous_def nth_append)

lemma chain_linked_snoc: "chain_linked digest (hs @ [h]) \<longleftrightarrow> chain_linked digest hs \<and> entry_linked digest (last_hash hs) h"
  by (auto simp: chain_linked_def last_hash_def less_Suc_eq nth_append expected_previous_append)

lemma last_hash_snoc: "entry_linked digest p h \<Longrightarrow> last_hash (hs @ [h]) = digest (entry_canonical (record_or_empty h))"
  by (simp add: last_hash_def expected_previous_def entry_linked_def js_or_def)

lemma last_hash_Nil [simp]: "last_hash [] = []"
  by (simp add: last_hash_def expected_previous_def)

lemma last_hash_nonempty: "chain_linked digest hs \<Longrightarrow> hs \<noteq> [] \<Longrightarrow> last_hash hs \<noteq> []"
proof (cases hs rule: rev_cases)
  case (snoc hs' h)
  moreover assume "chain_linked digest hs"
  ultimately have l: "entry_linked digest (last_hash hs') h" by (simp add: chain_linked_snoc)
  from last_hash_snoc [OF l, of hs'] l snoc show ?thesis by (simp add: entry_linked_def)
qed simp

lemma js_or_object: "js_or v (JObj []) \<noteq> JUndef"
  by (cases v) (auto simp: js_or_def)

lemma entry_tree:
  assumes "prop_of e ''previousHash'' = JStr p"
  shows "entry_canonical e = print (ObjJ ((if prop_of e ''event'' = JUndef then [] else [(''event'', plain (prop_of e ''event''))])
     @ [(''previousHash'', StrJ p), (''context'', plain (js_or (prop_of e ''context'') (JObj [])))]))"
  by (simp add: entry_canonical_def assms js_or_object del: print.simps)

lemma entry_canonical_inj:
  assumes "entry_canonical e = entry_canonical e'" and "prop_of e ''previousHash'' = JStr p" and "prop_of e' ''previousHash'' = JStr p'"
  shows "p = p'"
  using assms(1) unfolding entry_tree [OF assms(2)] entry_tree [OF assms(3)] print_inj by (simp split: if_splits)

lemma chain_binding:
  assumes "chain_linked digest hs" and "chain_linked digest hs'" and "last_hash hs = last_hash hs'"
    and "\<And>x y. digest x = digest y \<Longrightarrow> x = y"
  shows "map (entry_canonical \<circ> record_or_empty) hs = map (entry_canonical \<circ> record_or_empty) hs'"
  using assms(1-3)
proof (induction hs arbitrary: hs' rule: rev_induct)
  case Nil
  then show ?case using last_hash_nonempty [of digest hs'] by (cases hs') auto
next
  case (snoc h hs)
  show ?case
  proof (cases hs' rule: rev_cases)
    case Nil
    then show ?thesis using snoc.prems last_hash_nonempty [of digest "hs @ [h]"] by simp
  next
    case (snoc hs2 h')
    with snoc.prems have l: "entry_linked digest (last_hash hs) h" "entry_linked digest (last_hash hs2) h'"
      "chain_linked digest hs" "chain_linked digest hs2"
      by (simp_all add: chain_linked_snoc)
    from snoc snoc.prems(3) have "last_hash (hs @ [h]) = last_hash (hs2 @ [h'])" by simp
    then have "digest (entry_canonical (record_or_empty h)) = digest (entry_canonical (record_or_empty h'))"
      unfolding last_hash_snoc [OF l(1)] last_hash_snoc [OF l(2)] .
    then have e: "entry_canonical (record_or_empty h) = entry_canonical (record_or_empty h')" by (rule assms(4))
    from l(1,2) have "prop_of (record_or_empty h) ''previousHash'' = JStr (last_hash hs)"
      "prop_of (record_or_empty h') ''previousHash'' = JStr (last_hash hs2)" unfolding entry_linked_def by simp_all
    with e have "last_hash hs = last_hash hs2" by (rule entry_canonical_inj)
    from snoc.IH [OF l(3,4) this] e snoc show ?thesis by simp
  qed
qed

section \<open>A history for the witnesses\<close>

definition demo_history :: "jsval list" where
  "demo_history = [JObj [(''event'', JStr ''finish''), (''context'', JObj [(''guardContext'', JObj gated_context)])]]"

lemma demo_history_entry: "historyEntry (hd demo_history) = Some (JStr ''finish'', [(''guardContext'', JObj gated_context)])"
  by (simp add: demo_history_def historyEntry_def prop_of_Cons optional_def)

lemma demo_history_transition:
  "\<exists>a. transition gated_value (sequence_state ''open'') (JStr ''finish'') [(''guardContext'', JObj gated_context)] = Inr (Accepted a)
     \<and> ac_toStatus a = ''closed''"
proof -
  let ?iv = "transition_envelope (fields_of (sequence_state ''open'')) (JStr ''finish'') [(''guardContext'', JObj gated_context)]"
  have "\<exists>inp. transitionInput ?iv = Some inp \<and> ti_currentStatus inp = ''open'' \<and> ti_eventType inp = ''finish''
      \<and> ti_guardContext inp = gated_context \<and> ti_guardEvaluator inp = JUndef"
    by (simp add: transitionInput_def transition_envelope_def prop_of_Cons prop_of_nil sequence_state_def)
  then have "\<exists>a. transitionState (\<lambda>_. []) gated_value ?iv default_options = Inr (Accepted a) \<and> ac_toStatus a = ''closed''"
    using gated_transition by blast
  then show ?thesis
    by (simp add: transition_def sequence_state_def prop_of_Cons gated_value_def encode_definition_def demo_trims)
qed

lemma gated_record: "is_record gated_value" "prop_of (fields_of gated_value) ''initialState'' = JStr ''open''"
  by (simp_all add: gated_value_def encode_definition_def prop_of_Cons gated_demo_def demo_machine_def)

lemma demo_history_valid:
  "\<exists>q. verifyTransitionSequence gated_value (JArr demo_history) = Inr q \<and> sq_valid q \<and> sq_stateSequence q = [''open'', ''closed'']"
proof -
  obtain a where a: "transition gated_value (sequence_state ''open'') (JStr ''finish'') [(''guardContext'', JObj gated_context)] = Inr (Accepted a)"
      "ac_toStatus a = ''closed''" using demo_history_transition by blast
  have h: "demo_history = [hd demo_history]" by (simp add: demo_history_def)
  have "sequence_loop gated_value 0 ''open'' [hd demo_history] = Inr ([], [''closed''])"
    by (simp add: demo_history_entry a)
  then have "sequence_loop gated_value 0 ''open'' demo_history = Inr ([], [''closed''])" using h by simp
  then show ?thesis
    by (simp add: verifyTransitionSequence_def definitionRecord_def gated_record)
qed

definition demo_chain :: "jsobj \<Rightarrow> jsval list" where
  "demo_chain extra = [JObj ((''event'', JStr ''finish'') # (''previousHash'', JStr [])
     # (''hash'', JStr (CHR ''h'' # entry_canonical [(''event'', JStr ''finish''), (''previousHash'', JStr [])]))
     # (''context'', JNull) # extra)]"

lemma demo_chain_linked: "chain_linked (\<lambda>s. CHR ''h'' # s) (demo_chain extra)"
  by (simp add: chain_linked_def entry_linked_def demo_chain_def record_or_empty_def expected_previous_def
      entry_canonical_def prop_of_Cons prop_of_nil js_or_def)

section \<open>Properties\<close>

text \<open>A valid transition sequence is a run of the machine: it visits one status per history entry, each
  step is a step of the validated matrix under the recorded event, and the last status is a declared
  state reachable from the initial one.\<close>

lemma valid_sequence_is_run:
  assumes "verifyTransitionSequence dv (JArr hs) = Inr q" and "sq_valid q" and "hs \<noteq> []"
  shows "\<exists>es. length es = length hs \<and> length (sq_stateSequence q) = Suc (length hs)
     \<and> runs (sound_step (decode_definition dv)) (md_initialState (decode_definition dv)) es (last (sq_stateSequence q))
     \<and> machine_reach (md_totalMatrix (decode_definition dv)) (md_initialState (decode_definition dv)) (last (sq_stateSequence q))
     \<and> last (sq_stateSequence q) \<in> sd_id ` set (md_states (decode_definition dv))"
proof -
  let ?d = "decode_definition dv"
  let ?init = "md_initialState ?d"
  have init: "str_of (prop_of (fields_of dv) ''initialState'') = ?init" by (simp add: decode_definition_def Let_def)
  from assms(1,2) obtain seq where l: "sequence_loop dv 0 ?init hs = Inr ([], seq)" and q: "sq_stateSequence q = ?init # seq"
    by (auto simp: verifyTransitionSequence_def bind_res_Inr_iff definitionRecord_def init Let_def split: option.splits if_splits)
  from sequence_loop_runs [OF l] obtain es where es: "length es = length hs" "length seq = length hs"
      "runs (sound_step ?d) ?init es (last (?init # seq))" by blast
  from es(1) assms(3) obtain e es' where "es = e # es'" by (cases es) auto
  with es(3) have "sound_definition ?d" by (auto simp: sound_step_def)
  then have "?init \<in> sd_id ` set (md_states ?d) \<and> machine_reach (md_totalMatrix ?d) ?init ?init"
    by (simp add: sound_definition_def mr_init)
  from sound_runs_reach [OF es(3) this] es q show ?thesis by (intro exI [of _ es]) simp
qed

lemma valid_sequence_is_run_witness:
  "machine_reach (md_totalMatrix gated_demo) ''open'' ''closed''"
proof -
  obtain q where q: "verifyTransitionSequence gated_value (JArr demo_history) = Inr q" "sq_valid q" "sq_stateSequence q = [''open'', ''closed'']"
    using demo_history_valid by blast
  have "demo_history \<noteq> []" by (simp add: demo_history_def)
  from valid_sequence_is_run [OF q(1,2) this] show ?thesis
    by (auto simp: gated_decode q(3) gated_demo_def demo_machine_def)
qed



text \<open>C30. The tamper check accepts a history exactly when every entry names the hash of its predecessor and
  carries the digest of its own content; then every entry counts as verified.\<close>

theorem tamper_check_exact:
  "(\<not> tp_tampered (detectTampering digest (JArr hs)) \<longleftrightarrow>
      (\<forall>i < length hs. entry_linked digest (expected_previous hs i) (hs ! i)))
   \<and> (tp_tampered (detectTampering digest (JArr hs)) \<or> tp_verifiedCount (detectTampering digest (JArr hs)) = length hs)"
  using detectTampering_iff [of digest hs] verified_count [of digest hs] unfolding chain_linked_def by blast

theorem tamper_check_exact_witness:
  "\<not> tp_tampered (detectTampering (\<lambda>s. CHR ''h'' # s) (JArr (demo_chain [])))
   \<and> tp_verifiedCount (detectTampering (\<lambda>s. CHR ''h'' # s) (JArr (demo_chain []))) = 1"
proof -
  have "\<forall>i < length (demo_chain []). entry_linked (\<lambda>s. CHR ''h'' # s) (expected_previous (demo_chain []) i) (demo_chain [] ! i)"
    using demo_chain_linked [of "[]"] by (simp add: chain_linked_def)
  moreover have "length (demo_chain []) = 1" by (simp add: demo_chain_def)
  ultimately show ?thesis using tamper_check_exact [of "\<lambda>s. CHR ''h'' # s" "demo_chain []"] by auto
qed

text \<open>The last hash binds the whole history: two histories that pass the tamper check and end in the
  same hash cover the same texts, entry by entry, unless the digest has a collision.\<close>

lemma last_hash_binds_history:
  assumes "\<not> tp_tampered (detectTampering digest (JArr hs))" and "\<not> tp_tampered (detectTampering digest (JArr hs'))"
    and "last_hash hs = last_hash hs'"
  shows "map (entry_canonical \<circ> record_or_empty) hs = map (entry_canonical \<circ> record_or_empty) hs'
     \<or> (\<exists>x y. x \<noteq> y \<and> digest x = digest y)"
  using chain_binding [of digest hs hs'] assms by (auto simp: detectTampering_iff)

lemma last_hash_binds_history_witness:
  "map (entry_canonical \<circ> record_or_empty) (demo_chain []) = map (entry_canonical \<circ> record_or_empty) (demo_chain [(''note'', JNull)])
     \<or> (\<exists>x y. x \<noteq> y \<and> CHR ''h'' # x = CHR ''h'' # y)"
proof (rule last_hash_binds_history)
  show "\<not> tp_tampered (detectTampering (\<lambda>s. CHR ''h'' # s) (JArr (demo_chain [])))"
    and "\<not> tp_tampered (detectTampering (\<lambda>s. CHR ''h'' # s) (JArr (demo_chain [(''note'', JNull)])))"
    by (simp_all add: detectTampering_iff demo_chain_linked)
  show "last_hash (demo_chain []) = last_hash (demo_chain [(''note'', JNull)])"
    by (simp add: last_hash_def expected_previous_def demo_chain_def record_or_empty_def prop_of_Cons)
qed

end
