(* ===== verification/WorkQueueMachine.thy ===== *)
theory WorkQueueMachine
  imports JsValue Systems
begin

text \<open>
  The state machine of the work queue (\<open>workflow/state-machine/work-queue/state-machine.ts\<close>): its table of
  transitions, the legality tests the stores call before they write a state, the matrix and
  the two self checks.  The properties are about the runs the table allows.
\<close>

section \<open>States and transitions\<close>

datatype wq_state = Queued | Running | InDoubt | RetryWait | Completed | Failed | Cancelled | Expired | Recovered

fun state_label :: "wq_state \<Rightarrow> string" where
  "state_label Queued = ''queued''"
| "state_label Running = ''running''"
| "state_label InDoubt = ''in_doubt''"
| "state_label RetryWait = ''retry_wait''"
| "state_label Completed = ''completed''"
| "state_label Failed = ''failed''"
| "state_label Cancelled = ''cancelled''"
| "state_label Expired = ''expired''"
| "state_label Recovered = ''recovered''"

definition work_queue_states :: "wq_state list" where
  "work_queue_states = [Queued, Running, InDoubt, RetryWait, Completed, Failed, Cancelled, Expired, Recovered]"

definition work_queue_terminal_states :: "wq_state list" where
  "work_queue_terminal_states = [Completed, Cancelled, Expired]"

definition work_queue_safe_intervention_states :: "wq_state list" where
  "work_queue_safe_intervention_states = [Queued, RetryWait, Failed, Recovered, Completed, Cancelled, Expired]"

text \<open>\<open>None\<close> as a source state is the absence of a job.\<close>

record wq_transition =
  wt_from :: "wq_state option list"
  wt_to :: "wq_state list"
  wt_leaseBound :: bool
  wt_fallback :: bool

definition from_none :: "wq_state list \<Rightarrow> wq_transition" where
  "from_none to' = \<lparr>wt_from = [None], wt_to = to', wt_leaseBound = False, wt_fallback = False\<rparr>"

definition plain_transition :: "wq_state list \<Rightarrow> wq_state list \<Rightarrow> wq_transition" where
  "plain_transition from' to' = \<lparr>wt_from = map Some from', wt_to = to', wt_leaseBound = False, wt_fallback = False\<rparr>"

definition lease_transition :: "wq_state list \<Rightarrow> wq_state list \<Rightarrow> wq_transition" where
  "lease_transition from' to' = (plain_transition from' to')\<lparr>wt_leaseBound := True\<rparr>"

definition fallback_transition :: "wq_state list \<Rightarrow> wq_state list \<Rightarrow> wq_transition" where
  "fallback_transition from' to' = (plain_transition from' to')\<lparr>wt_fallback := True\<rparr>"

definition work_queue_transitions :: "(string \<times> wq_transition) list" where
  "work_queue_transitions =
    [(''enqueue'', from_none [Queued, RetryWait]),
     (''retention_snapshot'', from_none work_queue_states),
     (''claim'', plain_transition [Queued, Recovered] [Running]),
     (''progress'', lease_transition [Running] [Running]),
     (''interrupt'', lease_transition [Running] [InDoubt]),
     (''termination_acknowledged'', lease_transition [InDoubt] [Queued, RetryWait, Failed, Completed]),
     (''complete'', lease_transition [Running] [Completed]),
     (''retry'', lease_transition [Running] [Queued, RetryWait, Failed]),
     (''fail'', plain_transition [Queued, RetryWait, Running, InDoubt, Recovered] [Failed]),
     (''recover'', plain_transition [Failed] [Recovered]),
     (''lease_expired'', fallback_transition [Running] [InDoubt]),
     (''delay_matured'', fallback_transition [RetryWait] [Queued]),
     (''cancel_running'', lease_transition [Running] [Cancelled]),
     (''cancel'', plain_transition [Queued, RetryWait, Running, InDoubt, Recovered] [Cancelled]),
     (''expire'', plain_transition [Queued, RetryWait, Running, InDoubt, Recovered] [Expired]),
     (''requeue_recovered'', plain_transition [Recovered] [Queued, RetryWait, Failed, Cancelled])]"

section \<open>Legality\<close>

definition parse_state :: "jsval \<Rightarrow> wq_state option" where
  "parse_state v = find (\<lambda>s. v = JStr (state_label s)) work_queue_states"

definition isWorkQueueState :: "jsval \<Rightarrow> bool" where
  "isWorkQueueState v = (parse_state v \<noteq> None)"

definition is_terminal :: "wq_state \<Rightarrow> bool" where
  "is_terminal s = (s \<in> set work_queue_terminal_states)"

definition isTerminalWorkQueueState :: "jsval \<Rightarrow> bool" where
  "isTerminalWorkQueueState v = (case parse_state v of None \<Rightarrow> False | Some s \<Rightarrow> is_terminal s)"

definition isSafeInterventionState :: "jsval \<Rightarrow> bool" where
  "isSafeInterventionState v =
     (case parse_state v of None \<Rightarrow> False | Some s \<Rightarrow> s \<in> set work_queue_safe_intervention_states)"

definition getWorkQueueTransition :: "jsval \<Rightarrow> wq_transition option" where
  "getWorkQueueTransition v = map_of work_queue_transitions (js_string (js_or v (JStr [])))"

text \<open>The source state: absent, a state, or a value that is neither.\<close>

definition normalizedFromState :: "jsval \<Rightarrow> wq_state option option" where
  "normalizedFromState v =
     (if v = JNull \<or> v = JUndef then Some None
      else case parse_state v of Some s \<Rightarrow> Some (Some s) | None \<Rightarrow> None)"

definition getAllowedTargetStates :: "jsval \<Rightarrow> jsval \<Rightarrow> wq_state list" where
  "getAllowedTargetStates transition fromState =
     (case (getWorkQueueTransition transition, normalizedFromState fromState) of
        (Some t, Some f) \<Rightarrow> if f \<in> set (wt_from t) then wt_to t else []
      | _ \<Rightarrow> [])"

definition isLegalWorkQueueTransition :: "jsval \<Rightarrow> jsval \<Rightarrow> jsval \<Rightarrow> bool" where
  "isLegalWorkQueueTransition transition fromState toState =
     (case parse_state toState of
        None \<Rightarrow> False
      | Some t \<Rightarrow> t \<in> set (getAllowedTargetStates transition fromState))"

definition msg_illegal_wq :: "jsval \<Rightarrow> jsval \<Rightarrow> jsval \<Rightarrow> string" where
  "msg_illegal_wq t f g = ''Illegal work queue transition: '' @ js_string t @ '' ''
     @ (if f = JNull \<or> f = JUndef then ''none'' else js_string f) @ '' -> '' @ js_string g"

definition assertLegalWorkQueueTransition :: "jsval \<Rightarrow> jsval \<Rightarrow> jsval \<Rightarrow> string option" where
  "assertLegalWorkQueueTransition transition fromState toState =
     check (isLegalWorkQueueTransition transition fromState toState) (msg_illegal_wq transition fromState toState)"

section \<open>The matrix and the self checks\<close>

record wq_cell =
  wc_fromState :: wq_state
  wc_transition :: string
  wc_legal :: bool
  wc_toStates :: "wq_state list"

definition state_value :: "wq_state \<Rightarrow> jsval" where
  "state_value s = JStr (state_label s)"

definition buildWorkQueueTransitionMatrix :: "wq_cell list" where
  "buildWorkQueueTransitionMatrix = concat (map (\<lambda>s. map (\<lambda>t.
     let targets = getAllowedTargetStates (JStr t) (state_value s)
     in \<lparr>wc_fromState = s, wc_transition = t, wc_legal = (length targets > 0), wc_toStates = targets\<rparr>)
     (map fst work_queue_transitions)) work_queue_states)"

definition matrix_key :: "wq_state \<Rightarrow> string \<Rightarrow> string" where
  "matrix_key s t = state_label s @ '':'' @ t"

definition msg_if :: "bool \<Rightarrow> string \<Rightarrow> string list" where
  "msg_if b m = (if b then [m] else [])"

definition verifyWorkQueueStateMachineProof :: "string list" where
  "verifyWorkQueueStateMachineProof =
     (let events = map fst work_queue_transitions;
          matrix = buildWorkQueueTransitionMatrix;
          keys = map (\<lambda>c. matrix_key (wc_fromState c) (wc_transition c)) matrix
      in concat (map (\<lambda>s. concat (map (\<lambda>e. msg_if (matrix_key s e \<notin> set keys)
             (''Missing state machine matrix cell: '' @ state_label s @ '' x '' @ e)) events)) work_queue_states)
         @ concat (map (\<lambda>s. msg_if (filter (\<lambda>c. wc_fromState c = s \<and> wc_legal c) matrix \<noteq> [])
             (''Terminal state has legal exits: '' @ state_label s)) work_queue_terminal_states)
         @ concat (map (\<lambda>s. msg_if (filter (\<lambda>c. wc_fromState c = s \<and> wc_legal c) matrix = [])
             (''Non-terminal state has no legal outgoing transitions: '' @ state_label s))
             (filter (\<lambda>s. \<not> isTerminalWorkQueueState (state_value s)) work_queue_states))
         @ concat (map (\<lambda>c. msg_if (\<not> wc_legal c \<and> length (wc_toStates c) \<noteq> 0)
               (''Illegal matrix cell exposes target states: '' @ state_label (wc_fromState c) @ '' x '' @ wc_transition c)
             @ List.map_filter (\<lambda>t. assertLegalWorkQueueTransition (JStr (wc_transition c)) (state_value (wc_fromState c)) (state_value t))
                 (wc_toStates c)) matrix))"

definition verifyWorkQueueStateMachine :: "string list" where
  "verifyWorkQueueStateMachine =
     concat (map (\<lambda>s. msg_if (s \<notin> set work_queue_states) (''Unknown terminal state: '' @ state_label s)) work_queue_terminal_states)
     @ concat (map (\<lambda>s. msg_if (s \<notin> set work_queue_states) (''Unknown safe intervention state: '' @ state_label s))
         work_queue_safe_intervention_states)
     @ concat (map (\<lambda>(name, d).
         msg_if (wt_from d = []) (''Transition '' @ name @ '' has no from states.'')
         @ msg_if (wt_to d = []) (''Transition '' @ name @ '' has no target states.'')
         @ concat (map (\<lambda>f. case f of None \<Rightarrow> []
             | Some s \<Rightarrow> msg_if (s \<notin> set work_queue_states) (''Transition '' @ name @ '' has unknown from state '' @ state_label s @ ''.'')
                 @ msg_if (is_terminal s) (''Transition '' @ name @ '' leaves terminal state '' @ state_label s @ ''.'')) (wt_from d))
         @ concat (map (\<lambda>t. msg_if (t \<notin> set work_queue_states)
             (''Transition '' @ name @ '' has unknown target state '' @ state_label t @ ''.'')) (wt_to d)))
         work_queue_transitions)"

section \<open>The step relation\<close>

text \<open>A job state is absent or one of the nine states; the labels are the transition names.\<close>

inductive wq_step :: "wq_state option \<Rightarrow> string \<Rightarrow> wq_state option \<Rightarrow> bool" where
  "map_of work_queue_transitions e = Some t \<Longrightarrow> f \<in> set (wt_from t) \<Longrightarrow> g \<in> set (wt_to t) \<Longrightarrow> wq_step f e (Some g)"

inductive_cases wq_stepE: "wq_step f e g"

inductive_simps wq_step_iff: "wq_step f e g"

definition job_value :: "wq_state option \<Rightarrow> jsval" where
  "job_value f = (case f of None \<Rightarrow> JNull | Some s \<Rightarrow> state_value s)"

lemma work_queue_states_all: "s \<in> set work_queue_states"
  by (cases s) (simp_all add: work_queue_states_def)

lemma state_label_inj: "state_label s = state_label t \<longleftrightarrow> s = t"
  by (cases s; cases t) simp_all

lemma find_label: "find (\<lambda>s. state_label t = state_label s) work_queue_states = Some t"
  by (cases t) (simp_all add: work_queue_states_def)

lemma parse_state_value [simp]: "parse_state (state_value t) = Some t"
  using find_label by (simp add: parse_state_def state_value_def)

lemma normalized_job_value [simp]: "normalizedFromState (job_value f) = Some f"
  by (cases f) (simp_all add: normalizedFromState_def job_value_def, simp add: state_value_def)

lemma transition_lookup: "getWorkQueueTransition (JStr e) = map_of work_queue_transitions e"
  by (simp add: getWorkQueueTransition_def js_or_def)

lemma legal_iff_step:
  "isLegalWorkQueueTransition (JStr e) (job_value f) (state_value g) \<longleftrightarrow> wq_step f e (Some g)"
  by (cases "map_of work_queue_transitions e")
    (auto simp: isLegalWorkQueueTransition_def getAllowedTargetStates_def transition_lookup wq_step_iff)

text \<open>The table read by source state.\<close>

definition exits :: "wq_state option \<Rightarrow> (string \<times> wq_state) list" where
  "exits f = concat (map (\<lambda>(e, t). if f \<in> set (wt_from t) then map (\<lambda>g. (e, g)) (wt_to t) else []) work_queue_transitions)"

lemma transitions_distinct: "distinct (map fst work_queue_transitions)"
  by (simp add: work_queue_transitions_def)

lemma step_iff_exit: "wq_step f e (Some g) \<longleftrightarrow> (e, g) \<in> set (exits f)"
proof -
  have "wq_step f e (Some g) \<longleftrightarrow> (\<exists>t. (e, t) \<in> set work_queue_transitions \<and> f \<in> set (wt_from t) \<and> g \<in> set (wt_to t))"
    using map_of_eq_Some_iff [OF transitions_distinct] by (auto simp: wq_step_iff)
  then show ?thesis by (force simp: exits_def)
qed

lemma step_target_Some: "wq_step f e g \<Longrightarrow> \<exists>s. g = Some s"
  by (auto elim: wq_stepE)

lemma exits_terminal_all: "\<forall>s \<in> set work_queue_terminal_states. exits (Some s) = []"
  by code_simp

lemma exits_terminal: "is_terminal s \<Longrightarrow> exits (Some s) = []"
  using exits_terminal_all by (simp add: is_terminal_def)

lemma exits_in_doubt: "exits (Some InDoubt) =
    [(''termination_acknowledged'', Queued), (''termination_acknowledged'', RetryWait),
     (''termination_acknowledged'', Failed), (''termination_acknowledged'', Completed),
     (''fail'', Failed), (''cancel'', Cancelled), (''expire'', Expired)]"
  by code_simp

lemma entries_running: "\<forall>s \<in> set work_queue_states. \<forall>(e, g) \<in> set (exits (Some s)).
    g = Running \<longrightarrow> e = ''claim'' \<and> s \<in> {Queued, Recovered} \<or> e = ''progress'' \<and> s = Running"
  by code_simp

lemma no_step_terminal: "is_terminal s \<Longrightarrow> \<not> wq_step (Some s) e g"
  using exits_terminal step_iff_exit step_target_Some by fastforce

text \<open>Without an acknowledgement, a failure or an end, a job in doubt stays in doubt.\<close>

definition quarantine_breaker :: "string \<Rightarrow> bool" where
  "quarantine_breaker e \<longleftrightarrow> e \<in> {''termination_acknowledged'', ''fail''}"

interpretation quarantine: safe_system "\<lambda>s. s = Some InDoubt" "\<lambda>s e t. wq_step s e t \<and> \<not> quarantine_breaker e"
    "\<lambda>s. s \<in> {Some InDoubt, Some Cancelled, Some Expired}"
proof unfold_locales
  fix s e t
  assume s: "s \<in> {Some InDoubt, Some Cancelled, Some Expired}" and st: "wq_step s e t \<and> \<not> quarantine_breaker e"
  then obtain g where g: "t = Some g" using step_target_Some by blast
  have "is_terminal Cancelled" "is_terminal Expired" by (simp_all add: is_terminal_def work_queue_terminal_states_def)
  with s st no_step_terminal have "s = Some InDoubt" by auto
  with st g have "(e, g) \<in> set (exits (Some InDoubt))" by (simp add: step_iff_exit)
  with st g show "t \<in> {Some InDoubt, Some Cancelled, Some Expired}" by (auto simp: exits_in_doubt quarantine_breaker_def)
qed simp

lemma runs_filter_events:
  "runs step s es t \<Longrightarrow> \<forall>e \<in> set es. \<not> P e \<Longrightarrow> runs (\<lambda>s e t. step s e t \<and> \<not> P e) s es t"
  by (induction es arbitrary: s) auto

text \<open>A way to an end for every state.\<close>

fun way_out :: "wq_state \<Rightarrow> string list" where
  "way_out Failed = [''recover'', ''cancel'']"
| "way_out s = (if is_terminal s then [] else [''cancel''])"

fun way_out_end :: "wq_state \<Rightarrow> wq_state" where
  "way_out_end s = (if is_terminal s then s else Cancelled)"

lemma cancel_exits: "\<forall>s \<in> set [Queued, Running, InDoubt, RetryWait, Recovered]. (''cancel'', Cancelled) \<in> set (exits (Some s))"
  by code_simp

lemma recover_exit: "(''recover'', Recovered) \<in> set (exits (Some Failed))"
  by code_simp

lemma terminal_simps: "\<not> is_terminal Queued" "\<not> is_terminal Running" "\<not> is_terminal InDoubt" "\<not> is_terminal RetryWait"
    "\<not> is_terminal Failed" "\<not> is_terminal Recovered" "is_terminal Completed" "is_terminal Cancelled" "is_terminal Expired"
  by (simp_all add: is_terminal_def work_queue_terminal_states_def)

lemma way_out_runs: "runs wq_step (Some s) (way_out s) (Some (way_out_end s))"
proof (cases "s = Failed")
  case True
  have "wq_step (Some Failed) ''recover'' (Some Recovered)" using recover_exit by (simp add: step_iff_exit)
  moreover have "wq_step (Some Recovered) ''cancel'' (Some Cancelled)" using cancel_exits by (simp add: step_iff_exit)
  ultimately show ?thesis using True by (simp add: terminal_simps) blast
next
  case False
  then show ?thesis using cancel_exits by (cases s) (simp_all add: terminal_simps step_iff_exit)
qed

text \<open>The cells of the matrix.\<close>

definition matrix_cell :: "wq_state \<Rightarrow> string \<Rightarrow> wq_cell" where
  "matrix_cell s t = (let targets = getAllowedTargetStates (JStr t) (state_value s)
     in \<lparr>wc_fromState = s, wc_transition = t, wc_legal = (length targets > 0), wc_toStates = targets\<rparr>)"

lemma matrix_cells: "set buildWorkQueueTransitionMatrix =
    {matrix_cell s e | s e. e \<in> fst ` set work_queue_transitions}"
  by (auto simp: buildWorkQueueTransitionMatrix_def matrix_cell_def work_queue_states_all image_iff)

lemma allowed_targets: "g \<in> set (getAllowedTargetStates (JStr e) (state_value s)) \<longleftrightarrow> wq_step (Some s) e (Some g)"
  using legal_iff_step [of e "Some s" g] by (simp add: isLegalWorkQueueTransition_def job_value_def)

lemma matrix_cell_sel: "wc_fromState (matrix_cell s e) = s" "wc_transition (matrix_cell s e) = e"
    "wc_toStates (matrix_cell s e) = getAllowedTargetStates (JStr e) (state_value s)"
    "wc_legal (matrix_cell s e) \<longleftrightarrow> wc_toStates (matrix_cell s e) \<noteq> []"
  by (simp_all add: matrix_cell_def Let_def)

lemma matrix_cell_legal: "wc_legal (matrix_cell s e) \<longleftrightarrow> (\<exists>g. wq_step (Some s) e (Some g))"
  unfolding matrix_cell_sel using allowed_targets [of _ e s]
  by (cases "getAllowedTargetStates (JStr e) (state_value s)") (auto simp: all_not_in_conv)

lemma step_event: "wq_step f e g \<Longrightarrow> e \<in> fst ` set work_queue_transitions"
  by (auto elim!: wq_stepE dest: map_of_SomeD simp: image_iff) (metis fst_conv map_of_SomeD)

lemma proof_check_passes: "verifyWorkQueueStateMachineProof = []"
proof -
  have keys: "matrix_key s e \<in> (\<lambda>c. matrix_key (wc_fromState c) (wc_transition c)) ` set buildWorkQueueTransitionMatrix"
    if "e \<in> fst ` set work_queue_transitions" for s e
    using that unfolding matrix_cells by (intro image_eqI [of _ _ "matrix_cell s e"]) (auto simp: matrix_cell_sel)
  have final: "filter (\<lambda>c. wc_fromState c = s \<and> wc_legal c) buildWorkQueueTransitionMatrix = []" if "is_terminal s" for s
    unfolding filter_empty_conv matrix_cells using that no_step_terminal by (auto simp: matrix_cell_sel(1) matrix_cell_legal)
  have open_end: "filter (\<lambda>c. wc_fromState c = s \<and> wc_legal c) buildWorkQueueTransitionMatrix \<noteq> []" if "\<not> is_terminal s" for s
  proof -
    from that have "way_out s \<noteq> []" by (cases s) simp_all
    with way_out_runs [of s] obtain e t where "wq_step (Some s) e t" by (cases "way_out s") auto
    with step_target_Some obtain g where st: "wq_step (Some s) e (Some g)" by blast
    then have "matrix_cell s e \<in> set buildWorkQueueTransitionMatrix" using step_event unfolding matrix_cells by blast
    with st show ?thesis by (auto simp: filter_empty_conv matrix_cell_sel(1) matrix_cell_legal intro!: bexI [of _ "matrix_cell s e"])
  qed
  have legal: "assertLegalWorkQueueTransition (JStr (wc_transition c)) (state_value (wc_fromState c)) (state_value t) = None"
    if "c \<in> set buildWorkQueueTransitionMatrix" "t \<in> set (wc_toStates c)" for c t
  proof -
    from that obtain s e where c: "c = matrix_cell s e" unfolding matrix_cells by blast
    with that have "wq_step (Some s) e (Some t)" by (simp add: matrix_cell_sel(3) allowed_targets)
    then show ?thesis using legal_iff_step [of e "Some s" t]
      by (simp add: c matrix_cell_sel assertLegalWorkQueueTransition_def job_value_def)
  qed
  have empty: "wc_legal c \<or> wc_toStates c = []" if "c \<in> set buildWorkQueueTransitionMatrix" for c
    using that unfolding matrix_cells by (auto simp: matrix_cell_sel(4))
  have tmn: "isTerminalWorkQueueState (state_value s) = is_terminal s" for s by (simp add: isTerminalWorkQueueState_def)
  have mf: "List.map_filter f xs = [] \<longleftrightarrow> (\<forall>x \<in> set xs. f x = None)" for f :: "wq_state \<Rightarrow> string option" and xs
    by (auto simp: List.map_filter_def filter_empty_conv)
  have msg: "msg_if b m = [] \<longleftrightarrow> \<not> b" for b m by (simp add: msg_if_def)
  have terms: "s \<in> set work_queue_terminal_states \<longleftrightarrow> is_terminal s" for s by (simp add: is_terminal_def)
  show ?thesis
    unfolding verifyWorkQueueStateMachineProof_def Let_def append_is_Nil_conv concat_eq_Nil_conv set_map ball_simps msg tmn mf
    using keys final open_end legal empty by (auto simp: terms)
qed

section \<open>Properties\<close>

text \<open>The legality test the stores use accepts exactly the steps of the transition table, for a job that
  exists and for one that does not, and the throwing variant throws exactly on the others; a target
  that is not a state is always refused.\<close>

lemma legality_test_exact:
  "(isLegalWorkQueueTransition (JStr e) (job_value f) (state_value g) \<longleftrightarrow> wq_step f e (Some g))
   \<and> (assertLegalWorkQueueTransition (JStr e) (job_value f) (state_value g) = None \<longleftrightarrow> wq_step f e (Some g))
   \<and> \<not> (isLegalWorkQueueTransition (JStr e) (job_value f) v \<and> \<not> isWorkQueueState v)"
proof (intro conjI)
  show "\<not> (isLegalWorkQueueTransition (JStr e) (job_value f) v \<and> \<not> isWorkQueueState v)"
    by (cases "parse_state v") (simp_all add: isWorkQueueState_def isLegalWorkQueueTransition_def)
qed (simp_all only: legal_iff_step assertLegalWorkQueueTransition_def check_None_iff)

text \<open>Both self checks of the work queue machine report no error.\<close>

lemma work_queue_self_checks_pass:
  "verifyWorkQueueStateMachine = [] \<and> verifyWorkQueueStateMachineProof = []"
proof
  show "verifyWorkQueueStateMachine = []" by code_simp
qed (rule proof_check_passes)

text \<open>Terminal states are final: no run leaves completed, cancelled or expired.\<close>

lemma terminal_states_final:
  assumes "is_terminal s" and "runs wq_step (Some s) es t"
  shows "es = [] \<and> t = Some s"
  using assms no_step_terminal by (cases es) auto

theorem terminal_states_final_witness: "[] = ([] :: string list) \<and> Some Expired = Some Expired"
  using terminal_states_final [of Expired "[]" "Some Expired"] terminal_simps by simp

text \<open>A job whose attempt is in doubt runs again only after its termination was acknowledged or it was
  explicitly failed: a lease that merely expires can never lead to a second concurrent execution.\<close>

lemma in_doubt_never_reruns_silently:
  assumes "runs wq_step (Some InDoubt) es (Some Running)"
  shows "\<exists>e \<in> set es. quarantine_breaker e"
proof (rule ccontr)
  assume "\<not> (\<exists>e \<in> set es. quarantine_breaker e)"
  with runs_filter_events [OF assms, of quarantine_breaker]
  have "runs (\<lambda>s e t. wq_step s e t \<and> \<not> quarantine_breaker e) (Some InDoubt) es (Some Running)" by blast
  from quarantine.runs_inv [OF _ this] show False by simp
qed

lemma rerun_example: "runs wq_step (Some InDoubt) [''termination_acknowledged'', ''claim''] (Some Running)"
proof -
  have "(''termination_acknowledged'', Queued) \<in> set (exits (Some InDoubt))" "(''claim'', Running) \<in> set (exits (Some Queued))"
    by code_simp+
  then have "wq_step (Some InDoubt) ''termination_acknowledged'' (Some Queued)" "wq_step (Some Queued) ''claim'' (Some Running)"
    by (simp_all add: step_iff_exit)
  then show ?thesis by auto
qed

lemma in_doubt_never_reruns_silently_witness:
  "\<exists>e \<in> set [''termination_acknowledged'', ''claim'']. quarantine_breaker e"
  by (rule in_doubt_never_reruns_silently [OF rerun_example])

text \<open>No state is a dead end: from every state a run of at most two transitions reaches a terminal one.\<close>

lemma every_job_can_end:
  "\<exists>es g. runs wq_step (Some s) es (Some g) \<and> is_terminal g \<and> length es \<le> 2"
proof (intro exI conjI)
  show "runs wq_step (Some s) (way_out s) (Some (way_out_end s))" by (rule way_out_runs)
  show "is_terminal (way_out_end s)" "length (way_out s) \<le> 2" by (cases s; simp add: terminal_simps)+
qed

end
