(* ===== verification/GatewayUtils.thy ===== *)
theory GatewayUtils
  imports Json
begin

text \<open>
  Helpers of the gateway package (\<open>packages/gateway/src/utils.ts\<close>): integer bounds, texts and the
  package's own canonical JSON, which is the printer of theory Json on the same tree as the
  contracts package's canonical JSON.  Identifiers and digests are random or external and are
  parameters where they are used.
\<close>

definition max_safe_integer :: int where
  "max_safe_integer = 9007199254740991"

fun isSafeInteger :: "jsnum \<Rightarrow> bool" where
  "isSafeInteger (Fin i) = (\<bar>i\<bar> \<le> max_safe_integer)"
| "isSafeInteger _ = False"

text \<open>\<open>Number(value)\<close> is \<open>NaN\<close> for a missing value.\<close>

definition boundedInteger :: "jsnum option \<Rightarrow> int \<Rightarrow> int \<Rightarrow> int \<Rightarrow> int" where
  "boundedInteger v fallback minimum maximum =
     (case v of
        Some (Fin i) \<Rightarrow> if isSafeInteger (Fin i) then min maximum (max minimum i) else fallback
      | _ \<Rightarrow> fallback)"

lemma boundedInteger_range:
  "minimum \<le> fallback \<Longrightarrow> fallback \<le> maximum
   \<Longrightarrow> minimum \<le> boundedInteger v fallback minimum maximum \<and> boundedInteger v fallback minimum maximum \<le> maximum"
  by (auto simp: boundedInteger_def split: option.splits jsnum.splits)

definition nonEmptyText :: "jsval \<Rightarrow> string option" where
  "nonEmptyText v = (case v of JStr s \<Rightarrow> if js_trim s = [] then None else Some (js_trim s) | _ \<Rightarrow> None)"

definition optionalText :: "jsval \<Rightarrow> string option" where
  "optionalText v = (case v of JStr s \<Rightarrow> if js_trim s = [] then None else Some (js_trim s) | _ \<Rightarrow> None)"

text \<open>The gateway's canonical JSON of a value, and its digest.\<close>

definition gateway_canonicalJson :: "jsval \<Rightarrow> string" where
  "gateway_canonicalJson v = print (canon v)"

definition gateway_digest :: "(string \<Rightarrow> string) \<Rightarrow> jsval \<Rightarrow> string" where
  "gateway_digest sha256 v = sha256 (gateway_canonicalJson v)"

lemma gateway_digest_canon: "canon v = canon w \<Longrightarrow> gateway_digest sha256 v = gateway_digest sha256 w"
  by (simp add: gateway_digest_def gateway_canonicalJson_def)

lemma gateway_digest_inj: "inj sha256 \<Longrightarrow> gateway_digest sha256 v = gateway_digest sha256 w \<longleftrightarrow> canon v = canon w"
  by (simp add: gateway_digest_def gateway_canonicalJson_def inj_eq print_inj)

end
