(* ===== verification/Admission.thy ===== *)
theory Admission
  imports GatewayUtils JsMap Systems
begin

text \<open>
  Upstream admission control of the gateway (\<open>packages/gateway/src/admission/index.ts\<close>).  The state
  is the controller's map of buckets; the suspended \<open>#execute\<close> activations are the
  frames, so that a counter can be compared with what it counts.  Each method and each
  callback (a task that settles, an abort listener, a deadline timer) is one operation;
  the clock readings it makes are arguments.  A task runs its first synchronous part without
  calling the controller back.
\<close>

section \<open>State\<close>

datatype adm_error = GatewayClosing | Cancelled | QueueFull | DeadlineInvalid | DeadlineExpired | UpstreamCapacity

record waiter =
  w_id :: nat
  w_deadline :: "int option"
  w_aborted :: bool
  w_settled :: bool

record bucket =
  b_active :: nat
  b_completed :: nat
  b_rejected :: nat
  b_queue :: "waiter list"

record admission =
  ad_maxInFlight :: nat
  ad_queueSize :: nat
  ad_defaultDeadline :: "int option"
  ad_maxBuckets :: nat
  ad_buckets :: "(string, bucket) jsmap"
  ad_closed :: bool
  ad_frames :: "(nat \<times> string) list"
  ad_next :: nat

datatype adm_event = Started nat | Enqueued nat | Rejected nat adm_error

definition msg_queue_deadline :: string where
  "msg_queue_deadline = ''The upstream queue deadline must be a positive safe integer.''"

definition new_admission :: "jsnum option \<Rightarrow> jsnum option \<Rightarrow> jsnum option \<Rightarrow> jsnum option \<Rightarrow> string + admission" where
  "new_admission maxInFlight queueSize deadline maxBuckets =
     (if (case deadline of None \<Rightarrow> False | Some d \<Rightarrow> \<not> isSafeInteger d \<or> (case d of Fin i \<Rightarrow> i < 1 | _ \<Rightarrow> False))
      then Inl msg_queue_deadline
      else Inr
     \<lparr>ad_maxInFlight = nat (boundedInteger maxInFlight 32 1 65536),
      ad_queueSize = nat (boundedInteger queueSize 128 0 1000000),
      ad_defaultDeadline = (case deadline of Some (Fin i) \<Rightarrow> Some i | _ \<Rightarrow> None),
      ad_maxBuckets = nat (boundedInteger maxBuckets 2048 1 65536),
      ad_buckets = [], ad_closed = False, ad_frames = [], ad_next = 0\<rparr>)"

definition normalize_key :: "string \<Rightarrow> string" where
  "normalize_key key = (if js_trim key = [] then ''default'' else js_trim key)"

definition empty_bucket :: bucket where
  "empty_bucket = \<lparr>b_active = 0, b_completed = 0, b_rejected = 0, b_queue = []\<rparr>"

definition idle :: "bucket \<Rightarrow> bool" where
  "idle b = (b_active b = 0 \<and> b_queue b = [])"

section \<open>Operations\<close>

text \<open>\<open>#bucket\<close>: the bucket of a key, created on demand, evicting the first idle one at the bound.\<close>

definition obtain_bucket :: "admission \<Rightarrow> string \<Rightarrow> adm_error + (string, bucket) jsmap \<times> bucket" where
  "obtain_bucket s k =
     (case map_get (ad_buckets s) k of
        Some b \<Rightarrow> Inr (ad_buckets s, b)
      | None \<Rightarrow>
          if length (ad_buckets s) \<ge> ad_maxBuckets s
          then (case find (\<lambda>p. idle (snd p)) (ad_buckets s) of
                  None \<Rightarrow> Inl UpstreamCapacity
                | Some p \<Rightarrow> Inr (map_set (map_del (ad_buckets s) (fst p)) k empty_bucket, empty_bucket))
          else Inr (map_set (ad_buckets s) k empty_bucket, empty_bucket))"

definition effective_deadline :: "admission \<Rightarrow> jsnum option \<Rightarrow> int \<Rightarrow> jsnum option" where
  "effective_deadline s arg now =
     (case arg of Some d \<Rightarrow> Some d | None \<Rightarrow> map_option (\<lambda>x. Fin (now + x)) (ad_defaultDeadline s))"

fun deadline_time :: "jsnum option \<Rightarrow> int option" where
  "deadline_time (Some (Fin i)) = Some i"
| "deadline_time _ = None"

definition due :: "int option \<Rightarrow> int \<Rightarrow> bool" where
  "due d now = (case d of None \<Rightarrow> False | Some t \<Rightarrow> t \<le> now)"

definition bump_rejected :: "bucket \<Rightarrow> bucket" where
  "bump_rejected b = b\<lparr>b_rejected := Suc (b_rejected b)\<rparr>"

text \<open>What happens once the bucket is at hand: start, refuse or wait.\<close>

definition admit :: "admission \<Rightarrow> nat \<Rightarrow> bucket \<Rightarrow> jsnum option \<Rightarrow> int \<Rightarrow> int \<Rightarrow> int \<Rightarrow> bucket \<times> adm_event list" where
  "admit s i b arg t1 t2 t3 =
     (let d = effective_deadline s arg t1
      in if b_active b < ad_maxInFlight s \<and> b_queue b = []
         then (b\<lparr>b_active := Suc (b_active b)\<rparr>, [Started i])
         else if length (b_queue b) \<ge> ad_queueSize s then (bump_rejected b, [Rejected i QueueFull])
         else if (case d of None \<Rightarrow> False | Some n \<Rightarrow> \<not> isSafeInteger n)
         then (bump_rejected b, [Rejected i DeadlineInvalid])
         else if due (deadline_time d) t2 then (bump_rejected b, [Rejected i DeadlineExpired])
         else if due (deadline_time d) t3 then (bump_rejected b, [Enqueued i, Rejected i DeadlineExpired])
         else (b\<lparr>b_queue := b_queue b @ [\<lparr>w_id = i, w_deadline = deadline_time d, w_aborted = False, w_settled = False\<rparr>]\<rparr>,
               [Enqueued i]))"

definition started_ids :: "adm_event list \<Rightarrow> nat list" where
  "started_ids evs = List.map_filter (\<lambda>e. case e of Started i \<Rightarrow> Some i | _ \<Rightarrow> None) evs"

definition run_call :: "admission \<Rightarrow> string \<Rightarrow> bool \<Rightarrow> jsnum option \<Rightarrow> int \<Rightarrow> int \<Rightarrow> int \<Rightarrow> admission \<times> adm_event list" where
  "run_call s0 key aborted arg t1 t2 t3 =
     (let i = ad_next s0; s = s0\<lparr>ad_next := Suc i\<rparr>; k = normalize_key key
      in if ad_closed s then (s, [Rejected i GatewayClosing])
         else if aborted then (s, [Rejected i Cancelled])
         else case obtain_bucket s k of
                Inl e \<Rightarrow> (s, [Rejected i e])
              | Inr (m, b) \<Rightarrow>
                  (let (b', evs) = admit s i b arg t1 t2 t3
                   in (s\<lparr>ad_buckets := map_set m k b', ad_frames := ad_frames s @ map (\<lambda>j. (j, k)) (started_ids evs)\<rparr>, evs)))"

text \<open>\<open>#pump\<close>: waiters leave the front of the queue while there is capacity.\<close>

fun pump_queue :: "nat \<Rightarrow> int \<Rightarrow> nat \<Rightarrow> nat \<Rightarrow> waiter list \<Rightarrow> nat \<times> nat \<times> waiter list \<times> adm_event list" where
  "pump_queue mx now act rej [] = (act, rej, [], [])"
| "pump_queue mx now act rej (w # ws) =
     (if \<not> act < mx then (act, rej, w # ws, [])
      else if w_settled w then pump_queue mx now act rej ws
      else if w_aborted w
      then (let (a, r, q, evs) = pump_queue mx now act (Suc rej) ws in (a, r, q, Rejected (w_id w) Cancelled # evs))
      else if due (w_deadline w) now
      then (let (a, r, q, evs) = pump_queue mx now act (Suc rej) ws in (a, r, q, Rejected (w_id w) DeadlineExpired # evs))
      else (let (a, r, q, evs) = pump_queue mx now (Suc act) rej ws in (a, r, q, Started (w_id w) # evs)))"

definition pump :: "nat \<Rightarrow> int \<Rightarrow> bucket \<Rightarrow> bucket \<times> adm_event list" where
  "pump mx now b =
     (let (a, r, q, evs) = pump_queue mx now (b_active b) (b_rejected b) (b_queue b)
      in (b\<lparr>b_active := a, b_rejected := r, b_queue := q\<rparr>, evs))"

text \<open>The \<open>finally\<close> of \<open>#execute\<close> when the task of a frame settles.\<close>

definition finish :: "admission \<Rightarrow> nat \<Rightarrow> bool \<Rightarrow> int \<Rightarrow> admission \<times> adm_event list" where
  "finish s i ok now =
     (case map_of (ad_frames s) i of
        None \<Rightarrow> (s, [])
      | Some k \<Rightarrow>
          (case map_get (ad_buckets s) k of
             None \<Rightarrow> (s, [])
           | Some b \<Rightarrow>
               (let b1 = b\<lparr>b_active := b_active b - 1, b_completed := b_completed b + (if ok then 1 else 0)\<rparr>;
                    (b2, evs) = (if ad_closed s then (b1, []) else pump (ad_maxInFlight s) now b1)
                in (s\<lparr>ad_frames := filter (\<lambda>f. fst f \<noteq> i) (ad_frames s) @ map (\<lambda>j. (j, k)) (started_ids evs),
                      ad_buckets := (if ad_closed s \<and> b_active b2 = 0 then map_del (ad_buckets s) k
                                     else map_set (ad_buckets s) k b2)\<rparr>, evs))))"

text \<open>A signal becomes aborted before its listeners run.\<close>

definition mark_aborted :: "nat \<Rightarrow> bucket \<Rightarrow> bucket" where
  "mark_aborted i b = b\<lparr>b_queue := map (\<lambda>w. if w_id w = i then w\<lparr>w_aborted := True\<rparr> else w) (b_queue b)\<rparr>"

definition waiting :: "nat \<Rightarrow> bucket \<Rightarrow> bool" where
  "waiting i b = (\<exists>w \<in> set (b_queue b). w_id w = i \<and> \<not> w_settled w)"

text \<open>\<open>rejectWaiter\<close> on the bucket that holds the waiter.\<close>

definition reject_waiter :: "nat \<Rightarrow> bucket \<Rightarrow> bucket" where
  "reject_waiter i b =
     (if waiting i b then bump_rejected (b\<lparr>b_queue := filter (\<lambda>w. w_id w \<noteq> i) (b_queue b)\<rparr>) else b)"

definition map_buckets :: "(bucket \<Rightarrow> bucket) \<Rightarrow> admission \<Rightarrow> admission" where
  "map_buckets f s = s\<lparr>ad_buckets := map (\<lambda>(k, b). (k, f b)) (ad_buckets s)\<rparr>"

definition any_waiting :: "admission \<Rightarrow> nat \<Rightarrow> bool" where
  "any_waiting s i = (\<exists>p \<in> set (ad_buckets s). waiting i (snd p))"

definition abort_signal :: "admission \<Rightarrow> nat \<Rightarrow> admission" where
  "abort_signal s i = map_buckets (mark_aborted i) s"

definition abort_listener :: "admission \<Rightarrow> nat \<Rightarrow> admission \<times> adm_event list" where
  "abort_listener s i = (map_buckets (reject_waiter i) s, if any_waiting s i then [Rejected i Cancelled] else [])"

definition waiter_due :: "admission \<Rightarrow> nat \<Rightarrow> int \<Rightarrow> bool" where
  "waiter_due s i now = (\<exists>p \<in> set (ad_buckets s). \<exists>w \<in> set (b_queue (snd p)). w_id w = i \<and> \<not> w_settled w \<and> due (w_deadline w) now)"

text \<open>The deadline timer rejects when the deadline has passed and is armed again otherwise.\<close>

definition deadline_timer :: "admission \<Rightarrow> nat \<Rightarrow> int \<Rightarrow> admission \<times> adm_event list" where
  "deadline_timer s i now =
     (if waiter_due s i now then (map_buckets (reject_waiter i) s, [Rejected i DeadlineExpired]) else (s, []))"

definition close_controller :: "admission \<Rightarrow> admission \<times> adm_event list" where
  "close_controller s =
     (s\<lparr>ad_closed := True,
        ad_buckets := filter (\<lambda>p. b_active (snd p) \<noteq> 0) (map (\<lambda>(k, b). (k, b\<lparr>b_queue := []\<rparr>)) (ad_buckets s))\<rparr>,
      concat (map (\<lambda>p. map (\<lambda>w. Rejected (w_id w) GatewayClosing) (b_queue (snd p))) (ad_buckets s)))"

datatype adm_op =
    Run string bool "jsnum option" int int int
  | Finish nat bool int
  | AbortSignal nat
  | AbortListener nat
  | DeadlineTimer nat int
  | Close

fun apply_op :: "adm_op \<Rightarrow> admission \<Rightarrow> admission \<times> adm_event list" where
  "apply_op (Run key aborted d t1 t2 t3) s = run_call s key aborted d t1 t2 t3"
| "apply_op (Finish i ok now) s = finish s i ok now"
| "apply_op (AbortSignal i) s = (abort_signal s i, [])"
| "apply_op (AbortListener i) s = abort_listener s i"
| "apply_op (DeadlineTimer i now) s = deadline_timer s i now"
| "apply_op Close s = close_controller s"

record adm_stats =
  as_active :: nat
  as_queued :: nat
  as_buckets :: nat

definition stats :: "admission \<Rightarrow> adm_stats" where
  "stats s = \<lparr>as_active = map_sum b_active (ad_buckets s), as_queued = map_sum (length \<circ> b_queue) (ad_buckets s),
     as_buckets = length (ad_buckets s)\<rparr>"

section \<open>The invariant\<close>

definition bucket_ok :: "admission \<Rightarrow> bucket \<Rightarrow> bool" where
  "bucket_ok s b \<longleftrightarrow> b_active b \<le> ad_maxInFlight s \<and> length (b_queue b) \<le> ad_queueSize s
     \<and> (b_queue b \<noteq> [] \<longrightarrow> b_active b = ad_maxInFlight s)
     \<and> (\<forall>w \<in> set (b_queue b). \<not> w_settled w)
     \<and> (ad_closed s \<longrightarrow> b_queue b = [] \<and> 0 < b_active b)"

definition frames_of :: "admission \<Rightarrow> string \<Rightarrow> nat" where
  "frames_of s k = length (filter (\<lambda>f. snd f = k) (ad_frames s))"

text \<open>The calls that wait, over all buckets.\<close>

definition ids :: "bucket \<Rightarrow> nat multiset" where
  "ids b = mset (map w_id (b_queue b))"

definition waits :: "admission \<Rightarrow> nat multiset" where
  "waits s = map_sum ids (ad_buckets s)"

definition running :: "admission \<Rightarrow> nat multiset" where
  "running s = mset (map fst (ad_frames s))"

definition adm_inv :: "admission \<Rightarrow> bool" where
  "adm_inv s \<longleftrightarrow> 0 < ad_maxInFlight s \<and> 0 < ad_maxBuckets s \<and> wf_map (ad_buckets s)
     \<and> length (ad_buckets s) \<le> ad_maxBuckets s
     \<and> (\<forall>k b. map_of (ad_buckets s) k = Some b \<longrightarrow> bucket_ok s b)
     \<and> (\<forall>k. frames_of s k = (case map_of (ad_buckets s) k of None \<Rightarrow> 0 | Some b \<Rightarrow> b_active b))"

text \<open>Every call is in at most one place: queued once in one bucket, or executing.\<close>

definition placed :: "admission \<Rightarrow> bool" where
  "placed s \<longleftrightarrow> running s + waits s \<subseteq># mset [0..<ad_next s]"

text \<open>The calls an event list decides: started or rejected.\<close>

definition decided_ids :: "adm_event list \<Rightarrow> nat list" where
  "decided_ids evs = List.map_filter (\<lambda>e. case e of Started i \<Rightarrow> Some i | Rejected i _ \<Rightarrow> Some i | Enqueued _ \<Rightarrow> None) evs"

lemma event_ids_simps [simp]:
  "started_ids [] = []" "started_ids (Started i # evs) = i # started_ids evs"
  "started_ids (Rejected i e # evs) = started_ids evs" "started_ids (Enqueued i # evs) = started_ids evs"
  "decided_ids [] = []" "decided_ids (Started i # evs) = i # decided_ids evs"
  "decided_ids (Rejected i e # evs) = i # decided_ids evs" "decided_ids (Enqueued i # evs) = decided_ids evs"
  by (simp_all add: started_ids_def decided_ids_def List.map_filter_def)

lemma started_decided: "mset (started_ids evs) \<subseteq># mset (decided_ids evs)"
proof (induction evs)
  case (Cons e evs)
  then show ?case by (cases e) (auto intro: subset_mset.order_trans)
qed simp

section \<open>Lemmas on the operations of one bucket\<close>

lemma bump_rejected_sel [simp]: "b_active (bump_rejected b) = b_active b" "b_queue (bump_rejected b) = b_queue b"
    "b_completed (bump_rejected b) = b_completed b" "ids (bump_rejected b) = ids b"
  by (simp_all add: bump_rejected_def ids_def)

lemma admit_cases:
  assumes "admit s i b arg t1 t2 t3 = (b', evs)"
  obtains (start) "b_active b < ad_maxInFlight s" "b_queue b = []" "b' = b\<lparr>b_active := Suc (b_active b)\<rparr>" "evs = [Started i]"
    | (refuse) e where "b' = bump_rejected b" "evs = [Rejected i e] \<or> evs = [Enqueued i, Rejected i e]"
    | (wait) w where "\<not> (b_active b < ad_maxInFlight s \<and> b_queue b = [])" "length (b_queue b) < ad_queueSize s"
        "b' = b\<lparr>b_queue := b_queue b @ [w]\<rparr>" "w_id w = i" "\<not> w_settled w" "evs = [Enqueued i]"
proof -
  let ?d = "effective_deadline s arg t1"
  consider "b_active b < ad_maxInFlight s \<and> b_queue b = []"
    | "\<not> (b_active b < ad_maxInFlight s \<and> b_queue b = [])" "length (b_queue b) \<ge> ad_queueSize s"
    | "\<not> (b_active b < ad_maxInFlight s \<and> b_queue b = [])" "length (b_queue b) < ad_queueSize s"
    by linarith
  then show ?thesis
  proof cases
    case 1
    with assms show ?thesis by (intro start) (simp_all add: admit_def Let_def)
  next
    case 2
    with assms show ?thesis by (intro refuse [of QueueFull]) (auto simp: admit_def Let_def)
  next
    case 3
    note c = 3
    show ?thesis
    proof (cases "case ?d of None \<Rightarrow> False | Some n \<Rightarrow> \<not> isSafeInteger n")
      case True
      with c assms show ?thesis by (intro refuse [of DeadlineInvalid]) (auto simp: admit_def Let_def)
    next
      case False
      show ?thesis
      proof (cases "due (deadline_time ?d) t2 \<or> due (deadline_time ?d) t3")
        case True
        with c False assms show ?thesis
          by (intro refuse [of DeadlineExpired]) (auto simp: admit_def Let_def split: if_splits)
      next
        case False
        with c \<open>\<not> (case ?d of None \<Rightarrow> False | Some n \<Rightarrow> \<not> isSafeInteger n)\<close> assms show ?thesis
          by (intro wait [of "\<lparr>w_id = i, w_deadline = deadline_time ?d, w_aborted = False, w_settled = False\<rparr>"])
            (auto simp: admit_def Let_def)
      qed
    qed
  qed
qed

lemma pump_queue_props:
  assumes "pump_queue mx now act rej q = (a, r, q', evs)" and "act \<le> mx" and "\<forall>w \<in> set q. \<not> w_settled w"
  shows "a \<le> mx \<and> (q' \<noteq> [] \<longrightarrow> a = mx) \<and> a = act + length (started_ids evs)
     \<and> (\<exists>d. q = d @ q' \<and> decided_ids evs = map w_id d)"
  using assms
proof (induction mx now act rej q arbitrary: a r q' evs rule: pump_queue.induct)
  case (2 mx now act rej w ws)
  from "2.prems"(3) have ns: "\<not> w_settled w" "\<forall>w \<in> set ws. \<not> w_settled w" by simp_all
  show ?case
  proof (cases "act < mx")
    case False
    with "2.prems" show ?thesis by auto
  next
    case True
    consider "w_aborted w" | "\<not> w_aborted w" "due (w_deadline w) now" | "\<not> w_aborted w" "\<not> due (w_deadline w) now" by blast
    then show ?thesis
    proof cases
      case 1
      obtain a1 r1 q1 e1 where p: "pump_queue mx now act (Suc rej) ws = (a1, r1, q1, e1)" by (metis prod_cases4)
      from "2.IH"(2) [of a1 r1 q1 e1] True ns 1 p "2.prems"(2) obtain d
        where "a1 \<le> mx \<and> (q1 \<noteq> [] \<longrightarrow> a1 = mx) \<and> a1 = act + length (started_ids e1)" "ws = d @ q1" "decided_ids e1 = map w_id d"
        by auto
      with True ns 1 p "2.prems"(1) show ?thesis by (auto intro!: exI [of _ "w # d"])
    next
      case 2
      obtain a1 r1 q1 e1 where p: "pump_queue mx now act (Suc rej) ws = (a1, r1, q1, e1)" by (metis prod_cases4)
      from "2.IH"(3) [of a1 r1 q1 e1] True ns 2 p "2.prems"(2) obtain d
        where "a1 \<le> mx \<and> (q1 \<noteq> [] \<longrightarrow> a1 = mx) \<and> a1 = act + length (started_ids e1)" "ws = d @ q1" "decided_ids e1 = map w_id d"
        by auto
      with True ns 2 p "2.prems"(1) show ?thesis by (auto intro!: exI [of _ "w # d"])
    next
      case 3
      obtain a1 r1 q1 e1 where p: "pump_queue mx now (Suc act) rej ws = (a1, r1, q1, e1)" by (metis prod_cases4)
      from "2.IH"(4) [of a1 r1 q1 e1] True ns 3 p "2.prems"(2) obtain d
        where "a1 \<le> mx \<and> (q1 \<noteq> [] \<longrightarrow> a1 = mx) \<and> a1 = Suc act + length (started_ids e1)" "ws = d @ q1" "decided_ids e1 = map w_id d"
        by auto
      with True ns 3 p "2.prems"(1) show ?thesis by (auto intro!: exI [of _ "w # d"])
    qed
  qed
qed auto

lemma pump_props:
  assumes "pump mx now b = (b', evs)" and "b_active b \<le> mx" and "\<forall>w \<in> set (b_queue b). \<not> w_settled w"
  shows "b_active b' \<le> mx" and "b_queue b' \<noteq> [] \<longrightarrow> b_active b' = mx"
    and "b_active b' = b_active b + length (started_ids evs)"
    and "\<exists>d. b_queue b = d @ b_queue b' \<and> decided_ids evs = map w_id d"
proof -
  obtain a r q e where p: "pump_queue mx now (b_active b) (b_rejected b) (b_queue b) = (a, r, q, e)" by (metis prod_cases4)
  with assms(1) have b': "b' = b\<lparr>b_active := a, b_rejected := r, b_queue := q\<rparr>" "evs = e" by (simp_all add: pump_def)
  from pump_queue_props [OF p assms(2,3)] b'
  show "b_active b' \<le> mx" "b_queue b' \<noteq> [] \<longrightarrow> b_active b' = mx"
    "b_active b' = b_active b + length (started_ids evs)"
    "\<exists>d. b_queue b = d @ b_queue b' \<and> decided_ids evs = map w_id d" by auto
qed

section \<open>Preservation\<close>

lemma bucket_ok_mono:
  assumes "bucket_ok s b" and "ad_maxInFlight s' = ad_maxInFlight s" and "ad_queueSize s' = ad_queueSize s"
    and "ad_closed s' = ad_closed s" and "ad_next s \<le> ad_next s'"
  shows "bucket_ok s' b"
  using assms by (auto simp: bucket_ok_def)

lemma adm_inv_next:
  assumes "adm_inv s" shows "adm_inv (s\<lparr>ad_next := Suc (ad_next s)\<rparr>)"
  using assms by (simp add: adm_inv_def frames_of_def bucket_ok_def)

lemma frames_of_append: "length (filter (\<lambda>f. snd f = j) (fs @ map (\<lambda>i. (i, k)) xs)) =
    length (filter (\<lambda>f. snd f = j) fs) + (if j = k then length xs else 0)"
  by (induction xs) (auto simp: comp_def)

text \<open>Replacing the map and the frames; replacing the bucket of one key and the frames.\<close>

lemma adm_inv_frames:
  assumes inv: "adm_inv s" and m: "wf_map m" "length m \<le> ad_maxBuckets s"
    and ok: "\<And>k b. map_of m k = Some b \<Longrightarrow> bucket_ok s b"
    and fr: "\<And>k. length (filter (\<lambda>f. snd f = k) fs) = (case map_of m k of None \<Rightarrow> 0 | Some b \<Rightarrow> b_active b)"
  shows "adm_inv (s\<lparr>ad_buckets := m, ad_frames := fs\<rparr>)"
proof -
  have same: "bucket_ok (s\<lparr>ad_buckets := m, ad_frames := fs\<rparr>) c \<longleftrightarrow> bucket_ok s c" for c by (simp add: bucket_ok_def)
  from inv m ok fr show ?thesis by (simp add: adm_inv_def same frames_of_def)
qed

lemma adm_inv_put:
  assumes inv: "adm_inv s" and b: "map_of (ad_buckets s) k = Some b" and ok: "bucket_ok s b'"
    and fr: "\<And>j. length (filter (\<lambda>f. snd f = j) fs) = (if j = k then b_active b' else frames_of s j)"
  shows "adm_inv (s\<lparr>ad_buckets := map_set (ad_buckets s) k b', ad_frames := fs\<rparr>)"
proof (rule adm_inv_frames [OF inv])
  show "wf_map (map_set (ad_buckets s) k b')" using inv by (simp add: adm_inv_def)
  show "length (map_set (ad_buckets s) k b') \<le> ad_maxBuckets s" using inv b by (simp add: adm_inv_def length_map_set)
  show "bucket_ok s c" if "map_of (map_set (ad_buckets s) k b') j = Some c" for j c
    using that ok inv by (auto simp: adm_inv_def split: if_splits)
  show "length (filter (\<lambda>f. snd f = j) fs) = (case map_of (map_set (ad_buckets s) k b') j of None \<Rightarrow> 0 | Some b \<Rightarrow> b_active b)" for j
    using fr [of j] inv by (simp add: adm_inv_def)
qed

text \<open>Replacing the whole map, with the same frames.\<close>

lemma adm_inv_buckets:
  assumes inv: "adm_inv s" and m: "wf_map m" "length m \<le> ad_maxBuckets s"
    and ok: "\<And>k b. map_of m k = Some b \<Longrightarrow> bucket_ok (s\<lparr>ad_closed := c\<rparr>) b"
    and act: "\<And>k. (case map_of m k of None \<Rightarrow> 0 | Some b \<Rightarrow> b_active b)
        = (case map_of (ad_buckets s) k of None \<Rightarrow> 0 | Some b \<Rightarrow> b_active b)"
  shows "adm_inv (s\<lparr>ad_buckets := m, ad_closed := c\<rparr>)"
proof -
  let ?s = "s\<lparr>ad_buckets := m, ad_closed := c\<rparr>"
  have same: "bucket_ok ?s b \<longleftrightarrow> bucket_ok (s\<lparr>ad_closed := c\<rparr>) b" for b by (simp add: bucket_ok_def)
  have "frames_of ?s k = frames_of s k" for k by (simp add: frames_of_def)
  with inv act m ok show ?thesis by (simp add: adm_inv_def same)
qed

lemma ids_empty [simp]: "ids empty_bucket = {#}" "b_active empty_bucket = 0" "b_queue empty_bucket = []"
  by (simp_all add: ids_def empty_bucket_def)

lemma idle_ids: "idle b \<Longrightarrow> ids b = {#} \<and> b_active b = 0"
  by (simp add: ids_def idle_def)

lemma obtain_bucket_inv:
  assumes inv: "adm_inv s" and open': "\<not> ad_closed s" and ob: "obtain_bucket s k = Inr (m, b)"
  shows "adm_inv (s\<lparr>ad_buckets := m\<rparr>) \<and> map_of m k = Some b \<and> map_sum ids m = waits s"
proof (cases "map_of (ad_buckets s) k")
  case (Some b0)
  with ob have "m = ad_buckets s" "b = b0" by (simp_all add: obtain_bucket_def)
  with Some inv show ?thesis by (simp add: waits_def)
next
  case None
  have pos: "0 < ad_maxInFlight s" "0 < ad_maxBuckets s" and wf: "wf_map (ad_buckets s)"
    and len: "length (ad_buckets s) \<le> ad_maxBuckets s" using inv by (simp_all add: adm_inv_def)
  have ok0: "bucket_ok (s\<lparr>ad_closed := ad_closed s\<rparr>) empty_bucket" using open' by (simp add: bucket_ok_def)
  have oks: "bucket_ok (s\<lparr>ad_closed := ad_closed s\<rparr>) c" if "map_of (ad_buckets s) j = Some c" for j c
    using inv that by (simp add: adm_inv_def)
  have same: "s\<lparr>ad_buckets := m', ad_closed := ad_closed s\<rparr> = s\<lparr>ad_buckets := m'\<rparr>" for m' by simp
  show ?thesis
  proof (cases "length (ad_buckets s) \<ge> ad_maxBuckets s")
    case False
    with None ob have m: "m = map_set (ad_buckets s) k empty_bucket" "b = empty_bucket"
      by (simp_all add: obtain_bucket_def)
    have "adm_inv (s\<lparr>ad_buckets := m, ad_closed := ad_closed s\<rparr>)"
      by (rule adm_inv_buckets [OF inv]) (use m wf None False ok0 oks in \<open>auto simp: length_map_set split: if_splits\<close>)
    with m None show ?thesis by (simp add: same map_sum_set_new waits_def)
  next
    case True
    with None ob obtain p where p: "find (\<lambda>p. idle (snd p)) (ad_buckets s) = Some p"
        and m: "m = map_set (map_del (ad_buckets s) (fst p)) k empty_bucket" "b = empty_bucket"
      by (auto simp: obtain_bucket_def split: option.splits)
    from find_Some_in [OF p] have "(fst p, snd p) \<in> set (ad_buckets s)" and idle: "idle (snd p)" by simp_all
    with wf have look: "map_of (ad_buckets s) (fst p) = Some (snd p)" by (simp add: wf_map_in_set [symmetric])
    have "length (map_del (ad_buckets s) (fst p)) = length (ad_buckets s) - 1"
      using js_store.size_delete_present [OF wf, of "fst p"] look by simp
    with len pos(2) have short: "length (map_del (ad_buckets s) (fst p)) < ad_maxBuckets s" by linarith
    have "adm_inv (s\<lparr>ad_buckets := m, ad_closed := ad_closed s\<rparr>)"
      by (rule adm_inv_buckets [OF inv])
        (use m wf None look short ok0 oks idle_ids [OF idle] in \<open>auto simp: length_map_set split: if_splits\<close>)
    moreover have "map_sum ids m = waits s"
      using map_sum_del [OF wf look, of ids] idle_ids [OF idle] None m
      by (simp add: map_sum_set_new waits_def)
    ultimately show ?thesis using m by (simp add: same)
  qed
qed

section \<open>The effect of each operation\<close>

text \<open>Accounting: the calls an operation decides and those that wait after it are those that waited
  before and the new ones; and it adds no frame but those of the calls it starts.\<close>

definition accounts :: "admission \<Rightarrow> adm_event list \<Rightarrow> admission \<Rightarrow> bool" where
  "accounts s evs s' \<longleftrightarrow> ad_next s \<le> ad_next s'
     \<and> mset (decided_ids evs) + waits s' = waits s + mset [ad_next s..<ad_next s']
     \<and> running s' \<subseteq># running s + mset (started_ids evs)"

lemma accounts_placed:
  assumes "accounts s evs s'" and "placed s"
  shows "placed s'"
proof -
  from assms(1) have le: "ad_next s \<le> ad_next s'"
    and w: "mset (decided_ids evs) + waits s' = waits s + mset [ad_next s..<ad_next s']"
    and r: "running s' \<subseteq># running s + mset (started_ids evs)" by (simp_all add: accounts_def)
  have "running s' + waits s' \<subseteq># running s + (mset (started_ids evs) + waits s')"
    using r by (simp add: add.assoc [symmetric])
  also have "\<dots> \<subseteq># running s + (mset (decided_ids evs) + waits s')"
    using started_decided by simp
  also have "\<dots> = (running s + waits s) + mset [ad_next s..<ad_next s']" by (simp add: w add.assoc)
  also have "\<dots> \<subseteq># mset [0..<ad_next s] + mset [ad_next s..<ad_next s']"
    using assms(2) by (simp add: placed_def)
  also have "\<dots> = mset ([0..<ad_next s] @ [ad_next s..<ad_next s'])" by (simp only: mset_append)
  also have "[0..<ad_next s] @ [ad_next s..<ad_next s'] = [0..<ad_next s']"
    using upt_add_eq_append [of 0 "ad_next s" "ad_next s' - ad_next s"] le by simp
  finally show ?thesis by (simp add: placed_def)
qed

lemma admit_sound:
  assumes ad: "admit s i b arg t1 t2 t3 = (b', e)" and ok: "bucket_ok s b" and nc: "\<not> ad_closed s"
  shows "bucket_ok s b' \<and> b_active b' = b_active b + length (started_ids e)
    \<and> mset (decided_ids e) + ids b' = ids b + {#i#}"
  using ad
proof (cases rule: admit_cases)
  case start
  with ok show ?thesis by (auto simp: bucket_ok_def ids_def)
next
  case (refuse x)
  with ok show ?thesis by (auto simp: bucket_ok_def)
next
  case (wait w)
  with ok nc show ?thesis by (auto simp: bucket_ok_def ids_def)
qed

lemma run_call_keeps:
  assumes inv0: "adm_inv s0" and run: "run_call s0 key aborted arg t1 t2 t3 = (s', evs)"
  shows "adm_inv s' \<and> accounts s0 evs s'"
proof -
  let ?i = "ad_next s0" and ?k = "normalize_key key"
  define s where "s = s0\<lparr>ad_next := Suc ?i\<rparr>"
  have invs: "adm_inv s" unfolding s_def by (rule adm_inv_next [OF inv0])
  have w: "waits s = waits s0" "running s = running s0" "ad_next s = Suc ?i" "ad_frames s = ad_frames s0"
    by (simp_all add: waits_def running_def s_def)
  have refused: "accounts s0 [Rejected ?i e] s" for e by (simp add: accounts_def w)
  have eq: "(s', evs) = (if ad_closed s then (s, [Rejected ?i GatewayClosing])
         else if aborted then (s, [Rejected ?i Cancelled])
         else case obtain_bucket s ?k of
                Inl e \<Rightarrow> (s, [Rejected ?i e])
              | Inr (m, b) \<Rightarrow>
                  (let (b', evs) = admit s ?i b arg t1 t2 t3
                   in (s\<lparr>ad_buckets := map_set m ?k b', ad_frames := ad_frames s @ map (\<lambda>j. (j, ?k)) (started_ids evs)\<rparr>, evs)))"
    unfolding run [symmetric] run_call_def Let_def s_def by (rule refl)
  show ?thesis
  proof (cases "ad_closed s \<or> aborted")
    case True
    then obtain x where "s' = s" "evs = [Rejected ?i x]" using eq by (auto split: if_splits)
    with refused invs show ?thesis by simp
  next
    case False
    then have nc: "\<not> ad_closed s" "\<not> aborted" by simp_all
    show ?thesis
    proof (cases "obtain_bucket s ?k")
      case (Inl x)
      with eq nc have "s' = s" "evs = [Rejected ?i x]" by simp_all
      with refused invs show ?thesis by simp
    next
      case (Inr p)
      obtain m b where p: "p = (m, b)" by (cases p)
      let ?t = "s\<lparr>ad_buckets := m\<rparr>"
      from obtain_bucket_inv [OF invs nc(1) Inr [unfolded p]]
      have invt: "adm_inv ?t" and bt: "map_of (ad_buckets ?t) ?k = Some b" and wt: "map_sum ids m = waits s" by simp_all
      obtain b' e where ad: "admit s ?i b arg t1 t2 t3 = (b', e)" by fastforce
      define fs where "fs = ad_frames s @ map (\<lambda>j. (j, ?k)) (started_ids e)"
      have s': "s' = ?t\<lparr>ad_buckets := map_set (ad_buckets ?t) ?k b', ad_frames := fs\<rparr>" "evs = e"
        using eq nc Inr p ad by (simp_all add: fs_def)
      have okb: "bucket_ok s b" using invt bt by (simp add: adm_inv_def bucket_ok_def)
      have sound: "bucket_ok s b'" "b_active b' = b_active b + length (started_ids e)"
          "mset (decided_ids e) + ids b' = ids b + {#?i#}"
        using admit_sound [OF ad okb nc(1)] by blast+
      have same: "bucket_ok ?t b' = bucket_ok s b'" by (simp add: bucket_ok_def)
      have "adm_inv s'" unfolding s'
      proof (rule adm_inv_put [OF invt bt])
        show "bucket_ok ?t b'" using sound(1) same by blast
        have "frames_of ?t ?k = b_active b" using invt bt by (simp add: adm_inv_def)
        then show "length (filter (\<lambda>f. snd f = j) fs) = (if j = ?k then b_active b' else frames_of ?t j)" for j
          using sound(2) by (simp add: fs_def frames_of_append frames_of_def)
      qed
      moreover have "mset (decided_ids e) + waits s' + ids b = waits s0 + {#?i#} + ids b"
      proof -
        have "waits s' + ids b = waits s + ids b'"
          using map_sum_set_old [of m ?k b ids b'] bt wt s' by (simp add: waits_def)
        then have "mset (decided_ids e) + waits s' + ids b = waits s + (mset (decided_ids e) + ids b')"
          by (simp add: ac_simps)
        with sound(3) show ?thesis by (simp add: w ac_simps)
      qed
      moreover have "running s' = running s0 + mset (started_ids e)"
        by (simp add: s' running_def fs_def w comp_def)
      ultimately show ?thesis by (simp add: accounts_def s' w del: mset_map)
    qed
  qed
qed

text \<open>The end of an execution.\<close>

lemma placed_frames: "placed s \<Longrightarrow> distinct (map fst (ad_frames s))"
proof -
  assume "placed s"
  then have "mset (map fst (ad_frames s)) \<subseteq># mset [0..<ad_next s]"
    unfolding placed_def running_def by (rule subset_mset.order_trans [OF mset_subset_eq_add_left])
  then have "count (mset (map fst (ad_frames s))) a \<le> count (mset [0..<ad_next s]) a" for a
    by (rule mset_subset_eq_count)
  moreover have "count (mset [0..<ad_next s]) a \<le> 1" for a
    by (simp only: distinct_count_atmost_1 [THEN iffD1, OF distinct_upt, rule_format] split: if_split) simp
  ultimately have le: "count (mset (map fst (ad_frames s))) a \<le> 1" for a by (meson le_trans)
  have "count (mset (map fst (ad_frames s))) a = (if a \<in> set (map fst (ad_frames s)) then 1 else 0)" for a
  proof (cases "a \<in> set (map fst (ad_frames s))")
    case True
    then have "a \<in># mset (map fst (ad_frames s))" by (simp only: set_mset_mset)
    then have "0 < count (mset (map fst (ad_frames s))) a" by (simp only: count_greater_zero_iff)
    with le [of a] have "count (mset (map fst (ad_frames s))) a = 1" by linarith
    with True show ?thesis by (simp only: if_True)
  next
    case False
    then have "a \<notin># mset (map fst (ad_frames s))" by (simp only: set_mset_mset not_False_eq_True)
    then have "count (mset (map fst (ad_frames s))) a = 0" by (simp only: not_in_iff)
    with False show ?thesis by (simp only: if_False)
  qed
  then show ?thesis unfolding distinct_count_atmost_1 by (rule allI)
qed

lemma remove_frame:
  assumes "distinct (map fst fs)" and "map_of fs i = Some k"
  shows "length (filter (\<lambda>f. snd f = j) fs)
    = length (filter (\<lambda>f. snd f = j) (filter (\<lambda>f. fst f \<noteq> i) fs)) + (if j = k then 1 else 0)"
  using assms
proof (induction fs)
  case (Cons f fs)
  show ?case
  proof (cases "fst f = i")
    case True
    with Cons.prems have "i \<notin> fst ` set fs" by auto
    then have "filter (\<lambda>f. fst f \<noteq> i) fs = fs" by (force simp: filter_id_conv)
    with True Cons.prems show ?thesis by auto
  next
    case False
    with Cons show ?thesis by (cases f) auto
  qed
qed simp

lemma finish_keeps:
  assumes inv: "adm_inv s" and pl: "placed s" and fin: "finish s i ok now = (s', evs)"
  shows "adm_inv s' \<and> accounts s evs s'"
proof -
  have none: "accounts s [] s" by (simp add: accounts_def)
  show ?thesis
  proof (cases "map_of (ad_frames s) i")
    case None
    with fin inv none show ?thesis by (simp add: finish_def)
  next
    case (Some k)
    note fr = Some
    show ?thesis
    proof (cases "map_of (ad_buckets s) k")
      case None
      with fr fin inv none show ?thesis by (simp add: finish_def)
    next
      case (Some b)
      let ?fs = "filter (\<lambda>f. fst f \<noteq> i) (ad_frames s)"
      define b1 where "b1 = b\<lparr>b_active := b_active b - 1, b_completed := b_completed b + (if ok then 1 else 0)\<rparr>"
      have okb: "bucket_ok s b" and wf: "wf_map (ad_buckets s)" and len: "length (ad_buckets s) \<le> ad_maxBuckets s"
        and oks: "\<And>j c. map_of (ad_buckets s) j = Some c \<Longrightarrow> bucket_ok s c"
        and frs: "\<And>j. frames_of s j = (case map_of (ad_buckets s) j of None \<Rightarrow> 0 | Some b \<Rightarrow> b_active b)"
        using inv Some by (simp_all add: adm_inv_def)
      note rest = remove_frame [OF placed_frames [OF pl] fr]
      have pos: "0 < b_active b" using rest [of k] frs [of k] Some by (simp add: frames_of_def)
      have run: "mset (map fst ?fs) \<subseteq># running s" by (simp add: running_def image_mset_subseteq_mono multiset_filter_subset)
      show ?thesis
      proof (cases "ad_closed s")
        case True
        have s': "s' = s\<lparr>ad_buckets := (if b_active b1 = 0 then map_del (ad_buckets s) k else map_set (ad_buckets s) k b1),
              ad_frames := ?fs\<rparr>" "evs = []"
          using fin fr Some True by (auto simp: finish_def b1_def Let_def)
        have q: "b_queue b = []" using okb True by (simp add: bucket_ok_def)
        have "adm_inv s'" unfolding s'
        proof (rule adm_inv_frames [OF inv])
          let ?m = "if b_active b1 = 0 then map_del (ad_buckets s) k else map_set (ad_buckets s) k b1"
          show "wf_map ?m" "length ?m \<le> ad_maxBuckets s"
            using wf len Some length_map_del_le [of "ad_buckets s" k] by (auto simp: length_map_set)
          show "bucket_ok s c" if "map_of ?m j = Some c" for j c
            using that oks okb q True by (auto simp: b1_def bucket_ok_def split: if_splits)
          show "length (filter (\<lambda>f. snd f = j) ?fs) = (case map_of ?m j of None \<Rightarrow> 0 | Some b \<Rightarrow> b_active b)" for j
          proof (cases "j = k")
            case True
            with rest [of k] frs [of k] Some have "length (filter (\<lambda>f. snd f = k) ?fs) = b_active b1"
              by (simp add: b1_def frames_of_def)
            with True show ?thesis by simp
          next
            case False
            with rest [of j] frs [of j] show ?thesis by (simp add: frames_of_def)
          qed
        qed
        moreover have "waits s' = waits s"
          using map_sum_set_old [OF Some, of ids b1] map_sum_del [OF wf Some, of ids] q
          by (simp add: s' waits_def ids_def b1_def)
        moreover have "running s' \<subseteq># running s" using run by (simp add: running_def s')
        ultimately show ?thesis by (simp add: accounts_def s')
      next
        case False
        obtain b2 e where p: "pump (ad_maxInFlight s) now b1 = (b2, e)" by fastforce
        define fs where "fs = ?fs @ map (\<lambda>j. (j, k)) (started_ids e)"
        have s': "s' = s\<lparr>ad_buckets := map_set (ad_buckets s) k b2, ad_frames := fs\<rparr>" "evs = e"
          using fin fr Some False p [unfolded b1_def] by (auto simp: finish_def Let_def fs_def simp del: mult_eq_if)
        have "b_active b1 \<le> ad_maxInFlight s" "\<forall>w \<in> set (b_queue b1). \<not> w_settled w" "b_queue b1 = b_queue b"
          using okb by (auto simp: bucket_ok_def b1_def)
        note pp = pump_props [OF p this(1,2), unfolded this(3)]
        from pp(4) obtain d where d: "b_queue b = d @ b_queue b2" "decided_ids e = map w_id d" by blast
        have "adm_inv s'" unfolding s'
        proof (rule adm_inv_put [OF inv Some])
          show "bucket_ok s b2" using pp(1,2) d okb False by (auto simp: bucket_ok_def)
          show "length (filter (\<lambda>f. snd f = j) fs) = (if j = k then b_active b2 else frames_of s j)" for j
            using rest [of j] frs [of j] Some pos pp(3)
            by (cases "j = k") (auto simp: fs_def frames_of_append frames_of_def b1_def)
        qed
        moreover have "mset (decided_ids e) + waits s' + ids b = waits s + ids b"
        proof -
          have "waits s' + ids b = waits s + ids b2" using map_sum_set_old [OF Some, of ids b2] by (simp add: s' waits_def)
          moreover have "ids b = mset (decided_ids e) + ids b2" by (simp add: ids_def d)
          ultimately show ?thesis by (simp add: ac_simps)
        qed
        moreover have "running s' \<subseteq># running s + mset (started_ids e)"
          using run by (simp add: s' running_def fs_def comp_def)
        ultimately show ?thesis by (simp add: accounts_def s' del: mset_map)
      qed
    qed
  qed
qed

text \<open>A change of every bucket that keeps the active counters.\<close>

lemma map_buckets_inv:
  assumes inv: "adm_inv s" and a: "\<And>b. b_active (f b) = b_active b"
    and ok: "\<And>b. bucket_ok s b \<Longrightarrow> bucket_ok s (f b)"
  shows "adm_inv (map_buckets f s)"
proof -
  have "adm_inv (s\<lparr>ad_buckets := map (\<lambda>(k, b). (k, f b)) (ad_buckets s), ad_closed := ad_closed s\<rparr>)"
  proof (rule adm_inv_buckets [OF inv])
    show "bucket_ok (s\<lparr>ad_closed := ad_closed s\<rparr>) b"
      if "map_of (map (\<lambda>(k, b). (k, f b)) (ad_buckets s)) k = Some b" for k b
      using that inv ok by (auto simp: adm_inv_def)
  qed (use inv in \<open>simp_all add: adm_inv_def a split: option.split\<close>)
  moreover have "s\<lparr>ad_buckets := map (\<lambda>(k, b). (k, f b)) (ad_buckets s), ad_closed := ad_closed s\<rparr> = map_buckets f s"
    by (simp add: map_buckets_def)
  ultimately show ?thesis by simp
qed

lemma map_buckets_sel [simp]:
  "ad_frames (map_buckets f s) = ad_frames s" "ad_next (map_buckets f s) = ad_next s"
  "waits (map_buckets f s) = map_sum (ids \<circ> f) (ad_buckets s)"
  by (simp_all add: map_buckets_def waits_def map_sum_map)

lemma unsettled:
  "adm_inv s \<Longrightarrow> (k, b) \<in> set (ad_buckets s) \<Longrightarrow> w \<in> set (b_queue b) \<Longrightarrow> \<not> w_settled w"
  by (auto simp: adm_inv_def bucket_ok_def wf_map_in_set)

lemma in_waits: "i \<in># waits s \<longleftrightarrow> (\<exists>p \<in> set (ad_buckets s). i \<in># ids (snd p))"
  unfolding waits_def map_sum_def by (induction "ad_buckets s") auto

lemma any_waiting_iff:
  assumes "adm_inv s" shows "any_waiting s i \<longleftrightarrow> i \<in># waits s"
proof -
  have "waiting i (snd p) \<longleftrightarrow> i \<in># ids (snd p)" if "p \<in> set (ad_buckets s)" for p
    using unsettled [OF assms, of "fst p" "snd p"] that by (auto simp: waiting_def ids_def)
  then show ?thesis by (simp add: any_waiting_def in_waits)
qed

lemma abort_signal_keeps:
  assumes inv: "adm_inv s" shows "adm_inv (abort_signal s i) \<and> accounts s [] (abort_signal s i)"
proof -
  have "ids (mark_aborted i b) = ids b" for b by (simp add: ids_def mark_aborted_def multiset.map_comp comp_def if_distrib cong: if_cong)
  then have "ids \<circ> mark_aborted i = ids" by (simp add: fun_eq_iff)
  moreover have "adm_inv (abort_signal s i)"
    unfolding abort_signal_def by (rule map_buckets_inv [OF inv]) (auto simp: mark_aborted_def bucket_ok_def)
  ultimately show ?thesis by (simp add: accounts_def abort_signal_def running_def waits_def [symmetric])
qed

lemma map_sum_filter_mset: "map_sum (\<lambda>b. filter_mset P (g b)) m = filter_mset P (map_sum g m)"
  by (induction m) (auto simp: map_sum_def)

lemma reject_waiter_keeps:
  assumes inv: "adm_inv s" and pl: "placed s" and any: "any_waiting s i"
  shows "adm_inv (map_buckets (reject_waiter i) s) \<and> accounts s [Rejected i e] (map_buckets (reject_waiter i) s)"
proof -
  have "ids (reject_waiter i b) = filter_mset (\<lambda>j. j \<noteq> i) (ids b)" if "(k, b) \<in> set (ad_buckets s)" for k b
  proof (cases "waiting i b")
    case True
    then show ?thesis by (simp add: reject_waiter_def ids_def filter_mset_image_mset)
  next
    case False
    with unsettled [OF inv that] have "\<forall>w \<in> set (b_queue b). w_id w \<noteq> i" by (auto simp: waiting_def)
    then have "filter_mset (\<lambda>j. j \<noteq> i) (ids b) = ids b" by (auto simp: ids_def filter_mset_eq_conv)
    with False show ?thesis by (simp add: reject_waiter_def)
  qed
  then have w: "map_sum (ids \<circ> reject_waiter i) (ad_buckets s) = filter_mset (\<lambda>j. j \<noteq> i) (waits s)"
    unfolding waits_def map_sum_filter_mset [symmetric] by (intro map_sum_cong) auto
  have "waits s \<subseteq># mset [0..<ad_next s]"
    using pl unfolding placed_def by (rule subset_mset.order_trans [OF mset_subset_eq_add_right])
  then have "count (waits s) i \<le> count (mset [0..<ad_next s]) i" by (rule mset_subset_eq_count)
  also have "\<dots> \<le> 1" by (simp only: distinct_count_atmost_1 [THEN iffD1, OF distinct_upt, rule_format] split: if_split) simp
  finally have "count (waits s) i = 1"
    using any any_waiting_iff [OF inv, of i] by (metis count_greater_eq_one_iff le_antisym)
  then have "waits s = add_mset i (filter_mset (\<lambda>j. j \<noteq> i) (waits s))" by (auto simp: multiset_eq_iff)
  with w have "add_mset i (map_sum (ids \<circ> reject_waiter i) (ad_buckets s)) = waits s" by simp
  moreover have "adm_inv (map_buckets (reject_waiter i) s)"
    by (rule map_buckets_inv [OF inv])
      (auto simp: reject_waiter_def bucket_ok_def waiting_def le_trans [OF length_filter_le])
  ultimately show ?thesis by (simp add: accounts_def running_def)
qed

lemma due_waiting: "waiter_due s i now \<Longrightarrow> any_waiting s i"
  by (auto simp: waiter_due_def any_waiting_def waiting_def)

lemma close_decided:
  "mset (decided_ids (concat (map (\<lambda>p. map (\<lambda>w. Rejected (w_id w) e) (b_queue (snd p))) m))) = map_sum ids m"
proof -
  have one: "decided_ids (map (\<lambda>w. Rejected (w_id w) e) q) = map w_id q" for q by (induction q) auto
  have app: "decided_ids (xs @ ys) = decided_ids xs @ decided_ids ys" for xs ys
    by (simp add: decided_ids_def List.map_filter_def)
  show ?thesis by (induction m) (simp_all add: map_sum_def app one ids_def)
qed

lemma close_keeps:
  assumes inv: "adm_inv s" and cl: "close_controller s = (s', evs)"
  shows "adm_inv s' \<and> accounts s evs s'"
proof -
  let ?mk = "map (\<lambda>(k, b). (k, b\<lparr>b_queue := []\<rparr>)) (ad_buckets s)"
  let ?m = "filter (\<lambda>p. b_active (snd p) \<noteq> 0) ?mk"
  have s': "s' = s\<lparr>ad_buckets := ?m, ad_closed := True\<rparr>"
    and evs: "evs = concat (map (\<lambda>p. map (\<lambda>w. Rejected (w_id w) GatewayClosing) (b_queue (snd p))) (ad_buckets s))"
    using cl by (auto simp: close_controller_def)
  have wf: "wf_map ?mk" using inv by (simp add: adm_inv_def)
  have look: "map_of ?m k = (case map_of (ad_buckets s) k of None \<Rightarrow> None
      | Some b \<Rightarrow> if b_active b \<noteq> 0 then Some (b\<lparr>b_queue := []\<rparr>) else None)" for k
    using map_of_filter_values [OF wf, of "\<lambda>b. b_active b \<noteq> 0" k] by (auto split: option.split)
  have "adm_inv s'" unfolding s'
  proof (rule adm_inv_buckets [OF inv])
    show "wf_map ?m" by (rule wf_map_filter [OF wf])
    have "length ?m \<le> length (ad_buckets s)" using length_filter_le [of _ ?mk] by (metis length_map)
    also have "\<dots> \<le> ad_maxBuckets s" using inv by (simp add: adm_inv_def)
    finally show "length ?m \<le> ad_maxBuckets s" .
    show "bucket_ok (s\<lparr>ad_closed := True\<rparr>) b" if "map_of ?m k = Some b" for k b
      using that inv unfolding look by (auto simp: adm_inv_def bucket_ok_def split: option.splits if_splits)
    show "(case map_of ?m k of None \<Rightarrow> 0 | Some b \<Rightarrow> b_active b)
        = (case map_of (ad_buckets s) k of None \<Rightarrow> 0 | Some b \<Rightarrow> b_active b)" for k
      unfolding look by (auto split: option.split)
  qed
  moreover have "waits s' = {#}"
  proof -
    have "b_queue (snd p) = []" if "p \<in> set ?m" for p using that by auto
    then have "waits s' = map_sum (\<lambda>_. {#}) ?m" unfolding waits_def s' by (auto intro!: map_sum_cong simp: ids_def)
    then show ?thesis by (simp add: map_sum_def comp_def)
  qed
  ultimately show ?thesis using close_decided [of GatewayClosing "ad_buckets s"]
    by (simp add: accounts_def s' evs running_def waits_def)
qed

section \<open>The controller as a transition system\<close>

definition adm_start :: "admission \<Rightarrow> bool" where
  "adm_start s \<longleftrightarrow> (\<exists>mf qs d mb. new_admission mf qs d mb = Inr s)"

definition adm_step :: "admission \<Rightarrow> adm_op \<times> adm_event list \<Rightarrow> admission \<Rightarrow> bool" where
  "adm_step s l s' \<longleftrightarrow> apply_op (fst l) s = (s', snd l)"

lemma apply_op_keeps:
  assumes inv: "adm_inv s" "placed s" and op: "apply_op op s = (s', evs)"
  shows "adm_inv s' \<and> accounts s evs s'"
proof (cases op)
  case (Run key aborted d t1 t2 t3)
  with op run_call_keeps [OF inv(1)] show ?thesis by simp
next
  case (Finish i ok now)
  with op finish_keeps [OF inv] show ?thesis by simp
next
  case (AbortSignal i)
  with op abort_signal_keeps [OF inv(1)] show ?thesis by auto
next
  case (AbortListener i)
  show ?thesis
  proof (cases "any_waiting s i")
    case True
    with AbortListener op reject_waiter_keeps [OF inv True] show ?thesis by (auto simp: abort_listener_def)
  next
    case False
    then have "\<forall>p \<in> set (ad_buckets s). reject_waiter i (snd p) = snd p"
      by (auto simp: any_waiting_def reject_waiter_def)
    then have "map (\<lambda>(k, b). (k, reject_waiter i b)) (ad_buckets s) = ad_buckets s" by (intro map_idI) auto
    then have "map_buckets (reject_waiter i) s = s" by (simp add: map_buckets_def)
    with False AbortListener op inv show ?thesis by (auto simp: abort_listener_def accounts_def)
  qed
next
  case (DeadlineTimer i now)
  with op inv reject_waiter_keeps [OF inv due_waiting] show ?thesis
    by (auto simp: deadline_timer_def accounts_def split: if_splits)
next
  case Close
  with op close_keeps [OF inv(1)] show ?thesis by simp
qed

interpretation admission: safe_system adm_start adm_step "\<lambda>s. adm_inv s \<and> placed s"
proof unfold_locales
  fix s assume "adm_start s"
  then obtain mf qs d mb where "new_admission mf qs d mb = Inr s" by (auto simp: adm_start_def)
  then show "adm_inv s \<and> placed s"
    using boundedInteger_range [of 1 32 65536 mf] boundedInteger_range [of 1 2048 65536 mb]
    by (auto simp: new_admission_def adm_inv_def placed_def waits_def running_def map_sum_def frames_of_def
        split: if_splits)
next
  fix s l s' assume i: "adm_inv s \<and> placed s" and st: "adm_step s l s'"
  then have "adm_inv s' \<and> accounts s (snd l) s'" using apply_op_keeps [of s "fst l" s' "snd l"] by (simp add: adm_step_def)
  with i accounts_placed show "adm_inv s' \<and> placed s'" by blast
qed

lemma runs_accounts:
  assumes "runs adm_step s ls s'" and "adm_inv s \<and> placed s"
  shows "accounts s (concat (map snd ls)) s'"
  using assms
proof (induction ls arbitrary: s)
  case Nil
  then show ?case by (simp add: accounts_def)
next
  case (Cons l ls)
  then obtain t where st: "adm_step s l t" and r: "runs adm_step t ls s'" by auto
  from st Cons.prems(2) have a: "accounts s (snd l) t" using apply_op_keeps [of s "fst l" t "snd l"] by (simp add: adm_step_def)
  from admission.step_inv [OF Cons.prems(2) st] Cons.IH [OF r] have b: "accounts t (concat (map snd ls)) s'" by simp
  have app: "decided_ids (xs @ ys) = decided_ids xs @ decided_ids ys" "started_ids (xs @ ys) = started_ids xs @ started_ids ys" for xs ys
    by (simp_all add: decided_ids_def started_ids_def List.map_filter_def)
  have upt: "[ad_next s..<ad_next s'] = [ad_next s..<ad_next t] @ [ad_next t..<ad_next s']"
    using a b upt_add_eq_append [of "ad_next s" "ad_next t" "ad_next s' - ad_next t"] by (simp add: accounts_def)
  have "running s' \<subseteq># running t + mset (started_ids (concat (map snd ls)))" using b by (simp add: accounts_def)
  also have "\<dots> \<subseteq># running s + mset (started_ids (snd l)) + mset (started_ids (concat (map snd ls)))"
    using a by (simp add: accounts_def)
  finally have r: "running s' \<subseteq># running s + mset (started_ids (concat (map snd (l # ls))))"
    by (simp add: app add.assoc)
  have "mset (decided_ids (concat (map snd (l # ls)))) + waits s'
      = mset (decided_ids (snd l)) + (mset (decided_ids (concat (map snd ls))) + waits s')" by (simp add: app add.assoc)
  also have "\<dots> = mset (decided_ids (snd l)) + waits t + mset [ad_next t..<ad_next s']"
    using b by (simp add: accounts_def add.assoc)
  also have "\<dots> = waits s + (mset [ad_next s..<ad_next t] + mset [ad_next t..<ad_next s'])"
    using a by (simp add: accounts_def add.assoc)
  also have "\<dots> = waits s + mset [ad_next s..<ad_next s']" by (simp only: upt mset_append)
  finally show ?case using a b r by (simp only: accounts_def) simp
qed

lemma start_facts: "adm_start s \<Longrightarrow> ad_next s = 0 \<and> waits s = {#} \<and> running s = {#}"
  by (auto simp: adm_start_def new_admission_def waits_def running_def map_sum_def split: if_splits)

section \<open>What admission promises\<close>

text \<open>C5. In every reachable state each upstream has at most \<open>maxInFlight\<close> calls in flight, its counter is
  the number of calls that are really executing for it, at most \<open>queueSize\<close> calls wait, and there are at
  most \<open>maxBuckets\<close> upstreams; and no call waits while its upstream has capacity.\<close>

theorem admission_bounds:
  assumes "reach adm_start adm_step s" and "map_get (ad_buckets s) k = Some b"
  shows "b_active b \<le> ad_maxInFlight s \<and> b_active b = length (filter (\<lambda>f. snd f = k) (ad_frames s))
    \<and> length (b_queue b) \<le> ad_queueSize s \<and> length (ad_buckets s) \<le> ad_maxBuckets s
    \<and> (b_queue b \<noteq> [] \<longrightarrow> b_active b = ad_maxInFlight s)"
  using admission.reach_inv [OF assms(1)] assms(2) by (auto simp: adm_inv_def bucket_ok_def frames_of_def)

text \<open>C6. Every call is answered exactly once: along any run of calls, completions, aborts, timers and
  closing, each call made so far has either been decided (started or refused) once, or waits in one
  queue; and the calls that are executing are among those started.\<close>

theorem admission_exactly_once:
  assumes "adm_start s" and "runs adm_step s ls s'"
  shows "mset (decided_ids (concat (map snd ls))) + waits s' = mset [0..<ad_next s']
    \<and> running s' \<subseteq># mset (started_ids (concat (map snd ls)))"
proof -
  have "accounts s (concat (map snd ls)) s'"
    by (rule runs_accounts [OF assms(2) admission.start_inv [OF assms(1)]])
  with start_facts [OF assms(1)] show ?thesis by (simp add: accounts_def)
qed

lemma pump_queue_first:
  assumes "act < mx" and "\<not> w_settled w" "\<not> w_aborted w" "\<not> due (w_deadline w) now"
    and "\<forall>v \<in> set q1. \<not> w_settled v \<and> (w_aborted v \<or> due (w_deadline v) now)"
  shows "\<exists>es. snd (snd (snd (pump_queue mx now act rej (q1 @ w # q2))))
        = map (\<lambda>v. Rejected (w_id v) (if w_aborted v then Cancelled else DeadlineExpired)) q1 @ Started (w_id w) # es"
  using assms(5)
proof (induction q1 arbitrary: rej)
  case Nil
  obtain a r q e where "pump_queue mx now (Suc act) rej q2 = (a, r, q, e)" by (metis prod_cases4)
  with assms(1-4) show ?case by simp
next
  case (Cons v q1)
  obtain a r q e where p: "pump_queue mx now act (Suc rej) (q1 @ w # q2) = (a, r, q, e)" by (metis prod_cases4)
  from Cons.IH [of "Suc rej"] Cons.prems p obtain es
    where "e = map (\<lambda>v. Rejected (w_id v) (if w_aborted v then Cancelled else DeadlineExpired)) q1 @ Started (w_id w) # es"
    by auto
  with Cons.prems p assms(1) show ?case by (cases "w_aborted v") simp_all
qed

lemma finish_events:
  assumes "map_of (ad_frames s) i = Some k" and "map_get (ad_buckets s) k = Some b" and "\<not> ad_closed s"
  shows "snd (finish s i ok now) = snd (snd (snd (pump_queue (ad_maxInFlight s) now (b_active b - 1) (b_rejected b) (b_queue b))))"
proof -
  obtain a r q e where "pump_queue (ad_maxInFlight s) now (b_active b - 1) (b_rejected b) (b_queue b) = (a, r, q, e)"
    by (metis prod_cases4)
  with assms show ?thesis by (simp add: finish_def pump_def Let_def)
qed

text \<open>Completion is fair and live: when a call of an upstream ends while the controller is open, the
  first waiter that is neither aborted nor past its deadline starts, after all waiters ahead of it were
  refused, in their order.\<close>

lemma admission_first_waiter_starts:
  assumes "reach adm_start adm_step s" and "map_of (ad_frames s) i = Some k"
    and "map_get (ad_buckets s) k = Some b" and "\<not> ad_closed s" and "b_queue b = q1 @ w # q2"
    and "\<forall>v \<in> set q1. w_aborted v \<or> due (w_deadline v) now" and "\<not> w_aborted w" and "\<not> due (w_deadline w) now"
  shows "\<exists>es. snd (finish s i ok now)
      = map (\<lambda>v. Rejected (w_id v) (if w_aborted v then Cancelled else DeadlineExpired)) q1 @ Started (w_id w) # es"
proof -
  have ok: "bucket_ok s b" and pos: "0 < ad_maxInFlight s"
    using admission.reach_inv [OF assms(1)] assms(3) by (simp_all add: adm_inv_def)
  then have full: "b_active b = ad_maxInFlight s" and ns: "\<forall>v \<in> set (b_queue b). \<not> w_settled v"
    using assms(5) by (simp_all add: bucket_ok_def)
  from full pos have "b_active b - 1 < ad_maxInFlight s" by simp
  then show ?thesis unfolding finish_events [OF assms(2-4)] assms(5)
    by (rule pump_queue_first) (use ns assms(5-8) in auto)
qed

text \<open>A concrete run: three calls of one upstream with room for one, the second with a deadline.\<close>

definition demo_admission :: admission where
  "demo_admission = (case new_admission (Some (Fin 1)) None None None of Inr s \<Rightarrow> s | Inl _ \<Rightarrow> undefined)"

definition demo_ops :: "adm_op list" where
  "demo_ops = [Run ''db'' False None 0 0 0, Run ''db'' False (Some (Fin 10)) 1 1 1, Run ''db'' False None 2 2 2]"

definition demo_waiting :: admission where
  "demo_waiting = foldl (\<lambda>s op. fst (apply_op op s)) demo_admission demo_ops"

definition demo_waiter :: "nat \<Rightarrow> int option \<Rightarrow> waiter" where
  "demo_waiter i d = \<lparr>w_id = i, w_deadline = d, w_aborted = False, w_settled = False\<rparr>"

lemma demo_start: "adm_start demo_admission"
proof -
  have "new_admission (Some (Fin 1)) None None None = Inr demo_admission"
    by (simp add: demo_admission_def new_admission_def)
  then show ?thesis unfolding adm_start_def by blast
qed

lemma reach_op: "reach adm_start adm_step s \<Longrightarrow> reach adm_start adm_step (fst (apply_op op s))"
  by (rule reach_step [of _ _ _ "(op, snd (apply_op op s))"]) (simp_all add: adm_step_def)

lemma reach_ops: "reach adm_start adm_step s \<Longrightarrow> reach adm_start adm_step (foldl (\<lambda>s op. fst (apply_op op s)) s ops)"
  by (induction ops arbitrary: s) (simp_all add: reach_op)

lemma demo_reach: "reach adm_start adm_step demo_waiting"
  unfolding demo_waiting_def by (rule reach_ops, rule reach_start, rule demo_start)

lemma demo_values:
  "map_of (ad_frames demo_waiting) 0 = Some ''db''" "ad_closed demo_waiting = False"
  "map_option b_queue (map_get (ad_buckets demo_waiting) ''db'') = Some [demo_waiter 1 (Some 10), demo_waiter 2 None]"
  by code_simp+

lemma admission_first_waiter_starts_witness:
  "\<exists>es. snd (finish demo_waiting 0 True 20) = [Rejected 1 DeadlineExpired, Started 2] @ es"
proof -
  from demo_values(3) obtain b where "map_get (ad_buckets demo_waiting) ''db'' = Some b"
      and "b_queue b = [demo_waiter 1 (Some 10)] @ demo_waiter 2 None # []" by auto
  from admission_first_waiter_starts [OF demo_reach demo_values(1) this(1) _ this(2), of 20 True] demo_values(2)
  show ?thesis by (simp add: demo_waiter_def due_def)
qed

theorem admission_bounds_witness:
  "\<exists>b. map_get (ad_buckets demo_waiting) ''db'' = Some b \<and> b_active b = ad_maxInFlight demo_waiting"
proof -
  from demo_values(3) obtain b where b: "map_get (ad_buckets demo_waiting) ''db'' = Some b"
      and "b_queue b \<noteq> []" by auto
  with admission_bounds [OF demo_reach b] show ?thesis by simp
qed

theorem admission_exactly_once_witness:
  "mset (decided_ids (snd (apply_op (Run ''db'' False None 0 0 0) demo_admission)))
     + waits (fst (apply_op (Run ''db'' False None 0 0 0) demo_admission)) = mset [0..<1]"
proof -
  let ?op = "Run ''db'' False None 0 0 0"
  let ?s' = "fst (apply_op ?op demo_admission)" and ?e = "snd (apply_op ?op demo_admission)"
  have r: "runs adm_step demo_admission [(?op, ?e)] ?s'" by (simp add: adm_step_def)
  have "ad_next ?s' = 1" by code_simp
  then show ?thesis using admission_exactly_once [OF demo_start r] by simp
qed

end
