(* ===== verification/RadixTrie.thy ===== *)
theory RadixTrie
  imports JsValue JsMap Systems
begin

text \<open>
  The route index of the gateway (\<open>packages/gateway/src/operation-route-index/radix-path-trie.ts\<close>):
  path normalisation, insertion of route patterns and lookup with backtracking, static segments first,
  then a parameter, then a wildcard.  The fields \<open>segment\<close>, \<open>kind\<close> and \<open>paramName\<close> of a trie node
  are written and never read, and are left out.  The reference is a table from route shapes to routes
  and the list of the shapes a path fits, in order of preference.
\<close>

section \<open>Percent encoding\<close>

text \<open>Hexadecimal digits of either case.\<close>

definition hex_value :: "char \<Rightarrow> nat option" where
  "hex_value c =
     (let n = of_char c :: nat
      in if 48 \<le> n \<and> n \<le> 57 then Some (n - 48)
         else if 65 \<le> n \<and> n \<le> 70 then Some (n - 55)
         else if 97 \<le> n \<and> n \<le> 102 then Some (n - 87)
         else None)"

text \<open>One \<open>%XX\<close> group at the front of a text.\<close>

fun octet :: "string \<Rightarrow> (nat \<times> string) option" where
  "octet (p # a # b # rest) =
     (if p = CHR ''%'' then
        (case hex_value a of
           None \<Rightarrow> None
         | Some x \<Rightarrow> (case hex_value b of None \<Rightarrow> None | Some y \<Rightarrow> Some (16 * x + y, rest)))
      else None)"
| "octet _ = None"

lemma octet_shorter: "octet s = Some (n, r) \<Longrightarrow> length r < length s"
  by (cases s rule: octet.cases) (auto split: if_splits option.splits)

text \<open>Continuation octets, the first of them in a given range.\<close>

definition continuation :: "nat \<Rightarrow> nat \<Rightarrow> string \<Rightarrow> (nat \<times> string) option" where
  "continuation lo hi s =
     (case octet s of None \<Rightarrow> None | Some (n, r) \<Rightarrow> if lo \<le> n \<and> n \<le> hi then Some (n, r) else None)"

lemma continuation_shorter: "continuation lo hi s = Some (n, r) \<Longrightarrow> length r < length s"
  by (auto simp: continuation_def dest: octet_shorter split: option.splits if_splits)

fun continuations :: "(nat \<times> nat) list \<Rightarrow> string \<Rightarrow> (nat list \<times> string) option" where
  "continuations [] s = Some ([], s)"
| "continuations (rg # rgs) s =
     (case continuation (fst rg) (snd rg) s of
        None \<Rightarrow> None
      | Some (n, r) \<Rightarrow> (case continuations rgs r of None \<Rightarrow> None | Some (ns, q) \<Rightarrow> Some (n # ns, q)))"

lemma continuations_shorter: "continuations rs s = Some (ns, q) \<Longrightarrow> length q \<le> length s"
  by (induction rs arbitrary: s ns) (fastforce dest: continuation_shorter split: option.splits)+

text \<open>What must follow a lead octet in well-formed UTF-8.\<close>

definition lead_ranges :: "nat \<Rightarrow> (nat \<times> nat) list option" where
  "lead_ranges n =
     (if n < 128 then Some []
      else if 194 \<le> n \<and> n \<le> 223 then Some [(128, 191)]
      else if n = 224 then Some [(160, 191), (128, 191)]
      else if n = 237 then Some [(128, 159), (128, 191)]
      else if 225 \<le> n \<and> n \<le> 239 then Some [(128, 191), (128, 191)]
      else if n = 240 then Some [(144, 191), (128, 191), (128, 191)]
      else if 241 \<le> n \<and> n \<le> 243 then Some [(128, 191), (128, 191), (128, 191)]
      else if n = 244 then Some [(128, 143), (128, 191), (128, 191)]
      else None)"

definition percent_sequence :: "string \<Rightarrow> (string \<times> string) option" where
  "percent_sequence s =
     (case octet s of
        None \<Rightarrow> None
      | Some (n, r) \<Rightarrow>
          (case lead_ranges n of
             None \<Rightarrow> None
           | Some ranges \<Rightarrow>
               (case continuations ranges r of
                  None \<Rightarrow> None
                | Some (ns, q) \<Rightarrow> Some (map char_of (n # ns), q))))"

lemma percent_sequence_shorter: "percent_sequence s = Some (t, q) \<Longrightarrow> length q < length s"
  by (fastforce simp: percent_sequence_def dest: octet_shorter continuations_shorter split: option.splits)

text \<open>\<open>decodeURIComponent\<close>, with \<open>None\<close> for the thrown \<open>URIError\<close>.\<close>

function decodeURIComponent :: "string \<Rightarrow> string option" where
  "decodeURIComponent s =
     (case s of
        [] \<Rightarrow> Some []
      | c # cs \<Rightarrow>
          if c \<noteq> CHR ''%'' then map_option ((#) c) (decodeURIComponent cs)
          else (case percent_sequence s of
                  None \<Rightarrow> None
                | Some (t, q) \<Rightarrow> map_option ((@) t) (decodeURIComponent q)))"
  by pat_completeness auto
termination by (relation "measure length") (auto dest: percent_sequence_shorter)

declare decodeURIComponent.simps [simp del]

definition is_unreserved :: "char \<Rightarrow> bool" where
  "is_unreserved c =
     (let n = of_char c :: nat
      in 48 \<le> n \<and> n \<le> 57 \<or> 65 \<le> n \<and> n \<le> 90 \<or> 97 \<le> n \<and> n \<le> 122 \<or> c \<in> set ''._~-'')"

definition hex_upper :: "char \<Rightarrow> char" where
  "hex_upper c = (let n = of_char c :: nat in if 97 \<le> n \<and> n \<le> 102 then char_of (n - 32) else c)"

fun normalizePercentEncodedUnreserved :: "string \<Rightarrow> string" where
  "normalizePercentEncodedUnreserved (p # a # b # rest) =
     (case octet (p # a # b # rest) of
        None \<Rightarrow> p # normalizePercentEncodedUnreserved (a # b # rest)
      | Some (n, _) \<Rightarrow>
          (if is_unreserved (char_of n) then [char_of n] else [p, hex_upper a, hex_upper b])
          @ normalizePercentEncodedUnreserved rest)"
| "normalizePercentEncodedUnreserved s = s"

section \<open>Paths\<close>

definition segments_of :: "string \<Rightarrow> string list" where
  "segments_of path = filter (\<lambda>s. s \<noteq> []) (split_on CHR ''/'' path)"

definition has_control :: "string \<Rightarrow> bool" where
  "has_control s = (\<exists>c \<in> set s. (of_char c :: nat) \<le> 31 \<or> (of_char c :: nat) = 127)"

definition normal_segment :: "string \<Rightarrow> string option" where
  "normal_segment s =
     (case decodeURIComponent s of
        None \<Rightarrow> None
      | Some d \<Rightarrow> if has_control d then None else Some (normalizePercentEncodedUnreserved s))"

definition request_path :: "string \<Rightarrow> string" where
  "request_path path =
     (let p = js_trim (if path = [] then ''/'' else path);
          q = hd (split_on CHR ''#'' (hd (split_on CHR ''?'' p)))
      in if starts_with q ''/'' then q else CHR ''/'' # q)"

definition normalizeRoutingPathname :: "string \<Rightarrow> string option" where
  "normalizeRoutingPathname path =
     (case those (map normal_segment (segments_of (request_path path))) of
        None \<Rightarrow> None
      | Some segs \<Rightarrow> Some (if segs = [] then ''/'' else CHR ''/'' # join ''/'' segs))"

definition route_parameter_max_bytes :: nat where
  "route_parameter_max_bytes = 1024"

definition route_wildcard_max_bytes :: nat where
  "route_wildcard_max_bytes = 8192"

section \<open>The trie\<close>

datatype 'a node = Node "'a option" "string list" "(string, 'a node) jsmap" "'a node option" "'a node option"

definition empty_node :: "'a node" where
  "empty_node = Node None [] [] None None"

datatype kind = PathSegment | ParamSegment | WildcardSegment

definition segmentKind :: "string \<Rightarrow> kind" where
  "segmentKind s =
     (if s = ''*'' \<or> s = ''**'' then WildcardSegment
      else if starts_with s '':'' then ParamSegment else PathSegment)"

definition msg_wildcard_final :: "string \<Rightarrow> string" where
  "msg_wildcard_final path = ''Wildcard must be the final segment in path: \"'' @ path @ ''\"''"

definition msg_param_name :: "string \<Rightarrow> string" where
  "msg_param_name path = ''Parameter name is required in path: \"'' @ path @ ''\"''"

definition msg_route_encoding :: string where
  "msg_route_encoding = ''Route path contains invalid encoding or control characters.''"

definition msg_duplicate_path :: "string \<Rightarrow> string" where
  "msg_duplicate_path path = ''Duplicate path: \"'' @ path @ ''\" already has a value''"

fun validateSegments :: "string list \<Rightarrow> string \<Rightarrow> string option" where
  "validateSegments [] path = None"
| "validateSegments (s # ss) path =
     (if segmentKind s = WildcardSegment
      then (if ss \<noteq> [] then Some (msg_wildcard_final path) else validateSegments ss path)
      else if segmentKind s = ParamSegment \<and> tl s = [] then Some (msg_param_name path)
      else validateSegments ss path)"

text \<open>The walk of \<open>insert\<close>: \<open>None\<close> when the final node already has a value.\<close>

definition default_node :: "'a node option \<Rightarrow> 'a node" where
  "default_node t = (case t of None \<Rightarrow> empty_node | Some c \<Rightarrow> c)"

fun insert_at_node :: "'a node \<Rightarrow> string list \<Rightarrow> string list \<Rightarrow> 'a \<Rightarrow> 'a node option" where
  "insert_at_node (Node v ns ch p w) [] names x =
     (case v of None \<Rightarrow> Some (Node (Some x) names ch p w) | Some _ \<Rightarrow> None)"
| "insert_at_node (Node v ns ch p w) (s # ss) names x =
     (case segmentKind s of
        WildcardSegment \<Rightarrow>
          map_option (\<lambda>c. Node v ns ch p (Some c)) (insert_at_node (default_node w) ss names x)
      | ParamSegment \<Rightarrow>
          map_option (\<lambda>c. Node v ns ch (Some c) w) (insert_at_node (default_node p) ss (names @ [tl s]) x)
      | PathSegment \<Rightarrow>
          map_option (\<lambda>c. Node v ns (map_set ch s c) p w)
            (insert_at_node (default_node (map_get ch s)) ss names x))"

record 'a trie =
  t_root :: "'a node"
  t_size :: nat
  t_paths :: "string list"

definition empty_trie :: "'a trie" where
  "empty_trie = \<lparr>t_root = empty_node, t_size = 0, t_paths = []\<rparr>"

definition insert_route :: "'a trie \<Rightarrow> string \<Rightarrow> 'a \<Rightarrow> string + bool \<times> 'a trie" where
  "insert_route t path x =
     (case normalizeRoutingPathname path of
        None \<Rightarrow> Inl msg_route_encoding
      | Some n \<Rightarrow>
          if n \<in> set (t_paths t) then Inr (False, t)
          else (case validateSegments (segments_of n) n of
                  Some e \<Rightarrow> Inl e
                | None \<Rightarrow>
                    (case insert_at_node (t_root t) (segments_of n) [] x of
                       None \<Rightarrow> Inl (msg_duplicate_path n)
                     | Some r \<Rightarrow> Inr (True, \<lparr>t_root = r, t_size = Suc (t_size t), t_paths = t_paths t @ [n]\<rparr>))))"

text \<open>\<open>params[key] = value\<close>; assigning a text to \<open>__proto__\<close> does nothing.\<close>

definition put_param :: "(string, string) jsmap \<Rightarrow> string \<Rightarrow> string \<Rightarrow> (string, string) jsmap" where
  "put_param m k v = (if k = ''__proto__'' then m else map_set m k v)"

fun put_params :: "(string, string) jsmap \<Rightarrow> nat \<Rightarrow> string list \<Rightarrow> string list \<Rightarrow> (string, string) jsmap" where
  "put_params m i names [] = m"
| "put_params m i names (v # vs) =
     put_params (put_param m (case names of n # _ \<Rightarrow> if n = [] then ''param'' @ show_nat i else n
                                          | [] \<Rightarrow> ''param'' @ show_nat i) v) (Suc i) (tl names) vs"

definition buildParams :: "string list \<Rightarrow> string list \<Rightarrow> string option \<Rightarrow> (string, string) jsmap" where
  "buildParams names vals wildcard =
     (case wildcard of
        None \<Rightarrow> put_params [] 0 names vals
      | Some w \<Rightarrow> put_param (put_params [] 0 names vals) ''*'' w)"

type_synonym 'a route_match = "'a \<times> (string, string) jsmap"

definition wildcard_entry :: "'a node option \<Rightarrow> (string list \<times> 'a) option" where
  "wildcard_entry w = (case w of Some (Node (Some x) ns _ _ _) \<Rightarrow> Some (ns, x) | _ \<Rightarrow> None)"

fun lookup_node :: "'a node \<Rightarrow> string list \<Rightarrow> string list \<Rightarrow> 'a route_match option" where
  "lookup_node (Node v ns ch p w) [] vals =
     (case v of
        Some x \<Rightarrow> Some (x, buildParams ns vals None)
      | None \<Rightarrow> map_option (\<lambda>e. (snd e, buildParams (fst e) vals (Some []))) (wildcard_entry w))"
| "lookup_node (Node v ns ch p w) (s # ss) vals =
     (case decodeURIComponent s of
        None \<Rightarrow> None
      | Some d \<Rightarrow>
          (case (case map_get ch d of None \<Rightarrow> None | Some c \<Rightarrow> lookup_node c ss vals) of
             Some m \<Rightarrow> Some m
           | None \<Rightarrow>
               (case (case p of
                        None \<Rightarrow> None
                      | Some c \<Rightarrow> if length d \<le> route_parameter_max_bytes then lookup_node c ss (vals @ [d]) else None) of
                  Some m \<Rightarrow> Some m
                | None \<Rightarrow>
                    (case wildcard_entry w of
                       None \<Rightarrow> None
                     | Some e \<Rightarrow>
                         (case those (map decodeURIComponent (s # ss)) of
                            None \<Rightarrow> None
                          | Some ds \<Rightarrow>
                              if length (join ''/'' ds) > route_wildcard_max_bytes then None
                              else Some (snd e, buildParams (fst e) vals (Some (join ''/'' ds))))))))"

definition lookup_route :: "'a trie \<Rightarrow> string \<Rightarrow> 'a route_match option" where
  "lookup_route t path =
     (case normalizeRoutingPathname path of
        None \<Rightarrow> None
      | Some n \<Rightarrow> lookup_node (t_root t) (segments_of n) [])"

section \<open>The reference: a table of shapes\<close>

datatype shape = Static string | Param | Wild

definition shape_of :: "string list \<Rightarrow> shape list" where
  "shape_of segs = map (\<lambda>s. case segmentKind s of PathSegment \<Rightarrow> Static s | ParamSegment \<Rightarrow> Param | WildcardSegment \<Rightarrow> Wild) segs"

definition names_of :: "string list \<Rightarrow> string list" where
  "names_of segs = map tl (filter (\<lambda>s. segmentKind s = ParamSegment) segs)"

lemma shape_list_cases:
  obtains "sh = []" | s sh' where "sh = Static s # sh'" | sh' where "sh = Param # sh'" | sh' where "sh = Wild # sh'"
  by (metis list.exhaust shape.exhaust)

text \<open>The route a trie holds for a shape.\<close>

fun route_at :: "'a node \<Rightarrow> shape list \<Rightarrow> (string list \<times> 'a) option" where
  "route_at (Node v ns ch p w) [] = map_option (Pair ns) v"
| "route_at (Node v ns ch p w) (Static s # sh) = (case map_get ch s of None \<Rightarrow> None | Some c \<Rightarrow> route_at c sh)"
| "route_at (Node v ns ch p w) (Param # sh) = (case p of None \<Rightarrow> None | Some c \<Rightarrow> route_at c sh)"
| "route_at (Node v ns ch p w) (Wild # sh) = (case w of None \<Rightarrow> None | Some c \<Rightarrow> route_at c sh)"

text \<open>The shapes a decoded path fits, most specific first, segment by segment.\<close>

fun candidates :: "string list \<Rightarrow> shape list list" where
  "candidates [] = [[], [Wild]]"
| "candidates (d # ds) =
     map ((#) (Static d)) (candidates ds)
     @ (if length d \<le> route_parameter_max_bytes then map ((#) Param) (candidates ds) else [])
     @ (if length (join ''/'' (d # ds)) \<le> route_wildcard_max_bytes then [[Wild]] else [])"

fun captures :: "shape list \<Rightarrow> string list \<Rightarrow> string list" where
  "captures (Static s # sh) (d # ds) = captures sh ds"
| "captures (Param # sh) (d # ds) = d # captures sh ds"
| "captures _ _ = []"

fun tail_capture :: "shape list \<Rightarrow> string list \<Rightarrow> string option" where
  "tail_capture (Wild # sh) ds = Some (join ''/'' ds)"
| "tail_capture (s # sh) (d # ds) = tail_capture sh ds"
| "tail_capture _ _ = None"

fun first_some :: "'b option list \<Rightarrow> 'b option" where
  "first_some [] = None"
| "first_some (x # xs) = (case x of Some y \<Rightarrow> Some y | None \<Rightarrow> first_some xs)"

definition match_at :: "(shape list \<Rightarrow> (string list \<times> 'a) option) \<Rightarrow> string list \<Rightarrow> string list \<Rightarrow> shape list \<Rightarrow> 'a route_match option" where
  "match_at table vals ds sh =
     map_option (\<lambda>e. (snd e, buildParams (fst e) (vals @ captures sh ds) (tail_capture sh ds))) (table sh)"

definition best_match :: "(shape list \<Rightarrow> (string list \<times> 'a) option) \<Rightarrow> string list \<Rightarrow> 'a route_match option" where
  "best_match table ds = first_some (map (match_at table [] ds) (candidates ds))"

lemma first_some_append: "first_some (xs @ ys) = (case first_some xs of Some y \<Rightarrow> Some y | None \<Rightarrow> first_some ys)"
  by (induction xs) (auto split: option.split)

lemma first_some_none: "first_some (map (\<lambda>_. None) xs) = None"
  by (induction xs) auto

lemma wildcard_entry_route: "wildcard_entry w = route_at (Node v ns ch p w) [Wild]"
proof (cases w)
  case (Some c)
  then show ?thesis by (cases c) (auto simp: wildcard_entry_def split: option.split)
qed (simp add: wildcard_entry_def)

lemma lookup_node_best:
  "lookup_node t segs vals =
     (case those (map decodeURIComponent segs) of
        None \<Rightarrow> None
      | Some ds \<Rightarrow> first_some (map (match_at (route_at t) vals ds) (candidates ds)))"
proof (induction segs arbitrary: t vals)
  case Nil
  obtain v ns ch p w where t: "t = Node v ns ch p w" by (cases t)
  show ?case
  proof (cases v)
    case None
    with t show ?thesis
      by (simp add: match_at_def wildcard_entry_route [of w v ns ch p] split: option.split)
  next
    case (Some x)
    with t show ?thesis by (simp add: match_at_def)
  qed
next
  case (Cons s ss)
  obtain v ns ch p w where t: "t = Node v ns ch p w" by (cases t)
  show ?case
  proof (cases "decodeURIComponent s")
    case None
    with t show ?thesis by simp
  next
    case (Some d)
    show ?thesis
    proof (cases "those (map decodeURIComponent ss)")
      case None
      with Some t Cons.IH show ?thesis by (simp split: option.split)
    next
      case (Some ds)
      let ?m = "match_at (route_at t) vals (d # ds)"
      have st: "first_some (map (?m \<circ> (#) (Static d)) (candidates ds))
          = (case map_get ch d of None \<Rightarrow> None | Some c \<Rightarrow> lookup_node c ss vals)"
        using Some Cons.IH
        by (cases "map_get ch d") (simp_all add: t comp_def match_at_def [abs_def] first_some_none)
      have pa: "first_some (map (?m \<circ> (#) Param) (candidates ds))
          = (case p of None \<Rightarrow> None | Some c \<Rightarrow> lookup_node c ss (vals @ [d]))"
        using Some Cons.IH by (cases p) (simp_all add: t comp_def match_at_def [abs_def] first_some_none)
      have wi: "?m [Wild] = map_option (\<lambda>e. (snd e, buildParams (fst e) vals (Some (join ''/'' (d # ds))))) (wildcard_entry w)"
        by (simp add: match_at_def t wildcard_entry_route [of w v ns ch p])
      show ?thesis
        using Some \<open>decodeURIComponent s = Some d\<close> st pa wi
        by (auto simp: t first_some_append not_le simp del: join.simps split: option.split)
    qed
  qed
qed

text \<open>Insertion changes the table at one shape only, and fails exactly when that shape is taken.\<close>

lemma route_at_empty [simp]: "route_at empty_node sh = None"
  by (cases sh rule: shape_list_cases) (simp_all add: empty_node_def)

definition table_after :: "'a node \<Rightarrow> shape list \<Rightarrow> string list \<times> 'a \<Rightarrow> 'a node \<Rightarrow> bool" where
  "table_after t sh0 e t' \<longleftrightarrow> (\<forall>sh. route_at t' sh = (if sh = sh0 then Some e else route_at t sh))"

lemma insert_below:
  assumes at: "\<And>c sh. route_at (up c) sh = (if sh \<noteq> [] \<and> hd sh = k then route_at c (tl sh) else route_at t sh)"
    and below: "\<And>sh. route_at t (k # sh) = route_at c0 sh"
    and IH: "(r = None \<longleftrightarrow> route_at c0 sh0 \<noteq> None) \<and> (\<forall>c. r = Some c \<longrightarrow> table_after c0 sh0 e c)"
  shows "(map_option up r = None \<longleftrightarrow> route_at t (k # sh0) \<noteq> None)
    \<and> (\<forall>t'. map_option up r = Some t' \<longrightarrow> table_after t (k # sh0) e t')"
proof (cases r)
  case (Some c)
  with IH have c: "route_at c sh = (if sh = sh0 then Some e else route_at c0 sh)" for sh by (simp add: table_after_def)
  have "route_at (up c) sh = (if sh = k # sh0 then Some e else route_at t sh)" for sh
  proof (cases "sh \<noteq> [] \<and> hd sh = k")
    case True
    then obtain sh' where "sh = k # sh'" by (cases sh) auto
    then show ?thesis by (simp add: at c below)
  next
    case False
    then show ?thesis by (auto simp: at)
  qed
  with Some IH show ?thesis by (auto simp: below table_after_def)
qed (use IH in \<open>simp add: below\<close>)

lemma insert_at_node_table:
  "(insert_at_node t segs names x = None \<longleftrightarrow> route_at t (shape_of segs) \<noteq> None)
   \<and> (\<forall>t'. insert_at_node t segs names x = Some t' \<longrightarrow> table_after t (shape_of segs) (names @ names_of segs, x) t')"
proof (induction segs arbitrary: t names)
  case Nil
  obtain v ns ch p w where t: "t = Node v ns ch p w" by (cases t)
  have "route_at (Node (Some x) names ch p w) sh = (if sh = [] then Some (names, x) else route_at t sh)" for sh
    by (cases sh rule: shape_list_cases) (simp_all add: t)
  with t show ?case by (cases v) (auto simp: shape_of_def names_of_def table_after_def)
next
  case (Cons s ss)
  obtain v ns ch p w where t: "t = Node v ns ch p w" by (cases t)
  have dflt: "route_at (default_node m) sh = (case m of None \<Rightarrow> None | Some c \<Rightarrow> route_at c sh)" for m :: "'a node option" and sh
    by (simp add: default_node_def split: option.split)
  show ?case
  proof (cases "segmentKind s")
    case PathSegment
    have "route_at (Node v ns (map_set ch s c) p w) sh
        = (if sh \<noteq> [] \<and> hd sh = Static s then route_at c (tl sh) else route_at t sh)" for c sh
      by (cases sh rule: shape_list_cases) (auto simp: t)
    note b = insert_below [of "\<lambda>c. Node v ns (map_set ch s c) p w", OF this _ Cons.IH [of "default_node (map_get ch s)" names]]
    from PathSegment have k: "shape_of (s # ss) = Static s # shape_of ss" "names @ names_of (s # ss) = names @ names_of ss"
        "insert_at_node t (s # ss) names x = map_option (\<lambda>c. Node v ns (map_set ch s c) p w) (insert_at_node (default_node (map_get ch s)) ss names x)"
      by (simp_all add: shape_of_def names_of_def t)
    show ?thesis unfolding k by (rule b) (simp add: t dflt)
  next
    case ParamSegment
    have "route_at (Node v ns ch (Some c) w) sh
        = (if sh \<noteq> [] \<and> hd sh = Param then route_at c (tl sh) else route_at t sh)" for c sh
      by (cases sh rule: shape_list_cases) (auto simp: t)
    note b = insert_below [of "\<lambda>c. Node v ns ch (Some c) w", OF this _ Cons.IH [of "default_node p" "names @ [tl s]"]]
    from ParamSegment have k: "shape_of (s # ss) = Param # shape_of ss" "names @ names_of (s # ss) = (names @ [tl s]) @ names_of ss"
        "insert_at_node t (s # ss) names x = map_option (\<lambda>c. Node v ns ch (Some c) w) (insert_at_node (default_node p) ss (names @ [tl s]) x)"
      by (simp_all add: shape_of_def names_of_def t)
    show ?thesis unfolding k by (rule b) (simp add: t dflt)
  next
    case WildcardSegment
    have "route_at (Node v ns ch p (Some c)) sh
        = (if sh \<noteq> [] \<and> hd sh = Wild then route_at c (tl sh) else route_at t sh)" for c sh
      by (cases sh rule: shape_list_cases) (auto simp: t)
    note b = insert_below [of "\<lambda>c. Node v ns ch p (Some c)", OF this _ Cons.IH [of "default_node w" names]]
    from WildcardSegment have k: "shape_of (s # ss) = Wild # shape_of ss" "names @ names_of (s # ss) = names @ names_of ss"
        "insert_at_node t (s # ss) names x = map_option (\<lambda>c. Node v ns ch p (Some c)) (insert_at_node (default_node w) ss names x)"
      by (simp_all add: shape_of_def names_of_def t)
    show ?thesis unfolding k by (rule b) (simp add: t dflt)
  qed
qed

lemma insert_at_node_Some:
  assumes "insert_at_node t segs [] x = Some r"
  shows "route_at t (shape_of segs) = None"
    and "route_at r sh = (if sh = shape_of segs then Some (names_of segs, x) else route_at t sh)"
  using insert_at_node_table [of t segs "[]" x] assms
  by (cases "route_at t (shape_of segs)", simp_all add: table_after_def)

section \<open>The index as a transition system\<close>

definition trie_step :: "'a trie \<Rightarrow> string \<times> 'a \<Rightarrow> 'a trie \<Rightarrow> bool" where
  "trie_step t r t' \<longleftrightarrow> (case insert_route t (fst r) (snd r) of Inl _ \<Rightarrow> t' = t | Inr p \<Rightarrow> t' = snd p)"

definition trie_inv :: "'a trie \<Rightarrow> bool" where
  "trie_inv t \<longleftrightarrow> t_size t = length (t_paths t) \<and> distinct (t_paths t)
     \<and> (\<forall>sh. route_at (t_root t) sh \<noteq> None \<longleftrightarrow> sh \<in> (\<lambda>n. shape_of (segments_of n)) ` set (t_paths t))"

lemma insert_route_cases:
  assumes "insert_route t path x = Inr (b, t')"
  obtains n where "normalizeRoutingPathname path = Some n" "\<not> b" "n \<in> set (t_paths t)" "t' = t"
    | n r where "normalizeRoutingPathname path = Some n" "b" "n \<notin> set (t_paths t)"
        "insert_at_node (t_root t) (segments_of n) [] x = Some r"
        "t' = \<lparr>t_root = r, t_size = Suc (t_size t), t_paths = t_paths t @ [n]\<rparr>"
proof (cases "normalizeRoutingPathname path")
  case None
  with assms show ?thesis by (simp add: insert_route_def)
next
  case (Some n)
  note nm = Some
  show ?thesis
  proof (cases "n \<in> set (t_paths t)")
    case True
    with nm assms show ?thesis by (intro that(1)) (simp_all add: insert_route_def)
  next
    case False
    show ?thesis
    proof (cases "validateSegments (segments_of n) n")
      case None
      show ?thesis
      proof (cases "insert_at_node (t_root t) (segments_of n) [] x")
        case None
        with nm False \<open>validateSegments (segments_of n) n = None\<close> assms show ?thesis by (simp add: insert_route_def)
      next
        case (Some r)
        with nm False None assms show ?thesis by (intro that(2) [of n r]) (simp_all add: insert_route_def)
      qed
    next
      case (Some e)
      with nm False assms show ?thesis by (simp add: insert_route_def)
    qed
  qed
qed

lemma insert_route_inv:
  assumes inv: "trie_inv t" and ins: "insert_route t path x = Inr (b, t')"
  shows "trie_inv t'"
  using ins
proof (cases rule: insert_route_cases)
  case (2 n r)
  with inv insert_at_node_Some [OF 2(4)] show ?thesis by (simp add: trie_inv_def)
qed (use inv in simp)

interpretation routes: safe_system "\<lambda>t. t = empty_trie" trie_step trie_inv
proof unfold_locales
  fix t :: "'a trie" assume "t = empty_trie"
  then show "trie_inv t" by (simp add: trie_inv_def empty_trie_def)
next
  fix t t' :: "'a trie" and r assume "trie_inv t" and "trie_step t r t'"
  then show "trie_inv t'" by (auto simp: trie_step_def intro: insert_route_inv split: sum.splits)
qed

section \<open>What the index promises\<close>

text \<open>C21. Lookup finds the most specific route: it returns the first route of the table along the list of
  the shapes that the decoded path fits, static before parameter before wildcard at every segment, with
  the captured segments as parameters; a path that does not normalise or decode has no route.\<close>

theorem lookup_finds_best_route:
  "lookup_route t path =
     (case normalizeRoutingPathname path of
        None \<Rightarrow> None
      | Some n \<Rightarrow>
          (case those (map decodeURIComponent (segments_of n)) of
             None \<Rightarrow> None
           | Some ds \<Rightarrow> best_match (route_at (t_root t)) ds))"
  by (simp add: lookup_route_def lookup_node_best best_match_def split: option.split)

text \<open>Inserting keeps the index exact: in an index built by insertions, an accepted route that is new
  takes a shape that was free and changes the table there and nowhere else, a repeated one changes
  nothing; the table holds exactly the shapes of the recorded paths, each counted once.\<close>

lemma insert_route_exact:
  assumes "reach (\<lambda>t. t = empty_trie) trie_step t" and "insert_route t path x = Inr (b, t')"
  shows "\<exists>n. normalizeRoutingPathname path = Some n \<and> n \<in> set (t_paths t')
    \<and> (b \<longrightarrow> route_at (t_root t) (shape_of (segments_of n)) = None)
    \<and> (\<forall>sh. route_at (t_root t') sh = (if b \<and> sh = shape_of (segments_of n)
          then Some (names_of (segments_of n), x) else route_at (t_root t) sh))
    \<and> t_size t' = length (t_paths t') \<and> distinct (t_paths t')
    \<and> (\<forall>sh. route_at (t_root t') sh \<noteq> None \<longleftrightarrow> sh \<in> (\<lambda>n. shape_of (segments_of n)) ` set (t_paths t'))"
proof -
  have inv': "trie_inv t'" by (rule insert_route_inv [OF routes.reach_inv [OF assms(1)] assms(2)])
  from assms(2) show ?thesis
  proof (cases rule: insert_route_cases)
    case (1 n)
    with inv' show ?thesis by (intro exI [of _ n]) (simp add: trie_inv_def)
  next
    case (2 n r)
    with insert_at_node_Some [OF 2(4)] inv' show ?thesis
      by (intro exI [of _ n]) (simp add: trie_inv_def)
  qed
qed

section \<open>Concrete routes\<close>

definition demo_insert :: "string \<Rightarrow> nat \<Rightarrow> nat trie \<Rightarrow> nat trie" where
  "demo_insert path x t = (case insert_route t path x of Inl _ \<Rightarrow> t | Inr p \<Rightarrow> snd p)"

definition demo_routes :: "nat trie" where
  "demo_routes = demo_insert ''/files/*'' 3 (demo_insert ''/files/:id'' 2 (demo_insert ''/files/list'' 1 empty_trie))"

lemma demo_routes_reach: "reach (\<lambda>t. t = empty_trie) trie_step demo_routes"
proof -
  have step: "reach (\<lambda>t. t = empty_trie) trie_step (demo_insert path x t)"
    if "reach (\<lambda>t. t = empty_trie) trie_step t" for path x t
    by (rule reach_step [OF that, of "(path, x)"]) (simp add: trie_step_def demo_insert_def split: sum.split)
  show ?thesis unfolding demo_routes_def by (intro step) (rule reach_start, rule refl)
qed

text \<open>Static before parameter before wildcard, with backtracking.\<close>

lemma demo_lookups:
  "lookup_route demo_routes ''/files/list'' = Some (1, [])"
  "lookup_route demo_routes ''files/a%20b?x=1'' = Some (2, [(''id'', ''a b'')])"
  "lookup_route demo_routes ''/files/list/a'' = Some (3, [(''*'', ''list/a'')])"
  "lookup_route demo_routes ''/files/%FF'' = None"
  by code_simp+

text \<open>A static segment that keeps a percent-encoded reserved character is compared with the decoded request
  segment, so the route does not answer its own path, only the doubly encoded one.\<close>

lemma encoded_static_segment:
  "lookup_route (demo_insert ''/a%2Fb'' 1 empty_trie) ''/a%2Fb'' = None"
  "lookup_route (demo_insert ''/a%2Fb'' 1 empty_trie) ''/a%252Fb'' = Some (1, [])"
  by code_simp+

lemma insert_route_exact_witness:
  "\<exists>t'. insert_route demo_routes ''/files/:id/meta'' 4 = Inr (True, t') \<and> t_size t' = length (t_paths t')"
proof -
  have "\<exists>t'. insert_route demo_routes ''/files/:id/meta'' 4 = Inr (True, t')"
    by (rule exI [of _ "demo_insert ''/files/:id/meta'' 4 demo_routes"]) code_simp
  then obtain t' where t': "insert_route demo_routes ''/files/:id/meta'' 4 = Inr (True, t')" by blast
  from insert_route_exact [OF demo_routes_reach t'] t' show ?thesis by blast
qed

end
