(* ===== verification/Subscriptions.thy ===== *)
theory Subscriptions
  imports GatewayUtils JsMap Systems
begin

text \<open>
  The subscription hub of the gateway (\<open>packages/gateway/src/subscriptions/index.ts\<close>).  Listeners live in a
  store that keeps the closed ones too, because a subscriber may still hold one; the hub's own map is the
  list of the registered ids.  A pending \<open>next()\<close> is a numbered reader.  The digest is a parameter, and
  the ids that \<open>createId\<close> draws are arguments, taken to be fresh.
\<close>

section \<open>State\<close>

record gateway_context =
  gc_tenant :: string
  gc_principal :: string
  gc_grant :: jsobj

type_synonym sub_event = jsobj

definition event_type :: "sub_event \<Rightarrow> string" where
  "event_type e = (case prop_of e ''type'' of JStr t \<Rightarrow> t | _ \<Rightarrow> [])"

definition eventBytes :: "sub_event \<Rightarrow> nat" where
  "eventBytes e = (case json_stringify (JObj e) of Some t \<Rightarrow> length t | None \<Rightarrow> nat max_safe_integer)"

record listener =
  l_id :: string
  l_partition :: string
  l_kinds :: "string list"
  l_queue :: "(sub_event \<times> nat) list"
  l_waiters :: "nat list"
  l_queuedBytes :: nat
  l_closed :: bool

record hub =
  h_listeners :: "string list"
  h_store :: "(string, listener) jsmap"
  h_maxEvents :: "nat option"
  h_maxBytes :: "nat option"

text \<open>\<open>Math.max(1, Math.floor(value ?? fallback))\<close>; \<open>None\<close> stands for \<open>NaN\<close> and \<open>Infinity\<close>, against which
  no count compares as too large.\<close>

fun hub_limit :: "jsnum option \<Rightarrow> nat \<Rightarrow> nat option" where
  "hub_limit None fallback = Some (max 1 fallback)"
| "hub_limit (Some (Fin i)) fallback = Some (nat (max 1 i))"
| "hub_limit (Some NegInf) fallback = Some 1"
| "hub_limit (Some _) fallback = None"

definition new_hub :: "jsnum option \<Rightarrow> jsnum option \<Rightarrow> hub" where
  "new_hub maxEvents maxBytes =
     \<lparr>h_listeners = [], h_store = [], h_maxEvents = hub_limit maxEvents 64, h_maxBytes = hub_limit maxBytes (1024 * 1024)\<rparr>"

definition reaches :: "nat \<Rightarrow> nat option \<Rightarrow> bool" where
  "reaches n limit = (case limit of None \<Rightarrow> False | Some m \<Rightarrow> m \<le> n)"

definition exceeds :: "nat \<Rightarrow> nat option \<Rightarrow> bool" where
  "exceeds n limit = (case limit of None \<Rightarrow> False | Some m \<Rightarrow> m < n)"

definition partition_of :: "(string \<Rightarrow> string) \<Rightarrow> gateway_context \<Rightarrow> string" where
  "partition_of sha256 c =
     gateway_digest sha256 (JObj [(''tenant'', JStr (gc_tenant c)), (''principal'', JStr (gc_principal c)), (''grant'', JObj (gc_grant c))])"

datatype hub_out = Deliver string nat sub_event | EndOf string nat

section \<open>Operations\<close>

definition close_listener :: "listener \<Rightarrow> listener \<times> hub_out list" where
  "close_listener l =
     (l\<lparr>l_queue := [], l_waiters := [], l_queuedBytes := 0, l_closed := True\<rparr>, map (EndOf (l_id l)) (l_waiters l))"

definition enqueue_event :: "sub_event \<Rightarrow> nat \<Rightarrow> listener \<Rightarrow> listener" where
  "enqueue_event e n l = l\<lparr>l_queue := l_queue l @ [(e, n)], l_queuedBytes := l_queuedBytes l + n\<rparr>"

text \<open>The first queued event of a type, with what stands before and after it.\<close>

fun split_type :: "string \<Rightarrow> (sub_event \<times> nat) list
    \<Rightarrow> ((sub_event \<times> nat) list \<times> (sub_event \<times> nat) \<times> (sub_event \<times> nat) list) option" where
  "split_type t [] = None"
| "split_type t (q # qs) =
     (if event_type (fst q) = t then Some ([], q, qs)
      else map_option (\<lambda>(xs, p, ys). (q # xs, p, ys)) (split_type t qs))"

definition coalesce :: "hub \<Rightarrow> sub_event \<Rightarrow> nat \<Rightarrow> listener \<Rightarrow> listener \<times> hub_out list" where
  "coalesce h e n l =
     (case split_type (event_type e) (l_queue l) of
        Some (xs, p, ys) \<Rightarrow>
          (let l' = l\<lparr>l_queue := xs @ (e, n) # ys, l_queuedBytes := l_queuedBytes l + n - snd p\<rparr>
           in if exceeds (l_queuedBytes l') (h_maxBytes h) then close_listener l' else (l', []))
      | None \<Rightarrow>
          if \<not> reaches (length (l_queue l)) (h_maxEvents h) \<and> \<not> exceeds (l_queuedBytes l + n) (h_maxBytes h)
          then (enqueue_event e n l, []) else close_listener l)"

definition offer :: "hub \<Rightarrow> sub_event \<Rightarrow> nat \<Rightarrow> listener \<Rightarrow> listener \<times> hub_out list" where
  "offer h e n l =
     (if exceeds n (h_maxBytes h) then close_listener l
      else case l_waiters l of
        w # ws \<Rightarrow> (l\<lparr>l_waiters := ws\<rparr>, [Deliver (l_id l) w e])
      | [] \<Rightarrow>
          if reaches (length (l_queue l)) (h_maxEvents h) \<or> exceeds (l_queuedBytes l + n) (h_maxBytes h)
          then (if ends_with (event_type e) ''list_changed'' then coalesce h e n l else close_listener l)
          else (enqueue_event e n l, []))"

definition wants :: "string \<Rightarrow> sub_event \<Rightarrow> listener \<Rightarrow> bool" where
  "wants part e l = (\<not> l_closed l \<and> l_partition l = part \<and> (l_kinds l = [] \<or> event_type e \<in> set (l_kinds l)))"

text \<open>A listener written back; a closed one leaves the hub's map.\<close>

definition store_listener :: "hub \<Rightarrow> string \<Rightarrow> listener \<Rightarrow> hub" where
  "store_listener h i l =
     h\<lparr>h_store := map_set (h_store h) i l,
       h_listeners := (if l_closed l then filter (\<lambda>j. j \<noteq> i) (h_listeners h) else h_listeners h)\<rparr>"

definition publish_one :: "string \<Rightarrow> sub_event \<Rightarrow> nat \<Rightarrow> hub \<times> hub_out list \<Rightarrow> string \<Rightarrow> hub \<times> hub_out list" where
  "publish_one part e n acc i =
     (case map_get (h_store (fst acc)) i of
        None \<Rightarrow> acc
      | Some l \<Rightarrow>
          if wants part e l
          then (store_listener (fst acc) i (fst (offer (fst acc) e n l)), snd acc @ snd (offer (fst acc) e n l))
          else acc)"

definition publish :: "(string \<Rightarrow> string) \<Rightarrow> hub \<Rightarrow> gateway_context \<Rightarrow> sub_event \<Rightarrow> hub \<times> hub_out list" where
  "publish sha256 h c e =
     foldl (publish_one (partition_of sha256 c) e (eventBytes e)) (h, []) (h_listeners h)"

definition subscribe :: "(string \<Rightarrow> string) \<Rightarrow> hub \<Rightarrow> string \<Rightarrow> gateway_context \<Rightarrow> string list \<Rightarrow> hub" where
  "subscribe sha256 h i c kinds =
     h\<lparr>h_listeners := h_listeners h @ [i],
       h_store := map_set (h_store h) i
         \<lparr>l_id = i, l_partition = partition_of sha256 c, l_kinds = kinds, l_queue = [], l_waiters = [],
          l_queuedBytes = 0, l_closed = False\<rparr>\<rparr>"

definition next_event :: "hub \<Rightarrow> string \<Rightarrow> nat \<Rightarrow> hub \<times> hub_out list" where
  "next_event h i r =
     (case map_get (h_store h) i of
        None \<Rightarrow> (h, [])
      | Some l \<Rightarrow>
          (case l_queue l of
             q # qs \<Rightarrow> (store_listener h i (l\<lparr>l_queue := qs, l_queuedBytes := l_queuedBytes l - snd q\<rparr>), [Deliver i r (fst q)])
           | [] \<Rightarrow>
               if l_closed l then (h, [EndOf i r])
               else (store_listener h i (l\<lparr>l_waiters := l_waiters l @ [r]\<rparr>), [])))"

definition close_subscription :: "hub \<Rightarrow> string \<Rightarrow> hub \<times> hub_out list" where
  "close_subscription h i =
     (case map_get (h_store h) i of
        None \<Rightarrow> (h, [])
      | Some l \<Rightarrow> if l_closed l then (h, []) else (store_listener h i (fst (close_listener l)), snd (close_listener l)))"

definition close_hub_one :: "hub \<times> hub_out list \<Rightarrow> string \<Rightarrow> hub \<times> hub_out list" where
  "close_hub_one acc i =
     (case map_get (h_store (fst acc)) i of
        None \<Rightarrow> acc
      | Some l \<Rightarrow> (store_listener (fst acc) i (fst (close_listener l)), snd acc @ snd (close_listener l)))"

definition close_hub :: "hub \<Rightarrow> hub \<times> hub_out list" where
  "close_hub h = foldl close_hub_one (h, []) (h_listeners h)"

record hub_stats =
  hs_streams :: nat
  hs_queuedEvents :: nat
  hs_waitingReaders :: nat

definition hub_stats_of :: "hub \<Rightarrow> hub_stats" where
  "hub_stats_of h =
     (let ls = List.map_filter (\<lambda>i. map_get (h_store h) i) (h_listeners h)
      in \<lparr>hs_streams = length (h_listeners h), hs_queuedEvents = sum_list (map (length \<circ> l_queue) ls),
          hs_waitingReaders = sum_list (map (length \<circ> l_waiters) ls)\<rparr>)"

datatype hub_op =
    Subscribe string gateway_context "string list"
  | Publish gateway_context sub_event
  | Next string nat
  | CloseSubscription string
  | CloseHub

fun apply_hub :: "(string \<Rightarrow> string) \<Rightarrow> hub_op \<Rightarrow> hub \<Rightarrow> hub \<times> hub_out list" where
  "apply_hub sha256 (Subscribe i c kinds) h = (subscribe sha256 h i c kinds, [])"
| "apply_hub sha256 (Publish c e) h = publish sha256 h c e"
| "apply_hub sha256 (Next i r) h = next_event h i r"
| "apply_hub sha256 (CloseSubscription i) h = close_subscription h i"
| "apply_hub sha256 CloseHub h = close_hub h"

text \<open>Ids are drawn at random and never repeat.\<close>

fun fresh_op :: "hub_op \<Rightarrow> hub \<Rightarrow> bool" where
  "fresh_op (Subscribe i c kinds) h = (map_get (h_store h) i = None)"
| "fresh_op _ h = True"

definition hub_step :: "(string \<Rightarrow> string) \<Rightarrow> hub \<Rightarrow> hub_op \<times> hub_out list \<Rightarrow> hub \<Rightarrow> bool" where
  "hub_step sha256 h x h' \<longleftrightarrow> fresh_op (fst x) h \<and> apply_hub sha256 (fst x) h = (h', snd x)"

section \<open>The invariant\<close>

definition l_ok :: "hub \<Rightarrow> listener \<Rightarrow> bool" where
  "l_ok h l \<longleftrightarrow> \<not> exceeds (length (l_queue l)) (h_maxEvents h)
     \<and> l_queuedBytes l = sum_list (map snd (l_queue l)) \<and> \<not> exceeds (l_queuedBytes l) (h_maxBytes h)
     \<and> (l_waiters l \<noteq> [] \<longrightarrow> l_queue l = []) \<and> (l_closed l \<longrightarrow> l_queue l = [] \<and> l_waiters l = [])"

definition hub_inv :: "hub \<Rightarrow> bool" where
  "hub_inv h \<longleftrightarrow> distinct (h_listeners h) \<and> (\<forall>i \<in> set (h_listeners h). map_get (h_store h) i \<noteq> None)
     \<and> (\<forall>i l. map_get (h_store h) i = Some l \<longrightarrow>
           l_ok h l \<and> l_id l = i \<and> (l_closed l \<longleftrightarrow> i \<notin> set (h_listeners h)))"

text \<open>Where events come from: \<open>P\<close> holds the published events with the partition they were published in.\<close>

definition entitled :: "(string \<times> sub_event) set \<Rightarrow> listener \<Rightarrow> sub_event \<Rightarrow> bool" where
  "entitled P l e \<longleftrightarrow> (l_partition l, e) \<in> P \<and> (l_kinds l = [] \<or> event_type e \<in> set (l_kinds l))"

definition traced :: "(string \<times> sub_event) set \<Rightarrow> hub \<Rightarrow> bool" where
  "traced P h \<longleftrightarrow> (\<forall>i l. map_get (h_store h) i = Some l \<longrightarrow> (\<forall>q \<in> set (l_queue l). entitled P l (fst q)))"

definition outs_traced :: "(string \<times> sub_event) set \<Rightarrow> hub \<Rightarrow> hub_out list \<Rightarrow> bool" where
  "outs_traced P h outs \<longleftrightarrow>
     (\<forall>i r e. Deliver i r e \<in> set outs \<longrightarrow> (\<exists>l. map_get (h_store h) i = Some l \<and> entitled P l e))"

definition good :: "(string \<times> sub_event) set \<Rightarrow> hub \<times> hub_out list \<Rightarrow> bool" where
  "good P acc \<longleftrightarrow> hub_inv (fst acc) \<and> traced P (fst acc) \<and> outs_traced P (fst acc) (snd acc)"

text \<open>What any operation does to one listener.\<close>

definition effect_ok :: "(string \<times> sub_event) set \<Rightarrow> hub \<Rightarrow> listener \<Rightarrow> listener \<times> hub_out list \<Rightarrow> bool" where
  "effect_ok P h l r \<longleftrightarrow> l_ok h (fst r) \<and> l_id (fst r) = l_id l \<and> l_partition (fst r) = l_partition l
     \<and> l_kinds (fst r) = l_kinds l \<and> (l_closed l \<longrightarrow> l_closed (fst r))
     \<and> (\<forall>q \<in> set (l_queue (fst r)). entitled P l (fst q))
     \<and> (\<forall>i x e. Deliver i x e \<in> set (snd r) \<longrightarrow> i = l_id l \<and> entitled P l e)"

lemma zero_exceeds [simp]: "\<not> exceeds 0 m"
  by (simp add: exceeds_def split: option.split)

lemma close_effect: "effect_ok P h l (close_listener l)"
  by (auto simp: effect_ok_def close_listener_def l_ok_def)

lemma split_type_Some: "split_type t q = Some (xs, p, ys) \<Longrightarrow> q = xs @ p # ys \<and> event_type (fst p) = t"
  by (induction q arbitrary: xs) (auto split: if_splits)

lemma enqueue_effect:
  assumes "l_ok h l" "\<not> l_closed l" "l_waiters l = []" "\<forall>q \<in> set (l_queue l). entitled P l (fst q)" "entitled P l e"
    and "\<not> reaches (length (l_queue l)) (h_maxEvents h)" "\<not> exceeds (l_queuedBytes l + n) (h_maxBytes h)"
  shows "effect_ok P h l (enqueue_event e n l, [])"
proof -
  have "\<not> exceeds (Suc (length (l_queue l))) (h_maxEvents h)"
    using assms(6) by (auto simp: reaches_def exceeds_def split: option.splits)
  with assms show ?thesis by (auto simp: effect_ok_def enqueue_event_def l_ok_def)
qed

lemma coalesce_effect:
  assumes "l_ok h l" "\<not> l_closed l" "l_waiters l = []" "\<forall>q \<in> set (l_queue l). entitled P l (fst q)" "entitled P l e"
  shows "effect_ok P h l (coalesce h e n l)"
proof (cases "split_type (event_type e) (l_queue l)")
  case None
  with enqueue_effect [OF assms, of n] close_effect [of P h l] show ?thesis by (simp add: coalesce_def)
next
  case (Some r)
  obtain xs p ys where r: "r = (xs, p, ys)" by (cases r) auto
  from split_type_Some [OF Some [unfolded r]] have q: "l_queue l = xs @ p # ys" by simp
  define l' where "l' = l\<lparr>l_queue := xs @ (e, n) # ys, l_queuedBytes := l_queuedBytes l + n - snd p\<rparr>"
  have co: "coalesce h e n l = (if exceeds (l_queuedBytes l') (h_maxBytes h) then close_listener l' else (l', []))"
    by (simp add: coalesce_def Some r l'_def Let_def)
  show ?thesis
  proof (cases "exceeds (l_queuedBytes l') (h_maxBytes h)")
    case True
    have "effect_ok P h l (close_listener l')"
      using assms(3) by (simp add: effect_ok_def close_listener_def l_ok_def l'_def)
    with True co show ?thesis by simp
  next
    case False
    with assms q have "effect_ok P h l (l', [])" by (auto simp: effect_ok_def l_ok_def l'_def)
    with False co show ?thesis by simp
  qed
qed

lemma offer_effect:
  assumes "l_ok h l" "\<not> l_closed l" "\<forall>q \<in> set (l_queue l). entitled P l (fst q)" "entitled P l e"
  shows "effect_ok P h l (offer h e n l)"
proof (cases "l_waiters l")
  case Nil
  with enqueue_effect [OF assms(1,2) Nil assms(3,4), of n] coalesce_effect [OF assms(1,2) Nil assms(3,4), of n] close_effect [of P h l]
  show ?thesis by (simp add: offer_def)
next
  case (Cons w ws)
  have "effect_ok P h l (l\<lparr>l_waiters := ws\<rparr>, [Deliver (l_id l) w e])"
    using assms Cons by (auto simp: effect_ok_def l_ok_def)
  with Cons close_effect [of P h l] show ?thesis by (simp add: offer_def)
qed

lemma good_store:
  assumes g: "good P (h, outs)" and l: "map_get (h_store h) i = Some l" and eff: "effect_ok P h l r"
  shows "good P (store_listener h i (fst r), outs @ snd r)"
proof -
  let ?h = "store_listener h i (fst r)"
  have inv: "hub_inv h" and tr: "traced P h" and ot: "outs_traced P h outs" using g by (simp_all add: good_def)
  have id: "l_id l = i" "l_closed l \<longleftrightarrow> i \<notin> set (h_listeners h)" using inv l by (auto simp: hub_inv_def)
  have ent: "entitled P (fst r) e \<longleftrightarrow> entitled P l e" for e using eff by (simp add: effect_ok_def entitled_def)
  have lk: "l_ok ?h c \<longleftrightarrow> l_ok h c" for c by (simp add: l_ok_def store_listener_def)
  have "hub_inv ?h" unfolding hub_inv_def lk
    using inv eff id by (auto simp: hub_inv_def effect_ok_def store_listener_def split: if_splits)
  moreover have "traced P ?h"
    using tr eff ent by (auto simp: traced_def effect_ok_def store_listener_def split: if_splits)
  moreover have "outs_traced P ?h (outs @ snd r)" unfolding outs_traced_def
  proof (intro allI impI)
    fix j x e assume "Deliver j x e \<in> set (outs @ snd r)"
    then consider "Deliver j x e \<in> set outs" | "Deliver j x e \<in> set (snd r)" by auto
    then show "\<exists>c. map_get (h_store ?h) j = Some c \<and> entitled P c e"
    proof cases
      case 1
      from ot [unfolded outs_traced_def, rule_format, OF 1] obtain c where "map_get (h_store h) j = Some c" "entitled P c e"
        by blast
      with l ent show ?thesis by (cases "j = i") (auto simp: store_listener_def)
    next
      case 2
      with eff id ent show ?thesis by (auto simp: effect_ok_def store_listener_def)
    qed
  qed
  ultimately show ?thesis by (simp add: good_def)
qed

lemma good_listener:
  assumes "good P (h, outs)" and "map_get (h_store h) i = Some l"
  shows "l_ok h l" and "l_id l = i" and "\<forall>q \<in> set (l_queue l). entitled P l (fst q)"
  using assms by (auto simp: good_def hub_inv_def traced_def)

lemma publish_one_good:
  assumes "good P acc" and "(part, e) \<in> P"
  shows "good P (publish_one part e n acc i)"
proof (cases "map_get (h_store (fst acc)) i")
  case (Some l)
  show ?thesis
  proof (cases "wants part e l")
    case True
    have g: "good P (fst acc, snd acc)" using assms(1) by simp
    have "effect_ok P (fst acc) l (offer (fst acc) e n l)"
      using good_listener [OF g Some] True assms(2) by (intro offer_effect) (auto simp: wants_def entitled_def)
    from good_store [OF g Some this] Some True show ?thesis by (simp add: publish_one_def)
  qed (use assms Some in \<open>simp add: publish_one_def\<close>)
qed (use assms in \<open>simp add: publish_one_def\<close>)

lemma foldl_keeps: "Q a \<Longrightarrow> (\<And>a x. Q a \<Longrightarrow> Q (f a x)) \<Longrightarrow> Q (foldl f a xs)"
  by (induction xs arbitrary: a) auto

lemma close_hub_one_good: "good P acc \<Longrightarrow> good P (close_hub_one acc i)"
  using good_store [of P "fst acc" "snd acc" i _ "close_listener _", OF _ _ close_effect]
  by (auto simp: close_hub_one_def split: option.split)

lemma next_good:
  assumes "good P (h, [])" shows "good P (next_event h i r)"
proof (cases "map_get (h_store h) i")
  case (Some l)
  note gl = good_listener [OF assms Some]
  show ?thesis
  proof (cases "l_queue l")
    case (Cons q qs)
    have "\<not> exceeds (length qs) (h_maxEvents h)" "\<not> exceeds (sum_list (map snd qs)) (h_maxBytes h)"
      using gl(1) Cons by (auto simp: l_ok_def exceeds_def split: option.splits)
    with gl Cons have "effect_ok P h l (l\<lparr>l_queue := qs, l_queuedBytes := l_queuedBytes l - snd q\<rparr>, [Deliver i r (fst q)])"
      by (auto simp: effect_ok_def l_ok_def)
    from good_store [OF assms Some this] Some Cons show ?thesis by (simp add: next_event_def)
  next
    case Nil
    show ?thesis
    proof (cases "l_closed l")
      case True
      with Some Nil assms show ?thesis by (simp add: next_event_def good_def outs_traced_def)
    next
      case False
      with gl Nil have "effect_ok P h l (l\<lparr>l_waiters := l_waiters l @ [r]\<rparr>, [])"
        by (auto simp: effect_ok_def l_ok_def)
      from good_store [OF assms Some this] Some Nil False show ?thesis by (simp add: next_event_def)
    qed
  qed
qed (use assms in \<open>simp add: next_event_def\<close>)

section \<open>Runs\<close>

text \<open>Listeners stay what they were created as.\<close>

definition kept :: "hub \<Rightarrow> hub \<Rightarrow> bool" where
  "kept h h' \<longleftrightarrow> (\<forall>i l. map_get (h_store h) i = Some l
      \<longrightarrow> (\<exists>l'. map_get (h_store h') i = Some l' \<and> (\<forall>P e. entitled P l' e = entitled P l e)))"

lemma kept_refl [simp]: "kept h h"
  by (auto simp: kept_def)

lemma kept_trans: "kept h h1 \<Longrightarrow> kept h1 h2 \<Longrightarrow> kept h h2"
  unfolding kept_def by metis

lemma kept_store:
  "map_get (h_store h) i = Some l \<Longrightarrow> l_partition l' = l_partition l \<Longrightarrow> l_kinds l' = l_kinds l
   \<Longrightarrow> kept h (store_listener h i l')"
  by (auto simp: kept_def store_listener_def entitled_def)

lemma offer_same: "l_partition (fst (offer h e n l)) = l_partition l" "l_kinds (fst (offer h e n l)) = l_kinds l"
  by (auto simp: offer_def close_listener_def enqueue_event_def coalesce_def Let_def split: list.split option.split)

lemma close_same: "l_partition (fst (close_listener l)) = l_partition l" "l_kinds (fst (close_listener l)) = l_kinds l"
  by (simp_all add: close_listener_def)

lemma publish_one_kept: "kept h (fst acc) \<Longrightarrow> kept h (fst (publish_one part e n acc i))"
  using kept_trans [OF _ kept_store [OF _ offer_same]]
  by (auto simp: publish_one_def split: option.split)

lemma close_hub_one_kept: "kept h (fst acc) \<Longrightarrow> kept h (fst (close_hub_one acc i))"
  using kept_trans [OF _ kept_store [OF _ close_same]]
  by (auto simp: close_hub_one_def split: option.split)

lemma apply_hub_kept:
  assumes "fresh_op op h" shows "kept h (fst (apply_hub sha256 op h))"
proof (cases op)
  case (Subscribe i c kinds)
  with assms show ?thesis by (auto simp: kept_def subscribe_def)
next
  case (Publish c e)
  then show ?thesis by (auto simp: publish_def intro!: foldl_keeps [where Q = "\<lambda>acc. kept h (fst acc)"] publish_one_kept)
next
  case (Next i r)
  then show ?thesis by (auto simp: next_event_def intro!: kept_store split: option.split list.split)
next
  case (CloseSubscription i)
  then show ?thesis by (auto simp: close_subscription_def close_same intro!: kept_store split: option.split)
next
  case CloseHub
  then show ?thesis by (auto simp: close_hub_def intro!: foldl_keeps [where Q = "\<lambda>acc. kept h (fst acc)"] close_hub_one_kept)
qed

fun published :: "(string \<Rightarrow> string) \<Rightarrow> hub_op \<Rightarrow> (string \<times> sub_event) set" where
  "published sha256 (Publish c e) = {(partition_of sha256 c, e)}"
| "published sha256 _ = {}"

lemma good_mono: "good P acc \<Longrightarrow> P \<subseteq> P' \<Longrightarrow> good P' acc"
  by (fastforce simp: good_def traced_def outs_traced_def entitled_def)

lemma apply_hub_good:
  assumes g: "good P (h, [])" and f: "fresh_op op h"
  shows "good (P \<union> published sha256 op) (apply_hub sha256 op h)"
proof (cases op)
  case (Subscribe i c kinds)
  with f have none: "map_get (h_store h) i = None" by simp
  have inv: "hub_inv h" and tr: "traced P h" using g by (simp_all add: good_def)
  have nin: "i \<notin> set (h_listeners h)" using inv none by (auto simp: hub_inv_def)
  have lk: "l_ok (subscribe sha256 h i c kinds) l \<longleftrightarrow> l_ok h l" for l by (simp add: l_ok_def subscribe_def)
  have "l_ok h \<lparr>l_id = i, l_partition = partition_of sha256 c, l_kinds = kinds, l_queue = [], l_waiters = [],
      l_queuedBytes = 0, l_closed = False\<rparr>" by (simp add: l_ok_def)
  with inv nin have "hub_inv (subscribe sha256 h i c kinds)" unfolding hub_inv_def lk
    by (auto simp: subscribe_def)
  moreover have "traced P (subscribe sha256 h i c kinds)" using tr by (auto simp: traced_def subscribe_def)
  ultimately show ?thesis using Subscribe by (simp add: good_def outs_traced_def)
next
  case (Publish c e)
  have "good (P \<union> {(partition_of sha256 c, e)}) (h, [])" by (rule good_mono [OF g]) auto
  then show ?thesis using Publish
    by (auto simp: publish_def intro!: foldl_keeps [where Q = "good _"] publish_one_good)
next
  case (Next i r)
  with next_good [OF g] show ?thesis by simp
next
  case (CloseSubscription i)
  show ?thesis
  proof (cases "map_get (h_store h) i")
    case (Some l)
    with g good_store [OF g Some close_effect] CloseSubscription show ?thesis by (simp add: close_subscription_def)
  qed (use g CloseSubscription in \<open>simp add: close_subscription_def\<close>)
next
  case CloseHub
  with g show ?thesis by (auto simp: close_hub_def intro!: foldl_keeps [where Q = "good _"] close_hub_one_good)
qed

lemma good_Nil: "good P acc \<Longrightarrow> good P (fst acc, [])"
  by (simp add: good_def outs_traced_def)

definition hub_start :: "hub \<Rightarrow> bool" where
  "hub_start h \<longleftrightarrow> (\<exists>me mb. h = new_hub me mb)"

lemma start_good: "hub_start h \<Longrightarrow> good {} (h, [])"
  by (auto simp: hub_start_def new_hub_def good_def hub_inv_def traced_def outs_traced_def)

lemma step_good:
  assumes "good P (h, [])" and "hub_step sha256 h x h'"
  shows "good (P \<union> published sha256 (fst x)) (h', snd x)" and "kept h h'"
proof -
  from assms(2) have f: "fresh_op (fst x) h" and a: "apply_hub sha256 (fst x) h = (h', snd x)" by (simp_all add: hub_step_def)
  show "good (P \<union> published sha256 (fst x)) (h', snd x)" using apply_hub_good [OF assms(1) f, of sha256] a by simp
  show "kept h h'" using apply_hub_kept [OF f] a by (metis fst_conv)
qed

interpretation hubs: safe_system hub_start "hub_step sha256" "\<lambda>h. \<exists>P. good P (h, [])" for sha256
proof unfold_locales
  fix h assume "hub_start h"
  then show "\<exists>P. good P (h, [])" using start_good by blast
next
  fix h x h' assume "\<exists>P. good P (h, [])" and "hub_step sha256 h x h'"
  then show "\<exists>P. good P (h', [])" using step_good(1) good_Nil by (metis fst_conv)
qed

text \<open>Every delivery of a run is traced to a publication of the run.\<close>

lemma runs_traced:
  assumes "runs (hub_step sha256) h xs h'" and "good P (h, [])"
    and "x \<in> set xs" and "Deliver i r e \<in> set (snd x)"
  shows "\<exists>l. map_get (h_store h') i = Some l \<and> entitled (P \<union> (\<Union>y \<in> set xs. published sha256 (fst y))) l e"
  using assms
proof (induction xs arbitrary: h P)
  case (Cons y ys)
  from Cons.prems(1) obtain h1 where st: "hub_step sha256 h y h1" and rs: "runs (hub_step sha256) h1 ys h'" by auto
  note g = step_good(1) [OF Cons.prems(2) st]
  have mono: "entitled Q l e \<Longrightarrow> Q \<subseteq> Q' \<Longrightarrow> entitled Q' l e" for Q Q' l by (auto simp: entitled_def)
  show ?case
  proof (cases "x \<in> set ys")
    case True
    from Cons.IH [OF rs good_Nil [OF g, unfolded fst_conv] True Cons.prems(4)] show ?thesis by (auto simp: Un_assoc)
  next
    case False
    with Cons.prems(3,4) have "Deliver i r e \<in> set (snd y)" by auto
    moreover have "outs_traced (P \<union> published sha256 (fst y)) h1 (snd y)" using g by (simp add: good_def)
    ultimately obtain l where l: "map_get (h_store h1) i = Some l" "entitled (P \<union> published sha256 (fst y)) l e"
      unfolding outs_traced_def by blast
    have "kept h1 h'" using rs
    proof (induction ys arbitrary: h1)
      case (Cons z zs)
      then obtain h2 where "hub_step sha256 h1 z h2" "runs (hub_step sha256) h2 zs h'" by auto
      moreover from this(1) have "kept h1 h2" using apply_hub_kept [of "fst z" h1 sha256] by (simp add: hub_step_def)
      ultimately show ?case using Cons.IH kept_trans by blast
    qed simp
    with l obtain l' where "map_get (h_store h') i = Some l'" "entitled (P \<union> published sha256 (fst y)) l' e"
      unfolding kept_def by blast
    then show ?thesis using mono [of "P \<union> published sha256 (fst y)" l'] by auto
  qed
qed simp

section \<open>What the hub promises\<close>

text \<open>In every reachable state each registered listener holds at most \<open>maxEvents\<close> events and \<open>maxBytes\<close>
  bytes, its byte counter is the sum of its events, no reader waits while an event is queued, and a closed
  listener is unregistered, empty and without readers.\<close>

lemma hub_bounds:
  assumes "reach hub_start (hub_step sha256) h" and "map_get (h_store h) i = Some l"
  shows "(\<forall>m. h_maxEvents h = Some m \<longrightarrow> length (l_queue l) \<le> m)
    \<and> l_queuedBytes l = sum_list (map snd (l_queue l)) \<and> (\<forall>m. h_maxBytes h = Some m \<longrightarrow> l_queuedBytes l \<le> m)
    \<and> (l_waiters l \<noteq> [] \<longrightarrow> l_queue l = [])
    \<and> (l_closed l \<longleftrightarrow> i \<notin> set (h_listeners h)) \<and> (l_closed l \<longrightarrow> l_queue l = [] \<and> l_waiters l = [])"
proof -
  from hubs.reach_inv [OF assms(1)] obtain P where "good P (h, [])" by blast
  with assms(2) have "l_ok h l" "l_closed l \<longleftrightarrow> i \<notin> set (h_listeners h)" by (auto simp: good_def hub_inv_def)
  then show ?thesis by (auto simp: l_ok_def exceeds_def)
qed

text \<open>C36. Subscribers are isolated: whatever a reader receives was published, in the same run, in a context
  with the subscriber's partition digest, and has a kind the subscriber asked for.\<close>

theorem hub_isolation:
  assumes "hub_start h0" and "runs (hub_step sha256) h0 xs h" and "(op, outs) \<in> set xs" and "Deliver i r e \<in> set outs"
  shows "\<exists>l c outs'. map_get (h_store h) i = Some l \<and> (Publish c e, outs') \<in> set xs
    \<and> partition_of sha256 c = l_partition l \<and> (l_kinds l = [] \<or> event_type e \<in> set (l_kinds l))"
proof -
  from runs_traced [OF assms(2) start_good [OF assms(1)] assms(3), unfolded snd_conv, OF assms(4)]
  obtain l where l: "map_get (h_store h) i = Some l" "entitled (\<Union>y \<in> set xs. published sha256 (fst y)) l e"
    by auto
  then obtain y where y: "y \<in> set xs" "(l_partition l, e) \<in> published sha256 (fst y)" by (auto simp: entitled_def)
  then obtain c where c: "fst y = Publish c e" "partition_of sha256 c = l_partition l"
    by (cases "fst y") auto
  from y(1) c(1) have "(Publish c e, snd y) \<in> set xs" by (metis prod.collapse)
  with l c(2) show ?thesis by (auto simp: entitled_def)
qed

text \<open>The partition tells tenants, principals and grants apart, unless the digest has a collision.\<close>

lemma partition_of_separates:
  assumes "partition_of sha256 c = partition_of sha256 d"
  shows "(gc_tenant c = gc_tenant d \<and> gc_principal c = gc_principal d \<and> canon (JObj (gc_grant c)) = canon (JObj (gc_grant d)))
    \<or> (\<exists>x y. x \<noteq> y \<and> sha256 x = sha256 y)"
proof -
  let ?v = "\<lambda>c. JObj [(''tenant'', JStr (gc_tenant c)), (''principal'', JStr (gc_principal c)), (''grant'', JObj (gc_grant c))]"
  show ?thesis
  proof (cases "gateway_canonicalJson (?v c) = gateway_canonicalJson (?v d)")
    case True
    then have "canon (?v c) = canon (?v d)" by (simp only: gateway_canonicalJson_def print_inj)
    then show ?thesis by (simp add: less_list_code)
  next
    case False
    with assms show ?thesis by (auto simp: partition_of_def gateway_digest_def)
  qed
qed

section \<open>A concrete run\<close>

definition demo_context :: gateway_context where
  "demo_context = \<lparr>gc_tenant = ''acme'', gc_principal = ''ada'', gc_grant = [(''scope'', JStr ''read'')]\<rparr>"

definition demo_event :: sub_event where
  "demo_event = [(''type'', JStr ''resource/updated''), (''revision'', JStr ''r1'')]"

definition demo_hub0 :: hub where
  "demo_hub0 = new_hub (Some (Fin 4)) (Some (Fin 100))"

definition demo_hub_ops :: "hub_op list" where
  "demo_hub_ops = [Subscribe ''s1'' demo_context [], Publish demo_context demo_event, Next ''s1'' 7]"

fun hub_run :: "(string \<Rightarrow> string) \<Rightarrow> hub \<Rightarrow> hub_op list \<Rightarrow> (hub_op \<times> hub_out list) list \<times> hub" where
  "hub_run sha256 h [] = ([], h)"
| "hub_run sha256 h (op # ops) =
     ((op, snd (apply_hub sha256 op h)) # fst (hub_run sha256 (fst (apply_hub sha256 op h)) ops),
      snd (hub_run sha256 (fst (apply_hub sha256 op h)) ops))"

fun fresh_ops :: "(string \<Rightarrow> string) \<Rightarrow> hub \<Rightarrow> hub_op list \<Rightarrow> bool" where
  "fresh_ops sha256 h [] = True"
| "fresh_ops sha256 h (op # ops) = (fresh_op op h \<and> fresh_ops sha256 (fst (apply_hub sha256 op h)) ops)"

lemma hub_run_runs: "fresh_ops sha256 h ops \<Longrightarrow> runs (hub_step sha256) h (fst (hub_run sha256 h ops)) (snd (hub_run sha256 h ops))"
proof (induction ops arbitrary: h)
  case (Cons op ops)
  then have "hub_step sha256 h (op, snd (apply_hub sha256 op h)) (fst (apply_hub sha256 op h))" by (simp add: hub_step_def)
  with Cons show ?case by auto
qed simp

lemma demo_hub_start: "hub_start demo_hub0"
  by (auto simp: hub_start_def demo_hub0_def)

lemma demo_hub_runs: "runs (hub_step (\<lambda>_. ''d'')) demo_hub0 (fst (hub_run (\<lambda>_. ''d'') demo_hub0 demo_hub_ops))
    (snd (hub_run (\<lambda>_. ''d'') demo_hub0 demo_hub_ops))"
  by (rule hub_run_runs) (simp add: demo_hub_ops_def demo_hub0_def new_hub_def)

text \<open>The run by rewriting: a constant digest, and an event of 43 bytes.\<close>

lemma demo_partition: "partition_of (\<lambda>_. ''d'') c = ''d''"
  by (simp add: partition_of_def gateway_digest_def)

lemma demo_bytes: "eventBytes demo_event = 43"
  by code_simp

lemmas demo_run_simps = demo_partition demo_bytes demo_hub0_def new_hub_def subscribe_def publish_def publish_one_def
  wants_def offer_def exceeds_def reaches_def enqueue_event_def store_listener_def next_event_def

lemma demo_outputs:
  "fst (hub_run (\<lambda>_. ''d'') demo_hub0 demo_hub_ops)
     = [(Subscribe ''s1'' demo_context [], []), (Publish demo_context demo_event, []),
        (Next ''s1'' 7, [Deliver ''s1'' 7 demo_event])]"
  by (simp add: demo_hub_ops_def demo_run_simps)

theorem hub_isolation_witness:
  "\<exists>l c outs'. map_get (h_store (snd (hub_run (\<lambda>_. ''d'') demo_hub0 demo_hub_ops))) ''s1'' = Some l
    \<and> (Publish c demo_event, outs') \<in> set (fst (hub_run (\<lambda>_. ''d'') demo_hub0 demo_hub_ops))
    \<and> partition_of (\<lambda>_. ''d'') c = l_partition l \<and> (l_kinds l = [] \<or> event_type demo_event \<in> set (l_kinds l))"
proof -
  have "(Next ''s1'' 7, [Deliver ''s1'' 7 demo_event]) \<in> set (fst (hub_run (\<lambda>_. ''d'') demo_hub0 demo_hub_ops))"
    by (simp add: demo_outputs)
  from hub_isolation [OF demo_hub_start demo_hub_runs this, of "''s1''" 7 demo_event] show ?thesis by simp
qed

lemma hub_bounds_witness:
  "\<exists>(h::hub) l. map_get (h_store h) ''s1'' = Some l \<and> length (l_queue l) = 1 \<and> l_queuedBytes l = sum_list (map snd (l_queue l))"
proof -
  let ?r = "hub_run (\<lambda>_. ''d'') demo_hub0 [Subscribe ''s1'' demo_context [], Publish demo_context demo_event]"
  have rr: "runs (hub_step (\<lambda>_. ''d'')) demo_hub0 (fst ?r) (snd ?r)"
    by (rule hub_run_runs) (simp add: demo_hub0_def new_hub_def)
  have r: "reach hub_start (hub_step (\<lambda>_. ''d'')) (snd ?r)"
    by (rule reach_runs [OF _ rr], rule reach_start, rule demo_hub_start)
  have "map_option (length \<circ> l_queue) (map_get (h_store (snd ?r)) ''s1'') = Some 1" by (simp add: demo_run_simps)
  then obtain l where l: "map_get (h_store (snd ?r)) ''s1'' = Some l" "length (l_queue l) = 1" by auto
  with hub_bounds [OF r l(1)] have "l_queuedBytes l = sum_list (map snd (l_queue l))" by (elim conjE)
  with l show ?thesis by (intro exI [of _ "snd ?r"] exI [of _ l] conjI)
qed

end
