(* ===== verification/Continuations.thy ===== *)
theory Continuations
  imports GatewayUtils JsMap Systems
begin

text \<open>
  Continuation tokens of the gateway (\<open>packages/gateway/src/continuations/index.ts\<close>): the validation of a
  payload, what \<open>seal\<close> puts into a token and what \<open>#decode\<close> makes of it once it is decrypted and
  parsed, and the in-memory ledger that claims, settles and releases one-time tokens.  The cipher, the
  base64url segments and \<open>JSON.parse\<close> stand between \<open>seal_payload\<close> and \<open>open_payload\<close> and are not
  modelled; with a ledger of the profile the calls are forwarded to it.
\<close>

datatype cont_error =
    ContinuationInvalid | ContinuationExpired | ContinuationEpochExpired | TextRequired string
  | ContinuationOutcomeUnknown | ContinuationInProgress | ContinuationReplayed | ContinuationCapacity

section \<open>Payloads\<close>

definition required_texts :: "string list" where
  "required_texts = [''tokenId'', ''tenant'', ''principal'', ''grantRevision'', ''routeRef'', ''endpointIdentity'',
     ''routeRevision'', ''method'', ''paramsDigest'']"








section \<open>Sealing and opening\<close>



definition one_time :: "jsobj \<Rightarrow> bool" where
  "one_time p = truthy (prop_of p ''oneTime'')"





section \<open>The ledger\<close>

datatype token_state = Executing | Consumed | OutcomeUnknown

record ledger_entry =
  le_state :: token_state
  le_expiresAt :: int

type_synonym ledger = "(string, ledger_entry) jsmap"

definition expiry_of :: "jsobj \<Rightarrow> int" where
  "expiry_of p = (case prop_of p ''expiresAt'' of JNum (Fin i) \<Rightarrow> i | _ \<Rightarrow> 0)"

text \<open>The sweep of \<open>claim\<close> reads the clock once per entry.\<close>

fun sweep :: "(nat \<Rightarrow> int) \<Rightarrow> nat \<Rightarrow> ledger \<Rightarrow> ledger" where
  "sweep clock n [] = []"
| "sweep clock n (p # ps) =
     (if le_expiresAt (snd p) \<le> clock n then sweep clock (Suc n) ps else p # sweep clock (Suc n) ps)"

definition ledger_capacity :: nat where
  "ledger_capacity = 10000"

fun claim_error :: "token_state \<Rightarrow> cont_error" where
  "claim_error OutcomeUnknown = ContinuationOutcomeUnknown"
| "claim_error Executing = ContinuationInProgress"
| "claim_error Consumed = ContinuationReplayed"

definition claim :: "(nat \<Rightarrow> int) \<Rightarrow> jsobj \<Rightarrow> ledger \<Rightarrow> ledger \<times> cont_error option" where
  "claim clock p m =
     (if \<not> one_time p then (m, None)
      else case nonEmptyText (prop_of p ''tokenId'') of
        None \<Rightarrow> (m, Some (TextRequired ''tokenId''))
      | Some i \<Rightarrow>
          (let m' = sweep clock 0 m
           in case map_get m' i of
                Some e \<Rightarrow> (m', Some (claim_error (le_state e)))
              | None \<Rightarrow>
                  if length m' \<ge> ledger_capacity then (m', Some ContinuationCapacity)
                  else (map_set m' i \<lparr>le_state = Executing, le_expiresAt = expiry_of p\<rparr>, None)))"

definition settle :: "string \<Rightarrow> token_state \<Rightarrow> ledger \<Rightarrow> ledger" where
  "settle i outcome m = (case map_get m i of None \<Rightarrow> m | Some e \<Rightarrow> map_set m i (e\<lparr>le_state := outcome\<rparr>))"

definition token_state_of :: "string \<Rightarrow> ledger \<Rightarrow> token_state option" where
  "token_state_of i m = map_option le_state (map_get m i)"

definition release :: "string \<Rightarrow> ledger \<Rightarrow> ledger" where
  "release i m = (if token_state_of i m = Some Executing then map_del m i else m)"

datatype ledger_op =
    Claim "nat \<Rightarrow> int" jsobj
  | Settle string bool
  | Release string

fun apply_ledger :: "ledger_op \<Rightarrow> ledger \<Rightarrow> ledger \<times> cont_error option" where
  "apply_ledger (Claim clock p) m = claim clock p m"
| "apply_ledger (Settle i known) m = (settle i (if known then Consumed else OutcomeUnknown) m, None)"
| "apply_ledger (Release i) m = (release i m, None)"

definition ledger_step :: "ledger \<Rightarrow> ledger_op \<times> cont_error option \<Rightarrow> ledger \<Rightarrow> bool" where
  "ledger_step m x m' \<longleftrightarrow> apply_ledger (fst x) m = (m', snd x)"

section \<open>Lemmas on the ledger\<close>

lemma sweep_keeps: "map_get m i = Some e \<Longrightarrow> \<forall>n. clock n < le_expiresAt e \<Longrightarrow> map_get (sweep clock n m) i = Some e"
proof (induction m arbitrary: n)
  case (Cons p m)
  show ?case
  proof (cases "fst p = i")
    case True
    with Cons.prems have "snd p = e" by simp
    with Cons.prems(2) have "\<not> le_expiresAt (snd p) \<le> clock n" by (simp add: not_le)
    with True \<open>snd p = e\<close> show ?thesis by simp
  next
    case False
    with Cons show ?thesis by simp
  qed
qed simp

lemma sweep_sub: "set (sweep clock n m) \<subseteq> set m \<and> length (sweep clock n m) \<le> length m"
  by (induction clock n m rule: sweep.induct) auto

lemma sweep_wf: "wf_map m \<Longrightarrow> wf_map (sweep clock n m)"
proof (induction clock n m rule: sweep.induct)
  case (2 clock n p ps)
  then have "fst p \<notin> fst ` set (sweep clock (Suc n) ps)" using sweep_sub [of clock "Suc n" ps] by (auto simp: wf_map_def)
  with 2 show ?case by (simp add: wf_map_def)
qed simp

definition ledger_inv :: "ledger \<Rightarrow> bool" where
  "ledger_inv m \<longleftrightarrow> wf_map m \<and> length m \<le> ledger_capacity"

lemma claim_inv:
  assumes "ledger_inv m" shows "ledger_inv (fst (claim clock p m))"
proof -
  have "ledger_inv (sweep clock 0 m)" using assms sweep_sub [of clock 0 m] by (auto simp: ledger_inv_def sweep_wf)
  then show ?thesis using assms
    by (auto simp: claim_def Let_def ledger_inv_def length_map_set split: option.split)
qed

interpretation ledgers: safe_system "\<lambda>m. m = []" ledger_step ledger_inv
proof unfold_locales
  fix m :: ledger assume "m = []"
  then show "ledger_inv m" by (simp add: ledger_inv_def)
next
  fix m m' :: ledger and x assume inv: "ledger_inv m" and st: "ledger_step m x m'"
  then have m': "m' = fst (apply_ledger (fst x) m)" by (simp add: ledger_step_def)
  show "ledger_inv m'"
  proof (cases "fst x")
    case (Claim clock p)
    with m' claim_inv [OF inv] show ?thesis by simp
  next
    case (Settle i known)
    with m' inv show ?thesis by (auto simp: settle_def ledger_inv_def length_map_set split: option.split)
  next
    case (Release i)
    with m' inv length_map_del_le [of m i] show ?thesis by (auto simp: release_def ledger_inv_def)
  qed
qed

text \<open>Operations that cannot free a claimed token: no release of it, unless it was settled before.\<close>

fun no_reopen :: "string \<Rightarrow> ledger_op list \<Rightarrow> bool" where
  "no_reopen i [] = True"
| "no_reopen i (Claim c p # ops) = no_reopen i ops"
| "no_reopen i (Settle j k # ops) = (j = i \<or> no_reopen i ops)"
| "no_reopen i (Release j # ops) = (j \<noteq> i \<and> no_reopen i ops)"

fun clocks_before :: "int \<Rightarrow> ledger_op list \<Rightarrow> bool" where
  "clocks_before e [] = True"
| "clocks_before e (Claim c p # ops) = ((\<forall>n. c n < e) \<and> clocks_before e ops)"
| "clocks_before e (_ # ops) = clocks_before e ops"

lemma claim_other:
  assumes "map_get m i = Some e" and "\<forall>n. clock n < le_expiresAt e"
  shows "map_get (fst (claim clock p m)) i = Some e"
proof (cases "one_time p")
  case True
  show ?thesis
  proof (cases "nonEmptyText (prop_of p ''tokenId'')")
    case None
    with True assms show ?thesis by (simp add: claim_def)
  next
    case (Some j)
    note s = sweep_keeps [OF assms, of 0]
    show ?thesis
    proof (cases "map_get (sweep clock 0 m) j")
      case None
      with s have "j \<noteq> i" by auto
      with True Some None s show ?thesis by (simp add: claim_def Let_def)
    next
      case (Some f)
      with True \<open>nonEmptyText (prop_of p ''tokenId'') = Some j\<close> s show ?thesis by (simp add: claim_def Let_def)
    qed
  qed
qed (use assms in \<open>simp add: claim_def\<close>)

lemma claimed_stays:
  assumes "runs ledger_step m xs m'" and "map_get m i = Some e" and "clocks_before (le_expiresAt e) (map fst xs)"
    and "le_state e \<noteq> Executing \<or> no_reopen i (map fst xs)"
  shows "\<exists>e'. map_get m' i = Some e' \<and> le_expiresAt e' = le_expiresAt e"
  using assms
proof (induction xs arbitrary: m e)
  case (Cons x xs)
  then obtain m1 where st: "ledger_step m x m1" and rs: "runs ledger_step m1 xs m'" by auto
  from st have m1: "m1 = fst (apply_ledger (fst x) m)" by (simp add: ledger_step_def)
  have "\<exists>e1. map_get m1 i = Some e1 \<and> le_expiresAt e1 = le_expiresAt e
      \<and> clocks_before (le_expiresAt e1) (map fst xs) \<and> (le_state e1 \<noteq> Executing \<or> no_reopen i (map fst xs))"
  proof (cases "fst x")
    case (Claim c p)
    with Cons.prems m1 claim_other [of m i e c p] show ?thesis by auto
  next
    case (Settle j k)
    show ?thesis
    proof (cases "j = i")
      case True
      with Settle Cons.prems m1 show ?thesis by (auto simp: settle_def)
    next
      case False
      with Settle Cons.prems m1 show ?thesis by (auto simp: settle_def split: option.split)
    qed
  next
    case (Release j)
    with Cons.prems m1 show ?thesis by (auto simp: release_def token_state_of_def)
  qed
  then obtain e1 where "map_get m1 i = Some e1" "le_expiresAt e1 = le_expiresAt e"
      "clocks_before (le_expiresAt e1) (map fst xs)" "le_state e1 \<noteq> Executing \<or> no_reopen i (map fst xs)" by blast
  from Cons.IH [OF rs this(1,3,4)] this(2) show ?case by simp
qed simp

lemma claim_accepted:
  assumes "claim clock p m = (m', None)" and "one_time p" and "nonEmptyText (prop_of p ''tokenId'') = Some i"
  shows "map_get m' i = Some \<lparr>le_state = Executing, le_expiresAt = expiry_of p\<rparr>"
  using assms by (auto simp: claim_def Let_def split: option.splits if_splits)

section \<open>Lemmas on payloads\<close>







section \<open>What continuations promise\<close>

text \<open>C33. A one-time token is claimed at most once: after an accepted claim, whatever claims, settlements and
  releases happen, a second claim of the token before its expiry is refused as a replay, unless the token
  was released while its execution was still open.\<close>

theorem claim_at_most_once:
  assumes "runs ledger_step m ((Claim c p, None) # xs @ [(Claim d q, r)]) m'"
    and "one_time p" and "nonEmptyText (prop_of p ''tokenId'') = Some i"
    and "one_time q" and "nonEmptyText (prop_of q ''tokenId'') = Some i"
    and "no_reopen i (map fst xs)" and "clocks_before (expiry_of p) (map fst xs)" and "\<forall>n. d n < expiry_of p"
  shows "r \<in> {Some ContinuationInProgress, Some ContinuationReplayed, Some ContinuationOutcomeUnknown}"
proof -
  from assms(1) obtain m1 m2 where c1: "claim c p m = (m1, None)" and rs: "runs ledger_step m1 xs m2"
      and c2: "claim d q m2 = (m', r)"
    by (auto simp: runs_append ledger_step_def)
  from claimed_stays [OF rs claim_accepted [OF c1 assms(2,3)]] assms(6,7)
  obtain e where e: "map_get m2 i = Some e" "le_expiresAt e = expiry_of p" by auto
  from sweep_keeps [OF e(1), of d 0] e(2) assms(8) have "map_get (sweep d 0 m2) i = Some e" by simp
  with c2 assms(4,5) have "r = Some (claim_error (le_state e))" by (simp add: claim_def Let_def)
  then show ?thesis by (cases "le_state e") simp_all
qed


section \<open>Concrete tokens\<close>

definition demo_payload :: jsobj where
  "demo_payload = map (\<lambda>k. (k, JStr ''x'')) required_texts @ [(''generation'', JNum (Fin 1)), (''oneTime'', JBool True),
     (''issuedAt'', JNum (Fin 10)), (''expiresAt'', JNum (Fin 5000)), (''upstreamState'', JObj [(''present'', JBool False)])]"

theorem claim_at_most_once_witness:
  "snd (claim (\<lambda>_. 20) demo_payload (settle ''x'' Consumed (fst (claim (\<lambda>_. 20) demo_payload []))))
    \<in> {Some ContinuationInProgress, Some ContinuationReplayed, Some ContinuationOutcomeUnknown}"
proof -
  let ?c = "claim (\<lambda>_. 20) demo_payload []"
  let ?d = "claim (\<lambda>_. 20) demo_payload (settle ''x'' Consumed (fst ?c))"
  have v: "one_time demo_payload" "nonEmptyText (prop_of demo_payload ''tokenId'') = Some ''x''"
      "expiry_of demo_payload = 5000" by code_simp+
  have acc: "snd ?c = None" using v by (simp add: claim_def Let_def ledger_capacity_def)
  have rs: "runs ledger_step [] ((Claim (\<lambda>_. 20) demo_payload, None) # [(Settle ''x'' True, None)] @ [(Claim (\<lambda>_. 20) demo_payload, snd ?d)]) (fst ?d)"
    using acc by (auto simp: ledger_step_def prod_eq_iff intro!: exI)
  show ?thesis by (rule claim_at_most_once [OF rs v(1,2) v(1,2)]) (simp_all add: v)
qed


end
