(* ===== verification/QueuePolicies.thy ===== *)
theory QueuePolicies
  imports GatewayUtils JsMap
begin

text \<open>
  Policies of the work queue: limits and retry delays (\<open>packages/foundation/src/work-queue/policies.ts\<close>),
  weighted priorities, aging and capacity checks (\<open>scheduling.ts\<close>), queue scopes and definition states
  (\<open>definitions.ts\<close>).  Numbers are integers, \<open>NaN\<close> or infinite; a product beyond the range where
  doubles are exact is above every delay limit and is cut off by it, so it is computed exactly here.
\<close>

section \<open>Limits\<close>

definition max_in_flight_hard_limit :: int where
  "max_in_flight_hard_limit = 8192"

definition default_max_in_flight :: int where
  "default_max_in_flight = 1000"

fun asInt :: "jsnum \<Rightarrow> int \<Rightarrow> int" where
  "asInt (Fin i) fallback = i"
| "asInt _ fallback = fallback"

record resolved_limit =
  rl_requested :: int
  rl_normalizedRequested :: int
  rl_limit :: int
  rl_clamped :: bool

definition resolveQueueMaxInFlight :: "jsnum option \<Rightarrow> jsnum \<Rightarrow> resolved_limit" where
  "resolveQueueMaxInFlight value fallback =
     (let fallbackLimit = max 1 (asInt fallback default_max_in_flight);
          requested = (case value of None \<Rightarrow> fallbackLimit | Some v \<Rightarrow> asInt v fallbackLimit);
          normalized = max 1 requested;
          limit = min normalized max_in_flight_hard_limit
      in \<lparr>rl_requested = requested, rl_normalizedRequested = normalized, rl_limit = limit, rl_clamped = (normalized \<noteq> limit)\<rparr>)"

definition normalizeQueueMaxInFlight :: "jsnum option \<Rightarrow> jsnum \<Rightarrow> int" where
  "normalizeQueueMaxInFlight value fallback = rl_limit (resolveQueueMaxInFlight value fallback)"

lemma max_in_flight_range: "1 \<le> normalizeQueueMaxInFlight v f \<and> normalizeQueueMaxInFlight v f \<le> max_in_flight_hard_limit"
  by (simp add: normalizeQueueMaxInFlight_def resolveQueueMaxInFlight_def Let_def max_in_flight_hard_limit_def)

section \<open>Retry delays\<close>

text \<open>\<open>Number(attempt || 1)\<close>, at least one; an infinite attempt has no integer and hits the limit.\<close>

fun safe_attempt :: "jsnum option \<Rightarrow> int option" where
  "safe_attempt (Some (Fin i)) = Some (max 1 (if i = 0 then 1 else i))"
| "safe_attempt (Some PosInf) = None"
| "safe_attempt _ = Some 1"

definition computeDeterministicBackoff :: "jsnum option \<Rightarrow> int \<Rightarrow> int \<Rightarrow> int \<Rightarrow> int" where
  "computeDeterministicBackoff attempt initialDelay multiplier maxDelay =
     (case safe_attempt attempt of
        None \<Rightarrow> if multiplier > 1 \<and> initialDelay > 0 then maxDelay else min initialDelay maxDelay
      | Some a \<Rightarrow> min (initialDelay * multiplier ^ nat (a - 1)) maxDelay)"

definition readUInt32BE :: "nat list \<Rightarrow> nat" where
  "readUInt32BE bs = ((bs ! 0 * 256 + bs ! 1) * 256 + bs ! 2) * 256 + bs ! 3"

definition retry_key :: "string \<Rightarrow> string \<Rightarrow> string \<Rightarrow> jsnum option \<Rightarrow> string" where
  "retry_key seed queueId itemId attempt =
     seed @ [CHR 0x00] @ queueId @ [CHR 0x00] @ itemId @ [CHR 0x00]
     @ show_int (max 1 (case attempt of None \<Rightarrow> 1 | Some a \<Rightarrow> asInt a 1))"

definition jitter_ceiling :: "int \<Rightarrow> jsnum \<Rightarrow> int" where
  "jitter_ceiling base bps = (base * max 0 (min 10000 (asInt bps 0))) div 10000"

definition computeDeterministicRetryDelay ::
    "(string \<Rightarrow> nat list) \<Rightarrow> string \<Rightarrow> string \<Rightarrow> string \<Rightarrow> jsnum option \<Rightarrow> jsnum \<Rightarrow> int \<Rightarrow> int \<Rightarrow> int \<Rightarrow> int" where
  "computeDeterministicRetryDelay sha256 seed queueId itemId attempt bps initialDelay multiplier maxDelay =
     (let base = computeDeterministicBackoff attempt initialDelay multiplier maxDelay;
          ceiling = jitter_ceiling base bps
      in if ceiling \<le> 0 then base
         else base + int (readUInt32BE (sha256 (retry_key seed queueId itemId attempt))) mod (ceiling + 1))"

section \<open>Priorities\<close>

datatype priority_class = Critical | High | Normal | Low

definition priority_weights :: "(priority_class \<times> nat) list" where
  "priority_weights = [(Critical, 8), (High, 4), (Normal, 2), (Low, 1)]"

definition priority_cycle :: "priority_class list" where
  "priority_cycle = concat (map (\<lambda>(c, w). replicate w c) priority_weights)"

definition normalizeWorkQueuePriority :: "jsnum \<Rightarrow> int \<times> priority_class" where
  "normalizeWorkQueuePriority v =
     (let p = asInt v 0
      in if p \<ge> 2 then (2, Critical) else if p = 1 then (1, High) else if p < 0 then (-1, Low) else (0, Normal))"

text \<open>\<open>Math.max(0, Math.trunc(Number(cursor) || 0))\<close> of a finite cursor.\<close>

fun cursor_value :: "jsnum \<Rightarrow> nat" where
  "cursor_value (Fin i) = nat (max 0 i)"
| "cursor_value _ = 0"

definition priorityClassAtCursor :: "jsnum \<Rightarrow> priority_class" where
  "priorityClassAtCursor cursor = priority_cycle ! (cursor_value cursor mod length priority_cycle)"

definition nextPriorityCursor :: "jsnum \<Rightarrow> jsnum" where
  "nextPriorityCursor cursor = Fin (int ((cursor_value cursor + 1) mod length priority_cycle))"

definition aging_classes :: "priority_class list" where
  "aging_classes = [Low, Normal, High, Critical]"

fun class_index :: "priority_class \<Rightarrow> nat" where
  "class_index Low = 0" | "class_index Normal = 1" | "class_index High = 2" | "class_index Critical = 3"

definition agedWorkQueuePriorityClass :: "jsnum \<Rightarrow> int \<Rightarrow> int \<Rightarrow> jsnum \<Rightarrow> priority_class" where
  "agedWorkQueuePriorityClass priority availableAt now interval =
     (let step = max 1 (asInt interval 1);
          base = class_index (snd (normalizeWorkQueuePriority priority));
          promotions = nat (max 0 ((now - availableAt) div step))
      in aging_classes ! min (length aging_classes - 1) (base + promotions))"

section \<open>Scopes, capacity and definition states\<close>

definition text_of :: "jsval \<Rightarrow> string" where
  "text_of v = js_trim (js_string (js_or v (JStr [])))"

definition hierarchicalScopeParts :: "jsobj \<Rightarrow> string \<times> string \<times> string" where
  "hierarchicalScopeParts scope =
     (text_of (prop_of scope ''tenantId''), text_of (prop_of scope ''workspaceId''), text_of (prop_of scope ''projectId''))"

text \<open>The comparison of two numbers, false when one is \<open>NaN\<close>.\<close>

fun num_le :: "jsnum \<Rightarrow> jsnum \<Rightarrow> bool" where
  "num_le NaN _ = False"
| "num_le _ NaN = False"
| "num_le NegInf _ = True"
| "num_le _ PosInf = True"
| "num_le (Fin i) (Fin j) = (i \<le> j)"
| "num_le _ _ = False"

definition num_less :: "jsnum \<Rightarrow> jsnum \<Rightarrow> bool" where
  "num_less a b = (num_le a b \<and> \<not> num_le b a)"

definition msg_capacity :: "string \<Rightarrow> string" where
  "msg_capacity reason = ''Work queue capacity exceeded: '' @ reason @ ''.''"

definition assertCapacityBelow :: "jsnum \<Rightarrow> jsnum \<Rightarrow> string \<Rightarrow> string option" where
  "assertCapacityBelow used limit reason = (if num_le limit used then Some (msg_capacity reason) else None)"

definition assertCapacityAtMost :: "jsnum \<Rightarrow> jsnum \<Rightarrow> string \<Rightarrow> string option" where
  "assertCapacityAtMost used limit reason = (if num_less limit used then Some (msg_capacity reason) else None)"

definition scope_keys :: "string list" where
  "scope_keys = [''tenantId'', ''workspaceId'', ''projectId'', ''deploymentId'']"

definition msg_scope :: string where
  "msg_scope = ''Queue scope must be a structured object.''"

definition normalizeStructuredQueueScope :: "jsval \<Rightarrow> string + (string, string) jsmap" where
  "normalizeStructuredQueueScope scope =
     (case scope of
        JObj ps \<Rightarrow> Inr (filter (\<lambda>p. snd p \<noteq> []) (map (\<lambda>k. (k, text_of (prop_of ps k))) scope_keys))
      | JUndef \<Rightarrow> Inr []
      | _ \<Rightarrow> Inl msg_scope)"

definition msg_label :: string where
  "msg_label = ''Queue label is required.''"

definition normalizeQueueLabel :: "jsval \<Rightarrow> string + string" where
  "normalizeQueueLabel v = (if text_of v = [] then Inl msg_label else Inr (text_of v))"

definition msg_definition_required :: string where
  "msg_definition_required = ''Queue definition is required.''"

definition msg_definition_id :: string where
  "msg_definition_id = ''Queue definition id is required.''"

definition msg_definition_disabled :: string where
  "msg_definition_disabled = ''Queue definition is disabled.''"

definition msg_definition_deprecated :: string where
  "msg_definition_deprecated = ''Queue definition is deprecated.''"

definition msg_definition_state :: "string \<Rightarrow> string" where
  "msg_definition_state s = ''Unknown queue definition lifecycle state: '' @ s"

fun assertQueueDefinitionCanEnqueue :: "jsval \<Rightarrow> string option" where
  "assertQueueDefinitionCanEnqueue (JObj ps) =
     (let state = js_or (prop_of ps ''lifecycleState'') (JStr ''active'')
      in if \<not> truthy (prop_of ps ''queueDefinitionId'') then Some msg_definition_id
         else if state = JStr ''disabled'' then Some msg_definition_disabled
         else if state = JStr ''deprecated'' \<and> prop_of ps ''allowDeprecatedEnqueue'' \<noteq> JBool True
         then Some msg_definition_deprecated
         else if state \<noteq> JStr ''active'' \<and> state \<noteq> JStr ''disabled'' \<and> state \<noteq> JStr ''deprecated''
         then Some (msg_definition_state (js_string state))
         else None)"
| "assertQueueDefinitionCanEnqueue (JArr _) = Some msg_definition_id"
| "assertQueueDefinitionCanEnqueue _ = Some msg_definition_required"

lemma enqueue_allowed_iff:
  "assertQueueDefinitionCanEnqueue (JObj ps) = None \<longleftrightarrow>
     truthy (prop_of ps ''queueDefinitionId'')
     \<and> (js_or (prop_of ps ''lifecycleState'') (JStr ''active'') = JStr ''active''
        \<or> js_or (prop_of ps ''lifecycleState'') (JStr ''active'') = JStr ''deprecated''
          \<and> prop_of ps ''allowDeprecatedEnqueue'' = JBool True)"
  by (auto simp: Let_def)

section \<open>Lemmas\<close>

lemma backoff_bounds:
  assumes "0 \<le> initialDelay" "1 \<le> multiplier" "0 \<le> maxDelay"
  shows "0 \<le> computeDeterministicBackoff a initialDelay multiplier maxDelay"
    and "computeDeterministicBackoff a initialDelay multiplier maxDelay \<le> maxDelay"
  using assms by (simp_all add: computeDeterministicBackoff_def split: option.split)

lemma backoff_mono:
  assumes "0 \<le> initialDelay" "1 \<le> multiplier" "1 \<le> i" "i \<le> j"
  shows "computeDeterministicBackoff (Some (Fin i)) initialDelay multiplier maxDelay
    \<le> computeDeterministicBackoff (Some (Fin j)) initialDelay multiplier maxDelay"
proof -
  have "initialDelay * multiplier ^ nat (i - 1) \<le> initialDelay * multiplier ^ nat (j - 1)"
    using assms by (intro mult_left_mono power_increasing) auto
  with assms show ?thesis by (simp add: computeDeterministicBackoff_def max_def min_def)
qed

lemma cycle_length: "length priority_cycle = 15"
  by (simp add: priority_cycle_def priority_weights_def)

lemma count_list_rotate: "count_list (rotate n xs) x = count_list xs x"
proof (induction n arbitrary: xs)
  case (Suc n)
  have "count_list (rotate1 ys) x = count_list ys x" for ys by (cases ys) simp_all
  with Suc show ?case by simp
qed simp

lemma aged_index: "aging_classes ! class_index c = c"
  by (cases c) (simp_all add: aging_classes_def)

section \<open>What the policies promise\<close>

text \<open>A retry delay is the backoff plus a jitter of at most the configured share of it: the backoff does not
  exceed the maximal delay and grows with the attempt, and the jitter lies between nothing and the share.\<close>

lemma retry_delay_bounds:
  assumes "0 \<le> initialDelay" "1 \<le> multiplier" "0 \<le> maxDelay" "1 \<le> i" "i \<le> j"
  shows "computeDeterministicBackoff (Some (Fin i)) initialDelay multiplier maxDelay
      \<le> computeDeterministicBackoff (Some (Fin j)) initialDelay multiplier maxDelay
    \<and> computeDeterministicBackoff (Some (Fin j)) initialDelay multiplier maxDelay \<le> maxDelay
    \<and> computeDeterministicBackoff a initialDelay multiplier maxDelay
      \<le> computeDeterministicRetryDelay sha256 seed q w a bps initialDelay multiplier maxDelay
    \<and> computeDeterministicRetryDelay sha256 seed q w a bps initialDelay multiplier maxDelay
      \<le> computeDeterministicBackoff a initialDelay multiplier maxDelay
        + computeDeterministicBackoff a initialDelay multiplier maxDelay * max 0 (min 10000 (asInt bps 0)) div 10000"
proof -
  let ?b = "computeDeterministicBackoff a initialDelay multiplier maxDelay"
  let ?c = "jitter_ceiling ?b bps"
  let ?n = "int (readUInt32BE (sha256 (retry_key seed q w a)))"
  have "0 \<le> ?c" unfolding jitter_ceiling_def using backoff_bounds(1) [OF assms(1-3), of a]
    by (intro pos_imp_zdiv_nonneg_iff [THEN iffD2]) auto
  moreover have "0 < ?c \<Longrightarrow> 0 \<le> ?n mod (?c + 1) \<and> ?n mod (?c + 1) \<le> ?c"
    using pos_mod_bound [of "?c + 1" ?n] pos_mod_sign [of "?c + 1" ?n] by simp
  ultimately show ?thesis using backoff_mono [OF assms(1,2,4,5), of maxDelay] backoff_bounds(2) [OF assms(1-3)]
    by (auto simp: computeDeterministicRetryDelay_def Let_def jitter_ceiling_def)
qed

lemma retry_delay_bounds_witness:
  "computeDeterministicBackoff (Some (Fin 1)) 1000 2 300000 \<le> computeDeterministicBackoff (Some (Fin 20)) 1000 2 300000
    \<and> computeDeterministicBackoff (Some (Fin 20)) 1000 2 300000 \<le> 300000"
  using retry_delay_bounds [of 1000 2 300000 1 20] by simp

text \<open>The weighted cycle starves no class: whatever the cursor, the next fifteen turns serve critical work
  eight times, high four times, normal twice and low once; and work that has waited three aging intervals
  is critical whatever its priority.\<close>

lemma priority_turns_are_weighted:
  "count_list (map (\<lambda>k. priorityClassAtCursor ((nextPriorityCursor ^^ k) (Fin (int n)))) [0..<15]) c
     = (case c of Critical \<Rightarrow> 8 | High \<Rightarrow> 4 | Normal \<Rightarrow> 2 | Low \<Rightarrow> 1)
   \<and> agedWorkQueuePriorityClass p t (t + 3 * max 1 (asInt d 1)) d = Critical"
proof -
  have cur: "cursor_value ((nextPriorityCursor ^^ k) (Fin (int n))) mod 15 = (n + k) mod 15" for k
  proof (induction k)
    case (Suc k)
    then show ?case by (simp add: nextPriorityCursor_def cycle_length) (metis mod_Suc_eq)
  qed simp
  have "map (\<lambda>k. priorityClassAtCursor ((nextPriorityCursor ^^ k) (Fin (int n)))) [0..<15]
      = map (\<lambda>k. priority_cycle ! ((n + k) mod length priority_cycle)) [0..<15]"
    by (simp only: priorityClassAtCursor_def cycle_length cur)
  also have "\<dots> = rotate n priority_cycle"
    by (rule nth_equalityI) (simp_all add: nth_rotate cycle_length)
  finally have "count_list (map (\<lambda>k. priorityClassAtCursor ((nextPriorityCursor ^^ k) (Fin (int n)))) [0..<15]) c
      = count_list priority_cycle c" by (simp only: count_list_rotate)
  moreover have "count_list priority_cycle c = (case c of Critical \<Rightarrow> 8 | High \<Rightarrow> 4 | Normal \<Rightarrow> 2 | Low \<Rightarrow> 1)"
    by (cases c) (simp_all add: priority_cycle_def priority_weights_def eval_nat_numeral)
  moreover have "3 * x div x = 3" if "1 \<le> x" for x :: int using that by simp
  then have "agedWorkQueuePriorityClass p t (t + 3 * max 1 (asInt d 1)) d = Critical"
    by (simp add: agedWorkQueuePriorityClass_def Let_def aging_classes_def)
  ultimately show ?thesis by simp
qed

end
