(* ===== verification/DeadlineHeap.thy ===== *)
theory DeadlineHeap
  imports Prelude "HOL-Library.Multiset"
begin

text \<open>
  The deadline scheduler of the lock managers (class \<open>DeadlineScheduler\<close> of
  \<open>foundation/src/concurrency/lock-manager-contract.ts\<close>): a binary min-heap in an array, whose cancelled
  entries stay until they reach the head, and one timer for the earliest deadline.  An entry is known by its
  identity, a number; the callback of an entry is what its owner does when the identity is fired.  Times are
  whole milliseconds.  The callbacks do not call the scheduler back, so a drain returns the fired identities
  in order.
\<close>

section \<open>State\<close>

record entry =
  de_id :: nat
  de_at :: int
  de_active :: bool

text \<open>\<open>sc_timer\<close> is the pair of \<open>_timer\<close> and \<open>_timerAt\<close>, which is reset with the timer.\<close>

record scheduler =
  sc_heap :: "entry list"
  sc_timer :: "int option"
  sc_closed :: bool

definition new_scheduler :: scheduler where
  "new_scheduler = \<lparr>sc_heap = [], sc_timer = None, sc_closed = False\<rparr>"

section \<open>The heap\<close>

definition parent :: "nat \<Rightarrow> nat" where
  "parent i = (i - 1) div 2"

definition swap_at :: "entry list \<Rightarrow> nat \<Rightarrow> nat \<Rightarrow> entry list" where
  "swap_at h i j = h[i := h ! j, j := h ! i]"

function bubbleUp :: "entry list \<Rightarrow> nat \<Rightarrow> entry list" where
  "bubbleUp h i =
     (if i = 0 then h
      else if de_at (h ! parent i) \<le> de_at (h ! i) then h
      else bubbleUp (swap_at h (parent i) i) (parent i))"
  by pat_completeness auto
termination by (relation "measure snd") (auto simp: parent_def)

definition smaller :: "entry list \<Rightarrow> nat \<Rightarrow> nat \<Rightarrow> nat" where
  "smaller h c i = (if c < length h \<and> de_at (h ! c) < de_at (h ! i) then c else i)"

definition smallest :: "entry list \<Rightarrow> nat \<Rightarrow> nat" where
  "smallest h i = smaller h (i * 2 + 2) (smaller h (i * 2 + 1) i)"

function sift_down :: "entry list \<Rightarrow> nat \<Rightarrow> entry list" where
  "sift_down h i =
     (if smallest h i = i then h else sift_down (swap_at h (smallest h i) i) (smallest h i))"
  by pat_completeness auto
termination
  by (relation "measure (\<lambda>(h, i). length h - i)") (auto simp: smallest_def smaller_def swap_at_def split: if_splits)

declare bubbleUp.simps [simp del] sift_down.simps [simp del]

definition pop_heap :: "entry list \<Rightarrow> entry option \<times> entry list" where
  "pop_heap h =
     (case h of [] \<Rightarrow> (None, [])
      | first # _ \<Rightarrow>
          (let rest = butlast h
           in (Some first, if rest = [] then [] else sift_down (rest[0 := last h]) 0)))"

lemma length_swap_at [simp]: "length (swap_at h i j) = length h"
  by (simp add: swap_at_def)

lemma length_sift_down [simp]: "length (sift_down h i) = length h"
proof (induction h i rule: sift_down.induct)
  case (1 h i)
  then show ?case by (subst sift_down.simps) simp
qed

lemma length_bubbleUp [simp]: "length (bubbleUp h i) = length h"
proof (induction h i rule: bubbleUp.induct)
  case (1 h i)
  then show ?case by (subst bubbleUp.simps) simp
qed

lemma length_pop_heap: "h \<noteq> [] \<Longrightarrow> length (snd (pop_heap h)) < length h"
  by (cases h) (auto simp: pop_heap_def Let_def)

section \<open>The scheduler\<close>

function discardInactiveHead :: "entry list \<Rightarrow> entry list" where
  "discardInactiveHead h = (if h \<noteq> [] \<and> \<not> de_active (h ! 0) then discardInactiveHead (snd (pop_heap h)) else h)"
  by pat_completeness auto
termination by (relation "measure length") (auto simp: length_pop_heap)

declare discardInactiveHead.simps [simp del]

definition arm :: "scheduler \<Rightarrow> scheduler" where
  "arm s =
     (let h = discardInactiveHead (sc_heap s); s1 = s\<lparr>sc_heap := h\<rparr>
      in if sc_closed s \<or> h = [] then s1
         else let nextAt = de_at (h ! 0)
              in case sc_timer s of
                   Some t \<Rightarrow> if t \<le> nextAt then s1 else s1\<lparr>sc_timer := Some nextAt\<rparr>
                 | None \<Rightarrow> s1\<lparr>sc_timer := Some nextAt\<rparr>)"

text \<open>\<open>schedule\<close>: the identity is that of the new entry; a closed scheduler returns null.\<close>

definition schedule :: "nat \<Rightarrow> int \<Rightarrow> scheduler \<Rightarrow> scheduler \<times> nat option" where
  "schedule i t s =
     (if sc_closed s then (s, None)
      else (let h = sc_heap s @ [\<lparr>de_id = i, de_at = t, de_active = True\<rparr>]
            in (arm (s\<lparr>sc_heap := bubbleUp h (length h - 1)\<rparr>), Some i)))"

definition deactivate :: "nat \<Rightarrow> entry list \<Rightarrow> entry list" where
  "deactivate i h = map (\<lambda>e. if de_id e = i then e\<lparr>de_active := False\<rparr> else e) h"

definition cancel :: "nat option \<Rightarrow> scheduler \<Rightarrow> scheduler" where
  "cancel entry s =
     (case entry of None \<Rightarrow> s
      | Some i \<Rightarrow>
          (let h = discardInactiveHead (deactivate i (sc_heap s))
           in if h = [] then s\<lparr>sc_heap := h, sc_timer := None\<rparr>
              else arm (s\<lparr>sc_heap := h,
                sc_timer := (case sc_timer s of Some t \<Rightarrow> if t \<noteq> de_at (h ! 0) then None else Some t | None \<Rightarrow> None)\<rparr>)))"

definition close_scheduler :: "scheduler \<Rightarrow> scheduler" where
  "close_scheduler s = s\<lparr>sc_closed := True, sc_timer := None, sc_heap := []\<rparr>"

definition activeTimerCount :: "scheduler \<Rightarrow> nat" where
  "activeTimerCount s = (if sc_timer s = None then 0 else 1)"

lemma length_discard: "length (discardInactiveHead h) \<le> length h"
proof (induction h rule: discardInactiveHead.induct)
  case (1 h)
  then show ?case using length_pop_heap [of h] by (subst discardInactiveHead.simps) auto
qed

lemma pop_heap_shorter: "pop_heap h = (x, h1) \<Longrightarrow> h \<noteq> [] \<Longrightarrow> length h1 < length h"
  using length_pop_heap [of h] by simp

lemma discard_shorter: "pop_heap h = (x, h1) \<Longrightarrow> h \<noteq> [] \<Longrightarrow> length (discardInactiveHead h1) < length h"
  using pop_heap_shorter length_discard [of h1] by (meson le_less_trans)

text \<open>The loop of \<open>_drain\<close>: what is left of the heap, and the fired entries.\<close>

function drain_loop :: "int \<Rightarrow> entry list \<Rightarrow> entry list \<times> entry list" where
  "drain_loop now h =
     (if h \<noteq> [] \<and> de_at (h ! 0) \<le> now
      then (case pop_heap h of
              (Some e, h1) \<Rightarrow>
                if de_active e then (let (h2, es) = drain_loop now (discardInactiveHead h1) in (h2, e # es))
                else drain_loop now h1
            | (None, h1) \<Rightarrow> (h1, []))
      else (h, []))"
  by pat_completeness auto
termination
  by (relation "measure (\<lambda>(now, h). length h)") (auto simp: pop_heap_shorter discard_shorter dest: sym)

declare drain_loop.simps [simp del]

definition drain :: "int \<Rightarrow> scheduler \<Rightarrow> scheduler \<times> nat list" where
  "drain now s =
     (let (h, es) = drain_loop now (discardInactiveHead (sc_heap s))
      in (arm (s\<lparr>sc_timer := None, sc_heap := h\<rparr>), map de_id es))"

section \<open>The heap order\<close>

definition above :: "entry list \<Rightarrow> nat \<Rightarrow> nat \<Rightarrow> bool" where
  "above h i j = (de_at (h ! i) \<le> de_at (h ! j))"

definition heap_ok :: "entry list \<Rightarrow> bool" where
  "heap_ok h = (\<forall>j < length h. 0 < j \<longrightarrow> above h (parent j) j)"

text \<open>Heaps with one place out of order, towards the root or towards the leaves.\<close>

definition up_ok :: "entry list \<Rightarrow> nat \<Rightarrow> bool" where
  "up_ok h i \<longleftrightarrow> (\<forall>j < length h. 0 < j \<longrightarrow> j \<noteq> i \<longrightarrow> above h (parent j) j)
     \<and> (\<forall>j < length h. 0 < j \<longrightarrow> parent j = i \<longrightarrow> 0 < i \<longrightarrow> above h (parent i) j)"

definition down_ok :: "entry list \<Rightarrow> nat \<Rightarrow> bool" where
  "down_ok h i \<longleftrightarrow> (\<forall>j < length h. 0 < j \<longrightarrow> parent j \<noteq> i \<longrightarrow> above h (parent j) j)
     \<and> (\<forall>j < length h. 0 < j \<longrightarrow> parent j = i \<longrightarrow> 0 < i \<longrightarrow> above h (parent i) j)"

lemma parent_less: "0 < i \<Longrightarrow> parent i < i"
  by (simp add: parent_def)

lemma parent_eq_iff: "0 < j \<Longrightarrow> parent j = i \<longleftrightarrow> j = i * 2 + 1 \<or> j = i * 2 + 2"
  by (auto simp: parent_def)

lemma above_trans: "above h i j \<Longrightarrow> above h j k \<Longrightarrow> above h i k"
  by (simp add: above_def)

lemma nth_swap_at: "i < length h \<Longrightarrow> j < length h \<Longrightarrow> k < length h \<Longrightarrow>
    swap_at h i j ! k = (if k = j then h ! i else if k = i then h ! j else h ! k)"
  by (simp add: swap_at_def nth_list_update)

lemma mset_swap_at: "i < length h \<Longrightarrow> j < length h \<Longrightarrow> mset (swap_at h i j) = mset h"
  by (simp add: swap_at_def mset_swap)

lemma up_ok_swap:
  assumes "up_ok h i" and "0 < i" and "i < length h" and "\<not> above h (parent i) i"
  shows "up_ok (swap_at h (parent i) i) (parent i)"
proof -
  have p: "parent i < length h" "parent i \<noteq> i" using assms(2,3) parent_less [of i] by auto
  have le: "de_at (h ! i) \<le> de_at (h ! parent i)" using assms(4) by (simp add: above_def)
  show ?thesis
    unfolding up_ok_def length_swap_at
  proof (intro conjI allI impI)
    fix j assume j: "j < length h" "0 < j" "j \<noteq> parent i"
    have pj: "parent j < length h" using j parent_less [of j] by simp
    have o1: "j \<noteq> i \<Longrightarrow> above h (parent j) j" using assms(1) j unfolding up_ok_def by blast
    have o2: "parent j = i \<Longrightarrow> above h (parent i) j" using assms(1,2) j unfolding up_ok_def by blast
    show "above (swap_at h (parent i) i) (parent j) j"
      unfolding above_def nth_swap_at [OF p(1) assms(3) j(1)] nth_swap_at [OF p(1) assms(3) pj]
      using o1 o2 le j(3) p(2) unfolding above_def by (cases "j = i"; cases "parent j = i"; cases "parent j = parent i") auto
  next
    fix j assume j: "j < length h" "0 < j" "parent j = parent i" "0 < parent i"
    let ?q = "parent (parent i)"
    have q: "?q < length h" "?q \<noteq> parent i" "?q \<noteq> i" using p parent_less [OF j(4)] parent_less [OF assms(2)] by auto
    have o1: "j \<noteq> i \<Longrightarrow> above h (parent i) j" using assms(1) j unfolding up_ok_def by metis
    have o2: "above h ?q (parent i)" using assms(1) p j(4) unfolding up_ok_def by blast
    have "j \<noteq> parent i" using j(2,3) parent_less [of j] by auto
    then show "above (swap_at h (parent i) i) ?q j"
      unfolding above_def nth_swap_at [OF p(1) assms(3) j(1)] nth_swap_at [OF p(1) assms(3) q(1)]
      using o1 o2 q(2,3) unfolding above_def by (cases "j = i") auto
  qed
qed

lemma up_ok_root: "up_ok h 0 \<Longrightarrow> heap_ok h"
  by (simp add: up_ok_def heap_ok_def)

lemma up_ok_done: "up_ok h i \<Longrightarrow> above h (parent i) i \<Longrightarrow> heap_ok h"
  by (auto simp: up_ok_def heap_ok_def)

lemma bubbleUp_heap: "i < length h \<Longrightarrow> up_ok h i \<Longrightarrow> heap_ok (bubbleUp h i) \<and> mset (bubbleUp h i) = mset h"
proof (induction h i rule: bubbleUp.induct)
  case (1 h i)
  show ?case
  proof (cases "i = 0 \<or> above h (parent i) i")
    case True
    then have "bubbleUp h i = h" by (subst bubbleUp.simps) (auto simp: above_def)
    with True 1(3) show ?thesis using up_ok_root up_ok_done by auto
  next
    case False
    then have i: "0 < i" "\<not> above h (parent i) i" by auto
    then have b: "bubbleUp h i = bubbleUp (swap_at h (parent i) i) (parent i)"
      by (subst bubbleUp.simps) (simp add: above_def)
    have p: "parent i < length h" using parent_less [OF i(1)] 1(2) by simp
    have "heap_ok (bubbleUp (swap_at h (parent i) i) (parent i))
        \<and> mset (bubbleUp (swap_at h (parent i) i) (parent i)) = mset (swap_at h (parent i) i)"
      using 1(1) i p up_ok_swap [OF 1(3) i(1) 1(2) i(2)] by (simp add: above_def)
    then show ?thesis unfolding b by (simp add: mset_swap_at p 1(2))
  qed
qed

lemma heap_ok_snoc: "heap_ok h \<Longrightarrow> up_ok (h @ [e]) (length h)"
proof -
  assume h: "heap_ok h"
  have "above (h @ [e]) (parent j) j" if "j < length h" "0 < j" for j
    using h that parent_less [OF that(2)] by (simp add: heap_ok_def above_def nth_append)
  moreover have "parent j \<noteq> length h" if "j < Suc (length h)" "0 < j" for j
    using parent_less [OF that(2)] that(1) by auto
  ultimately show ?thesis by (auto simp: up_ok_def less_Suc_eq)
qed

text \<open>The smallest child.\<close>

lemma smallest_cases: "smallest h i = i \<or> smallest h i < length h \<and> parent (smallest h i) = i \<and> 0 < smallest h i"
  by (auto simp: smallest_def smaller_def parent_def)

lemma smallest_above: "j < length h \<Longrightarrow> 0 < j \<Longrightarrow> parent j = i \<Longrightarrow> above h (smallest h i) j"
  by (auto simp: parent_eq_iff smallest_def smaller_def above_def)

lemma smallest_below: "smallest h i \<noteq> i \<Longrightarrow> \<not> above h i (smallest h i)"
  by (auto simp: smallest_def smaller_def above_def split: if_splits)

lemma down_ok_swap:
  assumes "down_ok h i" and "i < length h" and s: "smallest h i \<noteq> i"
  shows "down_ok (swap_at h (smallest h i) i) (smallest h i)"
proof -
  let ?s = "smallest h i"
  have c: "?s < length h" "parent ?s = i" "0 < ?s" "i < ?s" using smallest_cases [of h i] s parent_less [of ?s] by auto
  have lt: "de_at (h ! ?s) \<le> de_at (h ! i)" using smallest_below [OF s] by (simp add: above_def)
  show ?thesis
    unfolding down_ok_def length_swap_at
  proof (intro conjI allI impI)
    fix j assume j: "j < length h" "0 < j" "parent j \<noteq> ?s"
    have pj: "parent j < length h" using j parent_less [of j] by simp
    have o1: "parent j \<noteq> i \<Longrightarrow> above h (parent j) j" using assms(1) j unfolding down_ok_def by blast
    have o2: "j = i \<Longrightarrow> above h (parent i) ?s" using assms(1) c j unfolding down_ok_def by blast
    have o3: "parent j = i \<Longrightarrow> above h ?s j" using smallest_above j by blast
    have "j = i \<Longrightarrow> parent j \<noteq> i" using parent_less [OF j(2)] by auto
    then show "above (swap_at h ?s i) (parent j) j"
      unfolding above_def nth_swap_at [OF c(1) assms(2) j(1)] nth_swap_at [OF c(1) assms(2) pj]
      using o1 o2 o3 lt c(2) j(3) unfolding above_def by (cases "j = i"; cases "j = ?s"; cases "parent j = i") auto
  next
    fix j assume j: "j < length h" "0 < j" "parent j = ?s" "0 < ?s"
    have "above h ?s j" using assms(1) j c(4) unfolding down_ok_def by (metis less_irrefl)
    moreover have "j \<noteq> ?s" "j \<noteq> i" using parent_less [OF j(2)] j(3) c(4) by auto
    ultimately show "above (swap_at h ?s i) (parent ?s) j"
      unfolding above_def nth_swap_at [OF c(1) assms(2) j(1)] c(2) nth_swap_at [OF c(1) assms(2) assms(2)] by simp
  qed
qed

lemma sift_down_heap: "i < length h \<Longrightarrow> down_ok h i \<Longrightarrow> heap_ok (sift_down h i) \<and> mset (sift_down h i) = mset h"
proof (induction h i rule: sift_down.induct)
  case (1 h i)
  show ?case
  proof (cases "smallest h i = i")
    case True
    then have "heap_ok h" using 1(3) smallest_above [of _ h i] by (auto simp: down_ok_def heap_ok_def)
    with True show ?thesis by (subst (1 2) sift_down.simps) simp
  next
    case False
    then have c: "smallest h i < length h" using smallest_cases [of h i] by auto
    from False have b: "sift_down h i = sift_down (swap_at h (smallest h i) i) (smallest h i)"
      by (subst sift_down.simps) simp
    show ?thesis unfolding b using 1(1) [OF False] c down_ok_swap [OF 1(3,2) False] by (simp add: mset_swap_at 1(2))
  qed
qed

lemma heap_ok_root: "heap_ok h \<Longrightarrow> j < length h \<Longrightarrow> de_at (h ! 0) \<le> de_at (h ! j)"
proof (induction j rule: less_induct)
  case (less j)
  show ?case
  proof (cases "j = 0")
    case False
    then have p: "parent j < j" by (simp add: parent_less)
    then have "de_at (h ! 0) \<le> de_at (h ! parent j)" using less by simp
    moreover have "above h (parent j) j" using less.prems False by (simp add: heap_ok_def)
    ultimately show ?thesis by (simp add: above_def)
  qed simp
qed

lemma heap_ok_replace_root: "heap_ok h \<Longrightarrow> down_ok ((butlast h)[0 := x]) 0"
proof -
  assume h: "heap_ok h"
  have "above ((butlast h)[0 := x]) (parent j) j" if "j < length h - 1" "0 < j" "parent j \<noteq> 0" for j
    using h that parent_less [OF that(2)] by (simp add: heap_ok_def above_def nth_butlast)
  then show ?thesis by (simp add: down_ok_def)
qed

text \<open>Removing the head gives the smallest deadline and keeps the rest.\<close>

lemma pop_heap_spec:
  assumes "heap_ok h" and "h \<noteq> []"
  shows "fst (pop_heap h) = Some (h ! 0)" and "heap_ok (snd (pop_heap h))"
    and "mset h = add_mset (h ! 0) (mset (snd (pop_heap h)))"
proof -
  from assms(2) obtain x xs where h: "h = x # xs" by (cases h) auto
  show "fst (pop_heap h) = Some (h ! 0)" by (simp add: h pop_heap_def Let_def)
  show "heap_ok (snd (pop_heap h))" and "mset h = add_mset (h ! 0) (mset (snd (pop_heap h)))"
  proof -
    have "heap_ok (snd (pop_heap h)) \<and> mset h = add_mset (h ! 0) (mset (snd (pop_heap h)))"
    proof (cases "xs = []")
      case True
      then show ?thesis by (simp add: h pop_heap_def heap_ok_def)
    next
      case False
      let ?r = "(butlast h)[0 := last h]"
      have r: "butlast h \<noteq> []" using False by (simp add: h)
      then have p: "snd (pop_heap h) = sift_down ?r 0" by (simp add: h pop_heap_def Let_def)
      have s: "heap_ok (sift_down ?r 0) \<and> mset (sift_down ?r 0) = mset ?r"
        by (rule sift_down_heap) (use False heap_ok_replace_root [OF assms(1)] in \<open>simp_all add: h\<close>)
      have "add_mset x (mset ?r) = mset h"
      proof -
        have "butlast h = x # butlast xs" "last h = last xs" using False by (simp_all add: h)
        moreover have "add_mset (last xs) (mset (butlast xs)) = mset xs"
          using mset_append [of "butlast xs" "[last xs]"] False by simp
        ultimately show ?thesis by (simp add: h)
      qed
      with s show ?thesis unfolding p by (simp add: h)
    qed
    then show "heap_ok (snd (pop_heap h))" and "mset h = add_mset (h ! 0) (mset (snd (pop_heap h)))" by auto
  qed
qed

lemma heap_ok_min: "heap_ok h \<Longrightarrow> h \<noteq> [] \<Longrightarrow> e \<in> set h \<Longrightarrow> de_at (h ! 0) \<le> de_at e"
  using heap_ok_root by (metis in_set_conv_nth)

section \<open>Discarding and draining\<close>

definition live :: "entry list \<Rightarrow> entry multiset" where
  "live h = filter_mset de_active (mset h)"

definition head_live :: "entry list \<Rightarrow> bool" where
  "head_live h = (h \<noteq> [] \<longrightarrow> de_active (h ! 0))"

lemma live_pop: "heap_ok h \<Longrightarrow> h \<noteq> [] \<Longrightarrow>
    live h = (if de_active (h ! 0) then add_mset (h ! 0) (live (snd (pop_heap h))) else live (snd (pop_heap h)))"
  by (simp add: live_def pop_heap_spec(3))

lemma set_pop: "heap_ok h \<Longrightarrow> h \<noteq> [] \<Longrightarrow> set h = insert (h ! 0) (set (snd (pop_heap h)))"
  using pop_heap_spec(3) by (metis set_mset_add_mset_insert set_mset_mset)

lemma discard_spec: "heap_ok h \<Longrightarrow> heap_ok (discardInactiveHead h) \<and> live (discardInactiveHead h) = live h
    \<and> head_live (discardInactiveHead h) \<and> set (discardInactiveHead h) \<subseteq> set h"
proof (induction h rule: discardInactiveHead.induct)
  case (1 h)
  show ?case
  proof (cases "h \<noteq> [] \<and> \<not> de_active (h ! 0)")
    case True
    then have d: "discardInactiveHead h = discardInactiveHead (snd (pop_heap h))"
      by (subst discardInactiveHead.simps) simp
    show ?thesis unfolding d using 1(1) [OF True] pop_heap_spec(2) [OF 1(2)] live_pop [OF 1(2)] set_pop [OF 1(2)] True by auto
  next
    case False
    then have "discardInactiveHead h = h" by (subst discardInactiveHead.simps) auto
    with False 1(2) show ?thesis by (auto simp: head_live_def)
  qed
qed

lemmas discard_facts = discard_spec [THEN conjunct1] discard_spec [THEN conjunct2, THEN conjunct1]
  discard_spec [THEN conjunct2, THEN conjunct2, THEN conjunct1] discard_spec [THEN conjunct2, THEN conjunct2, THEN conjunct2]

lemma discard_id: "head_live h \<Longrightarrow> discardInactiveHead h = h"
  by (subst discardInactiveHead.simps) (auto simp: head_live_def)

lemma drain_loop_spec:
  "heap_ok h \<Longrightarrow> drain_loop now h = (h', es) \<Longrightarrow>
     heap_ok h' \<and> live h = mset es + live h' \<and> set h' \<subseteq> set h \<and> set es \<subseteq> set h
     \<and> (\<forall>e \<in> set es. de_at e \<le> now) \<and> (\<forall>e \<in> set h'. now < de_at e) \<and> sorted (map de_at es)
     \<and> (head_live h \<longrightarrow> head_live h')"
proof (induction now h arbitrary: h' es rule: drain_loop.induct)
  case (1 now h)
  show ?case
  proof (cases "h \<noteq> [] \<and> de_at (h ! 0) \<le> now")
    case False
    then have r: "h' = h" "es = []" using 1(4) by (subst (asm) drain_loop.simps; auto)+
    show ?thesis unfolding r using False 1(3) heap_ok_min [OF 1(3)] by force
  next
    case True
    obtain h1 where p: "pop_heap h = (Some (h ! 0), h1)"
      using pop_heap_spec(1) [OF 1(3)] True by (cases "pop_heap h") auto
    have k: "heap_ok h1" using pop_heap_spec(2) [OF 1(3)] True p by simp
    have s: "set h = insert (h ! 0) (set h1)" using set_pop [OF 1(3)] True p by simp
    have l: "live h = (if de_active (h ! 0) then add_mset (h ! 0) (live h1) else live h1)"
      using live_pop [OF 1(3)] True p by simp
    show ?thesis
    proof (cases "de_active (h ! 0)")
      case a: True
      obtain es' where r: "drain_loop now (discardInactiveHead h1) = (h', es')" "es = h ! 0 # es'"
        using 1(4) True a p by (subst (asm) drain_loop.simps) (auto split: prod.splits)
      note ih = 1(1) [OF True p [symmetric] refl a discard_facts(1) [OF k] r(1)]
      have sub: "set (discardInactiveHead h1) \<subseteq> set h" using discard_facts(4) [OF k] s by auto
      have "\<forall>e \<in> set es'. de_at (h ! 0) \<le> de_at e" using ih sub heap_ok_min [OF 1(3)] True by blast
      moreover have "live h = add_mset (h ! 0) (live (discardInactiveHead h1))"
        using l a discard_facts(2) [OF k] by simp
      ultimately show ?thesis using ih True sub s discard_facts(3) [OF k] r(2) by auto
    next
      case a: False
      have r: "drain_loop now h1 = (h', es)" using 1(4) True a p by (subst (asm) drain_loop.simps) simp
      note ih = 1(2) [OF True p [symmetric] refl a k r]
      show ?thesis using ih l True a s by (auto simp: head_live_def)
    qed
  qed
qed

section \<open>The scheduler as a timer service\<close>

text \<open>What a client of the scheduler relies on: the pending deadlines after each operation, and what fires.\<close>

locale timer_service =
  fixes inv :: "'s \<Rightarrow> bool"
    and pending :: "'s \<Rightarrow> (nat \<times> int) set"
    and known :: "'s \<Rightarrow> nat set"
    and alarm :: "'s \<Rightarrow> int option"
    and add :: "nat \<Rightarrow> int \<Rightarrow> 's \<Rightarrow> 's"
    and remove :: "nat \<Rightarrow> 's \<Rightarrow> 's"
    and fire :: "int \<Rightarrow> 's \<Rightarrow> 's \<times> nat list"
  assumes add_inv: "inv s \<Longrightarrow> i \<notin> known s \<Longrightarrow> inv (add i t s)"
    and add_pending: "inv s \<Longrightarrow> i \<notin> known s \<Longrightarrow> pending (add i t s) = insert (i, t) (pending s)"
    and add_known: "inv s \<Longrightarrow> i \<notin> known s \<Longrightarrow> known (add i t s) \<subseteq> insert i (known s)"
    and remove_inv: "inv s \<Longrightarrow> inv (remove i s)"
    and remove_pending: "inv s \<Longrightarrow> pending (remove i s) = {p \<in> pending s. fst p \<noteq> i}"
    and remove_known: "inv s \<Longrightarrow> known (remove i s) \<subseteq> known s"
    and fire_inv: "inv s \<Longrightarrow> fire now s = (s', is) \<Longrightarrow> inv s'"
    and fire_pending: "inv s \<Longrightarrow> fire now s = (s', is) \<Longrightarrow> pending s' = {p \<in> pending s. now < snd p}"
    and fire_known: "inv s \<Longrightarrow> fire now s = (s', is) \<Longrightarrow> known s' \<subseteq> known s"
    and fire_due: "inv s \<Longrightarrow> fire now s = (s', is) \<Longrightarrow> set is = fst ` {p \<in> pending s. snd p \<le> now} \<and> distinct is"
    and pending_known: "inv s \<Longrightarrow> fst ` pending s \<subseteq> known s"
    and pending_unique: "inv s \<Longrightarrow> (i, t) \<in> pending s \<Longrightarrow> (i, u) \<in> pending s \<Longrightarrow> t = u"
    and alarm_earliest: "inv s \<Longrightarrow> pending s \<noteq> {} \<longleftrightarrow> alarm s \<noteq> None"
    and alarm_bound: "inv s \<Longrightarrow> alarm s = Some a \<Longrightarrow> (i, t) \<in> pending s \<Longrightarrow> a \<le> t"
begin

lemma removed_never_fires: "inv s \<Longrightarrow> fire now (remove i s) = (s', is) \<Longrightarrow> i \<notin> set is"
  using fire_due [of "remove i s"] by (auto simp: remove_inv remove_pending)

lemma fired_once: "inv s \<Longrightarrow> fire now s = (s', is) \<Longrightarrow> fire later s' = (s'', js) \<Longrightarrow> set is \<inter> set js = {}"
  using fire_due [of s] fire_due [of s'] fire_inv [of s] fire_pending [of s] pending_unique [of s] by fastforce

lemma nothing_overdue: "inv s \<Longrightarrow> fire now s = (s', is) \<Longrightarrow> alarm s' = Some a \<Longrightarrow> p \<in> pending s' \<Longrightarrow> now < snd p \<and> a \<le> snd p"
  using fire_pending fire_inv alarm_bound by (metis (mono_tags, lifting) mem_Collect_eq prod.collapse)

end

definition pending :: "scheduler \<Rightarrow> (nat \<times> int) set" where
  "pending s = (\<lambda>e. (de_id e, de_at e)) ` set_mset (live (sc_heap s))"

definition entry_ids :: "scheduler \<Rightarrow> nat set" where
  "entry_ids s = de_id ` set (sc_heap s)"

definition sched_inv :: "scheduler \<Rightarrow> bool" where
  "sched_inv s \<longleftrightarrow> \<not> sc_closed s \<and> heap_ok (sc_heap s) \<and> head_live (sc_heap s) \<and> distinct (map de_id (sc_heap s))
     \<and> sc_timer s = (if sc_heap s = [] then None else Some (de_at (sc_heap s ! 0)))"

definition add_deadline :: "nat \<Rightarrow> int \<Rightarrow> scheduler \<Rightarrow> scheduler" where
  "add_deadline i t s = fst (schedule i t s)"

definition remove_deadline :: "nat \<Rightarrow> scheduler \<Rightarrow> scheduler" where
  "remove_deadline i s = cancel (Some i) s"

lemma new_scheduler_inv [simp]: "sched_inv new_scheduler" "pending new_scheduler = {}" "entry_ids new_scheduler = {}"
  by (simp_all add: new_scheduler_def sched_inv_def heap_ok_def head_live_def pending_def live_def entry_ids_def)

lemma set_mset_live: "set_mset (live h) = {e \<in> set h. de_active e}"
  by (auto simp: live_def)

lemma arm_heap: "heap_ok (sc_heap s) \<Longrightarrow> sc_heap (arm s) = discardInactiveHead (sc_heap s) \<and> sc_closed (arm s) = sc_closed s"
  by (auto simp: arm_def Let_def split: option.splits)

lemma arm_timer: "\<not> sc_closed s \<Longrightarrow> discardInactiveHead (sc_heap s) = h \<Longrightarrow>
    sc_timer (arm s) = (if h = [] then sc_timer s
      else Some (case sc_timer s of None \<Rightarrow> de_at (h ! 0) | Some t \<Rightarrow> min t (de_at (h ! 0))))"
  by (auto simp: arm_def Let_def min_def split: option.splits)

lemma distinct_sub: "mset xs \<subseteq># mset ys \<Longrightarrow> distinct ys \<Longrightarrow> distinct xs"
proof -
  assume s: "mset xs \<subseteq># mset ys" and d: "distinct ys"
  obtain zs where "mset ys = mset (xs @ zs)" using s by (metis ex_mset mset_append subset_mset.le_iff_add)
  with d have "distinct (xs @ zs)" by (metis mset_eq_imp_distinct_iff)
  then show ?thesis by simp
qed

lemma distinct_ids_sub: "mset h' \<subseteq># mset h \<Longrightarrow> distinct (map de_id h) \<Longrightarrow> distinct (map de_id h')"
  using distinct_sub [of "map de_id h'" "map de_id h"] image_mset_subseteq_mono [of "mset h'" "mset h" de_id] by simp

lemma pop_sub: "heap_ok h \<Longrightarrow> h \<noteq> [] \<Longrightarrow> mset (snd (pop_heap h)) \<subseteq># mset h"
  by (simp add: pop_heap_spec(3))

lemma discard_sub: "heap_ok h \<Longrightarrow> mset (discardInactiveHead h) \<subseteq># mset h"
proof (induction h rule: discardInactiveHead.induct)
  case (1 h)
  show ?case
  proof (cases "h \<noteq> [] \<and> \<not> de_active (h ! 0)")
    case True
    then have "mset (discardInactiveHead (snd (pop_heap h))) \<subseteq># mset (snd (pop_heap h))"
      using 1 pop_heap_spec(2) by blast
    then have "mset (discardInactiveHead (snd (pop_heap h))) \<subseteq># mset h"
      using pop_sub [OF 1(2)] True by (meson subset_mset.order_trans)
    with True show ?thesis by (subst discardInactiveHead.simps) simp
  next
    case False
    then have "discardInactiveHead h = h" by (subst discardInactiveHead.simps) auto
    then show ?thesis by simp
  qed
qed

lemma drain_loop_sub: "heap_ok h \<Longrightarrow> drain_loop now h = (h', es) \<Longrightarrow> mset es + mset h' \<subseteq># mset h"
proof (induction now h arbitrary: h' es rule: drain_loop.induct)
  case (1 now h)
  show ?case
  proof (cases "h \<noteq> [] \<and> de_at (h ! 0) \<le> now")
    case False
    then have r: "h' = h" "es = []" using 1(4) by (subst (asm) drain_loop.simps; auto)+
    then show ?thesis by simp
  next
    case True
    obtain h1 where p: "pop_heap h = (Some (h ! 0), h1)"
      using pop_heap_spec(1) [OF 1(3)] True by (cases "pop_heap h") auto
    have k: "heap_ok h1" "mset h = add_mset (h ! 0) (mset h1)" using pop_heap_spec(2,3) [OF 1(3)] True p by simp_all
    show ?thesis
    proof (cases "de_active (h ! 0)")
      case a: True
      obtain es' where r: "drain_loop now (discardInactiveHead h1) = (h', es')" "es = h ! 0 # es'"
        using 1(4) True a p by (subst (asm) drain_loop.simps) (auto split: prod.splits)
      from 1(1) [OF True p [symmetric] refl a discard_facts(1) [OF k(1)] r(1)]
      have "mset es' + mset h' \<subseteq># mset h1" using discard_sub [OF k(1)] by (meson subset_mset.order_trans)
      then show ?thesis by (simp add: r(2) k(2))
    next
      case a: False
      have "drain_loop now h1 = (h', es)" using 1(4) True a p by (subst (asm) drain_loop.simps) simp
      from 1(2) [OF True p [symmetric] refl a k(1) this] have "mset es + mset h' \<subseteq># mset h1" .
      also have "mset h1 \<subseteq># add_mset (h ! 0) (mset h1)" by simp
      finally show ?thesis unfolding k(2) .
    qed
  qed
qed

lemma live_ids: "distinct (map de_id h) \<Longrightarrow> e \<in># live h \<Longrightarrow> f \<in># live h \<Longrightarrow> de_id e = de_id f \<Longrightarrow> e = f"
  by (auto simp: set_mset_live distinct_map inj_on_def)

lemma set_mset_subset: "mset xs \<subseteq># mset ys \<Longrightarrow> set xs \<subseteq> set ys"
  using set_mset_mono by fastforce

text \<open>The heap after \<open>arm\<close>, for the three callers.\<close>

lemma arm_inv:
  assumes "\<not> sc_closed s" and "heap_ok (sc_heap s)" and "distinct (map de_id (sc_heap s))"
    and "sc_heap s = [] \<Longrightarrow> sc_timer s = None" and "live (sc_heap s) = {#} \<Longrightarrow> sc_timer s = None"
    and "\<And>t. sc_timer s = Some t \<Longrightarrow> \<exists>e. e \<in># live (sc_heap s) \<and> de_at e \<le> t"
  shows "sched_inv (arm s)" and "pending (arm s) = pending s" and "entry_ids (arm s) \<subseteq> entry_ids s"
proof -
  let ?h = "discardInactiveHead (sc_heap s)"
  note d = discard_facts [OF assms(2)]
  have h: "sc_heap (arm s) = ?h" "\<not> sc_closed (arm s)" using arm_heap [OF assms(2)] assms(1) by auto
  show "pending (arm s) = pending s" by (simp add: pending_def h d(2))
  show "entry_ids (arm s) \<subseteq> entry_ids s" using d(4) by (auto simp: entry_ids_def h)
  have "sc_timer (arm s) = (if ?h = [] then None else Some (de_at (?h ! 0)))"
  proof (cases "?h = []")
    case True
    then have "live (sc_heap s) = {#}" using d(2) by (simp add: live_def)
    with True assms(5) arm_timer [OF assms(1) refl] show ?thesis by simp
  next
    case False
    have "de_at (?h ! 0) \<le> t" if "sc_timer s = Some t" for t
    proof -
      from assms(6) [OF that] obtain e where e: "e \<in># live ?h" "de_at e \<le> t" using d(2) by auto
      then have "e \<in> set ?h" by (simp add: set_mset_live)
      with heap_ok_min [OF d(1) False] e(2) show ?thesis by force
    qed
    with False arm_timer [OF assms(1) refl] show ?thesis by (auto simp: min_def split: option.splits)
  qed
  then show "sched_inv (arm s)"
    using h d(1,3) distinct_ids_sub [OF discard_sub [OF assms(2)] assms(3)] by (simp add: sched_inv_def)
qed

lemma schedule_spec:
  assumes "sched_inv s" and "i \<notin> entry_ids s"
  shows "sched_inv (add_deadline i t s)" and "pending (add_deadline i t s) = insert (i, t) (pending s)"
    and "entry_ids (add_deadline i t s) \<subseteq> insert i (entry_ids s)"
proof -
  let ?e = "\<lparr>de_id = i, de_at = t, de_active = True\<rparr>"
  let ?h = "sc_heap s @ [?e]" and ?b = "bubbleUp (sc_heap s @ [?e]) (length (sc_heap s))"
  have inv: "\<not> sc_closed s" "heap_ok (sc_heap s)" "head_live (sc_heap s)" "distinct (map de_id (sc_heap s))"
    and tm: "sc_timer s = (if sc_heap s = [] then None else Some (de_at (sc_heap s ! 0)))"
    using assms(1) by (simp_all add: sched_inv_def)
  have b: "heap_ok ?b \<and> mset ?b = mset ?h" using bubbleUp_heap [OF _ heap_ok_snoc [OF inv(2)]] by simp
  have a: "add_deadline i t s = arm (s\<lparr>sc_heap := ?b\<rparr>)"
    using inv(1) by (simp add: add_deadline_def schedule_def Let_def)
  have ids: "distinct (map de_id ?h)" using inv(4) assms(2) by (simp add: entry_ids_def)
  have db: "distinct (map de_id ?b)" using distinct_ids_sub [OF _ ids] b by simp
  have ne: "?b \<noteq> []" using b by (metis append_is_Nil_conv mset_zero_iff_right not_Cons_self2 mset_zero_iff)
  have lb: "live ?b = add_mset ?e (live (sc_heap s))" using b by (simp add: live_def)
  have tl: "\<exists>e. e \<in># live ?b \<and> de_at e \<le> u" if "sc_timer s = Some u" for u
  proof -
    have "sc_heap s \<noteq> []" "u = de_at (sc_heap s ! 0)" using that tm by (auto split: if_splits)
    then have "sc_heap s ! 0 \<in># live (sc_heap s)" using inv(3) by (simp add: head_live_def set_mset_live)
    then show ?thesis unfolding lb \<open>u = de_at (sc_heap s ! 0)\<close> by auto
  qed
  have p: "\<not> sc_closed (s\<lparr>sc_heap := ?b\<rparr>)" "heap_ok (sc_heap (s\<lparr>sc_heap := ?b\<rparr>))" "distinct (map de_id (sc_heap (s\<lparr>sc_heap := ?b\<rparr>)))"
    using inv(1) b db by simp_all
  note r = arm_inv [OF p]
  show "sched_inv (add_deadline i t s)" unfolding a by (rule r(1)) (use ne lb tl in auto)
  have "pending (arm (s\<lparr>sc_heap := ?b\<rparr>)) = pending (s\<lparr>sc_heap := ?b\<rparr>)" by (rule r(2)) (use ne lb tl in auto)
  then show "pending (add_deadline i t s) = insert (i, t) (pending s)" unfolding a by (simp add: pending_def lb)
  have "entry_ids (arm (s\<lparr>sc_heap := ?b\<rparr>)) \<subseteq> entry_ids (s\<lparr>sc_heap := ?b\<rparr>)" by (rule r(3)) (use ne lb tl in auto)
  moreover have "set ?b = insert ?e (set (sc_heap s))" using b by (metis list.set(2) mset_append mset_eq_setD rotate1.simps(2) set_rotate1)
  ultimately show "entry_ids (add_deadline i t s) \<subseteq> insert i (entry_ids s)" unfolding a by (auto simp: entry_ids_def)
qed

lemma deactivate_facts:
  "heap_ok (deactivate i h) = heap_ok h" "map de_id (deactivate i h) = map de_id h"
  "live (deactivate i h) = filter_mset (\<lambda>e. de_id e \<noteq> i) (live h)"
proof -
  have l: "length (deactivate i h) = length h" by (simp add: deactivate_def)
  have "de_at (deactivate i h ! j) = de_at (h ! j)" if "j < length h" for j using that by (simp add: deactivate_def)
  moreover have "parent j < length h" if "j < length h" "0 < j" for j using parent_less [OF that(2)] that(1) by simp
  ultimately show "heap_ok (deactivate i h) = heap_ok h" by (simp add: heap_ok_def above_def l)
  show "map de_id (deactivate i h) = map de_id h" by (simp add: deactivate_def comp_def)
  show "live (deactivate i h) = filter_mset (\<lambda>e. de_id e \<noteq> i) (live h)"
    by (induction h) (auto simp: live_def deactivate_def)
qed

lemma image_Collect_where: "f ` {x \<in> A. P (f x)} = {y \<in> f ` A. P y}"
  by auto

lemma cancel_spec:
  assumes "sched_inv s"
  shows "sched_inv (remove_deadline i s)" and "pending (remove_deadline i s) = {p \<in> pending s. fst p \<noteq> i}"
    and "entry_ids (remove_deadline i s) \<subseteq> entry_ids s"
proof -
  have inv: "\<not> sc_closed s" "heap_ok (sc_heap s)" "distinct (map de_id (sc_heap s))" using assms by (simp_all add: sched_inv_def)
  let ?d = "deactivate i (sc_heap s)" and ?h = "discardInactiveHead (deactivate i (sc_heap s))"
  have k: "heap_ok ?d" "distinct (map de_id ?d)" using inv by (simp_all add: deactivate_facts)
  note d = discard_facts [OF k(1)]
  have ids: "distinct (map de_id ?h)" by (rule distinct_ids_sub [OF discard_sub [OF k(1)] k(2)])
  have lv: "live ?h = filter_mset (\<lambda>e. de_id e \<noteq> i) (live (sc_heap s))" using d(2) by (simp add: deactivate_facts)
  have "de_id ` set ?d = de_id ` set (sc_heap s)" by (metis deactivate_facts(2) list.set_map)
  then have sub: "de_id ` set ?h \<subseteq> de_id ` set (sc_heap s)" using d(4) by (metis image_mono)
  have hp: "sc_heap (s\<lparr>sc_heap := ?h, sc_timer := u\<rparr>) = ?h" for u by simp
  have pn: "pending (s\<lparr>sc_heap := ?h, sc_timer := u\<rparr>) = {p \<in> pending s. fst p \<noteq> i}" for u
    using image_Collect_where [of "\<lambda>e. (de_id e, de_at e)" "set_mset (live (sc_heap s))" "\<lambda>p. fst p \<noteq> i"]
    unfolding pending_def hp lv set_mset_filter by simp
  show "sched_inv (remove_deadline i s)" and "pending (remove_deadline i s) = {p \<in> pending s. fst p \<noteq> i}"
    and "entry_ids (remove_deadline i s) \<subseteq> entry_ids s"
  proof -
    have "sched_inv (remove_deadline i s) \<and> pending (remove_deadline i s) = {p \<in> pending s. fst p \<noteq> i}
        \<and> entry_ids (remove_deadline i s) \<subseteq> entry_ids s"
    proof (cases "?h = []")
      case True
      then have r: "remove_deadline i s = s\<lparr>sc_heap := [], sc_timer := None\<rparr>" by (simp add: remove_deadline_def cancel_def)
      have "filter_mset (\<lambda>e. de_id e \<noteq> i) (live (sc_heap s)) = {#}"
        unfolding lv [symmetric] True by (simp add: live_def)
      then have "set_mset (filter_mset (\<lambda>e. de_id e \<noteq> i) (live (sc_heap s))) = {}" by simp
      then have "\<forall>p \<in> pending s. fst p = i" by (auto simp: pending_def)
      then show ?thesis unfolding r using inv(1)
        by (auto simp: sched_inv_def pending_def live_def entry_ids_def heap_ok_def head_live_def)
    next
      case False
      let ?t = "case sc_timer s of Some t \<Rightarrow> if t \<noteq> de_at (?h ! 0) then None else Some t | None \<Rightarrow> None"
      let ?s = "s\<lparr>sc_heap := ?h, sc_timer := ?t\<rparr>"
      from False have r: "remove_deadline i s = arm ?s" by (simp add: remove_deadline_def cancel_def Let_def)
      have hd: "?h ! 0 \<in># live ?h" using False d(3) by (simp add: set_mset_live head_live_def)
      have p: "\<not> sc_closed ?s" "heap_ok (sc_heap ?s)" "distinct (map de_id (sc_heap ?s))" using inv(1) d(1) ids by simp_all
      note a = arm_inv [OF p]
      have c: "(sc_heap ?s = [] \<longrightarrow> sc_timer ?s = None) \<and> (live (sc_heap ?s) = {#} \<longrightarrow> sc_timer ?s = None)
          \<and> (\<forall>t. sc_timer ?s = Some t \<longrightarrow> (\<exists>e. e \<in># live (sc_heap ?s) \<and> de_at e \<le> t))"
        using False hd by (auto split: option.splits if_splits)
      have "sched_inv (arm ?s)" by (rule a(1)) (use c in blast)+
      moreover have "pending (arm ?s) = pending ?s" by (rule a(2)) (use c in blast)+
      then have "pending (arm ?s) = {p \<in> pending s. fst p \<noteq> i}" using pn by simp
      moreover have "entry_ids (arm ?s) \<subseteq> entry_ids ?s" by (rule a(3)) (use c in blast)+
      then have "entry_ids (arm ?s) \<subseteq> entry_ids s" by (rule subset_trans) (use sub in \<open>simp add: entry_ids_def\<close>)
      ultimately show ?thesis unfolding r by (intro conjI)
    qed
    then show "sched_inv (remove_deadline i s)" and "pending (remove_deadline i s) = {p \<in> pending s. fst p \<noteq> i}"
      and "entry_ids (remove_deadline i s) \<subseteq> entry_ids s" by blast+
  qed
qed

lemma drain_spec:
  assumes "sched_inv s" and "drain now s = (s', is)"
  shows "sched_inv s'" and "pending s' = {p \<in> pending s. now < snd p}" and "entry_ids s' \<subseteq> entry_ids s"
    and "set is = fst ` {p \<in> pending s. snd p \<le> now}" and "distinct is"
    and "\<exists>ts. length ts = length is \<and> sorted ts \<and> set (zip is ts) \<subseteq> pending s"
proof -
  have inv: "\<not> sc_closed s" "heap_ok (sc_heap s)" "head_live (sc_heap s)" "distinct (map de_id (sc_heap s))"
    using assms(1) by (simp_all add: sched_inv_def)
  obtain h es where l: "drain_loop now (sc_heap s) = (h, es)" by fastforce
  have r: "s' = arm (s\<lparr>sc_timer := None, sc_heap := h\<rparr>)" "is = map de_id es"
    using assms(2) discard_id [OF inv(3)] l by (simp_all add: drain_def)
  note d = drain_loop_spec [OF inv(2) l] and sub = drain_loop_sub [OF inv(2) l]
  have hsub: "mset h \<subseteq># mset (sc_heap s)" by (rule subset_mset.order_trans [OF mset_subset_eq_add_right sub])
  have p: "\<not> sc_closed (s\<lparr>sc_timer := None, sc_heap := h\<rparr>)" "heap_ok (sc_heap (s\<lparr>sc_timer := None, sc_heap := h\<rparr>))"
      "distinct (map de_id (sc_heap (s\<lparr>sc_timer := None, sc_heap := h\<rparr>)))"
    using inv(1,4) d distinct_ids_sub [OF hsub] by simp_all
  note a = arm_inv [OF p]
  show "sched_inv s'" unfolding r by (rule a(1)) simp_all
  have pa: "pending s' = pending (s\<lparr>sc_timer := None, sc_heap := h\<rparr>)" unfolding r by (rule a(2)) simp_all
  have fired: "\<forall>e \<in># mset es. de_at e \<le> now" and rest: "\<forall>e \<in># live h. now < de_at e"
    using d by (auto simp: set_mset_live)
  have lv: "live (sc_heap s) = mset es + live h" using d by blast
  have ps: "pending s = (\<lambda>e. (de_id e, de_at e)) ` set es \<union> pending s'"
    unfolding pa by (auto simp: pending_def lv)
  have late: "\<forall>p \<in> pending s'. now < snd p" unfolding pa using rest by (auto simp: pending_def)
  have due: "\<forall>p \<in> (\<lambda>e. (de_id e, de_at e)) ` set es. snd p \<le> now" using fired by auto
  show "pending s' = {p \<in> pending s. now < snd p}" using ps late due by force
  have "{p \<in> pending s. snd p \<le> now} = (\<lambda>e. (de_id e, de_at e)) ` set es" using ps late due by force
  then show "set is = fst ` {p \<in> pending s. snd p \<le> now}" by (simp add: r(2) image_image)
  have "mset es \<subseteq># mset (sc_heap s)" by (rule subset_mset.order_trans [OF mset_subset_eq_add_left sub])
  then show "distinct is" unfolding r(2) by (rule distinct_ids_sub) (rule inv(4))
  have "entry_ids (arm (s\<lparr>sc_timer := None, sc_heap := h\<rparr>)) \<subseteq> entry_ids (s\<lparr>sc_timer := None, sc_heap := h\<rparr>)"
    by (rule a(3)) simp_all
  also have "entry_ids (s\<lparr>sc_timer := None, sc_heap := h\<rparr>) \<subseteq> entry_ids s"
    unfolding entry_ids_def by (rule image_mono) (use d in simp)
  finally show "entry_ids s' \<subseteq> entry_ids s" unfolding r .
  show "\<exists>ts. length ts = length is \<and> sorted ts \<and> set (zip is ts) \<subseteq> pending s"
    using d ps by (intro exI [of _ "map de_at es"]) (auto simp: r(2) zip_map_map zip_same_conv_map)
qed

interpretation deadlines: timer_service sched_inv pending entry_ids sc_timer add_deadline remove_deadline drain
proof (unfold_locales, goal_cases)
  case (9 s now s' fs)
  then show ?case by (rule drain_spec(3))
next
  case (10 s now s' fs)
  then show ?case using drain_spec(4,5) by blast
next
  case (11 s)
  then show ?case by (auto simp: pending_def entry_ids_def set_mset_live)
next
  case (12 s i t u)
  then show ?case unfolding pending_def sched_inv_def using live_ids by auto
next
  case (13 s)
  then show ?case by (cases "sc_heap s") (auto simp: sched_inv_def pending_def set_mset_live head_live_def)
next
  case (14 s a i t)
  then have "sc_heap s \<noteq> []" and "a = de_at (sc_heap s ! 0)" and h: "heap_ok (sc_heap s)"
    by (auto simp: sched_inv_def split: if_splits)
  then show ?case using 14(3) heap_ok_min [OF h] by (auto simp: pending_def set_mset_live)
qed (auto intro: schedule_spec cancel_spec drain_spec(1) dest: schedule_spec(3) cancel_spec(3) simp: schedule_spec(2) cancel_spec(2) drain_spec(2))

section \<open>Properties\<close>

text \<open>C22. The timer of the scheduler is armed exactly while a deadline is pending, at the earliest one; when it
  is drained, exactly the pending deadlines that are due fire, each once and in the order of their times, and the
  others stay pending.\<close>

theorem drain_fires_due:
  assumes "sched_inv s" and "drain now s = (s', is)"
  shows "set is = fst ` {p \<in> pending s. snd p \<le> now} \<and> distinct is
     \<and> (\<exists>ts. length ts = length is \<and> sorted ts \<and> set (zip is ts) \<subseteq> pending s)
     \<and> pending s' = {p \<in> pending s. now < snd p} \<and> sched_inv s'
     \<and> (sc_timer s' = None \<longleftrightarrow> pending s' = {}) \<and> (\<forall>a. sc_timer s' = Some a \<longrightarrow> now < a \<and> a \<in> snd ` pending s')"
proof -
  note d = drain_spec [OF assms]
  have a: "a \<in> snd ` pending s'" if "sc_timer s' = Some a" for a
  proof -
    have "sc_heap s' \<noteq> []" "a = de_at (sc_heap s' ! 0)" "head_live (sc_heap s')"
      using d(1) that by (auto simp: sched_inv_def split: if_splits)
    then have "sc_heap s' ! 0 \<in># live (sc_heap s')" by (simp add: set_mset_live head_live_def)
    then show ?thesis unfolding \<open>a = de_at (sc_heap s' ! 0)\<close> pending_def by (force simp: image_iff)
  qed
  have "sc_timer s' = None \<longleftrightarrow> pending s' = {}" using deadlines.alarm_earliest [OF d(1)] by blast
  moreover have "now < a" if "sc_timer s' = Some a" for a using a [OF that] d(2) by auto
  ultimately show ?thesis using d a by blast
qed

definition demo_scheduler :: scheduler where
  "demo_scheduler = remove_deadline 6 (add_deadline 7 40 (add_deadline 6 10 (add_deadline 5 30 new_scheduler)))"

lemma demo_scheduler_inv: "sched_inv demo_scheduler" "pending demo_scheduler = {(5, 30), (7, 40)}"
proof -
  let ?a = "add_deadline 5 30 new_scheduler" and ?b = "add_deadline 6 10 (add_deadline 5 30 new_scheduler)"
  have a: "sched_inv ?a" "pending ?a = {(5, 30)}" "entry_ids ?a \<subseteq> {5}"
    using schedule_spec [of new_scheduler 5 30] by auto
  then have "6 \<notin> entry_ids ?a" by auto
  note b = schedule_spec [OF a(1) this, of 10]
  with a(3) have "entry_ids ?b \<subseteq> {5, 6}" by blast
  then have "7 \<notin> entry_ids ?b" by auto
  note c = schedule_spec [OF b(1) this, of 40]
  show "sched_inv demo_scheduler" unfolding demo_scheduler_def by (rule cancel_spec(1) [OF c(1)])
  show "pending demo_scheduler = {(5, 30), (7, 40)}"
    unfolding demo_scheduler_def cancel_spec(2) [OF c(1)] c(2) b(2) a(2) by auto
qed

theorem drain_fires_due_witness:
  "\<exists>s' fs. drain 35 demo_scheduler = (s', fs) \<and> set fs = {5} \<and> pending s' = {(7, 40)}"
proof -
  obtain s' fs where d: "drain 35 demo_scheduler = (s', fs)" by fastforce
  have "{p \<in> pending demo_scheduler. snd p \<le> 35} = {(5, 30)}" "{p \<in> pending demo_scheduler. 35 < snd p} = {(7, 40)}"
    unfolding demo_scheduler_inv(2) by auto
  with drain_fires_due [OF demo_scheduler_inv(1) d] have "set fs = {5} \<and> pending s' = {(7, 40)}" by simp
  with d show ?thesis by blast
qed

end
