(* ===== verification/WaitQueue.thy ===== *)
theory WaitQueue
  imports Prelude
begin

text \<open>
  The wait queue of the lock managers (class \<open>IntrusiveWaitQueue\<close> of
  \<open>foundation/src/concurrency/lock-manager-contract.ts\<close>): a doubly linked list threaded through its nodes.
  Nodes and queues are objects in a store, known by numbers; the operations write the pointers that the code
  writes.  The store refines a map from queues to lists of nodes.
\<close>

section \<open>The store\<close>

record wnode =
  wn_previous :: "nat option"
  wn_next :: "nat option"
  wn_queue :: "nat option"

record wqueue =
  wq_head :: "nat option"
  wq_tail :: "nat option"
  wq_size :: nat

record wstore =
  ws_node :: "nat \<Rightarrow> wnode"
  ws_queue :: "nat \<Rightarrow> wqueue"

definition free_node :: wnode where
  "free_node = \<lparr>wn_previous = None, wn_next = None, wn_queue = None\<rparr>"

definition empty_wqueue :: wqueue where
  "empty_wqueue = \<lparr>wq_head = None, wq_tail = None, wq_size = 0\<rparr>"

definition empty_store :: wstore where
  "empty_store = \<lparr>ws_node = (\<lambda>_. free_node), ws_queue = (\<lambda>_. empty_wqueue)\<rparr>"

definition set_next :: "nat \<Rightarrow> nat option \<Rightarrow> wstore \<Rightarrow> wstore" where
  "set_next n v s = s\<lparr>ws_node := (ws_node s)(n := (ws_node s n)\<lparr>wn_next := v\<rparr>)\<rparr>"

definition set_previous :: "nat \<Rightarrow> nat option \<Rightarrow> wstore \<Rightarrow> wstore" where
  "set_previous n v s = s\<lparr>ws_node := (ws_node s)(n := (ws_node s n)\<lparr>wn_previous := v\<rparr>)\<rparr>"

definition set_head :: "nat \<Rightarrow> nat option \<Rightarrow> wstore \<Rightarrow> wstore" where
  "set_head q v s = s\<lparr>ws_queue := (ws_queue s)(q := (ws_queue s q)\<lparr>wq_head := v\<rparr>)\<rparr>"

definition set_tail :: "nat \<Rightarrow> nat option \<Rightarrow> wstore \<Rightarrow> wstore" where
  "set_tail q v s = s\<lparr>ws_queue := (ws_queue s)(q := (ws_queue s q)\<lparr>wq_tail := v\<rparr>)\<rparr>"

definition set_size :: "nat \<Rightarrow> nat \<Rightarrow> wstore \<Rightarrow> wstore" where
  "set_size q v s = s\<lparr>ws_queue := (ws_queue s)(q := (ws_queue s q)\<lparr>wq_size := v\<rparr>)\<rparr>"

definition set_node :: "nat \<Rightarrow> wnode \<Rightarrow> wstore \<Rightarrow> wstore" where
  "set_node n w s = s\<lparr>ws_node := (ws_node s)(n := w)\<rparr>"

lemmas store_defs [step_simps] = set_next_def set_previous_def set_head_def set_tail_def set_size_def set_node_def

section \<open>Operations\<close>

definition push_node :: "nat \<Rightarrow> nat \<Rightarrow> wstore \<Rightarrow> wstore" where
  "push_node q n s =
     (let s1 = set_node n \<lparr>wn_previous = wq_tail (ws_queue s q), wn_next = None, wn_queue = Some q\<rparr> s;
          s2 = (case wq_tail (ws_queue s1 q) of Some t \<Rightarrow> set_next t (Some n) s1 | None \<Rightarrow> set_head q (Some n) s1);
          s3 = set_tail q (Some n) s2
      in set_size q (Suc (wq_size (ws_queue s3 q))) s3)"

definition remove_node :: "nat \<Rightarrow> nat option \<Rightarrow> wstore \<Rightarrow> wstore \<times> bool" where
  "remove_node q node s =
     (case node of
        None \<Rightarrow> (s, False)
      | Some n \<Rightarrow>
          if wn_queue (ws_node s n) \<noteq> Some q then (s, False)
          else (let w = ws_node s n;
                    s1 = (case wn_previous w of Some p \<Rightarrow> set_next p (wn_next w) s | None \<Rightarrow> set_head q (wn_next w) s);
                    s2 = (case wn_next w of Some x \<Rightarrow> set_previous x (wn_previous w) s1 | None \<Rightarrow> set_tail q (wn_previous w) s1);
                    s3 = set_node n free_node s2
                in (set_size q (wq_size (ws_queue s3 q) - 1) s3, True)))"

definition shift_node :: "nat \<Rightarrow> wstore \<Rightarrow> wstore \<times> nat option" where
  "shift_node q s =
     (let node = wq_head (ws_queue s q)
      in (if node = None then s else fst (remove_node q node s), node))"

section \<open>Linked lists\<close>

definition hd_opt :: "nat option \<Rightarrow> nat list \<Rightarrow> nat option" where
  "hd_opt z xs = (if xs = [] then z else Some (hd xs))"

definition last_opt :: "nat option \<Rightarrow> nat list \<Rightarrow> nat option" where
  "last_opt p xs = (if xs = [] then p else Some (last xs))"

fun linked :: "(nat \<Rightarrow> wnode) \<Rightarrow> nat \<Rightarrow> nat option \<Rightarrow> nat list \<Rightarrow> nat option \<Rightarrow> bool" where
  "linked N q p [] z = True"
| "linked N q p (x # xs) z =
     (N x = \<lparr>wn_previous = p, wn_next = hd_opt z xs, wn_queue = Some q\<rparr> \<and> linked N q (Some x) xs z)"

lemma opt_simps [simp]:
  "hd_opt z [] = z" "hd_opt z (x # xs) = Some x" "last_opt p [] = p"
  "last_opt p (xs @ [y]) = Some y" "hd_opt (hd_opt z ys) xs = hd_opt z (xs @ ys)"
  by (simp_all add: hd_opt_def last_opt_def)

lemma last_opt_Cons [simp]: "last_opt p (x # xs) = last_opt (Some x) xs"
  by (simp add: last_opt_def)

lemma linked_append: "linked N q p (xs @ ys) z \<longleftrightarrow> linked N q p xs (hd_opt z ys) \<and> linked N q (last_opt p xs) ys z"
  by (induction xs arbitrary: p) auto

lemma linked_cong: "(\<And>x. x \<in> set xs \<Longrightarrow> N x = M x) \<Longrightarrow> linked N q p xs z = linked M q p xs z"
  by (induction xs arbitrary: p) auto

lemma linked_upd [simp]: "n \<notin> set xs \<Longrightarrow> linked (N(n := w)) q p xs z = linked N q p xs z"
  by (rule linked_cong) auto

text \<open>A queue of the store holds a list.\<close>

definition holds :: "wstore \<Rightarrow> nat \<Rightarrow> nat list \<Rightarrow> bool" where
  "holds s q xs \<longleftrightarrow> distinct xs \<and> linked (ws_node s) q None xs None
     \<and> ws_queue s q = \<lparr>wq_head = hd_opt None xs, wq_tail = last_opt None xs, wq_size = length xs\<rparr>
     \<and> (\<forall>n. wn_queue (ws_node s n) = Some q \<longleftrightarrow> n \<in> set xs)"

definition store_ok :: "wstore \<Rightarrow> (nat \<Rightarrow> nat list) \<Rightarrow> bool" where
  "store_ok s f \<longleftrightarrow> (\<forall>q. holds s q (f q))"

lemma empty_store_ok: "store_ok empty_store (\<lambda>_. [])"
  by (simp add: store_ok_def holds_def empty_store_def empty_wqueue_def free_node_def)

lemma hd_opt_None_iff [simp]: "hd_opt None xs = None \<longleftrightarrow> xs = []" "last_opt None xs = None \<longleftrightarrow> xs = []"
  by (simp_all add: hd_opt_def last_opt_def)

lemma holdsD:
  assumes "holds s q xs"
  shows "distinct xs" "linked (ws_node s) q None xs None" "wq_head (ws_queue s q) = hd_opt None xs"
    "wq_tail (ws_queue s q) = last_opt None xs" "wq_size (ws_queue s q) = length xs"
    "wn_queue (ws_node s n) = Some q \<longleftrightarrow> n \<in> set xs"
  using assms by (simp_all add: holds_def)

lemma last_opt_in: "last_opt None xs = Some t \<Longrightarrow> t \<in> set xs"
  by (auto simp: last_opt_def split: if_splits)

lemma hd_opt_in: "hd_opt None xs = Some t \<Longrightarrow> t \<in> set xs"
  by (auto simp: hd_opt_def split: if_splits)

text \<open>Operations of one queue leave the others alone.\<close>

lemma holds_frame:
  assumes "holds s r xs" and "ws_queue t r = ws_queue s r" and "\<And>x. x \<in> set xs \<Longrightarrow> ws_node t x = ws_node s x"
    and "\<And>x. x \<notin> set xs \<Longrightarrow> wn_queue (ws_node t x) \<noteq> Some r"
  shows "holds t r xs"
  using assms(1,2,3,4) linked_cong [of xs "ws_node t" "ws_node s"] unfolding holds_def by auto

lemma push_holds:
  assumes "holds s q xs" and "wn_queue (ws_node s n) = None"
  shows "holds (push_node q n s) q (xs @ [n])"
proof (cases xs rule: rev_cases)
  case Nil
  with assms show ?thesis by (auto simp: holds_def push_node_def Let_def step_simps)
next
  case (snoc ys t)
  have n: "n \<notin> set xs" using assms unfolding holds_def by (metis option.distinct(1))
  from assms(1) have l: "linked (ws_node s) q None ys (Some t)" "ws_node s t = \<lparr>wn_previous = last_opt None ys, wn_next = None, wn_queue = Some q\<rparr>"
    and d: "distinct ys" "t \<notin> set ys"
    and q: "ws_queue s q = \<lparr>wq_head = hd_opt None xs, wq_tail = Some t, wq_size = Suc (length ys)\<rparr>"
    and m: "\<And>k. wn_queue (ws_node s k) = Some q \<longleftrightarrow> k = t \<or> k \<in> set ys"
    by (simp_all add: holds_def snoc linked_append)
  have nt: "n \<noteq> t" "n \<notin> set ys" using n by (simp_all add: snoc)
  have nodes: "ws_node (push_node q n s) = (ws_node s)(n := \<lparr>wn_previous = Some t, wn_next = None, wn_queue = Some q\<rparr>,
      t := \<lparr>wn_previous = last_opt None ys, wn_next = Some n, wn_queue = Some q\<rparr>)"
    using nt by (simp add: push_node_def Let_def step_simps q l(2))
  have queue: "ws_queue (push_node q n s) q = \<lparr>wq_head = hd_opt None xs, wq_tail = Some n, wq_size = Suc (Suc (length ys))\<rparr>"
    using nt by (simp add: push_node_def Let_def step_simps q)
  have h: "hd_opt None xs = hd_opt None (xs @ [n])" by (cases ys) (simp_all add: hd_opt_def snoc)
  have "linked (ws_node (push_node q n s)) q None (xs @ [n]) None"
  proof -
    have "linked (ws_node s) q None ys (Some t)" by (rule l(1))
    then have "linked (ws_node (push_node q n s)) q None ys (Some t)" unfolding nodes using nt d by (simp del: fun_upd_apply)
    then show ?thesis unfolding snoc by (simp add: linked_append nodes nt)
  qed
  moreover have "wn_queue (ws_node (push_node q n s) k) = Some q \<longleftrightarrow> k \<in> set (xs @ [n])" for k
    unfolding nodes snoc by (simp add: m)
  ultimately show ?thesis unfolding holds_def queue using d nt h by (simp add: snoc last_opt_def)
qed

lemma push_frame: "holds s r ys \<Longrightarrow> r \<noteq> q \<Longrightarrow> holds s q xs \<Longrightarrow> wn_queue (ws_node s n) = None \<Longrightarrow> holds (push_node q n s) r ys"
proof (rule holds_frame, assumption)
  assume a: "holds s r ys" "r \<noteq> q" "holds s q xs" "wn_queue (ws_node s n) = None"
  show "ws_queue (push_node q n s) r = ws_queue s r"
    using a(2) by (auto simp: push_node_def Let_def step_simps split: option.splits)
  have t: "wn_queue (ws_node s t) = Some q" if "wq_tail (ws_queue s q) = Some t" for t
    using that last_opt_in unfolding holdsD(4,6) [OF a(3)] by blast
  fix x
  have "ws_node (push_node q n s) x = ws_node s x" if "x \<noteq> n" "wq_tail (ws_queue s q) \<noteq> Some x"
    using that by (auto simp: push_node_def Let_def step_simps split: option.splits)
  moreover have "wn_queue (ws_node (push_node q n s) x) = Some q" if "x = n \<or> wq_tail (ws_queue s q) = Some x"
    using that t by (auto simp: push_node_def Let_def step_simps split: option.splits)
  moreover have "x \<in> set ys \<longleftrightarrow> wn_queue (ws_node s x) = Some r" by (rule holdsD(6) [OF a(1), symmetric])
  ultimately show "x \<in> set ys \<Longrightarrow> ws_node (push_node q n s) x = ws_node s x"
    and "x \<notin> set ys \<Longrightarrow> wn_queue (ws_node (push_node q n s) x) \<noteq> Some r"
    using a(2,4) t by (metis option.distinct(1) option.inject)+
qed

text \<open>Removal joins the neighbours.\<close>

definition relink_next :: "nat list \<Rightarrow> nat option \<Rightarrow> (nat \<Rightarrow> wnode) \<Rightarrow> nat \<Rightarrow> wnode" where
  "relink_next xs z N = (if xs = [] then N else N(last xs := (N (last xs))\<lparr>wn_next := z\<rparr>))"

definition relink_previous :: "nat list \<Rightarrow> nat option \<Rightarrow> (nat \<Rightarrow> wnode) \<Rightarrow> nat \<Rightarrow> wnode" where
  "relink_previous xs p N = (if xs = [] then N else N(hd xs := (N (hd xs))\<lparr>wn_previous := p\<rparr>))"

lemma linked_relink_next: "linked N q p xs z \<Longrightarrow> distinct xs \<Longrightarrow> linked (relink_next xs z' N) q p xs z'"
proof (cases xs rule: rev_cases)
  case (snoc ys y)
  assume "linked N q p xs z" "distinct xs"
  then have "linked N q p ys (Some y)" "N y = \<lparr>wn_previous = last_opt p ys, wn_next = z, wn_queue = Some q\<rparr>" "y \<notin> set ys"
    by (simp_all add: snoc linked_append)
  then show ?thesis by (simp add: snoc linked_append relink_next_def)
qed simp

lemma linked_relink_previous: "linked N q p xs z \<Longrightarrow> distinct xs \<Longrightarrow> linked (relink_previous xs p' N) q p' xs z"
  by (cases xs) (simp_all add: relink_previous_def)

lemma relink_other: "x \<notin> set xs \<Longrightarrow> relink_next xs z N x = N x" "x \<notin> set xs \<Longrightarrow> relink_previous xs p N x = N x"
  by (auto simp: relink_next_def relink_previous_def)

lemma relink_queue: "wn_queue (relink_next xs z N x) = wn_queue (N x)" "wn_queue (relink_previous xs p N x) = wn_queue (N x)"
  by (auto simp: relink_next_def relink_previous_def)

lemma remove_split:
  assumes "holds s q (as @ n # bs)"
  shows "ws_node (fst (remove_node q (Some n) s)) = (relink_previous bs (last_opt None as) (relink_next as (hd_opt None bs) (ws_node s)))(n := free_node)"
    and "ws_queue (fst (remove_node q (Some n) s)) = (ws_queue s)(q := \<lparr>wq_head = hd_opt None (as @ bs), wq_tail = last_opt None (as @ bs), wq_size = length (as @ bs)\<rparr>)"
    and "snd (remove_node q (Some n) s)"
proof -
  have d: "distinct (as @ n # bs)" by (rule holdsD(1) [OF assms])
  have w: "ws_node s n = \<lparr>wn_previous = last_opt None as, wn_next = hd_opt None bs, wn_queue = Some q\<rparr>"
    using holdsD(2) [OF assms] by (simp add: linked_append)
  have q: "ws_queue s q = \<lparr>wq_head = hd_opt None (as @ n # bs), wq_tail = last_opt None (as @ n # bs), wq_size = length (as @ n # bs)\<rparr>"
    using assms by (simp add: holds_def)
  show "ws_node (fst (remove_node q (Some n) s)) = (relink_previous bs (last_opt None as) (relink_next as (hd_opt None bs) (ws_node s)))(n := free_node)"
    by (simp add: remove_node_def w Let_def step_simps relink_next_def relink_previous_def last_opt_def hd_opt_def)
  show "snd (remove_node q (Some n) s)" by (simp add: remove_node_def w Let_def)
  show "ws_queue (fst (remove_node q (Some n) s)) = (ws_queue s)(q := \<lparr>wq_head = hd_opt None (as @ bs), wq_tail = last_opt None (as @ bs), wq_size = length (as @ bs)\<rparr>)"
    by (simp add: remove_node_def w Let_def step_simps q last_opt_def hd_opt_def hd_append)
qed

lemma remove_holds:
  assumes "holds s q (as @ n # bs)"
  shows "holds (fst (remove_node q (Some n) s)) q (as @ bs)"
proof -
  let ?s = "fst (remove_node q (Some n) s)"
  have d: "distinct as" "distinct bs" "set as \<inter> set bs = {}" "n \<notin> set as" "n \<notin> set bs" using holdsD(1) [OF assms] by auto
  have "linked (ws_node s) q None (as @ n # bs) None" by (rule holdsD(2) [OF assms])
  then have l: "linked (ws_node s) q None as (Some n)" "linked (ws_node s) q (Some n) bs None" by (simp_all add: linked_append)
  let ?N1 = "relink_next as (hd_opt None bs) (ws_node s)"
  let ?N2 = "relink_previous bs (last_opt None as) ?N1"
  have "linked ?N1 q None as (hd_opt None bs)" by (rule linked_relink_next [OF l(1) d(1)])
  then have a: "linked ?N2 q None as (hd_opt None bs)"
    using linked_cong [of as ?N2 ?N1] d(3) relink_other(2) by blast
  have "linked ?N1 q (Some n) bs None" using l(2) linked_cong [of bs ?N1 "ws_node s"] d(3) relink_other(1) by blast
  then have b: "linked ?N2 q (last_opt None as) bs None" by (rule linked_relink_previous [OF _ d(2)])
  have "linked (ws_node ?s) q None (as @ bs) None"
    unfolding remove_split(1) [OF assms] linked_append using a b d(4,5) by (simp del: fun_upd_apply)
  moreover have "wn_queue (ws_node ?s k) = Some q \<longleftrightarrow> k \<in> set (as @ bs)" for k
    using holdsD(6) [OF assms, of k] d(4,5) unfolding remove_split(1) [OF assms] by (auto simp: relink_queue free_node_def)
  moreover have "ws_queue ?s q = \<lparr>wq_head = hd_opt None (as @ bs), wq_tail = last_opt None (as @ bs), wq_size = length (as @ bs)\<rparr>"
    unfolding remove_split(2) [OF assms] by simp
  ultimately show ?thesis unfolding holds_def using d by auto
qed

lemma remove_node_frame:
  assumes "holds s q (as @ n # bs)" and "holds s r ys" and "r \<noteq> q"
  shows "holds (fst (remove_node q (Some n) s)) r ys"
proof (rule holds_frame [OF assms(2)])
  show "ws_queue (fst (remove_node q (Some n) s)) r = ws_queue s r" unfolding remove_split(2) [OF assms(1)] using assms(3) by simp
  fix x
  show "ws_node (fst (remove_node q (Some n) s)) x = ws_node s x" if "x \<in> set ys"
  proof -
    from that have "wn_queue (ws_node s x) = Some r" unfolding holdsD(6) [OF assms(2)] .
    then have "x \<notin> set (as @ n # bs)" using holdsD(6) [OF assms(1), of x] assms(3) by (metis option.inject)
    then show ?thesis unfolding remove_split(1) [OF assms(1)] by (simp add: relink_other)
  qed
  show "wn_queue (ws_node (fst (remove_node q (Some n) s)) x) \<noteq> Some r" if "x \<notin> set ys"
    using that holdsD(6) [OF assms(2), of x] unfolding remove_split(1) [OF assms(1)] by (auto simp: relink_queue free_node_def)
qed

lemma remove_absent: "store_ok s f \<Longrightarrow> n \<notin> set (f q) \<Longrightarrow> remove_node q (Some n) s = (s, False)"
  unfolding remove_node_def store_ok_def using holdsD(6) [of s q "f q" n] by auto

lemma remove_store:
  assumes "store_ok s f"
  shows "store_ok (fst (remove_node q (Some n) s)) (f(q := remove1 n (f q)))" and "snd (remove_node q (Some n) s) \<longleftrightarrow> n \<in> set (f q)"
proof -
  have "store_ok (fst (remove_node q (Some n) s)) (f(q := remove1 n (f q))) \<and> (snd (remove_node q (Some n) s) \<longleftrightarrow> n \<in> set (f q))"
  proof (cases "n \<in> set (f q)")
    case False
    then have "f(q := remove1 n (f q)) = f" by (simp add: remove1_idem)
    with False remove_absent [OF assms False] assms show ?thesis by simp
  next
    case True
    then obtain as bs where x: "f q = as @ n # bs" "n \<notin> set as" by (meson split_list_first)
    have h: "holds s q (as @ n # bs)" using assms unfolding store_ok_def x(1) [symmetric] by blast
    have r: "remove1 n (f q) = as @ bs" using x by (simp add: remove1_append)
    have "holds (fst (remove_node q (Some n) s)) k ((f(q := remove1 n (f q))) k)" for k
    proof (cases "k = q")
      case True
      then show ?thesis using remove_holds [OF h] r by simp
    next
      case False
      then show ?thesis using remove_node_frame [OF h, of k "f k"] assms by (simp add: store_ok_def)
    qed
    then show ?thesis using remove_split(3) [OF h] True by (simp add: store_ok_def)
  qed
  then show "store_ok (fst (remove_node q (Some n) s)) (f(q := remove1 n (f q)))" and "snd (remove_node q (Some n) s) \<longleftrightarrow> n \<in> set (f q)"
    by blast+
qed

lemma push_store:
  assumes "store_ok s f" and "\<And>q. n \<notin> set (f q)"
  shows "store_ok (push_node q n s) (f(q := f q @ [n]))"
proof -
  have free: "wn_queue (ws_node s n) = None"
  proof (cases "wn_queue (ws_node s n)")
    case (Some r)
    then have "n \<in> set (f r)" using assms(1) holdsD(6) [of s r "f r" n] by (simp add: store_ok_def)
    with assms(2) show ?thesis by blast
  qed
  have h: "holds s k (f k)" for k using assms(1) by (simp add: store_ok_def)
  have "holds (push_node q n s) k ((f(q := f q @ [n])) k)" for k
    using push_holds [OF h free] push_frame [OF h _ h free] by (cases "k = q") auto
  then show ?thesis by (simp add: store_ok_def)
qed

lemma shift_store:
  assumes "store_ok s f"
  shows "store_ok (fst (shift_node q s)) (f(q := tl (f q)))" and "snd (shift_node q s) = hd_opt None (f q)"
proof -
  have hd: "wq_head (ws_queue s q) = hd_opt None (f q)" using assms holdsD(3) unfolding store_ok_def by blast
  then show "snd (shift_node q s) = hd_opt None (f q)" by (simp add: shift_node_def Let_def)
  show "store_ok (fst (shift_node q s)) (f(q := tl (f q)))"
  proof (cases "f q")
    case Nil
    then have "f(q := tl (f q)) = f" by auto
    with Nil hd assms show ?thesis by (simp add: shift_node_def)
  next
    case (Cons n ns)
    then have "remove1 n (f q) = tl (f q)" by simp
    with remove_store(1) [OF assms, of q n] Cons hd show ?thesis by (simp add: shift_node_def Let_def)
  qed
qed

section \<open>Queues as an interface\<close>

text \<open>What the lock manager relies on: every queue is a list that grows at the end, loses its head or one member.\<close>

locale fifo_queues =
  fixes ok :: "'s \<Rightarrow> (nat \<Rightarrow> nat list) \<Rightarrow> bool"
    and push :: "nat \<Rightarrow> nat \<Rightarrow> 's \<Rightarrow> 's"
    and remove :: "nat \<Rightarrow> nat \<Rightarrow> 's \<Rightarrow> 's \<times> bool"
    and shift :: "nat \<Rightarrow> 's \<Rightarrow> 's \<times> nat option"
  assumes push_ok: "ok s f \<Longrightarrow> (\<And>q. n \<notin> set (f q)) \<Longrightarrow> ok (push q n s) (f(q := f q @ [n]))"
    and remove_ok: "ok s f \<Longrightarrow> ok (fst (remove q n s)) (f(q := remove1 n (f q)))"
    and remove_found: "ok s f \<Longrightarrow> snd (remove q n s) \<longleftrightarrow> n \<in> set (f q)"
    and shift_ok: "ok s f \<Longrightarrow> ok (fst (shift q s)) (f(q := tl (f q)))"
    and shift_head: "ok s f \<Longrightarrow> snd (shift q s) = (case f q of [] \<Rightarrow> None | n # _ \<Rightarrow> Some n)"
begin

fun shifts :: "nat \<Rightarrow> nat \<Rightarrow> 's \<Rightarrow> 's \<times> nat list" where
  "shifts q 0 s = (s, [])"
| "shifts q (Suc k) s =
     (case snd (shift q s) of
        None \<Rightarrow> (fst (shift q s), [])
      | Some n \<Rightarrow> (let (t, ns) = shifts q k (fst (shift q s)) in (t, n # ns)))"

lemma shifts_take: "ok s f \<Longrightarrow> shifts q k s = (t, ns) \<Longrightarrow> ns = take k (f q)"
proof (induction k arbitrary: s f ns)
  case (Suc k)
  have k: "ok (fst (shift q s)) (f(q := tl (f q)))" by (rule shift_ok [OF Suc.prems(1)])
  show ?case
  proof (cases "f q")
    case Nil
    then show ?thesis using Suc.prems shift_head [OF Suc.prems(1), of q] by simp
  next
    case (Cons n xs)
    obtain ms where m: "shifts q k (fst (shift q s)) = (t, ms)" "ns = n # ms"
      using Suc.prems(2) shift_head [OF Suc.prems(1), of q] Cons by (auto split: prod.splits)
    with Suc.IH [OF k m(1)] Cons show ?thesis by simp
  qed
qed simp

lemma push_many: "ok s f \<Longrightarrow> distinct ns \<Longrightarrow> (\<And>q n. n \<in> set ns \<Longrightarrow> n \<notin> set (f q)) \<Longrightarrow>
    ok (foldl (\<lambda>s n. push q n s) s ns) (f(q := f q @ ns))"
proof (induction ns arbitrary: s f)
  case (Cons n ns)
  have "ok (push q n s) (f(q := f q @ [n]))" using Cons.prems by (intro push_ok) auto
  then have "ok (foldl (\<lambda>s n. push q n s) (push q n s) ns) ((f(q := f q @ [n]))(q := (f(q := f q @ [n])) q @ ns))"
  proof (rule Cons.IH)
    show "distinct ns" using Cons.prems(2) by simp
    show "m \<notin> set ((f(q := f q @ [n])) r)" if "m \<in> set ns" for r m
    proof -
      have "m \<notin> set (f r)" "m \<noteq> n" using Cons.prems that by auto
      moreover have "m \<notin> set (f q)" using Cons.prems(3) that by auto
      ultimately show ?thesis by auto
    qed
  qed
  moreover have "(f(q := f q @ [n]))(q := (f(q := f q @ [n])) q @ ns) = f(q := f q @ n # ns)" by auto
  ultimately show ?case by (simp only: foldl_Cons)
qed simp

end

interpretation waiters: fifo_queues store_ok push_node "\<lambda>q n. remove_node q (Some n)" shift_node
  by unfold_locales
    (auto simp: remove_store shift_store hd_opt_def intro: push_store split: list.splits)

section \<open>Properties\<close>

text \<open>C26. The linked queues refine lists: over every sequence of operations, a push appends a node that is in
  no queue, a removal takes out exactly the given node of the given queue and tells whether it was there, and a
  shift takes the head; no operation disturbs another queue.\<close>

theorem wait_queue_refines_lists:
  assumes "store_ok s f"
  shows "((\<forall>r. n \<notin> set (f r)) \<longrightarrow> store_ok (push_node q n s) (f(q := f q @ [n])))
    \<and> store_ok (fst (remove_node q (Some n) s)) (f(q := remove1 n (f q))) \<and> (snd (remove_node q (Some n) s) \<longleftrightarrow> n \<in> set (f q))
    \<and> store_ok (fst (shift_node q s)) (f(q := tl (f q))) \<and> snd (shift_node q s) = hd_opt None (f q)
    \<and> wq_size (ws_queue s q) = length (f q)"
  using waiters.push_ok [OF assms] remove_store [OF assms] shift_store [OF assms] assms holdsD(5)
  unfolding store_ok_def by blast

theorem wait_queue_refines_lists_witness:
  "snd (shift_node 0 (push_node 0 8 (push_node 0 7 empty_store))) = Some 7
   \<and> wq_size (ws_queue (push_node 0 8 (push_node 0 7 empty_store)) 0) = 2"
proof -
  have a: "store_ok (push_node 0 7 empty_store) ((\<lambda>_. [])(0 := [7]))"
    using wait_queue_refines_lists [OF empty_store_ok, of 7 0] by simp
  then have b: "store_ok (push_node 0 8 (push_node 0 7 empty_store)) ((\<lambda>_. [])(0 := [7, 8]))"
    using wait_queue_refines_lists [OF a, of 8 0] by simp
  then show ?thesis using wait_queue_refines_lists [OF b, of 8 0] by simp
qed

end
