(* ===== verification/LockManager.thy ===== *)
theory LockManager
  imports DeadlineHeap WaitQueue GatewayUtils JsMap Systems
begin

text \<open>
  The in-memory lock manager (\<open>foundation/src/concurrency/lock-manager.ts\<close>) with its contract
  (\<open>lock-manager-contract.ts\<close>).  A handle is known by its fencing token and a waiter by the number of its call,
  which is also the identity of its deadline entry.  The operations are the synchronous parts of the methods and
  of the callbacks (expiry timer, deadline timer, abort listener); the clock readings of an operation are
  arguments.  An expiry timer may fire whenever it likes, so nothing rests on its accuracy.  The queues of
  waiters are the lists that theory WaitQueue refines, the scheduler is that of theory DeadlineHeap.
  Durations are whole milliseconds.
\<close>

section \<open>Configuration and errors\<close>

datatype lock_error =
    LTimeout int
  | LAborted
  | LQueueFull int
  | LFencing
  | LReleased
  | LDestroyed string
  | LTypeError string
  | LUnsupported string

definition lock_error_message :: "lock_error \<Rightarrow> string" where
  "lock_error_message e =
     (case e of
        LTimeout ms \<Rightarrow> ''Lock acquisition timed out after '' @ show_int ms @ ''ms.''
      | LAborted \<Rightarrow> ''Lock acquisition was cancelled.''
      | LQueueFull n \<Rightarrow> ''Lock queue is full (max '' @ show_int n @ '').''
      | LFencing \<Rightarrow> ''Lock fencing token mismatch.''
      | LReleased \<Rightarrow> ''Lock handle has already been released.''
      | LDestroyed b \<Rightarrow> b @ '' lock manager has been destroyed.''
      | LTypeError m \<Rightarrow> m
      | LUnsupported m \<Rightarrow> m)"

definition js_nullish :: "jsval \<Rightarrow> bool" where
  "js_nullish v = (v = JUndef \<or> v = JNull)"

definition or_default :: "jsval \<Rightarrow> int \<Rightarrow> jsval" where
  "or_default v fallback = (if js_nullish v then JNum (Fin fallback) else v)"

definition normalizeLockKey :: "jsval \<Rightarrow> lock_error + string" where
  "normalizeLockKey v =
     (let n = js_trim (if js_nullish v then [] else js_string v)
      in if n = [] then Inl (LTypeError ''Lock key must be a non-empty string.'') else Inr n)"

definition positiveDuration :: "jsval \<Rightarrow> int \<Rightarrow> string \<Rightarrow> lock_error + int" where
  "positiveDuration v fallback label =
     (case or_default v fallback of
        JNum (Fin i) \<Rightarrow> if i \<le> 0 then Inl (LTypeError (label @ '' must be a positive finite number.'')) else Inr i
      | _ \<Rightarrow> Inl (LTypeError (label @ '' must be a positive finite number.'')))"

definition nonNegativeDuration :: "jsval \<Rightarrow> int \<Rightarrow> string \<Rightarrow> lock_error + int" where
  "nonNegativeDuration v fallback label =
     (case or_default v fallback of
        JNum (Fin i) \<Rightarrow> if i < 0 then Inl (LTypeError (label @ '' must be a non-negative finite number.'')) else Inr i
      | _ \<Rightarrow> Inl (LTypeError (label @ '' must be a non-negative finite number.'')))"

definition positiveInteger :: "jsval \<Rightarrow> int \<Rightarrow> string \<Rightarrow> lock_error + int" where
  "positiveInteger v fallback label =
     (case or_default v fallback of
        JNum (Fin i) \<Rightarrow> if \<not> isSafeInteger (Fin i) \<or> i \<le> 0
          then Inl (LTypeError (label @ '' must be a positive safe integer.'')) else Inr i
      | _ \<Rightarrow> Inl (LTypeError (label @ '' must be a positive safe integer.'')))"

record lock_config =
  lc_backend :: string
  lc_defaultTtlMs :: int
  lc_maxWaitMs :: int
  lc_heartbeatIntervalMs :: int
  lc_maxQueueDepth :: int
  lc_maxTotalQueueDepth :: int

definition lock_config_of :: "jsobj \<Rightarrow> lock_error + lock_config" where
  "lock_config_of c =
     bind_res (positiveDuration (prop_of c ''defaultTtlMs'') 30000 ''defaultTtlMs'') (\<lambda>ttl.
     bind_res (nonNegativeDuration (prop_of c ''maxWaitMs'') 60000 ''maxWaitMs'') (\<lambda>wait.
     bind_res (positiveDuration (prop_of c ''heartbeatIntervalMs'') 10000 ''heartbeatIntervalMs'') (\<lambda>beat.
     bind_res (positiveInteger (prop_of c ''maxQueueDepth'') 1000 ''maxQueueDepth'') (\<lambda>depth.
     bind_res (positiveInteger (prop_of c ''maxTotalQueueDepth'') 4096 ''maxTotalQueueDepth'') (\<lambda>total.
     Inr \<lparr>lc_backend = ''memory'', lc_defaultTtlMs = ttl, lc_maxWaitMs = wait, lc_heartbeatIntervalMs = beat,
       lc_maxQueueDepth = depth, lc_maxTotalQueueDepth = total\<rparr>)))))"

section \<open>State\<close>

record lock_handle =
  lh_key :: string
  lh_token :: nat
  lh_acquiredAt :: int
  lh_expiresAt :: int
  lh_released :: bool

record lock_waiter =
  mw_id :: nat
  mw_ttl :: int
  mw_wait :: int
  mw_active :: bool

record lock_metrics =
  lt_acquired :: nat
  lt_released :: nat
  lt_timedOut :: nat
  lt_expired :: nat
  lt_active :: int
  lt_waiting :: int

text \<open>The handles that were ever created stay in the model, because their holders keep them.\<close>

record lockman =
  lm_config :: lock_config
  lm_locks :: "(string, nat) jsmap"
  lm_handles :: "(nat, lock_handle) jsmap"
  lm_queues :: "(string, lock_waiter list) jsmap"
  lm_sched :: scheduler
  lm_destroyed :: bool
  lm_metrics :: lock_metrics
  lm_sequence :: nat
  lm_calls :: nat

datatype lock_event =
    LGranted nat nat
  | LRejected nat lock_error
  | LQueued nat

definition zero_metrics :: lock_metrics where
  "zero_metrics = \<lparr>lt_acquired = 0, lt_released = 0, lt_timedOut = 0, lt_expired = 0, lt_active = 0, lt_waiting = 0\<rparr>"

definition new_lockman :: "nat \<Rightarrow> lock_config \<Rightarrow> lockman" where
  "new_lockman sq c = \<lparr>lm_config = c, lm_locks = [], lm_handles = [], lm_queues = [], lm_sched = new_scheduler,
     lm_destroyed = False, lm_metrics = zero_metrics, lm_sequence = sq, lm_calls = 0\<rparr>"

text \<open>The factory: the durable backends load asynchronously and are refused here.\<close>

definition requiredBackend :: "jsobj \<Rightarrow> lock_error + string" where
  "requiredBackend c =
     (let v = prop_of c ''backend''; b = js_trim (if js_nullish v then [] else js_string v)
      in if b = [] then Inl (LTypeError ''Lock manager backend must be selected explicitly.'') else Inr b)"

definition createLockManager :: "nat \<Rightarrow> jsobj \<Rightarrow> lock_error + lockman" where
  "createLockManager sq c =
     bind_res (requiredBackend c) (\<lambda>b.
       if b = ''memory'' then bind_res (lock_config_of c) (\<lambda>k. Inr (new_lockman sq k))
       else if b = ''sqlite'' then Inl (LUnsupported ''SQLite lock manager requires async ESM loading. Use createLockManagerAsync(config).'')
       else if b = ''postgres'' then Inl (LUnsupported ''Postgres lock manager requires async ESM loading. Use createLockManagerAsync(config).'')
       else Inl (LUnsupported (''Unsupported lock manager backend: '' @ js_string (prop_of c ''backend'') @ ''.'')))"

section \<open>Operations\<close>

definition on_metrics :: "(lock_metrics \<Rightarrow> lock_metrics) \<Rightarrow> lockman \<Rightarrow> lockman" where
  "on_metrics f s = s\<lparr>lm_metrics := f (lm_metrics s)\<rparr>"

definition fencing_text :: "nat \<Rightarrow> string" where
  "fencing_text n = ''fence_memory_'' @ show_nat n"

text \<open>\<open>_createLockHandle\<close>, whose fencing token is the next number of the sequence.\<close>

definition createLockHandle :: "string \<Rightarrow> int \<Rightarrow> int \<Rightarrow> lockman \<Rightarrow> lockman \<times> nat" where
  "createLockHandle key ttl now s =
     (let token = Suc (lm_sequence s)
      in (on_metrics (\<lambda>m. m\<lparr>lt_acquired := Suc (lt_acquired m), lt_active := lt_active m + 1\<rparr>)
            (s\<lparr>lm_sequence := token,
               lm_handles := map_set (lm_handles s) token
                 \<lparr>lh_key = key, lh_token = token, lh_acquiredAt = now, lh_expiresAt = now + ttl, lh_released = False\<rparr>,
               lm_locks := map_set (lm_locks s) key token\<rparr>), token))"

definition queue_of :: "lockman \<Rightarrow> string \<Rightarrow> lock_waiter list" where
  "queue_of s key = (case map_get (lm_queues s) key of None \<Rightarrow> [] | Some q \<Rightarrow> q)"

text \<open>A queue that became empty leaves the table.\<close>

definition put_queue :: "(string, lock_waiter list) jsmap \<Rightarrow> string \<Rightarrow> lock_waiter list \<Rightarrow> (string, lock_waiter list) jsmap" where
  "put_queue m key q = (if q = [] then map_del m key else map_set m key q)"

definition one_less_waiting :: "lock_metrics \<Rightarrow> lock_metrics" where
  "one_less_waiting m = m\<lparr>lt_waiting := max 0 (lt_waiting m - 1)\<rparr>"

text \<open>\<open>_promoteNext\<close>: the first active waiter gets the lock.\<close>

definition promoteNext :: "string \<Rightarrow> int \<Rightarrow> lockman \<Rightarrow> lockman \<times> lock_event list" where
  "promoteNext key now s =
     (case dropWhile (\<lambda>w. \<not> mw_active w) (queue_of s key) of
        [] \<Rightarrow> (s\<lparr>lm_queues := map_del (lm_queues s) key\<rparr>, [])
      | w # ws \<Rightarrow>
          (let s1 = on_metrics one_less_waiting
                 (s\<lparr>lm_sched := cancel (Some (mw_id w)) (lm_sched s), lm_queues := put_queue (lm_queues s) key ws\<rparr>);
               (s2, token) = createLockHandle key (mw_ttl w) now s1
           in (s2, [LGranted (mw_id w) token])))"

definition mark_released :: "nat \<Rightarrow> lockman \<Rightarrow> lockman" where
  "mark_released token s =
     (case map_get (lm_handles s) token of
        None \<Rightarrow> s
      | Some h \<Rightarrow> s\<lparr>lm_handles := map_set (lm_handles s) token (h\<lparr>lh_released := True\<rparr>)\<rparr>)"

definition drop_lock :: "string \<Rightarrow> nat \<Rightarrow> (lock_metrics \<Rightarrow> lock_metrics) \<Rightarrow> lockman \<Rightarrow> lockman" where
  "drop_lock key token f s = on_metrics f (mark_released token (s\<lparr>lm_locks := map_del (lm_locks s) key\<rparr>))"

definition expired_metrics :: "lock_metrics \<Rightarrow> lock_metrics" where
  "expired_metrics m = m\<lparr>lt_active := lt_active m - 1, lt_expired := Suc (lt_expired m)\<rparr>"

definition released_metrics :: "lock_metrics \<Rightarrow> lock_metrics" where
  "released_metrics m = m\<lparr>lt_released := Suc (lt_released m), lt_active := lt_active m - 1\<rparr>"

definition expireHandle :: "string \<Rightarrow> nat \<Rightarrow> int \<Rightarrow> lockman \<Rightarrow> lockman \<times> lock_event list" where
  "expireHandle key token now s =
     (if map_get (lm_locks s) key \<noteq> Some token then (s, [])
      else promoteNext key now (drop_lock key token expired_metrics s))"

definition lock_expired :: "lockman \<Rightarrow> string \<Rightarrow> int \<Rightarrow> nat option" where
  "lock_expired s key now =
     (case map_get (lm_locks s) key of
        None \<Rightarrow> None
      | Some token \<Rightarrow>
          (case map_get (lm_handles s) token of
             None \<Rightarrow> None
           | Some h \<Rightarrow> if lh_expiresAt h \<le> now then Some token else None))"

definition expire_if_due :: "string \<Rightarrow> int \<Rightarrow> int \<Rightarrow> lockman \<Rightarrow> lockman \<times> lock_event list" where
  "expire_if_due key t1 t2 s =
     (case lock_expired s key t1 of None \<Rightarrow> (s, []) | Some token \<Rightarrow> expireHandle key token t2 s)"

definition enqueue_waiter :: "nat \<Rightarrow> string \<Rightarrow> int \<Rightarrow> int \<Rightarrow> int \<Rightarrow> lockman \<Rightarrow> lockman" where
  "enqueue_waiter i key ttl wait now s =
     on_metrics (\<lambda>m. m\<lparr>lt_waiting := lt_waiting m + 1\<rparr>)
       (s\<lparr>lm_sched := fst (schedule i (now + wait) (lm_sched s)),
          lm_queues := map_set (lm_queues s) key (queue_of s key @ [\<lparr>mw_id = i, mw_ttl = ttl, mw_wait = wait, mw_active = True\<rparr>])\<rparr>)"

text \<open>The part of \<open>acquire\<close> after the arguments were checked.\<close>

definition acquire_checked :: "nat \<Rightarrow> string \<Rightarrow> int \<Rightarrow> int \<Rightarrow> int \<Rightarrow> lockman \<Rightarrow> lockman \<times> lock_event list" where
  "acquire_checked i key ttl wait now s =
     (if map_get (lm_locks s) key = None
      then (let (s1, token) = createLockHandle key ttl now s in (s1, [LGranted i token]))
      else if wait \<le> 0
      then (on_metrics (\<lambda>m. m\<lparr>lt_timedOut := Suc (lt_timedOut m)\<rparr>) s, [LRejected i (LTimeout 0)])
      else (let s1 = s\<lparr>lm_queues := (if map_has (lm_queues s) key then lm_queues s else map_set (lm_queues s) key [])\<rparr>
            in if lt_waiting (lm_metrics s) \<ge> lc_maxQueueDepth (lm_config s)
               then (s1, [LRejected i (LQueueFull (lc_maxQueueDepth (lm_config s)))])
               else (enqueue_waiter i key ttl wait now s1, [LQueued i])))"

definition acquire :: "jsval \<Rightarrow> jsval \<Rightarrow> jsval \<Rightarrow> bool \<Rightarrow> int \<Rightarrow> int \<Rightarrow> int \<Rightarrow> lockman \<Rightarrow> lockman \<times> lock_event list" where
  "acquire key ttlMs waitMs aborted t1 t2 t3 s0 =
     (let i = lm_calls s0; s = s0\<lparr>lm_calls := Suc i\<rparr>
      in if lm_destroyed s then (s, [LRejected i (LDestroyed (lc_backend (lm_config s)))])
         else case normalizeLockKey key of
           Inl e \<Rightarrow> (s, [LRejected i e])
         | Inr k \<Rightarrow>
             if aborted then (s, [LRejected i LAborted])
             else (case bind_res (positiveDuration ttlMs (lc_defaultTtlMs (lm_config s)) ''ttlMs'') (\<lambda>ttl.
                     bind_res (nonNegativeDuration waitMs (lc_maxWaitMs (lm_config s)) ''waitMs'') (\<lambda>wait. Inr (ttl, wait))) of
                     Inl e \<Rightarrow> (s, [LRejected i e])
                   | Inr (ttl, wait) \<Rightarrow>
                       (let (s1, e1) = expire_if_due k t1 t2 s; (s2, e2) = acquire_checked i k ttl wait t3 s1
                        in (s2, e1 @ e2))))"

text \<open>\<open>release\<close> of a handle that this manager created.\<close>

definition release_lock :: "nat \<Rightarrow> int \<Rightarrow> int \<Rightarrow> lockman \<Rightarrow> lock_error option \<times> lockman \<times> lock_event list" where
  "release_lock token t1 t2 s =
     (case map_get (lm_handles s) token of
        None \<Rightarrow> (None, s, [])
      | Some h \<Rightarrow>
          if lh_released h then (None, s, [])
          else (case map_get (lm_locks s) (lh_key h) of
                  None \<Rightarrow> (None, s, [])
                | Some held \<Rightarrow>
                    if held \<noteq> token then (Some LFencing, s, [])
                    else if lh_expiresAt h \<le> t1 then (None, expireHandle (lh_key h) token t2 s)
                    else (None, promoteNext (lh_key h) t2 (drop_lock (lh_key h) token released_metrics s))))"

definition heartbeat :: "nat \<Rightarrow> jsval \<Rightarrow> int \<Rightarrow> int \<Rightarrow> lockman \<Rightarrow> lock_error option \<times> lockman \<times> lock_event list" where
  "heartbeat token extendMs t1 t2 s =
     (case map_get (lm_handles s) token of
        None \<Rightarrow> (None, s, [])
      | Some h \<Rightarrow>
          if lh_released h then (Some LReleased, s, [])
          else (case positiveDuration extendMs (lc_defaultTtlMs (lm_config s)) ''extendMs'' of
                  Inl e \<Rightarrow> (Some e, s, [])
                | Inr ttl \<Rightarrow>
                    if map_get (lm_locks s) (lh_key h) \<noteq> Some token then (Some LReleased, mark_released token s, [])
                    else if lh_expiresAt h \<le> t1 then (Some LReleased, expireHandle (lh_key h) token t2 s)
                    else (None, s\<lparr>lm_handles := map_set (lm_handles s) token (h\<lparr>lh_expiresAt := t2 + ttl\<rparr>)\<rparr>, [])))"

definition isLocked :: "jsval \<Rightarrow> int \<Rightarrow> int \<Rightarrow> lockman \<Rightarrow> (lock_error + bool) \<times> lockman \<times> lock_event list" where
  "isLocked key t1 t2 s =
     (if lm_destroyed s then (Inl (LDestroyed (lc_backend (lm_config s))), s, [])
      else case normalizeLockKey key of
        Inl e \<Rightarrow> (Inl e, s, [])
      | Inr k \<Rightarrow> (let (s1, ev) = expire_if_due k t1 t2 s in (Inr (map_has (lm_locks s1) k), s1, ev)))"

text \<open>The expiry timer of a handle.\<close>

definition expiry_timer :: "nat \<Rightarrow> int \<Rightarrow> lockman \<Rightarrow> lockman \<times> lock_event list" where
  "expiry_timer token now s =
     (case map_get (lm_handles s) token of None \<Rightarrow> (s, []) | Some h \<Rightarrow> expireHandle (lh_key h) token now s)"

text \<open>A waiter leaves its queue without the lock.\<close>

definition find_waiter :: "nat \<Rightarrow> lockman \<Rightarrow> (string \<times> lock_waiter) option" where
  "find_waiter i s =
     (case find (\<lambda>p. \<exists>w \<in> set (snd p). mw_id w = i \<and> mw_active w) (lm_queues s) of
        None \<Rightarrow> None
      | Some p \<Rightarrow> map_option (Pair (fst p)) (find (\<lambda>w. mw_id w = i \<and> mw_active w) (snd p)))"

definition leave_queue :: "string \<Rightarrow> nat \<Rightarrow> lockman \<Rightarrow> lockman" where
  "leave_queue key i s =
     on_metrics one_less_waiting
       (s\<lparr>lm_queues := put_queue (lm_queues s) key (filter (\<lambda>w. mw_id w \<noteq> i) (queue_of s key))\<rparr>)"

definition lock_abort_listener :: "nat \<Rightarrow> lockman \<Rightarrow> lockman \<times> lock_event list" where
  "lock_abort_listener i s =
     (case find_waiter i s of
        None \<Rightarrow> (s, [])
      | Some (key, w) \<Rightarrow>
          (let s1 = leave_queue key i s
           in (s1\<lparr>lm_sched := cancel (Some i) (lm_sched s1)\<rparr>, [LRejected i LAborted])))"

definition wait_deadline :: "nat \<Rightarrow> lockman \<Rightarrow> lockman \<times> lock_event list" where
  "wait_deadline i s =
     (case find_waiter i s of
        None \<Rightarrow> (s, [])
      | Some (key, w) \<Rightarrow>
          (on_metrics (\<lambda>m. m\<lparr>lt_timedOut := Suc (lt_timedOut m)\<rparr>) (leave_queue key i s), [LRejected i (LTimeout (mw_wait w))]))"

fun wait_deadlines :: "nat list \<Rightarrow> lockman \<Rightarrow> lockman \<times> lock_event list" where
  "wait_deadlines [] s = (s, [])"
| "wait_deadlines (i # is) s = (let (s1, e1) = wait_deadline i s; (s2, e2) = wait_deadlines is s1 in (s2, e1 @ e2))"

definition deadline_timer_fires :: "int \<Rightarrow> lockman \<Rightarrow> lockman \<times> lock_event list" where
  "deadline_timer_fires now s = (let (sc, is) = drain now (lm_sched s) in wait_deadlines is (s\<lparr>lm_sched := sc\<rparr>))"

definition destroyed_metrics :: "nat \<Rightarrow> lock_metrics \<Rightarrow> lock_metrics" where
  "destroyed_metrics n m = m\<lparr>lt_released := lt_released m + n, lt_active := 0, lt_waiting := 0\<rparr>"

definition held_unreleased :: "lockman \<Rightarrow> nat list" where
  "held_unreleased s = filter (\<lambda>t. case map_get (lm_handles s) t of None \<Rightarrow> False | Some h \<Rightarrow> \<not> lh_released h) (map snd (lm_locks s))"

definition destroy :: "lockman \<Rightarrow> lockman \<times> lock_event list" where
  "destroy s =
     (if lm_destroyed s then (s, [])
      else (on_metrics (destroyed_metrics (length (held_unreleased s)))
              ((fold mark_released (held_unreleased s) s)\<lparr>lm_destroyed := True, lm_locks := [], lm_queues := [],
                 lm_sched := close_scheduler (lm_sched s)\<rparr>),
            concat (map (\<lambda>p. map (\<lambda>w. LRejected (mw_id w) (LDestroyed (lc_backend (lm_config s)))) (snd p)) (lm_queues s))))"

text \<open>Another manager of the process takes a number of the sequence.\<close>

definition sequence_elsewhere :: "lockman \<Rightarrow> lockman" where
  "sequence_elsewhere s = s\<lparr>lm_sequence := Suc (lm_sequence s)\<rparr>"

record lock_gauges =
  lg_metrics :: lock_metrics
  lg_queueKeys :: nat
  lg_waiterTimers :: nat

definition getMetrics :: "lockman \<Rightarrow> lock_gauges" where
  "getMetrics s = \<lparr>lg_metrics = lm_metrics s, lg_queueKeys = length (lm_queues s), lg_waiterTimers = activeTimerCount (lm_sched s)\<rparr>"

datatype lock_op =
    Acquire jsval jsval jsval bool int int int
  | Release nat int int
  | Heartbeat nat jsval int int
  | IsLocked jsval int int
  | ExpiryTimer nat int
  | WaitTimer int
  | AbortWait nat
  | Destroy
  | SequenceElsewhere

fun lock_op_step :: "lock_op \<Rightarrow> lockman \<Rightarrow> lockman \<times> lock_event list" where
  "lock_op_step (Acquire key ttl wait ab t1 t2 t3) s = acquire key ttl wait ab t1 t2 t3 s"
| "lock_op_step (Release token t1 t2) s = snd (release_lock token t1 t2 s)"
| "lock_op_step (Heartbeat token ext t1 t2) s = snd (heartbeat token ext t1 t2 s)"
| "lock_op_step (IsLocked key t1 t2) s = snd (isLocked key t1 t2 s)"
| "lock_op_step (ExpiryTimer token now) s = expiry_timer token now s"
| "lock_op_step (WaitTimer now) s = deadline_timer_fires now s"
| "lock_op_step (AbortWait i) s = lock_abort_listener i s"
| "lock_op_step Destroy s = destroy s"
| "lock_op_step SequenceElsewhere s = (sequence_elsewhere s, [])"

section \<open>The invariant\<close>

text \<open>Locks and handles: the handles that were not released are exactly the registered ones.\<close>

definition lock_part :: "lockman \<Rightarrow> bool" where
  "lock_part s \<longleftrightarrow> wf_map (lm_locks s) \<and> wf_map (lm_handles s)
     \<and> (\<forall>k t. map_of (lm_locks s) k = Some t \<longrightarrow>
          (\<exists>h. map_of (lm_handles s) t = Some h \<and> lh_key h = k \<and> \<not> lh_released h))
     \<and> (\<forall>t h. map_of (lm_handles s) t = Some h \<longrightarrow> lh_token h = t \<and> t \<le> lm_sequence s
          \<and> (\<not> lh_released h \<longrightarrow> map_of (lm_locks s) (lh_key h) = Some t))"

definition lock_counts :: "lockman \<Rightarrow> bool" where
  "lock_counts s \<longleftrightarrow> lt_active (lm_metrics s) = int (length (lm_locks s))
     \<and> lt_acquired (lm_metrics s) = lt_released (lm_metrics s) + lt_expired (lm_metrics s) + length (lm_locks s)"

definition waiter_ids :: "(string, lock_waiter list) jsmap \<Rightarrow> nat multiset" where
  "waiter_ids m = map_sum (\<lambda>ws. mset (map mw_id ws)) m"

definition queue_part :: "lockman \<Rightarrow> bool" where
  "queue_part s \<longleftrightarrow> wf_map (lm_queues s)
     \<and> (\<forall>k ws w. map_of (lm_queues s) k = Some ws \<longrightarrow> w \<in> set ws \<longrightarrow> mw_active w)
     \<and> (\<forall>i. count (waiter_ids (lm_queues s)) i \<le> 1) \<and> (\<forall>i \<in># waiter_ids (lm_queues s). i < lm_calls s)
     \<and> lt_waiting (lm_metrics s) = int (size (waiter_ids (lm_queues s)))
     \<and> (lm_queues s \<noteq> [] \<longrightarrow> \<not> lm_destroyed s) \<and> 0 \<le> lc_maxQueueDepth (lm_config s)
     \<and> lt_waiting (lm_metrics s) \<le> lc_maxQueueDepth (lm_config s)"

text \<open>The pending deadlines are those of the waiters.\<close>

definition timer_part :: "lockman \<Rightarrow> bool" where
  "timer_part s \<longleftrightarrow> (\<not> lm_destroyed s \<longrightarrow> sched_inv (lm_sched s)
     \<and> fst ` pending (lm_sched s) = set_mset (waiter_ids (lm_queues s)) \<and> (\<forall>i \<in> entry_ids (lm_sched s). i < lm_calls s))
     \<and> (lm_destroyed s \<longrightarrow> sc_heap (lm_sched s) = [])"

definition queue_waits :: "lockman \<Rightarrow> string \<Rightarrow> bool" where
  "queue_waits s k \<longleftrightarrow> (queue_of s k \<noteq> [] \<longrightarrow> map_of (lm_locks s) k \<noteq> None)"

definition lm_inv :: "lockman \<Rightarrow> bool" where
  "lm_inv s \<longleftrightarrow> lock_part s \<and> lock_counts s \<and> queue_part s \<and> timer_part s \<and> (\<forall>k. queue_waits s k)
     \<and> (lm_destroyed s \<longrightarrow> lm_locks s = [])"

subsection \<open>Locks and handles\<close>

lemma createLockHandle_facts:
  assumes "createLockHandle key ttl now s = (s', t)"
  shows "t = Suc (lm_sequence s)" "lm_sequence s' = t" "lm_locks s' = map_set (lm_locks s) key t"
    "lm_queues s' = lm_queues s" "lm_sched s' = lm_sched s" "lm_destroyed s' = lm_destroyed s" "lm_calls s' = lm_calls s"
    "lm_config s' = lm_config s" "lt_waiting (lm_metrics s') = lt_waiting (lm_metrics s)"
    "lm_handles s' = map_set (lm_handles s) t \<lparr>lh_key = key, lh_token = t, lh_acquiredAt = now, lh_expiresAt = now + ttl, lh_released = False\<rparr>"
    "lt_active (lm_metrics s') = lt_active (lm_metrics s) + 1" "lt_acquired (lm_metrics s') = Suc (lt_acquired (lm_metrics s))"
    "lt_released (lm_metrics s') = lt_released (lm_metrics s)" "lt_expired (lm_metrics s') = lt_expired (lm_metrics s)"
  using assms by (auto simp: createLockHandle_def Let_def on_metrics_def)

lemma create_lock_part:
  assumes "createLockHandle key ttl now s = (s', t)" and "lock_part s" and "map_of (lm_locks s) key = None"
  shows "lock_part s'"
proof -
  note c = createLockHandle_facts [OF assms(1)]
  have old: "map_of (lm_locks s) k = Some u \<Longrightarrow> \<exists>h. map_of (lm_handles s) u = Some h \<and> lh_key h = k \<and> \<not> lh_released h"
    "map_of (lm_handles s) u = Some h \<Longrightarrow> lh_token h = u \<and> u \<le> lm_sequence s \<and> (\<not> lh_released h \<longrightarrow> map_of (lm_locks s) (lh_key h) = Some u)" for k u h
    using assms(2) unfolding lock_part_def by blast+
  have new: "\<exists>h. map_of (lm_handles s') u = Some h \<and> lh_key h = k \<and> \<not> lh_released h" if "map_of (lm_locks s') k = Some u" for k u
  proof (cases "k = key")
    case True
    with that show ?thesis by (simp add: c)
  next
    case False
    then have "map_of (lm_locks s) k = Some u" using that by (simp add: c)
    then obtain h where h: "map_of (lm_handles s) u = Some h" "lh_key h = k" "\<not> lh_released h" using old(1) by blast
    then have "u \<noteq> t" using old(2) c(1) by force
    with h show ?thesis by (simp add: c)
  qed
  have new': "lh_token h = u \<and> u \<le> lm_sequence s' \<and> (\<not> lh_released h \<longrightarrow> map_of (lm_locks s') (lh_key h) = Some u)"
    if "map_of (lm_handles s') u = Some h" for u h
  proof (cases "u = t")
    case True
    with that c(2) show ?thesis by (auto simp: c(3,10))
  next
    case False
    then have o': "lh_token h = u \<and> u \<le> lm_sequence s \<and> (\<not> lh_released h \<longrightarrow> map_of (lm_locks s) (lh_key h) = Some u)"
      using that old(2) by (simp add: c(10))
    moreover have "\<not> lh_released h \<Longrightarrow> lh_key h \<noteq> key" using o' assms(3) by auto
    ultimately show ?thesis using c(1,2) by (auto simp: c(3))
  qed
  show ?thesis unfolding lock_part_def using new new' assms(2) by (simp add: c(3,10) lock_part_def)
qed

lemma create_lock_counts:
  "createLockHandle key ttl now s = (s', t) \<Longrightarrow> lock_counts s \<Longrightarrow> map_of (lm_locks s) key = None \<Longrightarrow> lock_counts s'"
  using createLockHandle_facts [of key ttl now s s' t] by (simp add: lock_counts_def length_map_set)

lemma mark_released_facts:
  "lm_locks (mark_released t s) = lm_locks s" "lm_queues (mark_released t s) = lm_queues s"
  "lm_sched (mark_released t s) = lm_sched s" "lm_destroyed (mark_released t s) = lm_destroyed s"
  "lm_metrics (mark_released t s) = lm_metrics s" "lm_sequence (mark_released t s) = lm_sequence s"
  "lm_calls (mark_released t s) = lm_calls s" "lm_config (mark_released t s) = lm_config s"
  "map_of (lm_handles (mark_released t s)) u =
     (if u = t then map_option (\<lambda>h. h\<lparr>lh_released := True\<rparr>) (map_of (lm_handles s) t) else map_of (lm_handles s) u)"
  "wf_map (lm_handles s) \<Longrightarrow> wf_map (lm_handles (mark_released t s))"
  by (auto simp: mark_released_def split: option.splits)

lemma drop_lock_facts:
  "lm_locks (drop_lock k t f s) = map_del (lm_locks s) k" "lm_queues (drop_lock k t f s) = lm_queues s"
  "lm_sched (drop_lock k t f s) = lm_sched s" "lm_destroyed (drop_lock k t f s) = lm_destroyed s"
  "lm_metrics (drop_lock k t f s) = f (lm_metrics s)" "lm_sequence (drop_lock k t f s) = lm_sequence s"
  "lm_calls (drop_lock k t f s) = lm_calls s" "lm_config (drop_lock k t f s) = lm_config s"
  "map_of (lm_handles (drop_lock k t f s)) u =
     (if u = t then map_option (\<lambda>h. h\<lparr>lh_released := True\<rparr>) (map_of (lm_handles s) t) else map_of (lm_handles s) u)"
  "wf_map (lm_handles s) \<Longrightarrow> wf_map (lm_handles (drop_lock k t f s))"
  by (simp_all add: drop_lock_def on_metrics_def mark_released_facts)

lemma drop_lock_part:
  assumes "lock_part s" and "map_of (lm_locks s) k = Some t"
  shows "lock_part (drop_lock k t f s)"
proof -
  have a: "\<exists>h. map_of (lm_handles (drop_lock k t f s)) u = Some h \<and> lh_key h = j \<and> \<not> lh_released h"
    if "map_of (lm_locks (drop_lock k t f s)) j = Some u" for j u
  proof -
    from that have j: "j \<noteq> k" "map_of (lm_locks s) j = Some u" by (auto simp: drop_lock_facts split: if_splits)
    then obtain h where h: "map_of (lm_handles s) u = Some h" "lh_key h = j" "\<not> lh_released h" using assms(1) unfolding lock_part_def by blast
    moreover have "u \<noteq> t" using assms h j(1) unfolding lock_part_def by fastforce
    ultimately show ?thesis by (simp add: drop_lock_facts)
  qed
  have b: "lh_token h = u \<and> u \<le> lm_sequence s \<and> (\<not> lh_released h \<longrightarrow> map_of (map_del (lm_locks s) k) (lh_key h) = Some u)"
    if "map_of (lm_handles (drop_lock k t f s)) u = Some h" for u h
  proof (cases "u = t")
    case True
    with that assms(1) show ?thesis unfolding lock_part_def by (auto simp: drop_lock_facts)
  next
    case False
    with that have "map_of (lm_handles s) u = Some h" by (simp add: drop_lock_facts)
    then have o': "lh_token h = u \<and> u \<le> lm_sequence s \<and> (\<not> lh_released h \<longrightarrow> map_of (lm_locks s) (lh_key h) = Some u)"
      using assms(1) unfolding lock_part_def by blast
    with assms(2) False show ?thesis by auto
  qed
  show ?thesis unfolding lock_part_def using a b assms(1) by (simp add: drop_lock_facts lock_part_def)
qed

lemma length_map_del: "wf_map m \<Longrightarrow> map_of m k = Some v \<Longrightarrow> Suc (length (map_del m k)) = length m"
  using js_store.size_delete_present [of m k] by (cases m) auto

lemma drop_lock_counts:
  assumes "lock_part s" and "lock_counts s" and "map_of (lm_locks s) k = Some t" and "f = expired_metrics \<or> f = released_metrics"
  shows "lock_counts (drop_lock k t f s)"
  using assms length_map_del [of "lm_locks s" k t]
  by (auto simp: lock_counts_def lock_part_def drop_lock_facts expired_metrics_def released_metrics_def)

subsection \<open>Queues\<close>

lemma queue_of_Some: "map_of (lm_queues s) k = Some q \<Longrightarrow> queue_of s k = q"
  by (simp add: queue_of_def)

lemma put_queue_facts:
  "wf_map m \<Longrightarrow> wf_map (put_queue m k q)"
  "map_of (put_queue m k q) j = (if j = k then (if q = [] then None else Some q) else map_of m j)"
  by (simp_all add: put_queue_def)

lemma waiter_ids_put:
  "wf_map m \<Longrightarrow> waiter_ids (put_queue m k q) + mset (map mw_id (case map_of m k of None \<Rightarrow> [] | Some p \<Rightarrow> p))
     = waiter_ids m + mset (map mw_id q)"
proof (cases "map_of m k")
  case None
  then have "map_del m k = m" by (force simp: map_del_def filter_id_conv map_of_eq_None_iff)
  with None show ?thesis using map_sum_set_new [OF None, of "\<lambda>ws. mset (map mw_id ws)" q] by (simp add: waiter_ids_def put_queue_def)
next
  case (Some p)
  assume "wf_map m"
  with Some show ?thesis
    using map_sum_set_old [OF Some, of "\<lambda>ws. mset (map mw_id ws)" q] map_sum_del [of m k p "\<lambda>ws. mset (map mw_id ws)"]
    by (simp add: waiter_ids_def put_queue_def)
qed

lemma waiter_ids_queue: "wf_map (lm_queues s) \<Longrightarrow> mset (map mw_id (queue_of s k)) \<subseteq># waiter_ids (lm_queues s)"
proof (cases "map_of (lm_queues s) k")
  case (Some q)
  assume "wf_map (lm_queues s)"
  from map_sum_del [OF this Some, of "\<lambda>ws. mset (map mw_id ws)"] show ?thesis
    unfolding waiter_ids_def queue_of_Some [OF Some] by (metis mset_subset_eq_add_right)
qed (simp add: queue_of_def)

lemma waiter_ids_delete_empty: "queue_of s k = [] \<Longrightarrow> wf_map (lm_queues s) \<Longrightarrow> waiter_ids (map_del (lm_queues s) k) = waiter_ids (lm_queues s)"
  using waiter_ids_put [of "lm_queues s" k "[]"] by (simp add: put_queue_def queue_of_def)

text \<open>A waiter leaves its queue: by promotion, or by its deadline or signal.\<close>

lemma leave_ids:
  assumes "queue_part s" and "queue_of s k = xs @ w # ys"
  shows "waiter_ids (lm_queues s) = add_mset (mw_id w) (waiter_ids (put_queue (lm_queues s) k (xs @ ys)))"
    and "mw_id w \<notin># waiter_ids (put_queue (lm_queues s) k (xs @ ys))"
    and "filter (\<lambda>v. mw_id v \<noteq> mw_id w) (queue_of s k) = xs @ ys"
proof -
  have wf: "wf_map (lm_queues s)" and c: "count (waiter_ids (lm_queues s)) i \<le> 1" for i
    using assms(1) by (simp_all add: queue_part_def)
  show e: "waiter_ids (lm_queues s) = add_mset (mw_id w) (waiter_ids (put_queue (lm_queues s) k (xs @ ys)))"
    using waiter_ids_put [OF wf, of k "xs @ ys"] assms(2) by (simp add: queue_of_def)
  show n: "mw_id w \<notin># waiter_ids (put_queue (lm_queues s) k (xs @ ys))" using c [of "mw_id w"] unfolding e by (simp add: not_in_iff)
  have "mset (map mw_id (queue_of s k)) \<subseteq># waiter_ids (lm_queues s)" by (rule waiter_ids_queue [OF wf])
  then have "count (mset (map mw_id (queue_of s k))) (mw_id w) \<le> 1"
    using c [of "mw_id w"] mset_subset_eq_count le_trans by metis
  then have "mw_id w \<notin> mw_id ` set xs" "mw_id w \<notin> mw_id ` set ys"
    unfolding assms(2) by (auto simp: count_eq_zero_iff)
  then have "(\<forall>v \<in> set xs. mw_id v \<noteq> mw_id w) \<and> (\<forall>v \<in> set ys. mw_id v \<noteq> mw_id w)"
    by (metis image_eqI)
  then show "filter (\<lambda>v. mw_id v \<noteq> mw_id w) (queue_of s k) = xs @ ys" unfolding assms(2) by (simp add: filter_id_conv)
qed

lemma leave_queue_part:
  assumes q: "queue_part s" and x: "queue_of s k = xs @ w # ys" and "lm_queues t = put_queue (lm_queues s) k (xs @ ys)"
    and "lt_waiting (lm_metrics t) = max 0 (lt_waiting (lm_metrics s) - 1)"
    and "lm_calls t = lm_calls s" "lm_destroyed t = lm_destroyed s" "lm_config t = lm_config s"
  shows "queue_part t"
proof -
  note l = leave_ids [OF q x]
  have k: "map_of (lm_queues s) k = Some (xs @ w # ys)" using x by (auto simp: queue_of_def split: option.splits)
  have "mw_active v" if "map_of (lm_queues t) j = Some ws" "v \<in> set ws" for j ws v
  proof -
    have "\<exists>us. map_of (lm_queues s) j = Some us \<and> v \<in> set us"
      using that k unfolding assms(3) by (auto simp: put_queue_facts split: if_splits)
    then show ?thesis using q unfolding queue_part_def by blast
  qed
  moreover have "count (waiter_ids (lm_queues t)) i \<le> 1" for i
  proof -
    have "count (waiter_ids (lm_queues s)) i \<le> 1" using q by (simp add: queue_part_def)
    then show ?thesis unfolding assms(3) l(1) by (simp split: if_splits)
  qed
  moreover have "\<forall>i \<in># waiter_ids (lm_queues t). i < lm_calls t"
    using q unfolding queue_part_def assms(3,5) l(1) by auto
  moreover have "lm_queues s \<noteq> []" using k by auto
  ultimately show ?thesis using q l(1) unfolding queue_part_def assms(3,4,6,7) by (simp add: put_queue_facts assms(3,5))
qed

lemma cancel_some: "cancel (Some i) sc = remove_deadline i sc"
  by (simp add: remove_deadline_def)

lemma leave_timer_part:
  assumes "queue_part s" and x: "queue_of s k = xs @ w # ys" and "timer_part s"
    and "lm_queues t = put_queue (lm_queues s) k (xs @ ys)" and "lm_sched t = cancel (Some (mw_id w)) (lm_sched s)"
    and "lm_calls t = lm_calls s" "lm_destroyed t = lm_destroyed s"
  shows "timer_part t"
  unfolding timer_part_def
proof (intro conjI impI)
  assume "lm_destroyed t"
  moreover have "lm_queues s \<noteq> []" using x by (auto simp: queue_of_def)
  ultimately show "sc_heap (lm_sched t) = []" using assms(1,7) by (simp add: queue_part_def)
next
  assume "\<not> lm_destroyed t"
  then have o': "sched_inv (lm_sched s)" "fst ` pending (lm_sched s) = set_mset (waiter_ids (lm_queues s))"
      "\<forall>i \<in> entry_ids (lm_sched s). i < lm_calls s"
    using assms(3,7) by (simp_all add: timer_part_def)
  note l = leave_ids [OF assms(1) x]
  have "fst ` pending (lm_sched t) = {i \<in> fst ` pending (lm_sched s). i \<noteq> mw_id w}"
    unfolding assms(5) cancel_some deadlines.remove_pending [OF o'(1)] by auto
  also have "\<dots> = set_mset (waiter_ids (lm_queues t))" unfolding o'(2) assms(4) l(1) using l(2) by auto
  finally have "fst ` pending (lm_sched t) = set_mset (waiter_ids (lm_queues t))" .
  moreover have "sched_inv (lm_sched t)" unfolding assms(5) cancel_some by (rule deadlines.remove_inv [OF o'(1)])
  moreover have "\<forall>i \<in> entry_ids (lm_sched t). i < lm_calls t"
    unfolding assms(5,6) cancel_some using deadlines.remove_known [OF o'(1)] o'(3) by blast
  ultimately show "sched_inv (lm_sched t)" and "fst ` pending (lm_sched t) = set_mset (waiter_ids (lm_queues t))"
    and "\<forall>i \<in> entry_ids (lm_sched t). i < lm_calls t" by blast+
qed

text \<open>Parts depend on few fields.\<close>

lemma lock_part_cong: "lm_locks t = lm_locks s \<Longrightarrow> lm_handles t = lm_handles s \<Longrightarrow> lm_sequence s \<le> lm_sequence t \<Longrightarrow> lock_part s \<Longrightarrow> lock_part t"
proof -
  assume e: "lm_locks t = lm_locks s" "lm_handles t = lm_handles s" "lm_sequence s \<le> lm_sequence t" and p: "lock_part s"
  have "u \<le> lm_sequence t" if "map_of (lm_handles s) u = Some h" for u h
    using p that e(3) unfolding lock_part_def by (meson le_trans)
  then show ?thesis using p unfolding lock_part_def e(1,2) by blast
qed

lemma lock_counts_cong: "lm_locks t = lm_locks s \<Longrightarrow> lt_active (lm_metrics t) = lt_active (lm_metrics s)
    \<Longrightarrow> lt_acquired (lm_metrics t) = lt_acquired (lm_metrics s) \<Longrightarrow> lt_released (lm_metrics t) = lt_released (lm_metrics s)
    \<Longrightarrow> lt_expired (lm_metrics t) = lt_expired (lm_metrics s) \<Longrightarrow> lock_counts s \<Longrightarrow> lock_counts t"
  by (simp add: lock_counts_def)

lemma queue_part_cong: "lm_queues t = lm_queues s \<Longrightarrow> lt_waiting (lm_metrics t) = lt_waiting (lm_metrics s)
    \<Longrightarrow> lm_calls s \<le> lm_calls t \<Longrightarrow> lm_destroyed t = lm_destroyed s \<Longrightarrow> lm_config t = lm_config s \<Longrightarrow> queue_part s \<Longrightarrow> queue_part t"
  unfolding queue_part_def by auto

lemma timer_part_cong: "lm_queues t = lm_queues s \<Longrightarrow> lm_sched t = lm_sched s
    \<Longrightarrow> lm_calls s \<le> lm_calls t \<Longrightarrow> lm_destroyed t = lm_destroyed s \<Longrightarrow> timer_part s \<Longrightarrow> timer_part t"
  unfolding timer_part_def by auto

lemma queue_waits_cong: "lm_queues t = lm_queues s \<Longrightarrow> lm_locks t = lm_locks s \<Longrightarrow> queue_waits t k = queue_waits s k"
  by (simp add: queue_waits_def queue_of_def)

lemma queue_active: "queue_part s \<Longrightarrow> dropWhile (\<lambda>w. \<not> mw_active w) (queue_of s k) = queue_of s k"
proof (cases "map_of (lm_queues s) k")
  case (Some q)
  assume "queue_part s"
  with Some have "\<forall>w \<in> set q. mw_active w" unfolding queue_part_def by blast
  then show ?thesis unfolding queue_of_Some [OF Some] by (cases q) auto
qed (simp add: queue_of_def)

lemma queue_of_put: "queue_of (s\<lparr>lm_queues := put_queue m k q\<rparr>) j = (if j = k then q else case map_of m j of None \<Rightarrow> [] | Some p \<Rightarrow> p)"
  by (simp add: queue_of_def put_queue_facts)

text \<open>Between the removal of a lock and the promotion, only the queue of its key may be unserved.\<close>

definition unserved_at :: "lockman \<Rightarrow> string \<Rightarrow> bool" where
  "unserved_at s key \<longleftrightarrow> lock_part s \<and> lock_counts s \<and> queue_part s \<and> timer_part s
     \<and> map_of (lm_locks s) key = None \<and> (\<forall>k. k \<noteq> key \<longrightarrow> queue_waits s k) \<and> (lm_destroyed s \<longrightarrow> lm_locks s = [])"

lemma promote_empty:
  assumes "unserved_at s key" and "queue_of s key = []"
  shows "promoteNext key now s = (s\<lparr>lm_queues := map_del (lm_queues s) key\<rparr>, [])"
    and "lm_inv (s\<lparr>lm_queues := map_del (lm_queues s) key\<rparr>)"
proof -
  show "promoteNext key now s = (s\<lparr>lm_queues := map_del (lm_queues s) key\<rparr>, [])" by (simp add: promoteNext_def assms(2))
  have u: "lock_part s" "lock_counts s" "queue_part s" "timer_part s" "map_of (lm_locks s) key = None"
      "\<And>k. k \<noteq> key \<Longrightarrow> queue_waits s k" "lm_destroyed s \<Longrightarrow> lm_locks s = []"
    using assms(1) unfolding unserved_at_def by blast+
  let ?t = "s\<lparr>lm_queues := map_del (lm_queues s) key\<rparr>"
  have w: "waiter_ids (lm_queues ?t) = waiter_ids (lm_queues s)"
    using waiter_ids_delete_empty [OF assms(2)] u(3) by (simp add: queue_part_def)
  have ne: "lm_queues ?t \<noteq> [] \<Longrightarrow> lm_queues s \<noteq> []" by (auto simp: map_del_def)
  have "queue_part ?t" using u(3) w ne unfolding queue_part_def by (auto split: if_splits)
  moreover have "timer_part ?t" using u(4) w unfolding timer_part_def by simp
  moreover have "\<forall>k. queue_waits ?t k" using u(6) by (auto simp: queue_waits_def queue_of_def)
  moreover have "lock_part ?t" by (rule lock_part_cong [OF _ _ _ u(1)]) simp_all
  moreover have "lock_counts ?t" by (rule lock_counts_cong [OF _ _ _ _ _ u(2)]) simp_all
  ultimately show "lm_inv ?t" using u(7) unfolding lm_inv_def by simp
qed

lemma promote_first:
  assumes "unserved_at s key" and q: "queue_of s key = w # ws"
  shows "\<exists>t. promoteNext key now s = (t, [LGranted (mw_id w) (Suc (lm_sequence s))]) \<and> lm_inv t
      \<and> map_of (lm_locks t) key = Some (Suc (lm_sequence s)) \<and> lm_queues t = put_queue (lm_queues s) key ws
      \<and> lm_sequence t = Suc (lm_sequence s) \<and> entry_ids (lm_sched t) \<subseteq> entry_ids (lm_sched s)"
proof -
  have u: "lock_part s" "lock_counts s" "queue_part s" "timer_part s" "map_of (lm_locks s) key = None"
      "\<And>k. k \<noteq> key \<Longrightarrow> queue_waits s k" "lm_destroyed s \<Longrightarrow> lm_locks s = []"
    using assms(1) unfolding unserved_at_def by blast+
  let ?s1 = "on_metrics one_less_waiting (s\<lparr>lm_sched := cancel (Some (mw_id w)) (lm_sched s), lm_queues := put_queue (lm_queues s) key ws\<rparr>)"
  obtain t token where c: "createLockHandle key (mw_ttl w) now ?s1 = (t, token)" by fastforce
  note f = createLockHandle_facts [OF c]
  have s1: "lm_locks ?s1 = lm_locks s" "lm_handles ?s1 = lm_handles s" "lm_sequence ?s1 = lm_sequence s"
    "lm_queues ?s1 = put_queue (lm_queues s) key ([] @ ws)" "lm_sched ?s1 = cancel (Some (mw_id w)) (lm_sched s)" "lm_calls ?s1 = lm_calls s"
    "lm_destroyed ?s1 = lm_destroyed s" "lm_config ?s1 = lm_config s"
    "lt_waiting (lm_metrics ?s1) = max 0 (lt_waiting (lm_metrics s) - 1)" "lt_active (lm_metrics ?s1) = lt_active (lm_metrics s)"
    "lt_acquired (lm_metrics ?s1) = lt_acquired (lm_metrics s)" "lt_released (lm_metrics ?s1) = lt_released (lm_metrics s)"
    "lt_expired (lm_metrics ?s1) = lt_expired (lm_metrics s)"
    by (simp_all add: on_metrics_def one_less_waiting_def)
  have q': "queue_of s key = [] @ w # ws" using q by simp
  have "lock_part ?s1" by (rule lock_part_cong [OF _ _ _ u(1)]) (simp_all add: s1)
  then have lp: "lock_part t" using create_lock_part [OF c] u(5) s1(1) by simp
  have "lock_counts ?s1" by (rule lock_counts_cong [OF _ _ _ _ _ u(2)]) (simp_all only: s1)
  then have lc: "lock_counts t" using create_lock_counts [OF c] u(5) s1(1) by simp
  have "queue_part ?s1" by (rule leave_queue_part [OF u(3) q' s1(4,9,6,7,8)])
  then have qp: "queue_part t" by (rule queue_part_cong [rotated -1]) (simp_all only: f le_refl)
  have "timer_part ?s1" by (rule leave_timer_part [OF u(3) q' u(4) s1(4,5,6,7)])
  then have tp: "timer_part t" by (rule timer_part_cong [rotated -1]) (simp_all only: f le_refl)
  have qs: "lm_queues t = put_queue (lm_queues s) key ws" using f(4) s1(4) by simp
  have lk: "lm_locks t = map_set (lm_locks s) key token" using f(3) s1(1) by simp
  have "queue_waits t k" for k
  proof (cases "k = key")
    case True
    then show ?thesis by (simp add: queue_waits_def lk)
  next
    case False
    then show ?thesis using u(6) [OF False] by (simp add: queue_waits_def lk queue_of_def qs put_queue_facts)
  qed
  moreover have "\<not> lm_destroyed t"
  proof -
    have "lm_queues s \<noteq> []" using q by (auto simp: queue_of_def)
    then show ?thesis using u(3) f(6) s1(7) by (simp add: queue_part_def)
  qed
  ultimately have "lm_inv t" using lp lc qp tp by (simp add: lm_inv_def)
  moreover have "entry_ids (lm_sched t) \<subseteq> entry_ids (lm_sched s)"
  proof -
    have "lm_queues s \<noteq> []" using q by (auto simp: queue_of_def)
    then have "sched_inv (lm_sched s)" using u(3,4) by (simp add: queue_part_def timer_part_def)
    moreover have "lm_sched t = remove_deadline (mw_id w) (lm_sched s)" using trans [OF f(5) s1(5)] unfolding cancel_some .
    ultimately show ?thesis using deadlines.remove_known by simp
  qed
  moreover have "token = Suc (lm_sequence s)" "lm_sequence t = token" using f(1,2) s1(3) by simp_all
  moreover have "promoteNext key now s = (t, [LGranted (mw_id w) token])"
    using q queue_active [OF u(3), of key] c by (simp add: promoteNext_def Let_def)
  ultimately show ?thesis using lk qs by auto
qed

section \<open>Every operation\<close>

text \<open>The calls that an operation decides.\<close>

definition decided_id :: "lock_event \<Rightarrow> nat option" where
  "decided_id e = (case e of LGranted i _ \<Rightarrow> Some i | LRejected i _ \<Rightarrow> Some i | LQueued _ \<Rightarrow> None)"

definition decided :: "lock_event list \<Rightarrow> nat multiset" where
  "decided evs = mset (List.map_filter decided_id evs)"

lemma decided_simps [simp]:
  "decided [] = {#}" "decided (LGranted i t # es) = add_mset i (decided es)" "decided (LRejected i e # es) = add_mset i (decided es)"
  "decided (LQueued i # es) = decided es" "decided (es @ fs) = decided es + decided fs"
  by (simp_all add: decided_def map_filter_simps decided_id_def) (simp add: map_filter_def)

text \<open>What every operation does: it keeps the invariant, grants only fresh tokens, and each call that was waiting
  or is new is decided or waits.\<close>

definition lock_step_ok :: "lockman \<Rightarrow> lockman \<times> lock_event list \<Rightarrow> nat multiset \<Rightarrow> bool" where
  "lock_step_ok s r new \<longleftrightarrow> lm_inv (fst r) \<and> lm_sequence s \<le> lm_sequence (fst r)
     \<and> (\<forall>i t. LGranted i t \<in> set (snd r) \<longrightarrow> lm_sequence s < t \<and> t \<le> lm_sequence (fst r))
     \<and> waiter_ids (lm_queues (fst r)) + decided (snd r) = waiter_ids (lm_queues s) + new
     \<and> entry_ids (lm_sched (fst r)) \<subseteq> entry_ids (lm_sched s) \<union> set_mset new"

lemma lock_step_ok_same: "lm_inv s \<Longrightarrow> lock_step_ok s (s, []) {#}"
  by (simp add: lock_step_ok_def)

lemma lock_step_ok_append:
  assumes a: "lock_step_ok s (s1, e1) n1" and b: "lock_step_ok s1 (s2, e2) n2"
  shows "lock_step_ok s (s2, e1 @ e2) (n1 + n2)"
proof -
  let ?W = "\<lambda>s. waiter_ids (lm_queues s)"
  have wa: "?W s1 + decided e1 = ?W s + n1" and wb: "?W s2 + decided e2 = ?W s1 + n2"
    using a b unfolding lock_step_ok_def by simp_all
  have "?W s2 + (decided e1 + decided e2) = (?W s2 + decided e2) + decided e1" by (simp only: ac_simps)
  also have "\<dots> = (?W s1 + decided e1) + n2" unfolding wb by (simp only: ac_simps)
  also have "\<dots> = ?W s + (n1 + n2)" unfolding wa by (simp only: ac_simps)
  finally have w: "?W s2 + decided (e1 @ e2) = ?W s + (n1 + n2)" by simp
  have m: "lm_sequence s \<le> lm_sequence s1" "lm_sequence s1 \<le> lm_sequence s2" "lm_inv s2"
    using a b unfolding lock_step_ok_def by simp_all
  have g: "lm_sequence s < t \<and> t \<le> lm_sequence s2" if "LGranted i t \<in> set (e1 @ e2)" for i t
  proof (cases "LGranted i t \<in> set e1")
    case True
    then have "lm_sequence s < t \<and> t \<le> lm_sequence s1" using a unfolding lock_step_ok_def by simp
    with m(2) show ?thesis by simp
  next
    case False
    then have "lm_sequence s1 < t \<and> t \<le> lm_sequence s2" using that b unfolding lock_step_ok_def by simp
    with m(1) show ?thesis by simp
  qed
  have "entry_ids (lm_sched s2) \<subseteq> entry_ids (lm_sched s) \<union> set_mset (n1 + n2)"
    using a b unfolding lock_step_ok_def fst_conv set_mset_union by blast
  then show ?thesis unfolding lock_step_ok_def fst_conv snd_conv using w m g by (auto simp del: decided_simps)
qed

lemma lock_step_ok_from: "lock_step_ok s r n \<Longrightarrow> lm_sequence s' = lm_sequence s \<Longrightarrow> lm_queues s' = lm_queues s
    \<Longrightarrow> lm_sched s' = lm_sched s \<Longrightarrow> lock_step_ok s' r n"
  by (simp add: lock_step_ok_def)

lemma promote_ok:
  assumes "unserved_at s key"
  shows "lock_step_ok s (promoteNext key now s) {#}"
proof (cases "queue_of s key")
  case Nil
  have wf: "wf_map (lm_queues s)" using assms by (simp add: unserved_at_def queue_part_def)
  then show ?thesis using promote_empty [OF assms Nil] waiter_ids_delete_empty [OF Nil wf] by (simp add: lock_step_ok_def)
next
  case (Cons w ws)
  have q: "queue_part s" "queue_of s key = [] @ w # ws" using assms Cons by (simp_all add: unserved_at_def)
  from promote_first [OF assms Cons, of now] leave_ids(1) [OF q] show ?thesis by (auto simp: lock_step_ok_def)
qed

lemma lm_inv_parts:
  assumes "lm_inv s"
  shows "lock_part s" "lock_counts s" "queue_part s" "timer_part s" "queue_waits s k" "lm_destroyed s \<Longrightarrow> lm_locks s = []"
  using assms unfolding lm_inv_def by blast+

lemma drop_unserved:
  assumes "lm_inv s" and "map_of (lm_locks s) k = Some t" and f: "f = expired_metrics \<or> f = released_metrics"
  shows "unserved_at (drop_lock k t f s) k"
proof -
  note p = lm_inv_parts [OF assms(1)]
  have "lock_part (drop_lock k t f s)" by (rule drop_lock_part [OF p(1) assms(2)])
  moreover have "lock_counts (drop_lock k t f s)" by (rule drop_lock_counts [OF p(1,2) assms(2) f])
  moreover have "lt_waiting (lm_metrics (drop_lock k t f s)) = lt_waiting (lm_metrics s)"
    using f by (auto simp: drop_lock_facts expired_metrics_def released_metrics_def)
  then have "queue_part (drop_lock k t f s)" by (rule queue_part_cong [OF _ _ _ _ _ p(3), rotated]) (simp_all add: drop_lock_facts)
  moreover have "timer_part (drop_lock k t f s)" by (rule timer_part_cong [OF _ _ _ _ p(4)]) (simp_all add: drop_lock_facts)
  moreover have "queue_waits (drop_lock k t f s) j" if "j \<noteq> k" for j
    using p(5) [of j] that by (simp add: queue_waits_def queue_of_def drop_lock_facts)
  moreover have "lm_destroyed s \<Longrightarrow> map_del (lm_locks s) k = []" using p(6) by (simp add: map_del_def)
  ultimately show ?thesis by (simp add: unserved_at_def drop_lock_facts)
qed

lemma drop_promote_ok:
  assumes "lm_inv s" and "map_of (lm_locks s) k = Some t" and f: "f = expired_metrics \<or> f = released_metrics"
  shows "lock_step_ok s (promoteNext k now (drop_lock k t f s)) {#}"
  by (rule lock_step_ok_from [OF promote_ok [OF drop_unserved [OF assms]]]) (simp_all add: drop_lock_facts)

lemma expire_ok: "lm_inv s \<Longrightarrow> lock_step_ok s (expireHandle k t now s) {#}"
  using drop_promote_ok [of s k t expired_metrics] lock_step_ok_same by (simp add: expireHandle_def)

lemma expire_if_due_ok: "lm_inv s \<Longrightarrow> lock_step_ok s (expire_if_due k t1 t2 s) {#}"
  using expire_ok lock_step_ok_same by (simp add: expire_if_due_def split: option.split)

lemma release_ok: "lm_inv s \<Longrightarrow> lock_step_ok s (snd (release_lock token t1 t2 s)) {#}"
  using expire_ok lock_step_ok_same drop_promote_ok [of s _ token released_metrics t2]
  by (simp add: release_lock_def split: option.split)

text \<open>A field of a registered handle changes.\<close>

lemma touch_handle_inv:
  assumes "lm_inv s" and "map_of (lm_handles s) t = Some h" and "lh_key h' = lh_key h" "lh_token h' = lh_token h" "lh_released h' = lh_released h"
  shows "lm_inv (s\<lparr>lm_handles := map_set (lm_handles s) t h'\<rparr>)"
proof -
  note p = lm_inv_parts [OF assms(1)]
  let ?t = "s\<lparr>lm_handles := map_set (lm_handles s) t h'\<rparr>"
  have "lock_part ?t"
  proof -
    have "\<exists>g. map_of (lm_handles ?t) u = Some g \<and> lh_key g = k \<and> \<not> lh_released g" if "map_of (lm_locks s) k = Some u" for k u
    proof -
      from that p(1) obtain g where "map_of (lm_handles s) u = Some g" "lh_key g = k" "\<not> lh_released g"
        unfolding lock_part_def by auto
      with assms(2-5) show ?thesis by (cases "u = t") simp_all
    qed
    moreover have "lh_token g = u \<and> u \<le> lm_sequence s \<and> (\<not> lh_released g \<longrightarrow> map_of (lm_locks s) (lh_key g) = Some u)"
      if "map_of (lm_handles ?t) u = Some g" for u g
    proof -
      from that assms(2-5) obtain g0 where "map_of (lm_handles s) u = Some g0" "lh_key g = lh_key g0" "lh_token g = lh_token g0" "lh_released g = lh_released g0"
        by (cases "u = t") simp_all
      with p(1) show ?thesis unfolding lock_part_def by metis
    qed
    ultimately show ?thesis using p(1) by (simp add: lock_part_def)
  qed
  moreover have "lock_counts ?t" by (rule lock_counts_cong [OF _ _ _ _ _ p(2)]) simp_all
  moreover have "queue_part ?t" by (rule queue_part_cong [OF _ _ _ _ _ p(3)]) simp_all
  moreover have "timer_part ?t" by (rule timer_part_cong [OF _ _ _ _ p(4)]) simp_all
  moreover have "\<forall>k. queue_waits ?t k" using p(5) by (simp add: queue_waits_def queue_of_def)
  ultimately show ?thesis using p(6) by (simp add: lm_inv_def)
qed

text \<open>An unreleased handle is registered, so a heartbeat never finds a stranger in its place.\<close>

lemma unreleased_registered:
  "lm_inv s \<Longrightarrow> map_of (lm_handles s) t = Some h \<Longrightarrow> \<not> lh_released h \<Longrightarrow> map_of (lm_locks s) (lh_key h) = Some t"
  using lm_inv_parts(1) unfolding lock_part_def by blast

lemma heartbeat_ok: "lm_inv s \<Longrightarrow> lock_step_ok s (snd (heartbeat token ext t1 t2 s)) {#}"
proof -
  assume i: "lm_inv s"
  have "lock_step_ok s (s\<lparr>lm_handles := map_set (lm_handles s) token (h\<lparr>lh_expiresAt := v\<rparr>)\<rparr>, []) {#}"
    if "map_of (lm_handles s) token = Some h" for h v
    using touch_handle_inv [OF i that, of "h\<lparr>lh_expiresAt := v\<rparr>"] by (simp add: lock_step_ok_def)
  then show ?thesis
    using lock_step_ok_same [OF i] expire_ok [OF i] unreleased_registered [OF i, of token]
    by (auto simp: heartbeat_def split: option.split sum.split)
qed

lemma isLocked_ok: "lm_inv s \<Longrightarrow> lock_step_ok s (snd (isLocked key t1 t2 s)) {#}"
  using lock_step_ok_same expire_if_due_ok by (auto simp: isLocked_def split: sum.split prod.split) metis

lemma expiry_timer_ok: "lm_inv s \<Longrightarrow> lock_step_ok s (expiry_timer token now s) {#}"
  using lock_step_ok_same expire_ok by (simp add: expiry_timer_def split: option.split)

lemma sequence_elsewhere_ok: "lm_inv s \<Longrightarrow> lock_step_ok s (sequence_elsewhere s, []) {#}"
proof -
  assume i: "lm_inv s"
  note p = lm_inv_parts [OF i]
  have "lock_part (sequence_elsewhere s)" by (rule lock_part_cong [OF _ _ _ p(1)]) (simp_all add: sequence_elsewhere_def)
  then show ?thesis using i
    by (simp add: lock_step_ok_def lm_inv_def lock_counts_def queue_part_def timer_part_def queue_waits_def queue_of_def sequence_elsewhere_def)
qed

subsection \<open>Acquisition\<close>

lemma acquire_checked_ok:
  assumes inv: "lm_inv s" and "i < lm_calls s" and fresh: "i \<notin># waiter_ids (lm_queues s)" "i \<notin> entry_ids (lm_sched s)"
    and alive: "\<not> lm_destroyed s"
  shows "lock_step_ok s (acquire_checked i key ttl wait now s) {#i#}"
proof -
  note p = lm_inv_parts [OF inv]
  consider "map_of (lm_locks s) key = None" | "map_of (lm_locks s) key \<noteq> None" "wait \<le> 0"
    | "map_of (lm_locks s) key \<noteq> None" "\<not> wait \<le> 0" by blast
  then show ?thesis
  proof cases
    case 1
    obtain t token where c: "createLockHandle key ttl now s = (t, token)" by fastforce
    note f = createLockHandle_facts [OF c]
    have "queue_waits t k" for k
      using p(5) [of k] by (auto simp: queue_waits_def queue_of_def f)
    moreover have "lock_part t" by (rule create_lock_part [OF c p(1) 1])
    moreover have "lock_counts t" by (rule create_lock_counts [OF c p(2) 1])
    moreover have "queue_part t" by (rule queue_part_cong [rotated -1, OF p(3)]) (simp_all only: f le_refl)
    moreover have "timer_part t" by (rule timer_part_cong [rotated -1, OF p(4)]) (simp_all only: f le_refl)
    ultimately have "lm_inv t" using alive f(6) by (simp add: lm_inv_def)
    then show ?thesis using f(1,2,4,5) by (auto simp: acquire_checked_def 1 c lock_step_ok_def)
  next
    case 2
    let ?t = "on_metrics (\<lambda>m. m\<lparr>lt_timedOut := Suc (lt_timedOut m)\<rparr>) s"
    have "lm_inv ?t" using inv
      by (simp add: lm_inv_def lock_part_def lock_counts_def queue_part_def timer_part_def queue_waits_def queue_of_def on_metrics_def)
    moreover have "acquire_checked i key ttl wait now s = (?t, [LRejected i (LTimeout 0)])"
      using 2 by (auto simp: acquire_checked_def)
    ultimately show ?thesis unfolding lock_step_ok_def by (simp only: fst_conv snd_conv) (auto simp: on_metrics_def)
  next
    case 3
    let ?q = "if map_has (lm_queues s) key then lm_queues s else map_set (lm_queues s) key []"
    let ?s = "s\<lparr>lm_queues := ?q\<rparr>"
    have wf: "wf_map (lm_queues s)" using p(3) by (simp add: queue_part_def)
    have q0: "queue_of ?s k = queue_of s k" for k by (auto simp: queue_of_def map_has_def)
    have w0: "waiter_ids ?q = waiter_ids (lm_queues s)"
      using map_sum_set_new [of "lm_queues s" key "\<lambda>ws. mset (map mw_id ws)" "[]"] by (simp add: waiter_ids_def map_has_def)
    have q1: "map_of ?q k = Some ws \<Longrightarrow> w \<in> set ws \<Longrightarrow> mw_active w" for k ws w
      using p(3) unfolding queue_part_def by (auto simp: map_has_def split: if_splits)
    have inv': "lm_inv ?s"
      using inv q1 w0 wf alive unfolding lm_inv_def lock_part_def lock_counts_def queue_part_def timer_part_def queue_waits_def q0
      by simp
    show ?thesis
    proof (cases "lt_waiting (lm_metrics s) \<ge> lc_maxQueueDepth (lm_config s)")
      case True
      then have "acquire_checked i key ttl wait now s = (?s, [LRejected i (LQueueFull (lc_maxQueueDepth (lm_config s)))])"
        using 3 by (auto simp: acquire_checked_def Let_def)
      then show ?thesis using inv' w0 unfolding lock_step_ok_def by (simp only: fst_conv snd_conv) auto
    next
      case False
      let ?w = "\<lparr>mw_id = i, mw_ttl = ttl, mw_wait = wait, mw_active = True\<rparr>"
      let ?t = "enqueue_waiter i key ttl wait now ?s"
      have t: "lm_queues ?t = map_set ?q key (queue_of s key @ [?w])" "lm_sched ?t = add_deadline i (now + wait) (lm_sched s)"
        "lm_locks ?t = lm_locks s" "lm_handles ?t = lm_handles s" "lm_sequence ?t = lm_sequence s" "lm_calls ?t = lm_calls s"
        "lm_destroyed ?t = lm_destroyed s" "lm_config ?t = lm_config s"
        "lt_waiting (lm_metrics ?t) = lt_waiting (lm_metrics s) + 1" "lt_active (lm_metrics ?t) = lt_active (lm_metrics s)"
        "lt_acquired (lm_metrics ?t) = lt_acquired (lm_metrics s)" "lt_released (lm_metrics ?t) = lt_released (lm_metrics s)"
        "lt_expired (lm_metrics ?t) = lt_expired (lm_metrics s)"
        using q0 by (simp_all add: enqueue_waiter_def on_metrics_def add_deadline_def)
      have cur: "map_of ?q key = Some (queue_of s key)" by (auto simp: queue_of_def map_has_def split: option.split)
      have w: "waiter_ids (lm_queues ?t) = add_mset i (waiter_ids (lm_queues s))"
        using map_sum_set_old [OF cur, of "\<lambda>ws. mset (map mw_id ws)" "queue_of s key @ [?w]"] w0
        unfolding t(1) waiter_ids_def by simp
      have sc: "sched_inv (lm_sched s)" "fst ` pending (lm_sched s) = set_mset (waiter_ids (lm_queues s))"
          "\<forall>j \<in> entry_ids (lm_sched s). j < lm_calls s" using p(4) alive by (simp_all add: timer_part_def)
      have "queue_part ?t"
      proof -
        have "mw_active v" if "map_of (lm_queues ?t) k = Some ws" "v \<in> set ws" for k ws v
          using that q1 [OF cur] q1 [of k] unfolding t(1) by (auto split: if_splits)
        moreover have "count (waiter_ids (lm_queues ?t)) j \<le> 1" for j
          using p(3) fresh(1) unfolding w by (auto simp: queue_part_def not_in_iff)
        moreover have "\<forall>j \<in># waiter_ids (lm_queues ?t). j < lm_calls ?t"
          using p(3) assms(2) unfolding w t(6) by (auto simp: queue_part_def)
        moreover have "wf_map (lm_queues ?t)" unfolding t(1) using wf by simp
        moreover have "lt_waiting (lm_metrics ?t) = int (size (waiter_ids (lm_queues ?t)))"
          using p(3) unfolding t(9) w queue_part_def by simp
        ultimately show ?thesis using p(3) False alive unfolding queue_part_def t(7,8,9) by simp
      qed
      moreover have "timer_part ?t"
      proof -
        have "fst ` pending (lm_sched ?t) = insert i (fst ` pending (lm_sched s))"
          unfolding t(2) deadlines.add_pending [OF sc(1) fresh(2)] by simp
        moreover have "sched_inv (lm_sched ?t)" unfolding t(2) by (rule deadlines.add_inv [OF sc(1) fresh(2)])
        moreover have "\<forall>j \<in> entry_ids (lm_sched ?t). j < lm_calls ?t"
          unfolding t(2,6) using deadlines.add_known [OF sc(1) fresh(2)] sc(3) assms(2) by blast
        ultimately show ?thesis using alive w sc(2) by (simp add: timer_part_def t(7))
      qed
      moreover have "lock_part ?t" by (rule lock_part_cong [rotated -1, OF p(1)]) (simp_all only: t le_refl)
      moreover have "lock_counts ?t" by (rule lock_counts_cong [rotated -1, OF p(2)]) (simp_all only: t)
      moreover have "queue_waits ?t k" for k
      proof (cases "k = key")
        case False
        then have "queue_of ?t k = queue_of ?s k" unfolding queue_of_def t(1) by simp
        then show ?thesis using p(5) [of k] unfolding queue_waits_def t(3) q0 by simp
      qed (use 3(1) in \<open>simp only: queue_waits_def t(3) simp_thms\<close>)
      ultimately have "lm_inv ?t" using alive by (simp add: lm_inv_def t(7))
      moreover have "entry_ids (lm_sched ?t) \<subseteq> insert i (entry_ids (lm_sched s))"
        unfolding t(2) by (rule deadlines.add_known [OF sc(1) fresh(2)])
      moreover have "acquire_checked i key ttl wait now s = (?t, [LQueued i])"
        using 3 False by (auto simp: acquire_checked_def Let_def)
      ultimately show ?thesis using w t(5) unfolding lock_step_ok_def by (simp only: fst_conv snd_conv) simp
    qed
  qed
qed

lemma promote_frame: "lm_calls (fst (promoteNext k now s)) = lm_calls s" "lm_destroyed (fst (promoteNext k now s)) = lm_destroyed s"
  by (auto simp: promoteNext_def Let_def createLockHandle_def on_metrics_def split: list.split)

lemma expire_frame: "lm_calls (fst (expire_if_due k t1 t2 s)) = lm_calls s" "lm_destroyed (fst (expire_if_due k t1 t2 s)) = lm_destroyed s"
  by (simp_all add: expire_if_due_def expireHandle_def promote_frame drop_lock_facts split: option.split)

lemma new_call:
  assumes "lm_inv s0" and "s = s0\<lparr>lm_calls := Suc (lm_calls s0)\<rparr>"
  shows "lock_step_ok s0 (s, []) {#}" and "lm_calls s0 \<notin># waiter_ids (lm_queues s)"
    and "\<not> lm_destroyed s \<Longrightarrow> lm_calls s0 \<notin> entry_ids (lm_sched s)" and "lm_inv s"
proof -
  note p = lm_inv_parts [OF assms(1)]
  have "lock_part s" by (rule lock_part_cong [rotated -1, OF p(1)]) (simp_all add: assms(2))
  moreover have "lock_counts s" by (rule lock_counts_cong [rotated -1, OF p(2)]) (simp_all add: assms(2))
  moreover have "queue_part s" by (rule queue_part_cong [rotated -1, OF p(3)]) (simp_all add: assms(2))
  moreover have "timer_part s" by (rule timer_part_cong [rotated -1, OF p(4)]) (simp_all add: assms(2))
  moreover have "\<forall>k. queue_waits s k" using p(5) by (simp add: queue_waits_def queue_of_def assms(2))
  ultimately show i: "lm_inv s" using p(6) by (simp add: lm_inv_def assms(2))
  then show "lock_step_ok s0 (s, []) {#}" by (simp add: lock_step_ok_def assms(2))
  show "lm_calls s0 \<notin># waiter_ids (lm_queues s)" using p(3) unfolding queue_part_def assms(2) by auto
  show "lm_calls s0 \<notin> entry_ids (lm_sched s)" if "\<not> lm_destroyed s" using p(4) that unfolding timer_part_def assms(2) by auto
qed

lemma reject_ok: "lock_step_ok s0 (s, []) {#} \<Longrightarrow> lock_step_ok s0 (s, [LRejected i e]) {#i#}"
  by (auto simp: lock_step_ok_def)

lemma acquire_ok:
  assumes "lm_inv s0"
  shows "lock_step_ok s0 (acquire key ttlMs waitMs ab t1 t2 t3 s0) {#lm_calls s0#}"
proof -
  let ?i = "lm_calls s0" and ?s = "s0\<lparr>lm_calls := Suc (lm_calls s0)\<rparr>"
  note n = new_call [OF assms refl]
  have run: "lock_step_ok s0 (s2, e1 @ e2) {#?i#}"
    if e: "expire_if_due k t1 t2 ?s = (s1, e1)" and a: "acquire_checked ?i k ttl wait t3 s1 = (s2, e2)" and d: "\<not> lm_destroyed ?s"
    for k ttl wait s1 e1 s2 e2
  proof -
    have o1: "lock_step_ok ?s (s1, e1) {#}" using expire_if_due_ok [OF n(4), of k t1 t2] e by simp
    then have "waiter_ids (lm_queues s1) + decided e1 = waiter_ids (lm_queues ?s)" "entry_ids (lm_sched s1) \<subseteq> entry_ids (lm_sched ?s)" "lm_inv s1"
      by (simp_all add: lock_step_ok_def)
    then have f: "?i \<notin># waiter_ids (lm_queues s1)" "?i \<notin> entry_ids (lm_sched s1)" "lm_inv s1" using n(2) n(3) [OF d] by (metis union_iff, blast, blast)
    have c: "lm_calls s1 = Suc ?i" "\<not> lm_destroyed s1" using expire_frame [of k t1 t2 ?s] e d by simp_all
    have "lock_step_ok s1 (s2, e2) {#?i#}"
      using acquire_checked_ok [OF f(3) _ f(1,2) c(2), of k ttl wait t3] c(1) a by simp
    from lock_step_ok_append [OF o1 this] have "lock_step_ok ?s (s2, e1 @ e2) {#?i#}" by simp
    from lock_step_ok_append [OF n(1) this] show ?thesis by simp
  qed
  show ?thesis
    using run reject_ok [OF n(1)]
    by (auto simp: acquire_def Let_def split: sum.split prod.split)
qed

subsection \<open>Waiters that give up\<close>

lemma find_exists: "\<exists>x \<in> set xs. P x \<Longrightarrow> \<exists>y. find P xs = Some y \<and> P y"
  by (induction xs) auto

lemma find_waiter_split:
  assumes "queue_part s" and "find_waiter i s = Some (k, w)"
  shows "\<exists>xs ys. queue_of s k = xs @ w # ys \<and> mw_id w = i"
proof -
  obtain p where p: "find (\<lambda>p. \<exists>w \<in> set (snd p). mw_id w = i \<and> mw_active w) (lm_queues s) = Some p" "k = fst p"
      "find (\<lambda>w. mw_id w = i \<and> mw_active w) (snd p) = Some w"
    using assms(2) by (auto simp: find_waiter_def split: option.splits)
  have "p \<in> set (lm_queues s)" by (rule find_Some_in [OF p(1), THEN conjunct1])
  then have "map_of (lm_queues s) k = Some (snd p)" using assms(1) p(2) wf_map_in_set [of "lm_queues s" k "snd p"] by (simp add: queue_part_def)
  moreover have "w \<in> set (snd p)" "mw_id w = i" using find_Some_in [OF p(3)] by simp_all
  ultimately show ?thesis by (metis queue_of_Some split_list)
qed

lemma find_waiter_exists:
  assumes "queue_part s" and "i \<in># waiter_ids (lm_queues s)"
  shows "find_waiter i s \<noteq> None"
proof -
  obtain p w where w: "p \<in> set (lm_queues s)" "w \<in> set (snd p)" "mw_id w = i"
    using assms(2) by (auto simp: waiter_ids_def map_sum_def set_mset_sum_list)
  have "map_of (lm_queues s) (fst p) = Some (snd p)"
    using assms(1) w(1) wf_map_in_set [of "lm_queues s" "fst p" "snd p"] by (simp add: queue_part_def)
  then have "mw_active w" using assms(1) w(2) unfolding queue_part_def by blast
  then have ex: "\<exists>w \<in> set (snd p). mw_id w = i \<and> mw_active w" using w by auto
  have "\<exists>p \<in> set (lm_queues s). \<exists>w \<in> set (snd p). mw_id w = i \<and> mw_active w" using w(1) ex by (rule bexI [rotated])
  from find_exists [OF this] obtain q where q: "find (\<lambda>p. \<exists>w \<in> set (snd p). mw_id w = i \<and> mw_active w) (lm_queues s) = Some q"
      "\<exists>w \<in> set (snd q). mw_id w = i \<and> mw_active w" by (elim exE conjE)
  obtain v where "find (\<lambda>w. mw_id w = i \<and> mw_active w) (snd q) = Some v" using find_exists [OF q(2)] by auto
  with q(1) show ?thesis by (simp add: find_waiter_def)
qed

lemma leave_queue_facts:
  assumes "queue_part s" and x: "queue_of s k = xs @ w # ys" and w: "mw_id w = i"
  shows "lm_queues (leave_queue k i s) = put_queue (lm_queues s) k (xs @ ys)"
    and "lt_waiting (lm_metrics (leave_queue k i s)) = max 0 (lt_waiting (lm_metrics s) - 1)"
    and "lm_locks (leave_queue k i s) = lm_locks s" "lm_handles (leave_queue k i s) = lm_handles s"
    and "lm_sequence (leave_queue k i s) = lm_sequence s" "lm_calls (leave_queue k i s) = lm_calls s"
    and "lm_destroyed (leave_queue k i s) = lm_destroyed s" "lm_config (leave_queue k i s) = lm_config s"
    and "lm_sched (leave_queue k i s) = lm_sched s"
    and "lt_active (lm_metrics (leave_queue k i s)) = lt_active (lm_metrics s)"
    and "lt_acquired (lm_metrics (leave_queue k i s)) = lt_acquired (lm_metrics s)"
    and "lt_released (lm_metrics (leave_queue k i s)) = lt_released (lm_metrics s)"
    and "lt_expired (lm_metrics (leave_queue k i s)) = lt_expired (lm_metrics s)"
  using leave_ids(3) [OF assms(1) x] unfolding w by (simp_all add: leave_queue_def on_metrics_def one_less_waiting_def)

lemma waits_after_leave:
  assumes "queue_waits s j" and "queue_waits s k" "queue_of s k = xs @ w # ys"
    and "lm_queues t = put_queue (lm_queues s) k (xs @ ys)" "lm_locks t = lm_locks s"
  shows "queue_waits t j"
  using assms by (auto simp: queue_waits_def queue_of_def put_queue_facts split: option.splits)

lemma abort_ok:
  assumes "lm_inv s"
  shows "lock_step_ok s (lock_abort_listener i s) {#}"
proof (cases "find_waiter i s")
  case None
  then show ?thesis using lock_step_ok_same [OF assms] by (simp add: lock_abort_listener_def)
next
  case (Some p)
  obtain k w where kw: "p = (k, w)" by fastforce
  note p = lm_inv_parts [OF assms]
  from find_waiter_split [OF p(3)] Some kw obtain xs ys where x: "queue_of s k = xs @ w # ys" "mw_id w = i" by blast
  note l = leave_queue_facts [OF p(3) x]
  let ?t = "(leave_queue k i s)\<lparr>lm_sched := cancel (Some i) (lm_sched (leave_queue k i s))\<rparr>"
  have t: "lm_queues ?t = put_queue (lm_queues s) k (xs @ ys)" "lt_waiting (lm_metrics ?t) = max 0 (lt_waiting (lm_metrics s) - 1)"
    "lm_locks ?t = lm_locks s" "lm_handles ?t = lm_handles s" "lm_sequence ?t = lm_sequence s" "lm_calls ?t = lm_calls s"
    "lm_destroyed ?t = lm_destroyed s" "lm_config ?t = lm_config s" "lm_sched ?t = cancel (Some (mw_id w)) (lm_sched s)"
    "lt_active (lm_metrics ?t) = lt_active (lm_metrics s)" "lt_acquired (lm_metrics ?t) = lt_acquired (lm_metrics s)"
    "lt_released (lm_metrics ?t) = lt_released (lm_metrics s)" "lt_expired (lm_metrics ?t) = lt_expired (lm_metrics s)"
    using l x(2) by simp_all
  have "queue_part ?t" by (rule leave_queue_part [OF p(3) x(1) t(1,2,6,7,8)])
  moreover have "timer_part ?t" by (rule leave_timer_part [OF p(3) x(1) p(4) t(1,9,6,7)])
  moreover have "lock_part ?t" by (rule lock_part_cong [rotated -1, OF p(1)]) (simp_all only: t le_refl)
  moreover have "lock_counts ?t" by (rule lock_counts_cong [rotated -1, OF p(2)]) (simp_all only: t)
  moreover have "\<forall>j. queue_waits ?t j" using waits_after_leave [OF p(5,5) x(1) t(1,3)] by blast
  ultimately have i: "lm_inv ?t" using p(6) unfolding lm_inv_def t(3,7) by blast
  have "sched_inv (lm_sched s)"
  proof -
    have "lm_queues s \<noteq> []" using x(1) by (auto simp: queue_of_def)
    then show ?thesis using p(3,4) by (simp add: queue_part_def timer_part_def)
  qed
  then have e: "entry_ids (lm_sched ?t) \<subseteq> entry_ids (lm_sched s)"
    using deadlines.remove_known by (simp only: trans [OF t(9) cancel_some])
  have wi: "waiter_ids (lm_queues s) = add_mset i (waiter_ids (lm_queues ?t))" unfolding t(1) using leave_ids(1) [OF p(3) x(1)] x(2) by simp
  have "lock_abort_listener i s = (?t, [LRejected i LAborted])" using Some kw by (simp add: lock_abort_listener_def Let_def)
  then show ?thesis unfolding lock_step_ok_def using i e wi t(5) by (simp only: fst_conv snd_conv) auto
qed

text \<open>Between the drain of the scheduler and the last callback, the fired waiters still sit in their queues.\<close>

definition fired_gap :: "lockman \<Rightarrow> nat list \<Rightarrow> bool" where
  "fired_gap s is \<longleftrightarrow> lock_part s \<and> lock_counts s \<and> queue_part s \<and> (\<forall>k. queue_waits s k) \<and> (lm_destroyed s \<longrightarrow> lm_locks s = [])
     \<and> sched_inv (lm_sched s) \<and> fst ` pending (lm_sched s) = set_mset (waiter_ids (lm_queues s)) - set is
     \<and> set is \<subseteq> set_mset (waiter_ids (lm_queues s)) \<and> distinct is \<and> (\<forall>i \<in> entry_ids (lm_sched s). i < lm_calls s)
     \<and> \<not> lm_destroyed s"

lemma fired_gap_parts:
  assumes "fired_gap s is"
  shows "lock_part s" "lock_counts s" "queue_part s" "queue_waits s k" "lm_destroyed s \<longrightarrow> lm_locks s = []" "sched_inv (lm_sched s)"
    "fst ` pending (lm_sched s) = set_mset (waiter_ids (lm_queues s)) - set is" "set is \<subseteq> set_mset (waiter_ids (lm_queues s))"
    "distinct is" "\<forall>i \<in> entry_ids (lm_sched s). i < lm_calls s" "\<not> lm_destroyed s"
  using assms unfolding fired_gap_def by blast+

lemma fired_gap_Nil: "fired_gap s [] \<Longrightarrow> lm_inv s"
  by (simp add: fired_gap_def lm_inv_def timer_part_def)

lemma wait_deadline_gap:
  assumes "fired_gap s (i # is)"
  shows "\<exists>t w. wait_deadline i s = (t, [LRejected i (LTimeout w)]) \<and> fired_gap t is \<and> lm_sequence t = lm_sequence s
     \<and> lm_sched t = lm_sched s \<and> waiter_ids (lm_queues s) = add_mset i (waiter_ids (lm_queues t))"
proof -
  note p = fired_gap_parts [OF assms]
  have "i \<in># waiter_ids (lm_queues s)" using p(8) by simp
  with find_waiter_exists [OF p(3)] obtain k w where f: "find_waiter i s = Some (k, w)" by fastforce
  from find_waiter_split [OF p(3) f] obtain xs ys where x: "queue_of s k = xs @ w # ys" "mw_id w = i" by blast
  note l = leave_queue_facts [OF p(3) x]
  let ?t = "on_metrics (\<lambda>m. m\<lparr>lt_timedOut := Suc (lt_timedOut m)\<rparr>) (leave_queue k i s)"
  have t: "lm_queues ?t = put_queue (lm_queues s) k (xs @ ys)" "lt_waiting (lm_metrics ?t) = max 0 (lt_waiting (lm_metrics s) - 1)"
    "lm_locks ?t = lm_locks s" "lm_handles ?t = lm_handles s" "lm_sequence ?t = lm_sequence s" "lm_calls ?t = lm_calls s"
    "lm_destroyed ?t = lm_destroyed s" "lm_config ?t = lm_config s" "lm_sched ?t = lm_sched s"
    "lt_active (lm_metrics ?t) = lt_active (lm_metrics s)" "lt_acquired (lm_metrics ?t) = lt_acquired (lm_metrics s)"
    "lt_released (lm_metrics ?t) = lt_released (lm_metrics s)" "lt_expired (lm_metrics ?t) = lt_expired (lm_metrics s)"
    using l unfolding on_metrics_def by simp_all
  note ids = leave_ids(1,2) [OF p(3) x(1)]
  have wi: "waiter_ids (lm_queues s) = add_mset i (waiter_ids (lm_queues ?t))" "i \<notin># waiter_ids (lm_queues ?t)"
    using ids unfolding t(1) x(2) by simp_all
  have "queue_part ?t" by (rule leave_queue_part [OF p(3) x(1) t(1,2,6,7,8)])
  moreover have "lock_part ?t" by (rule lock_part_cong [rotated -1, OF p(1)]) (simp_all only: t le_refl)
  moreover have "lock_counts ?t" by (rule lock_counts_cong [rotated -1, OF p(2)]) (simp_all only: t)
  moreover have "\<forall>j. queue_waits ?t j" using waits_after_leave [OF p(4,4) x(1) t(1,3)] by blast
  moreover have "fst ` pending (lm_sched ?t) = set_mset (waiter_ids (lm_queues ?t)) - set is"
    unfolding t(9) p(7) wi(1) using wi(2) by auto
  moreover have "set is \<subseteq> set_mset (waiter_ids (lm_queues ?t))" using p(8,9) unfolding wi(1) by auto
  ultimately have "fired_gap ?t is" using p(5,6,9,10,11) unfolding fired_gap_def t(3,6,7,9) by simp
  moreover have "wait_deadline i s = (?t, [LRejected i (LTimeout (mw_wait w))])" by (simp add: wait_deadline_def f)
  ultimately show ?thesis using t(5,9) wi(1) by blast
qed

lemma wait_deadlines_ok: "fired_gap s is \<Longrightarrow> lock_step_ok s (wait_deadlines is s) {#}"
proof (induction "is" arbitrary: s)
  case Nil
  then show ?case using lock_step_ok_same [OF fired_gap_Nil] by simp
next
  case (Cons i "is")
  from wait_deadline_gap [OF Cons.prems] obtain t w where
    t: "wait_deadline i s = (t, [LRejected i (LTimeout w)])" "fired_gap t is" "lm_sequence t = lm_sequence s"
      "lm_sched t = lm_sched s" "waiter_ids (lm_queues s) = add_mset i (waiter_ids (lm_queues t))" by blast
  obtain u e where u: "wait_deadlines is t = (u, e)" by fastforce
  have "lock_step_ok t (u, e) {#}" using Cons.IH [OF t(2)] u by simp
  then show ?case using t(3,4,5) by (simp add: t(1) u lock_step_ok_def)
qed

lemma keys_after_due:
  assumes "\<And>i t v. (i, t) \<in> P \<Longrightarrow> (i, v) \<in> P \<Longrightarrow> t = v"
  shows "fst ` {p \<in> P. (now::int) < snd p} = fst ` P - fst ` {p \<in> P. snd p \<le> now}"
proof (intro subset_antisym subsetI)
  fix i assume "i \<in> fst ` {p \<in> P. now < snd p}"
  then obtain p where p: "p \<in> P" "now < snd p" "i = fst p" by (elim imageE CollectE conjE)
  have "snd q = snd p" if "q \<in> P" "fst q = fst p" for q
    using assms [of "fst p" "snd q" "snd p"] that p(1) by (metis prod.collapse)
  then have "i \<notin> fst ` {p \<in> P. snd p \<le> now}" using p(2,3) by force
  with p show "i \<in> fst ` P - fst ` {p \<in> P. snd p \<le> now}" by (simp only: Diff_iff imageI simp_thms)
next
  fix i assume i: "i \<in> fst ` P - fst ` {p \<in> P. snd p \<le> now}"
  then obtain p where p: "p \<in> P" "i = fst p" by (elim DiffE imageE)
  have "now < snd p"
  proof (rule ccontr)
    assume "\<not> now < snd p"
    with p(1) have "p \<in> {p \<in> P. snd p \<le> now}" by simp
    then have "i \<in> fst ` {p \<in> P. snd p \<le> now}" unfolding p(2) by (rule imageI)
    with i show False by (elim DiffE notE)
  qed
  with p(1) have "p \<in> {p \<in> P. now < snd p}" by simp
  then show "i \<in> fst ` {p \<in> P. now < snd p}" unfolding p(2) by (rule imageI)
qed

lemma deadline_timer_ok:
  assumes "lm_inv s"
  shows "lock_step_ok s (deadline_timer_fires now s) {#}"
proof -
  note p = lm_inv_parts [OF assms]
  obtain sc "is" where d: "drain now (lm_sched s) = (sc, is)" by fastforce
  let ?t = "s\<lparr>lm_sched := sc\<rparr>"
  have parts: "lock_part ?t" "lock_counts ?t" "queue_part ?t" "\<forall>k. queue_waits ?t k"
    using p(1,2,3,5) by (simp_all add: lock_part_def lock_counts_def queue_part_def queue_waits_def queue_of_def)
  have r: "deadline_timer_fires now s = wait_deadlines is ?t" by (simp add: deadline_timer_fires_def d)
  show ?thesis
  proof (cases "lm_destroyed s")
    case True
    then have "sc_heap (lm_sched s) = []" using p(4) by (simp add: timer_part_def)
    moreover have "discardInactiveHead [] = []" "drain_loop now [] = ([], [])"
      by (subst discardInactiveHead.simps, simp) (subst drain_loop.simps, simp)
    ultimately have "is = []" "sc_heap sc = []" using d by (auto simp: drain_def arm_def)
    then have "lm_inv ?t" using parts p(4,6) True by (simp add: lm_inv_def timer_part_def)
    then show ?thesis using \<open>is = []\<close> \<open>sc_heap sc = []\<close> by (simp add: r lock_step_ok_def entry_ids_def)
  next
    case False
    then have sc: "sched_inv (lm_sched s)" "fst ` pending (lm_sched s) = set_mset (waiter_ids (lm_queues s))"
        "\<forall>i \<in> entry_ids (lm_sched s). i < lm_calls s" using p(4) by (simp_all add: timer_part_def)
    note f = deadlines.fire_pending [OF sc(1) d] deadlines.fire_due [OF sc(1) d] deadlines.fire_inv [OF sc(1) d]
      deadlines.fire_known [OF sc(1) d]
    have u: "\<And>i t v. (i, t) \<in> pending (lm_sched s) \<Longrightarrow> (i, v) \<in> pending (lm_sched s) \<Longrightarrow> t = v"
      by (rule deadlines.pending_unique [OF sc(1)])
    have "fst ` pending sc = fst ` pending (lm_sched s) - set is"
      unfolding f(1) f(2) [THEN conjunct1] by (rule keys_after_due) (rule u)
    moreover have "set is \<subseteq> set_mset (waiter_ids (lm_queues s))" using f(2) sc(2) by auto
    ultimately have "fired_gap ?t is" using parts f(2,3,4) sc False by (auto simp: fired_gap_def)
    then have "lock_step_ok ?t (wait_deadlines is ?t) {#}" by (rule wait_deadlines_ok)
    then show ?thesis unfolding r lock_step_ok_def using f(4) by auto
  qed
qed

lemma fold_mark_released:
  "lm_locks (fold mark_released ts s) = lm_locks s" "lm_metrics (fold mark_released ts s) = lm_metrics s"
  "lm_sequence (fold mark_released ts s) = lm_sequence s" "lm_calls (fold mark_released ts s) = lm_calls s"
  "lm_config (fold mark_released ts s) = lm_config s"
  "wf_map (lm_handles s) \<Longrightarrow> wf_map (lm_handles (fold mark_released ts s))"
  by (induction ts arbitrary: s) (simp_all add: mark_released_facts)

lemma fold_mark_released_handles:
  "map_of (lm_handles (fold mark_released ts s)) u =
     (if u \<in> set ts then map_option (\<lambda>h. h\<lparr>lh_released := True\<rparr>) (map_of (lm_handles s) u) else map_of (lm_handles s) u)"
  by (induction ts arbitrary: s) (auto simp: mark_released_facts option.map_comp comp_def)

lemma decided_rejections: "decided (concat (map (\<lambda>p. map (\<lambda>w. LRejected (mw_id w) e) (snd p)) m)) = waiter_ids m"
proof -
  have d: "decided (map (\<lambda>w. LRejected (mw_id w) e) ws) = mset (map mw_id ws)" for ws by (induction ws) simp_all
  show ?thesis by (induction m) (auto simp: d waiter_ids_def map_sum_def)
qed

lemma destroy_ok:
  assumes "lm_inv s"
  shows "lock_step_ok s (destroy s) {#}"
proof (cases "lm_destroyed s")
  case True
  then show ?thesis using lock_step_ok_same [OF assms] by (simp add: destroy_def)
next
  case False
  note p = lm_inv_parts [OF assms]
  let ?ts = "held_unreleased s"
  have lk: "\<And>k t. map_of (lm_locks s) k = Some t \<Longrightarrow> \<exists>h. map_of (lm_handles s) t = Some h \<and> lh_key h = k \<and> \<not> lh_released h"
    and hd: "\<And>t h. map_of (lm_handles s) t = Some h \<Longrightarrow> lh_token h = t \<and> t \<le> lm_sequence s \<and> (\<not> lh_released h \<longrightarrow> map_of (lm_locks s) (lh_key h) = Some t)"
    and wf: "wf_map (lm_locks s)" "wf_map (lm_handles s)"
    using p(1) unfolding lock_part_def by blast+
  have "\<forall>t \<in> set (map snd (lm_locks s)). \<exists>h. map_of (lm_handles s) t = Some h \<and> \<not> lh_released h"
  proof
    fix t assume "t \<in> set (map snd (lm_locks s))"
    then obtain k where "(k, t) \<in> set (lm_locks s)" by auto
    then have "map_of (lm_locks s) k = Some t" using wf(1) by (simp add: wf_map_in_set)
    with lk show "\<exists>h. map_of (lm_handles s) t = Some h \<and> \<not> lh_released h" by blast
  qed
  then have ts: "?ts = map snd (lm_locks s)" unfolding held_unreleased_def by (intro filter_True) force
  obtain t e where t: "destroy s = (t, e)" by fastforce
  have f: "lm_locks t = []" "lm_queues t = []" "lm_sched t = close_scheduler (lm_sched s)" "lm_destroyed t"
    "lm_metrics t = destroyed_metrics (length ?ts) (lm_metrics s)" "lm_handles t = lm_handles (fold mark_released ?ts s)"
    "lm_sequence t = lm_sequence s" "lm_calls t = lm_calls s" "lm_config t = lm_config s"
    "e = concat (map (\<lambda>p. map (\<lambda>w. LRejected (mw_id w) (LDestroyed (lc_backend (lm_config s)))) (snd p)) (lm_queues s))"
    using t False by (auto simp: destroy_def on_metrics_def fold_mark_released)
  have rel: "lh_token h = u \<and> u \<le> lm_sequence s \<and> lh_released h" if "map_of (lm_handles t) u = Some h" for u h
  proof (cases "u \<in> set ?ts")
    case True
    from that True obtain g where "map_of (lm_handles s) u = Some g" "h = g\<lparr>lh_released := True\<rparr>"
      by (auto simp: f(6) fold_mark_released_handles)
    with hd [of u g] show ?thesis by simp
  next
    case False
    then have g: "map_of (lm_handles s) u = Some h" using that by (simp add: f(6) fold_mark_released_handles)
    have "lh_released h"
    proof (rule ccontr)
      assume "\<not> lh_released h"
      then have "map_of (lm_locks s) (lh_key h) = Some u" using hd [OF g] by simp
      then have "u \<in> set (map snd (lm_locks s))" by (force dest: map_of_SomeD)
      with False show False by (simp add: ts)
    qed
    with hd [OF g] show ?thesis by simp
  qed
  have "lock_part t" unfolding lock_part_def f(1,7) using rel wf fold_mark_released(6) by (auto simp: f(6))
  moreover have "lock_counts t" using p(2) unfolding lock_counts_def f(1,5) by (simp add: destroyed_metrics_def ts)
  moreover have "queue_part t" using p(3) unfolding queue_part_def f(2,5,8,9)
    by (simp add: destroyed_metrics_def waiter_ids_def map_sum_def)
  moreover have "timer_part t" using f(3,4) by (simp add: timer_part_def close_scheduler_def)
  moreover have "\<forall>k. queue_waits t k" by (simp add: queue_waits_def queue_of_def f(2))
  ultimately have "lm_inv t" using f(1) by (simp add: lm_inv_def)
  moreover have "waiter_ids (lm_queues t) + decided e = waiter_ids (lm_queues s)"
    unfolding f(2,10) decided_rejections by (simp add: waiter_ids_def map_sum_def)
  moreover have "LGranted i u \<notin> set e" for i u unfolding f(10) by auto
  ultimately show ?thesis unfolding t lock_step_ok_def using f(3,7) by (simp add: close_scheduler_def entry_ids_def)
qed

section \<open>The system\<close>

definition new_calls :: "lock_op \<Rightarrow> lockman \<Rightarrow> nat multiset" where
  "new_calls op s = (case op of Acquire _ _ _ _ _ _ _ \<Rightarrow> {#lm_calls s#} | _ \<Rightarrow> {#})"

lemma lock_op_ok: "lm_inv s \<Longrightarrow> lock_step_ok s (lock_op_step op s) (new_calls op s)"
  by (cases op) (simp_all add: new_calls_def acquire_ok release_ok heartbeat_ok isLocked_ok expiry_timer_ok
      deadline_timer_ok abort_ok destroy_ok sequence_elsewhere_ok)

definition lock_start :: "lockman \<Rightarrow> bool" where
  "lock_start s \<longleftrightarrow> (\<exists>sq c. createLockManager sq c = Inr s)"

definition lock_step :: "lockman \<Rightarrow> lock_op \<times> lock_event list \<Rightarrow> lockman \<Rightarrow> bool" where
  "lock_step s e t \<longleftrightarrow> lock_op_step (fst e) s = (t, snd e)"

lemma lock_config_depth: "lock_config_of c = Inr k \<Longrightarrow> 0 < lc_maxQueueDepth k"
  by (auto simp: lock_config_of_def bind_res_Inr_iff positiveInteger_def split: jsval.splits jsnum.splits if_splits)

lemma lock_start_inv: "lock_start s \<Longrightarrow> lm_inv s"
proof -
  assume "lock_start s"
  then obtain sq k c where s: "s = new_lockman sq k" "lock_config_of c = Inr k"
    by (auto simp: lock_start_def createLockManager_def bind_res_Inr_iff split: if_splits)
  then have "0 \<le> lc_maxQueueDepth k" using lock_config_depth [OF s(2)] by simp
  then show ?thesis unfolding s(1)
    by (simp add: lm_inv_def new_lockman_def lock_part_def lock_counts_def queue_part_def timer_part_def queue_waits_def
        queue_of_def zero_metrics_def waiter_ids_def map_sum_def)
qed

interpretation locks: monotone_system lock_start lock_step lm_inv lm_sequence
proof (unfold_locales, goal_cases)
  case (1 s)
  then show ?case by (rule lock_start_inv)
next
  case (2 s e t)
  then show ?case using lock_op_ok [of s "fst e"] by (simp add: lock_step_def lock_step_ok_def)
next
  case (3 s e t)
  then show ?case using lock_op_ok [of s "fst e"] by (simp add: lock_step_def lock_step_ok_def)
qed

section \<open>A run for the witnesses\<close>

definition demo_lock_config :: lock_config where
  "demo_lock_config = \<lparr>lc_backend = ''memory'', lc_defaultTtlMs = 30000, lc_maxWaitMs = 60000, lc_heartbeatIntervalMs = 10000,
     lc_maxQueueDepth = 1000, lc_maxTotalQueueDepth = 4096\<rparr>"

definition lock_demo0 :: lockman where
  "lock_demo0 = new_lockman 0 demo_lock_config"

definition first_handle :: lock_handle where
  "first_handle = \<lparr>lh_key = ''k'', lh_token = 1, lh_acquiredAt = 10, lh_expiresAt = 30010, lh_released = False\<rparr>"

definition lock_demo1 :: lockman where
  "lock_demo1 = lock_demo0\<lparr>lm_locks := [(''k'', 1)], lm_handles := [(1, first_handle)],
     lm_metrics := zero_metrics\<lparr>lt_acquired := 1, lt_active := 1\<rparr>, lm_sequence := 1, lm_calls := 1\<rparr>"

definition lock_demo2 :: lockman where
  "lock_demo2 = lock_demo1\<lparr>lm_queues := [(''k'', [\<lparr>mw_id = 1, mw_ttl = 30000, mw_wait = 60000, mw_active = True\<rparr>])],
     lm_sched := add_deadline 1 60020 new_scheduler,
     lm_metrics := zero_metrics\<lparr>lt_acquired := 1, lt_active := 1, lt_waiting := 1\<rparr>, lm_calls := 2\<rparr>"

lemma lock_demo_start: "lock_start lock_demo0"
proof -
  have "createLockManager 0 [(''backend'', JStr ''memory'')] = Inr lock_demo0" by code_simp
  then show ?thesis unfolding lock_start_def by blast
qed

lemma demo_key: "normalizeLockKey (JStr ''k'') = Inr ''k''"
  by code_simp

lemma demo_durations: "positiveDuration JUndef 30000 l = Inr 30000" "nonNegativeDuration JUndef 60000 l = Inr 60000"
  by (simp_all add: positiveDuration_def nonNegativeDuration_def or_default_def js_nullish_def)

lemma lock_demo_first: "lock_op_step (Acquire (JStr ''k'') JUndef JUndef False 10 10 10) lock_demo0 = (lock_demo1, [LGranted 0 1])"
  by (simp add: acquire_def Let_def demo_key lock_demo0_def lock_demo1_def new_lockman_def demo_lock_config_def demo_durations
      expire_if_due_def lock_expired_def acquire_checked_def createLockHandle_def on_metrics_def zero_metrics_def first_handle_def)

lemma lock_demo_second: "lock_op_step (Acquire (JStr ''k'') JUndef JUndef False 20 20 20) lock_demo1 = (lock_demo2, [LQueued 1])"
  by (simp add: acquire_def Let_def demo_key lock_demo0_def lock_demo1_def lock_demo2_def new_lockman_def demo_lock_config_def demo_durations
      expire_if_due_def lock_expired_def acquire_checked_def enqueue_waiter_def on_metrics_def zero_metrics_def first_handle_def
      map_has_def queue_of_def add_deadline_def)

lemma lock_demo_reach: "reach lock_start lock_step lock_demo1" "reach lock_start lock_step lock_demo2"
proof -
  have "lock_step lock_demo0 (Acquire (JStr ''k'') JUndef JUndef False 10 10 10, [LGranted 0 1]) lock_demo1"
    unfolding lock_step_def by (simp only: fst_conv snd_conv lock_demo_first)
  with lock_demo_start show r: "reach lock_start lock_step lock_demo1" by (blast intro: reach_start reach_step)
  have "lock_step lock_demo1 (Acquire (JStr ''k'') JUndef JUndef False 20 20 20, [LQueued 1]) lock_demo2"
    unfolding lock_step_def by (simp only: fst_conv snd_conv lock_demo_second)
  with r show "reach lock_start lock_step lock_demo2" by (rule reach_step)
qed

section \<open>Properties\<close>



text \<open>Every call is decided exactly once: an operation turns the waiting calls, with the new one when it is
  an acquisition, into the waiting calls and the decided ones; no call waits twice, each waits on a held key with its
  deadline pending, and the counters are exact and within the queue bound.\<close>

lemma lock_calls_conserved:
  assumes "reach lock_start lock_step s" and "lock_op_step op s = (t, evs)"
  shows "waiter_ids (lm_queues t) + decided evs = waiter_ids (lm_queues s) + new_calls op s
     \<and> (\<forall>i. count (waiter_ids (lm_queues t)) i \<le> 1)
     \<and> (\<forall>k. queue_of t k \<noteq> [] \<longrightarrow> map_of (lm_locks t) k \<noteq> None)
     \<and> (\<not> lm_destroyed t \<longrightarrow> fst ` pending (lm_sched t) = set_mset (waiter_ids (lm_queues t)))
     \<and> lt_waiting (lm_metrics t) = int (size (waiter_ids (lm_queues t))) \<and> lt_waiting (lm_metrics t) \<le> lc_maxQueueDepth (lm_config t)
     \<and> lt_active (lm_metrics t) = int (length (lm_locks t))
     \<and> lt_acquired (lm_metrics t) = lt_released (lm_metrics t) + lt_expired (lm_metrics t) + length (lm_locks t)"
proof -
  have i: "lm_inv s" by (rule locks.reach_inv [OF assms(1)])
  have r: "lm_inv t" "waiter_ids (lm_queues t) + decided evs = waiter_ids (lm_queues s) + new_calls op s"
    using lock_op_ok [OF i, of op] by (simp_all add: assms(2) lock_step_ok_def)
  show ?thesis using r(2) lm_inv_parts(2,3,4,5) [OF r(1)]
    by (simp add: lock_counts_def queue_part_def timer_part_def queue_waits_def)
qed

lemma lock_calls_conserved_witness:
  "waiter_ids (lm_queues lock_demo2) = {#1#} \<and> lt_waiting (lm_metrics lock_demo2) = 1"
proof -
  have "waiter_ids (lm_queues lock_demo2) = {#1#}" by (simp add: lock_demo2_def waiter_ids_def map_sum_def)
  with lock_calls_conserved [OF lock_demo_reach(1) lock_demo_second] show ?thesis by simp
qed



end
