(* ===== verification/PushDispatcher.thy ===== *)
theory PushDispatcher
  imports QueuePolicies Systems
begin

text \<open>
  The push dispatcher of the work queue (\<open>foundation/src/work-queue/push-dispatcher.ts\<close>).  A call of
  \<open>dispatchOnce\<close> is a frame that waits for the claim of the store, then for the notifications of the items
  that the claim reports as failed or expired, and then starts the claimed items.  The store, the worker
  runtime and the callbacks answer as they like: their answers are the arguments of the steps.
\<close>

section \<open>State\<close>

datatype frame_phase =
    Claiming nat
  | Notifying "string list" "string list"

record dispatcher =
  pd_limit :: nat
  pd_reserved :: nat
  pd_inFlight :: "(string, nat \<times> bool) jsmap"
  pd_frames :: "(nat, frame_phase) jsmap"
  pd_runs :: nat
  pd_calls :: nat

text \<open>An in-flight entry is the number of its run and whether its signal was aborted.\<close>

datatype dispatch_event =
    Cancelled_dispatch nat
  | Saturated nat
  | ClaimSent nat nat
  | ClaimThrown nat
  | Dispatched nat "string list"
  | Notified string
  | NotifyThrown nat "string list"
  | Settled string

definition new_dispatcher :: "jsnum option \<Rightarrow> dispatcher" where
  "new_dispatcher maxInFlight = \<lparr>pd_limit = nat (rl_limit (resolveQueueMaxInFlight maxInFlight (Fin default_max_in_flight))),
     pd_reserved = 0, pd_inFlight = [], pd_frames = [], pd_runs = 0, pd_calls = 0\<rparr>"

definition available_credit :: "dispatcher \<Rightarrow> nat" where
  "available_credit s = pd_limit s - pd_reserved s - length (pd_inFlight s)"

record dispatcher_status =
  ps_inFlight :: nat
  ps_reserved :: nat
  ps_creditLimit :: nat
  ps_availableCredit :: nat

definition dispatcher_status_of :: "dispatcher \<Rightarrow> dispatcher_status" where
  "dispatcher_status_of s = \<lparr>ps_inFlight = length (pd_inFlight s), ps_reserved = pd_reserved s, ps_creditLimit = pd_limit s,
     ps_availableCredit = available_credit s\<rparr>"

section \<open>Operations\<close>

definition requested_batch :: "jsnum option \<Rightarrow> nat" where
  "requested_batch batch = nat (max 1 (asInt (case batch of None \<Rightarrow> Fin 1 | Some b \<Rightarrow> b) 1))"

text \<open>\<open>dispatchOnce\<close> up to its first suspension: credit is reserved before the claim.\<close>

definition dispatchOnce :: "jsnum option \<Rightarrow> bool \<Rightarrow> dispatcher \<Rightarrow> dispatcher \<times> dispatch_event list" where
  "dispatchOnce batch aborted s0 =
     (let i = pd_calls s0; s = s0\<lparr>pd_calls := Suc i\<rparr>
      in if aborted then (s, [Cancelled_dispatch i])
         else (let n = min (requested_batch batch) (available_credit s)
               in if n = 0 then (s, [Saturated i])
                  else (s\<lparr>pd_reserved := pd_reserved s + n, pd_frames := map_set (pd_frames s) i (Claiming n)\<rparr>, [ClaimSent i n])))"

text \<open>The claimed items start: one entry for each work item id.\<close>

fun start_items :: "string list \<Rightarrow> dispatcher \<Rightarrow> dispatcher" where
  "start_items [] s = s"
| "start_items (x # xs) s =
     start_items xs (s\<lparr>pd_inFlight := map_set (pd_inFlight s) x (pd_runs s, False), pd_runs := Suc (pd_runs s)\<rparr>)"

definition start_frame :: "nat \<Rightarrow> string list \<Rightarrow> dispatcher \<Rightarrow> dispatcher \<times> dispatch_event list" where
  "start_frame i claimed s = (start_items claimed (s\<lparr>pd_frames := map_del (pd_frames s) i\<rparr>), [Dispatched i claimed])"

text \<open>The claim of a frame settles.  The reservation is given back first; when the claim reports failed or expired
  items, their notifications are awaited before the claimed items start.\<close>

definition claim_settles :: "nat \<Rightarrow> (string list \<times> string list) option \<Rightarrow> dispatcher \<Rightarrow> dispatcher \<times> dispatch_event list" where
  "claim_settles i answer s =
     (case map_get (pd_frames s) i of
        Some (Claiming n) \<Rightarrow>
          (let s1 = s\<lparr>pd_reserved := pd_reserved s - n\<rparr>
           in case answer of
                None \<Rightarrow> (s1\<lparr>pd_frames := map_del (pd_frames s1) i\<rparr>, [ClaimThrown i])
              | Some (terminal, claimed) \<Rightarrow>
                  if terminal = [] then start_frame i claimed s1
                  else (s1\<lparr>pd_frames := map_set (pd_frames s1) i (Notifying terminal claimed)\<rparr>, []))
      | _ \<Rightarrow> (s, []))"

text \<open>One awaited notification settles; the callback is called for a terminal state only, and may throw.\<close>

definition terminal_work_states :: "string list" where
  "terminal_work_states = [''completed'', ''failed'', ''cancelled'', ''expired'']"

definition notifyTerminal :: "string \<Rightarrow> string \<Rightarrow> dispatch_event list" where
  "notifyTerminal item state = (if state \<in> set terminal_work_states then [Notified item] else [])"

definition notification_settles :: "nat \<Rightarrow> string \<Rightarrow> bool \<Rightarrow> dispatcher \<Rightarrow> dispatcher \<times> dispatch_event list" where
  "notification_settles i state throws s =
     (case map_get (pd_frames s) i of
        Some (Notifying (x # xs) claimed) \<Rightarrow>
          if throws then (s\<lparr>pd_frames := map_del (pd_frames s) i\<rparr>, [NotifyThrown i claimed])
          else if xs = [] then (let (s1, evs) = start_frame i claimed s in (s1, notifyTerminal x state @ evs))
          else (s\<lparr>pd_frames := map_set (pd_frames s) i (Notifying xs claimed)\<rparr>, notifyTerminal x state)
      | _ \<Rightarrow> (s, []))"

text \<open>The \<open>finally\<close> of a run deletes the entry of its work item, whichever run the entry belongs to.\<close>

definition run_settles :: "string \<Rightarrow> dispatcher \<Rightarrow> dispatcher \<times> dispatch_event list" where
  "run_settles item s = (s\<lparr>pd_inFlight := map_del (pd_inFlight s) item\<rparr>, [Settled item])"

record cancel_answer =
  ca_signalled :: bool
  ca_inFlight :: bool

definition cancel_run :: "string \<Rightarrow> dispatcher \<Rightarrow> dispatcher \<times> cancel_answer" where
  "cancel_run item s =
     (case map_get (pd_inFlight s) (js_trim item) of
        None \<Rightarrow> (s, \<lparr>ca_signalled = False, ca_inFlight = False\<rparr>)
      | Some (r, aborted) \<Rightarrow> (s\<lparr>pd_inFlight := map_set (pd_inFlight s) (js_trim item) (r, True)\<rparr>, \<lparr>ca_signalled = True, ca_inFlight = True\<rparr>))"

text \<open>\<open>drain\<close>: the timeout is checked once; then each round ends with what the dispatcher holds at that time.\<close>

definition msg_drain_timeout :: string where
  "msg_drain_timeout = ''Queue drain timeout must be a non-negative safe integer.''"

datatype drain_round = Drained | DrainLate nat | DrainWaits

definition drain_check :: "jsnum option \<Rightarrow> string option" where
  "drain_check timeout =
     (case timeout of None \<Rightarrow> None
      | Some t \<Rightarrow> check (isSafeInteger t \<and> (case t of Fin i \<Rightarrow> 0 \<le> i | _ \<Rightarrow> False)) msg_drain_timeout)"

definition drain_round_of :: "jsnum option \<Rightarrow> int \<Rightarrow> dispatcher \<Rightarrow> drain_round" where
  "drain_round_of timeout elapsed s =
     (if pd_inFlight s = [] then Drained
      else case timeout of
        None \<Rightarrow> DrainWaits
      | Some t \<Rightarrow> if asInt t 0 - elapsed \<le> 0 then DrainLate (length (pd_inFlight s)) else DrainWaits)"

datatype dispatch_op =
    Dispatch "jsnum option" bool
  | ClaimSettles nat "(string list \<times> string list) option"
  | NotificationSettles nat string bool
  | RunSettles string
  | CancelRun string

fun dispatch_op_step :: "dispatch_op \<Rightarrow> dispatcher \<Rightarrow> dispatcher \<times> dispatch_event list" where
  "dispatch_op_step (Dispatch batch aborted) s = dispatchOnce batch aborted s"
| "dispatch_op_step (ClaimSettles i answer) s = claim_settles i answer s"
| "dispatch_op_step (NotificationSettles i state throws) s = notification_settles i state throws s"
| "dispatch_op_step (RunSettles item) s = run_settles item s"
| "dispatch_op_step (CancelRun item) s = (fst (cancel_run item s), [])"

definition dispatch_start :: "dispatcher \<Rightarrow> bool" where
  "dispatch_start s \<longleftrightarrow> (\<exists>v. s = new_dispatcher v)"

text \<open>The store returns at most as many leases as were asked for.\<close>

definition store_answers_within :: "dispatch_op \<Rightarrow> dispatcher \<Rightarrow> bool" where
  "store_answers_within op s =
     (case op of
        ClaimSettles i (Some (terminal, claimed)) \<Rightarrow>
          (case map_get (pd_frames s) i of Some (Claiming n) \<Rightarrow> length claimed \<le> n | _ \<Rightarrow> True)
      | _ \<Rightarrow> True)"

definition dispatch_step :: "dispatcher \<Rightarrow> dispatch_op \<times> dispatch_event list \<Rightarrow> dispatcher \<Rightarrow> bool" where
  "dispatch_step s e t \<longleftrightarrow> store_answers_within (fst e) s \<and> dispatch_op_step (fst e) s = (t, snd e)"

text \<open>Steps in which no claim reports failed or expired items.\<close>

fun reports_nothing :: "dispatch_op \<Rightarrow> bool" where
  "reports_nothing (ClaimSettles i (Some (terminal, claimed))) = (terminal = [])"
| "reports_nothing _ = True"

definition quiet_step :: "dispatcher \<Rightarrow> dispatch_op \<times> dispatch_event list \<Rightarrow> dispatcher \<Rightarrow> bool" where
  "quiet_step s e t \<longleftrightarrow> dispatch_step s e t \<and> reports_nothing (fst e)"

section \<open>The credit invariant\<close>

fun phase_credit :: "frame_phase \<Rightarrow> nat" where
  "phase_credit (Claiming n) = n"
| "phase_credit (Notifying xs ys) = 0"

definition reserved_exact :: "dispatcher \<Rightarrow> bool" where
  "reserved_exact s \<longleftrightarrow> wf_map (pd_frames s) \<and> wf_map (pd_inFlight s) \<and> pd_reserved s = map_sum phase_credit (pd_frames s)
     \<and> (\<forall>i p. map_of (pd_frames s) i = Some p \<longrightarrow> i < pd_calls s)"

definition within_credit :: "dispatcher \<Rightarrow> bool" where
  "within_credit s \<longleftrightarrow> reserved_exact s \<and> (\<forall>i xs ys. map_of (pd_frames s) i \<noteq> Some (Notifying xs ys))
     \<and> pd_reserved s + length (pd_inFlight s) \<le> pd_limit s"

lemma start_items_frame:
  "pd_limit (start_items xs s) = pd_limit s" "pd_reserved (start_items xs s) = pd_reserved s"
  "pd_frames (start_items xs s) = pd_frames s" "pd_calls (start_items xs s) = pd_calls s"
  by (induction xs arbitrary: s) simp_all

lemma start_items_wf: "wf_map (pd_inFlight s) \<Longrightarrow> wf_map (pd_inFlight (start_items xs s))"
  by (induction xs arbitrary: s) simp_all

lemma start_items_length: "length (pd_inFlight (start_items xs s)) \<le> length (pd_inFlight s) + length xs"
proof (induction xs arbitrary: s)
  case (Cons x xs)
  let ?s = "s\<lparr>pd_inFlight := map_set (pd_inFlight s) x (pd_runs s, False), pd_runs := Suc (pd_runs s)\<rparr>"
  have "length (pd_inFlight ?s) \<le> Suc (length (pd_inFlight s))" by (simp add: length_map_set)
  with Cons.IH [of ?s] show ?case by simp
qed simp

lemma frame_credit: "reserved_exact s \<Longrightarrow> map_of (pd_frames s) i = Some p \<Longrightarrow>
    pd_reserved s = phase_credit p + map_sum phase_credit (map_del (pd_frames s) i)"
  using map_sum_del [of "pd_frames s" i p phase_credit] by (simp add: reserved_exact_def)

lemma drop_frame_exact:
  assumes "reserved_exact s" and "map_of (pd_frames s) i = Some p" and "pd_frames t = map_del (pd_frames s) i"
    and "pd_reserved t = pd_reserved s - phase_credit p" "pd_calls t = pd_calls s" "wf_map (pd_inFlight t)"
  shows "reserved_exact t"
  using assms frame_credit [OF assms(1,2)] by (auto simp: reserved_exact_def split: if_splits)

lemma set_frame_exact:
  assumes "reserved_exact s" and "map_of (pd_frames s) i = Some p" and "pd_frames t = map_set (pd_frames s) i q"
    and "pd_reserved t + phase_credit p = pd_reserved s + phase_credit q" "pd_calls t = pd_calls s" "pd_inFlight t = pd_inFlight s"
  shows "reserved_exact t"
  using assms map_sum_set_old [OF assms(2), of phase_credit q] by (auto simp: reserved_exact_def split: if_splits)

lemma dispatch_exact: "reserved_exact s \<Longrightarrow> reserved_exact (fst (dispatchOnce batch aborted s))"
proof -
  assume r: "reserved_exact s"
  have none: "map_of (pd_frames s) (pd_calls s) = None" using r unfolding reserved_exact_def by (metis less_irrefl not_Some_eq)
  have new: "map_sum phase_credit (map_set (pd_frames s) (pd_calls s) (Claiming n)) = map_sum phase_credit (pd_frames s) + n" for n
    using map_sum_set_new [OF none, of phase_credit "Claiming n"] by simp
  have old: "\<And>i p. map_of (pd_frames s) i = Some p \<Longrightarrow> i < Suc (pd_calls s)" using r unfolding reserved_exact_def by (metis less_SucI)
  show ?thesis using r old by (auto simp: dispatchOnce_def Let_def reserved_exact_def new split: if_splits)
qed

lemma start_frame_facts:
  "pd_frames (fst (start_frame i xs s)) = map_del (pd_frames s) i" "pd_reserved (fst (start_frame i xs s)) = pd_reserved s"
  "pd_calls (fst (start_frame i xs s)) = pd_calls s" "pd_limit (fst (start_frame i xs s)) = pd_limit s"
  "wf_map (pd_inFlight s) \<Longrightarrow> wf_map (pd_inFlight (fst (start_frame i xs s)))"
  "length (pd_inFlight (fst (start_frame i xs s))) \<le> length (pd_inFlight s) + length xs"
  using start_items_length [of xs "s\<lparr>pd_frames := map_del (pd_frames s) i\<rparr>"] start_items_wf [of "s\<lparr>pd_frames := map_del (pd_frames s) i\<rparr>" xs]
  by (simp_all add: start_frame_def start_items_frame)

lemma claim_exact:
  assumes "reserved_exact s"
  shows "reserved_exact (fst (claim_settles i answer s))"
proof (cases "map_of (pd_frames s) i")
  case (Some p)
  show ?thesis
  proof (cases p)
    case (Claiming n)
    let ?s1 = "s\<lparr>pd_reserved := pd_reserved s - n\<rparr>"
    have c: "pd_reserved s = n + map_sum phase_credit (map_del (pd_frames s) i)" using frame_credit [OF assms Some] Claiming by simp
    have wf: "wf_map (pd_inFlight s)" using assms by (simp add: reserved_exact_def)
    consider "answer = None" | ys where "answer = Some ([], ys)" | x xs ys where "answer = Some (x # xs, ys)"
      by (metis list.exhaust option.exhaust surj_pair)
    then show ?thesis
    proof cases
      case 1
      then have r: "fst (claim_settles i answer s) = ?s1\<lparr>pd_frames := map_del (pd_frames s) i\<rparr>"
        by (simp add: claim_settles_def Some Claiming)
      show ?thesis unfolding r by (rule drop_frame_exact [OF assms Some]) (simp_all add: Claiming wf)
    next
      case (2 ys)
      then have r: "fst (claim_settles i answer s) = fst (start_frame i ys ?s1)" by (simp add: claim_settles_def Some Claiming)
      show ?thesis unfolding r
        by (rule drop_frame_exact [OF assms Some]) (simp_all add: Claiming wf start_frame_facts)
    next
      case (3 x xs ys)
      then have r: "fst (claim_settles i answer s) = ?s1\<lparr>pd_frames := map_set (pd_frames s) i (Notifying (x # xs) ys)\<rparr>"
        by (simp add: claim_settles_def Some Claiming)
      show ?thesis unfolding r by (rule set_frame_exact [OF assms Some]) (simp_all add: Claiming c)+
    qed
  next
    case (Notifying xs ys)
    with Some assms show ?thesis by (simp add: claim_settles_def)
  qed
qed (use assms in \<open>simp add: claim_settles_def\<close>)

lemma notification_exact:
  assumes "reserved_exact s"
  shows "reserved_exact (fst (notification_settles i state throws s))"
proof (cases "\<exists>x xs ys. map_of (pd_frames s) i = Some (Notifying (x # xs) ys)")
  case True
  then obtain x xs ys where f: "map_of (pd_frames s) i = Some (Notifying (x # xs) ys)" by blast
  have wf: "wf_map (pd_inFlight s)" using assms by (simp add: reserved_exact_def)
  have "reserved_exact (s\<lparr>pd_frames := map_del (pd_frames s) i\<rparr>)" by (rule drop_frame_exact [OF assms f]) (simp_all add: wf)
  moreover have "reserved_exact (fst (start_frame i ys s))"
    by (rule drop_frame_exact [OF assms f]) (simp_all add: wf start_frame_facts)
  moreover have "reserved_exact (s\<lparr>pd_frames := map_set (pd_frames s) i (Notifying xs ys)\<rparr>)"
    by (rule set_frame_exact [OF assms f]) simp_all+
  ultimately show ?thesis by (auto simp: notification_settles_def f split: prod.splits)
next
  case False
  then have "fst (notification_settles i state throws s) = s"
    by (auto simp: notification_settles_def split: option.splits frame_phase.splits list.splits)
  with assms show ?thesis by simp
qed

lemma step_exact: "reserved_exact s \<Longrightarrow> reserved_exact (fst (dispatch_op_step op s))"
proof (cases op)
  case (RunSettles item)
  assume "reserved_exact s"
  with RunSettles show ?thesis by (simp add: run_settles_def reserved_exact_def)
next
  case (CancelRun item)
  assume "reserved_exact s"
  with CancelRun show ?thesis by (auto simp: cancel_run_def reserved_exact_def split: option.split)
qed (simp_all add: dispatch_exact claim_exact notification_exact)

lemma dispatch_start_exact: "dispatch_start s \<Longrightarrow> within_credit s"
  by (auto simp: dispatch_start_def new_dispatcher_def within_credit_def reserved_exact_def map_sum_def)

lemma op_limit: "pd_limit (fst (dispatch_op_step op s)) = pd_limit s"
  by (cases op) (auto simp: dispatchOnce_def Let_def claim_settles_def notification_settles_def run_settles_def cancel_run_def
      start_frame_facts start_frame_def start_items_frame split: option.split frame_phase.split list.split)

lemma quiet_within:
  assumes w: "within_credit s" and q: "quiet_step s (op, evs) t"
  shows "within_credit t"
proof -
  have t: "t = fst (dispatch_op_step op s)" and q': "reports_nothing op" "store_answers_within op s"
    using q by (simp_all add: quiet_step_def dispatch_step_def)
  have e: "reserved_exact s" and n: "\<And>i xs ys. map_of (pd_frames s) i \<noteq> Some (Notifying xs ys)"
    and b: "pd_reserved s + length (pd_inFlight s) \<le> pd_limit s" using w by (simp_all add: within_credit_def)
  have et: "reserved_exact t" unfolding t by (rule step_exact [OF e])
  have "(\<forall>i xs ys. map_of (pd_frames t) i \<noteq> Some (Notifying xs ys)) \<and> pd_reserved t + length (pd_inFlight t) \<le> pd_limit s"
  proof (cases op)
    case (Dispatch batch aborted)
    then show ?thesis using n b unfolding t by (auto simp: dispatchOnce_def Let_def available_credit_def)
  next
    case (ClaimSettles i answer)
    show ?thesis
    proof (cases "\<exists>m. map_of (pd_frames s) i = Some (Claiming m)")
      case True
      then obtain m where m: "map_of (pd_frames s) i = Some (Claiming m)" by blast
      have c: "m \<le> pd_reserved s" using frame_credit [OF e m] by simp
      show ?thesis
      proof (cases answer)
        case None
        then show ?thesis using n b c unfolding t ClaimSettles by (auto simp: claim_settles_def m Let_def)
      next
        case (Some a)
        obtain ys where a: "a = ([], ys)" "length ys \<le> m" using q' m by (cases a) (auto simp: ClaimSettles Some store_answers_within_def)
        have "t = fst (start_frame i ys (s\<lparr>pd_reserved := pd_reserved s - m\<rparr>))"
          unfolding t ClaimSettles Some a(1) by (simp add: claim_settles_def m)
        then show ?thesis
          using n b c a(2) start_frame_facts(6) [of i ys "s\<lparr>pd_reserved := pd_reserved s - m\<rparr>"] by (simp add: start_frame_facts)
      qed
    next
      case False
      then have "t = s" unfolding t ClaimSettles by (auto simp: claim_settles_def split: option.splits frame_phase.splits)
      then show ?thesis using n b by simp
    qed
  next
    case (NotificationSettles i state throws)
    then have "t = s" unfolding t using n by (auto simp: notification_settles_def split: option.splits frame_phase.splits list.splits)
    then show ?thesis using n b by simp
  next
    case (RunSettles item)
    then show ?thesis using n b length_map_del_le [of "pd_inFlight s" item] unfolding t by (auto simp: run_settles_def)
  next
    case (CancelRun item)
    then show ?thesis using n b unfolding t by (auto simp: cancel_run_def length_map_set split: option.split)
  qed
  moreover have "pd_limit t = pd_limit s" unfolding t by (rule op_limit)
  ultimately show ?thesis using et by (simp add: within_credit_def)
qed

interpretation credit: safe_system dispatch_start quiet_step within_credit
  by unfold_locales (auto simp: dispatch_start_exact quiet_within)

interpretation reservations: safe_system dispatch_start dispatch_step reserved_exact
proof (unfold_locales, goal_cases)
  case (1 s)
  then show ?case using dispatch_start_exact by (simp add: within_credit_def)
next
  case (2 s e t)
  then show ?case using step_exact [of s "fst e"] by (simp add: dispatch_step_def)
qed

section \<open>Properties\<close>

text \<open>C34. As long as no claim reports failed or expired items, reservations and in-flight items together stay within
  the credit limit in every interleaving, the reserved credit is that of the outstanding claims, and the status
  tells the credit that is left.\<close>

theorem credit_bound:
  assumes "reach dispatch_start quiet_step s"
  shows "pd_reserved s + length (pd_inFlight s) \<le> pd_limit s \<and> pd_reserved s = map_sum phase_credit (pd_frames s)
     \<and> ps_availableCredit (dispatcher_status_of s) + pd_reserved s + length (pd_inFlight s) = pd_limit s"
proof -
  have "within_credit s" by (rule credit.reach_inv [OF assms])
  then show ?thesis by (simp add: within_credit_def reserved_exact_def dispatcher_status_of_def available_credit_def)
qed

definition overrun_start :: dispatcher where
  "overrun_start = new_dispatcher (Some (Fin 1))"

definition overrun_ops :: "dispatch_op list" where
  "overrun_ops = [Dispatch None False, ClaimSettles 0 (Some ([''dead''], [''x''])), Dispatch None False,
     NotificationSettles 0 ''failed'' False, ClaimSettles 1 (Some ([], [''y'']))]"

fun dispatch_ops :: "dispatch_op list \<Rightarrow> dispatcher \<Rightarrow> dispatcher" where
  "dispatch_ops [] s = s"
| "dispatch_ops (op # ops) s = dispatch_ops ops (fst (dispatch_op_step op s))"

fun answers_within :: "dispatch_op list \<Rightarrow> dispatcher \<Rightarrow> bool" where
  "answers_within [] s = True"
| "answers_within (op # ops) s = (store_answers_within op s \<and> answers_within ops (fst (dispatch_op_step op s)))"

lemma dispatch_ops_reach:
  "reach dispatch_start dispatch_step s \<Longrightarrow> answers_within ops s \<Longrightarrow> reach dispatch_start dispatch_step (dispatch_ops ops s)"
proof (induction ops arbitrary: s)
  case (Cons op ops)
  have "dispatch_step s (op, snd (dispatch_op_step op s)) (fst (dispatch_op_step op s))"
    using Cons.prems(2) by (simp add: dispatch_step_def)
  with Cons.prems(1) have "reach dispatch_start dispatch_step (fst (dispatch_op_step op s))" by (rule reach_step)
  with Cons show ?case by simp
qed simp

lemma dispatch_ops_quiet:
  "reach dispatch_start quiet_step s \<Longrightarrow> answers_within ops s \<Longrightarrow> list_all reports_nothing ops
   \<Longrightarrow> reach dispatch_start quiet_step (dispatch_ops ops s)"
proof (induction ops arbitrary: s)
  case (Cons op ops)
  have "quiet_step s (op, snd (dispatch_op_step op s)) (fst (dispatch_op_step op s))"
    using Cons.prems(2,3) by (simp add: quiet_step_def dispatch_step_def)
  with Cons.prems(1) have "reach dispatch_start quiet_step (fst (dispatch_op_step op s))" by (rule reach_step)
  with Cons show ?case by simp
qed simp

lemma overrun_start_ok: "dispatch_start overrun_start"
  by (auto simp: dispatch_start_def overrun_start_def)

theorem credit_bound_witness:
  "pd_reserved (dispatch_ops [Dispatch None False] overrun_start) = 1
   \<and> pd_reserved (dispatch_ops [Dispatch None False] overrun_start) + length (pd_inFlight (dispatch_ops [Dispatch None False] overrun_start)) \<le> 1"
proof -
  let ?s = "dispatch_ops [Dispatch None False] overrun_start"
  have "reach dispatch_start quiet_step overrun_start" using overrun_start_ok by (rule reach_start)
  then have "reach dispatch_start quiet_step ?s" by (rule dispatch_ops_quiet) (simp_all add: store_answers_within_def)
  moreover have "pd_limit ?s = 1" "pd_reserved ?s = 1" by code_simp+
  ultimately show ?thesis using credit_bound [of ?s] by simp
qed

text \<open>The credit limit can be overrun: while the notification of a failed or expired item is awaited, the
  reservation is already given back and the claimed items are not yet in flight, so another dispatch takes the same
  credit.\<close>

lemma credit_overrun:
  "\<exists>s. reach dispatch_start dispatch_step s \<and> pd_limit s = 1 \<and> length (pd_inFlight s) = 2
     \<and> (\<exists>t. reach dispatch_start dispatch_step t \<and> pd_reserved t + length (pd_inFlight t) = 2 \<and> pd_limit t = 1 \<and> pd_reserved t = 1)"
proof (intro exI conjI)
  have start: "reach dispatch_start dispatch_step overrun_start" using overrun_start_ok by (rule reach_start)
  have w: "answers_within overrun_ops overrun_start" "answers_within (take 4 overrun_ops) overrun_start" by code_simp+
  show "reach dispatch_start dispatch_step (dispatch_ops overrun_ops overrun_start)" by (rule dispatch_ops_reach [OF start w(1)])
  show "reach dispatch_start dispatch_step (dispatch_ops (take 4 overrun_ops) overrun_start)" by (rule dispatch_ops_reach [OF start w(2)])
qed code_simp+

end
