(* ===== verification/BusinessContexts.thy ===== *)
theory BusinessContexts
  imports GatewayUtils JsMap Systems
begin

text \<open>
  Business contexts of the gateway (\<open>packages/gateway/src/context/index.ts\<close>): a store of contexts with limits per
  subject and upstream route, a global limit, a lifetime and a bounded number of tombstones.  Times and options
  are whole numbers; the random handle of a new context is an argument, fresh by hypothesis, and so are the
  clock readings of an operation.
\<close>

section \<open>State\<close>

datatype ctx_state = CtxCreated | CtxActive | CtxDraining | CtxClosed | CtxLost | CtxExpired

record bctx =
  bc_handle :: string
  bc_tenant :: string
  bc_principal :: string
  bc_grantRevision :: string
  bc_credentialGeneration :: string
  bc_routeRef :: string
  bc_state :: ctx_state
  bc_createdAt :: int
  bc_updatedAt :: int
  bc_lostReason :: "string option"

record ctx_store =
  cs_contexts :: "(string, bctx) jsmap"
  cs_activeByPartition :: "(string, nat) jsmap"
  cs_activeCount :: nat
  cs_maxActive :: nat
  cs_maxTombstones :: nat
  cs_retentionMs :: int
  cs_maxActiveTotal :: nat
  cs_lifetimeMs :: int

datatype ctx_error =
    CtxSubjectCapacity
  | CtxGlobalCapacity
  | CtxHandleRequired
  | CtxUnknown nat
  | CtxGone ctx_state

definition at_least_one :: "int option \<Rightarrow> int \<Rightarrow> int" where
  "at_least_one v fallback = max 1 (case v of None \<Rightarrow> fallback | Some i \<Rightarrow> i)"

definition new_ctx_store :: "int option \<Rightarrow> int option \<Rightarrow> int option \<Rightarrow> int option \<Rightarrow> int option \<Rightarrow> ctx_store" where
  "new_ctx_store maxActive maxTombstones retention maxTotal lifetime =
     \<lparr>cs_contexts = [], cs_activeByPartition = [], cs_activeCount = 0,
      cs_maxActive = nat (at_least_one maxActive 8), cs_maxTombstones = nat (at_least_one maxTombstones 1024),
      cs_retentionMs = at_least_one retention 300000, cs_maxActiveTotal = nat (at_least_one maxTotal 4096),
      cs_lifetimeMs = at_least_one lifetime 3600000\<rparr>"

fun ctx_terminal :: "ctx_state \<Rightarrow> bool" where
  "ctx_terminal CtxClosed = True" | "ctx_terminal CtxLost = True" | "ctx_terminal CtxExpired = True" | "ctx_terminal _ = False"

fun ctx_live :: "ctx_state \<Rightarrow> bool" where
  "ctx_live CtxActive = True" | "ctx_live CtxCreated = True" | "ctx_live _ = False"

definition activePartition :: "bctx \<Rightarrow> string" where
  "activePartition c = bc_tenant c @ [CHR 0x00] @ bc_principal c @ [CHR 0x00] @ bc_routeRef c"

definition partition_count :: "(string, nat) jsmap \<Rightarrow> string \<Rightarrow> nat" where
  "partition_count m p = (case map_get m p of None \<Rightarrow> 0 | Some n \<Rightarrow> n)"

definition leave_partition :: "string \<Rightarrow> (string, nat) jsmap \<Rightarrow> (string, nat) jsmap" where
  "leave_partition p m = (if partition_count m p \<le> 1 then map_del m p else map_set m p (partition_count m p - 1))"

definition enter_partition :: "string \<Rightarrow> (string, nat) jsmap \<Rightarrow> (string, nat) jsmap" where
  "enter_partition p m = map_set m p (partition_count m p + 1)"

section \<open>Operations\<close>

text \<open>The body of the loop of \<open>sweep\<close>: an overdue context expires, and an old tombstone goes.\<close>

definition expire_overdue :: "int \<Rightarrow> string \<Rightarrow> bctx \<Rightarrow> ctx_store \<Rightarrow> ctx_store" where
  "expire_overdue now h c s =
     (if ctx_live (bc_state c) \<and> bc_createdAt c + cs_lifetimeMs s \<le> now
      then s\<lparr>cs_activeByPartition := leave_partition (activePartition c) (cs_activeByPartition s),
             cs_activeCount := cs_activeCount s - 1,
             cs_contexts := map_set (cs_contexts s) h (c\<lparr>bc_state := CtxExpired, bc_updatedAt := now\<rparr>)\<rparr>
      else s)"

definition drop_tombstone :: "int \<Rightarrow> string \<Rightarrow> ctx_store \<Rightarrow> ctx_store" where
  "drop_tombstone now h s =
     (case map_get (cs_contexts s) h of
        None \<Rightarrow> s
      | Some c \<Rightarrow> if ctx_terminal (bc_state c) \<and> bc_updatedAt c \<le> now - cs_retentionMs s
                  then s\<lparr>cs_contexts := map_del (cs_contexts s) h\<rparr> else s)"

definition sweep_one :: "int \<Rightarrow> string \<Rightarrow> ctx_store \<Rightarrow> ctx_store" where
  "sweep_one now h s =
     (case map_get (cs_contexts s) h of None \<Rightarrow> s | Some c \<Rightarrow> drop_tombstone now h (expire_overdue now h c s))"

text \<open>The oldest tombstones beyond the bound.\<close>

definition tombstones :: "ctx_store \<Rightarrow> bctx list" where
  "tombstones s = sort_key bc_updatedAt (filter (\<lambda>c. ctx_terminal (bc_state c)) (map snd (cs_contexts s)))"

definition surplus :: "ctx_store \<Rightarrow> bctx list" where
  "surplus s = take (length (tombstones s) - cs_maxTombstones s) (tombstones s)"

definition delete_context :: "string \<Rightarrow> ctx_store \<Rightarrow> ctx_store" where
  "delete_context h s = s\<lparr>cs_contexts := map_del (cs_contexts s) h\<rparr>"

definition sweep_ctx :: "int \<Rightarrow> ctx_store \<Rightarrow> ctx_store" where
  "sweep_ctx now s =
     (let s1 = fold (sweep_one now) (map fst (cs_contexts s)) s
      in fold delete_context (map bc_handle (surplus s1)) s1)"

text \<open>\<open>create\<close>; the input holds everything but the handle, the state and the times.\<close>

definition create_ctx :: "string \<Rightarrow> bctx \<Rightarrow> int \<Rightarrow> int \<Rightarrow> ctx_store \<Rightarrow> ctx_store \<times> (ctx_error + bctx)" where
  "create_ctx handle input t1 t2 s0 =
     (let s = sweep_ctx t1 s0; p = activePartition input; active = partition_count (cs_activeByPartition s) p
      in if active \<ge> cs_maxActive s then (s, Inl CtxSubjectCapacity)
         else if cs_activeCount s \<ge> cs_maxActiveTotal s then (s, Inl CtxGlobalCapacity)
         else (let c = input\<lparr>bc_handle := handle, bc_state := CtxActive, bc_createdAt := t2, bc_updatedAt := t2\<rparr>
               in (s\<lparr>cs_contexts := map_set (cs_contexts s) handle c,
                     cs_activeByPartition := map_set (cs_activeByPartition s) p (active + 1),
                     cs_activeCount := cs_activeCount s + 1\<rparr>, Inr c)))"

definition get_ctx :: "jsval \<Rightarrow> int \<Rightarrow> ctx_store \<Rightarrow> ctx_store \<times> (ctx_error + bctx)" where
  "get_ctx handle now s0 =
     (let s = sweep_ctx now s0
      in (s, case nonEmptyText handle of
               None \<Rightarrow> Inl CtxHandleRequired
             | Some h \<Rightarrow>
                 (case map_get (cs_contexts s) h of
                    None \<Rightarrow> Inl (CtxUnknown 410)
                  | Some c \<Rightarrow> if ctx_terminal (bc_state c) then Inl (CtxGone (bc_state c)) else Inr c)))"

definition list_ctx :: "int \<Rightarrow> ctx_store \<Rightarrow> ctx_store \<times> bctx list" where
  "list_ctx now s0 = (let s = sweep_ctx now s0 in (s, map snd (cs_contexts s)))"

definition ctx_transition :: "string \<Rightarrow> ctx_state \<Rightarrow> string option \<Rightarrow> int \<Rightarrow> int \<Rightarrow> ctx_store \<Rightarrow> ctx_store \<times> (ctx_error + bctx)" where
  "ctx_transition handle state reason t1 t2 s =
     (case map_get (cs_contexts s) handle of
        None \<Rightarrow> (s, Inl (CtxUnknown 404))
      | Some c \<Rightarrow>
          (let next = c\<lparr>bc_state := state, bc_updatedAt := t1,
                 bc_lostReason := (case reason of None \<Rightarrow> bc_lostReason c | Some r \<Rightarrow> if r = [] then bc_lostReason c else Some r)\<rparr>;
               p = activePartition c;
               s1 = s\<lparr>cs_contexts := map_set (cs_contexts s) handle next\<rparr>;
               s2 = (if ctx_live (bc_state c) = ctx_live state then s1
                     else if ctx_live state
                     then s1\<lparr>cs_activeCount := cs_activeCount s1 + 1, cs_activeByPartition := enter_partition p (cs_activeByPartition s1)\<rparr>
                     else s1\<lparr>cs_activeCount := cs_activeCount s1 - 1, cs_activeByPartition := leave_partition p (cs_activeByPartition s1)\<rparr>)
           in (sweep_ctx t2 s2, Inr next)))"

definition markLost :: "string \<Rightarrow> string \<Rightarrow> int \<Rightarrow> int \<Rightarrow> ctx_store \<Rightarrow> ctx_store \<times> (ctx_error + bctx)" where
  "markLost handle reason t1 t2 s = ctx_transition handle CtxLost (Some reason) t1 t2 s"

definition expire_ctx :: "string \<Rightarrow> int \<Rightarrow> int \<Rightarrow> ctx_store \<Rightarrow> ctx_store \<times> (ctx_error + bctx)" where
  "expire_ctx handle t1 t2 s = ctx_transition handle CtxExpired None t1 t2 s"

definition close_ctx :: "string \<Rightarrow> int \<Rightarrow> int \<Rightarrow> ctx_store \<Rightarrow> ctx_store \<times> (ctx_error + bctx)" where
  "close_ctx handle t1 t2 s = ctx_transition handle CtxClosed None t1 t2 s"

record ctx_budget =
  cb_retainedTombstones :: nat
  cb_activePartitions :: nat
  cb_activeContexts :: nat

definition retentionBudget :: "int \<Rightarrow> ctx_store \<Rightarrow> ctx_store \<times> ctx_budget" where
  "retentionBudget now s0 =
     (let s = sweep_ctx now s0
      in (s, \<lparr>cb_retainedTombstones = length (filter (\<lambda>c. ctx_terminal (bc_state c)) (map snd (cs_contexts s))),
              cb_activePartitions = length (cs_activeByPartition s), cb_activeContexts = cs_activeCount s\<rparr>))"

datatype ctx_op =
    CreateCtx string bctx int int
  | GetCtx jsval int
  | MarkLost string string int int
  | ExpireCtx string int int
  | CloseCtx string int int
  | SweepCtx int

fun ctx_op_step :: "ctx_op \<Rightarrow> ctx_store \<Rightarrow> ctx_store" where
  "ctx_op_step (CreateCtx h i t1 t2) s = fst (create_ctx h i t1 t2 s)"
| "ctx_op_step (GetCtx h now) s = fst (get_ctx h now s)"
| "ctx_op_step (MarkLost h r t1 t2) s = fst (markLost h r t1 t2 s)"
| "ctx_op_step (ExpireCtx h t1 t2) s = fst (expire_ctx h t1 t2 s)"
| "ctx_op_step (CloseCtx h t1 t2) s = fst (close_ctx h t1 t2 s)"
| "ctx_op_step (SweepCtx now) s = sweep_ctx now s"

definition ctx_start :: "ctx_store \<Rightarrow> bool" where
  "ctx_start s \<longleftrightarrow> (\<exists>a b c d e. s = new_ctx_store a b c d e)"

text \<open>Random handles do not repeat.\<close>

fun fresh_handle :: "ctx_op \<Rightarrow> ctx_store \<Rightarrow> bool" where
  "fresh_handle (CreateCtx h i t1 t2) s = (map_get (cs_contexts s) h = None)"
| "fresh_handle _ s = True"

definition ctx_step :: "ctx_store \<Rightarrow> ctx_op \<Rightarrow> ctx_store \<Rightarrow> bool" where
  "ctx_step s op t \<longleftrightarrow> fresh_handle op s \<and> t = ctx_op_step op s"

section \<open>Counting\<close>

definition live_in :: "string \<Rightarrow> bctx \<Rightarrow> nat" where
  "live_in p c = (if ctx_live (bc_state c) \<and> activePartition c = p then 1 else 0)"

definition live_one :: "bctx \<Rightarrow> nat" where
  "live_one c = (if ctx_live (bc_state c) then 1 else 0)"

definition counts_exact :: "ctx_store \<Rightarrow> bool" where
  "counts_exact s \<longleftrightarrow> wf_map (cs_contexts s) \<and> wf_map (cs_activeByPartition s)
     \<and> (\<forall>p. partition_count (cs_activeByPartition s) p = map_sum (live_in p) (cs_contexts s))
     \<and> (\<forall>p n. map_of (cs_activeByPartition s) p = Some n \<longrightarrow> 0 < n)
     \<and> cs_activeCount s = map_sum live_one (cs_contexts s)
     \<and> (\<forall>h c. map_of (cs_contexts s) h = Some c \<longrightarrow> bc_handle c = h)"

definition within_limits :: "ctx_store \<Rightarrow> bool" where
  "within_limits s \<longleftrightarrow> (\<forall>p. partition_count (cs_activeByPartition s) p \<le> cs_maxActive s) \<and> cs_activeCount s \<le> cs_maxActiveTotal s
     \<and> 0 < cs_maxTombstones s \<and> 0 < cs_retentionMs s"

definition same_config :: "ctx_store \<Rightarrow> ctx_store \<Rightarrow> bool" where
  "same_config s t \<longleftrightarrow> cs_maxActive t = cs_maxActive s \<and> cs_maxTombstones t = cs_maxTombstones s \<and> cs_retentionMs t = cs_retentionMs s
     \<and> cs_maxActiveTotal t = cs_maxActiveTotal s \<and> cs_lifetimeMs t = cs_lifetimeMs s"

lemma partition_count_leave: "partition_count (leave_partition p m) q = (if q = p then partition_count m p - 1 else partition_count m q)"
  by (auto simp: leave_partition_def partition_count_def)

lemma partition_count_set: "partition_count (map_set m p n) q = (if q = p then n else partition_count m q)"
  by (simp add: partition_count_def)

lemma leave_partition_wf: "wf_map m \<Longrightarrow> wf_map (leave_partition p m)"
  by (simp add: leave_partition_def)

lemma leave_partition_pos: "(\<forall>q n. map_of m q = Some n \<longrightarrow> 0 < n) \<Longrightarrow> map_of (leave_partition p m) q = Some n \<Longrightarrow> 0 < n"
  by (auto simp: leave_partition_def partition_count_def split: if_splits)

text \<open>A live context becomes a tombstone.\<close>

lemma counts_after_death:
  assumes "counts_exact s" and c: "map_of (cs_contexts s) h = Some c" and "ctx_live (bc_state c)" and "\<not> ctx_live (bc_state d)" "bc_handle d = h"
    and t: "cs_contexts t = map_set (cs_contexts s) h d" "cs_activeByPartition t = leave_partition (activePartition c) (cs_activeByPartition s)"
      "cs_activeCount t = cs_activeCount s - 1"
  shows "counts_exact t"
proof -
  have e: "\<And>p. partition_count (cs_activeByPartition s) p = map_sum (live_in p) (cs_contexts s)"
    "cs_activeCount s = map_sum live_one (cs_contexts s)" using assms(1) by (simp_all add: counts_exact_def)
  have "map_sum (live_in p) (cs_contexts t) + live_in p c = map_sum (live_in p) (cs_contexts s)" for p
    using map_sum_set_old [OF c, of "live_in p" d] assms(4) by (simp add: t(1) live_in_def)
  note m = this
  have "partition_count (cs_activeByPartition t) p = map_sum (live_in p) (cs_contexts t)" for p
  proof (cases "p = activePartition c")
    case True
    then show ?thesis using m [of p] e(1) [of p] assms(3) by (simp add: t(2) partition_count_leave live_in_def)
  next
    case False
    then show ?thesis using m [of p] e(1) [of p] by (simp add: t(2) partition_count_leave live_in_def)
  qed
  moreover have "cs_activeCount t = map_sum live_one (cs_contexts t)"
    using map_sum_set_old [OF c, of live_one d] assms(3,4) e(2) by (simp add: t(1,3) live_one_def)
  ultimately show ?thesis using assms(1,5) leave_partition_pos leave_partition_wf unfolding counts_exact_def t(1,2) by auto
qed

lemma counts_same:
  assumes "counts_exact s" and c: "map_of (cs_contexts s) h = Some c" and "\<not> ctx_live (bc_state c)" and "\<not> ctx_live (bc_state d)" "bc_handle d = h"
    and t: "cs_contexts t = map_set (cs_contexts s) h d" "cs_activeByPartition t = cs_activeByPartition s" "cs_activeCount t = cs_activeCount s"
  shows "counts_exact t"
proof -
  have "map_sum (live_in p) (cs_contexts t) = map_sum (live_in p) (cs_contexts s)" for p
    using map_sum_set_old [OF c, of "live_in p" d] assms(3,4) by (simp add: t(1) live_in_def)
  moreover have "map_sum live_one (cs_contexts t) = map_sum live_one (cs_contexts s)"
    using map_sum_set_old [OF c, of live_one d] assms(3,4) by (simp add: t(1) live_one_def)
  ultimately show ?thesis using assms(1,5) unfolding counts_exact_def t by auto
qed

lemma counts_delete:
  assumes "counts_exact s" and c: "map_of (cs_contexts s) h = Some c" and "\<not> ctx_live (bc_state c)"
  shows "counts_exact (delete_context h s)"
proof -
  have wf: "wf_map (cs_contexts s)" using assms(1) by (simp add: counts_exact_def)
  have "map_sum (live_in p) (map_del (cs_contexts s) h) = map_sum (live_in p) (cs_contexts s)" for p
    using map_sum_del [OF wf c, of "live_in p"] assms(3) by (simp add: live_in_def)
  moreover have "map_sum live_one (map_del (cs_contexts s) h) = map_sum live_one (cs_contexts s)"
    using map_sum_del [OF wf c, of live_one] assms(3) by (simp add: live_one_def)
  ultimately show ?thesis using assms(1) by (simp add: counts_exact_def delete_context_def)
qed

lemma terminal_not_live: "ctx_terminal x \<Longrightarrow> \<not> ctx_live x"
  by (cases x) simp_all

section \<open>What a sweep keeps\<close>

definition ctx_inv :: "ctx_store \<Rightarrow> bool" where
  "ctx_inv s \<longleftrightarrow> counts_exact s \<and> within_limits s"

lemma within_limits_leave:
  "within_limits s \<Longrightarrow> cs_activeByPartition t = leave_partition p (cs_activeByPartition s) \<Longrightarrow>
   cs_activeCount t = cs_activeCount s - 1 \<Longrightarrow> same_config s t \<Longrightarrow> within_limits t"
proof -
  assume a: "within_limits s" and t: "cs_activeByPartition t = leave_partition p (cs_activeByPartition s)"
    "cs_activeCount t = cs_activeCount s - 1" and c: "same_config s t"
  have "partition_count (cs_activeByPartition t) q \<le> partition_count (cs_activeByPartition s) q" for q
    by (simp add: t partition_count_leave)
  moreover have "partition_count (cs_activeByPartition s) q \<le> cs_maxActive t" for q
    using a c by (simp add: within_limits_def same_config_def)
  ultimately have "partition_count (cs_activeByPartition t) q \<le> cs_maxActive t" for q by (rule order_trans)
  moreover have "cs_activeCount t \<le> cs_maxActiveTotal t" using a c t(2) by (auto simp: within_limits_def same_config_def)
  ultimately show ?thesis using a c by (simp add: within_limits_def same_config_def)
qed

lemma expire_overdue_inv:
  assumes "ctx_inv s" "map_of (cs_contexts s) h = Some c"
  shows "ctx_inv (expire_overdue now h c s)"
proof (cases "ctx_live (bc_state c) \<and> bc_createdAt c + cs_lifetimeMs s \<le> now")
  case True
  let ?t = "expire_overdue now h c s"
  have t: "cs_activeByPartition ?t = leave_partition (activePartition c) (cs_activeByPartition s)" "cs_activeCount ?t = cs_activeCount s - 1"
    "cs_contexts ?t = map_set (cs_contexts s) h (c\<lparr>bc_state := CtxExpired, bc_updatedAt := now\<rparr>)" "same_config s ?t"
    using True by (simp_all add: expire_overdue_def same_config_def)
  have "bc_handle c = h" using assms by (auto simp: ctx_inv_def counts_exact_def)
  then have "counts_exact ?t"
    using counts_after_death [OF _ assms(2) _ _ _ t(3) t(1) t(2)] assms(1) True by (simp add: ctx_inv_def)
  moreover have "within_limits ?t" using within_limits_leave [OF _ t(1,2,4)] assms(1) by (simp add: ctx_inv_def)
  ultimately show ?thesis by (simp add: ctx_inv_def)
next
  case False
  then have "expire_overdue now h c s = s" unfolding expire_overdue_def by (rule if_not_P)
  then show ?thesis using assms(1) by simp
qed

lemma delete_context_inv:
  assumes "ctx_inv s" "\<And>c. map_of (cs_contexts s) h = Some c \<Longrightarrow> \<not> ctx_live (bc_state c)"
  shows "ctx_inv (delete_context h s)"
proof (cases "map_of (cs_contexts s) h")
  case None
  then have "map_del (cs_contexts s) h = cs_contexts s"
    by (auto simp: map_del_def map_of_eq_None_iff filter_id_conv)
  then show ?thesis using assms(1) by (simp add: delete_context_def)
next
  case (Some c)
  then show ?thesis using assms counts_delete [OF _ Some] by (auto simp: ctx_inv_def within_limits_def delete_context_def)
qed

lemma drop_tombstone_cases: "drop_tombstone now h s = s \<or>
    (\<exists>c. map_of (cs_contexts s) h = Some c \<and> ctx_terminal (bc_state c) \<and> drop_tombstone now h s = delete_context h s)"
  by (auto simp: drop_tombstone_def delete_context_def split: option.splits)

lemma drop_tombstone_inv: "ctx_inv s \<Longrightarrow> ctx_inv (drop_tombstone now h s)"
  using drop_tombstone_cases [of now h s] delete_context_inv [of s h] terminal_not_live by auto

lemma sweep_one_inv: "ctx_inv s \<Longrightarrow> ctx_inv (sweep_one now h s)"
  by (auto simp: sweep_one_def intro: drop_tombstone_inv expire_overdue_inv split: option.split)

lemma sweep_config [simp]:
  "cs_maxActive (sweep_one now h s) = cs_maxActive s" "cs_maxActiveTotal (sweep_one now h s) = cs_maxActiveTotal s"
  "cs_maxTombstones (sweep_one now h s) = cs_maxTombstones s" "cs_lifetimeMs (sweep_one now h s) = cs_lifetimeMs s"
  "cs_retentionMs (sweep_one now h s) = cs_retentionMs s"
  by (auto simp: sweep_one_def drop_tombstone_def expire_overdue_def split: option.split)

lemma sweep_config_fold [simp]:
  "cs_maxActive (fold (sweep_one now) hs s) = cs_maxActive s" "cs_maxActiveTotal (fold (sweep_one now) hs s) = cs_maxActiveTotal s"
  "cs_maxTombstones (fold (sweep_one now) hs s) = cs_maxTombstones s" "cs_lifetimeMs (fold (sweep_one now) hs s) = cs_lifetimeMs s"
  "cs_retentionMs (fold (sweep_one now) hs s) = cs_retentionMs s"
  by (induction hs arbitrary: s) simp_all

lemma delete_config_fold [simp]:
  "cs_maxActive (fold delete_context hs s) = cs_maxActive s" "cs_maxActiveTotal (fold delete_context hs s) = cs_maxActiveTotal s"
  "cs_maxTombstones (fold delete_context hs s) = cs_maxTombstones s" "cs_lifetimeMs (fold delete_context hs s) = cs_lifetimeMs s"
  "cs_retentionMs (fold delete_context hs s) = cs_retentionMs s" "cs_activeCount (fold delete_context hs s) = cs_activeCount s"
  "cs_activeByPartition (fold delete_context hs s) = cs_activeByPartition s"
  by (induction hs arbitrary: s) (simp_all add: delete_context_def)

lemma fold_delete_lookup:
  "map_of (cs_contexts (fold delete_context hs s)) h = (if h \<in> set hs then None else map_of (cs_contexts s) h)"
  by (induction hs arbitrary: s) (auto simp: delete_context_def)

lemma sweep_fold_inv: "ctx_inv s \<Longrightarrow> ctx_inv (fold (sweep_one now) hs s)"
  by (induction hs arbitrary: s) (simp_all add: sweep_one_inv)

lemma delete_fold_inv:
  "ctx_inv s \<Longrightarrow> (\<And>h c. h \<in> set hs \<Longrightarrow> map_of (cs_contexts s) h = Some c \<Longrightarrow> \<not> ctx_live (bc_state c)) \<Longrightarrow> ctx_inv (fold delete_context hs s)"
proof (induction hs arbitrary: s)
  case (Cons h hs)
  have "ctx_inv (delete_context h s)" using Cons.prems by (intro delete_context_inv) auto
  moreover have "\<And>k c. k \<in> set hs \<Longrightarrow> map_of (cs_contexts (delete_context h s)) k = Some c \<Longrightarrow> \<not> ctx_live (bc_state c)"
    using Cons.prems(2) by (auto simp: delete_context_def split: if_splits)
  ultimately show ?case using Cons.IH by simp
qed simp

lemma tombstones_set:
  assumes "ctx_inv s"
  shows "c \<in> set (tombstones s) \<longleftrightarrow> map_of (cs_contexts s) (bc_handle c) = Some c \<and> ctx_terminal (bc_state c)"
proof -
  have wf: "wf_map (cs_contexts s)" and hd: "\<And>h c. map_of (cs_contexts s) h = Some c \<Longrightarrow> bc_handle c = h"
    using assms by (auto simp: ctx_inv_def counts_exact_def)
  have "c \<in> snd ` set (cs_contexts s) \<longleftrightarrow> (\<exists>h. map_of (cs_contexts s) h = Some c)"
    unfolding wf_map_in_set [OF wf, symmetric] by force
  also have "\<dots> \<longleftrightarrow> map_of (cs_contexts s) (bc_handle c) = Some c" using hd by metis
  finally have "c \<in> snd ` set (cs_contexts s) \<longleftrightarrow> map_of (cs_contexts s) (bc_handle c) = Some c" .
  then show ?thesis by (auto simp: tombstones_def)
qed

lemma surplus_subset: "c \<in> set (surplus s) \<Longrightarrow> c \<in> set (tombstones s)"
  by (auto simp: surplus_def dest: in_set_takeD)

lemma sweep_ctx_inv:
  assumes "ctx_inv s"
  shows "ctx_inv (sweep_ctx now s)"
proof -
  let ?s1 = "fold (sweep_one now) (map fst (cs_contexts s)) s"
  have i: "ctx_inv ?s1" using assms by (rule sweep_fold_inv)
  have "\<not> ctx_live (bc_state c)" if "h \<in> set (map bc_handle (surplus ?s1))" and m: "map_of (cs_contexts ?s1) h = Some c" for h c
  proof -
    from that(1) obtain d where "d \<in> set (surplus ?s1)" "h = bc_handle d" by auto
    then show ?thesis using surplus_subset tombstones_set [OF i] m terminal_not_live by fastforce
  qed
  then have "ctx_inv (fold delete_context (map bc_handle (surplus ?s1)) ?s1)" by (rule delete_fold_inv [OF i])
  then show ?thesis by (simp only: sweep_ctx_def Let_def)
qed

lemma sweep_ctx_config [simp]:
  "cs_maxActive (sweep_ctx now s) = cs_maxActive s" "cs_maxActiveTotal (sweep_ctx now s) = cs_maxActiveTotal s"
  "cs_maxTombstones (sweep_ctx now s) = cs_maxTombstones s" "cs_lifetimeMs (sweep_ctx now s) = cs_lifetimeMs s"
  "cs_retentionMs (sweep_ctx now s) = cs_retentionMs s"
  by (simp_all add: sweep_ctx_def Let_def)

section \<open>What a sweep achieves\<close>

definition overdue :: "int \<Rightarrow> int \<Rightarrow> bctx \<Rightarrow> bool" where
  "overdue now life c \<longleftrightarrow> ctx_live (bc_state c) \<and> bc_createdAt c + life \<le> now"

definition old_tombstone :: "int \<Rightarrow> int \<Rightarrow> bctx \<Rightarrow> bool" where
  "old_tombstone now retention c \<longleftrightarrow> ctx_terminal (bc_state c) \<and> bc_updatedAt c \<le> now - retention"

text \<open>A context after the first pass of a sweep: unchanged unless it was overdue.\<close>

definition aged :: "int \<Rightarrow> int \<Rightarrow> int \<Rightarrow> bctx \<Rightarrow> bctx option" where
  "aged now life retention c =
     (let d = (if overdue now life c then c\<lparr>bc_state := CtxExpired, bc_updatedAt := now\<rparr> else c)
      in if old_tombstone now retention d then None else Some d)"

lemma sweep_one_lookup:
  "map_of (cs_contexts (sweep_one now h s)) k =
     (if k = h then Option.bind (map_of (cs_contexts s) h) (aged now (cs_lifetimeMs s) (cs_retentionMs s))
      else map_of (cs_contexts s) k)"
  by (auto simp: sweep_one_def expire_overdue_def drop_tombstone_def aged_def overdue_def old_tombstone_def Let_def split: option.splits)

lemma sweep_fold_lookup:
  "distinct hs \<Longrightarrow> map_of (cs_contexts (fold (sweep_one now) hs s)) k =
     (if k \<in> set hs then Option.bind (map_of (cs_contexts s) k) (aged now (cs_lifetimeMs s) (cs_retentionMs s))
      else map_of (cs_contexts s) k)"
  by (induction hs arbitrary: s) (auto simp: sweep_one_lookup)

lemma sweep_first_pass:
  assumes "ctx_inv s"
  shows "map_of (cs_contexts (fold (sweep_one now) (map fst (cs_contexts s)) s)) k =
    Option.bind (map_of (cs_contexts s) k) (aged now (cs_lifetimeMs s) (cs_retentionMs s))"
proof -
  have "distinct (map fst (cs_contexts s))" using assms by (simp add: ctx_inv_def counts_exact_def wf_map_def)
  then show ?thesis by (auto simp: sweep_fold_lookup map_of_eq_None_iff [symmetric])
qed

lemma swept_lookup:
  assumes "ctx_inv s" "map_of (cs_contexts (sweep_ctx now s)) k = Some d"
  shows "\<exists>c. map_of (cs_contexts s) k = Some c \<and> aged now (cs_lifetimeMs s) (cs_retentionMs s) c = Some d"
  using assms by (auto simp: sweep_ctx_def Let_def fold_delete_lookup sweep_first_pass bind_eq_Some_conv split: if_splits)

lemma swept_fresh:
  assumes "ctx_inv s" "map_of (cs_contexts (sweep_ctx now s)) k = Some d"
  shows "\<not> overdue now (cs_lifetimeMs s) d \<and> \<not> old_tombstone now (cs_retentionMs s) d"
  using swept_lookup [OF assms] by (auto simp: aged_def Let_def overdue_def old_tombstone_def split: if_splits)

text \<open>A live context survives a sweep unchanged until its lifetime is over.\<close>

lemma sweep_keeps_live:
  assumes "ctx_inv s" "map_of (cs_contexts s) k = Some c" "ctx_live (bc_state c)" "now < bc_createdAt c + cs_lifetimeMs s"
  shows "map_of (cs_contexts (sweep_ctx now s)) k = Some c"
proof -
  let ?s1 = "fold (sweep_one now) (map fst (cs_contexts s)) s"
  have nt: "\<not> ctx_terminal (bc_state c)" using assms(3) terminal_not_live by blast
  then have "aged now (cs_lifetimeMs s) (cs_retentionMs s) c = Some c"
    using assms(3,4) by (simp add: aged_def overdue_def old_tombstone_def)
  then have m: "map_of (cs_contexts ?s1) k = Some c" using sweep_first_pass [OF assms(1)] assms(2) by simp
  have i: "ctx_inv ?s1" by (rule sweep_fold_inv [OF assms(1)])
  have "k \<notin> set (map bc_handle (surplus ?s1))"
  proof
    assume "k \<in> set (map bc_handle (surplus ?s1))"
    then obtain d where "d \<in> set (tombstones ?s1)" "k = bc_handle d" using surplus_subset by auto
    then have "map_of (cs_contexts ?s1) k = Some d" "ctx_terminal (bc_state d)" using tombstones_set [OF i] by auto
    then show False using m nt by simp
  qed
  then show ?thesis using m by (simp add: sweep_ctx_def Let_def fold_delete_lookup)
qed

text \<open>The number of tombstones after a sweep.\<close>

definition dead_count :: "ctx_store \<Rightarrow> nat" where
  "dead_count s = length (filter (\<lambda>c. ctx_terminal (bc_state c)) (map snd (cs_contexts s)))"

lemma dead_count_filter: "dead_count s = length (filter (\<lambda>e. ctx_terminal (bc_state (snd e))) (cs_contexts s))"
  by (simp add: dead_count_def filter_map comp_def case_prod_beta)

lemma fold_delete_contexts: "cs_contexts (fold delete_context hs s) = filter (\<lambda>e. fst e \<notin> set hs) (cs_contexts s)"
  by (induction hs arbitrary: s) (auto simp: delete_context_def map_del_def case_prod_beta intro!: filter_cong)

lemma tombstones_distinct:
  assumes "ctx_inv s"
  shows "distinct (map bc_handle (tombstones s))"
proof -
  have wf: "distinct (map fst (cs_contexts s))" and hd: "\<And>h c. (h, c) \<in> set (cs_contexts s) \<Longrightarrow> bc_handle c = h"
    using assms by (auto simp: ctx_inv_def counts_exact_def wf_map_in_set [symmetric] wf_map_def)
  have "map bc_handle (map snd (cs_contexts s)) = map fst (cs_contexts s)" using hd by auto
  then have "distinct (map bc_handle (map snd (cs_contexts s)))" using wf by metis
  then have "distinct (map bc_handle (filter (\<lambda>c. ctx_terminal (bc_state c)) (map snd (cs_contexts s))))" by (rule distinct_map_filter)
  then show ?thesis by (simp add: tombstones_def distinct_map)
qed

lemma sweep_tombstones:
  assumes "ctx_inv s"
  shows "dead_count (sweep_ctx now s) \<le> cs_maxTombstones s"
proof -
  let ?s1 = "fold (sweep_one now) (map fst (cs_contexts s)) s"
  let ?dead = "map bc_handle (tombstones ?s1)" and ?gone = "map bc_handle (surplus ?s1)"
  have i: "ctx_inv ?s1" using assms by (rule sweep_fold_inv)
  have wf: "wf_map (cs_contexts ?s1)" using i by (simp add: ctx_inv_def counts_exact_def)
  have split: "?dead = ?gone @ map bc_handle (drop (length (tombstones ?s1) - cs_maxTombstones ?s1) (tombstones ?s1))"
    by (metis append_take_drop_id map_append surplus_def)
  let ?left = "filter (\<lambda>e. ctx_terminal (bc_state (snd e))) (cs_contexts (sweep_ctx now s))"
  have "map fst ?left = map fst (filter (\<lambda>e. fst e \<notin> set ?gone \<and> ctx_terminal (bc_state (snd e))) (cs_contexts ?s1))"
    by (simp add: sweep_ctx_def Let_def fold_delete_contexts case_prod_beta conj_commute)
  moreover have "distinct (map fst (filter (\<lambda>e. fst e \<notin> set ?gone \<and> ctx_terminal (bc_state (snd e))) (cs_contexts ?s1)))"
    using wf by (simp add: wf_map_def distinct_map_filter)
  ultimately have d: "distinct (map fst ?left)" by (simp only:)
  have "length ?left = card (set (map fst ?left))" using distinct_card [OF d] by simp
  also have "set (map fst ?left) \<subseteq> set ?dead - set ?gone"
  proof
    fix h assume "h \<in> set (map fst ?left)"
    then obtain c where c: "(h, c) \<in> set (cs_contexts ?s1)" "h \<notin> set ?gone" "ctx_terminal (bc_state c)"
      by (auto simp: sweep_ctx_def Let_def fold_delete_contexts)
    then have m: "map_of (cs_contexts ?s1) h = Some c" using wf_map_in_set [OF wf] by blast
    then have "bc_handle c = h" using i by (auto simp: ctx_inv_def counts_exact_def)
    then have "c \<in> set (tombstones ?s1)" using tombstones_set [OF i] m c(3) by simp
    then have "h \<in> set ?dead" using \<open>bc_handle c = h\<close> by force
    then show "h \<in> set ?dead - set ?gone" using c(2) by blast
  qed
  then have "card (set (map fst ?left)) \<le> card (set ?dead - set ?gone)" by (rule card_mono [rotated]) simp
  also have "\<dots> \<le> cs_maxTombstones s"
  proof -
    have "set ?dead - set ?gone \<subseteq> set (map bc_handle (drop (length (tombstones ?s1) - cs_maxTombstones ?s1) (tombstones ?s1)))"
      using split by (metis Diff_subset_conv set_append subset_refl)
    then have "card (set ?dead - set ?gone) \<le> card (set (map bc_handle (drop (length (tombstones ?s1) - cs_maxTombstones ?s1) (tombstones ?s1))))"
      by (rule card_mono [rotated]) simp
    also have "\<dots> \<le> length (drop (length (tombstones ?s1) - cs_maxTombstones ?s1) (tombstones ?s1))"
      using card_length [of "map bc_handle (drop (length (tombstones ?s1) - cs_maxTombstones ?s1) (tombstones ?s1))"] by simp
    also have "\<dots> \<le> cs_maxTombstones s" by simp
    finally show ?thesis .
  qed
  finally show ?thesis by (simp add: dead_count_filter)
qed

section \<open>The invariant of the store\<close>

definition live_or_dead :: "ctx_store \<Rightarrow> bool" where
  "live_or_dead s \<longleftrightarrow> (\<forall>h c. map_of (cs_contexts s) h = Some c \<longrightarrow> ctx_live (bc_state c) \<or> ctx_terminal (bc_state c))"

definition ctx_sound :: "ctx_store \<Rightarrow> bool" where
  "ctx_sound s \<longleftrightarrow> ctx_inv s \<and> live_or_dead s \<and> dead_count s \<le> cs_maxTombstones s"

lemma aged_live_or_dead: "aged now l r c = Some d \<Longrightarrow> d = c \<or> ctx_terminal (bc_state d)"
  by (auto simp: aged_def Let_def split: if_splits)

lemma sweep_sound: "ctx_inv s \<Longrightarrow> live_or_dead s \<Longrightarrow> ctx_sound (sweep_ctx now s)"
  using swept_lookup [of s now] aged_live_or_dead
  by (fastforce simp: ctx_sound_def sweep_ctx_inv sweep_tombstones live_or_dead_def)

lemma swept_absent: "ctx_inv s \<Longrightarrow> map_of (cs_contexts s) h = None \<Longrightarrow> map_of (cs_contexts (sweep_ctx now s)) h = None"
  using swept_lookup [of s now h] by (cases "map_of (cs_contexts (sweep_ctx now s)) h") auto

text \<open>A new context.\<close>

definition add_context :: "string \<Rightarrow> bctx \<Rightarrow> ctx_store \<Rightarrow> ctx_store" where
  "add_context h c s = s\<lparr>cs_contexts := map_set (cs_contexts s) h c,
     cs_activeByPartition := enter_partition (activePartition c) (cs_activeByPartition s), cs_activeCount := cs_activeCount s + 1\<rparr>"

lemma keys_map_set_new: "map_of m k = None \<Longrightarrow> map_set m k v = m @ [(k, v)]"
  by (induction m k v rule: map_set.induct) (auto split: if_splits)

lemma add_context_counts:
  assumes "counts_exact s" "map_of (cs_contexts s) h = None" "ctx_live (bc_state c)" "bc_handle c = h"
  shows "counts_exact (add_context h c s)"
proof -
  have e: "\<And>p. partition_count (cs_activeByPartition s) p = map_sum (live_in p) (cs_contexts s)"
    "cs_activeCount s = map_sum live_one (cs_contexts s)" using assms(1) by (simp_all add: counts_exact_def)
  have "partition_count (enter_partition (activePartition c) (cs_activeByPartition s)) p = map_sum (live_in p) (map_set (cs_contexts s) h c)" for p
    using assms(3) by (simp add: map_sum_set_new [OF assms(2)] enter_partition_def partition_count_set e(1) live_in_def)
  moreover have "cs_activeCount s + 1 = map_sum live_one (map_set (cs_contexts s) h c)"
    using assms(3) by (simp add: map_sum_set_new [OF assms(2)] e(2) live_one_def)
  ultimately show ?thesis using assms(1,4) by (simp add: counts_exact_def add_context_def enter_partition_def)
qed

lemma add_context_sound:
  assumes "ctx_sound s" "map_of (cs_contexts s) h = None" "ctx_live (bc_state c)" "bc_handle c = h"
    and "partition_count (cs_activeByPartition s) (activePartition c) < cs_maxActive s" "cs_activeCount s < cs_maxActiveTotal s"
  shows "ctx_sound (add_context h c s)"
proof -
  have "counts_exact (add_context h c s)" using assms(1-4) by (intro add_context_counts) (auto simp: ctx_sound_def ctx_inv_def)
  moreover have "within_limits (add_context h c s)"
    using assms(1,5,6) by (simp add: ctx_sound_def ctx_inv_def within_limits_def add_context_def enter_partition_def partition_count_set)
  moreover have "live_or_dead (add_context h c s)" using assms(1,3) by (simp add: ctx_sound_def live_or_dead_def add_context_def)
  moreover have "dead_count (add_context h c s) = dead_count s"
    using assms(3) terminal_not_live by (auto simp: dead_count_def add_context_def keys_map_set_new [OF assms(2)])
  ultimately show ?thesis using assms(1) by (simp add: ctx_sound_def ctx_inv_def add_context_def)
qed

lemma create_cases:
  obtains e where "create_ctx h i t1 t2 s = (sweep_ctx t1 s, Inl e)"
  | c where "create_ctx h i t1 t2 s = (add_context h c (sweep_ctx t1 s), Inr c)"
      "c = i\<lparr>bc_handle := h, bc_state := CtxActive, bc_createdAt := t2, bc_updatedAt := t2\<rparr>"
      "partition_count (cs_activeByPartition (sweep_ctx t1 s)) (activePartition c) < cs_maxActive s" "cs_activeCount (sweep_ctx t1 s) < cs_maxActiveTotal s"
proof -
  let ?c = "i\<lparr>bc_handle := h, bc_state := CtxActive, bc_createdAt := t2, bc_updatedAt := t2\<rparr>"
  let ?w = "sweep_ctx t1 s"
  have p: "activePartition ?c = activePartition i" by (simp add: activePartition_def)
  consider "cs_maxActive s \<le> partition_count (cs_activeByPartition ?w) (activePartition i)"
    | "partition_count (cs_activeByPartition ?w) (activePartition i) < cs_maxActive s" "cs_maxActiveTotal s \<le> cs_activeCount ?w"
    | "partition_count (cs_activeByPartition ?w) (activePartition i) < cs_maxActive s" "cs_activeCount ?w < cs_maxActiveTotal s"
    by linarith
  then show thesis
  proof cases
    case 1
    then show ?thesis using that(1) by (simp add: create_ctx_def Let_def)
  next
    case 2
    then show ?thesis using that(1) by (simp add: create_ctx_def Let_def)
  next
    case 3
    have "create_ctx h i t1 t2 s = (add_context h ?c ?w, Inr ?c)"
      using 3 by (simp add: create_ctx_def Let_def add_context_def enter_partition_def p)
    then show ?thesis using that(2) 3 p by simp
  qed
qed

lemma create_sound:
  assumes "ctx_sound s" "map_of (cs_contexts s) h = None"
  shows "ctx_sound (fst (create_ctx h i t1 t2 s))"
proof -
  have w: "ctx_sound (sweep_ctx t1 s)" using assms(1) by (intro sweep_sound) (simp_all add: ctx_sound_def)
  have a: "map_of (cs_contexts (sweep_ctx t1 s)) h = None" using assms swept_absent by (simp add: ctx_sound_def)
  show ?thesis
  proof (cases rule: create_cases [of h i t1 t2 s])
    case (1 e)
    then show ?thesis using w by simp
  next
    case (2 c)
    have "ctx_sound (add_context h c (sweep_ctx t1 s))" using 2 by (intro add_context_sound w a) simp_all
    then show ?thesis using 2(1) by simp
  qed
qed

text \<open>A context that ends: the state that \<open>#transition\<close> hands to the sweep.\<close>

definition ended :: "bctx \<Rightarrow> ctx_state \<Rightarrow> string option \<Rightarrow> int \<Rightarrow> bctx" where
  "ended c state reason t1 = c\<lparr>bc_state := state, bc_updatedAt := t1,
     bc_lostReason := (case reason of None \<Rightarrow> bc_lostReason c | Some r \<Rightarrow> if r = [] then bc_lostReason c else Some r)\<rparr>"

definition end_context :: "string \<Rightarrow> bctx \<Rightarrow> bctx \<Rightarrow> ctx_store \<Rightarrow> ctx_store" where
  "end_context h c d s =
     (if ctx_live (bc_state c)
      then s\<lparr>cs_contexts := map_set (cs_contexts s) h d, cs_activeCount := cs_activeCount s - 1,
             cs_activeByPartition := leave_partition (activePartition c) (cs_activeByPartition s)\<rparr>
      else s\<lparr>cs_contexts := map_set (cs_contexts s) h d\<rparr>)"

lemma transition_some:
  assumes "map_of (cs_contexts s) h = Some c" "ctx_terminal state"
  shows "ctx_transition h state r t1 t2 s = (sweep_ctx t2 (end_context h c (ended c state r t1) s), Inr (ended c state r t1))"
  using assms terminal_not_live by (auto simp: ctx_transition_def Let_def ended_def end_context_def)

lemma end_context_inv:
  assumes "ctx_inv s" "map_of (cs_contexts s) h = Some c" "ctx_terminal (bc_state d)" "bc_handle d = h"
  shows "ctx_inv (end_context h c d s)"
proof (cases "ctx_live (bc_state c)")
  case True
  let ?t = "end_context h c d s"
  have t: "cs_contexts ?t = map_set (cs_contexts s) h d" "cs_activeByPartition ?t = leave_partition (activePartition c) (cs_activeByPartition s)"
      "cs_activeCount ?t = cs_activeCount s - 1" "same_config s ?t"
    using True by (simp_all add: end_context_def same_config_def)
  have "counts_exact ?t" using assms True terminal_not_live by (intro counts_after_death [OF _ assms(2) True _ _ t(1-3)]) (auto simp: ctx_inv_def)
  then show ?thesis using within_limits_leave [OF _ t(2-4)] assms(1) by (simp add: ctx_inv_def)
next
  case False
  let ?t = "end_context h c d s"
  have t: "cs_contexts ?t = map_set (cs_contexts s) h d" "cs_activeByPartition ?t = cs_activeByPartition s" "cs_activeCount ?t = cs_activeCount s"
    using False by (simp_all add: end_context_def)
  have "counts_exact ?t" using assms False terminal_not_live by (intro counts_same [OF _ assms(2) False _ _ t]) (auto simp: ctx_inv_def)
  moreover have "within_limits ?t" using assms(1) False by (simp add: ctx_inv_def within_limits_def end_context_def)
  ultimately show ?thesis by (simp add: ctx_inv_def)
qed

lemma end_context_lookup: "map_of (cs_contexts (end_context h c d s)) k = (if k = h then Some d else map_of (cs_contexts s) k)"
  by (simp add: end_context_def)

lemma ended_simps [simp]: "bc_state (ended c state r t1) = state" "bc_handle (ended c state r t1) = bc_handle c"
  by (simp_all add: ended_def)

lemma transition_inv:
  assumes "ctx_sound s" "map_of (cs_contexts s) h = Some c" "ctx_terminal state"
  shows "ctx_inv (end_context h c (ended c state r t1) s)" "live_or_dead (end_context h c (ended c state r t1) s)"
proof -
  have h: "bc_handle c = h" using assms(1,2) by (auto simp: ctx_sound_def ctx_inv_def counts_exact_def)
  show "ctx_inv (end_context h c (ended c state r t1) s)"
    using assms h by (intro end_context_inv [OF _ assms(2)]) (simp_all add: ctx_sound_def)
  show "live_or_dead (end_context h c (ended c state r t1) s)"
    using assms by (auto simp: ctx_sound_def live_or_dead_def end_context_lookup)
qed

lemma transition_sound:
  assumes "ctx_sound s" "ctx_terminal state"
  shows "ctx_sound (fst (ctx_transition h state r t1 t2 s))"
proof (cases "map_of (cs_contexts s) h")
  case None
  then show ?thesis using assms(1) by (simp add: ctx_transition_def)
next
  case (Some c)
  then show ?thesis using transition_inv [OF assms(1) Some assms(2)] by (simp add: transition_some [OF Some assms(2)] sweep_sound)
qed

lemmas ctx_ops = get_ctx_def list_ctx_def markLost_def expire_ctx_def close_ctx_def

lemma ctx_step_sound: "ctx_sound s \<Longrightarrow> ctx_step s op t \<Longrightarrow> ctx_sound t"
proof -
  assume s: "ctx_sound s" and st: "ctx_step s op t"
  have w: "ctx_sound (sweep_ctx now s)" for now using s by (intro sweep_sound) (simp_all add: ctx_sound_def)
  show ?thesis using st
    by (cases op) (simp_all add: ctx_step_def ctx_ops Let_def w transition_sound [OF s] create_sound [OF s])
qed

interpretation contexts: safe_system ctx_start ctx_step ctx_sound
proof
  fix s assume "ctx_start s"
  then show "ctx_sound s"
    by (auto simp: ctx_start_def new_ctx_store_def ctx_sound_def ctx_inv_def counts_exact_def within_limits_def live_or_dead_def
        dead_count_def partition_count_def map_sum_def at_least_one_def)
qed (rule ctx_step_sound)

section \<open>Properties\<close>

text \<open>A handle that is no longer usable, and what keeps it so.\<close>

definition dead_handle :: "string \<Rightarrow> ctx_store \<Rightarrow> bool" where
  "dead_handle h s \<longleftrightarrow> (case map_get (cs_contexts s) h of None \<Rightarrow> True | Some c \<Rightarrow> ctx_terminal (bc_state c))"

fun creates :: "string \<Rightarrow> ctx_op \<Rightarrow> bool" where
  "creates h (CreateCtx k i t1 t2) = (k = h)"
| "creates h _ = False"

lemma dead_sweep: "ctx_inv s \<Longrightarrow> dead_handle h s \<Longrightarrow> dead_handle h (sweep_ctx now s)"
  using swept_lookup [of s now h] aged_live_or_dead by (fastforce simp: dead_handle_def split: option.splits)

lemma dead_transition:
  assumes "ctx_sound s" "ctx_terminal state" "dead_handle h s \<or> (k = h \<and> map_of (cs_contexts s) h \<noteq> None)"
  shows "dead_handle h (fst (ctx_transition k state r t1 t2 s))"
proof (cases "map_of (cs_contexts s) k")
  case None
  then show ?thesis using assms(3) by (auto simp: ctx_transition_def)
next
  case (Some c)
  have "dead_handle h (end_context k c (ended c state r t1) s)"
    using assms(2,3) by (auto simp: dead_handle_def end_context_lookup)
  then show ?thesis using dead_sweep transition_inv(1) [OF assms(1) Some assms(2)] by (simp add: transition_some [OF Some assms(2)])
qed

lemma dead_create:
  assumes "ctx_sound s" "dead_handle h s" "k \<noteq> h"
  shows "dead_handle h (fst (create_ctx k i t1 t2 s))"
proof -
  have w: "dead_handle h (sweep_ctx t1 s)" using assms dead_sweep by (simp add: ctx_sound_def)
  show ?thesis
    by (cases rule: create_cases [of k i t1 t2 s]) (use w assms(3) in \<open>auto simp: dead_handle_def add_context_def\<close>)
qed

lemma dead_step:
  assumes "ctx_sound s" "dead_handle h s" "ctx_step s op t" "\<not> creates h op"
  shows "dead_handle h t"
proof -
  have w: "dead_handle h (sweep_ctx now s)" for now using assms(1,2) dead_sweep by (simp add: ctx_sound_def)
  show ?thesis using assms(2-4)
    by (cases op) (simp_all add: ctx_step_def ctx_ops Let_def w dead_transition [OF assms(1)] dead_create [OF assms(1)])
qed

lemma dead_runs:
  "ctx_sound s \<Longrightarrow> dead_handle h s \<Longrightarrow> runs ctx_step s ops t \<Longrightarrow> \<not> list_ex (creates h) ops \<Longrightarrow> dead_handle h t"
proof (induction ops arbitrary: s)
  case (Cons e es)
  then obtain u where u: "ctx_step s e u" "runs ctx_step u es t" by auto
  then show ?case using Cons.IH [of u] Cons.prems ctx_step_sound dead_step by auto
qed simp

text \<open>The operations that end the context of a handle.\<close>

fun ends :: "string \<Rightarrow> ctx_op \<Rightarrow> bool" where
  "ends h (MarkLost k r t1 t2) = (k = h)"
| "ends h (ExpireCtx k t1 t2) = (k = h)"
| "ends h (CloseCtx k t1 t2) = (k = h)"
| "ends h _ = False"

lemma dead_after_end: "ctx_sound s \<Longrightarrow> ends h op \<Longrightarrow> map_of (cs_contexts s) h \<noteq> None \<Longrightarrow> ctx_step s op t \<Longrightarrow> dead_handle h t"
  by (cases op) (auto simp: ctx_step_def ctx_ops intro: dead_transition)

lemma dead_get: "ctx_inv s \<Longrightarrow> dead_handle h s \<Longrightarrow> nonEmptyText v = Some h \<Longrightarrow> \<exists>e. snd (get_ctx v now s) = Inl e"
  using dead_sweep [of s h now] by (auto simp: get_ctx_def Let_def dead_handle_def split: option.splits)

definition demo_ctx :: bctx where
  "demo_ctx = \<lparr>bc_handle = [], bc_tenant = ''t'', bc_principal = ''p'', bc_grantRevision = ''1'', bc_credentialGeneration = ''1'',
     bc_routeRef = ''r'', bc_state = CtxActive, bc_createdAt = 0, bc_updatedAt = 0, bc_lostReason = None\<rparr>"

definition demo_store :: ctx_store where
  "demo_store = new_ctx_store (Some 1) (Some 1) (Some 100) (Some 2) (Some 1000)"

lemma ctx_demo_reach: "reach ctx_start ctx_step (ctx_op_step (CreateCtx ''ctx_a'' demo_ctx 0 1) demo_store)"
proof (rule reach_step [of _ _ demo_store])
  show "reach ctx_start ctx_step demo_store" unfolding demo_store_def by (rule reach_start) (unfold ctx_start_def, blast)
  show "ctx_step demo_store (CreateCtx ''ctx_a'' demo_ctx 0 1) (ctx_op_step (CreateCtx ''ctx_a'' demo_ctx 0 1) demo_store)"
    by (simp add: ctx_step_def demo_store_def new_ctx_store_def)
qed

text \<open>C27. In every reachable store the count of a partition (subject and upstream route) is the number of its live
  contexts and within the limit, the global count is the number of live contexts and within the global limit, no
  partition is kept with a zero count, and at most \<open>maxTombstones\<close> ended contexts are retained.\<close>

theorem context_counts_exact:
  assumes "reach ctx_start ctx_step s"
  shows "partition_count (cs_activeByPartition s) p
        = length (filter (\<lambda>c. ctx_live (bc_state c) \<and> activePartition c = p) (map snd (cs_contexts s)))
    \<and> partition_count (cs_activeByPartition s) p \<le> cs_maxActive s
    \<and> map_get (cs_activeByPartition s) p \<noteq> Some 0
    \<and> cs_activeCount s = length (filter (\<lambda>c. ctx_live (bc_state c)) (map snd (cs_contexts s)))
    \<and> cs_activeCount s \<le> cs_maxActiveTotal s
    \<and> length (filter (\<lambda>c. ctx_terminal (bc_state c)) (map snd (cs_contexts s))) \<le> cs_maxTombstones s"
proof -
  have i: "ctx_sound s" by (rule contexts.reach_inv [OF assms])
  have a: "map_sum (live_in p) m = length (filter (\<lambda>c. ctx_live (bc_state c) \<and> activePartition c = p) (map snd m))" for m :: "(string, bctx) jsmap"
    by (induction m) (simp_all add: map_sum_def live_in_def)
  have b: "map_sum live_one m = length (filter (\<lambda>c. ctx_live (bc_state c)) (map snd m))" for m :: "(string, bctx) jsmap"
    by (induction m) (simp_all add: map_sum_def live_one_def)
  have c: "counts_exact s" "within_limits s" "dead_count s \<le> cs_maxTombstones s" using i by (simp_all add: ctx_sound_def ctx_inv_def)
  have "map_get (cs_activeByPartition s) p \<noteq> Some 0" using c(1) unfolding counts_exact_def by blast
  moreover have "partition_count (cs_activeByPartition s) p \<le> cs_maxActive s" "cs_activeCount s \<le> cs_maxActiveTotal s"
    using c(2) by (simp_all add: within_limits_def)
  moreover have "partition_count (cs_activeByPartition s) p = map_sum (live_in p) (cs_contexts s)"
    "cs_activeCount s = map_sum live_one (cs_contexts s)" using c(1) by (simp_all add: counts_exact_def)
  ultimately show ?thesis using c(3) by (simp add: a b dead_count_def)
qed

lemma context_counts_exact_witness:
  "partition_count (cs_activeByPartition (ctx_op_step (CreateCtx ''ctx_a'' demo_ctx 0 1) demo_store)) (activePartition demo_ctx) \<le> 1"
  using context_counts_exact [OF ctx_demo_reach, of "activePartition demo_ctx"]
  by (simp add: create_ctx_def Let_def demo_store_def new_ctx_store_def sweep_ctx_def surplus_def tombstones_def at_least_one_def)

text \<open>C28. A context that was closed, lost or expired by a call is never served again: however the store is used
  afterwards, \<open>get\<close> refuses its handle with an error.\<close>

theorem ended_context_never_served:
  assumes "reach ctx_start ctx_step s" "map_get (cs_contexts s) h \<noteq> None" "ends h op" "ctx_step s op t"
    and "runs ctx_step t ops u" "\<not> list_ex (creates h) ops" "nonEmptyText v = Some h"
  shows "\<exists>e. snd (get_ctx v now u) = Inl e"
proof -
  have s: "ctx_sound s" by (rule contexts.reach_inv [OF assms(1)])
  then have t: "ctx_sound t" by (rule ctx_step_sound [OF _ assms(4)])
  have "ctx_inv u" using contexts.runs_inv [OF t assms(5)] by (simp add: ctx_sound_def)
  moreover have "dead_handle h u" by (rule dead_runs [OF t dead_after_end [OF s assms(3,2,4)] assms(5,6)])
  ultimately show ?thesis by (rule dead_get [OF _ _ assms(7)])
qed

lemma ended_context_never_served_witness:
  "\<exists>e. snd (get_ctx (JStr ''ctx_a'') 7 (ctx_op_step (CloseCtx ''ctx_a'' 2 2) (ctx_op_step (CreateCtx ''ctx_a'' demo_ctx 0 1) demo_store))) = Inl e"
proof (rule ended_context_never_served [OF ctx_demo_reach, of "''ctx_a''" "CloseCtx ''ctx_a'' 2 2" _ "[]"])
  show "map_get (cs_contexts (ctx_op_step (CreateCtx ''ctx_a'' demo_ctx 0 1) demo_store)) ''ctx_a'' \<noteq> None"
    by (simp add: create_ctx_def Let_def demo_store_def new_ctx_store_def sweep_ctx_def surplus_def tombstones_def at_least_one_def partition_count_def)
  show "nonEmptyText (JStr ''ctx_a'') = Some ''ctx_a''" by code_simp
qed (simp_all add: ctx_step_def)

text \<open>The calls that leave a context to its lifetime.\<close>

fun leaves_alone :: "string \<Rightarrow> int \<Rightarrow> ctx_op \<Rightarrow> bool" where
  "leaves_alone h due (CreateCtx k i t1 t2) = (k \<noteq> h \<and> t1 < due)"
| "leaves_alone h due (GetCtx v now) = (now < due)"
| "leaves_alone h due (MarkLost k r t1 t2) = (k \<noteq> h \<and> t2 < due)"
| "leaves_alone h due (ExpireCtx k t1 t2) = (k \<noteq> h \<and> t2 < due)"
| "leaves_alone h due (CloseCtx k t1 t2) = (k \<noteq> h \<and> t2 < due)"
| "leaves_alone h due (SweepCtx now) = (now < due)"

definition serving :: "string \<Rightarrow> bctx \<Rightarrow> ctx_store \<Rightarrow> bool" where
  "serving h c s \<longleftrightarrow> map_get (cs_contexts s) h = Some c \<and> ctx_live (bc_state c)"

lemma serving_sweep: "ctx_inv s \<Longrightarrow> serving h c s \<Longrightarrow> now < bc_createdAt c + cs_lifetimeMs s \<Longrightarrow> serving h c (sweep_ctx now s)"
  using sweep_keeps_live by (auto simp: serving_def)

lemma end_context_config [simp]: "cs_lifetimeMs (end_context k d e s) = cs_lifetimeMs s"
  by (simp add: end_context_def)

lemma serving_transition:
  assumes "ctx_sound s" "ctx_terminal state" "serving h c s" "k \<noteq> h" "t2 < bc_createdAt c + cs_lifetimeMs s"
  shows "serving h c (fst (ctx_transition k state r t1 t2 s)) \<and> cs_lifetimeMs (fst (ctx_transition k state r t1 t2 s)) = cs_lifetimeMs s"
proof (cases "map_of (cs_contexts s) k")
  case None
  then show ?thesis using assms(3) by (simp add: ctx_transition_def)
next
  case (Some d)
  have "serving h c (end_context k d (ended d state r t1) s)" using assms(3,4) by (simp add: serving_def end_context_lookup)
  then have "serving h c (sweep_ctx t2 (end_context k d (ended d state r t1) s))"
    using transition_inv(1) [OF assms(1) Some assms(2)] assms(5) by (intro serving_sweep) simp_all
  then show ?thesis by (simp add: transition_some [OF Some assms(2)])
qed

lemma serving_create:
  assumes "ctx_sound s" "serving h c s" "k \<noteq> h" "t1 < bc_createdAt c + cs_lifetimeMs s"
  shows "serving h c (fst (create_ctx k i t1 t2 s)) \<and> cs_lifetimeMs (fst (create_ctx k i t1 t2 s)) = cs_lifetimeMs s"
proof -
  have w: "serving h c (sweep_ctx t1 s)" using assms by (intro serving_sweep) (simp_all add: ctx_sound_def)
  show ?thesis
    by (cases rule: create_cases [of k i t1 t2 s]) (use w assms(3) in \<open>simp_all add: serving_def add_context_def\<close>)
qed

lemma serving_step:
  assumes "ctx_sound s" "serving h c s" "ctx_step s op t" "leaves_alone h (bc_createdAt c + cs_lifetimeMs s) op"
  shows "serving h c t \<and> cs_lifetimeMs t = cs_lifetimeMs s"
proof -
  have w: "now < bc_createdAt c + cs_lifetimeMs s \<Longrightarrow> serving h c (sweep_ctx now s)" for now
    using assms(1,2) serving_sweep by (simp add: ctx_sound_def)
  show ?thesis using assms(3,4)
    by (cases op) (simp_all add: ctx_step_def ctx_ops Let_def w serving_transition [OF assms(1) _ assms(2)] serving_create [OF assms(1,2)])
qed

lemma serving_runs:
  "ctx_sound s \<Longrightarrow> serving h c s \<Longrightarrow> runs ctx_step s ops t \<Longrightarrow> list_all (leaves_alone h (bc_createdAt c + cs_lifetimeMs s)) ops \<Longrightarrow>
   ctx_sound t \<and> serving h c t \<and> cs_lifetimeMs t = cs_lifetimeMs s"
proof (induction ops arbitrary: s)
  case (Cons e es)
  then obtain u where u: "ctx_step s e u" "runs ctx_step u es t" by auto
  have "ctx_sound u" using Cons.prems(1) u(1) ctx_step_sound by blast
  moreover have "serving h c u \<and> cs_lifetimeMs u = cs_lifetimeMs s" using Cons.prems u(1) serving_step by simp
  ultimately show ?case using Cons.IH [of u] u(2) Cons.prems(4) by simp
qed simp

lemma serving_get:
  "ctx_inv s \<Longrightarrow> serving h c s \<Longrightarrow> nonEmptyText v = Some h \<Longrightarrow> now < bc_createdAt c + cs_lifetimeMs s \<Longrightarrow> snd (get_ctx v now s) = Inr c"
  using serving_sweep [of s h c now] terminal_not_live by (auto simp: get_ctx_def Let_def serving_def)

lemma serving_after_create: "snd (create_ctx h i t1 t2 s) = Inr c \<Longrightarrow>
  serving h c (fst (create_ctx h i t1 t2 s)) \<and> bc_createdAt c = t2 \<and> cs_lifetimeMs (fst (create_ctx h i t1 t2 s)) = cs_lifetimeMs s"
  by (cases rule: create_cases [of h i t1 t2 s]) (auto simp: serving_def add_context_def)

text \<open>A context that was created is served, unchanged, until its lifetime is over, whatever other contexts do: as
  long as no call ends it and the clock of the calls stays before the end of its lifetime.\<close>

lemma live_context_served:
  assumes "reach ctx_start ctx_step s" "map_get (cs_contexts s) h = None" "create_ctx h i t1 t2 s = (t, Inr c)"
    and "runs ctx_step t ops u" "list_all (leaves_alone h (t2 + cs_lifetimeMs s)) ops"
    and "nonEmptyText v = Some h" "now < t2 + cs_lifetimeMs s"
  shows "snd (get_ctx v now u) = Inr c"
proof -
  have t: "serving h c t" "bc_createdAt c = t2" "cs_lifetimeMs t = cs_lifetimeMs s" using serving_after_create [of h i t1 t2 s c] assms(3) by auto
  have "ctx_sound t" using create_sound [OF contexts.reach_inv [OF assms(1)] assms(2)] assms(3) by (metis fst_conv)
  then have "ctx_sound u \<and> serving h c u \<and> cs_lifetimeMs u = cs_lifetimeMs t"
    using serving_runs [OF _ t(1) assms(4)] assms(5) t by simp
  then have u: "ctx_inv u" "serving h c u" "cs_lifetimeMs u = cs_lifetimeMs s" using t by (simp_all add: ctx_sound_def)
  show ?thesis by (rule serving_get [OF u(1,2) assms(6)]) (simp add: u(3) t(2) assms(7))
qed

lemma demo_create: "\<exists>c. create_ctx ''ctx_b'' (demo_ctx\<lparr>bc_tenant := ''u''\<rparr>) 2 3 (ctx_op_step (CreateCtx ''ctx_a'' demo_ctx 0 1) demo_store)
  = (ctx_op_step (CreateCtx ''ctx_b'' (demo_ctx\<lparr>bc_tenant := ''u''\<rparr>) 2 3) (ctx_op_step (CreateCtx ''ctx_a'' demo_ctx 0 1) demo_store), Inr c)"
  by (simp add: create_ctx_def Let_def demo_store_def demo_ctx_def new_ctx_store_def sweep_ctx_def surplus_def tombstones_def at_least_one_def
      partition_count_def activePartition_def sweep_one_def expire_overdue_def drop_tombstone_def)

lemma live_context_served_witness:
  "\<exists>c. snd (get_ctx (JStr ''ctx_b'') 900 (ctx_op_step (CreateCtx ''ctx_b'' (demo_ctx\<lparr>bc_tenant := ''u''\<rparr>) 2 3)
    (ctx_op_step (CreateCtx ''ctx_a'' demo_ctx 0 1) demo_store))) = Inr c"
proof -
  let ?s = "ctx_op_step (CreateCtx ''ctx_a'' demo_ctx 0 1) demo_store"
  obtain c where c: "create_ctx ''ctx_b'' (demo_ctx\<lparr>bc_tenant := ''u''\<rparr>) 2 3 ?s =
    (ctx_op_step (CreateCtx ''ctx_b'' (demo_ctx\<lparr>bc_tenant := ''u''\<rparr>) 2 3) ?s, Inr c)" using demo_create by blast
  have m: "map_get (cs_contexts ?s) ''ctx_b'' = None" "cs_lifetimeMs ?s = 1000"
    by (simp_all add: create_ctx_def Let_def demo_store_def new_ctx_store_def sweep_ctx_def surplus_def tombstones_def at_least_one_def partition_count_def)
  have "nonEmptyText (JStr ''ctx_b'') = Some ''ctx_b''" by code_simp
  then show ?thesis using live_context_served [OF ctx_demo_reach m(1) c runs_Nil, of "JStr ''ctx_b''" 900] m(2) by auto
qed

end
