(* ===== verification/OutboundHost.thy ===== *)
theory OutboundHost
  imports Json "HOL-Library.Word"
begin

unbundle bit_operations_syntax

text \<open>
  Classification of outbound hosts (\<open>packages/foundation/src/security/outbound-host-classifier.ts\<close>), the ground of
  the protection against requests to internal addresses.  An IPv4 octet is an \<open>8 word\<close>, a group of an IPv6 address a
  \<open>16 word\<close>.  The specification reads addresses as words of 32 and 128 bits and asks which address block they are in.
\<close>

section \<open>Texts of numbers\<close>

text \<open>\<open>Number(part)\<close>, where it is an integer between 0 and 255, for a part without a point: blanks are trimmed, the
  empty text is 0, a prefix chooses base 16, 8 or 2, and a decimal literal may have a sign and an exponent.  A decimal
  value is rounded to the nearest double, so it counts as the integer \<open>n\<close> when it is within half the distance to the
  neighbours of \<open>n\<close>; the distances are in units of \<open>2 ^ - 54\<close>.\<close>

fun digit_value :: "nat \<Rightarrow> char \<Rightarrow> nat option" where
  "digit_value base c =
     (let n = of_char c :: nat;
          v = (if 48 \<le> n \<and> n \<le> 57 then n - 48 else if 97 \<le> n \<and> n \<le> 122 then n - 87
               else if 65 \<le> n \<and> n \<le> 90 then n - 55 else 99)
      in if v < base then Some v else None)"

fun digits_value :: "nat \<Rightarrow> nat \<Rightarrow> string \<Rightarrow> nat option" where
  "digits_value base acc [] = Some acc"
| "digits_value base acc (c # cs) =
     (case digit_value base c of None \<Rightarrow> None | Some d \<Rightarrow> digits_value base (acc * base + d) cs)"

definition unsigned_value :: "nat \<Rightarrow> string \<Rightarrow> nat option" where
  "unsigned_value base s = (if s = [] then None else digits_value base 0 s)"

fun power_below :: "nat \<Rightarrow> nat" where
  "power_below n = (if n < 2 then 1 else 2 * power_below (n div 2))"

definition scaled_le :: "nat \<Rightarrow> nat \<Rightarrow> int \<Rightarrow> nat \<Rightarrow> bool" where
  "scaled_le a m e k = (if 0 \<le> e then a \<le> m * 10 ^ nat e * k else a * 10 ^ nat (- e) \<le> m * k)"

definition le_scaled :: "nat \<Rightarrow> int \<Rightarrow> nat \<Rightarrow> nat \<Rightarrow> bool" where
  "le_scaled m e k a = (if 0 \<le> e then m * 10 ^ nat e * k \<le> a else m * k \<le> a * 10 ^ nat (- e))"

definition rounds_to :: "nat \<Rightarrow> nat \<Rightarrow> int \<Rightarrow> bool" where
  "rounds_to n m e =
     (if n = 0 then le_scaled m e (2 ^ 1075) 1
      else (let p = power_below n; low = (if n = p then p else 2 * p)
            in scaled_le (n * 2 ^ 54 - low) m e (2 ^ 54) \<and> le_scaled m e (2 ^ 54) (n * 2 ^ 54 + 2 * p)))"

definition is_exponent_mark :: "char \<Rightarrow> bool" where
  "is_exponent_mark c = (c = CHR ''e'' \<or> c = CHR ''E'')"

definition exponent_value :: "string \<Rightarrow> int option" where
  "exponent_value s =
     (case s of
        CHR ''-'' # r \<Rightarrow> map_option (\<lambda>n. - int n) (unsigned_value 10 r)
      | CHR ''+'' # r \<Rightarrow> map_option int (unsigned_value 10 r)
      | _ \<Rightarrow> map_option int (unsigned_value 10 s))"

definition decimal_octet :: "bool \<Rightarrow> string \<Rightarrow> 8 word option" where
  "decimal_octet negative s =
     (let m = takeWhile (\<lambda>c. \<not> is_exponent_mark c) s; r = dropWhile (\<lambda>c. \<not> is_exponent_mark c) s
      in case (unsigned_value 10 m, if r = [] then Some 0 else exponent_value (tl r)) of
           (Some n, Some e) \<Rightarrow> map_option of_nat (find (\<lambda>k. rounds_to k n e) (if negative then [0] else [0..<256]))
         | _ \<Rightarrow> None)"

definition radix_octet :: "nat \<Rightarrow> string \<Rightarrow> 8 word option" where
  "radix_octet base s =
     (case unsigned_value base s of None \<Rightarrow> None | Some n \<Rightarrow> if n < 256 then Some (of_nat n) else None)"

definition number_octet :: "string \<Rightarrow> 8 word option" where
  "number_octet part =
     (case js_trim part of
        [] \<Rightarrow> Some 0
      | c # cs \<Rightarrow>
          if c = CHR ''0'' \<and> cs \<noteq> [] \<and> hd cs \<in> {CHR ''x'', CHR ''X''} then radix_octet 16 (tl cs)
          else if c = CHR ''0'' \<and> cs \<noteq> [] \<and> hd cs \<in> {CHR ''o'', CHR ''O''} then radix_octet 8 (tl cs)
          else if c = CHR ''0'' \<and> cs \<noteq> [] \<and> hd cs \<in> {CHR ''b'', CHR ''B''} then radix_octet 2 (tl cs)
          else if c = CHR ''-'' then decimal_octet True cs
          else if c = CHR ''+'' then decimal_octet False cs
          else decimal_octet False (c # cs))"

text \<open>\<open>n.toString(16)\<close> and \<open>parseInt(part, 16)\<close> of a part that was matched against one to four hexadecimal digits.\<close>

fun show_hex :: "nat \<Rightarrow> string" where
  "show_hex n = (if n < 16 then [hex_digit n] else show_hex (n div 16) @ [hex_digit (n mod 16)])"

declare show_hex.simps [simp del] power_below.simps [simp del]

definition is_lower_hex :: "char \<Rightarrow> bool" where
  "is_lower_hex c = (let n = of_char c :: nat in 48 \<le> n \<and> n \<le> 57 \<or> 97 \<le> n \<and> n \<le> 102)"

definition is_hextet :: "string \<Rightarrow> bool" where
  "is_hextet s = (1 \<le> length s \<and> length s \<le> 4 \<and> list_all is_lower_hex s)"

definition read_hex :: "string \<Rightarrow> nat" where
  "read_hex s = foldl (\<lambda>a c. 16 * a + unhex c) 0 s"

section \<open>IPv4\<close>

datatype address_category =
    Benchmark | CarrierGradeNat | CloudMetadata | Hostname | Invalid | LinkLocal | Loopback | Multicast
  | Private | Public | Reserved | Unspecified

datatype host_kind = KHostname | KIpv4 | KIpv6 | KMissing

type_synonym quad = "8 word \<times> 8 word \<times> 8 word \<times> 8 word"

definition ipv4Parts :: "string \<Rightarrow> quad option" where
  "ipv4Parts s =
     (case map number_octet (split_on CHR ''.'' s) of
        [Some a, Some b, Some c, Some d] \<Rightarrow> Some (a, b, c, d)
      | _ \<Rightarrow> None)"

definition quad_category :: "quad \<Rightarrow> address_category" where
  "quad_category q =
     (case q of (a, b, c, d) \<Rightarrow>
        if a = 0 then Unspecified
        else if a = 10 then Private
        else if a = 127 then Loopback
        else if a = 169 \<and> b = 254 then LinkLocal
        else if a = 172 \<and> 16 \<le> b \<and> b \<le> 31 then Private
        else if a = 192 \<and> b = 168 then Private
        else if a = 100 \<and> 64 \<le> b \<and> b \<le> 127 then CarrierGradeNat
        else if a = 198 \<and> (b = 18 \<or> b = 19) then Benchmark
        else if 224 \<le> a \<and> a \<le> 239 then Multicast
        else if 240 \<le> a then Reserved
        else Public)"

definition ipv4RangeCategory :: "string \<Rightarrow> address_category option" where
  "ipv4RangeCategory s = map_option quad_category (ipv4Parts s)"

section \<open>IPv6\<close>

text \<open>\<open>s.split("::")\<close>.\<close>

fun split_double :: "string \<Rightarrow> string list" where
  "split_double [] = [[]]"
| "split_double [c] = [[c]]"
| "split_double (c # d # cs) =
     (if c = CHR '':'' \<and> d = CHR '':'' then [] # split_double cs
      else (case split_double (d # cs) of [] \<Rightarrow> [[c]] | y # ys \<Rightarrow> (c # y) # ys))"

text \<open>A part of the tail: a dotted IPv4 address gives two groups.\<close>

definition pair_hex :: "8 word \<Rightarrow> 8 word \<Rightarrow> string" where
  "pair_hex a b = show_hex (unat (push_bit 8 (ucast a) OR ucast b :: 16 word))"

definition expand_part :: "string \<Rightarrow> string list option" where
  "expand_part part =
     (if CHR ''.'' \<in> set part
      then (case ipv4Parts part of None \<Rightarrow> None | Some (a, b, c, d) \<Rightarrow> Some [pair_hex a b, pair_hex c d])
      else Some [part])"

fun expand_parts :: "string list \<Rightarrow> string list option" where
  "expand_parts [] = Some []"
| "expand_parts (p # ps) =
     (case expand_part p of None \<Rightarrow> None
      | Some xs \<Rightarrow> (case expand_parts ps of None \<Rightarrow> None | Some ys \<Rightarrow> Some (xs @ ys)))"

definition colon_parts :: "string \<Rightarrow> string list" where
  "colon_parts s = (if s = [] then [] else filter (\<lambda>p. p \<noteq> []) (split_on CHR '':'' s))"

definition group_value :: "string \<Rightarrow> 16 word" where
  "group_value p = of_nat (read_hex p)"

definition fill_groups :: "bool \<Rightarrow> string list \<Rightarrow> string list \<Rightarrow> 16 word list option" where
  "fill_groups compressed head tail =
     (if 8 < length head + length tail \<or> \<not> compressed \<and> length head + length tail \<noteq> 8 then None
      else (let parts = head @ replicate (8 - length head - length tail) ''0'' @ tail
            in if length parts \<noteq> 8 \<or> \<not> list_all is_hextet parts then None else Some (map group_value parts)))"

definition expandIpv6 :: "string \<Rightarrow> 16 word list option" where
  "expandIpv6 address =
     (let s = js_lower address
      in if CHR '':'' \<notin> set s then None
         else (case split_double s of
                 [h] \<Rightarrow> fill_groups False (colon_parts h) []
               | [h, t] \<Rightarrow> (case expand_parts (colon_parts t) of None \<Rightarrow> None | Some tail \<Rightarrow> fill_groups True (colon_parts h) tail)
               | _ \<Rightarrow> None))"

definition ipv6BigInt :: "16 word list \<Rightarrow> nat" where
  "ipv6BigInt gs = foldl (\<lambda>acc p. acc * 65536 + unat p) 0 gs"

definition dottedQuad :: "16 word \<Rightarrow> 16 word \<Rightarrow> 16 word \<Rightarrow> 16 word \<Rightarrow> string" where
  "dottedQuad a b c d = join ''.'' (map (\<lambda>x. show_nat (unat x)) [a, b, c, d])"

text \<open>The IPv4 address that an IPv6 address embeds; \<open>parts[i] ?? 0\<close> of the code is in range, as there are eight groups.\<close>

definition high_octet :: "16 word \<Rightarrow> 16 word" where
  "high_octet g = drop_bit 8 g"

definition low_octet :: "16 word \<Rightarrow> 16 word" where
  "low_octet g = g AND 255"

definition ipv4EmbeddedInIpv6 :: "16 word list \<Rightarrow> string option" where
  "ipv4EmbeddedInIpv6 g =
     (if list_all (\<lambda>x. x = 0) (take 5 g) \<and> g ! 5 = 0xffff
      then Some (dottedQuad (high_octet (g ! 6)) (low_octet (g ! 6)) (high_octet (g ! 7)) (low_octet (g ! 7)))
      else if g ! 0 = 0x64 \<and> g ! 1 = 0xff9b \<and> list_all (\<lambda>x. x = 0) (drop 2 (take 6 g))
      then Some (dottedQuad (high_octet (g ! 6)) (low_octet (g ! 6)) (high_octet (g ! 7)) (low_octet (g ! 7)))
      else if g ! 0 = 0x64 \<and> g ! 1 = 0xff9b \<and> g ! 2 = 1
      then (if high_octet (g ! 4) \<noteq> 0 \<or> low_octet (g ! 5) \<noteq> 0 \<or> g ! 6 \<noteq> 0 \<or> g ! 7 \<noteq> 0 then Some ''0.0.0.0''
            else Some (dottedQuad (high_octet (g ! 3)) (low_octet (g ! 3)) (low_octet (g ! 4)) (high_octet (g ! 5))))
      else if g ! 0 = 0x2002
      then Some (dottedQuad (high_octet (g ! 1)) (low_octet (g ! 1)) (high_octet (g ! 2)) (low_octet (g ! 2)))
      else None)"

definition groups_category :: "16 word list \<Rightarrow> address_category option" where
  "groups_category g =
     (if ipv6BigInt g = 0 then Some Unspecified
      else if ipv6BigInt g = 1 then Some Loopback
      else if g ! 0 AND 0xfe00 = 0xfc00 then Some Private
      else if g ! 0 AND 0xffc0 = 0xfe80 then Some LinkLocal
      else if g ! 0 AND 0xff00 = 0xff00 then Some Multicast
      else (case ipv4EmbeddedInIpv6 g of Some s \<Rightarrow> ipv4RangeCategory s | None \<Rightarrow> Some Public))"

definition ipv6RangeCategory :: "string \<Rightarrow> address_category option" where
  "ipv6RangeCategory s = (case expandIpv6 s of None \<Rightarrow> None | Some g \<Rightarrow> groups_category g)"

section \<open>Hosts\<close>

definition normalizeOutboundHost :: "string \<Rightarrow> string" where
  "normalizeOutboundHost v =
     (let s = js_lower (js_trim v);
          t = (case s of c # cs \<Rightarrow> if c = CHR ''['' then cs else s | [] \<Rightarrow> [])
      in if t \<noteq> [] \<and> last t = CHR '']'' then butlast t else t)"

definition cloud_metadata_hosts :: "string list" where
  "cloud_metadata_hosts = [''instance-data.ec2.internal'', ''metadata.google.internal'', ''metadata.goog'']"

definition cloud_metadata_ipv4 :: "string list" where
  "cloud_metadata_ipv4 = [''169.254.169.254'', ''169.254.170.2'', ''169.254.170.23'']"

definition aws_metadata_ipv6 :: nat where
  "aws_metadata_ipv6 = 0xfd000ec2000000000000000000000254"

definition cloudMetadataEndpoint :: "string \<Rightarrow> bool" where
  "cloudMetadataEndpoint host =
     (let s = normalizeOutboundHost host
      in s \<in> set cloud_metadata_hosts \<or> s \<in> set cloud_metadata_ipv4
         \<or> (case expandIpv6 s of None \<Rightarrow> False | Some g \<Rightarrow> ipv6BigInt g = aws_metadata_ipv6))"

definition ipVersion :: "string \<Rightarrow> nat" where
  "ipVersion s = (if ipv4Parts s \<noteq> None then 4 else if expandIpv6 s \<noteq> None then 6 else 0)"

record host_class =
  hc_host :: string
  hc_kind :: host_kind
  hc_category :: address_category
  hc_restricted :: bool
  hc_metadata :: bool

definition or_invalid :: "address_category option \<Rightarrow> address_category" where
  "or_invalid c = (case c of None \<Rightarrow> Invalid | Some x \<Rightarrow> x)"

definition literal_class :: "string \<Rightarrow> host_kind \<Rightarrow> address_category \<Rightarrow> host_class" where
  "literal_class s k c = \<lparr>hc_host = s, hc_kind = k, hc_category = c, hc_restricted = (c \<noteq> Public), hc_metadata = cloudMetadataEndpoint s\<rparr>"

definition classifyOutboundHost :: "string \<Rightarrow> host_class" where
  "classifyOutboundHost host =
     (let s = normalizeOutboundHost host
      in if s = [] then \<lparr>hc_host = [], hc_kind = KMissing, hc_category = Invalid, hc_restricted = True, hc_metadata = False\<rparr>
         else if s \<in> set cloud_metadata_hosts
         then \<lparr>hc_host = s, hc_kind = KHostname, hc_category = CloudMetadata, hc_restricted = True, hc_metadata = True\<rparr>
         else if s = ''localhost'' \<or> ends_with s ''.localhost''
         then \<lparr>hc_host = s, hc_kind = KHostname, hc_category = Loopback, hc_restricted = True, hc_metadata = False\<rparr>
         else if ipVersion s = 4 then literal_class s KIpv4 (or_invalid (ipv4RangeCategory s))
         else if ipVersion s = 6 then literal_class s KIpv6 (or_invalid (ipv6RangeCategory s))
         else \<lparr>hc_host = s, hc_kind = KHostname, hc_category = Hostname, hc_restricted = False, hc_metadata = False\<rparr>)"

section \<open>Address blocks\<close>

text \<open>The specification: an address is a word, a block of addresses is a prefix, and the category of an IPv4 address is
  that of the first block of the table that holds it.\<close>

definition in_block :: "'a::len word \<Rightarrow> nat \<Rightarrow> 'a word \<Rightarrow> bool" where
  "in_block net n a = (drop_bit (LENGTH('a) - n) a = drop_bit (LENGTH('a) - n) net)"

definition ipv4_blocks :: "(32 word \<times> nat \<times> address_category) list" where
  "ipv4_blocks =
     [(0x00000000, 8, Unspecified), (0x0A000000, 8, Private), (0x7F000000, 8, Loopback), (0xA9FE0000, 16, LinkLocal),
      (0xAC100000, 12, Private), (0xC0A80000, 16, Private), (0x64400000, 10, CarrierGradeNat), (0xC6120000, 15, Benchmark),
      (0xE0000000, 4, Multicast), (0xF0000000, 4, Reserved)]"

definition ipv4_category :: "32 word \<Rightarrow> address_category" where
  "ipv4_category a =
     (case find (\<lambda>(net, n, c). in_block net n a) ipv4_blocks of None \<Rightarrow> Public | Some (net, n, c) \<Rightarrow> c)"

definition quad_addr :: "quad \<Rightarrow> 32 word" where
  "quad_addr q = (case q of (a, b, c, d) \<Rightarrow> of_nat (((unat a * 256 + unat b) * 256 + unat c) * 256 + unat d))"

lemma in_block_iff: "in_block net n (a :: 'a::len word) \<longleftrightarrow> unat a div 2 ^ (LENGTH('a) - n) = unat net div 2 ^ (LENGTH('a) - n)"
  unfolding in_block_def word_unat_eq_iff unat_drop_bit_eq unfolding drop_bit_eq_div ..

lemma unat_octet: "unat (a :: 8 word) < 256"
proof -
  have "(unsigned a :: nat) < 2 ^ LENGTH(8)" by (rule unsigned_less)
  then show ?thesis by simp
qed

lemma unat_quad_addr: "unat (quad_addr (a, b, c, d)) = ((unat a * 256 + unat b) * 256 + unat c) * 256 + unat d"
proof -
  have "((unat a * 256 + unat b) * 256 + unat c) * 256 + unat d < 2 ^ LENGTH(32)"
    using unat_octet [of a] unat_octet [of b] unat_octet [of c] unat_octet [of d] by simp
  then show ?thesis unfolding quad_addr_def prod.case unat_of_nat by (rule mod_less)
qed

lemma quad_addr_div:
  "unat (quad_addr (a, b, c, d)) div 2 ^ 24 = unat a"
  "unat (quad_addr (a, b, c, d)) div 2 ^ 16 = unat a * 256 + unat b"
proof -
  have "unat c * 256 + unat d < 65536" using unat_octet [of c] unat_octet [of d] by simp
  moreover have "unat (quad_addr (a, b, c, d)) = (unat a * 256 + unat b) * 65536 + (unat c * 256 + unat d)"
    by (simp add: unat_quad_addr)
  ultimately show b: "unat (quad_addr (a, b, c, d)) div 2 ^ 16 = unat a * 256 + unat b" by simp
  have "unat (quad_addr (a, b, c, d)) div 2 ^ 24 = (unat (quad_addr (a, b, c, d)) div 2 ^ 16) div 2 ^ 8"
    by (simp add: div_mult2_eq [symmetric])
  then show "unat (quad_addr (a, b, c, d)) div 2 ^ 24 = unat a" using b unat_octet [of b] by simp
qed

lemma quad_in_block:
  "in_block net 8 (quad_addr (a, b, c, d)) \<longleftrightarrow> unat a = unat net div 2 ^ 24"
  "in_block net 16 (quad_addr (a, b, c, d)) \<longleftrightarrow> unat a * 256 + unat b = unat net div 2 ^ 16"
  "in_block net 12 (quad_addr (a, b, c, d)) \<longleftrightarrow> (unat a * 256 + unat b) div 16 = unat net div 2 ^ 20"
  "in_block net 10 (quad_addr (a, b, c, d)) \<longleftrightarrow> (unat a * 256 + unat b) div 64 = unat net div 2 ^ 22"
  "in_block net 15 (quad_addr (a, b, c, d)) \<longleftrightarrow> (unat a * 256 + unat b) div 2 = unat net div 2 ^ 17"
  "in_block net 4 (quad_addr (a, b, c, d)) \<longleftrightarrow> unat a div 16 = unat net div 2 ^ 28"
proof -
  let ?n = "unat (quad_addr (a, b, c, d))"
  have "?n div 2 ^ 20 = ?n div 2 ^ 16 div 16" "?n div 2 ^ 22 = ?n div 2 ^ 16 div 64" "?n div 2 ^ 17 = ?n div 2 ^ 16 div 2"
    "?n div 2 ^ 28 = ?n div 2 ^ 24 div 16"
    by (simp_all add: div_mult2_eq [symmetric])
  note d = this [unfolded quad_addr_div]
  show "in_block net 8 (quad_addr (a, b, c, d)) \<longleftrightarrow> unat a = unat net div 2 ^ 24"
    "in_block net 16 (quad_addr (a, b, c, d)) \<longleftrightarrow> unat a * 256 + unat b = unat net div 2 ^ 16"
    using quad_addr_div [of a b c d] by (simp_all add: in_block_iff)
  show "in_block net 12 (quad_addr (a, b, c, d)) \<longleftrightarrow> (unat a * 256 + unat b) div 16 = unat net div 2 ^ 20"
    "in_block net 10 (quad_addr (a, b, c, d)) \<longleftrightarrow> (unat a * 256 + unat b) div 64 = unat net div 2 ^ 22"
    "in_block net 15 (quad_addr (a, b, c, d)) \<longleftrightarrow> (unat a * 256 + unat b) div 2 = unat net div 2 ^ 17"
    "in_block net 4 (quad_addr (a, b, c, d)) \<longleftrightarrow> unat a div 16 = unat net div 2 ^ 28"
    using d by (simp_all add: in_block_iff)
qed

lemma quad_category_unat:
  "quad_category (a, b, c, d) =
     (let x = unat a; y = unat b in
      if x = 0 then Unspecified
      else if x = 10 then Private
      else if x = 127 then Loopback
      else if x = 169 \<and> y = 254 then LinkLocal
      else if x = 172 \<and> 16 \<le> y \<and> y \<le> 31 then Private
      else if x = 192 \<and> y = 168 then Private
      else if x = 100 \<and> 64 \<le> y \<and> y \<le> 127 then CarrierGradeNat
      else if x = 198 \<and> (y = 18 \<or> y = 19) then Benchmark
      else if 224 \<le> x \<and> x \<le> 239 then Multicast
      else if 240 \<le> x then Reserved
      else Public)"
  unfolding quad_category_def by (simp add: word_unat_eq_iff word_le_nat_alt Let_def)

lemma digit_eq: "z < k \<Longrightarrow> r < k \<Longrightarrow> x * k + z = q * k + r \<longleftrightarrow> x = q \<and> z = r" for k :: nat
proof
  assume zr: "z < k" "r < k" and e: "x * k + z = q * k + r"
  have "(x * k + z) div k = x" "(x * k + z) mod k = z" "(q * k + r) div k = q" "(q * k + r) mod k = r" using zr by simp_all
  then show "x = q \<and> z = r" using e by metis
qed simp

lemma div_eq_iff: "0 < k \<Longrightarrow> y div k = n \<longleftrightarrow> n * k \<le> y \<and> y < n * k + k" for k :: nat
  using div_times_less_eq_dividend [of y k] dividend_less_div_times [of k y] div_nat_eqI [of k n y] by (auto simp: ac_simps)

lemma quad_category_blocks: "quad_category q = ipv4_category (quad_addr q)"
proof -
  obtain a b c d where q: "q = (a, b, c, d)" by (cases q)
  define x y where "x = unat a" and "y = unat b"
  have xy: "x < 256" "y < 256" using unat_octet by (simp_all add: x_def y_def)
  have n: "unat (0x0A000000 :: 32 word) div 2 ^ 24 = 10" "unat (0x7F000000 :: 32 word) div 2 ^ 24 = 127"
    "unat (0xA9FE0000 :: 32 word) div 2 ^ 16 = 43518" "unat (0xAC100000 :: 32 word) div 2 ^ 20 = 2753"
    "unat (0xC0A80000 :: 32 word) div 2 ^ 16 = 49320" "unat (0x64400000 :: 32 word) div 2 ^ 22 = 401"
    "unat (0xC6120000 :: 32 word) div 2 ^ 17 = 25353" "unat (0xE0000000 :: 32 word) div 2 ^ 28 = 14"
    "unat (0xF0000000 :: 32 word) div 2 ^ 28 = 15"
    by simp_all
  have z: "unat (0 :: 32 word) div 2 ^ 24 = 0" by simp
  have e: "x * 256 + y = 43518 \<longleftrightarrow> x = 169 \<and> y = 254" "x * 256 + y = 49320 \<longleftrightarrow> x = 192 \<and> y = 168"
    using digit_eq [of y 256 254 x 169] digit_eq [of y 256 168 x 192] xy(2) by simp_all
  have d: "(x * 256 + y) div 16 = x * 16 + y div 16" "(x * 256 + y) div 64 = x * 4 + y div 64" "(x * 256 + y) div 2 = x * 128 + y div 2"
    using div_mult_self3 [of 16 "x * 16" y] div_mult_self3 [of 64 "x * 4" y] div_mult_self3 [of 2 "x * 128" y] by simp_all
  have "y div 16 < 16" "y div 64 < 4" "y div 2 < 128" using xy(2) by simp_all
  then have "x * 16 + y div 16 = 2753 \<longleftrightarrow> x = 172 \<and> y div 16 = 1" "x * 4 + y div 64 = 401 \<longleftrightarrow> x = 100 \<and> y div 64 = 1"
    "x * 128 + y div 2 = 25353 \<longleftrightarrow> x = 198 \<and> y div 2 = 9"
    using digit_eq [of "y div 16" 16 1 x 172] digit_eq [of "y div 64" 4 1 x 100] digit_eq [of "y div 2" 128 9 x 198] by simp_all
  moreover have "y div 16 = 1 \<longleftrightarrow> 16 \<le> y \<and> y \<le> 31" "y div 64 = 1 \<longleftrightarrow> 64 \<le> y \<and> y \<le> 127" "y div 2 = 9 \<longleftrightarrow> y = 18 \<or> y = 19"
    by (auto simp: div_eq_iff)
  ultimately have e2: "(x * 256 + y) div 16 = 2753 \<longleftrightarrow> x = 172 \<and> 16 \<le> y \<and> y \<le> 31"
    "(x * 256 + y) div 64 = 401 \<longleftrightarrow> x = 100 \<and> 64 \<le> y \<and> y \<le> 127" "(x * 256 + y) div 2 = 25353 \<longleftrightarrow> x = 198 \<and> (y = 18 \<or> y = 19)"
    by (simp_all only: d)
  have e6: "x div 16 = 14 \<longleftrightarrow> 224 \<le> x \<and> x \<le> 239" by (auto simp: div_eq_iff)
  have e7: "x div 16 = 15 \<longleftrightarrow> 240 \<le> x" using xy(1) by (auto simp: div_eq_iff)
  show ?thesis
    unfolding q quad_category_unat ipv4_category_def ipv4_blocks_def find.simps prod.case quad_in_block
      n z x_def [symmetric] y_def [symmetric] e e2 e6 e7 Let_def if_distrib [of "case_option Public (\<lambda>(net, n, c). c)"] option.case
    by (rule refl)
qed

section \<open>Texts of addresses\<close>

lemma is_digit_value: "is_digit c \<Longrightarrow> digit_value 10 c = Some (of_char c - 48)"
  by (auto simp: is_digit_def Let_def)

lemma digits_value_read: "list_all is_digit s \<Longrightarrow> digits_value 10 acc s = Some (foldl (\<lambda>a c. 10 * a + (of_char c - 48)) acc s)"
  by (induction s arbitrary: acc) (simp_all add: is_digit_value mult.commute del: digit_value.simps)

lemma show_nat_value: "unsigned_value 10 (show_nat n) = Some n"
proof -
  have "list_all is_digit (show_nat n)" using show_nat_digits by (simp add: list_all_iff)
  then have "digits_value 10 0 (show_nat n) = Some (read_nat (show_nat n))" by (simp add: digits_value_read read_nat_def)
  then show ?thesis using show_nat_digits [of n] by (simp add: unsigned_value_def read_show_nat)
qed

lemma power_below_le: "0 < n \<Longrightarrow> 0 < power_below n \<and> power_below n \<le> n"
proof (induction n rule: power_below.induct)
  case (1 n)
  show ?case
  proof (cases "n < 2")
    case True
    then show ?thesis using 1(2) by (simp add: power_below.simps [of n])
  next
    case False
    then have "0 < power_below (n div 2) \<and> power_below (n div 2) \<le> n div 2" using 1(1) by simp
    then have "2 * power_below (n div 2) \<le> 2 * (n div 2)" by simp
    also have "\<dots> \<le> n" by simp
    finally show ?thesis using False \<open>0 < power_below (n div 2) \<and> _\<close> by (simp add: power_below.simps [of n])
  qed
qed

lemma near_integer: "g < b \<Longrightarrow> h < b \<Longrightarrow> k * b - g \<le> n * b \<and> n * b \<le> k * b + h \<longleftrightarrow> k = n" for b :: nat
proof
  assume g: "g < b" "h < b" and e: "k * b - g \<le> n * b \<and> n * b \<le> k * b + h"
  show "k = n"
  proof (rule ccontr)
    assume "k \<noteq> n"
    then consider "Suc n \<le> k" | "Suc k \<le> n" by linarith
    then show False
    proof cases
      case 1
      then have "Suc n * b \<le> k * b" by (rule mult_le_mono1)
      then show False using g e by simp
    next
      case 2
      then have "Suc k * b \<le> n * b" by (rule mult_le_mono1)
      then show False using g e by simp
    qed
  qed
qed simp

lemma scaled_zero: "scaled_le a m 0 k \<longleftrightarrow> a \<le> m * k" "le_scaled m 0 k a \<longleftrightarrow> m * k \<le> a"
  by (simp_all add: scaled_le_def le_scaled_def)

lemma rounds_to_integer: "k < 256 \<Longrightarrow> rounds_to k n 0 \<longleftrightarrow> k = n"
proof (cases "k = 0")
  case True
  have "n * 2 ^ 1075 \<le> 1 \<longleftrightarrow> n = 0" by (cases n) simp_all
  then show ?thesis using True by (simp add: rounds_to_def le_scaled_def)
next
  case False
  assume k: "k < 256"
  let ?p = "power_below k"
  have p: "0 < ?p" "?p < 256" using power_below_le [of k] False k by auto
  define g where "g = (if k = ?p then ?p else 2 * ?p)"
  have g: "g < 2 ^ 54" using p by (simp add: g_def)
  have "rounds_to k n 0 \<longleftrightarrow> k * 2 ^ 54 - g \<le> n * 2 ^ 54 \<and> n * 2 ^ 54 \<le> k * 2 ^ 54 + 2 * ?p"
    unfolding rounds_to_def Let_def g_def scaled_zero using False by (simp only: if_False)
  also have "\<dots> \<longleftrightarrow> k = n"
  proof (rule near_integer [OF g])
    show "2 * ?p < 2 ^ 54" using p(2) by simp
  qed
  finally show ?thesis .
qed

lemma match_ws_other: "\<forall>w \<in> set ws. w \<noteq> [] \<and> hd w \<noteq> c \<Longrightarrow> match_ws ws (c # cs) = None"
  by (induction ws) (auto simp: neq_Nil_conv)

lemma space_heads: "\<forall>w \<in> set ws_chars. w \<noteq> [] \<and> \<not> is_digit (hd w) \<and> \<not> is_digit (hd (rev w))"
  by (simp add: ws_chars_def is_digit_def)

lemma digit_no_space: "is_digit c \<Longrightarrow> match_ws ws_chars (c # cs) = None \<and> match_ws (map rev ws_chars) (c # cs) = None"
  using match_ws_other [of ws_chars c cs] match_ws_other [of "map rev ws_chars" c cs] space_heads by auto

lemma trim_digits: "list_all is_digit s \<Longrightarrow> js_trim s = s"
proof -
  assume d: "list_all is_digit s"
  have a: "strip_with ws_chars s = s" using d digit_no_space by (cases s) (auto intro: strip_with_match_None)
  have "list_all is_digit (rev s)" using d by (simp add: list_all_iff)
  then have "strip_with (map rev ws_chars) (rev s) = rev s" using digit_no_space by (cases "rev s") (auto intro: strip_with_match_None)
  then show ?thesis by (simp add: js_trim_def a)
qed

lemma find_unique: "x \<in> set xs \<Longrightarrow> (\<And>y. y \<in> set xs \<Longrightarrow> P y \<longleftrightarrow> y = x) \<Longrightarrow> find P xs = Some x"
  by (induction xs) auto

lemma show_octet: "n < 256 \<Longrightarrow> number_octet (show_nat n) = Some (of_nat n)"
proof -
  assume n: "n < 256"
  let ?s = "show_nat n"
  have d: "list_all is_digit ?s" "?s \<noteq> []" using show_nat_digits by (simp_all add: list_all_iff)
  then obtain c cs where s: "?s = c # cs" by (cases ?s) auto
  have dc: "\<And>x. x \<in> set ?s \<Longrightarrow> is_digit x" using d by (simp add: list_all_iff)
  have t: "takeWhile (\<lambda>c. \<not> is_exponent_mark c) ?s = ?s" "dropWhile (\<lambda>c. \<not> is_exponent_mark c) ?s = []"
    using dc [of "CHR ''e''"] dc [of "CHR ''E''"]
    by (auto simp: takeWhile_eq_all_conv dropWhile_eq_Nil_conv is_exponent_mark_def is_digit_def)
  have "find (\<lambda>k. rounds_to k n 0) [0..<256] = Some n"
    by (rule find_unique) (use n in \<open>auto simp: rounds_to_integer\<close>)
  then have r: "decimal_octet False ?s = Some (of_nat n)" by (simp add: decimal_octet_def t show_nat_value)
  have "c \<noteq> CHR ''-''" "c \<noteq> CHR ''+''" using dc [of c] s by (auto simp: is_digit_def)
  moreover have "hd cs \<notin> {CHR ''x'', CHR ''X'', CHR ''o'', CHR ''O'', CHR ''b'', CHR ''B''}" if "cs \<noteq> []"
    using dc [of "hd cs"] s that by (auto simp: is_digit_def)
  moreover have "js_trim (c # cs) = c # cs" using trim_digits [OF d(1)] by (simp add: s)
  ultimately show ?thesis using r unfolding s number_octet_def by auto
qed

lemma digits_no_point: "CHR ''.'' \<notin> set (show_nat n)" "CHR '':'' \<notin> set (show_nat n)"
  using show_nat_digits [of n] by (auto simp: is_digit_def)

lemma dottedQuad_parts:
  assumes "unat a < 256" "unat b < 256" "unat c < 256" "unat d < 256"
  shows "ipv4Parts (dottedQuad a b c d) = Some (of_nat (unat a), of_nat (unat b), of_nat (unat c), of_nat (unat d))"
proof -
  have "split_on CHR ''.'' (dottedQuad a b c d) = map (\<lambda>x. show_nat (unat x)) [a, b, c, d]"
    by (simp add: dottedQuad_def split_on_append split_on_plain digits_no_point)
  then show ?thesis using assms by (simp add: ipv4Parts_def show_octet)
qed

lemma unat_high_octet: "unat (high_octet g) = unat g div 256"
  unfolding high_octet_def unat_drop_bit_eq unfolding drop_bit_eq_div by simp

lemma low_octet_take: "low_octet g = take_bit 8 g"
  unfolding low_octet_def take_bit_eq_mask by (simp add: mask_eq_exp_minus_1)

lemma unat_low_octet: "unat (low_octet g) = unat g mod 256"
  unfolding low_octet_take unsigned_take_bit_eq unfolding take_bit_eq_mod by simp

lemma unat_group: "unat (g :: 16 word) < 65536"
proof -
  have "(unsigned g :: nat) < 2 ^ LENGTH(16)" by (rule unsigned_less)
  then show ?thesis by simp
qed





section \<open>IPv6 addresses as words\<close>




subsection \<open>Numbers in base 65536\<close>









subsection \<open>Blocks and groups\<close>






lemma groups8: "length g = 8 \<Longrightarrow> \<exists>a b c d e f x y. g = [a, b, c, d, e, f, x, y]"
  by (simp add: length_Suc_conv numeral_eq_Suc) blast












section \<open>Reading IPv6 texts\<close>

text \<open>The usual text of groups: lower-case hexadecimal numbers without leading zeros, separated by colons.\<close>

definition group_text :: "16 word \<Rightarrow> string" where
  "group_text g = show_hex (unat g)"

definition groups_text :: "16 word list \<Rightarrow> string" where
  "groups_text gs = join '':'' (map group_text gs)"

lemma hex_digit_code: "n < 16 \<Longrightarrow> (of_char (hex_digit n) :: nat) = (if n < 10 then 48 + n else 87 + n)"
  by (simp add: hex_digit_def)

lemma show_hex_facts: "show_hex n \<noteq> [] \<and> list_all is_lower_hex (show_hex n) \<and> read_hex (show_hex n) = n"
proof (induction n rule: show_hex.induct)
  case (1 n)
  show ?case
  proof (cases "n < 16")
    case True
    then show ?thesis by (simp add: show_hex.simps [of n] is_lower_hex_def hex_digit_code read_hex_def unhex_hex_digit)
  next
    case False
    have "n mod 16 \<le> 15" by presburger
    then show ?thesis using 1 False
      by (simp add: show_hex.simps [of n] is_lower_hex_def hex_digit_code read_hex_def unhex_hex_digit)
  qed
qed

lemma show_hex_length: "n < 16 ^ k \<Longrightarrow> 0 < k \<Longrightarrow> length (show_hex n) \<le> k"
proof (induction k arbitrary: n)
  case (Suc k)
  show ?case
  proof (cases "n < 16")
    case True
    then show ?thesis by (simp add: show_hex.simps [of n])
  next
    case False
    then have "n div 16 < 16 ^ k" "0 < k" using Suc.prems by (auto simp: div_less_iff_less_mult mult.commute intro: gr0I)
    then show ?thesis using Suc.IH [of "n div 16"] False by (simp add: show_hex.simps [of n])
  qed
qed simp

lemma group_text_hextet: "is_hextet (group_text g)"
proof -
  have "length (show_hex (unat g)) \<le> 4" using show_hex_length [of "unat g" 4] unat_group [of g] by simp
  moreover have "1 \<le> length (show_hex (unat g))" using show_hex_facts [of "unat g"] by (cases "show_hex (unat g)") auto
  ultimately show ?thesis using show_hex_facts by (simp add: is_hextet_def group_text_def)
qed

lemma group_text_value: "group_value (group_text g) = g"
  using show_hex_facts [of "unat g"] by (simp add: group_value_def group_text_def)

text \<open>Characters that \<open>toLowerCase\<close> leaves alone.\<close>

definition plain_char :: "char \<Rightarrow> bool" where
  "plain_char c = (let n = of_char c :: nat in n < 65 \<or> 91 \<le> n \<and> n < 128)"

lemma lower_plain: "list_all plain_char s \<Longrightarrow> js_lower s = s"
proof (induction s)
  case (Cons c s)
  then have "\<not> starts_with (c # s) [CHR 0xE2, CHR 0x84, CHR 0xAA]" "\<not> starts_with (c # s) [CHR 0xC4, CHR 0xB0]"
    "lower_char c = c"
    by (auto simp: plain_char_def lower_char_def Let_def)
  then show ?case using Cons by (simp del: starts_with.simps)
qed simp

lemma lower_hex_plain: "is_lower_hex c \<Longrightarrow> plain_char c \<and> c \<noteq> CHR '':'' \<and> c \<noteq> CHR ''.''"
  by (auto simp: is_lower_hex_def plain_char_def Let_def)

lemma digit_plain: "is_digit c \<Longrightarrow> plain_char c \<and> c \<noteq> CHR '':''"
  by (auto simp: is_digit_def plain_char_def Let_def)

text \<open>Parts: non-empty, without colons.\<close>

definition part_ok :: "string \<Rightarrow> bool" where
  "part_ok p = (p \<noteq> [] \<and> CHR '':'' \<notin> set p \<and> list_all plain_char p)"

lemma hextet_part: "is_hextet p \<Longrightarrow> part_ok p \<and> CHR ''.'' \<notin> set p"
  using lower_hex_plain by (auto simp: is_hextet_def part_ok_def list_all_iff)

lemma split_on_join: "list_all part_ok ps \<Longrightarrow> ps \<noteq> [] \<Longrightarrow> split_on CHR '':'' (join '':'' ps) = ps"
proof (induction ps rule: induct_list012)
  case (2 x)
  then show ?case by (simp add: part_ok_def split_on_plain)
next
  case (3 x y zs)
  then show ?case by (simp add: part_ok_def split_on_append)
qed simp

lemma join_nonempty: "list_all part_ok ps \<Longrightarrow> ps \<noteq> [] \<Longrightarrow> \<exists>c cs. join '':'' ps = c # cs \<and> c \<noteq> CHR '':''"
proof (induction ps rule: induct_list012)
  case (2 x)
  then show ?case by (cases x) (auto simp: part_ok_def)
next
  case (3 x y zs)
  then show ?case by (cases x) (auto simp: part_ok_def)
qed simp

lemma colon_parts_join: "list_all part_ok ps \<Longrightarrow> colon_parts (join '':'' ps) = ps"
proof (cases "ps = []")
  case False
  assume p: "list_all part_ok ps"
  have "filter (\<lambda>p. p \<noteq> []) ps = ps" using p by (auto simp: filter_id_conv list_all_iff part_ok_def)
  then show ?thesis using split_on_join [OF p False] join_nonempty [OF p False] by (auto simp: colon_parts_def)
qed (simp add: colon_parts_def)

lemma join_plain: "list_all part_ok ps \<Longrightarrow> list_all plain_char (join '':'' ps)"
  by (induction ps rule: induct_list012) (auto simp: part_ok_def plain_char_def)

fun on_first :: "string \<Rightarrow> string list \<Rightarrow> string list" where
  "on_first p [] = [p]"
| "on_first p (y # ys) = (p @ y) # ys"

lemma split_double_not_Nil: "split_double s \<noteq> []"
  by (induction s rule: split_double.induct) (auto split: list.splits)

lemma split_double_char: "c \<noteq> CHR '':'' \<Longrightarrow> split_double (c # s) = on_first [c] (split_double s)"
  by (cases s) (auto split: list.splits)

lemma split_double_part: "CHR '':'' \<notin> set p \<Longrightarrow> split_double (p @ s) = on_first p (split_double s)"
proof (induction p)
  case Nil
  then show ?case using split_double_not_Nil [of s] by (cases "split_double s") auto
next
  case (Cons c p)
  then show ?case by (cases "split_double s") (auto simp: split_double_char)
qed

lemma split_double_one: "c \<noteq> CHR '':'' \<Longrightarrow> split_double (CHR '':'' # c # s) = on_first '':'' (split_double (c # s))"
  by (auto split: list.splits)

lemma on_first_on_first: "ys \<noteq> [] \<Longrightarrow> on_first p (on_first q ys) = on_first (p @ q) ys"
  by (cases ys) auto

lemma split_double_join:
  "list_all part_ok ps \<Longrightarrow> split_double (join '':'' ps @ s) = (if s = [] then [join '':'' ps] else on_first (join '':'' ps) (split_double s))"
proof (induction ps rule: induct_list012)
  case 1
  then show ?case using split_double_not_Nil [of s] by (cases "split_double s") auto
next
  case (2 x)
  then show ?case by (auto simp: part_ok_def split_double_part)
next
  case (3 x y zs)
  then obtain c cs where j: "join '':'' (y # zs) = c # cs" "c \<noteq> CHR '':''" using join_nonempty [of "y # zs"] by auto
  have "split_double (x @ '':'' @ join '':'' (y # zs) @ s) = on_first x (on_first '':'' (split_double (join '':'' (y # zs) @ s)))"
    using 3 j by (simp add: split_double_part part_ok_def split_double_one del: split_double.simps join.simps)
  also have "\<dots> = on_first (x @ '':'') (split_double (join '':'' (y # zs) @ s))"
    using split_double_not_Nil by (simp add: on_first_on_first)
  finally show ?case using 3 split_double_not_Nil [of s]
    by (cases "split_double s") (auto simp del: split_double.simps simp: on_first_on_first)
qed

lemma groups_parts: "list_all part_ok (map group_text gs)" "list_all is_hextet (map group_text gs)" "map group_value (map group_text gs) = gs"
  using group_text_hextet hextet_part by (simp_all add: list_all_iff group_text_value map_idI)

lemma expand_plain_parts: "\<forall>p \<in> set ps. CHR ''.'' \<notin> set p \<Longrightarrow> expand_parts ps = Some ps"
  by (induction ps) (auto simp: expand_part_def)

lemma expand_parts_append:
  "expand_parts (xs @ ys) = (case expand_parts xs of None \<Rightarrow> None | Some a \<Rightarrow> (case expand_parts ys of None \<Rightarrow> None | Some b \<Rightarrow> Some (a @ b)))"
  by (induction xs) (auto split: option.splits)

lemma group_texts_plain: "expand_parts (map group_text gs) = Some (map group_text gs)"
  using group_text_hextet hextet_part by (intro expand_plain_parts) auto

lemma fill_group_texts:
  "length h + length t \<le> 8 \<Longrightarrow> fill_groups True (map group_text h) (map group_text t) = Some (h @ replicate (8 - length h - length t) 0 @ t)"
proof -
  have "group_text 0 = ''0''" by code_simp
  then have "map group_text h @ replicate n ''0'' @ map group_text t = map group_text (h @ replicate n 0 @ t)" for n by simp
  moreover assume "length h + length t \<le> 8"
  ultimately show ?thesis using groups_parts(2,3) by (simp add: fill_groups_def Let_def group_text_value map_idI del: map_append)
qed

lemma double_in_text: "CHR '':'' \<in> set (x @ ''::'' @ y)"
  by simp

lemma expand_compressed:
  assumes "list_all part_ok hs" "list_all part_ok ts" "expand_parts ts = Some us"
  shows "expandIpv6 (join '':'' hs @ ''::'' @ join '':'' ts) = fill_groups True hs us"
proof -
  have "list_all plain_char (join '':'' hs @ ''::'' @ join '':'' ts)" using join_plain [OF assms(1)] join_plain [OF assms(2)]
    by (simp add: plain_char_def)
  note low = lower_plain [OF this]
  have t: "split_double (join '':'' ts) = [join '':'' ts]" using split_double_join [OF assms(2), of "[]"] by simp
  have "split_double (join '':'' hs @ ''::'' @ join '':'' ts) = [join '':'' hs, join '':'' ts]"
    unfolding split_double_join [OF assms(1)] by (simp add: t)
  then show ?thesis unfolding expandIpv6_def low Let_def using colon_parts_join [OF assms(1)] colon_parts_join [OF assms(2)] assms(3) by simp
qed

lemma octet_text_part: "part_ok (dottedQuad a b c d)" "CHR ''.'' \<in> set (dottedQuad a b c d)"
proof -
  have d: "c \<in> set (show_nat n) \<Longrightarrow> plain_char c \<and> c \<noteq> CHR '':''" for c n using show_nat_digits [of n] digit_plain by blast
  have p: "plain_char CHR ''.''" by (simp add: plain_char_def)
  show "part_ok (dottedQuad a b c d)" using d p show_nat_digits [of "unat a"] by (auto simp: part_ok_def dottedQuad_def list_all_iff)
  show "CHR ''.'' \<in> set (dottedQuad a b c d)" by (simp add: dottedQuad_def)
qed

definition pair_group :: "8 word \<Rightarrow> 8 word \<Rightarrow> 16 word" where
  "pair_group a b = push_bit 8 (ucast a) OR ucast b"

definition octets_text :: "quad \<Rightarrow> string" where
  "octets_text q = (case q of (a, b, c, d) \<Rightarrow> dottedQuad (ucast a) (ucast b) (ucast c) (ucast d))"

lemma octets_parts: "ipv4Parts (octets_text q) = Some q"
proof -
  obtain a b c d where q: "q = (a, b, c, d)" by (cases q)
  have u: "unat (ucast x :: 16 word) = unat x" for x :: "8 word"
    using unat_octet [of x] unfolding unsigned_ucast_eq take_bit_eq_mod by simp
  show ?thesis unfolding q octets_text_def prod.case using unat_octet by (subst dottedQuad_parts) (simp_all add: u)
qed

lemma expand_octets: "expand_parts [octets_text (a, b, c, d)] = Some (map group_text [pair_group a b, pair_group c d])"
  using octets_parts [of "(a, b, c, d)"] octet_text_part(2)
  by (simp add: expand_part_def octets_text_def pair_hex_def pair_group_def group_text_def)

lemma pair_octets: "high_octet (pair_group a b) = ucast a" "low_octet (pair_group a b) = ucast b"
  unfolding high_octet_def low_octet_take pair_group_def
  by (rule bit_eqI; auto simp: bit_simps dest: bit_imp_le_length)+

lemma unat_widen: "unat (ucast x :: 16 word) = unat x" for x :: "8 word"
  using unat_octet [of x] unfolding unsigned_ucast_eq take_bit_eq_mod by simp

lemma unat_pair: "unat (pair_group a b) = unat a * 256 + unat b"
proof -
  let ?g = "pair_group a b"
  have "unat ?g = unat ?g div 256 * 256 + unat ?g mod 256" by simp
  also have "\<dots> = unat a * 256 + unat b"
    unfolding unat_high_octet [symmetric] unat_low_octet [symmetric] pair_octets unat_widen ..
  finally show ?thesis .
qed

lemma quad_addr_pairs: "of_nat (unat (pair_group a b) * 65536 + unat (pair_group c d)) = quad_addr (a, b, c, d)"
  unfolding unat_pair quad_addr_def prod.case by (rule arg_cong [where f = of_nat]) simp

lemma octets_category: "ipv4RangeCategory (octets_text q) = Some (ipv4_category (quad_addr q))"
  by (simp add: ipv4RangeCategory_def octets_parts quad_category_blocks)

lemma local_use_octets:
  "high_octet (ucast c) = 0" "low_octet (ucast c) = ucast c" "high_octet (push_bit 8 (ucast d)) = ucast d" "low_octet (push_bit 8 (ucast d)) = 0"
  for c d :: "8 word"
  unfolding high_octet_def low_octet_take
  by (rule bit_eqI; auto simp: bit_simps dest: bit_imp_le_length)+

lemma category_when_embedded:
  assumes "ipv4EmbeddedInIpv6 g = Some s" "ipv6BigInt g \<noteq> 0" "ipv6BigInt g \<noteq> 1" "g ! 0 \<in> {0, 0x64, 0x2002}"
  shows "groups_category g = ipv4RangeCategory s"
  using assms by (auto simp: groups_category_def)

section \<open>Examples\<close>

lemma ipv4Parts_four: "ipv4Parts s = Some q \<Longrightarrow> length (split_on CHR ''.'' s) = 4 \<and> number_octet (hd (split_on CHR ''.'' s)) \<noteq> None"
  by (cases "split_on CHR ''.'' s") (auto simp: ipv4Parts_def split: list.splits option.splits)

lemma ipv4Parts_none:
  "length (split_on CHR ''.'' s) \<noteq> 4 \<Longrightarrow> ipv4Parts s = None"
  "number_octet (hd (split_on CHR ''.'' s)) = None \<Longrightarrow> ipv4Parts s = None"
  using ipv4Parts_four [of s] by (cases "ipv4Parts s"; auto)+






lemma name_like:
  assumes "normalizeOutboundHost h = h" "h \<noteq> []" "h \<notin> set cloud_metadata_hosts" "h \<noteq> ''localhost''" "\<not> ends_with h ''.localhost''"
    "ipv4Parts h = None" "expandIpv6 h = None"
  shows "classifyOutboundHost h = \<lparr>hc_host = h, hc_kind = KHostname, hc_category = Hostname, hc_restricted = False, hc_metadata = False\<rparr>"
  using assms by (simp add: classifyOutboundHost_def Let_def ipVersion_def)

lemma zone_host: "classifyOutboundHost ''fe80::1%eth0'' =
  \<lparr>hc_host = ''fe80::1%eth0'', hc_kind = KHostname, hc_category = Hostname, hc_restricted = False, hc_metadata = False\<rparr>"
proof (rule name_like)
  have "length (split_on CHR ''.'' ''fe80::1%eth0'') \<noteq> 4" by code_simp
  then show "ipv4Parts ''fe80::1%eth0'' = None" by (rule ipv4Parts_none(1))
qed code_simp+

lemma full_mapped_host: "classifyOutboundHost ''0:0:0:0:0:ffff:127.0.0.1'' =
  \<lparr>hc_host = ''0:0:0:0:0:ffff:127.0.0.1'', hc_kind = KHostname, hc_category = Hostname, hc_restricted = False, hc_metadata = False\<rparr>"
proof (rule name_like)
  have "number_octet (hd (split_on CHR ''.'' ''0:0:0:0:0:ffff:127.0.0.1'')) = None" by code_simp
  then show "ipv4Parts ''0:0:0:0:0:ffff:127.0.0.1'' = None" by (rule ipv4Parts_none(2))
qed code_simp+

lemma compatible_host: "hc_category (classifyOutboundHost ''::127.0.0.1'') = Public \<and> \<not> hc_restricted (classifyOutboundHost ''::127.0.0.1'')"
proof -
  let ?h = "''::127.0.0.1''"
  have "number_octet (hd (split_on CHR ''.'' ?h)) = None" by code_simp
  then have n: "ipv4Parts ?h = None" by (rule ipv4Parts_none(2))
  have t: "octets_text (127, 0, 0, 1) = ''127.0.0.1''" by code_simp
  have "list_all part_ok [octets_text (127, 0, 0, 1)]" using octet_text_part(1) by (simp add: octets_text_def)
  from expand_compressed [of "[]", OF _ this expand_octets] fill_group_texts [of "[]" "[pair_group 127 0, pair_group 0 1]"]
  have x: "expandIpv6 ?h = Some (replicate 6 0 @ [pair_group 127 0, pair_group 0 1])" by (simp add: t)
  have "pair_group 127 0 = 0x7F00" "pair_group 0 1 = 1" by (simp_all add: pair_group_def)
  moreover have "replicate 6 (0 :: 16 word) = [0, 0, 0, 0, 0, 0]" by (simp add: numeral_eq_Suc)
  ultimately have "expandIpv6 ?h = Some [0, 0, 0, 0, 0, 0, 0x7F00, 1]" using x by simp
  then have c: "ipv6RangeCategory ?h = Some Public"
    by (simp add: ipv6RangeCategory_def groups_category_def ipv6BigInt_def ipv4EmbeddedInIpv6_def)
  have "normalizeOutboundHost ?h = ?h" "?h \<notin> set cloud_metadata_hosts" "\<not> ends_with ?h ''.localhost''" by code_simp+
  then show ?thesis using n x c by (simp add: classifyOutboundHost_def Let_def ipVersion_def literal_class_def or_invalid_def)
qed

section \<open>Properties\<close>



text \<open>An IPv6 address that carries an IPv4 address has the category of that address: for the IPv4-mapped form, both
  translation prefixes and 6to4, whatever the address is.\<close>

lemma embedded_destination_inherited:
  fixes a b c d :: "8 word"
  shows "groups_category [0, 0, 0, 0, 0, 0xffff, pair_group a b, pair_group c d] = Some (ipv4_category (quad_addr (a, b, c, d)))
    \<and> groups_category [0x64, 0xff9b, 0, 0, 0, 0, pair_group a b, pair_group c d] = Some (ipv4_category (quad_addr (a, b, c, d)))
    \<and> groups_category [0x64, 0xff9b, 1, pair_group a b, ucast c, push_bit 8 (ucast d), 0, 0] = Some (ipv4_category (quad_addr (a, b, c, d)))
    \<and> groups_category [0x2002, pair_group a b, pair_group c d, r1, r2, r3, r4, r5] = Some (ipv4_category (quad_addr (a, b, c, d)))"
proof -
  let ?s = "octets_text (a, b, c, d)"
  have s: "dottedQuad (high_octet (pair_group a b)) (low_octet (pair_group a b)) (high_octet (pair_group c d)) (low_octet (pair_group c d)) = ?s"
    by (simp add: pair_octets octets_text_def)
  have "ipv4EmbeddedInIpv6 [0, 0, 0, 0, 0, 0xffff, pair_group a b, pair_group c d] = Some ?s"
    "ipv4EmbeddedInIpv6 [0x64, 0xff9b, 0, 0, 0, 0, pair_group a b, pair_group c d] = Some ?s"
    "ipv4EmbeddedInIpv6 [0x2002, pair_group a b, pair_group c d, r1, r2, r3, r4, r5] = Some ?s"
    by (simp_all add: ipv4EmbeddedInIpv6_def s)
  moreover have "ipv4EmbeddedInIpv6 [0x64, 0xff9b, 1, pair_group a b, ucast c, push_bit 8 (ucast d), 0, 0] = Some ?s"
    by (simp add: ipv4EmbeddedInIpv6_def local_use_octets pair_octets octets_text_def)
  ultimately show ?thesis using category_when_embedded octets_category by (auto simp: ipv6BigInt_def)
qed

text \<open>Reading undoes writing: groups in the usual text, the compressed text with \<open>::\<close> for a run of zeros, and the
  compressed text with a dotted IPv4 address at the end are expanded to the groups they denote.\<close>

lemma ipv6_text_roundtrip:
  "(length h + length t \<le> 8 \<longrightarrow>
      expandIpv6 (groups_text h @ ''::'' @ groups_text t) = Some (h @ replicate (8 - length h - length t) 0 @ t))
   \<and> (length g = 8 \<longrightarrow> expandIpv6 (groups_text g) = Some g)
   \<and> (length h + length t \<le> 6 \<longrightarrow>
      expandIpv6 (groups_text h @ ''::'' @ join '':'' (map group_text t @ [octets_text (a, b, c, d)]))
        = Some (h @ replicate (6 - length h - length t) 0 @ t @ [pair_group a b, pair_group c d]))"
proof (intro conjI impI)
  assume l: "length h + length t \<le> 8"
  show "expandIpv6 (groups_text h @ ''::'' @ groups_text t) = Some (h @ replicate (8 - length h - length t) 0 @ t)"
    unfolding groups_text_def expand_compressed [OF groups_parts(1) groups_parts(1) group_texts_plain] fill_group_texts [OF l] ..
next
  assume l: "length g = 8"
  let ?ps = "map group_text g"
  have p: "list_all part_ok ?ps" by (rule groups_parts(1))
  have d: "split_double (groups_text g) = [groups_text g]" using split_double_join [OF p, of "[]"] by (simp add: groups_text_def)
  have "CHR '':'' \<in> set (groups_text g)" using groups8 [OF l] by (auto simp: groups_text_def)
  moreover have "js_lower (groups_text g) = groups_text g" unfolding groups_text_def by (rule lower_plain [OF join_plain [OF p]])
  moreover have "fill_groups False ?ps [] = Some g" using l groups_parts(2) [of g] by (simp add: fill_groups_def group_text_value map_idI)
  ultimately show "expandIpv6 (groups_text g) = Some g" using d colon_parts_join [OF p] by (simp add: expandIpv6_def groups_text_def)
next
  assume l: "length h + length t \<le> 6"
  let ?ts = "map group_text t @ [octets_text (a, b, c, d)]"
  have p: "list_all part_ok ?ts" using groups_parts(1) [of t] octet_text_part(1) by (simp add: octets_text_def)
  have e: "expand_parts ?ts = Some (map group_text (t @ [pair_group a b, pair_group c d]))"
    unfolding expand_parts_append group_texts_plain expand_octets by simp
  have l8: "length h + length (t @ [pair_group a b, pair_group c d]) \<le> 8" using l by simp
  have r: "8 - length h - length (t @ [pair_group a b, pair_group c d]) = 6 - length h - length t" by simp
  show "expandIpv6 (groups_text h @ ''::'' @ join '':'' ?ts) = Some (h @ replicate (6 - length h - length t) 0 @ t @ [pair_group a b, pair_group c d])"
    unfolding groups_text_def expand_compressed [OF groups_parts(1) p e] fill_group_texts [OF l8] r ..
qed

lemma ipv6_text_roundtrip_witness:
  "expandIpv6 (groups_text [0xfe80] @ ''::'' @ groups_text [1]) = Some [0xfe80, 0, 0, 0, 0, 0, 0, 1]"
  using ipv6_text_roundtrip [of "[0xfe80]" "[1]"] by (simp add: numeral_eq_Suc)

text \<open>Literals that are not recognised pass as names: an address with a zone, which a resolver may return, and a
  mapped address that is written out in full are taken for unrestricted host names, and the deprecated embedding of an
  IPv4 address behind 96 zero bits is public.\<close>

lemma unrecognised_literals_pass:
  "hc_kind (classifyOutboundHost ''fe80::1%eth0'') = KHostname \<and> \<not> hc_restricted (classifyOutboundHost ''fe80::1%eth0'')
   \<and> hc_kind (classifyOutboundHost ''0:0:0:0:0:ffff:127.0.0.1'') = KHostname
   \<and> \<not> hc_restricted (classifyOutboundHost ''0:0:0:0:0:ffff:127.0.0.1'')
   \<and> hc_category (classifyOutboundHost ''::127.0.0.1'') = Public \<and> \<not> hc_restricted (classifyOutboundHost ''::127.0.0.1'')"
  using compatible_host by (simp add: zone_host full_mapped_host)

end
