(* ===== verification/EgressPolicy.thy ===== *)
theory EgressPolicy
  imports OutboundHost GatewayUtils
begin

text \<open>
  The outbound egress policy (\<open>packages/foundation/src/security/outbound-egress-policy.ts\<close>): the decision on a URL,
  the decision on what its name resolves to, and the fetch loop that checks every redirect.  The URL parser, the name
  service, \<open>net.isIP\<close> and the transport are parameters; the answers of the last three may differ from hop to hop.
  Header names are those of a \<open>Headers\<close> object, that is lower-case ASCII tokens, and methods are ASCII tokens.
\<close>

section \<open>Decisions on a URL\<close>

record url =
  u_href :: string
  u_protocol :: string
  u_hostname :: string
  u_port :: string
  u_origin :: string

record egress_options =
  eo_preset :: string
  eo_allowLocalForConfiguredModelService :: bool
  eo_allowLocalForDevelopment :: bool
  eo_label :: string

record host_decision =
  hd_protocol :: string
  hd_host :: string
  hd_port :: string
  hd_kind :: host_kind
  hd_category :: address_category
  hd_metadata :: bool
  hd_forDevelopment :: bool
  hd_forModelService :: bool
  hd_allowLocal :: bool

record egress_decision =
  ed_ok :: bool
  ed_label :: string
  ed_url :: string
  ed_reason :: string
  ed_host :: "host_decision option"

definition development_preset :: string where
  "development_preset = ''security.development-local''"

definition category_text :: "address_category \<Rightarrow> string" where
  "category_text c =
     (case c of Benchmark \<Rightarrow> ''benchmark'' | CarrierGradeNat \<Rightarrow> ''carrier-grade-nat'' | CloudMetadata \<Rightarrow> ''cloud-metadata''
      | Hostname \<Rightarrow> ''hostname'' | Invalid \<Rightarrow> ''invalid'' | LinkLocal \<Rightarrow> ''link-local'' | Loopback \<Rightarrow> ''loopback''
      | Multicast \<Rightarrow> ''multicast'' | Private \<Rightarrow> ''private'' | Public \<Rightarrow> ''public'' | Reserved \<Rightarrow> ''reserved''
      | Unspecified \<Rightarrow> ''unspecified'')"

definition local_network_categories :: "address_category list" where
  "local_network_categories = [Loopback, Private]"

definition for_development :: "egress_options \<Rightarrow> bool" where
  "for_development o1 = (js_trim (eo_preset o1) = development_preset \<or> eo_allowLocalForDevelopment o1)"

definition localEgressAllowed :: "egress_options \<Rightarrow> bool" where
  "localEgressAllowed o1 = (js_trim (eo_preset o1) = development_preset \<or> eo_allowLocalForDevelopment o1
     \<or> eo_allowLocalForConfiguredModelService o1)"

definition outboundHostAllowed :: "address_category \<Rightarrow> bool \<Rightarrow> bool \<Rightarrow> bool \<Rightarrow> bool" where
  "outboundHostAllowed category metadata restricted allowLocal =
     (if metadata \<or> category = LinkLocal then False
      else if \<not> restricted then True
      else allowLocal \<and> category \<in> set local_network_categories)"

definition plaintextHttpMayReachLocalHost :: "host_class \<Rightarrow> bool \<Rightarrow> bool" where
  "plaintextHttpMayReachLocalHost h allowLocal =
     (if \<not> allowLocal then False
      else if hc_category h \<in> set local_network_categories then True
      else hc_kind h = KHostname \<and> hc_category h = Hostname)"

definition drop_colon :: "string \<Rightarrow> string" where
  "drop_colon s = (if s \<noteq> [] \<and> last s = CHR '':'' then butlast s else s)"

definition evaluateOutboundEgressUrl :: "(string \<Rightarrow> url option) \<Rightarrow> egress_options \<Rightarrow> string \<Rightarrow> egress_decision" where
  "evaluateOutboundEgressUrl parse o1 u =
     (let s = js_trim u
      in case parse s of
           None \<Rightarrow> \<lparr>ed_ok = False, ed_label = eo_label o1, ed_url = s, ed_reason = ''invalid_url'', ed_host = None\<rparr>
         | Some p \<Rightarrow>
             (let h = classifyOutboundHost (u_hostname p); allowLocal = localEgressAllowed o1;
                  blocked = (\<not> outboundHostAllowed (hc_category h) (hc_metadata h) (hc_restricted h) allowLocal);
                  plaintextRemote = (u_protocol p = ''http:'' \<and> \<not> plaintextHttpMayReachLocalHost h allowLocal)
              in \<lparr>ed_ok = (\<not> blocked \<and> \<not> plaintextRemote), ed_label = eo_label o1, ed_url = u_href p,
                  ed_reason = (if blocked then ''restricted_address_'' @ (if hc_metadata h then ''cloud-metadata'' else category_text (hc_category h))
                    else if plaintextRemote then ''plaintext_remote_transport'' else ''allowed''),
                  ed_host = Some \<lparr>hd_protocol = drop_colon (u_protocol p), hd_host = hc_host h, hd_port = u_port p, hd_kind = hc_kind h,
                    hd_category = hc_category h, hd_metadata = hc_metadata h, hd_forDevelopment = for_development o1,
                    hd_forModelService = eo_allowLocalForConfiguredModelService o1, hd_allowLocal = allowLocal\<rparr>\<rparr>))"

section \<open>Decisions on resolved addresses\<close>

record dns_address =
  da_address :: string
  da_family :: nat
  da_kind :: host_kind
  da_category :: address_category
  da_restricted :: bool
  da_metadata :: bool

datatype dns_decision =
    DnsSkipped string
  | DnsFailed string
  | DnsResolved string "dns_address list"

record runtime_decision =
  rd_decision :: egress_decision
  rd_dns :: dns_decision

text \<open>One record of a lookup: an object with an address, or a text.\<close>

definition record_address :: "jsval \<Rightarrow> string" where
  "record_address r =
     js_trim (case (case r of JObj ps \<Rightarrow> prop_of ps ''address'' | _ \<Rightarrow> JUndef) of
                JUndef \<Rightarrow> (case r of JStr s \<Rightarrow> s | _ \<Rightarrow> [])
              | JNull \<Rightarrow> (case r of JStr s \<Rightarrow> s | _ \<Rightarrow> [])
              | v \<Rightarrow> js_string v)"

definition dns_address_of :: "string \<Rightarrow> nat \<Rightarrow> dns_address" where
  "dns_address_of a family =
     (let c = classifyOutboundHost a
      in \<lparr>da_address = a, da_family = family, da_kind = hc_kind c, da_category = hc_category c, da_restricted = hc_restricted c,
          da_metadata = hc_metadata c\<rparr>)"

fun collect_records :: "(string \<Rightarrow> nat) \<Rightarrow> string list \<Rightarrow> jsval list \<Rightarrow> dns_address list" where
  "collect_records isIP seen [] = []"
| "collect_records isIP seen (r # rs) =
     (let a = record_address r; family = isIP a; key = a @ ''/'' @ show_nat family
      in if a = [] \<or> family \<noteq> 4 \<and> family \<noteq> 6 then collect_records isIP seen rs
         else if key \<in> set seen then collect_records isIP seen rs
         else dns_address_of a family # collect_records isIP (key # seen) rs)"

definition normalizeDnsLookupRecords :: "(string \<Rightarrow> nat) \<Rightarrow> jsval \<Rightarrow> dns_address list" where
  "normalizeDnsLookupRecords isIP v = collect_records isIP [] (case v of JArr rs \<Rightarrow> rs | _ \<Rightarrow> [v])"

definition local_address :: "dns_address \<Rightarrow> bool" where
  "local_address a = (da_category a \<in> set local_network_categories)"

definition denied_address :: "bool \<Rightarrow> dns_address \<Rightarrow> bool" where
  "denied_address allowLocal a = (\<not> outboundHostAllowed (da_category a) (da_metadata a) (da_restricted a) allowLocal)"

text \<open>The answer of the name service is \<open>None\<close> when the lookup throws.\<close>

definition evaluateOutboundEgressUrlWithDns ::
    "(string \<Rightarrow> url option) \<Rightarrow> (string \<Rightarrow> nat) \<Rightarrow> (string \<Rightarrow> jsval option) \<Rightarrow> egress_options \<Rightarrow> string \<Rightarrow> runtime_decision" where
  "evaluateOutboundEgressUrlWithDns parse isIP lookup o1 u =
     (let d = evaluateOutboundEgressUrl parse o1 u
      in case ed_host d of
           None \<Rightarrow> \<lparr>rd_decision = d, rd_dns = DnsSkipped ''host_decision_denied''\<rparr>
         | Some h \<Rightarrow>
             if \<not> ed_ok d then \<lparr>rd_decision = d, rd_dns = DnsSkipped ''host_decision_denied''\<rparr>
             else if hd_kind h \<noteq> KHostname then \<lparr>rd_decision = d, rd_dns = DnsSkipped ''literal_address''\<rparr>
             else case lookup (hd_host h) of
               None \<Rightarrow> \<lparr>rd_decision = d\<lparr>ed_ok := False, ed_reason := ''dns_lookup_failed''\<rparr>, rd_dns = DnsFailed (hd_host h)\<rparr>
             | Some records \<Rightarrow>
                 (let addresses = normalizeDnsLookupRecords isIP records;
                      denied = filter (denied_address (hd_allowLocal h)) addresses;
                      plaintextRemote = (hd_protocol h = ''http''
                        \<and> \<not> (addresses \<noteq> [] \<and> hd_allowLocal h \<and> list_all local_address addresses))
                  in \<lparr>rd_decision = d\<lparr>ed_ok := (addresses \<noteq> [] \<and> denied = [] \<and> \<not> plaintextRemote),
                        ed_reason := (if addresses = [] then ''dns_no_addresses''
                          else if denied \<noteq> [] then ''restricted_dns_address_''
                            @ (if da_metadata (hd denied) then ''cloud-metadata'' else category_text (da_category (hd denied)))
                          else if plaintextRemote then ''plaintext_remote_transport'' else ''allowed'')\<rparr>,
                      rd_dns = DnsResolved (hd_host h) addresses\<rparr>))"




section \<open>Redirects\<close>

record request_init =
  ri_method :: "string option"
  ri_headers :: "(string \<times> string) list"
  ri_body :: "string option"

text \<open>\<open>isUpstreamCredentialHeaderName\<close>: a word of the list between separators.\<close>

definition credential_words :: "string list" where
  "credential_words =
     [''password'', ''passcode'', ''passphrase'', ''secret'', ''token'', ''auth'', ''authorization'', ''cookie'', ''session'',
      ''apikey'', ''api_key'', ''api-key'', ''credential'', ''privatekey'', ''private_key'', ''private-key'', ''certificate'', ''bearer'']"

definition is_separator :: "char \<Rightarrow> bool" where
  "is_separator c = (c = CHR ''-'' \<or> c = CHR ''_'')"

definition credential_at :: "string \<Rightarrow> bool" where
  "credential_at s = list_ex (\<lambda>w. starts_with s w \<and> (drop (length w) s = [] \<or> is_separator (hd (drop (length w) s)))) credential_words"

fun credential_inside :: "string \<Rightarrow> bool" where
  "credential_inside [] = False"
| "credential_inside (c # cs) = (is_separator c \<and> credential_at cs \<or> credential_inside cs)"

definition isUpstreamCredentialHeaderName :: "string \<Rightarrow> bool" where
  "isUpstreamCredentialHeaderName name = (let s = js_lower name in credential_at s \<or> credential_inside s)"

definition cross_origin_internal_headers :: "string list" where
  "cross_origin_internal_headers = [''x-meshrix-gateway-service'', ''x-meshrix-skill-hub-subject'']"

definition stays_on_origin :: "string \<Rightarrow> bool" where
  "stays_on_origin name = (isUpstreamCredentialHeaderName name \<or> name \<in> set cross_origin_internal_headers)"

definition upper_char :: "char \<Rightarrow> char" where
  "upper_char c = (if 97 \<le> (of_char c :: nat) \<and> of_char c \<le> (122 :: nat) then char_of (of_char c - (32 :: nat)) else c)"

definition redirectInit :: "request_init \<Rightarrow> url \<Rightarrow> url \<Rightarrow> int \<Rightarrow> request_init" where
  "redirectInit init source target status =
     (let sourceMethod = map upper_char (str_or (ri_method init) ''GET'');
          switchToGet = (status = 303 \<or> (status = 301 \<or> status = 302) \<and> sourceMethod = ''POST'');
          kept = (if u_origin source \<noteq> u_origin target then filter (\<lambda>(n, v). \<not> stays_on_origin n) (ri_headers init) else ri_headers init)
      in \<lparr>ri_method = Some (if switchToGet then ''GET'' else sourceMethod),
          ri_headers = (if switchToGet then filter (\<lambda>(n, v). n \<notin> {''content-length'', ''content-type'', ''transfer-encoding''}) kept else kept),
          ri_body = (if switchToGet then None else ri_body init)\<rparr>)"

definition redirectStatus :: "int \<Rightarrow> bool" where
  "redirectStatus status = (300 \<le> status \<and> status < 400)"

record redirect_decision =
  xd_ok :: bool
  xd_reason :: string
  xd_target :: "url option"
  xd_targetDecision :: "egress_decision option"

text \<open>\<open>resolve\<close> is \<open>new URL(location, base)\<close>.\<close>

definition evaluateOutboundRedirectLocation ::
    "(string \<Rightarrow> url option) \<Rightarrow> (string \<Rightarrow> string \<Rightarrow> url option) \<Rightarrow> egress_options \<Rightarrow> string \<Rightarrow> int \<Rightarrow> string \<Rightarrow> redirect_decision" where
  "evaluateOutboundRedirectLocation parse resolve o1 sourceUrl status location =
     (let l = js_trim location
      in if \<not> redirectStatus status then \<lparr>xd_ok = True, xd_reason = ''not_redirect'', xd_target = None, xd_targetDecision = None\<rparr>
         else if l = [] then \<lparr>xd_ok = False, xd_reason = ''redirect_location_missing'', xd_target = None, xd_targetDecision = None\<rparr>
         else case resolve l (js_trim sourceUrl) of
           None \<Rightarrow> \<lparr>xd_ok = False, xd_reason = ''invalid_redirect_location'', xd_target = None, xd_targetDecision = None\<rparr>
         | Some t \<Rightarrow>
             if u_protocol t \<noteq> ''http:'' \<and> u_protocol t \<noteq> ''https:''
             then \<lparr>xd_ok = False, xd_reason = ''unsupported_redirect_protocol'', xd_target = Some t, xd_targetDecision = None\<rparr>
             else (let d = evaluateOutboundEgressUrl parse o1 (u_href t)
                   in \<lparr>xd_ok = ed_ok d, xd_reason = (if ed_ok d then ''redirect_location_allowed'' else ed_reason d),
                       xd_target = Some t, xd_targetDecision = Some d\<rparr>))"

definition redirectLimit :: "jsnum option \<Rightarrow> nat option" where
  "redirectLimit v = (case (case v of None \<Rightarrow> Fin 0 | Some n \<Rightarrow> n) of Fin i \<Rightarrow> if 0 \<le> i \<and> i \<le> 10 then Some (nat i) else None | _ \<Rightarrow> None)"

section \<open>The fetch loop\<close>

record response =
  rs_status :: int
  rs_location :: string

datatype fetch_error =
    EgressDenied string
  | RedirectLimitInvalid
  | RedirectLoop
  | RedirectLimitExceeded
  | TransportFailed
  | InvalidUrl

text \<open>What the loop sent: the URL, the request and the decision that allowed it.\<close>

record sent =
  st_url :: string
  st_init :: request_init
  st_decision :: runtime_decision

record world =
  wd_parse :: "string \<Rightarrow> url option"
  wd_resolve :: "string \<Rightarrow> string \<Rightarrow> url option"
  wd_isIP :: "string \<Rightarrow> nat"
  wd_lookup :: "nat \<Rightarrow> string \<Rightarrow> jsval option"
  wd_send :: "nat \<Rightarrow> string \<Rightarrow> request_init \<Rightarrow> response option"

definition redirect_label :: "egress_options \<Rightarrow> egress_options" where
  "redirect_label o1 = o1\<lparr>eo_label := (if eo_label o1 = [] then ''outbound.url'' else eo_label o1) @ ''.redirect''\<rparr>"

text \<open>The loop from hop \<open>maximum - n\<close> on; \<open>n\<close> counts the redirects that are left.\<close>

fun hops :: "world \<Rightarrow> egress_options \<Rightarrow> nat \<Rightarrow> nat \<Rightarrow> string list \<Rightarrow> string \<Rightarrow> request_init \<Rightarrow> sent list \<times> (fetch_error + response)" where
  "hops w o1 maximum n visited u init =
     (if u \<in> set visited then ([], Inl RedirectLoop)
      else (let k = maximum - n;
                d = evaluateOutboundEgressUrlWithDns (wd_parse w) (wd_isIP w) (wd_lookup w k) o1 u
            in if \<not> ed_ok (rd_decision d) then ([], Inl (EgressDenied (ed_reason (rd_decision d))))
               else (let s = \<lparr>st_url = u, st_init = init, st_decision = d\<rparr>
                     in case wd_send w k u init of
                          None \<Rightarrow> ([s], Inl TransportFailed)
                        | Some r \<Rightarrow>
                            if \<not> redirectStatus (rs_status r) then ([s], Inr r)
                            else (let x = evaluateOutboundRedirectLocation (wd_parse w) (wd_resolve w) (redirect_label o1) u (rs_status r) (rs_location r)
                                  in if maximum = 0 then ([s], Inr r)
                                     else case (xd_ok x, xd_target x) of
                                       (True, Some t) \<Rightarrow>
                                         (case n of
                                            0 \<Rightarrow> ([s], Inl RedirectLimitExceeded)
                                          | Suc m \<Rightarrow>
                                              (case (wd_parse w u, wd_parse w (u_href t)) of
                                                 (Some a, Some b) \<Rightarrow>
                                                   (let (ss, res) = hops w o1 maximum m (u # visited) (u_href t) (redirectInit init a b (rs_status r))
                                                    in (s # ss, res))
                                               | _ \<Rightarrow> ([s], Inl InvalidUrl)))
                                     | _ \<Rightarrow> ([s], Inl (EgressDenied (xd_reason x)))))))"

declare hops.simps [simp del]

definition fetchWithPinnedDns :: "world \<Rightarrow> egress_options \<Rightarrow> jsnum option \<Rightarrow> string \<Rightarrow> request_init \<Rightarrow> sent list \<times> (fetch_error + response)" where
  "fetchWithPinnedDns w o1 maxRedirects u init =
     (case redirectLimit maxRedirects of
        None \<Rightarrow> ([], Inl RedirectLimitInvalid)
      | Some m \<Rightarrow> hops w o1 m m [] u init)"

section \<open>What a decision allows\<close>














section \<open>The loop\<close>

definition hop_decision :: "world \<Rightarrow> egress_options \<Rightarrow> nat \<Rightarrow> string \<Rightarrow> runtime_decision" where
  "hop_decision w o1 k u = evaluateOutboundEgressUrlWithDns (wd_parse w) (wd_isIP w) (wd_lookup w k) o1 u"

abbreviation sent_now :: "world \<Rightarrow> egress_options \<Rightarrow> nat \<Rightarrow> string \<Rightarrow> request_init \<Rightarrow> sent" where
  "sent_now w o1 k u init \<equiv> \<lparr>st_url = u, st_init = init, st_decision = hop_decision w o1 k u\<rparr>"

definition follows :: "world \<Rightarrow> egress_options \<Rightarrow> nat \<Rightarrow> nat \<Rightarrow> string list \<Rightarrow> string \<Rightarrow> request_init \<Rightarrow> sent list \<Rightarrow> fetch_error + response \<Rightarrow> bool" where
  "follows w o1 maximum n visited u init ss res \<longleftrightarrow>
     (\<exists>m (t :: url) a b status. n = Suc m \<and> wd_parse w u = Some a \<and> wd_parse w (u_href t) = Some b
        \<and> hops w o1 maximum m (u # visited) (u_href t) (redirectInit init a b status) = (ss, res))"

lemma hops_form:
  assumes "hops w o1 maximum n visited u init = (ss, res)"
  shows "ss = [] \<and> (\<exists>e. res = Inl e)
    \<or> u \<notin> set visited \<and> ed_ok (rd_decision (hop_decision w o1 (maximum - n) u))
      \<and> (ss = [sent_now w o1 (maximum - n) u init] \<and> (\<forall>r. res = Inr r \<longrightarrow> maximum = 0 \<or> \<not> redirectStatus (rs_status r))
         \<or> (\<exists>ss'. ss = sent_now w o1 (maximum - n) u init # ss' \<and> follows w o1 maximum n visited u init ss' res))"
proof (cases "u \<in> set visited \<or> \<not> ed_ok (rd_decision (hop_decision w o1 (maximum - n) u))")
  case True
  then show ?thesis using assms
    by (cases "u \<in> set visited"; subst (asm) hops.simps) (auto simp: Let_def hop_decision_def)
next
  case False
  then have v: "u \<notin> set visited" "ed_ok (rd_decision (hop_decision w o1 (maximum - n) u))" by simp_all
  let ?s = "sent_now w o1 (maximum - n) u init"
  show ?thesis
  proof (cases "wd_send w (maximum - n) u init")
    case None
    then show ?thesis using assms v by (subst (asm) hops.simps) (auto simp: Let_def hop_decision_def)
  next
    case (Some r)
    let ?x = "evaluateOutboundRedirectLocation (wd_parse w) (wd_resolve w) (redirect_label o1) u (rs_status r) (rs_location r)"
    consider "\<not> redirectStatus (rs_status r)" | "redirectStatus (rs_status r)" "maximum = 0"
      | "redirectStatus (rs_status r)" "maximum \<noteq> 0" "\<not> xd_ok ?x \<or> xd_target ?x = None"
      | t where "redirectStatus (rs_status r)" "maximum \<noteq> 0" "xd_ok ?x" "xd_target ?x = Some t" by blast
    then show ?thesis
    proof cases
      case 1
      then show ?thesis using assms v Some by (subst (asm) hops.simps) (auto simp: Let_def hop_decision_def)
    next
      case 2
      then show ?thesis using assms v Some by (subst (asm) hops.simps) (auto simp: Let_def hop_decision_def)
    next
      case 3
      then show ?thesis using assms v Some
        by (subst (asm) hops.simps) (auto simp: Let_def hop_decision_def split: bool.splits option.splits)
    next
      case (4 t)
      show ?thesis
      proof (cases "\<exists>m a b. n = Suc m \<and> wd_parse w u = Some a \<and> wd_parse w (u_href t) = Some b")
        case False
        then show ?thesis using assms v Some 4
          by (subst (asm) hops.simps) (auto simp: Let_def hop_decision_def split: nat.splits option.splits)
      next
        case True
        then obtain m a b where m: "n = Suc m" "wd_parse w u = Some a" "wd_parse w (u_href t) = Some b" by blast
        obtain ss' res' where h: "hops w o1 maximum m (u # visited) (u_href t) (redirectInit init a b (rs_status r)) = (ss', res')" by fastforce
        have "ss = ?s # ss' \<and> res = res'" using assms v Some 4 m h
          by (subst (asm) hops.simps) (auto simp: Let_def hop_decision_def)
        then show ?thesis using v m h unfolding follows_def by blast
      qed
    qed
  qed
qed

text \<open>Induction over what the loop sent.\<close>

lemma hops_induct [consumes 1, case_names Nothing Last Next]:
  assumes "hops w o1 maximum n visited u init = (ss, res)"
    and "\<And>n visited u init e. P n visited u init [] (Inl e)"
    and "\<And>n visited u init res. u \<notin> set visited \<Longrightarrow> ed_ok (rd_decision (hop_decision w o1 (maximum - n) u)) \<Longrightarrow>
      (\<And>r. res = Inr r \<Longrightarrow> maximum = 0 \<or> \<not> redirectStatus (rs_status r)) \<Longrightarrow>
      P n visited u init [sent_now w o1 (maximum - n) u init] res"
    and "\<And>m visited u init a b (t :: url) status ss res. u \<notin> set visited \<Longrightarrow> ed_ok (rd_decision (hop_decision w o1 (maximum - Suc m) u)) \<Longrightarrow>
      wd_parse w u = Some a \<Longrightarrow> wd_parse w (u_href t) = Some b \<Longrightarrow>
      P m (u # visited) (u_href t) (redirectInit init a b status) ss res \<Longrightarrow>
      hops w o1 maximum m (u # visited) (u_href t) (redirectInit init a b status) = (ss, res) \<Longrightarrow>
      P (Suc m) visited u init (sent_now w o1 (maximum - Suc m) u init # ss) res"
  shows "P n visited u init ss res"
  using assms(1)
proof (induction n arbitrary: visited u init ss res)
  case 0
  from hops_form [OF 0] consider e where "ss = []" "res = Inl e"
    | "u \<notin> set visited" "ed_ok (rd_decision (hop_decision w o1 (maximum - 0) u))" "ss = [sent_now w o1 (maximum - 0) u init]"
      "\<And>r. res = Inr r \<Longrightarrow> maximum = 0 \<or> \<not> redirectStatus (rs_status r)"
    by (auto simp: follows_def)
  then show ?case
  proof cases
    case 1
    then show ?thesis using assms(2) by simp
  next
    case 2
    show ?thesis unfolding 2(3) by (rule assms(3) [OF 2(1,2,4)])
  qed
next
  case (Suc m)
  from hops_form [OF Suc.prems] consider e where "ss = []" "res = Inl e"
    | "u \<notin> set visited" "ed_ok (rd_decision (hop_decision w o1 (maximum - Suc m) u))" "ss = [sent_now w o1 (maximum - Suc m) u init]"
      "\<And>r. res = Inr r \<Longrightarrow> maximum = 0 \<or> \<not> redirectStatus (rs_status r)"
    | ss' where "u \<notin> set visited" "ed_ok (rd_decision (hop_decision w o1 (maximum - Suc m) u))"
      "ss = sent_now w o1 (maximum - Suc m) u init # ss'" "follows w o1 maximum (Suc m) visited u init ss' res" by blast
  then show ?case
  proof cases
    case 1
    then show ?thesis using assms(2) by simp
  next
    case 2
    show ?thesis unfolding 2(3) by (rule assms(3) [OF 2(1,2,4)])
  next
    case 3
    then show ?thesis using assms(4) Suc.IH unfolding follows_def by blast
  qed
qed



lemma hops_bound: "hops w o1 maximum n visited u init = (ss, res) \<Longrightarrow>
    length ss \<le> Suc n \<and> distinct (map st_url ss) \<and> set (map st_url ss) \<inter> set visited = {}
    \<and> (\<forall>r. res = Inr r \<longrightarrow> ss \<noteq> [] \<and> (maximum = 0 \<or> \<not> redirectStatus (rs_status r)))"
  by (induction rule: hops_induct) auto

lemma hops_head: "hops w o1 maximum n visited u init = (s # ss, res) \<Longrightarrow> st_url s = u \<and> st_init s = init"
  using hops_form [of w o1 maximum n visited u init "s # ss" res] by auto

definition holds_credentials :: "request_init \<Rightarrow> bool" where
  "holds_credentials i \<longleftrightarrow> (\<exists>(n, v) \<in> set (ri_headers i). stays_on_origin n)"

definition origin_of :: "world \<Rightarrow> sent \<Rightarrow> string option" where
  "origin_of w s = map_option u_origin (wd_parse w (st_url s))"

lemma redirect_keeps_clean: "\<not> holds_credentials i \<Longrightarrow> \<not> holds_credentials (redirectInit i a b status)"
  by (auto simp: holds_credentials_def redirectInit_def Let_def)

lemma redirect_cleans: "u_origin a \<noteq> u_origin b \<Longrightarrow> \<not> holds_credentials (redirectInit i a b status)"
  by (auto simp: holds_credentials_def redirectInit_def Let_def)

lemma hops_clean: "hops w o1 maximum n visited u init = (ss, res) \<Longrightarrow> \<not> holds_credentials init \<longrightarrow> (\<forall>s \<in> set ss. \<not> holds_credentials (st_init s))"
  by (induction rule: hops_induct) (auto simp: redirect_keeps_clean)

lemma hops_origin: "hops w o1 maximum n visited u init = (ss, res) \<Longrightarrow>
    \<forall>j < length ss. holds_credentials (st_init (ss ! j)) \<longrightarrow> (\<forall>i \<le> j. origin_of w (ss ! i) = origin_of w (ss ! 0))"
proof (induction rule: hops_induct)
  case (Next m visited u init a b t status ss res)
  let ?s = "sent_now w o1 (maximum - Suc m) u init"
  show ?case
  proof (intro allI impI)
    fix j i assume j: "j < length (?s # ss)" "holds_credentials (st_init ((?s # ss) ! j))" and i: "i \<le> j"
    show "origin_of w ((?s # ss) ! i) = origin_of w ((?s # ss) ! 0)"
    proof (cases i)
      case (Suc i')
      then obtain j' where j': "j = Suc j'" "i' \<le> j'" using i by (cases j) auto
      then have c: "j' < length ss" "holds_credentials (st_init (ss ! j'))" using j by auto
      then have "\<not> (\<forall>s \<in> set ss. \<not> holds_credentials (st_init s))" by (meson nth_mem)
      then have "holds_credentials (redirectInit init a b status)" using hops_clean [OF Next.hyps(5)] by blast
      then have o: "u_origin a = u_origin b" using redirect_cleans by blast
      obtain s' rest where ss: "ss = s' # rest" using c(1) by (cases ss) auto
      have "st_url s' = u_href t" using hops_head Next.hyps(5) unfolding ss by blast
      then have "origin_of w (ss ! 0) = origin_of w ?s" using o Next.hyps(3,4) by (simp add: ss origin_of_def)
      moreover have "origin_of w (ss ! i') = origin_of w (ss ! 0)" using Next.IH c j'(2) by blast
      ultimately show ?thesis by (simp add: Suc)
    qed simp
  qed
qed auto

section \<open>A run\<close>

text \<open>A public service that redirects within its origin.\<close>

definition demo_url :: "string \<Rightarrow> url" where
  "demo_url s = \<lparr>u_href = s, u_protocol = ''https:'', u_hostname = ''[2::1]'', u_port = [], u_origin = ''https://[2::1]''\<rparr>"

definition demo_world :: world where
  "demo_world = \<lparr>wd_parse = (\<lambda>s. Some (demo_url s)), wd_resolve = (\<lambda>l b. Some (demo_url l)), wd_isIP = (\<lambda>s. 0),
     wd_lookup = (\<lambda>k h. None),
     wd_send = (\<lambda>k u i. Some (if u = ''a'' then \<lparr>rs_status = 302, rs_location = ''b''\<rparr> else \<lparr>rs_status = 200, rs_location = []\<rparr>))\<rparr>"

definition demo_options :: egress_options where
  "demo_options = \<lparr>eo_preset = [], eo_allowLocalForConfiguredModelService = False, eo_allowLocalForDevelopment = False, eo_label = ''demo''\<rparr>"

definition demo_init :: request_init where
  "demo_init = \<lparr>ri_method = None, ri_headers = [(''cookie'', ''c'')], ri_body = None\<rparr>"

lemma demo_host: "hc_kind (classifyOutboundHost ''[2::1]'') = KIpv6 \<and> hc_category (classifyOutboundHost ''[2::1]'') = Public
    \<and> \<not> hc_restricted (classifyOutboundHost ''[2::1]'') \<and> \<not> hc_metadata (classifyOutboundHost ''[2::1]'')"
proof -
  let ?h = "''2::1''"
  have "number_octet (hd (split_on CHR ''.'' ?h)) = None" by code_simp
  then have n: "ipv4Parts ?h = None" by (rule ipv4Parts_none(2))
  have g: "group_text 2 = ''2''" "group_text 1 = ''1''" by code_simp+
  have "length [2 :: 16 word] + length [1 :: 16 word] \<le> 8" by simp
  from expand_compressed [OF groups_parts(1) groups_parts(1) group_texts_plain, of "[2]" "[1]"] fill_group_texts [OF this]
  have x: "expandIpv6 ?h = Some [2, 0, 0, 0, 0, 0, 0, 1]" by (simp add: g numeral_eq_Suc)
  then have c: "ipv6RangeCategory ?h = Some Public"
    by (simp add: ipv6RangeCategory_def groups_category_def ipv6BigInt_def ipv4EmbeddedInIpv6_def)
  have h: "normalizeOutboundHost ''[2::1]'' = ?h" "normalizeOutboundHost ?h = ?h" "?h \<notin> set cloud_metadata_hosts"
    "?h \<notin> set cloud_metadata_ipv4" "\<not> ends_with ?h ''.localhost''" by code_simp+
  have "\<not> cloudMetadataEndpoint ?h" using h x by (simp add: cloudMetadataEndpoint_def ipv6BigInt_def aws_metadata_ipv6_def)
  then show ?thesis using n x c h
    by (simp add: classifyOutboundHost_def Let_def ipVersion_def literal_class_def or_invalid_def)
qed

lemma demo_decision: "ed_ok (evaluateOutboundEgressUrl (wd_parse demo_world) o1 u)"
    "\<exists>h. ed_host (evaluateOutboundEgressUrl (wd_parse demo_world) o1 u) = Some h \<and> hd_kind h = KIpv6"
  using demo_host by (simp_all add: evaluateOutboundEgressUrl_def demo_world_def demo_url_def Let_def outboundHostAllowed_def)

lemma demo_hop: "ed_ok (rd_decision (hop_decision demo_world o1 k u))"
  using demo_decision [of o1 u] by (auto simp: hop_decision_def evaluateOutboundEgressUrlWithDns_def Let_def)

lemma demo_redirect: "evaluateOutboundRedirectLocation (wd_parse demo_world) (wd_resolve demo_world) o1 u 302 ''b''
    = \<lparr>xd_ok = True, xd_reason = ''redirect_location_allowed'', xd_target = Some (demo_url ''b''),
       xd_targetDecision = Some (evaluateOutboundEgressUrl (wd_parse demo_world) o1 ''b'')\<rparr>"
proof -
  have "js_trim ''b'' = ''b''" by code_simp
  then show ?thesis using demo_decision(1) [of o1 "''b''"]
    by (simp add: evaluateOutboundRedirectLocation_def Let_def redirectStatus_def demo_world_def demo_url_def)
qed

lemma demo_run: "fetchWithPinnedDns demo_world demo_options (Some (Fin 3)) ''a'' demo_init =
    ([sent_now demo_world demo_options 0 ''a'' demo_init,
      sent_now demo_world demo_options 1 ''b'' (redirectInit demo_init (demo_url ''a'') (demo_url ''b'') 302)], Inr \<lparr>rs_status = 200, rs_location = []\<rparr>)"
proof -
  have w: "wd_parse demo_world s = Some (demo_url s)" "wd_send demo_world k ''a'' i = Some \<lparr>rs_status = 302, rs_location = ''b''\<rparr>"
    "wd_send demo_world k ''b'' i = Some \<lparr>rs_status = 200, rs_location = []\<rparr>" for s k i
    by (simp_all add: demo_world_def)
  have h: "u_href (demo_url s) = s" for s by (simp add: demo_url_def)
  have b: "hops demo_world demo_options 3 2 [''a''] ''b'' i = ([sent_now demo_world demo_options 1 ''b'' i], Inr \<lparr>rs_status = 200, rs_location = []\<rparr>)" for i
    using demo_hop by (subst hops.simps) (simp add: hop_decision_def Let_def w redirectStatus_def)
  have "hops demo_world demo_options 3 (Suc 2) [] ''a'' demo_init =
    ([sent_now demo_world demo_options 0 ''a'' demo_init,
      sent_now demo_world demo_options 1 ''b'' (redirectInit demo_init (demo_url ''a'') (demo_url ''b'') 302)], Inr \<lparr>rs_status = 200, rs_location = []\<rparr>)"
    using demo_hop [of demo_options 0] by (subst hops.simps) (simp add: hop_decision_def Let_def w h redirectStatus_def demo_redirect b)
  then have "hops demo_world demo_options 3 3 [] ''a'' demo_init =
    ([sent_now demo_world demo_options 0 ''a'' demo_init,
      sent_now demo_world demo_options 1 ''b'' (redirectInit demo_init (demo_url ''a'') (demo_url ''b'') 302)], Inr \<lparr>rs_status = 200, rs_location = []\<rparr>)"
    by (simp only: numeral_3_eq_3 numeral_2_eq_2)
  then show ?thesis by (simp add: fetchWithPinnedDns_def redirectLimit_def)
qed

section \<open>Properties\<close>




text \<open>The loop ends within the redirect limit, which is at most ten, never asks for the same URL twice, and answers
  with a response only when it sent a request and the response is no redirect, unless redirects are not followed.\<close>

lemma redirects_bounded:
  assumes "fetchWithPinnedDns w o1 maxRedirects u init = (ss, res)"
  shows "length ss \<le> 11 \<and> distinct (map st_url ss)
    \<and> (\<forall>m. redirectLimit maxRedirects = Some m \<longrightarrow> length ss \<le> Suc m)
    \<and> (\<forall>r. res = Inr r \<longrightarrow> ss \<noteq> [] \<and> (redirectLimit maxRedirects = Some 0 \<or> \<not> redirectStatus (rs_status r)))"
proof (cases "redirectLimit maxRedirects")
  case (Some m)
  then have "hops w o1 m m [] u init = (ss, res)" using assms by (simp add: fetchWithPinnedDns_def)
  note hops_bound [OF this]
  moreover have "m \<le> 10" using Some by (auto simp: redirectLimit_def split: option.splits jsnum.splits if_splits)
  ultimately show ?thesis using Some by auto
qed (use assms in \<open>auto simp: fetchWithPinnedDns_def\<close>)

lemma redirects_bounded_witness:
  "redirectLimit (Some (Fin 3)) = Some 3
   \<and> snd (fetchWithPinnedDns demo_world demo_options (Some (Fin 3)) ''a'' demo_init) = Inr \<lparr>rs_status = 200, rs_location = []\<rparr>
   \<and> \<not> redirectStatus 200"
  using redirects_bounded [OF demo_run] by (simp add: redirectLimit_def demo_run)


text \<open>C17. Credentials do not cross origins: a request with a credential header or an internal header is sent only when
  all requests up to it went to the origin of the first one.\<close>

theorem credentials_stay_on_origin:
  assumes "fetchWithPinnedDns w o1 maxRedirects u init = (ss, res)" and "j < length ss"
    and "(n, v) \<in> set (ri_headers (st_init (ss ! j)))" and "stays_on_origin n" and "i \<le> j"
  shows "origin_of w (ss ! i) = origin_of w (ss ! 0)"
proof -
  obtain m where "hops w o1 m m [] u init = (ss, res)"
    using assms(1,2) by (auto simp: fetchWithPinnedDns_def split: option.splits)
  moreover have "holds_credentials (st_init (ss ! j))" using assms(3,4) by (auto simp: holds_credentials_def)
  ultimately show ?thesis using hops_origin assms(2,5) by blast
qed

theorem credentials_stay_on_origin_witness:
  "(''cookie'', ''c'') \<in> set (ri_headers (redirectInit demo_init (demo_url ''a'') (demo_url ''b'') 302))
   \<and> stays_on_origin ''cookie'' \<and> origin_of demo_world (sent_now demo_world demo_options 1 ''b'' (redirectInit demo_init (demo_url ''a'') (demo_url ''b'') 302))
       = origin_of demo_world (sent_now demo_world demo_options 0 ''a'' demo_init)"
proof -
  have c: "stays_on_origin ''cookie''" by code_simp
  have h: "(''cookie'', ''c'') \<in> set (ri_headers (redirectInit demo_init (demo_url ''a'') (demo_url ''b'') 302))"
    by (simp add: redirectInit_def Let_def demo_init_def demo_url_def)
  then show ?thesis using c credentials_stay_on_origin [OF demo_run, of 1 "''cookie''" "''c''" 1] by simp
qed

end
