(* ===== verification/SchemaFormats.thy ===== *)
theory SchemaFormats
  imports GatewayUtils
begin

text \<open>
  The string formats of the closed JSON schemas (\<open>packages/foundation/src/security/closed-json-schema.ts\<close>).  The
  regular expressions are written as lists of character classes; \<open>Date.UTC\<close> and its readings are computed on days
  since 1970 as ECMAScript prescribes.  The URL parser and \<open>Date.parse\<close> belong to the host and are parameters.
\<close>

section \<open>Character classes\<close>

abbreviation code_of :: "char \<Rightarrow> nat" where
  "code_of c \<equiv> of_char c"

definition in_range :: "nat \<Rightarrow> nat \<Rightarrow> char \<Rightarrow> bool" where
  "in_range a b c = (a \<le> code_of c \<and> code_of c \<le> b)"

definition is_hex :: "char \<Rightarrow> bool" where
  "is_hex c = (in_range 48 57 c \<or> in_range 65 70 c \<or> in_range 97 102 c)"

definition is_alnum :: "char \<Rightarrow> bool" where
  "is_alnum c = (in_range 48 57 c \<or> in_range 65 90 c \<or> in_range 97 122 c)"

definition is_sign :: "char \<Rightarrow> bool" where
  "is_sign c = (c = CHR ''+'' \<or> c = CHR ''-'')"

text \<open>A fixed sequence of classes at the start of a text, and the text after it.\<close>

fun strip_classes :: "(char \<Rightarrow> bool) list \<Rightarrow> string \<Rightarrow> string option" where
  "strip_classes [] s = Some s"
| "strip_classes (p # ps) [] = None"
| "strip_classes (p # ps) (c # cs) = (if p c then strip_classes ps cs else None)"

definition full_classes :: "(char \<Rightarrow> bool) list \<Rightarrow> string \<Rightarrow> bool" where
  "full_classes ps s = (strip_classes ps s = Some [])"

text \<open>\<open>(?:\.\d+)?\<close>\<close>

definition strip_fraction :: "string \<Rightarrow> string" where
  "strip_fraction s =
     (case s of
        c # d # cs \<Rightarrow> if c = CHR ''.'' \<and> is_digit d then dropWhile is_digit cs else s
      | _ \<Rightarrow> s)"

abbreviation lit :: "char \<Rightarrow> char \<Rightarrow> bool" where
  "lit c \<equiv> (=) c"

section \<open>Days\<close>

definition day_from_year :: "int \<Rightarrow> int" where
  "day_from_year y = 365 * (y - 1970) + (y - 1969) div 4 - (y - 1901) div 100 + (y - 1601) div 400"

definition leap_year :: "int \<Rightarrow> bool" where
  "leap_year y = (y mod 4 = 0 \<and> (y mod 100 \<noteq> 0 \<or> y mod 400 = 0))"

text \<open>Months are counted from 0.\<close>

definition days_in_month :: "bool \<Rightarrow> nat \<Rightarrow> int" where
  "days_in_month leap m = (if m = 1 then (if leap then 29 else 28) else if m \<in> {3, 5, 8, 10} then 30 else 31)"

fun month_start :: "bool \<Rightarrow> nat \<Rightarrow> int" where
  "month_start leap 0 = 0"
| "month_start leap (Suc m) = month_start leap m + days_in_month leap m"

definition make_day :: "int \<Rightarrow> int \<Rightarrow> int \<Rightarrow> int" where
  "make_day y m d =
     (let ym = y + m div 12
      in day_from_year ym + month_start (leap_year ym) (nat (m mod 12)) + (d - 1))"

text \<open>The year of a day: the last one that starts no later.\<close>

lemma div_step: "(z + 1) div k = z div k + (if k dvd z + 1 then 1 else 0)" if "0 < k" for z k :: int
proof -
  have z: "z = k * (z div k) + z mod k" "0 \<le> z mod k" "z mod k < k" using that by simp_all
  show ?thesis
  proof (cases "z mod k = k - 1")
    case True
    then have "z + 1 = k * (z div k + 1)" unfolding distrib_left using z(1) by linarith
    then show ?thesis using that by simp
  next
    case False
    then have m: "z mod k + 1 < k" using z by simp
    have s: "z + 1 = k * (z div k) + (z mod k + 1)" using z(1) by simp
    have "(z + 1) div k = z div k" using m z(2) by (intro int_div_pos_eq [OF s]) auto
    moreover have "(z + 1) mod k = z mod k + 1" using m z(2) by (intro int_mod_pos_eq [OF s]) auto
    ultimately show ?thesis using z(2) by (simp add: dvd_eq_mod_eq_0)
  qed
qed

lemma year_sum:
  "(R \<Longrightarrow> Q) \<Longrightarrow> (Q \<Longrightarrow> P) \<Longrightarrow>
   365 * (y + 1 - 1970) + (a + (if P then 1 else 0)) - (b + (if Q then 1 else 0)) + (c + (if R then 1 else 0))
     = 365 * (y - 1970) + a - b + c + (if P \<and> (\<not> Q \<or> R) then 366 else 365)" for y a b c :: int
  by (cases P; cases Q; cases R; simp)

lemma day_from_year_Suc: "day_from_year (y + 1) = day_from_year y + (if leap_year y then 366 else 365)"
proof -
  have e: "y + 1 - 1969 = y - 1969 + 1" "y + 1 - 1901 = y - 1901 + 1" "y + 1 - 1601 = y - 1601 + 1"
    "y - 1969 + 1 = y - 1968" "y - 1901 + 1 = y - 1900" "y - 1601 + 1 = y - 1600" by simp_all
  have d: "4 dvd y - 1968 \<longleftrightarrow> 4 dvd y" "100 dvd y - 1900 \<longleftrightarrow> 100 dvd y" "400 dvd y - 1600 \<longleftrightarrow> 400 dvd y"
    by (simp_all add: dvd_diff_left_iff)
  have a: "(y + 1 - 1969) div 4 = (y - 1969) div 4 + (if 4 dvd y then 1 else 0)"
    unfolding e(1) e(4) by (rule div_step [of 4 "y - 1969", unfolded e(4) d(1)]) simp
  have b: "(y + 1 - 1901) div 100 = (y - 1901) div 100 + (if 100 dvd y then 1 else 0)"
    unfolding e(2) e(5) by (rule div_step [of 100 "y - 1901", unfolded e(5) d(2)]) simp
  have c: "(y + 1 - 1601) div 400 = (y - 1601) div 400 + (if 400 dvd y then 1 else 0)"
    unfolding e(3) e(6) by (rule div_step [of 400 "y - 1601", unfolded e(6) d(3)]) simp
  have "100 dvd y \<Longrightarrow> 4 dvd y" "400 dvd y \<Longrightarrow> 100 dvd y" using dvd_trans [of 4 100 y] dvd_trans [of 100 400 y] by simp_all
  then show ?thesis unfolding day_from_year_def a b c leap_year_def mod_eq_0_iff_dvd by (intro year_sum)
qed

lemma year_grows: "day_from_year y < day_from_year (y + 1)"
  by (simp add: day_from_year_Suc)

function year_up :: "int \<Rightarrow> int \<Rightarrow> int" where
  "year_up y day = (if day_from_year (y + 1) \<le> day then year_up (y + 1) day else y)"
  by pat_completeness auto
termination
  by (relation "measure (\<lambda>(y, day). nat (day - day_from_year y))") (use year_grows in \<open>auto intro: less_le_trans\<close>)

declare year_up.simps [simp del]

definition utc_year :: "int \<Rightarrow> int" where
  "utc_year day = year_up (1970 + min (day div 365) (day div 366)) day"

fun month_up :: "bool \<Rightarrow> nat \<Rightarrow> nat \<Rightarrow> int \<Rightarrow> nat \<times> int" where
  "month_up leap m 0 d = (m, d)"
| "month_up leap m (Suc n) d = (if d < days_in_month leap m then (m, d) else month_up leap (Suc m) n (d - days_in_month leap m))"

definition utc_month_date :: "int \<Rightarrow> nat \<times> int" where
  "utc_month_date day =
     (let y = utc_year day; (m, d) = month_up (leap_year y) 0 11 (day - day_from_year y) in (m, d + 1))"

text \<open>\<open>Date.UTC\<close> takes the years 0 to 99 for those of the twentieth century.\<close>

definition date_utc :: "int \<Rightarrow> int \<Rightarrow> int \<Rightarrow> int" where
  "date_utc y m d = make_day (if 0 \<le> y \<and> y \<le> 99 then 1900 + y else y) m d"

section \<open>Formats\<close>

definition date_fields :: "string \<Rightarrow> (nat \<times> nat \<times> nat) option" where
  "date_fields s =
     (if full_classes [is_digit, is_digit, is_digit, is_digit, lit CHR ''-'', is_digit, is_digit, lit CHR ''-'', is_digit, is_digit] s
      then Some (read_nat (take 4 s), read_nat (take 2 (drop 5 s)), read_nat (drop 8 s)) else None)"

definition isValidDate :: "string \<Rightarrow> bool" where
  "isValidDate s =
     (case date_fields s of
        None \<Rightarrow> False
      | Some (y, m, d) \<Rightarrow>
          (let day = date_utc (int y) (int m - 1) (int d)
           in utc_year day = int y \<and> int (fst (utc_month_date day)) = int m - 1 \<and> snd (utc_month_date day) = int d))"

definition hostname_part :: "string \<Rightarrow> bool" where
  "hostname_part p =
     (p \<noteq> [] \<and> length p \<le> 63 \<and> is_alnum (hd p) \<and> is_alnum (last p) \<and> list_all (\<lambda>c. is_alnum c \<or> c = CHR ''-'') p)"

definition isValidHostname :: "string \<Rightarrow> bool" where
  "isValidHostname s =
     (s \<noteq> [] \<and> length s \<le> 253 \<and> \<not> ends_with s ''.'' \<and> list_all hostname_part (split_on CHR ''.'' s))"

definition ipv4_part :: "string \<Rightarrow> bool" where
  "ipv4_part p =
     ((p = ''0'' \<or> p \<noteq> [] \<and> length p \<le> 3 \<and> in_range 49 57 (hd p) \<and> list_all is_digit p) \<and> read_nat p \<le> 255)"

definition isValidIpv4 :: "string \<Rightarrow> bool" where
  "isValidIpv4 s = (length (split_on CHR ''.'' s) = 4 \<and> list_all ipv4_part (split_on CHR ''.'' s))"

text \<open>What the host knows of a text that it parses as a URL: protocol and host name.\<close>

type_synonym url_parser = "string \<Rightarrow> (string \<times> string) option"

fun split_first :: "char \<Rightarrow> string \<Rightarrow> string \<times> string option" where
  "split_first c [] = ([], None)"
| "split_first c (x # xs) = (if x = c then ([], Some xs) else (let (a, b) = split_first c xs in (x # a, b)))"

definition isValidIpv6 :: "url_parser \<Rightarrow> string \<Rightarrow> bool" where
  "isValidIpv6 parse s =
     (let (address, zone) = split_first CHR ''%'' s
      in address \<noteq> [] \<and> list_all (\<lambda>c. is_hex c \<or> c = CHR '':'' \<or> c = CHR ''.'') address
         \<and> (case zone of None \<Rightarrow> True
            | Some z \<Rightarrow> z \<noteq> [] \<and> list_all (\<lambda>c. is_alnum c \<or> c = CHR '':'' \<or> c = CHR ''.'' \<or> c = CHR ''-'') z)
         \<and> (case parse (''http://['' @ address @ '']/'') of
              None \<Rightarrow> False
            | Some (protocol, host) \<Rightarrow> starts_with host ''['' \<and> ends_with host '']''))"

definition date_time_shape :: "string \<Rightarrow> bool" where
  "date_time_shape s =
     (case strip_classes [is_digit, is_digit, is_digit, is_digit, lit CHR ''-'', is_digit, is_digit, lit CHR ''-'', is_digit, is_digit,
             lit CHR ''T'', is_digit, is_digit, lit CHR '':'', is_digit, is_digit, lit CHR '':'', is_digit, is_digit] s of
        None \<Rightarrow> False
      | Some r \<Rightarrow> (let z = strip_fraction r
                   in z = ''Z'' \<or> full_classes [is_sign, is_digit, is_digit, lit CHR '':'', is_digit, is_digit] z))"

definition time_shape :: "string \<Rightarrow> bool" where
  "time_shape s =
     (let hours = take 2 s; minutes = in_range 48 53
      in (full_classes [in_range 48 49, is_digit] hours \<or> full_classes [lit CHR ''2'', in_range 48 51] hours)
         \<and> (case strip_classes [lit CHR '':'', minutes, is_digit, lit CHR '':'', minutes, is_digit] (drop 2 s) of
              None \<Rightarrow> False
            | Some r \<Rightarrow> (let z = strip_fraction r
                         in z = [] \<or> z = ''Z'' \<or> full_classes [is_sign, in_range 48 49, is_digit, lit CHR '':'', minutes, is_digit] z)))"

text \<open>\<open>[^\s@]+@[^\s@]+\.[^\s@]+\<close>: one \<open>@\<close>, no white space, and a dot inside what follows it.\<close>

fun has_space :: "string \<Rightarrow> bool" where
  "has_space [] = False"
| "has_space (c # cs) = (match_ws ws_chars (c # cs) \<noteq> None \<or> has_space cs)"

definition email_shape :: "string \<Rightarrow> bool" where
  "email_shape s =
     (\<not> has_space s \<and>
      (case split_on CHR ''@'' s of
         [name, domain] \<Rightarrow> name \<noteq> [] \<and> CHR ''.'' \<in> set (butlast (tl domain))
       | _ \<Rightarrow> False))"

definition uuid_shape :: "string \<Rightarrow> bool" where
  "uuid_shape s =
     full_classes (replicate 8 is_hex @ [lit CHR ''-''] @ replicate 4 is_hex @ [lit CHR ''-'', in_range 49 53] @ replicate 3 is_hex
       @ [lit CHR ''-'', \<lambda>c. c \<in> {CHR ''8'', CHR ''9'', CHR ''a'', CHR ''b'', CHR ''A'', CHR ''B''}] @ replicate 3 is_hex
       @ [lit CHR ''-''] @ replicate 12 is_hex) s"

datatype schema_format = FDate | FDateTime | FEmail | FHostname | FIpv4 | FIpv6 | FTime | FUri | FUrl | FUuid

fun matchesFormat :: "url_parser \<Rightarrow> (string \<Rightarrow> bool) \<Rightarrow> string \<Rightarrow> schema_format \<Rightarrow> bool" where
  "matchesFormat parse parses_date s FDate = isValidDate s"
| "matchesFormat parse parses_date s FDateTime = (date_time_shape s \<and> parses_date s)"
| "matchesFormat parse parses_date s FEmail = email_shape s"
| "matchesFormat parse parses_date s FHostname = isValidHostname s"
| "matchesFormat parse parses_date s FIpv4 = isValidIpv4 s"
| "matchesFormat parse parses_date s FIpv6 = isValidIpv6 parse s"
| "matchesFormat parse parses_date s FTime = time_shape s"
| "matchesFormat parse parses_date s FUri = (parse s \<noteq> None)"
| "matchesFormat parse parses_date s FUrl = (case parse s of None \<Rightarrow> False | Some (protocol, host) \<Rightarrow> protocol = ''http:'' \<or> protocol = ''https:'')"
| "matchesFormat parse parses_date s FUuid = uuid_shape s"

section \<open>The calendar\<close>

lemma month_start_year: "month_start leap 12 = (if leap then 366 else 365)"
  by (simp add: numeral_eq_Suc days_in_month_def)

lemma days_in_month_pos: "28 \<le> days_in_month leap m"
  by (simp add: days_in_month_def)

lemma month_start_mono: "i < j \<Longrightarrow> month_start leap i + days_in_month leap i \<le> month_start leap j"
proof (induction j)
  case (Suc j)
  then show ?case using days_in_month_pos [of leap j] by (cases "i = j") (auto simp: not_less less_Suc_eq)
qed simp

lemma year_mono: "y < y' \<Longrightarrow> day_from_year y < day_from_year y'"
proof -
  assume "y < y'"
  then obtain n where n: "y' = y + int (Suc n)" by (metis zless_iff_Suc_zadd)
  have "day_from_year y < day_from_year (y + int (Suc n))"
  proof (induction n)
    case 0
    then show ?case using year_grows by simp
  next
    case (Suc n)
    then show ?case using year_grows [of "y + int (Suc n)"] by (simp add: algebra_simps)
  qed
  then show ?thesis by (simp add: n)
qed

lemma year_upper: "day_from_year (1970 + int n) \<le> 366 * int n" "day_from_year (1970 - int n) \<le> - 365 * int n"
proof -
  show "day_from_year (1970 + int n) \<le> 366 * int n"
  proof (induction n)
    case 0
    then show ?case by (simp add: day_from_year_def)
  next
    case (Suc n)
    then show ?case using day_from_year_Suc [of "1970 + int n"] by (simp add: algebra_simps split: if_splits)
  qed
  show "day_from_year (1970 - int n) \<le> - 365 * int n"
  proof (induction n)
    case 0
    then show ?case by (simp add: day_from_year_def)
  next
    case (Suc n)
    have "1970 - int (Suc n) + 1 = 1970 - int n" by simp
    then show ?case using Suc day_from_year_Suc [of "1970 - int (Suc n)"] by (simp split: if_splits)
  qed
qed

lemma year_start: "day_from_year (1970 + min (day div 365) (day div 366)) \<le> day"
proof -
  let ?k = "min (day div 365) (day div 366)"
  have "365 * (day div 365) \<le> day" "366 * (day div 366) \<le> day" by (simp_all flip: minus_mod_eq_mult_div)
  moreover have "365 * ?k \<le> 365 * (day div 365)" "366 * ?k \<le> 366 * (day div 366)" by simp_all
  ultimately have k: "365 * ?k \<le> day" "366 * ?k \<le> day" by (blast intro: order_trans)+
  have "day_from_year (1970 + k) \<le> day" if "365 * k \<le> day" "366 * k \<le> day" for k
    using year_upper(1) [of "nat k"] year_upper(2) [of "nat (- k)"] that by (cases "0 \<le> k") simp_all
  then show ?thesis using k by blast
qed

lemma year_up_spec: "day_from_year y \<le> day \<Longrightarrow> day_from_year (year_up y day) \<le> day \<and> day < day_from_year (year_up y day + 1)"
proof (induction y day rule: year_up.induct)
  case (1 y day)
  then show ?case by (cases "day_from_year (y + 1) \<le> day") (simp_all add: year_up.simps [of y day])
qed

lemma utc_year_iff: "utc_year day = y \<longleftrightarrow> day_from_year y \<le> day \<and> day < day_from_year (y + 1)"
proof -
  have s: "day_from_year (utc_year day) \<le> day" "day < day_from_year (utc_year day + 1)"
    using year_up_spec [OF year_start] unfolding utc_year_def by blast+
  show ?thesis
  proof
    assume r: "day_from_year y \<le> day \<and> day < day_from_year (y + 1)"
    have "\<not> utc_year day < y" using year_mono [of "utc_year day + 1" y] s r by (cases "utc_year day + 1 = y") auto
    moreover have "\<not> y < utc_year day" using year_mono [of "y + 1" "utc_year day"] s r by (cases "y + 1 = utc_year day") auto
    ultimately show "utc_year day = y" by simp
  qed (use s in auto)
qed

lemma month_up_spec:
  "0 \<le> d \<Longrightarrow> m + n = 11 \<Longrightarrow> month_start leap m + d < month_start leap 12 \<Longrightarrow> month_up leap m n d = (m', d') \<Longrightarrow>
   m' \<le> 11 \<and> month_start leap m' + d' = month_start leap m + d \<and> 0 \<le> d' \<and> d' < days_in_month leap m'"
proof (induction leap m n d rule: month_up.induct)
  case (1 leap m d)
  have "month_start leap 12 = month_start leap 11 + days_in_month leap 11" by (simp add: numeral_eq_Suc)
  then show ?case using 1 by auto
qed (auto split: if_splits)

lemma month_unique:
  assumes "month_start leap i + d = month_start leap j + e" "0 \<le> d" "d < days_in_month leap i" "0 \<le> e" "e < days_in_month leap j"
  shows "i = j \<and> d = e"
  using assms month_start_mono [of i j leap] month_start_mono [of j i leap] by (cases i j rule: linorder_cases) auto

text \<open>The readings of a day: the only month and date of its year that give the day back.\<close>

lemma utc_month_date_spec:
  assumes "utc_year day = y"
  shows "fst (utc_month_date day) \<le> 11 \<and> 1 \<le> snd (utc_month_date day)
    \<and> snd (utc_month_date day) \<le> days_in_month (leap_year y) (fst (utc_month_date day))
    \<and> day_from_year y + month_start (leap_year y) (fst (utc_month_date day)) + (snd (utc_month_date day) - 1) = day"
proof -
  let ?d = "day - day_from_year y"
  have "0 \<le> ?d" "month_start (leap_year y) 0 + ?d < month_start (leap_year y) 12"
    using assms day_from_year_Suc [of y] by (auto simp: utc_year_iff month_start_year split: if_splits)
  moreover obtain m d where md: "month_up (leap_year y) 0 11 ?d = (m, d)" by fastforce
  ultimately have "m \<le> 11 \<and> month_start (leap_year y) m + d = ?d \<and> 0 \<le> d \<and> d < days_in_month (leap_year y) m"
    using month_up_spec [OF _ _ _ md] by simp
  then show ?thesis by (simp add: utc_month_date_def Let_def assms md algebra_simps)
qed

lemma utc_of_make_day:
  assumes "0 \<le> m" "m \<le> 11" "1 \<le> d" "d \<le> days_in_month (leap_year y) (nat m)"
  shows "utc_year (make_day y m d) = y \<and> utc_month_date (make_day y m d) = (nat m, d)"
proof -
  let ?t = "make_day y m d"
  have m: "m div 12 = 0" "m mod 12 = m" using assms by simp_all
  then have t: "?t = day_from_year y + month_start (leap_year y) (nat m) + (d - 1)" by (simp add: make_day_def Let_def)
  have "0 \<le> month_start (leap_year y) (nat m)" using month_start_mono [of 0 "nat m" "leap_year y"] days_in_month_pos [of "leap_year y" 0]
    by (cases "nat m = 0") auto
  moreover have "month_start (leap_year y) (nat m) + days_in_month (leap_year y) (nat m) \<le> month_start (leap_year y) 12"
    using month_start_mono assms by simp
  ultimately have y: "utc_year ?t = y"
    using assms day_from_year_Suc [of y] unfolding utc_year_iff t month_start_year by (auto split: if_splits)
  obtain i e where ie: "utc_month_date ?t = (i, e)" by fastforce
  with utc_month_date_spec [OF y] have "month_start (leap_year y) i + (e - 1) = month_start (leap_year y) (nat m) + (d - 1)"
    "1 \<le> e" "e \<le> days_in_month (leap_year y) i" by (auto simp: t)
  with month_unique [of "leap_year y" i "e - 1" "nat m" "d - 1"] assms show ?thesis using y ie by simp
qed

text \<open>A date is accepted exactly when it is a date of the Gregorian calendar in the year 100 or later: \<open>Date.UTC\<close>
  takes an earlier year for one of the twentieth century, so valid dates of the first hundred years are refused.\<close>

lemma date_format_exact:
  "isValidDate s \<longleftrightarrow>
     (\<exists>y m d. date_fields s = Some (y, m, d) \<and> 100 \<le> y \<and> 1 \<le> m \<and> m \<le> 12
        \<and> 1 \<le> d \<and> int d \<le> days_in_month (leap_year (int y)) (m - 1))"
proof (cases "date_fields s")
  case (Some f)
  obtain y m d where f: "f = (y, m, d)" by (cases f)
  let ?y = "if y \<le> 99 then 1900 + int y else int y"
  let ?t = "make_day ?y (int m - 1) (int d)"
  have t: "date_utc (int y) (int m - 1) (int d) = ?t" by (simp add: date_utc_def)
  have v: "isValidDate s \<longleftrightarrow> utc_year ?t = int y \<and> int (fst (utc_month_date ?t)) = int m - 1 \<and> snd (utc_month_date ?t) = int d"
    by (simp add: isValidDate_def Some f t Let_def)
  have "isValidDate s \<longleftrightarrow> 100 \<le> y \<and> 1 \<le> m \<and> m \<le> 12 \<and> 1 \<le> d \<and> int d \<le> days_in_month (leap_year (int y)) (m - 1)"
  proof
    assume "isValidDate s"
    then have h: "utc_year ?t = int y" "int (fst (utc_month_date ?t)) = int m - 1" "snd (utc_month_date ?t) = int d" by (simp_all add: v)
    have fs: "fst (utc_month_date ?t) = m - 1" "1 \<le> m" using h(2) by linarith+
    with utc_month_date_spec [OF h(1)] h(3) have r: "1 \<le> m" "m \<le> 12" "1 \<le> d" "int d \<le> days_in_month (leap_year (int y)) (m - 1)" by auto
    have "(int m - 1) div 12 = 0" "(int m - 1) mod 12 = int m - 1" using r by simp_all
    then have "?t = day_from_year ?y + month_start (leap_year ?y) (nat (int m - 1)) + (int d - 1)" by (simp add: make_day_def Let_def)
    moreover have "0 \<le> month_start (leap_year ?y) (nat (int m - 1))"
      using month_start_mono [of 0 "nat (int m - 1)" "leap_year ?y"] days_in_month_pos [of "leap_year ?y" 0]
      by (cases "nat (int m - 1) = 0") auto
    ultimately have "day_from_year ?y \<le> ?t" using r by simp
    then have "\<not> int y + 1 \<le> ?y" using h(1) year_mono [of "int y + 1" ?y] by (cases "int y + 1 = ?y") (auto simp: utc_year_iff)
    then show "100 \<le> y \<and> 1 \<le> m \<and> m \<le> 12 \<and> 1 \<le> d \<and> int d \<le> days_in_month (leap_year (int y)) (m - 1)" using r by (auto split: if_splits)
  next
    assume r: "100 \<le> y \<and> 1 \<le> m \<and> m \<le> 12 \<and> 1 \<le> d \<and> int d \<le> days_in_month (leap_year (int y)) (m - 1)"
    then have "nat (int m - 1) = m - 1" "?y = int y" by auto
    then show "isValidDate s" using utc_of_make_day [of "int m - 1" "int d" "int y"] r by (simp add: v of_nat_diff)
  qed
  then show ?thesis by (simp add: Some f)
qed (simp add: isValidDate_def)

end
