(* ===== verification/SchemaValidator.thy ===== *)
theory SchemaValidator
  imports Complex_Main SchemaFormats
begin

text \<open>
  Compiled closed JSON schemas and their validation (\<open>packages/foundation/src/security/closed-json-schema.ts\<close>, second
  half).  Schemas may bound fractions, so values have their own type here: a finite number is a rational, and the
  negative zero, which \<open>Object.is\<close> tells from zero, is a value of its own.  An object lists its own enumerable data
  properties; \<open>VOther\<close> stands for every further value, \<open>True\<close> for objects that are not plain.  Two values from
  different sources are never the same object.
\<close>

section \<open>Values\<close>

datatype double = Dbl rat | NegZero | NotANumber | Infinite bool

datatype jv =
    VUndef
  | VNull
  | VBool bool
  | VNum double
  | VStr string
  | VArr "jv list"
  | VObj "(string \<times> jv) list"
  | VOther bool

fun finite_value :: "double \<Rightarrow> rat option" where
  "finite_value (Dbl q) = Some q"
| "finite_value NegZero = Some 0"
| "finite_value _ = None"

definition double_less :: "rat \<Rightarrow> double \<Rightarrow> bool" where
  "double_less q d = (case finite_value d of None \<Rightarrow> False | Some r \<Rightarrow> q < r)"

definition double_greater :: "rat \<Rightarrow> double \<Rightarrow> bool" where
  "double_greater q d = (case finite_value d of None \<Rightarrow> False | Some r \<Rightarrow> r < q)"

text \<open>The characters of a text, counted by code points: bytes that do not continue a character.\<close>

definition stringLength :: "string \<Rightarrow> nat" where
  "stringLength s = length (filter (\<lambda>c. \<not> in_range 128 191 c) s)"

section \<open>Compiled nodes\<close>

datatype schema_type = TArray | TBoolean | TInteger | TNull | TNumber | TObject | TString

text \<open>What the host provides: the URL parser, \<open>Date.parse\<close>, the pattern engine and the text of a number.\<close>

record host =
  ho_url :: url_parser
  ho_date :: "string \<Rightarrow> bool"
  ho_pattern :: "string \<Rightarrow> (string \<Rightarrow> bool) option"
  ho_number :: "rat \<Rightarrow> string"

record node_facts =
  nf_types :: "schema_type list"
  nf_enum :: "jv list option"
  nf_const :: "jv option"
  nf_format :: "schema_format option"
  nf_pattern :: "(string \<Rightarrow> bool) option"
  nf_minimum :: "double option"
  nf_maximum :: "double option"
  nf_minLength :: "double option"
  nf_maxLength :: "double option"
  nf_minItems :: "double option"
  nf_maxItems :: "double option"
  nf_minProperties :: "double option"
  nf_maxProperties :: "double option"
  nf_required :: "string list"

datatype schema_node = Node
  (facts: node_facts)
  (additional: "bool + schema_node")
  (all_of: "schema_node list")
  (any_of: "schema_node list")
  (one_of: "schema_node list")
  (negated: "schema_node option")
  (items: "schema_node option")
  (properties: "(string \<times> schema_node) list")
  (source: jv)

section \<open>Validation\<close>

definition max_validation_steps :: nat where
  "max_validation_steps = 32768"

definition max_collection :: nat where
  "max_collection = 4096"

fun type_text :: "schema_type \<Rightarrow> string" where
  "type_text TArray = ''array''"
| "type_text TBoolean = ''boolean''"
| "type_text TInteger = ''integer''"
| "type_text TNull = ''null''"
| "type_text TNumber = ''number''"
| "type_text TObject = ''object''"
| "type_text TString = ''string''"

fun is_plain_object :: "jv \<Rightarrow> bool" where
  "is_plain_object (VObj _) = True"
| "is_plain_object _ = False"

fun valueMatchesType :: "jv \<Rightarrow> schema_type \<Rightarrow> bool" where
  "valueMatchesType v TArray = (case v of VArr _ \<Rightarrow> True | _ \<Rightarrow> False)"
| "valueMatchesType v TBoolean = (case v of VBool _ \<Rightarrow> True | _ \<Rightarrow> False)"
| "valueMatchesType v TInteger =
     (case v of VNum d \<Rightarrow> (case finite_value d of None \<Rightarrow> False | Some q \<Rightarrow> of_int \<lfloor>q\<rfloor> = q) | _ \<Rightarrow> False)"
| "valueMatchesType v TNull = (v = VNull)"
| "valueMatchesType v TNumber = (case v of VNum d \<Rightarrow> finite_value d \<noteq> None | _ \<Rightarrow> False)"
| "valueMatchesType v TObject = is_plain_object v"
| "valueMatchesType v TString = (case v of VStr _ \<Rightarrow> True | _ \<Rightarrow> False)"

text \<open>Equality with a counter of steps; \<open>None\<close> when the limit is passed.\<close>

fun object_is :: "jv \<Rightarrow> jv \<Rightarrow> bool" where
  "object_is VUndef w = (w = VUndef)"
| "object_is VNull w = (w = VNull)"
| "object_is (VBool b) w = (w = VBool b)"
| "object_is (VNum d) w = (w = VNum d)"
| "object_is (VStr s) w = (w = VStr s)"
| "object_is _ _ = False"

fun jsonValuesEqual :: "jv \<Rightarrow> jv \<Rightarrow> nat \<Rightarrow> bool option \<times> nat"
  and elements_equal :: "jv list \<Rightarrow> jv list \<Rightarrow> nat \<Rightarrow> bool option \<times> nat"
  and fields_equal :: "(string \<times> jv) list \<Rightarrow> (string \<times> jv) list \<Rightarrow> nat \<Rightarrow> bool option \<times> nat" where
  "jsonValuesEqual v w n =
     (if Suc n > max_validation_steps then (None, Suc n)
      else if object_is v w then (Some True, Suc n)
      else case (v, w) of
        (VArr vs, VArr ws) \<Rightarrow> if length vs \<noteq> length ws then (Some False, Suc n) else elements_equal vs ws (Suc n)
      | (VObj ps, VObj qs) \<Rightarrow> if length ps \<noteq> length qs then (Some False, Suc n) else fields_equal ps qs (Suc n)
      | _ \<Rightarrow> (Some False, Suc n))"
| "elements_equal (v # vs) (w # ws) n =
     (case jsonValuesEqual v w n of (Some True, n') \<Rightarrow> elements_equal vs ws n' | r \<Rightarrow> r)"
| "elements_equal _ _ n = (Some True, n)"
| "fields_equal ((k, v) # ps) qs n =
     (case map_of qs k of
        None \<Rightarrow> (Some False, n)
      | Some w \<Rightarrow> (case jsonValuesEqual v w n of (Some True, n') \<Rightarrow> fields_equal ps qs n' | r \<Rightarrow> r))"
| "fields_equal [] qs n = (Some True, n)"

declare jsonValuesEqual.simps [simp del]

text \<open>The result of a check; a failure tells whether it is for want of work.\<close>

datatype verdict = Accepts | Refuses string bool

text \<open>A check runs on the number of steps so far.\<close>

type_synonym stage = "nat \<Rightarrow> verdict \<times> nat"
type_synonym validator = "jv \<Rightarrow> string \<Rightarrow> stage"

definition pass :: stage where
  "pass n = (Accepts, n)"

definition refuse_if :: "bool \<Rightarrow> string \<Rightarrow> stage" where
  "refuse_if b e n = (if b then (Refuses e False, n) else (Accepts, n))"

definition work_limit :: "string \<Rightarrow> string" where
  "work_limit path = path @ '' exceeds the validation work limit.''"

fun in_turn :: "stage list \<Rightarrow> stage" where
  "in_turn [] n = (Accepts, n)"
| "in_turn (f # fs) n = (case f n of (Accepts, n') \<Rightarrow> in_turn fs n' | r \<Rightarrow> r)"

fun enum_stage :: "jv \<Rightarrow> string \<Rightarrow> jv list \<Rightarrow> stage" where
  "enum_stage v path [] n = (Refuses (path @ '' must match a declared enum value.'') False, n)"
| "enum_stage v path (e # es) n =
     (case jsonValuesEqual e v n of
        (None, n') \<Rightarrow> (Refuses (work_limit path) True, n')
      | (Some True, n') \<Rightarrow> (Accepts, n')
      | (Some False, n') \<Rightarrow> enum_stage v path es n')"

definition const_stage :: "jv \<Rightarrow> string \<Rightarrow> jv \<Rightarrow> stage" where
  "const_stage v path c n =
     (case jsonValuesEqual c v n of
        (None, n') \<Rightarrow> (Refuses (work_limit path) True, n')
      | (Some True, n') \<Rightarrow> (Accepts, n')
      | (Some False, n') \<Rightarrow> (Refuses (path @ '' must match the declared const value.'') False, n'))"

fun all_stage :: "jv \<Rightarrow> string \<Rightarrow> validator list \<Rightarrow> stage" where
  "all_stage v path [] n = (Accepts, n)"
| "all_stage v path (f # fs) n =
     (case f v path n of
        (Accepts, n') \<Rightarrow> all_stage v path fs n'
      | (Refuses e True, n') \<Rightarrow> (Refuses e True, n')
      | (Refuses e False, n') \<Rightarrow> (Refuses (path @ '' does not satisfy allOf.'') False, n'))"

fun any_loop :: "jv \<Rightarrow> string \<Rightarrow> string option \<Rightarrow> validator list \<Rightarrow> stage" where
  "any_loop v path ind [] n =
     (case ind of Some e \<Rightarrow> (Refuses e True, n) | None \<Rightarrow> (Refuses (path @ '' does not satisfy anyOf.'') False, n))"
| "any_loop v path ind (f # fs) n =
     (case f v path n of
        (Accepts, n') \<Rightarrow> (Accepts, n')
      | (Refuses e i, n') \<Rightarrow> any_loop v path (if i then Some e else ind) fs n')"

definition any_stage :: "jv \<Rightarrow> string \<Rightarrow> validator list \<Rightarrow> stage" where
  "any_stage v path fs n = (if fs = [] then (Accepts, n) else any_loop v path None fs n)"

definition one_failed :: "string \<Rightarrow> string" where
  "one_failed path = path @ '' does not satisfy exactly one oneOf branch.''"

fun one_loop :: "jv \<Rightarrow> string \<Rightarrow> nat \<Rightarrow> string option \<Rightarrow> validator list \<Rightarrow> stage" where
  "one_loop v path matches ind [] n =
     (case ind of
        Some e \<Rightarrow> (Refuses e True, n)
      | None \<Rightarrow> if matches \<noteq> 1 then (Refuses (one_failed path) False, n) else (Accepts, n))"
| "one_loop v path matches ind (f # fs) n =
     (case f v path n of
        (Accepts, n') \<Rightarrow> if 1 < Suc matches then (Refuses (one_failed path) False, n') else one_loop v path (Suc matches) ind fs n'
      | (Refuses e i, n') \<Rightarrow>
          if 1 < matches then (Refuses (one_failed path) False, n')
          else one_loop v path matches (if i then Some e else ind) fs n')"

definition one_stage :: "jv \<Rightarrow> string \<Rightarrow> validator list \<Rightarrow> stage" where
  "one_stage v path fs n = (if fs = [] then (Accepts, n) else one_loop v path 0 None fs n)"

definition not_stage :: "jv \<Rightarrow> string \<Rightarrow> validator option \<Rightarrow> stage" where
  "not_stage v path f n =
     (case f of
        None \<Rightarrow> (Accepts, n)
      | Some g \<Rightarrow>
          (case g v path n of
             (Accepts, n') \<Rightarrow> (Refuses (path @ '' matches the disallowed schema.'') False, n')
           | (Refuses e True, n') \<Rightarrow> (Refuses e True, n')
           | (Refuses e False, n') \<Rightarrow> (Accepts, n')))"

fun item_stages :: "string \<Rightarrow> validator \<Rightarrow> nat \<Rightarrow> jv list \<Rightarrow> stage list" where
  "item_stages path f i [] = []"
| "item_stages path f i (v # vs) = f v (path @ ''['' @ show_nat i @ '']'') # item_stages path f (Suc i) vs"

definition property_stage :: "string \<Rightarrow> (string \<times> validator) list \<Rightarrow> bool + validator \<Rightarrow> string \<times> jv \<Rightarrow> stage" where
  "property_stage path fs rest p =
     (case map_of fs (fst p) of
        Some f \<Rightarrow> f (snd p) (path @ ''.'' @ fst p)
      | None \<Rightarrow>
          (case rest of
             Inl b \<Rightarrow> refuse_if (\<not> b) (path @ '' contains an undeclared property.'')
           | Inr f \<Rightarrow> f (snd p) (path @ ''.'' @ fst p)))"

definition below :: "nat \<Rightarrow> double option \<Rightarrow> bool" where
  "below k limit = (case limit of None \<Rightarrow> False | Some d \<Rightarrow> double_less (of_nat k) d)"

definition above :: "nat \<Rightarrow> double option \<Rightarrow> bool" where
  "above k limit = (case limit of None \<Rightarrow> False | Some d \<Rightarrow> double_greater (of_nat k) d)"

fun type_names :: "schema_type list \<Rightarrow> string list" where
  "type_names ts = map type_text ts"

fun format_text :: "schema_format \<Rightarrow> string" where
  "format_text FDate = ''date''"
| "format_text FDateTime = ''date-time''"
| "format_text FEmail = ''email''"
| "format_text FHostname = ''hostname''"
| "format_text FIpv4 = ''ipv4''"
| "format_text FIpv6 = ''ipv6''"
| "format_text FTime = ''time''"
| "format_text FUri = ''uri''"
| "format_text FUrl = ''url''"
| "format_text FUuid = ''uuid''"

definition string_stages :: "host \<Rightarrow> node_facts \<Rightarrow> string \<Rightarrow> string \<Rightarrow> stage list" where
  "string_stages x f s path =
     [refuse_if (below (stringLength s) (nf_minLength f)) (path @ '' is shorter than minLength.''),
      refuse_if (above (stringLength s) (nf_maxLength f)) (path @ '' exceeds maxLength.''),
      refuse_if (case nf_pattern f of None \<Rightarrow> False | Some t \<Rightarrow> \<not> t s) (path @ '' must match the declared pattern.''),
      (case nf_format f of None \<Rightarrow> pass
       | Some g \<Rightarrow> refuse_if (\<not> matchesFormat (ho_url x) (ho_date x) s g) (path @ '' must match format '' @ format_text g @ ''.''))]"

definition number_stages :: "node_facts \<Rightarrow> rat \<Rightarrow> string \<Rightarrow> stage list" where
  "number_stages f q path =
     [refuse_if (case nf_minimum f of None \<Rightarrow> False | Some d \<Rightarrow> double_less q d) (path @ '' is below minimum.''),
      refuse_if (case nf_maximum f of None \<Rightarrow> False | Some d \<Rightarrow> double_greater q d) (path @ '' exceeds maximum.'')]"

definition array_stages :: "node_facts \<Rightarrow> validator option \<Rightarrow> jv list \<Rightarrow> string \<Rightarrow> stage list" where
  "array_stages f it vs path =
     [refuse_if (max_collection < length vs) (path @ '' exceeds the collection validation limit.''),
      refuse_if (below (length vs) (nf_minItems f)) (path @ '' has fewer items than minItems.''),
      refuse_if (above (length vs) (nf_maxItems f)) (path @ '' has more items than maxItems.'')]
     @ (case it of None \<Rightarrow> [] | Some g \<Rightarrow> item_stages path g 0 vs)"

definition object_stages :: "node_facts \<Rightarrow> (string \<times> validator) list \<Rightarrow> bool + validator \<Rightarrow> (string \<times> jv) list \<Rightarrow> string \<Rightarrow> stage list" where
  "object_stages f pr ad ps path =
     [refuse_if (max_collection < length ps) (path @ '' exceeds the collection validation limit.''),
      refuse_if (below (length ps) (nf_minProperties f)) (path @ '' has fewer properties than minProperties.''),
      refuse_if (above (length ps) (nf_maxProperties f)) (path @ '' has more properties than maxProperties.'')]
     @ map (\<lambda>k. refuse_if (map_of ps k = None) (path @ '' is missing a required property.'')) (nf_required f)
     @ map (property_stage path pr ad) ps"

definition value_stages :: "host \<Rightarrow> node_facts \<Rightarrow> bool + validator \<Rightarrow> validator option \<Rightarrow> (string \<times> validator) list \<Rightarrow> jv \<Rightarrow> string \<Rightarrow> stage list" where
  "value_stages x f ad it pr v path =
     (case v of
        VStr s \<Rightarrow> string_stages x f s path
      | VNum d \<Rightarrow> (case finite_value d of None \<Rightarrow> [] | Some q \<Rightarrow> number_stages f q path)
      | VArr vs \<Rightarrow> array_stages f it vs path
      | VObj ps \<Rightarrow> object_stages f pr ad ps path
      | _ \<Rightarrow> [])"

definition type_stage :: "node_facts \<Rightarrow> jv \<Rightarrow> string \<Rightarrow> stage" where
  "type_stage f v path =
     refuse_if (nf_types f \<noteq> [] \<and> \<not> list_ex (valueMatchesType v) (nf_types f))
       (path @ '' must be '' @ join '' or '' (type_names (nf_types f)) @ ''.'')"

definition node_validator ::
    "host \<Rightarrow> node_facts \<Rightarrow> bool + validator \<Rightarrow> validator list \<Rightarrow> validator list \<Rightarrow> validator list \<Rightarrow> validator option
     \<Rightarrow> validator option \<Rightarrow> (string \<times> validator) list \<Rightarrow> validator" where
  "node_validator x f ad al an oo ng it pr v path n =
     (if Suc n > max_validation_steps then (Refuses (work_limit path) True, Suc n)
      else in_turn
        ([type_stage f v path,
          (case nf_enum f of None \<Rightarrow> pass | Some es \<Rightarrow> enum_stage v path es),
          (case nf_const f of None \<Rightarrow> pass | Some c \<Rightarrow> const_stage v path c),
          all_stage v path al, any_stage v path an, one_stage v path oo, not_stage v path ng]
         @ value_stages x f ad it pr v path) (Suc n))"

primrec validateNode :: "host \<Rightarrow> schema_node \<Rightarrow> validator" where
  "validateNode x (Node f ad al an oo ng it pr src) =
     node_validator x f (map_sum (\<lambda>b. b) (validateNode x) ad) (map (validateNode x) al) (map (validateNode x) an)
       (map (validateNode x) oo) (map_option (validateNode x) ng) (map_option (validateNode x) it)
       (map (map_prod (\<lambda>k. k) (validateNode x)) pr)"

end
