(* ===== verification/SchemaMeaning.thy ===== *)
theory SchemaMeaning
  imports SchemaValidator
begin

text \<open>
  What a compiled schema means, without counting steps and without a limit on collections, and the proof that
  validation decides it: the validator of a node is built from the validators of its parts by stages, each of which is
  shown to decide its constraint within a number of steps.
\<close>

section \<open>What a schema means\<close>

text \<open>Equality of JSON values: the order of properties does not matter.\<close>

fun same_value :: "jv \<Rightarrow> jv \<Rightarrow> bool" where
  "same_value (VArr vs) w = (case w of VArr ws \<Rightarrow> list_all2 same_value vs ws | _ \<Rightarrow> False)"
| "same_value (VObj ps) w =
     (case w of
        VObj qs \<Rightarrow> length ps = length qs \<and> (\<forall>p \<in> set ps. \<exists>u. map_of qs (fst p) = Some u \<and> same_value (snd p) u)
      | _ \<Rightarrow> False)"
| "same_value (VOther b) w = False"
| "same_value v w = (v = w)"

text \<open>The meaning of the constraints on the parts of a value, from the meanings of the schemas of its parts.\<close>

definition value_meaning ::
    "host \<Rightarrow> node_facts \<Rightarrow> bool + (jv \<Rightarrow> bool) \<Rightarrow> (jv \<Rightarrow> bool) option \<Rightarrow> (string \<times> (jv \<Rightarrow> bool)) list \<Rightarrow> jv \<Rightarrow> bool" where
  "value_meaning x f ad it pr v \<longleftrightarrow>
     (case v of
        VStr s \<Rightarrow> \<not> below (stringLength s) (nf_minLength f) \<and> \<not> above (stringLength s) (nf_maxLength f)
          \<and> (\<forall>t. nf_pattern f = Some t \<longrightarrow> t s) \<and> (\<forall>g. nf_format f = Some g \<longrightarrow> matchesFormat (ho_url x) (ho_date x) s g)
      | VNum d \<Rightarrow> (\<forall>q. finite_value d = Some q \<longrightarrow>
          (\<forall>b. nf_minimum f = Some b \<longrightarrow> \<not> double_less q b) \<and> (\<forall>b. nf_maximum f = Some b \<longrightarrow> \<not> double_greater q b))
      | VArr vs \<Rightarrow> \<not> below (length vs) (nf_minItems f) \<and> \<not> above (length vs) (nf_maxItems f)
          \<and> (\<forall>g. it = Some g \<longrightarrow> (\<forall>v \<in> set vs. g v))
      | VObj ps \<Rightarrow> \<not> below (length ps) (nf_minProperties f) \<and> \<not> above (length ps) (nf_maxProperties f)
          \<and> (\<forall>k \<in> set (nf_required f). k \<in> fst ` set ps)
          \<and> (\<forall>(k, w) \<in> set ps. case map_of pr k of Some g \<Rightarrow> g w | None \<Rightarrow> (case ad of Inl b \<Rightarrow> b | Inr g \<Rightarrow> g w))
      | _ \<Rightarrow> True)"

definition node_meaning ::
    "host \<Rightarrow> node_facts \<Rightarrow> bool + (jv \<Rightarrow> bool) \<Rightarrow> (jv \<Rightarrow> bool) list \<Rightarrow> (jv \<Rightarrow> bool) list \<Rightarrow> (jv \<Rightarrow> bool) list
     \<Rightarrow> (jv \<Rightarrow> bool) option \<Rightarrow> (jv \<Rightarrow> bool) option \<Rightarrow> (string \<times> (jv \<Rightarrow> bool)) list \<Rightarrow> jv \<Rightarrow> bool" where
  "node_meaning x f ad al an oo ng it pr v \<longleftrightarrow>
     (nf_types f = [] \<or> (\<exists>t \<in> set (nf_types f). valueMatchesType v t))
     \<and> (\<forall>es. nf_enum f = Some es \<longrightarrow> (\<exists>e \<in> set es. same_value e v))
     \<and> (\<forall>c. nf_const f = Some c \<longrightarrow> same_value c v)
     \<and> (\<forall>p \<in> set al. p v) \<and> (an = [] \<or> (\<exists>p \<in> set an. p v))
     \<and> (oo = [] \<or> length (filter (\<lambda>p. p v) oo) = 1) \<and> (\<forall>p. ng = Some p \<longrightarrow> \<not> p v)
     \<and> value_meaning x f ad it pr v"

primrec satisfies :: "host \<Rightarrow> schema_node \<Rightarrow> jv \<Rightarrow> bool" where
  "satisfies x (Node f ad al an oo ng it pr src) =
     node_meaning x f (map_sum (\<lambda>b. b) (satisfies x) ad) (map (satisfies x) al) (map (satisfies x) an)
       (map (satisfies x) oo) (map_option (satisfies x) ng) (map_option (satisfies x) it)
       (map (map_prod (\<lambda>k. k) (satisfies x)) pr)"

text \<open>No collection of the value is larger than the validator looks at.\<close>

fun small :: "jv \<Rightarrow> bool" where
  "small (VArr vs) = (length vs \<le> max_collection \<and> list_all small vs)"
| "small (VObj ps) = (length ps \<le> max_collection \<and> list_all (\<lambda>p. small (snd p)) ps)"
| "small _ = True"

text \<open>A bound on the steps that a node spends on a value.\<close>

fun jv_nodes :: "jv \<Rightarrow> nat" where
  "jv_nodes (VArr vs) = Suc (sum_list (map jv_nodes vs))"
| "jv_nodes (VObj ps) = Suc (sum_list (map (\<lambda>p. jv_nodes (snd p)) ps))"
| "jv_nodes _ = 1"

definition parts_cost :: "bool + (jv \<Rightarrow> nat) \<Rightarrow> (jv \<Rightarrow> nat) option \<Rightarrow> (string \<times> (jv \<Rightarrow> nat)) list \<Rightarrow> jv \<Rightarrow> nat" where
  "parts_cost ad it pr v =
     (case v of
        VArr vs \<Rightarrow> (case it of None \<Rightarrow> 0 | Some g \<Rightarrow> sum_list (map g vs))
      | VObj ps \<Rightarrow> sum_list (map (\<lambda>p. case map_of pr (fst p) of Some g \<Rightarrow> g (snd p)
          | None \<Rightarrow> (case ad of Inl b \<Rightarrow> 0 | Inr g \<Rightarrow> g (snd p))) ps)
      | _ \<Rightarrow> 0)"

definition node_cost ::
    "node_facts \<Rightarrow> bool + (jv \<Rightarrow> nat) \<Rightarrow> (jv \<Rightarrow> nat) list \<Rightarrow> (jv \<Rightarrow> nat) list \<Rightarrow> (jv \<Rightarrow> nat) list
     \<Rightarrow> (jv \<Rightarrow> nat) option \<Rightarrow> (jv \<Rightarrow> nat) option \<Rightarrow> (string \<times> (jv \<Rightarrow> nat)) list \<Rightarrow> jv \<Rightarrow> nat" where
  "node_cost f ad al an oo ng it pr v =
     Suc ((case nf_enum f of None \<Rightarrow> 0 | Some es \<Rightarrow> sum_list (map jv_nodes es))
       + (case nf_const f of None \<Rightarrow> 0 | Some c \<Rightarrow> jv_nodes c)
       + sum_list (map (\<lambda>g. g v) al) + sum_list (map (\<lambda>g. g v) an) + sum_list (map (\<lambda>g. g v) oo)
       + (case ng of None \<Rightarrow> 0 | Some g \<Rightarrow> g v) + parts_cost ad it pr v)"

primrec validation_cost :: "schema_node \<Rightarrow> jv \<Rightarrow> nat" where
  "validation_cost (Node f ad al an oo ng it pr src) =
     node_cost f (map_sum (\<lambda>b. b) validation_cost ad) (map validation_cost al) (map validation_cost an)
       (map validation_cost oo) (map_option validation_cost ng) (map_option validation_cost it)
       (map (map_prod (\<lambda>k. k) validation_cost) pr)"

section \<open>Checks that decide\<close>

text \<open>A stage decides \<open>b\<close> within \<open>c\<close> steps: an answer is right, and only a stage that passed the limit gives none.\<close>

definition decides :: "stage \<Rightarrow> nat \<Rightarrow> bool \<Rightarrow> bool" where
  "decides st c b \<longleftrightarrow>
     (\<forall>n. n \<le> snd (st n) \<and> snd (st n) \<le> n + c \<and> (fst (st n) = Accepts \<longrightarrow> b) \<and> (\<forall>e. fst (st n) = Refuses e False \<longrightarrow> \<not> b)
        \<and> (\<forall>e. fst (st n) = Refuses e True \<longrightarrow> max_validation_steps < snd (st n)))"

lemma decidesI:
  assumes "\<And>n r n'. st n = (r, n') \<Longrightarrow> n \<le> n' \<and> n' \<le> n + c \<and> (r = Accepts \<longrightarrow> b) \<and> (\<forall>e. r = Refuses e False \<longrightarrow> \<not> b)
      \<and> (\<forall>e. r = Refuses e True \<longrightarrow> max_validation_steps < n')"
  shows "decides st c b"
  unfolding decides_def using assms by (metis prod.collapse)

lemma decidesD:
  assumes "decides st c b" "st n = (r, n')"
  shows "n \<le> n'" "n' \<le> n + c" "r = Accepts \<Longrightarrow> b" "r = Refuses e False \<Longrightarrow> \<not> b" "r = Refuses e True \<Longrightarrow> max_validation_steps < n'"
  using assms unfolding decides_def by (metis fst_conv snd_conv)+

lemma decides_weaken: "decides st c b \<Longrightarrow> c \<le> c' \<Longrightarrow> decides st c' b"
  unfolding decides_def by (meson add_left_mono le_trans)

lemma decides_pass: "decides pass 0 True"
  by (simp add: decides_def pass_def)

lemma decides_refuse: "decides (refuse_if b e) 0 (\<not> b)"
  by (simp add: decides_def refuse_if_def)

lemma turn_Nil: "decides (in_turn []) 0 True"
  by (simp add: decides_def)

lemma turn_Cons:
  assumes "decides f c b" "decides (in_turn fs) d q"
  shows "decides (in_turn (f # fs)) (c + d) (b \<and> q)"
proof (rule decidesI)
  fix n r n' assume r: "in_turn (f # fs) n = (r, n')"
  obtain r1 n1 where f: "f n = (r1, n1)" by fastforce
  show "n \<le> n' \<and> n' \<le> n + (c + d) \<and> (r = Accepts \<longrightarrow> b \<and> q) \<and> (\<forall>e. r = Refuses e False \<longrightarrow> \<not> (b \<and> q))
      \<and> (\<forall>e. r = Refuses e True \<longrightarrow> max_validation_steps < n')"
  proof (cases r1)
    case Accepts
    then show ?thesis using decidesD [OF assms(1) f] decidesD [OF assms(2), of n1 r n'] r f by fastforce
  next
    case (Refuses e i)
    then show ?thesis using decidesD [OF assms(1) f] r f by auto
  qed
qed

lemma turn_append: "decides (in_turn fs) c b \<Longrightarrow> decides (in_turn gs) d q \<Longrightarrow> decides (in_turn (fs @ gs)) (c + d) (b \<and> q)"
proof -
  assume f: "decides (in_turn fs) c b" and g: "decides (in_turn gs) d q"
  have "in_turn (fs @ gs) n = in_turn [in_turn fs, in_turn gs] n" for n
    by (induction fs arbitrary: n) (auto split: prod.splits verdict.splits)
  then have "in_turn (fs @ gs) = in_turn [in_turn fs, in_turn gs]" by blast
  then show ?thesis using turn_Cons [OF f turn_Cons [OF g turn_Nil]] by simp
qed

lemmas turn_intros = turn_Nil turn_Cons turn_append decides_pass decides_refuse

section \<open>Equality decides\<close>

text \<open>The same for the comparison of values.\<close>

definition compares :: "(nat \<Rightarrow> bool option \<times> nat) \<Rightarrow> nat \<Rightarrow> bool \<Rightarrow> bool" where
  "compares st c b \<longleftrightarrow>
     (\<forall>n. n \<le> snd (st n) \<and> snd (st n) \<le> n + c \<and> (\<forall>r. fst (st n) = Some r \<longrightarrow> r = b)
        \<and> (fst (st n) = None \<longrightarrow> max_validation_steps < snd (st n)))"

lemma comparesD:
  assumes "compares st c b" "st n = (r, n')"
  shows "n \<le> n'" "n' \<le> n + c" "r = Some q \<Longrightarrow> q = b" "r = None \<Longrightarrow> max_validation_steps < n'"
  using assms unfolding compares_def by (metis fst_conv snd_conv)+

lemma comparesI:
  assumes "\<And>n r n'. st n = (r, n') \<Longrightarrow> n \<le> n' \<and> n' \<le> n + c \<and> (\<forall>q. r = Some q \<longrightarrow> q = b) \<and> (r = None \<longrightarrow> max_validation_steps < n')"
  shows "compares st c b"
  unfolding compares_def using assms by (metis prod.collapse)

lemma compares_both:
  assumes "compares f c p" "compares g d q"
  shows "compares (\<lambda>n. case f n of (Some True, n') \<Rightarrow> g n' | r \<Rightarrow> r) (c + d) (p \<and> q)"
proof (rule comparesI)
  fix n r n' assume r: "(case f n of (Some True, n') \<Rightarrow> g n' | r \<Rightarrow> r) = (r, n')"
  obtain r1 n1 where f: "f n = (r1, n1)" by fastforce
  note F = comparesD [OF assms(1) f]
  show "n \<le> n' \<and> n' \<le> n + (c + d) \<and> (\<forall>s. r = Some s \<longrightarrow> s = (p \<and> q)) \<and> (r = None \<longrightarrow> max_validation_steps < n')"
  proof (cases "r1 = Some True")
    case True
    then have "g n1 = (r, n')" using r f by simp
    note G = comparesD [OF assms(2) this]
    have p: "p" using F(3) [OF True] by simp
    then have "\<forall>s. r = Some s \<longrightarrow> s = (p \<and> q)" using G(3) by blast
    moreover have "n \<le> n'" "n' \<le> n + (c + d)" using F(1,2) G(1,2) by linarith+
    ultimately show ?thesis using G(4) by blast
  next
    case False
    then have e: "r = r1" "n' = n1" using r f by (auto split: option.splits bool.splits)
    have "\<forall>s. r = Some s \<longrightarrow> s = (p \<and> q)" using F(3) False e by (metis (full_types))
    moreover have "n \<le> n'" "n' \<le> n + (c + d)" using F(1,2) e by linarith+
    ultimately show ?thesis using F(4) e by blast
  qed
qed

lemma compares_const: "compares (\<lambda>n. (Some b, n)) c b"
  by (simp add: compares_def)

lemma compares_cong: "compares f c p \<Longrightarrow> (\<And>n. g n = f n) \<Longrightarrow> q = p \<Longrightarrow> c \<le> d \<Longrightarrow> compares g d q"
  unfolding compares_def by (metis add_left_mono le_trans)

lemma compares_step:
  assumes "compares f c p"
  shows "compares (\<lambda>n. if Suc n > max_validation_steps then (None, Suc n) else f (Suc n)) (Suc c) p"
proof (rule comparesI)
  fix n r n' assume r: "(if Suc n > max_validation_steps then (None, Suc n) else f (Suc n)) = (r, n')"
  show "n \<le> n' \<and> n' \<le> n + Suc c \<and> (\<forall>q. r = Some q \<longrightarrow> q = p) \<and> (r = None \<longrightarrow> max_validation_steps < n')"
  proof (cases "Suc n > max_validation_steps")
    case True
    then show ?thesis using r by auto
  next
    case False
    then have "f (Suc n) = (r, n')" using r by simp
    from comparesD [OF assms this] show ?thesis by auto
  qed
qed

lemma primitive_same: "object_is v w \<Longrightarrow> same_value v w"
  by (cases v) auto

lemma not_same_primitive: "\<not> object_is v w \<Longrightarrow> same_value v w \<Longrightarrow> (\<exists>vs ws. v = VArr vs \<and> w = VArr ws) \<or> (\<exists>ps qs. v = VObj ps \<and> w = VObj qs)"
  by (cases v; cases w) auto

lemma compares_guard: "(\<not> b \<Longrightarrow> compares f c p) \<Longrightarrow> (b \<Longrightarrow> \<not> p) \<Longrightarrow> compares (\<lambda>n. if b then (Some False, n) else f n) c p"
  by (cases b) (simp_all add: compares_def)

lemma elements_compare:
  "length vs = length ws \<Longrightarrow> (\<And>v w. v \<in> set vs \<Longrightarrow> compares (jsonValuesEqual v w) (jv_nodes v) (same_value v w)) \<Longrightarrow>
   compares (elements_equal vs ws) (sum_list (map jv_nodes vs)) (list_all2 same_value vs ws)"
proof (induction vs ws rule: list_induct2)
  case Nil
  show ?case by (rule compares_cong [OF compares_const [of True 0]]) simp_all
next
  case (Cons v vs w ws)
  show ?case
    by (rule compares_cong [OF compares_both [OF Cons.prems [of v w] Cons.IH]]) (simp_all add: Cons.prems)
qed

lemma fields_compare:
  "(\<And>k v w. (k, v) \<in> set ps \<Longrightarrow> compares (jsonValuesEqual v w) (jv_nodes v) (same_value v w)) \<Longrightarrow>
   compares (fields_equal ps qs) (sum_list (map (\<lambda>p. jv_nodes (snd p)) ps))
     (\<forall>p \<in> set ps. \<exists>u. map_of qs (fst p) = Some u \<and> same_value (snd p) u)"
proof (induction ps)
  case Nil
  show ?case by (rule compares_cong [OF compares_const [of True 0]]) simp_all
next
  case (Cons p ps)
  obtain k v where p: "p = (k, v)" by fastforce
  show ?case
  proof (cases "map_of qs k")
    case None
    show ?thesis by (rule compares_cong [OF compares_const [of False 0]]) (simp_all add: p None)
  next
    case (Some u)
    show ?thesis
    proof (rule compares_cong [OF compares_both [OF Cons.prems [of k v u] Cons.IH]])
      show "compares (jsonValuesEqual v w) (jv_nodes v) (same_value v w)" if "(k, v) \<in> set ps" for k v w
        using Cons.prems [of k v w] that by simp
    qed (simp_all add: p Some)
  qed
qed

lemma jsonValuesEqual_step: "jsonValuesEqual v w n =
    (if Suc n > max_validation_steps then (None, Suc n)
     else (\<lambda>n. if object_is v w then (Some True, n)
      else case (v, w) of
        (VArr vs, VArr ws) \<Rightarrow> if length vs \<noteq> length ws then (Some False, n) else elements_equal vs ws n
      | (VObj ps, VObj qs) \<Rightarrow> if length ps \<noteq> length qs then (Some False, n) else fields_equal ps qs n
      | _ \<Rightarrow> (Some False, n)) (Suc n))"
  by (simp add: jsonValuesEqual.simps)

lemma jv_nodes_pos: "\<exists>k. jv_nodes v = Suc k"
  by (cases v) simp_all

lemma primitive_compares:
  assumes "\<nexists>vs. v = VArr vs" "\<nexists>ps. v = VObj ps"
  shows "compares (jsonValuesEqual v w) (jv_nodes v) (same_value v w)"
proof (rule compares_cong [OF compares_step [OF compares_const [of "object_is v w" 0]]])
  show "jsonValuesEqual v w n = (if max_validation_steps < Suc n then (None, Suc n) else (Some (object_is v w), Suc n))" for n
    using assms by (cases v) (auto simp: jsonValuesEqual.simps)
  show "same_value v w = object_is v w" using assms by (cases v) auto
  show "Suc 0 \<le> jv_nodes v" using jv_nodes_pos [of v] by auto
qed

text \<open>Comparison decides equality of values, within the size of the first one.\<close>

lemma equal_compares: "compares (jsonValuesEqual v w) (jv_nodes v) (same_value v w)"
proof (induction v arbitrary: w)
  case (VArr vs)
  have e: "compares (elements_equal vs ws) (sum_list (map jv_nodes vs)) (list_all2 same_value vs ws)" if "length vs = length ws" for ws
    using elements_compare [OF that] VArr by blast
  have c: "compares (\<lambda>n. case w of VArr ws \<Rightarrow> if length vs \<noteq> length ws then (Some False, n) else elements_equal vs ws n | _ \<Rightarrow> (Some False, n))
      (sum_list (map jv_nodes vs)) (same_value (VArr vs) w)"
    using e by (cases w) (auto simp: compares_const dest: list_all2_lengthD intro!: compares_guard)
  show ?case by (rule compares_cong [OF compares_step [OF c]]) (auto simp: jsonValuesEqual_step split: jv.splits)
next
  case (VObj ps)
  have e: "compares (fields_equal ps qs) (sum_list (map (\<lambda>p. jv_nodes (snd p)) ps))
      (\<forall>p \<in> set ps. \<exists>u. map_of qs (fst p) = Some u \<and> same_value (snd p) u)" for qs
    using VObj by (intro fields_compare) (auto simp: prod_set_defs)
  have c: "compares (\<lambda>n. case w of VObj qs \<Rightarrow> if length ps \<noteq> length qs then (Some False, n) else fields_equal ps qs n | _ \<Rightarrow> (Some False, n))
      (sum_list (map (\<lambda>p. jv_nodes (snd p)) ps)) (same_value (VObj ps) w)"
    using e by (cases w) (auto simp: compares_const intro!: compares_guard)
  show ?case by (rule compares_cong [OF compares_step [OF c]]) (auto simp: jsonValuesEqual_step split: jv.splits)
qed (rule primitive_compares; simp)+

section \<open>The stages decide\<close>

lemma decides_cong: "decides f c p \<Longrightarrow> q = p \<Longrightarrow> c \<le> d \<Longrightarrow> decides f d q"
  using decides_weaken by simp

lemma decides_enum: "decides (enum_stage v path es) (sum_list (map jv_nodes es)) (\<exists>e \<in> set es. same_value e v)"
proof (induction es)
  case Nil
  then show ?case by (simp add: decides_def)
next
  case (Cons e es)
  show ?case
  proof (rule decidesI)
    fix n r n' assume r: "enum_stage v path (e # es) n = (r, n')"
    obtain q n1 where q: "jsonValuesEqual e v n = (q, n1)" by fastforce
    note E = comparesD [OF equal_compares q]
    consider "q = None" | "q = Some True" | "q = Some False" by (cases q) auto
    then show "n \<le> n' \<and> n' \<le> n + sum_list (map jv_nodes (e # es)) \<and> (r = Accepts \<longrightarrow> (\<exists>a \<in> set (e # es). same_value a v))
        \<and> (\<forall>a. r = Refuses a False \<longrightarrow> \<not> (\<exists>a \<in> set (e # es). same_value a v)) \<and> (\<forall>a. r = Refuses a True \<longrightarrow> max_validation_steps < n')"
    proof cases
      case 3
      then have s: "enum_stage v path es n1 = (r, n')" "\<not> same_value e v" using r q E(3) by auto
      show ?thesis using decidesD [OF Cons.IH s(1)] s(2) E(1,2) by auto
    qed (use r q E in auto)
  qed
qed

lemma decides_const: "decides (const_stage v path c) (jv_nodes c) (same_value c v)"
proof (rule decidesI)
  fix n r n' assume r: "const_stage v path c n = (r, n')"
  obtain q n1 where q: "jsonValuesEqual c v n = (q, n1)" by fastforce
  note E = comparesD [OF equal_compares q]
  consider "q = None" | "q = Some True" | "q = Some False" by (cases q) auto
  then show "n \<le> n' \<and> n' \<le> n + jv_nodes c \<and> (r = Accepts \<longrightarrow> same_value c v)
      \<and> (\<forall>a. r = Refuses a False \<longrightarrow> \<not> same_value c v) \<and> (\<forall>a. r = Refuses a True \<longrightarrow> max_validation_steps < n')"
    by cases (use r q E in \<open>auto simp: const_stage_def\<close>)
qed

lemma decides_all:
  "(\<And>a path. a \<in> set xs \<Longrightarrow> decides (F a v path) (G a v) (P a v)) \<Longrightarrow>
   decides (all_stage v path (map F xs)) (sum_list (map (\<lambda>a. G a v) xs)) (\<forall>a \<in> set xs. P a v)"
proof (induction xs)
  case Nil
  then show ?case by (simp add: decides_def)
next
  case (Cons a xs)
  show ?case
  proof (rule decidesI)
    fix n r n' assume r: "all_stage v path (map F (a # xs)) n = (r, n')"
    obtain q n1 where q: "F a v path n = (q, n1)" by fastforce
    have "decides (F a v path) (G a v) (P a v)" using Cons.prems by simp
    note E = decidesD [OF this q]
    have IH: "decides (all_stage v path (map F xs)) (sum_list (map (\<lambda>a. G a v) xs)) (\<forall>a \<in> set xs. P a v)"
      by (rule Cons.IH) (use Cons.prems in simp)
    consider "q = Accepts" | e where "q = Refuses e True" | e where "q = Refuses e False" by (cases q) (auto intro: bool.exhaust)
    then show "n \<le> n' \<and> n' \<le> n + sum_list (map (\<lambda>a. G a v) (a # xs)) \<and> (r = Accepts \<longrightarrow> (\<forall>a \<in> set (a # xs). P a v))
        \<and> (\<forall>e. r = Refuses e False \<longrightarrow> \<not> (\<forall>a \<in> set (a # xs). P a v)) \<and> (\<forall>e. r = Refuses e True \<longrightarrow> max_validation_steps < n')"
    proof cases
      case 1
      then have s: "all_stage v path (map F xs) n1 = (r, n')" using r q by simp
      show ?thesis using decidesD [OF IH s] E 1 by auto
    qed (use r q E in auto)
  qed
qed

lemma any_loop_spec:
  "(\<And>a path. a \<in> set xs \<Longrightarrow> decides (F a v path) (G a v) (P a v)) \<Longrightarrow> (ind \<noteq> None \<Longrightarrow> max_validation_steps < n) \<Longrightarrow>
   any_loop v path ind (map F xs) n = (r, n') \<Longrightarrow>
   n \<le> n' \<and> n' \<le> n + sum_list (map (\<lambda>a. G a v) xs) \<and> (r = Accepts \<longrightarrow> (\<exists>a \<in> set xs. P a v))
     \<and> (\<forall>e. r = Refuses e False \<longrightarrow> ind = None \<and> \<not> (\<exists>a \<in> set xs. P a v)) \<and> (\<forall>e. r = Refuses e True \<longrightarrow> max_validation_steps < n')"
proof (induction xs arbitrary: ind n)
  case Nil
  then show ?case by (auto split: option.splits)
next
  case (Cons a xs)
  obtain q n1 where q: "F a v path n = (q, n1)" by fastforce
  have "decides (F a v path) (G a v) (P a v)" using Cons.prems by simp
  note E = decidesD [OF this q]
  show ?case
  proof (cases q)
    case Accepts
    then show ?thesis using Cons.prems(3) q E by auto
  next
    case (Refuses e i)
    let ?ind = "if i then Some e else ind"
    have s: "any_loop v path ?ind (map F xs) n1 = (r, n')" using Cons.prems(3) q Refuses by simp
    have h: "?ind \<noteq> None \<Longrightarrow> max_validation_steps < n1"
      using Cons.prems(2) E(1,5) Refuses by (cases i) auto
    have "n1 \<le> n' \<and> n' \<le> n1 + sum_list (map (\<lambda>a. G a v) xs) \<and> (r = Accepts \<longrightarrow> (\<exists>a \<in> set xs. P a v))
     \<and> (\<forall>e. r = Refuses e False \<longrightarrow> ?ind = None \<and> \<not> (\<exists>a \<in> set xs. P a v)) \<and> (\<forall>e. r = Refuses e True \<longrightarrow> max_validation_steps < n')"
      by (rule Cons.IH [OF _ h s]) (use Cons.prems(1) in simp_all)
    then show ?thesis using E Refuses by (cases i) auto
  qed
qed

lemma decides_any:
  assumes "\<And>a path. a \<in> set xs \<Longrightarrow> decides (F a v path) (G a v) (P a v)"
  shows "decides (any_stage v path (map F xs)) (sum_list (map (\<lambda>a. G a v) xs)) (xs = [] \<or> (\<exists>a \<in> set xs. P a v))"
proof (cases "xs = []")
  case True
  then show ?thesis by (simp add: decides_def any_stage_def)
next
  case False
  then show ?thesis using any_loop_spec [where F = F and G = G and P = P and xs = xs and v = v and ind = None, OF assms] by (intro decidesI) (auto simp: any_stage_def)
qed

lemma one_loop_spec:
  "(\<And>a path. a \<in> set xs \<Longrightarrow> decides (F a v path) (G a v) (P a v)) \<Longrightarrow> (ind \<noteq> None \<Longrightarrow> max_validation_steps < n) \<Longrightarrow>
   m \<le> k \<Longrightarrow> (ind = None \<Longrightarrow> m = k) \<Longrightarrow> one_loop v path m ind (map F xs) n = (r, n') \<Longrightarrow>
   n \<le> n' \<and> n' \<le> n + sum_list (map (\<lambda>a. G a v) xs) \<and> (r = Accepts \<longrightarrow> k + length (filter (\<lambda>a. P a v) xs) = 1)
     \<and> (\<forall>e. r = Refuses e False \<longrightarrow> k + length (filter (\<lambda>a. P a v) xs) \<noteq> 1) \<and> (\<forall>e. r = Refuses e True \<longrightarrow> max_validation_steps < n')"
proof (induction xs arbitrary: m k ind n)
  case Nil
  then show ?case by (auto split: option.splits if_splits)
next
  case (Cons a xs)
  obtain q n1 where q: "F a v path n = (q, n1)" by fastforce
  have "decides (F a v path) (G a v) (P a v)" using Cons.prems by simp
  note E = decidesD [OF this q]
  have ps: "\<And>b path. b \<in> set xs \<Longrightarrow> decides (F b v path) (G b v) (P b v)" using Cons.prems(1) by simp
  show ?case
  proof (cases q)
    case Accepts
    have p: "P a v" using E(3) Accepts by simp
    show ?thesis
    proof (cases "1 < Suc m")
      case True
      then show ?thesis using Cons.prems(3,5) q Accepts E(1,2) p by auto
    next
      case False
      have h: "ind \<noteq> None \<Longrightarrow> max_validation_steps < n1" using Cons.prems(2) E(1) by linarith
      have s: "one_loop v path (Suc m) ind (map F xs) n1 = (r, n')" using Cons.prems(5) q Accepts False by simp
      from Cons.IH [OF ps h _ _ s, of "Suc k"] Cons.prems(3,4) p E(1,2) show ?thesis by auto
    qed
  next
    case (Refuses e i)
    show ?thesis
    proof (cases "1 < m")
      case True
      then show ?thesis using Cons.prems(3,5) q Refuses E(1,2) by auto
    next
      case False
      let ?ind = "if i then Some e else ind" and ?k = "k + (if P a v then 1 else 0)"
      have s: "one_loop v path m ?ind (map F xs) n1 = (r, n')" using Cons.prems(5) q Refuses False by simp
      have h: "?ind \<noteq> None \<Longrightarrow> max_validation_steps < n1" using Cons.prems(2) E(1,5) Refuses by (cases i) auto
      have "?ind = None \<Longrightarrow> m = ?k" using Cons.prems(4) E(4) Refuses by (cases i) auto
      from Cons.IH [OF ps h _ this s] Cons.prems(3) E(1,2) show ?thesis by auto
    qed
  qed
qed

lemma decides_one:
  assumes "\<And>a path. a \<in> set xs \<Longrightarrow> decides (F a v path) (G a v) (P a v)"
  shows "decides (one_stage v path (map F xs)) (sum_list (map (\<lambda>a. G a v) xs)) (xs = [] \<or> length (filter (\<lambda>a. P a v) xs) = 1)"
proof (cases "xs = []")
  case True
  then show ?thesis by (simp add: decides_def one_stage_def)
next
  case False
  then show ?thesis using one_loop_spec [where F = F and G = G and P = P and xs = xs and v = v and ind = None and m = 0 and k = 0, OF assms] by (intro decidesI) (auto simp: one_stage_def)
qed

lemma decides_not:
  assumes "\<And>a. g = Some a \<Longrightarrow> decides (F a v path) (G a v) (P a v)"
  shows "decides (not_stage v path (map_option F g)) (case g of None \<Rightarrow> 0 | Some a \<Rightarrow> G a v) (\<forall>a. g = Some a \<longrightarrow> \<not> P a v)"
proof (cases g)
  case None
  then show ?thesis by (simp add: decides_def not_stage_def)
next
  case (Some a)
  show ?thesis
  proof (rule decidesI)
    fix n r n' assume r: "not_stage v path (map_option F g) n = (r, n')"
    obtain q n1 where q: "F a v path n = (q, n1)" by fastforce
    note E = decidesD [OF assms [OF Some] q]
    consider "q = Accepts" | e where "q = Refuses e True" | e where "q = Refuses e False" by (cases q) (auto intro: bool.exhaust)
    then show "n \<le> n' \<and> n' \<le> n + (case g of None \<Rightarrow> 0 | Some a \<Rightarrow> G a v) \<and> (r = Accepts \<longrightarrow> (\<forall>a. g = Some a \<longrightarrow> \<not> P a v))
      \<and> (\<forall>e. r = Refuses e False \<longrightarrow> \<not> (\<forall>a. g = Some a \<longrightarrow> \<not> P a v)) \<and> (\<forall>e. r = Refuses e True \<longrightarrow> max_validation_steps < n')"
      by cases (use r q E Some in \<open>auto simp: not_stage_def\<close>)
  qed
qed

section \<open>A node decides\<close>

lemma turn_items:
  "(\<And>v path. v \<in> set vs \<Longrightarrow> decides (F v path) (g v) (p v)) \<Longrightarrow>
   decides (in_turn (item_stages path F i vs)) (sum_list (map g vs)) (\<forall>v \<in> set vs. p v)"
proof (induction vs arbitrary: i)
  case Nil
  then show ?case using turn_Nil by (simp add: decides_def)
next
  case (Cons v vs)
  have "decides (F v (path @ ''['' @ show_nat i @ '']'')) (g v) (p v)" using Cons.prems by simp
  from turn_Cons [OF this Cons.IH [of "Suc i"]] Cons.prems show ?case by (simp del: in_turn.simps)
qed

lemma turn_map:
  "(\<And>a. a \<in> set xs \<Longrightarrow> decides (F a) (g a) (p a)) \<Longrightarrow> decides (in_turn (map F xs)) (sum_list (map g xs)) (\<forall>a \<in> set xs. p a)"
proof (induction xs)
  case Nil
  then show ?case using turn_Nil by (simp add: decides_def)
next
  case (Cons a xs)
  from turn_Cons [OF Cons.prems [of a] Cons.IH] Cons.prems show ?case by (simp del: in_turn.simps)
qed

lemma turn_required: "decides (in_turn (map (\<lambda>k. refuse_if (map_of ps k = None) e) ks)) 0 (\<forall>k \<in> set ks. k \<in> fst ` set ps)"
proof -
  have "decides (refuse_if (map_of ps k = None) e) 0 (k \<in> fst ` set ps)" for k
    using decides_refuse [of "map_of ps k = None" e] by (simp add: map_of_eq_None_iff)
  from turn_map [of ks _ "\<lambda>_. 0", OF this] show ?thesis by simp
qed

definition part_decides :: "validator \<Rightarrow> (jv \<Rightarrow> nat) \<Rightarrow> (jv \<Rightarrow> bool) \<Rightarrow> bool" where
  "part_decides F G P \<longleftrightarrow> (\<forall>v path. small v \<longrightarrow> decides (F v path) (G v) (P v))"

lemma map_of_parts [simp]: "map_of (map (map_prod (\<lambda>k. k) H) pr) k = map_option H (map_of pr k)"
  by (induction pr) auto

lemma property_decides:
  assumes "\<And>a. a \<in> snd ` set pr \<Longrightarrow> part_decides (F a) (G a) (P a)" "\<And>a. ad = Inr a \<Longrightarrow> part_decides (F a) (G a) (P a)" "small w"
  shows "decides (property_stage path (map (map_prod (\<lambda>k. k) F) pr) (map_sum (\<lambda>b. b) F ad) (k, w))
     (case map_of (map (map_prod (\<lambda>k. k) G) pr) k of Some g \<Rightarrow> g w | None \<Rightarrow> (case map_sum (\<lambda>b. b) G ad of Inl b \<Rightarrow> 0 | Inr g \<Rightarrow> g w))
     (case map_of (map (map_prod (\<lambda>k. k) P) pr) k of Some g \<Rightarrow> g w | None \<Rightarrow> (case map_sum (\<lambda>b. b) P ad of Inl b \<Rightarrow> b | Inr g \<Rightarrow> g w))"
proof -
  show ?thesis
  proof (cases "map_of pr k")
    case None
    show ?thesis
    proof (cases ad)
      case (Inl b)
      then show ?thesis using decides_refuse [of "\<not> b"] by (simp add: property_stage_def None)
    next
      case (Inr a)
      then show ?thesis using assms(2,3) by (simp add: property_stage_def None part_decides_def)
    qed
  next
    case (Some a)
    then have "a \<in> snd ` set pr" by (force dest: map_of_SomeD)
    then show ?thesis using assms(1,3) by (simp add: property_stage_def Some part_decides_def)
  qed
qed

lemma option_stage: "(\<And>a. y = Some a \<Longrightarrow> decides (F a) (G a) (P a)) \<Longrightarrow>
    decides (case y of None \<Rightarrow> pass | Some a \<Rightarrow> F a) (case y of None \<Rightarrow> 0 | Some a \<Rightarrow> G a) (\<forall>a. y = Some a \<longrightarrow> P a)"
  by (cases y) (simp_all add: decides_pass)

lemma refuse_option: "decides (refuse_if (case y of None \<Rightarrow> False | Some a \<Rightarrow> \<not> P a) e) 0 (\<forall>a. y = Some a \<longrightarrow> P a)"
  by (rule decides_cong [OF decides_refuse]) (auto split: option.splits)

lemma value_decides:
  assumes "\<And>a. a \<in> snd ` set pr \<Longrightarrow> part_decides (F a) (G a) (P a)" "\<And>a. ad = Inr a \<Longrightarrow> part_decides (F a) (G a) (P a)"
    and "\<And>a. it = Some a \<Longrightarrow> part_decides (F a) (G a) (P a)" and "small v"
  shows "decides (in_turn (value_stages x f (map_sum (\<lambda>b. b) F ad) (map_option F it) (map (map_prod (\<lambda>k. k) F) pr) v path))
     (parts_cost (map_sum (\<lambda>b. b) G ad) (map_option G it) (map (map_prod (\<lambda>k. k) G) pr) v)
     (value_meaning x f (map_sum (\<lambda>b. b) P ad) (map_option P it) (map (map_prod (\<lambda>k. k) P) pr) v)"
proof (cases v)
  case (VStr s)
  have "decides (in_turn (string_stages x f s path)) (0 + (0 + (0 + (0 + 0))))
     (\<not> below (stringLength s) (nf_minLength f) \<and> \<not> above (stringLength s) (nf_maxLength f)
        \<and> (\<forall>t. nf_pattern f = Some t \<longrightarrow> t s) \<and> (\<forall>g. nf_format f = Some g \<longrightarrow> matchesFormat (ho_url x) (ho_date x) s g) \<and> True)"
    unfolding string_stages_def
    by (intro turn_intros refuse_option decides_cong [OF option_stage [of "nf_format f" _ "\<lambda>_. 0"]] decides_cong [OF decides_refuse]) (auto split: option.splits)
  then show ?thesis by (simp add: VStr value_stages_def value_meaning_def parts_cost_def del: in_turn.simps)
next
  case (VNum d)
  show ?thesis
  proof (cases "finite_value d")
    case None
    then show ?thesis using turn_Nil by (simp add: VNum value_stages_def value_meaning_def parts_cost_def del: in_turn.simps)
  next
    case (Some q)
    have "decides (in_turn (number_stages f q path)) (0 + (0 + 0))
       ((\<forall>b. nf_minimum f = Some b \<longrightarrow> \<not> double_less q b) \<and> (\<forall>b. nf_maximum f = Some b \<longrightarrow> \<not> double_greater q b) \<and> True)"
      unfolding number_stages_def by (intro turn_intros decides_cong [OF decides_refuse]) (auto split: option.splits)
    then show ?thesis by (simp add: VNum Some value_stages_def value_meaning_def parts_cost_def del: in_turn.simps)
  qed
next
  case (VArr vs)
  have l: "\<not> max_collection < length vs" "\<And>w. w \<in> set vs \<Longrightarrow> small w" using assms(4) by (auto simp: VArr list_all_iff)
  have i: "decides (in_turn (case map_option F it of None \<Rightarrow> [] | Some g \<Rightarrow> item_stages path g 0 vs))
      (case map_option G it of None \<Rightarrow> 0 | Some g \<Rightarrow> sum_list (map g vs)) (\<forall>g. map_option P it = Some g \<longrightarrow> (\<forall>v \<in> set vs. g v))"
  proof (cases it)
    case None
    then show ?thesis using turn_Nil by (simp del: in_turn.simps)
  next
    case (Some a)
    then show ?thesis using turn_items [of vs "F a" "G a" "P a"] assms(3) l(2) by (simp add: part_decides_def del: in_turn.simps)
  qed
  have "decides (in_turn (array_stages f (map_option F it) vs path)) ((0 + (0 + (0 + 0))) + (case map_option G it of None \<Rightarrow> 0 | Some g \<Rightarrow> sum_list (map g vs)))
     ((\<not> max_collection < length vs \<and> \<not> below (length vs) (nf_minItems f) \<and> \<not> above (length vs) (nf_maxItems f) \<and> True)
      \<and> (\<forall>g. map_option P it = Some g \<longrightarrow> (\<forall>v \<in> set vs. g v)))"
    unfolding array_stages_def by (intro turn_intros i)
  then show ?thesis using l(1) by (simp add: VArr value_stages_def value_meaning_def parts_cost_def del: in_turn.simps)
next
  case (VObj ps)
  have l: "\<not> max_collection < length ps" "\<And>p. p \<in> set ps \<Longrightarrow> small (snd p)" using assms(4) by (auto simp: VObj list_all_iff)
  let ?c = "\<lambda>p. case map_of (map (map_prod (\<lambda>k. k) G) pr) (fst p) of Some g \<Rightarrow> g (snd p)
      | None \<Rightarrow> (case map_sum (\<lambda>b. b) G ad of Inl b \<Rightarrow> 0 | Inr g \<Rightarrow> g (snd p))"
  let ?q = "\<lambda>p. case map_of (map (map_prod (\<lambda>k. k) P) pr) (fst p) of Some g \<Rightarrow> g (snd p)
      | None \<Rightarrow> (case map_sum (\<lambda>b. b) P ad of Inl b \<Rightarrow> b | Inr g \<Rightarrow> g (snd p))"
  have i: "decides (in_turn (map (property_stage path (map (map_prod (\<lambda>k. k) F) pr) (map_sum (\<lambda>b. b) F ad)) ps))
      (sum_list (map ?c ps)) (\<forall>p \<in> set ps. ?q p)"
    using property_decides [of pr F G P ad, OF assms(1,2) l(2)] by (intro turn_map) (metis prod.collapse)
  have "decides (in_turn (object_stages f (map (map_prod (\<lambda>k. k) F) pr) (map_sum (\<lambda>b. b) F ad) ps path)) ((0 + (0 + (0 + 0))) + (0 + sum_list (map ?c ps)))
     ((\<not> max_collection < length ps \<and> \<not> below (length ps) (nf_minProperties f) \<and> \<not> above (length ps) (nf_maxProperties f) \<and> True)
      \<and> (\<forall>k \<in> set (nf_required f). k \<in> fst ` set ps) \<and> (\<forall>p \<in> set ps. ?q p))"
    unfolding object_stages_def by (intro turn_intros i turn_required)
  then show ?thesis using l(1)
    by (simp add: VObj value_stages_def value_meaning_def parts_cost_def case_prod_unfold del: in_turn.simps)
qed (use turn_Nil in \<open>simp_all add: value_stages_def value_meaning_def parts_cost_def del: in_turn.simps\<close>)

lemma node_step:
  assumes "decides (in_turn fs) c b"
  shows "decides (\<lambda>n. if Suc n > max_validation_steps then (Refuses e True, Suc n) else in_turn fs (Suc n)) (Suc c) b"
proof (rule decidesI)
  fix n r n' assume r: "(if Suc n > max_validation_steps then (Refuses e True, Suc n) else in_turn fs (Suc n)) = (r, n')"
  show "n \<le> n' \<and> n' \<le> n + Suc c \<and> (r = Accepts \<longrightarrow> b) \<and> (\<forall>e. r = Refuses e False \<longrightarrow> \<not> b) \<and> (\<forall>e. r = Refuses e True \<longrightarrow> max_validation_steps < n')"
  proof (cases "Suc n > max_validation_steps")
    case True
    then show ?thesis using r by auto
  next
    case False
    then have "in_turn fs (Suc n) = (r, n')" using r by simp
    from decidesD [OF assms this] show ?thesis by auto
  qed
qed

text \<open>The validator of every node decides the meaning of the node on values without oversized collections.\<close>

lemma node_decides: "part_decides (validateNode x a) (validation_cost a) (satisfies x a)"
proof (induction a)
  case (Node f ad al an oo ng it pr src)
  let ?F = "validateNode x" and ?G = "validation_cost" and ?P = "satisfies x"
  show ?case unfolding part_decides_def
  proof (intro allI impI)
    fix v path assume v: "small v"
    have al: "decides (all_stage v path (map ?F al)) (sum_list (map (\<lambda>a. ?G a v) al)) (\<forall>a \<in> set al. ?P a v)"
      using Node.IH(2) v by (intro decides_all) (simp add: part_decides_def)
    have an: "decides (any_stage v path (map ?F an)) (sum_list (map (\<lambda>a. ?G a v) an)) (an = [] \<or> (\<exists>a \<in> set an. ?P a v))"
      using Node.IH(3) v by (intro decides_any) (simp add: part_decides_def)
    have oo: "decides (one_stage v path (map ?F oo)) (sum_list (map (\<lambda>a. ?G a v) oo)) (oo = [] \<or> length (filter (\<lambda>a. ?P a v) oo) = 1)"
      using Node.IH(4) v by (intro decides_one) (simp add: part_decides_def)
    have ng: "decides (not_stage v path (map_option ?F ng)) (case ng of None \<Rightarrow> 0 | Some a \<Rightarrow> ?G a v) (\<forall>a. ng = Some a \<longrightarrow> \<not> ?P a v)"
      using Node.IH(5) v by (intro decides_not) (simp add: part_decides_def)
    have vs: "decides (in_turn (value_stages x f (map_sum (\<lambda>b. b) ?F ad) (map_option ?F it) (map (map_prod (\<lambda>k. k) ?F) pr) v path))
       (parts_cost (map_sum (\<lambda>b. b) ?G ad) (map_option ?G it) (map (map_prod (\<lambda>k. k) ?G) pr) v)
       (value_meaning x f (map_sum (\<lambda>b. b) ?P ad) (map_option ?P it) (map (map_prod (\<lambda>k. k) ?P) pr) v)"
      using Node.IH(1,6,7) v by (intro value_decides) auto
    have ty: "decides (type_stage f v path) 0 (nf_types f = [] \<or> (\<exists>t \<in> set (nf_types f). valueMatchesType v t))"
      unfolding type_stage_def by (rule decides_cong [OF decides_refuse]) (auto simp: list_ex_iff)
    have en: "decides (case nf_enum f of None \<Rightarrow> pass | Some es \<Rightarrow> enum_stage v path es)
        (case nf_enum f of None \<Rightarrow> 0 | Some es \<Rightarrow> sum_list (map jv_nodes es)) (\<forall>es. nf_enum f = Some es \<longrightarrow> (\<exists>e \<in> set es. same_value e v))"
      by (intro option_stage decides_enum)
    have co: "decides (case nf_const f of None \<Rightarrow> pass | Some c \<Rightarrow> const_stage v path c)
        (case nf_const f of None \<Rightarrow> 0 | Some c \<Rightarrow> jv_nodes c) (\<forall>c. nf_const f = Some c \<longrightarrow> same_value c v)"
      by (intro option_stage decides_const)
    note turn = turn_append [OF turn_Cons [OF ty turn_Cons [OF en turn_Cons [OF co turn_Cons [OF al turn_Cons [OF an turn_Cons [OF oo
      turn_Cons [OF ng turn_Nil]]]]]]] vs]
    have e: "?F (Node f ad al an oo ng it pr src) v path = (\<lambda>n. if Suc n > max_validation_steps then (Refuses (work_limit path) True, Suc n)
        else in_turn ([type_stage f v path, (case nf_enum f of None \<Rightarrow> pass | Some es \<Rightarrow> enum_stage v path es),
          (case nf_const f of None \<Rightarrow> pass | Some c \<Rightarrow> const_stage v path c), all_stage v path (map ?F al), any_stage v path (map ?F an),
          one_stage v path (map ?F oo), not_stage v path (map_option ?F ng)]
          @ value_stages x f (map_sum (\<lambda>b. b) ?F ad) (map_option ?F it) (map (map_prod (\<lambda>k. k) ?F) pr) v path) (Suc n))"
      by (rule ext) (simp add: node_validator_def del: in_turn.simps)
    show "decides (?F (Node f ad al an oo ng it pr src) v path) (?G (Node f ad al an oo ng it pr src) v) (?P (Node f ad al an oo ng it pr src) v)"
      unfolding e
    proof (rule decides_cong [OF node_step [OF turn]])
      show "?P (Node f ad al an oo ng it pr src) v = (((nf_types f = [] \<or> (\<exists>t \<in> set (nf_types f). valueMatchesType v t))
          \<and> (\<forall>es. nf_enum f = Some es \<longrightarrow> (\<exists>e \<in> set es. same_value e v)) \<and> (\<forall>c. nf_const f = Some c \<longrightarrow> same_value c v)
          \<and> (\<forall>a \<in> set al. ?P a v) \<and> (an = [] \<or> (\<exists>a \<in> set an. ?P a v)) \<and> (oo = [] \<or> length (filter (\<lambda>a. ?P a v) oo) = 1)
          \<and> (\<forall>a. ng = Some a \<longrightarrow> \<not> ?P a v) \<and> True)
          \<and> value_meaning x f (map_sum (\<lambda>b. b) ?P ad) (map_option ?P it) (map (map_prod (\<lambda>k. k) ?P) pr) v)"
        by (cases ng) (simp_all add: node_meaning_def filter_map comp_def)
    qed (simp add: node_cost_def comp_def split: option.split)
  qed
qed

end
