(* ===== verification/SchemaCompiler.thy ===== *)
theory SchemaCompiler
  imports SchemaMeaning
begin

text \<open>
  The compiler of closed JSON schemas (\<open>packages/foundation/src/security/closed-json-schema.ts\<close>, first half): it checks a
  schema within limits on depth, nodes and cardinalities, copies it into a canonical schema and builds the nodes that
  theory SchemaValidator runs.  Values are trees, so the tests for cycles, symbol keys and accessors have nothing to
  find; the depth parameter of the code counts down here from the first depth that is refused.
\<close>

section \<open>Code that counts and throws\<close>

record counts =
  literalNodes :: nat
  schemaNodes :: nat

type_synonym 'a compiling = "counts \<Rightarrow> string + 'a \<times> counts"

definition give :: "'a \<Rightarrow> 'a compiling" where
  "give a s = Inr (a, s)"

definition throw :: "string \<Rightarrow> 'a compiling" where
  "throw e s = Inl e"

definition bind_c :: "'a compiling \<Rightarrow> ('a \<Rightarrow> 'b compiling) \<Rightarrow> 'b compiling" where
  "bind_c m f s = (case m s of Inl e \<Rightarrow> Inl e | Inr (a, t) \<Rightarrow> f a t)"

definition ensure :: "bool \<Rightarrow> string \<Rightarrow> unit compiling" where
  "ensure b e = (if b then give () else throw e)"

fun map_c :: "('a \<Rightarrow> 'b compiling) \<Rightarrow> 'a list \<Rightarrow> 'b list compiling" where
  "map_c f [] = give []"
| "map_c f (x # xs) = bind_c (f x) (\<lambda>y. bind_c (map_c f xs) (\<lambda>ys. give (y # ys)))"

lemma bind_c_Inr: "bind_c m f s = Inr (b, u) \<longleftrightarrow> (\<exists>a t. m s = Inr (a, t) \<and> f a t = Inr (b, u))"
  by (auto simp: bind_c_def split: sum.splits)

lemma give_Inr: "give a s = Inr (b, t) \<longleftrightarrow> a = b \<and> s = t"
  by (simp add: give_def)

lemma throw_Inr: "throw e s = Inr b \<longleftrightarrow> False"
  by (simp add: throw_def)

lemma ensure_Inr: "ensure p e s = Inr (u, t) \<longleftrightarrow> p \<and> s = t"
  by (simp add: ensure_def give_def throw_def)

lemmas compiling_simps = bind_c_Inr give_Inr throw_Inr ensure_Inr

lemma map_c_same:
  "(\<And>x s y t. x \<in> set xs \<Longrightarrow> f x s = Inr (y, t) \<Longrightarrow> g y = h x) \<Longrightarrow> map_c f xs s = Inr (ys, t) \<Longrightarrow> map g ys = map h xs"
  by (induction xs arbitrary: s ys) (auto simp: compiling_simps)

section \<open>Names and literals\<close>

definition schemaError :: "string \<Rightarrow> string \<Rightarrow> string \<Rightarrow> string" where
  "schemaError label path reason = label @ '' '' @ path @ '' '' @ reason"

definition unsafe_property_names :: "string list" where
  "unsafe_property_names = [''__proto__'', ''constructor'', ''prototype'']"

definition containsControlCharacter :: "string \<Rightarrow> bool" where
  "containsControlCharacter s = list_ex (\<lambda>c. code_of c \<le> 31 \<or> code_of c = 127) s"

text \<open>The length of a text in UTF-16 units: two for a character of four bytes.\<close>

definition utf16_length :: "string \<Rightarrow> nat" where
  "utf16_length s = stringLength s + length (filter (in_range 240 255) s)"

definition valid_name :: "string \<Rightarrow> bool" where
  "valid_name s \<longleftrightarrow> s \<noteq> [] \<and> utf16_length s \<le> 256 \<and> s \<notin> set unsafe_property_names \<and> \<not> containsControlCharacter s"

definition assertPropertyName :: "jv \<Rightarrow> string \<Rightarrow> string \<Rightarrow> string compiling" where
  "assertPropertyName v label path =
     (case v of
        VStr s \<Rightarrow> if valid_name s then give s else throw (schemaError label path ''contains an invalid property name.'')
      | _ \<Rightarrow> throw (schemaError label path ''contains an invalid property name.''))"

definition max_literal_depth :: nat where "max_literal_depth = 16"
definition max_literal_nodes :: nat where "max_literal_nodes = 4096"

fun cloneJsonLiteral :: "string \<Rightarrow> string \<Rightarrow> nat \<Rightarrow> jv \<Rightarrow> jv compiling"
  and clone_elements :: "string \<Rightarrow> string \<Rightarrow> nat \<Rightarrow> nat \<Rightarrow> jv list \<Rightarrow> jv list compiling"
  and clone_entries :: "string \<Rightarrow> string \<Rightarrow> nat \<Rightarrow> (string \<times> jv) list \<Rightarrow> (string \<times> jv) list compiling" where
  "cloneJsonLiteral label path depth v s =
     (if max_literal_depth < depth then Inl (schemaError label path ''contains an excessively nested JSON value.'')
      else if max_literal_nodes < Suc (literalNodes s) then Inl (schemaError label path ''contains too many JSON value nodes.'')
      else case v of
        VNull \<Rightarrow> Inr (v, s\<lparr>literalNodes := Suc (literalNodes s)\<rparr>)
      | VStr _ \<Rightarrow> Inr (v, s\<lparr>literalNodes := Suc (literalNodes s)\<rparr>)
      | VBool _ \<Rightarrow> Inr (v, s\<lparr>literalNodes := Suc (literalNodes s)\<rparr>)
      | VNum d \<Rightarrow> if finite_value d = None then Inl (schemaError label path ''must contain finite JSON numbers.'')
                  else Inr (v, s\<lparr>literalNodes := Suc (literalNodes s)\<rparr>)
      | VUndef \<Rightarrow> Inl (schemaError label path ''must contain only JSON-compatible values.'')
      | VOther b \<Rightarrow> Inl (schemaError label path (if b then ''must contain only JSON objects.'' else ''must contain only JSON-compatible values.''))
      | VArr vs \<Rightarrow>
          if max_literal_nodes < length vs then Inl (schemaError label path ''contains an oversized JSON array.'')
          else (case clone_elements label path (Suc depth) 0 vs (s\<lparr>literalNodes := Suc (literalNodes s)\<rparr>) of
                  Inl e \<Rightarrow> Inl e | Inr (ws, t) \<Rightarrow> Inr (VArr ws, t))
      | VObj ps \<Rightarrow>
          if max_literal_nodes < length ps then Inl (schemaError label path ''contains an oversized JSON object.'')
          else (case clone_entries label path (Suc depth) ps (s\<lparr>literalNodes := Suc (literalNodes s)\<rparr>) of
                  Inl e \<Rightarrow> Inl e | Inr (qs, t) \<Rightarrow> Inr (VObj qs, t)))"
| "clone_elements label path depth i [] s = Inr ([], s)"
| "clone_elements label path depth i (v # vs) s =
     (case cloneJsonLiteral label (path @ ''['' @ show_nat i @ '']'') depth v s of
        Inl e \<Rightarrow> Inl e
      | Inr (w, t) \<Rightarrow> (case clone_elements label path depth (Suc i) vs t of Inl e \<Rightarrow> Inl e | Inr (ws, u) \<Rightarrow> Inr (w # ws, u)))"
| "clone_entries label path depth [] s = Inr ([], s)"
| "clone_entries label path depth ((k, v) # ps) s =
     (if \<not> valid_name k then Inl (schemaError label path ''contains an invalid property name.'')
      else case cloneJsonLiteral label (path @ ''.'' @ k) depth v s of
        Inl e \<Rightarrow> Inl e
      | Inr (w, t) \<Rightarrow> (case clone_entries label path depth ps t of Inl e \<Rightarrow> Inl e | Inr (qs, u) \<Rightarrow> Inr ((k, w) # qs, u)))"

declare cloneJsonLiteral.simps [simp del]

text \<open>The key of a copied literal; the copies hold no other values than JSON.\<close>

fun jsonLiteralKey :: "(rat \<Rightarrow> string) \<Rightarrow> jv \<Rightarrow> string" where
  "jsonLiteralKey number VNull = ''null''"
| "jsonLiteralKey number (VStr s) = ''string:'' @ json_string s"
| "jsonLiteralKey number (VNum d) = ''number:'' @ (case finite_value d of None \<Rightarrow> ''null'' | Some q \<Rightarrow> number q)"
| "jsonLiteralKey number (VBool b) = (if b then ''boolean:true'' else ''boolean:false'')"
| "jsonLiteralKey number (VArr vs) = ''array:['' @ join '','' (map (jsonLiteralKey number) vs) @ '']''"
| "jsonLiteralKey number (VObj ps) =
     ''object:{'' @ join '','' (map (\<lambda>(k, t). json_string k @ '':'' @ t) (sort_key fst (map (\<lambda>(k, v). (k, jsonLiteralKey number v)) ps))) @ ''}''"
| "jsonLiteralKey number _ = []"

section \<open>Types\<close>

definition schema_type_of :: "jv \<Rightarrow> schema_type option" where
  "schema_type_of v =
     (case v of
        VStr s \<Rightarrow> map_of [(''array'', TArray), (''boolean'', TBoolean), (''integer'', TInteger), (''null'', TNull), (''number'', TNumber),
                          (''object'', TObject), (''string'', TString)] s
      | _ \<Rightarrow> None)"

definition schema_format_of :: "jv \<Rightarrow> schema_format option" where
  "schema_format_of v =
     (case v of
        VStr s \<Rightarrow> map_of [(''date'', FDate), (''date-time'', FDateTime), (''email'', FEmail), (''hostname'', FHostname), (''ipv4'', FIpv4),
                          (''ipv6'', FIpv6), (''time'', FTime), (''uri'', FUri), (''url'', FUrl), (''uuid'', FUuid)] s
      | _ \<Rightarrow> None)"

fun read_type_list :: "string \<Rightarrow> schema_type list \<Rightarrow> jv list \<Rightarrow> string + schema_type list" where
  "read_type_list e ts [] = Inr ts"
| "read_type_list e ts (v # vs) =
     (case schema_type_of v of
        None \<Rightarrow> Inl e
      | Some t \<Rightarrow> if t \<in> set ts then Inl e else read_type_list e (ts @ [t]) vs)"

type_synonym fields = "(string \<times> jv) list"

definition raw_types :: "jv \<Rightarrow> jv list" where
  "raw_types v = (case v of VArr vs \<Rightarrow> vs | _ \<Rightarrow> [v])"

definition readTypes :: "fields \<Rightarrow> string \<Rightarrow> string \<Rightarrow> string + schema_type list" where
  "readTypes src label path =
     (case map_of src ''type'' of
        None \<Rightarrow> Inr []
      | Some v \<Rightarrow>
          if raw_types v = [] \<or> 7 < length (raw_types v)
          then Inl (schemaError label (path @ ''.type'') ''must declare at least one supported type.'')
          else read_type_list (schemaError label (path @ ''.type'') ''contains an unsupported or duplicate type.'') [] (raw_types v))"

definition keyword_type :: "string \<Rightarrow> schema_type option" where
  "keyword_type k =
     (if k \<in> {''additionalProperties'', ''maxProperties'', ''minProperties'', ''properties'', ''required''} then Some TObject
      else if k \<in> {''items'', ''maxItems'', ''minItems''} then Some TArray
      else if k \<in> {''format'', ''maxLength'', ''minLength'', ''pattern''} then Some TString
      else if k \<in> {''maximum'', ''minimum''} then Some TNumber else None)"

fun inferredTypes :: "schema_type list \<Rightarrow> string list \<Rightarrow> schema_type list" where
  "inferredTypes ts [] = ts"
| "inferredTypes ts (k # ks) =
     (case keyword_type k of
        None \<Rightarrow> inferredTypes ts ks
      | Some t \<Rightarrow> inferredTypes (if t \<in> set ts then ts else ts @ [t]) ks)"

definition supports_type :: "schema_type list \<Rightarrow> schema_type \<Rightarrow> bool" where
  "supports_type ts t = (t \<in> set ts \<or> t = TNumber \<and> TInteger \<in> set ts)"

definition assertKeywordTypeCompatibility :: "fields \<Rightarrow> schema_type list \<Rightarrow> string \<Rightarrow> string \<Rightarrow> bool \<Rightarrow> string + schema_type list" where
  "assertKeywordTypeCompatibility src types label path external =
     (let inferred = inferredTypes [] (map fst src)
      in if external then Inr types
         else if types = [] \<and> 1 < length inferred then Inl (schemaError label path ''mixes constraints for incompatible value types.'')
         else if types = [] then Inr inferred
         else case find (\<lambda>t. \<not> supports_type types t) inferred of
           Some t \<Rightarrow> Inl (schemaError label path (''uses '' @ type_text t @ '' constraints without declaring that type.''))
         | None \<Rightarrow> Inr types)"

section \<open>Bounds\<close>

definition lift_c :: "string + 'a \<Rightarrow> 'a compiling" where
  "lift_c r = (case r of Inl e \<Rightarrow> throw e | Inr a \<Rightarrow> give a)"

definition is_safe_natural :: "jv \<Rightarrow> double option" where
  "is_safe_natural v =
     (case v of
        VNum d \<Rightarrow> (case finite_value d of
            None \<Rightarrow> None
          | Some q \<Rightarrow> if of_int \<lfloor>q\<rfloor> = q \<and> 0 \<le> q \<and> q \<le> of_int max_safe_integer then Some d else None)
      | _ \<Rightarrow> None)"

definition is_finite_number :: "jv \<Rightarrow> double option" where
  "is_finite_number v = (case v of VNum d \<Rightarrow> if finite_value d = None then None else Some d | _ \<Rightarrow> None)"

definition read_bound :: "(jv \<Rightarrow> double option) \<Rightarrow> string \<Rightarrow> fields \<Rightarrow> string \<Rightarrow> string \<Rightarrow> string \<Rightarrow> double option compiling" where
  "read_bound read reason src keyword label path =
     (case map_of src keyword of
        None \<Rightarrow> give None
      | Some v \<Rightarrow> (case read v of None \<Rightarrow> throw (schemaError label (path @ ''.'' @ keyword) reason) | Some d \<Rightarrow> give (Some d)))"

abbreviation readNonNegativeInteger :: "fields \<Rightarrow> string \<Rightarrow> string \<Rightarrow> string \<Rightarrow> double option compiling" where
  "readNonNegativeInteger \<equiv> read_bound is_safe_natural ''must be a non-negative safe integer.''"

abbreviation readFiniteNumber :: "fields \<Rightarrow> string \<Rightarrow> string \<Rightarrow> string \<Rightarrow> double option compiling" where
  "readFiniteNumber \<equiv> read_bound is_finite_number ''must be a finite number.''"

definition ordered_bounds :: "double option \<Rightarrow> double option \<Rightarrow> bool" where
  "ordered_bounds a b =
     (case (a, b) of
        (Some c, Some d) \<Rightarrow> (case (finite_value c, finite_value d) of (Some p, Some q) \<Rightarrow> p \<le> q | _ \<Rightarrow> True)
      | _ \<Rightarrow> True)"

definition assertOrderedBounds :: "double option \<Rightarrow> double option \<Rightarrow> string \<Rightarrow> string \<Rightarrow> string \<Rightarrow> string \<Rightarrow> unit compiling" where
  "assertOrderedBounds a b label path n1 n2 =
     ensure (ordered_bounds a b) (schemaError label path (n1 @ '' must not exceed '' @ n2 @ ''.''))"

section \<open>The parts of a node\<close>

text \<open>The compiler of the schemas inside: value, path and the properties that the surrounding schema declares.\<close>

type_synonym part_compiler = "jv \<Rightarrow> string \<Rightarrow> string list option \<Rightarrow> schema_node compiling"

definition compile_property :: "part_compiler \<Rightarrow> string \<Rightarrow> string \<Rightarrow> string \<times> jv \<Rightarrow> (string \<times> schema_node) compiling" where
  "compile_property rec label path p =
     bind_c (ensure (valid_name (fst p)) (schemaError label (path @ ''.properties'') ''contains an invalid property name.''))
       (\<lambda>_. bind_c (rec (snd p) (path @ ''.properties.'' @ fst p) None) (\<lambda>a. give (fst p, a)))"

definition compile_properties :: "part_compiler \<Rightarrow> fields \<Rightarrow> string \<Rightarrow> string \<Rightarrow> (string \<times> schema_node) list option compiling" where
  "compile_properties rec src label path =
     (case map_of src ''properties'' of
        None \<Rightarrow> give None
      | Some (VObj ps) \<Rightarrow>
          bind_c (ensure (length ps \<le> 128) (schemaError label (path @ ''.properties'') ''exceeds its cardinality limit.''))
            (\<lambda>_. bind_c (map_c (compile_property rec label path) ps) (\<lambda>as. give (Some as)))
      | Some _ \<Rightarrow> throw (schemaError label (path @ ''.properties'') ''must be a plain object.''))"

fun required_names :: "string \<Rightarrow> string \<Rightarrow> string list option \<Rightarrow> string list \<Rightarrow> jv list \<Rightarrow> string list compiling" where
  "required_names label path declared seen [] = give []"
| "required_names label path declared seen (v # vs) =
     bind_c (assertPropertyName v label path)
       (\<lambda>k. bind_c (ensure (k \<notin> set seen) (schemaError label path ''must not contain duplicates.''))
       (\<lambda>_. bind_c (ensure (case declared of None \<Rightarrow> False | Some ks \<Rightarrow> k \<in> set ks) (schemaError label path ''references an undeclared property.''))
       (\<lambda>_. bind_c (required_names label path declared (k # seen) vs) (\<lambda>ks. give (k # ks)))))"

definition compile_required :: "fields \<Rightarrow> string \<Rightarrow> string \<Rightarrow> string list option \<Rightarrow> string list option compiling" where
  "compile_required src label path declared =
     (case map_of src ''required'' of
        None \<Rightarrow> give None
      | Some (VArr vs) \<Rightarrow>
          if 128 < length vs then throw (schemaError label (path @ ''.required'') ''must be a bounded string array.'')
          else bind_c (required_names label (path @ ''.required'') declared [] vs) (\<lambda>ks. give (Some ks))
      | Some _ \<Rightarrow> throw (schemaError label (path @ ''.required'') ''must be a bounded string array.''))"

definition compile_additional :: "part_compiler \<Rightarrow> fields \<Rightarrow> string \<Rightarrow> (bool + schema_node) option compiling" where
  "compile_additional rec src path =
     (case map_of src ''additionalProperties'' of
        None \<Rightarrow> give None
      | Some (VBool b) \<Rightarrow> give (Some (Inl b))
      | Some v \<Rightarrow> bind_c (rec v (path @ ''.additionalProperties'') None) (\<lambda>a. give (Some (Inr a))))"

definition compile_part :: "part_compiler \<Rightarrow> fields \<Rightarrow> string \<Rightarrow> string \<Rightarrow> string list option \<Rightarrow> schema_node option compiling" where
  "compile_part rec src keyword path inherited =
     (case map_of src keyword of
        None \<Rightarrow> give None
      | Some v \<Rightarrow> bind_c (rec v (path @ ''.'' @ keyword) inherited) (\<lambda>a. give (Some a)))"

fun number_from :: "nat \<Rightarrow> 'a list \<Rightarrow> (nat \<times> 'a) list" where
  "number_from i [] = []"
| "number_from i (x # xs) = (i, x) # number_from (Suc i) xs"

definition compileBranches :: "part_compiler \<Rightarrow> fields \<Rightarrow> string \<Rightarrow> string \<Rightarrow> string \<Rightarrow> string list option \<Rightarrow> schema_node list compiling" where
  "compileBranches rec src keyword label path inherited =
     (case map_of src keyword of
        None \<Rightarrow> give []
      | Some (VArr vs) \<Rightarrow>
          if vs = [] \<or> 32 < length vs then throw (schemaError label (path @ ''.'' @ keyword) ''must contain between 1 and 32 schemas.'')
          else map_c (\<lambda>(i, v). rec v (path @ ''.'' @ keyword @ ''['' @ show_nat i @ '']'') inherited) (number_from 0 vs)
      | Some _ \<Rightarrow> throw (schemaError label (path @ ''.'' @ keyword) ''must contain between 1 and 32 schemas.''))"

definition compile_enum :: "(rat \<Rightarrow> string) \<Rightarrow> fields \<Rightarrow> string \<Rightarrow> string \<Rightarrow> jv list option compiling" where
  "compile_enum number src label path =
     (case map_of src ''enum'' of
        None \<Rightarrow> give None
      | Some (VArr vs) \<Rightarrow>
          if vs = [] \<or> 128 < length vs then throw (schemaError label (path @ ''.enum'') ''must be a bounded non-empty array.'')
          else bind_c (map_c (\<lambda>(i, v). cloneJsonLiteral label (path @ ''.enum['' @ show_nat i @ '']'') 0 v) (number_from 0 vs))
            (\<lambda>ws. bind_c (ensure (distinct (map (jsonLiteralKey number) ws)) (schemaError label (path @ ''.enum'') ''must contain unique values.''))
            (\<lambda>_. give (Some ws)))
      | Some _ \<Rightarrow> throw (schemaError label (path @ ''.enum'') ''must be a bounded non-empty array.''))"

definition compile_const :: "fields \<Rightarrow> string \<Rightarrow> string \<Rightarrow> jv option compiling" where
  "compile_const src label path =
     (case map_of src ''const'' of
        None \<Rightarrow> give None
      | Some v \<Rightarrow> bind_c (cloneJsonLiteral label (path @ ''.const'') 0 v) (\<lambda>w. give (Some w)))"

definition compile_format :: "fields \<Rightarrow> string \<Rightarrow> string \<Rightarrow> schema_format option compiling" where
  "compile_format src label path =
     (case map_of src ''format'' of
        None \<Rightarrow> give None
      | Some v \<Rightarrow> (case schema_format_of v of None \<Rightarrow> throw (schemaError label (path @ ''.format'') ''is unsupported.'') | Some g \<Rightarrow> give (Some g)))"

definition compileSafePattern :: "(string \<Rightarrow> (string \<Rightarrow> bool) option) \<Rightarrow> fields \<Rightarrow> string \<Rightarrow> string \<Rightarrow> (string \<times> (string \<Rightarrow> bool)) option compiling" where
  "compileSafePattern re2 src label path =
     (case map_of src ''pattern'' of
        None \<Rightarrow> give None
      | Some (VStr s) \<Rightarrow>
          if 160 < utf16_length s then throw (schemaError label (path @ ''.pattern'') ''must be a string of at most 160 characters.'')
          else (case re2 s of
                  None \<Rightarrow> throw (schemaError label (path @ ''.pattern'') ''must use the supported bounded regular-expression syntax.'')
                | Some t \<Rightarrow> give (Some (s, t)))
      | Some _ \<Rightarrow> throw (schemaError label (path @ ''.pattern'') ''must be a string of at most 160 characters.''))"

section \<open>The node\<close>

definition supported_keywords :: "string list" where
  "supported_keywords =
     [''additionalProperties'', ''allOf'', ''anyOf'', ''const'', ''enum'', ''format'', ''items'', ''maximum'', ''maxItems'', ''maxLength'',
      ''maxProperties'', ''minimum'', ''minItems'', ''minLength'', ''minProperties'', ''not'', ''oneOf'', ''pattern'', ''properties'',
      ''required'', ''type'']"

definition canonical_branches :: "schema_node list \<Rightarrow> jv option" where
  "canonical_branches as = (if as = [] then None else Some (VArr (map source as)))"

definition canonical_type :: "fields \<Rightarrow> schema_type list \<Rightarrow> jv option" where
  "canonical_type src declared =
     (case map_of src ''type'' of
        None \<Rightarrow> None
      | Some (VArr _) \<Rightarrow> Some (VArr (map (\<lambda>t. VStr (type_text t)) declared))
      | Some _ \<Rightarrow> Some (case declared of [] \<Rightarrow> VUndef | t # _ \<Rightarrow> VStr (type_text t)))"

text \<open>What the keywords of a schema have become, before it is put together.\<close>

record node_parts =
  np_facts :: node_facts
  np_declared :: "schema_type list"
  np_required :: "string list option"
  np_pattern :: "string option"
  np_additional :: "(bool + schema_node) option"
  np_all :: "schema_node list"
  np_any :: "schema_node list"
  np_one :: "schema_node list"
  np_not :: "schema_node option"
  np_items :: "schema_node option"
  np_properties :: "(string \<times> schema_node) list option"

definition canonical_entry :: "fields \<Rightarrow> node_parts \<Rightarrow> string \<Rightarrow> jv option" where
  "canonical_entry src p k =
     (let f = np_facts p in
      if k = ''additionalProperties'' then map_option (\<lambda>a. case a of Inl b \<Rightarrow> VBool b | Inr n \<Rightarrow> source n) (np_additional p)
      else if k = ''allOf'' then canonical_branches (np_all p)
      else if k = ''anyOf'' then canonical_branches (np_any p)
      else if k = ''const'' then nf_const f
      else if k = ''enum'' then map_option VArr (nf_enum f)
      else if k = ''format'' then map_option (\<lambda>g. VStr (format_text g)) (nf_format f)
      else if k = ''items'' then map_option source (np_items p)
      else if k = ''maximum'' then map_option VNum (nf_maximum f)
      else if k = ''maxItems'' then map_option VNum (nf_maxItems f)
      else if k = ''maxLength'' then map_option VNum (nf_maxLength f)
      else if k = ''maxProperties'' then map_option VNum (nf_maxProperties f)
      else if k = ''minimum'' then map_option VNum (nf_minimum f)
      else if k = ''minItems'' then map_option VNum (nf_minItems f)
      else if k = ''minLength'' then map_option VNum (nf_minLength f)
      else if k = ''minProperties'' then map_option VNum (nf_minProperties f)
      else if k = ''not'' then map_option source (np_not p)
      else if k = ''oneOf'' then canonical_branches (np_one p)
      else if k = ''pattern'' then map_option VStr (np_pattern p)
      else if k = ''properties'' then map_option (\<lambda>as. VObj (map (\<lambda>(k, n). (k, source n)) as)) (np_properties p)
      else if k = ''required'' then map_option (\<lambda>ks. VArr (map VStr ks)) (np_required p)
      else if k = ''type'' then canonical_type src (np_declared p)
      else None)"

definition put_together :: "fields \<Rightarrow> string \<Rightarrow> string \<Rightarrow> node_parts \<Rightarrow> schema_node compiling" where
  "put_together src label path p =
     bind_c (map_c (\<lambda>k. case canonical_entry src p k of
                          None \<Rightarrow> throw (schemaError label path (''could not canonicalize '' @ k @ ''.''))
                        | Some v \<Rightarrow> give (k, v)) (map fst src))
       (\<lambda>entries. give (Node (np_facts p) (case np_additional p of None \<Rightarrow> Inl True | Some a \<Rightarrow> a) (np_all p) (np_any p) (np_one p)
          (np_not p) (np_items p) (case np_properties p of None \<Rightarrow> [] | Some ps \<Rightarrow> ps) (VObj entries)))"

definition declared_names :: "(string \<times> schema_node) list option \<Rightarrow> string list option \<Rightarrow> string list option" where
  "declared_names ps inherited = (case ps of None \<Rightarrow> inherited | Some qs \<Rightarrow> Some (map fst qs))"

text \<open>The numeric keywords in the order of the code.\<close>

definition compile_bounds :: "fields \<Rightarrow> string \<Rightarrow> string \<Rightarrow> node_facts \<Rightarrow> node_facts compiling" where
  "compile_bounds src label path f =
     bind_c (readFiniteNumber src ''minimum'' label path) (\<lambda>mi.
     bind_c (readFiniteNumber src ''maximum'' label path) (\<lambda>ma.
     bind_c (readNonNegativeInteger src ''minLength'' label path) (\<lambda>mil.
     bind_c (readNonNegativeInteger src ''maxLength'' label path) (\<lambda>mal.
     bind_c (readNonNegativeInteger src ''minItems'' label path) (\<lambda>mii.
     bind_c (readNonNegativeInteger src ''maxItems'' label path) (\<lambda>mai.
     bind_c (readNonNegativeInteger src ''minProperties'' label path) (\<lambda>mip.
     bind_c (readNonNegativeInteger src ''maxProperties'' label path) (\<lambda>map'.
     bind_c (assertOrderedBounds mi ma label path ''minimum'' ''maximum'') (\<lambda>_.
     bind_c (assertOrderedBounds mil mal label path ''minLength'' ''maxLength'') (\<lambda>_.
     bind_c (assertOrderedBounds mii mai label path ''minItems'' ''maxItems'') (\<lambda>_.
     bind_c (assertOrderedBounds mip map' label path ''minProperties'' ''maxProperties'') (\<lambda>_.
     give (f\<lparr>nf_minimum := mi, nf_maximum := ma, nf_minLength := mil, nf_maxLength := mal, nf_minItems := mii, nf_maxItems := mai,
             nf_minProperties := mip, nf_maxProperties := map'\<rparr>)))))))))))))"

definition plain_facts :: node_facts where
  "plain_facts = \<lparr>nf_types = [], nf_enum = None, nf_const = None, nf_format = None, nf_pattern = None, nf_minimum = None, nf_maximum = None,
     nf_minLength = None, nf_maxLength = None, nf_minItems = None, nf_maxItems = None, nf_minProperties = None, nf_maxProperties = None,
     nf_required = []\<rparr>"

definition compile_fields :: "host \<Rightarrow> string \<Rightarrow> bool \<Rightarrow> part_compiler \<Rightarrow> fields \<Rightarrow> string \<Rightarrow> string list option \<Rightarrow> schema_node compiling" where
  "compile_fields x label external rec src path inherited =
     bind_c (ensure (set (map fst src) \<subseteq> set supported_keywords) (schemaError label path ''contains an unsupported keyword.'')) (\<lambda>_.
     bind_c (lift_c (readTypes src label path)) (\<lambda>declared.
     bind_c (lift_c (assertKeywordTypeCompatibility src declared label path external)) (\<lambda>types.
     bind_c (compile_properties rec src label path) (\<lambda>ps.
     bind_c (compile_required src label path (declared_names ps inherited)) (\<lambda>required.
     bind_c (compile_additional rec src path) (\<lambda>ad.
     bind_c (compile_part rec src ''items'' path None) (\<lambda>it.
     bind_c (compile_bounds src label path (plain_facts\<lparr>nf_types := types, nf_required := (case required of None \<Rightarrow> [] | Some ks \<Rightarrow> ks)\<rparr>)) (\<lambda>f.
     bind_c (compile_enum (ho_number x) src label path) (\<lambda>en.
     bind_c (compile_const src label path) (\<lambda>co.
     bind_c (compile_format src label path) (\<lambda>fo.
     bind_c (compileSafePattern (ho_pattern x) src label path) (\<lambda>pa.
     bind_c (compileBranches rec src ''allOf'' label path (declared_names ps inherited)) (\<lambda>al.
     bind_c (compileBranches rec src ''anyOf'' label path (declared_names ps inherited)) (\<lambda>an.
     bind_c (compileBranches rec src ''oneOf'' label path (declared_names ps inherited)) (\<lambda>oo.
     bind_c (compile_part rec src ''not'' path (declared_names ps inherited)) (\<lambda>ng.
     put_together src label path
       \<lparr>np_facts = f\<lparr>nf_enum := en, nf_const := co, nf_format := fo, nf_pattern := map_option snd pa\<rparr>,
        np_declared = declared, np_required = required, np_pattern = map_option fst pa, np_additional = ad,
        np_all = al, np_any = an, np_one = oo, np_not = ng, np_items = it, np_properties = ps\<rparr>))))))))))))))))"

definition max_schema_nodes :: nat where "max_schema_nodes = 512"

definition count_node :: "string \<Rightarrow> string \<Rightarrow> unit compiling" where
  "count_node label path s =
     (if max_schema_nodes < Suc (schemaNodes s) then Inl (schemaError label path ''contains too many schema nodes.'')
      else Inr ((), s\<lparr>schemaNodes := Suc (schemaNodes s)\<rparr>))"

text \<open>\<open>levels\<close> is how many levels of depth are left.\<close>

primrec compileSchemaNode :: "nat \<Rightarrow> host \<Rightarrow> string \<Rightarrow> bool \<Rightarrow> part_compiler" where
  "compileSchemaNode 0 x label external v path inherited = throw (schemaError label path ''exceeds the supported nesting depth.'')"
| "compileSchemaNode (Suc levels) x label external v path inherited =
     (case v of
        VObj src \<Rightarrow> bind_c (count_node label path)
          (\<lambda>_. compile_fields x label external (compileSchemaNode levels x label external) src path inherited)
      | _ \<Rightarrow> throw (schemaError label path ''must be a plain object.''))"

definition max_levels :: nat where "max_levels = 9"

primrec declaresObjectRoot :: "bool \<Rightarrow> schema_node \<Rightarrow> bool" where
  "declaresObjectRoot external (Node f ad al an oo ng it pr src) =
     (if nf_types f \<noteq> [] then nf_types f = [TObject]
      else external \<and> (\<exists>b \<in> set (map (declaresObjectRoot external) al). b))"

definition safe_label :: "jv \<Rightarrow> string" where
  "safe_label v = (case v of VStr s \<Rightarrow> if js_trim s = [] then ''JSON schema'' else take 160 (js_trim s) | _ \<Rightarrow> ''JSON schema'')"

definition compileClosedJsonSchema :: "host \<Rightarrow> jv \<Rightarrow> jv \<Rightarrow> bool \<Rightarrow> jv \<Rightarrow> string + schema_node" where
  "compileClosedJsonSchema x schema label requireTopLevelObject typeSemantics =
     (let l = safe_label label; external = (typeSemantics = VStr ''external'')
      in case compileSchemaNode max_levels x l external schema ''$'' None \<lparr>literalNodes = 0, schemaNodes = 0\<rparr> of
           Inl e \<Rightarrow> Inl e
         | Inr (a, s) \<Rightarrow>
             if requireTopLevelObject \<and> \<not> declaresObjectRoot external a
             then Inl (schemaError l ''$'' ''must declare an object root.'') else Inr a)"

text \<open>The function \<open>validate\<close> of the result.\<close>

definition validate_root :: "host \<Rightarrow> schema_node \<Rightarrow> jv \<Rightarrow> verdict" where
  "validate_root x a v = fst (validateNode x a v ''$'' 0)"

definition closed_empty_schema :: jv where
  "closed_empty_schema = VObj [(''type'', VStr ''object''), (''properties'', VObj []), (''additionalProperties'', VBool False)]"

section \<open>The canonical schema is the schema\<close>

text \<open>Objects have every key once.\<close>

fun distinct_keys :: "jv \<Rightarrow> bool" where
  "distinct_keys (VArr vs) = list_all distinct_keys vs"
| "distinct_keys (VObj ps) = (distinct (map fst ps) \<and> list_all (\<lambda>p. distinct_keys (snd p)) ps)"
| "distinct_keys _ = True"

lemma clone_same:
  "cloneJsonLiteral label path depth v s = Inr (w, t) \<Longrightarrow> w = v"
  "clone_elements label path depth i vs s = Inr (ws, t) \<Longrightarrow> ws = vs"
  "clone_entries label path depth ps s = Inr (qs, t) \<Longrightarrow> qs = ps"
proof (induction label path depth v s and label path depth i vs s and label path depth ps s arbitrary: w t and ws t and qs t
    rule: cloneJsonLiteral_clone_elements_clone_entries.induct)
  case (1 label path depth v s)
  then show ?case by (cases v) (auto simp: cloneJsonLiteral.simps split: if_splits sum.splits prod.splits)
qed (auto split: if_splits sum.splits prod.splits)

lemma type_text_of: "schema_type_of v = Some t \<Longrightarrow> v = VStr (type_text t)"
  by (auto simp: schema_type_of_def split: jv.splits if_splits)

lemma format_text_of: "schema_format_of v = Some g \<Longrightarrow> v = VStr (format_text g)"
  by (auto simp: schema_format_of_def split: jv.splits if_splits)

lemma read_type_list_same: "read_type_list e ts vs = Inr us \<Longrightarrow> us = ts @ drop (length ts) us \<and> vs = map (\<lambda>t. VStr (type_text t)) (drop (length ts) us)"
proof (induction vs arbitrary: ts)
  case (Cons v vs)
  then obtain t where t: "schema_type_of v = Some t" "read_type_list e (ts @ [t]) vs = Inr us"
    by (auto split: option.splits if_splits)
  from Cons.IH [OF t(2)] have h: "us = ts @ t # drop (Suc (length ts)) us" "vs = map (\<lambda>t. VStr (type_text t)) (drop (Suc (length ts)) us)" by simp_all
  have d: "drop (length ts) us = t # drop (Suc (length ts)) us" by (subst h(1)) simp
  then show ?case using h type_text_of [OF t(1)] by simp
qed auto

lemma readTypes_same: "readTypes src label path = Inr ts \<Longrightarrow> canonical_type src ts = map_of src ''type''"
  by (auto simp: readTypes_def canonical_type_def raw_types_def split: option.splits if_splits jv.splits
      dest!: read_type_list_same type_text_of)

lemma lift_c_Inr: "lift_c r s = Inr (a, t) \<longleftrightarrow> r = Inr a \<and> s = t"
  by (cases r) (auto simp: lift_c_def compiling_simps)

definition copies :: "part_compiler \<Rightarrow> bool" where
  "copies rec \<longleftrightarrow> (\<forall>v path inherited s a t. distinct_keys v \<longrightarrow> rec v path inherited s = Inr (a, t) \<longrightarrow> source a = v)"

lemma copiesD: "copies rec \<Longrightarrow> rec v path inherited s = Inr (a, t) \<Longrightarrow> distinct_keys v \<Longrightarrow> source a = v"
  unfolding copies_def by blast

lemma distinct_value: "distinct_keys (VObj src) \<Longrightarrow> map_of src k = Some v \<Longrightarrow> distinct_keys v"
  by (auto simp: list_all_iff dest: map_of_SomeD)

lemma properties_same:
  assumes "copies rec" "distinct_keys (VObj src)" "compile_properties rec src label path s = Inr (ps, t)"
  shows "map_option (\<lambda>as. VObj (map (\<lambda>(k, n). (k, source n)) as)) ps = map_of src ''properties''"
proof (cases "map_of src ''properties''")
  case (Some v)
  then obtain qs as u where v: "v = VObj qs" "ps = Some as" and m: "map_c (compile_property rec label path) qs u = Inr (as, t)"
    using assms(3) by (auto simp: compile_properties_def compiling_simps split: jv.splits)
  have d: "\<forall>p \<in> set qs. distinct_keys (snd p)" using distinct_value [OF assms(2) Some] by (simp add: v list_all_iff)
  have "map (\<lambda>(k, n). (k, source n)) as = map (\<lambda>p. p) qs"
    by (rule map_c_same [OF _ m]) (use d copiesD [OF assms(1)] in \<open>auto simp: compile_property_def compiling_simps\<close>)
  then show ?thesis by (simp add: Some v)
qed (use assms(3) in \<open>auto simp: compile_properties_def compiling_simps\<close>)

lemma number_from_snd: "map snd (number_from i vs) = vs"
  by (induction vs arbitrary: i) simp_all

lemma number_from_mem: "(j, v) \<in> set (number_from i vs) \<Longrightarrow> v \<in> set vs"
  using number_from_snd [of i vs] by (metis list.set_map rev_image_eqI snd_conv)

lemma branches_same:
  assumes "copies rec" "distinct_keys (VObj src)" "compileBranches rec src k label path inherited s = Inr (as, t)"
  shows "canonical_branches as = map_of src k"
proof (cases "map_of src k")
  case (Some v)
  then obtain vs where v: "v = VArr vs" "vs \<noteq> []"
    and m: "map_c (\<lambda>(i, v). rec v (path @ ''.'' @ k @ ''['' @ show_nat i @ '']'') inherited) (number_from 0 vs) s = Inr (as, t)"
    using assms(3) by (auto simp: compileBranches_def compiling_simps split: jv.splits if_splits)
  have d: "\<forall>w \<in> set vs. distinct_keys w" using distinct_value [OF assms(2) Some] by (simp add: v list_all_iff)
  have "map source as = map snd (number_from 0 vs)"
    by (rule map_c_same [OF _ m]) (use d copiesD [OF assms(1)] in \<open>auto dest: number_from_mem\<close>)
  then show ?thesis using v by (auto simp: Some number_from_snd canonical_branches_def)
qed (use assms(3) in \<open>auto simp: compileBranches_def compiling_simps canonical_branches_def\<close>)

lemma part_same:
  assumes "copies rec" "distinct_keys (VObj src)" "compile_part rec src k path inherited s = Inr (a, t)"
  shows "map_option source a = map_of src k"
  using assms(3) copiesD [OF assms(1)] distinct_value [OF assms(2)]
  by (cases "map_of src k") (auto simp: compile_part_def compiling_simps)

lemma additional_same:
  assumes "copies rec" "distinct_keys (VObj src)" "compile_additional rec src path s = Inr (a, t)"
  shows "map_option (\<lambda>a. case a of Inl b \<Rightarrow> VBool b | Inr n \<Rightarrow> source n) a = map_of src ''additionalProperties''"
proof (cases "map_of src ''additionalProperties''")
  case (Some v)
  then show ?thesis using assms(3) copiesD [OF assms(1)] distinct_value [OF assms(2) Some]
    by (cases v) (auto simp: compile_additional_def compiling_simps)
qed (use assms(3) in \<open>auto simp: compile_additional_def compiling_simps\<close>)

lemma required_names_same: "required_names label path declared seen vs s = Inr (ks, t) \<Longrightarrow> map VStr ks = vs"
  by (induction vs arbitrary: seen ks) (auto simp: compiling_simps assertPropertyName_def split: jv.splits if_splits)

lemma required_same: "compile_required src label path declared s = Inr (r, t) \<Longrightarrow> map_option (\<lambda>ks. VArr (map VStr ks)) r = map_of src ''required''"
  by (auto simp: compile_required_def compiling_simps split: option.splits jv.splits if_splits dest: required_names_same)

lemma bound_same:
  assumes "read_bound read reason src k label path s = Inr (d, t)" "\<And>v d. read v = Some d \<Longrightarrow> v = VNum d"
  shows "map_option VNum d = map_of src k"
proof (cases "map_of src k")
  case (Some v)
  then obtain e where "read v = Some e" "d = Some e" using assms(1) by (auto simp: read_bound_def compiling_simps split: option.splits)
  then show ?thesis using assms(2) Some by simp
qed (use assms(1) in \<open>simp add: read_bound_def compiling_simps\<close>)

lemma is_finite_number_same: "is_finite_number v = Some d \<Longrightarrow> v = VNum d"
  by (auto simp: is_finite_number_def split: jv.splits if_splits)

lemma is_safe_natural_same: "is_safe_natural v = Some d \<Longrightarrow> v = VNum d"
  by (auto simp: is_safe_natural_def split: jv.splits if_splits option.splits)

lemma enum_same: "compile_enum number src label path s = Inr (en, t) \<Longrightarrow> map_option VArr en = map_of src ''enum''"
proof (cases "map_of src ''enum''")
  case (Some v)
  assume e: "compile_enum number src label path s = Inr (en, t)"
  then obtain vs ws u where v: "v = VArr vs" "en = Some ws"
    and m: "map_c (\<lambda>(i, v). cloneJsonLiteral label (path @ ''.enum['' @ show_nat i @ '']'') 0 v) (number_from 0 vs) s = Inr (ws, u)"
    using Some by (auto simp: compile_enum_def compiling_simps split: jv.splits if_splits)
  have "map (\<lambda>w. w) ws = map snd (number_from 0 vs)" by (rule map_c_same [OF _ m]) (auto dest: clone_same(1))
  then show ?thesis by (simp add: Some v number_from_snd)
qed (auto simp: compile_enum_def compiling_simps)

lemma const_same: "compile_const src label path s = Inr (c, t) \<Longrightarrow> c = map_of src ''const''"
  by (auto simp: compile_const_def compiling_simps split: option.splits dest: clone_same(1))

lemma format_same:
  assumes "compile_format src label path s = Inr (g, t)"
  shows "map_option (\<lambda>g. VStr (format_text g)) g = map_of src ''format''"
proof (cases "map_of src ''format''")
  case (Some v)
  then obtain e where "schema_format_of v = Some e" "g = Some e" using assms by (auto simp: compile_format_def compiling_simps split: option.splits)
  then show ?thesis using format_text_of Some by simp
qed (use assms in \<open>simp add: compile_format_def compiling_simps\<close>)

lemma pattern_same: "compileSafePattern re2 src label path s = Inr (p, t) \<Longrightarrow> map_option VStr (map_option fst p) = map_of src ''pattern''"
  by (auto simp: compileSafePattern_def compiling_simps split: option.splits jv.splits if_splits)

lemma bounds_same:
  assumes "compile_bounds src label path f s = Inr (g, t)"
  shows "map_option VNum (nf_minimum g) = map_of src ''minimum''" "map_option VNum (nf_maximum g) = map_of src ''maximum''"
    "map_option VNum (nf_minLength g) = map_of src ''minLength''" "map_option VNum (nf_maxLength g) = map_of src ''maxLength''"
    "map_option VNum (nf_minItems g) = map_of src ''minItems''" "map_option VNum (nf_maxItems g) = map_of src ''maxItems''"
    "map_option VNum (nf_minProperties g) = map_of src ''minProperties''" "map_option VNum (nf_maxProperties g) = map_of src ''maxProperties''"
  using assms unfolding compile_bounds_def compiling_simps
  by (auto dest: bound_same [OF _ is_finite_number_same] bound_same [OF _ is_safe_natural_same])

text \<open>Which parts the fields have become: the calls of the compiler in order, all without error.\<close>

lemma compile_fields_parts:
  assumes "compile_fields x label external rec src path inherited s = Inr (a, t)"
  obtains declared types ps req ad it f en co fo pa al an oo ng
    s1 s2 s3 s4 s5 s6 s7 s8 s9 s10 s11 s12 where
    "set (map fst src) \<subseteq> set supported_keywords" "readTypes src label path = Inr declared"
    "assertKeywordTypeCompatibility src declared label path external = Inr types"
    "compile_properties rec src label path s = Inr (ps, s1)"
    "compile_required src label path (declared_names ps inherited) s1 = Inr (req, s2)"
    "compile_additional rec src path s2 = Inr (ad, s3)"
    "compile_part rec src ''items'' path None s3 = Inr (it, s4)"
    "compile_bounds src label path (plain_facts\<lparr>nf_types := types, nf_required := (case req of None \<Rightarrow> [] | Some ks \<Rightarrow> ks)\<rparr>) s4 = Inr (f, s5)"
    "compile_enum (ho_number x) src label path s5 = Inr (en, s6)"
    "compile_const src label path s6 = Inr (co, s7)"
    "compile_format src label path s7 = Inr (fo, s8)"
    "compileSafePattern (ho_pattern x) src label path s8 = Inr (pa, s9)"
    "compileBranches rec src ''allOf'' label path (declared_names ps inherited) s9 = Inr (al, s10)"
    "compileBranches rec src ''anyOf'' label path (declared_names ps inherited) s10 = Inr (an, s11)"
    "compileBranches rec src ''oneOf'' label path (declared_names ps inherited) s11 = Inr (oo, s12)"
    "\<exists>s13. compile_part rec src ''not'' path (declared_names ps inherited) s12 = Inr (ng, s13) \<and>
      put_together src label path
       \<lparr>np_facts = f\<lparr>nf_enum := en, nf_const := co, nf_format := fo, nf_pattern := map_option snd pa\<rparr>,
        np_declared = declared, np_required = req, np_pattern = map_option fst pa, np_additional = ad,
        np_all = al, np_any = an, np_one = oo, np_not = ng, np_items = it, np_properties = ps\<rparr> s13 = Inr (a, t)"
  using assms unfolding compile_fields_def compiling_simps lift_c_Inr
  by (elim exE conjE, hypsubst, intro that) (assumption | (intro exI conjI, assumption+))+

lemma put_together_same:
  assumes "put_together src label path p s = Inr (a, t)" "distinct (map fst src)" "set (map fst src) \<subseteq> set supported_keywords"
    and "\<And>k. k \<in> set supported_keywords \<Longrightarrow> canonical_entry src p k = map_of src k"
  shows "source a = VObj src"
proof -
  obtain entries u where e: "map_c (\<lambda>k. case canonical_entry src p k of
        None \<Rightarrow> throw (schemaError label path (''could not canonicalize '' @ k @ ''.'')) | Some v \<Rightarrow> give (k, v)) (map fst src) s = Inr (entries, u)"
    and a: "source a = VObj entries"
    using assms(1) by (auto simp: put_together_def compiling_simps)
  have c: "\<And>k. k \<in> fst ` set src \<Longrightarrow> canonical_entry src p k = map_of src k" using assms(3,4) by auto
  have "map (\<lambda>x. x) entries = map (\<lambda>k. (k, the (map_of src k))) (map fst src)"
    by (rule map_c_same [OF _ e]) (auto simp: compiling_simps c split: option.splits)
  also have "\<dots> = src" using assms(2) by (auto intro!: map_idI simp: map_of_eq_Some_iff [THEN iffD2])
  finally show ?thesis by (simp add: a)
qed

lemma fields_same:
  assumes "copies rec" "distinct_keys (VObj src)" "compile_fields x label external rec src path inherited s = Inr (a, t)"
  shows "source a = VObj src"
proof (rule compile_fields_parts [OF assms(3)], elim exE conjE)
  fix declared types ps req ad it f en co fo pa al an oo ng s1 s2 s3 s4 s5 s6 s7 s8 s9 s10 s11 s12 s13
  let ?p = "\<lparr>np_facts = f\<lparr>nf_enum := en, nf_const := co, nf_format := fo, nf_pattern := map_option snd pa\<rparr>,
        np_declared = declared, np_required = req, np_pattern = map_option fst pa, np_additional = ad,
        np_all = al, np_any = an, np_one = oo, np_not = ng, np_items = it, np_properties = ps\<rparr>"
  assume r: "set (map fst src) \<subseteq> set supported_keywords" "readTypes src label path = Inr declared"
    "compile_properties rec src label path s = Inr (ps, s1)"
    "compile_required src label path (declared_names ps inherited) s1 = Inr (req, s2)"
    "compile_additional rec src path s2 = Inr (ad, s3)"
    "compile_part rec src ''items'' path None s3 = Inr (it, s4)"
    and b: "compile_bounds src label path (plain_facts\<lparr>nf_types := types, nf_required := (case req of None \<Rightarrow> [] | Some ks \<Rightarrow> ks)\<rparr>) s4 = Inr (f, s5)"
    and r2: "compile_enum (ho_number x) src label path s5 = Inr (en, s6)"
    "compile_const src label path s6 = Inr (co, s7)" "compile_format src label path s7 = Inr (fo, s8)"
    "compileSafePattern (ho_pattern x) src label path s8 = Inr (pa, s9)"
    "compileBranches rec src ''allOf'' label path (declared_names ps inherited) s9 = Inr (al, s10)"
    "compileBranches rec src ''anyOf'' label path (declared_names ps inherited) s10 = Inr (an, s11)"
    "compileBranches rec src ''oneOf'' label path (declared_names ps inherited) s11 = Inr (oo, s12)"
    "compile_part rec src ''not'' path (declared_names ps inherited) s12 = Inr (ng, s13)"
    and p: "put_together src label path ?p s13 = Inr (a, t)"
  note e = readTypes_same [OF r(2)] properties_same [OF assms(1,2) r(3)] required_same [OF r(4)] additional_same [OF assms(1,2) r(5)]
    part_same [OF assms(1,2) r(6)] bounds_same [OF b] enum_same [OF r2(1)] const_same [OF r2(2)] format_same [OF r2(3)] pattern_same [OF r2(4)]
    branches_same [OF assms(1,2) r2(5)] branches_same [OF assms(1,2) r2(6)] branches_same [OF assms(1,2) r2(7)] part_same [OF assms(1,2) r2(8)]
  have "canonical_entry src ?p k = map_of src k" if "k \<in> set supported_keywords" for k
    using that unfolding supported_keywords_def by (elim set_ConsD [THEN disjE]; simp add: canonical_entry_def e)
  then show ?thesis using put_together_same [OF p _ r(1)] assms(2) by simp
qed

lemma compile_copies: "copies (compileSchemaNode levels x label external)"
proof (induction levels)
  case 0
  then show ?case by (simp add: copies_def compiling_simps)
next
  case (Suc levels)
  show ?case unfolding copies_def
  proof (intro allI impI)
    fix v path inherited s a t
    assume d: "distinct_keys v" and c: "compileSchemaNode (Suc levels) x label external v path inherited s = Inr (a, t)"
    then obtain src u where "v = VObj src" "compile_fields x label external (compileSchemaNode levels x label external) src path inherited u = Inr (a, t)"
      by (cases v) (auto simp: compiling_simps)
    then show "source a = v" using fields_same [OF Suc] d by simp
  qed
qed

end
