(* ===== verification/SchemaGuarantees.thy ===== *)
theory SchemaGuarantees
  imports SchemaCompiler
begin

text \<open>
  What a caller of the closed JSON schemas may rely on: the shape that acceptance guarantees, the limits that every
  compiled schema keeps, the canonical schema, and where the validator departs from the meaning.
\<close>

section \<open>What acceptance means for the shape of a value\<close>

lemma in_turn_accepts: "in_turn fs n = (Accepts, n') \<Longrightarrow> f \<in> set fs \<Longrightarrow> \<exists>m m'. f m = (Accepts, m')"
  by (induction fs arbitrary: n) (auto split: prod.splits verdict.splits)

lemma all_stage_accepts: "all_stage v path fs n = (Accepts, n') \<Longrightarrow> f \<in> set fs \<Longrightarrow> \<exists>m m'. f v path m = (Accepts, m')"
proof (induction fs arbitrary: n)
  case (Cons g fs)
  obtain q n1 where q: "g v path n = (q, n1)" by fastforce
  consider "q = Accepts" | e where "q = Refuses e True" | e where "q = Refuses e False" by (cases q) (auto intro: bool.exhaust)
  then show ?case by cases (use Cons q in auto)
qed simp

lemma node_accepts_stage:
  assumes "validateNode x (Node f ad al an oo ng it pr src) v path n = (Accepts, n')"
    and "st \<in> set ([type_stage f v path, all_stage v path (map (validateNode x) al)]
      @ value_stages x f (map_sum (\<lambda>b. b) (validateNode x) ad) (map_option (validateNode x) it) (map (map_prod (\<lambda>k. k) (validateNode x)) pr) v path)"
  shows "\<exists>m m'. st m = (Accepts, m')"
  using assms in_turn_accepts by (auto simp: node_validator_def simp del: in_turn.simps split: if_splits)

lemma accepted_type: "validateNode x (Node f ad al an oo ng it pr src) v path n = (Accepts, n') \<Longrightarrow> nf_types f = [TObject] \<Longrightarrow> \<exists>ps. v = VObj ps"
  using node_accepts_stage [of x f ad al an oo ng it pr src v path n n' "type_stage f v path"]
  by (cases v) (auto simp: type_stage_def refuse_if_def)

lemma object_root_accepts: "declaresObjectRoot external a \<Longrightarrow> validateNode x a v path n = (Accepts, n') \<Longrightarrow> \<exists>ps. v = VObj ps"
proof (induction a arbitrary: n n')
  case (Node f ad al an oo ng it pr src)
  show ?case
  proof (cases "nf_types f = []")
    case False
    then have "nf_types f = [TObject]" using Node.prems(1) by simp
    then show ?thesis using accepted_type [OF Node.prems(2)] by simp
  next
    case True
    then obtain b where b: "b \<in> set al" "declaresObjectRoot external b" using Node.prems(1) by auto
    obtain m m' where "all_stage v path (map (validateNode x) al) m = (Accepts, m')"
      using node_accepts_stage [OF Node.prems(2), of "all_stage v path (map (validateNode x) al)"] by auto
    then obtain k k' where "validateNode x b v path k = (Accepts, k')" using all_stage_accepts b(1) by fastforce
    then show ?thesis using Node.IH(2) b by blast
  qed
qed

definition declared_keys :: "fields \<Rightarrow> string set" where
  "declared_keys src = (case map_of src ''properties'' of Some (VObj qs) \<Rightarrow> fst ` set qs | _ \<Rightarrow> {})"

definition required_keys :: "fields \<Rightarrow> string set" where
  "required_keys src = (case map_of src ''required'' of Some (VArr vs) \<Rightarrow> {k. VStr k \<in> set vs} | _ \<Rightarrow> {})"

lemma compiled_shape:
  assumes "compile_fields x label external rec src path inherited s = Inr (a, t)"
    and "map_of src ''type'' = Some (VStr ''object'')" "map_of src ''additionalProperties'' = Some (VBool False)"
  shows "nf_types (facts a) = [TObject] \<and> additional a = Inl False \<and> fst ` set (properties a) = declared_keys src
    \<and> set (nf_required (facts a)) = required_keys src"
proof (rule compile_fields_parts [OF assms(1)], elim exE conjE)
  fix declared types ps req ad it f en co fo pa al an oo ng s1 s2 s3 s4 s5 s6 s7 s8 s9 s10 s11 s12 s13
  let ?f = "plain_facts\<lparr>nf_types := types, nf_required := (case req of None \<Rightarrow> [] | Some ks \<Rightarrow> ks)\<rparr>"
  assume r: "readTypes src label path = Inr declared" "assertKeywordTypeCompatibility src declared label path external = Inr types"
    "compile_properties rec src label path s = Inr (ps, s1)"
    "compile_required src label path (declared_names ps inherited) s1 = Inr (req, s2)"
    "compile_additional rec src path s2 = Inr (ad, s3)"
    "compile_bounds src label path ?f s4 = Inr (f, s5)"
    and p: "put_together src label path
      \<lparr>np_facts = f\<lparr>nf_enum := en, nf_const := co, nf_format := fo, nf_pattern := map_option snd pa\<rparr>,
        np_declared = declared, np_required = req, np_pattern = map_option fst pa, np_additional = ad,
        np_all = al, np_any = an, np_one = oo, np_not = ng, np_items = it, np_properties = ps\<rparr> s13 = Inr (a, t)"
  have "declared = [TObject]" using r(1) assms(2) by (simp add: readTypes_def raw_types_def schema_type_of_def)
  then have t: "types = [TObject]" using r(2) by (auto simp: assertKeywordTypeCompatibility_def Let_def split: if_splits option.splits)
  have f: "nf_types f = types" "nf_required f = (case req of None \<Rightarrow> [] | Some ks \<Rightarrow> ks)"
    using r(6) by (auto simp: compile_bounds_def compiling_simps)
  have q: "fst ` set (case ps of None \<Rightarrow> [] | Some qs \<Rightarrow> qs) = declared_keys src"
  proof (cases "map_of src ''properties''")
    case (Some v)
    then obtain qs as u where v: "v = VObj qs" "ps = Some as" and m: "map_c (compile_property rec label path) qs u = Inr (as, s1)"
      using r(3) by (auto simp: compile_properties_def compiling_simps split: jv.splits)
    have "map fst as = map fst qs" by (rule map_c_same [OF _ m]) (auto simp: compile_property_def compiling_simps)
    then have "fst ` set as = fst ` set qs" by (metis list.set_map)
    then show ?thesis by (simp add: declared_keys_def Some v)
  qed (use r(3) in \<open>auto simp: compile_properties_def compiling_simps declared_keys_def\<close>)
  have k: "set (case req of None \<Rightarrow> [] | Some ks \<Rightarrow> ks) = required_keys src"
  proof (cases req)
    case (Some ks)
    then have "map_of src ''required'' = Some (VArr (map VStr ks))" using required_same [OF r(4)] by simp
    then show ?thesis by (auto simp: required_keys_def Some)
  qed (use required_same [OF r(4)] in \<open>simp add: required_keys_def\<close>)
  have "ad = Some (Inl False)" using r(5) assms(3) by (simp add: compile_additional_def compiling_simps)
  then obtain entries where "a = Node (f\<lparr>nf_enum := en, nf_const := co, nf_format := fo, nf_pattern := map_option snd pa\<rparr>) (Inl False) al an oo ng it
      (case ps of None \<Rightarrow> [] | Some qs \<Rightarrow> qs) (VObj entries)" using p by (auto simp: put_together_def compiling_simps)
  then show ?thesis using q k by (simp add: t f)
qed

lemma closed_node_accepts:
  assumes "validateNode x a v path n = (Accepts, n')" "nf_types (facts a) = [TObject]" "additional a = Inl False"
  shows "\<exists>ps. v = VObj ps \<and> fst ` set ps \<subseteq> fst ` set (properties a) \<and> set (nf_required (facts a)) \<subseteq> fst ` set ps"
proof -
  obtain f al an oo ng it pr src where a: "a = Node f (Inl False) al an oo ng it pr src" using assms(3) by (cases a) auto
  obtain ps where v: "v = VObj ps" using accepted_type [OF assms(1) [unfolded a]] assms(2) by (auto simp: a)
  have st: "\<exists>m m'. st m = (Accepts, m')"
    if "st \<in> set (object_stages f (map (map_prod (\<lambda>k. k) (validateNode x)) pr) (Inl False) ps path)" for st
    using node_accepts_stage [OF assms(1) [unfolded a]] that by (simp add: v value_stages_def)
  have "k \<in> fst ` set pr" if "(k, w) \<in> set ps" for k w
  proof (rule ccontr)
    let ?st = "property_stage path (map (map_prod (\<lambda>k. k) (validateNode x)) pr) (Inl False) (k, w)"
    assume "k \<notin> fst ` set pr"
    then have "map_of pr k = None" by (simp add: map_of_eq_None_iff)
    then have e: "?st = refuse_if True (path @ '' contains an undeclared property.'')" by (simp add: property_stage_def)
    have "?st \<in> set (map (property_stage path (map (map_prod (\<lambda>k. k) (validateNode x)) pr) (Inl False)) ps)"
      unfolding set_map using that by (rule imageI)
    then have "?st \<in> set (object_stages f (map (map_prod (\<lambda>k. k) (validateNode x)) pr) (Inl False) ps path)"
      unfolding object_stages_def set_append by blast
    from st [OF this] show False unfolding e by (simp add: refuse_if_def)
  qed
  moreover have "k \<in> fst ` set ps" if "k \<in> set (nf_required f)" for k
  proof (rule ccontr)
    let ?g = "\<lambda>k. refuse_if (map_of ps k = None) (path @ '' is missing a required property.'')"
    assume "k \<notin> fst ` set ps"
    then have e: "map_of ps k = None" by (simp add: map_of_eq_None_iff)
    have "?g k \<in> set (map ?g (nf_required f))" unfolding set_map using that by (rule imageI)
    then have "?g k \<in> set (object_stages f (map (map_prod (\<lambda>k. k) (validateNode x)) pr) (Inl False) ps path)"
      unfolding object_stages_def set_append by blast
    from st [OF this] show False by (simp add: refuse_if_def e)
  qed
  ultimately show ?thesis using v a by auto
qed

section \<open>Limits of compiled schemas\<close>

primrec node_count :: "schema_node \<Rightarrow> nat" where
  "node_count (Node f ad al an oo ng it pr src) =
     Suc ((case map_sum (\<lambda>b. b) node_count ad of Inl b \<Rightarrow> 0 | Inr n \<Rightarrow> n) + sum_list (map node_count al) + sum_list (map node_count an)
       + sum_list (map node_count oo) + (case map_option node_count ng of None \<Rightarrow> 0 | Some n \<Rightarrow> n)
       + (case map_option node_count it of None \<Rightarrow> 0 | Some n \<Rightarrow> n) + sum_list (map snd (map (map_prod (\<lambda>k. k) node_count) pr)))"

text \<open>A node and what is inside keep the limits, with at most so many levels.\<close>

primrec within_limits :: "schema_node \<Rightarrow> nat \<Rightarrow> bool" where
  "within_limits (Node f ad al an oo ng it pr src) = (\<lambda>levels.
     0 < levels
     \<and> ordered_bounds (nf_minimum f) (nf_maximum f) \<and> ordered_bounds (nf_minLength f) (nf_maxLength f)
     \<and> ordered_bounds (nf_minItems f) (nf_maxItems f) \<and> ordered_bounds (nf_minProperties f) (nf_maxProperties f)
     \<and> (\<forall>es. nf_enum f = Some es \<longrightarrow> es \<noteq> [] \<and> length es \<le> 128)
     \<and> distinct (nf_required f) \<and> length (nf_required f) \<le> 128 \<and> (\<forall>k \<in> set (nf_required f). valid_name k)
     \<and> length pr \<le> 128 \<and> (\<forall>p \<in> set pr. valid_name (fst p)) \<and> length al \<le> 32 \<and> length an \<le> 32 \<and> length oo \<le> 32
     \<and> (case map_sum (\<lambda>b. b) within_limits ad of Inl b \<Rightarrow> True | Inr q \<Rightarrow> q (levels - 1))
     \<and> (\<forall>q \<in> set (map within_limits al @ map within_limits an @ map within_limits oo). q (levels - 1))
     \<and> (case map_option within_limits ng of None \<Rightarrow> True | Some q \<Rightarrow> q (levels - 1))
     \<and> (case map_option within_limits it of None \<Rightarrow> True | Some q \<Rightarrow> q (levels - 1))
     \<and> (\<forall>q \<in> set (map snd (map (map_prod (\<lambda>k. k) within_limits) pr)). q (levels - 1)))"

text \<open>From one counter to the next, with so many nodes more and within the limit.\<close>

definition adds :: "nat \<Rightarrow> counts \<Rightarrow> counts \<Rightarrow> bool" where
  "adds n s t \<longleftrightarrow> schemaNodes t = schemaNodes s + n \<and> (schemaNodes s \<le> max_schema_nodes \<longrightarrow> schemaNodes t \<le> max_schema_nodes)"

lemma adds_zero: "schemaNodes t = schemaNodes s \<Longrightarrow> adds 0 s t"
  by (simp add: adds_def)

lemma adds_trans: "adds m s t \<Longrightarrow> adds n t u \<Longrightarrow> adds (m + n) s u"
  by (auto simp: adds_def)

definition keeps_limits :: "nat \<Rightarrow> part_compiler \<Rightarrow> bool" where
  "keeps_limits levels rec \<longleftrightarrow>
     (\<forall>v path inherited s a t. rec v path inherited s = Inr (a, t) \<longrightarrow> within_limits a levels \<and> adds (node_count a) s t)"

lemma keepsD:
  assumes "keeps_limits levels rec" "rec v path inherited s = Inr (a, t)"
  shows "within_limits a levels" "adds (node_count a) s t"
  using assms unfolding keeps_limits_def by blast+

lemma map_c_counts:
  "(\<And>x s y t. x \<in> set xs \<Longrightarrow> f x s = Inr (y, t) \<Longrightarrow> P y \<and> adds (g y) s t) \<Longrightarrow> map_c f xs s = Inr (ys, t) \<Longrightarrow>
   length ys = length xs \<and> (\<forall>y \<in> set ys. P y) \<and> adds (sum_list (map g ys)) s t"
proof (induction xs arbitrary: s ys)
  case (Cons x xs)
  then obtain y u zs where u: "f x s = Inr (y, u)" "map_c f xs u = Inr (zs, t)" "ys = y # zs" by (auto simp: compiling_simps)
  have "P y \<and> adds (g y) s u" using Cons.prems(1) [OF _ u(1)] by simp
  moreover have "length zs = length xs \<and> (\<forall>y \<in> set zs. P y) \<and> adds (sum_list (map g zs)) u t"
    by (rule Cons.IH [OF _ u(2)]) (rule Cons.prems(1); simp)
  ultimately show ?case using u(3) by (auto intro: adds_trans)
qed (simp add: compiling_simps adds_zero)

definition same_nodes :: "counts \<Rightarrow> string + 'a \<times> counts \<Rightarrow> bool" where
  "same_nodes s r \<longleftrightarrow> (\<forall>a t. r = Inr (a, t) \<longrightarrow> schemaNodes t = schemaNodes s)"

lemma same_nodes_simps [simp]:
  "same_nodes s (Inl e)" "same_nodes s (Inr (a, t)) \<longleftrightarrow> schemaNodes t = schemaNodes s"
  by (simp_all add: same_nodes_def)

lemma clone_nodes:
  "same_nodes s (cloneJsonLiteral label path depth v s)"
  "same_nodes s (clone_elements label path depth i vs s)"
  "same_nodes s (clone_entries label path depth ps s)"
proof (induction label path depth v s and label path depth i vs s and label path depth ps s
    rule: cloneJsonLiteral_clone_elements_clone_entries.induct)
  case (1 label path depth v s)
  then show ?case by (cases v) (auto simp: cloneJsonLiteral.simps split: sum.split)
next
  case (3 label path depth i v vs s)
  then show ?case by (cases "cloneJsonLiteral label (path @ ''['' @ show_nat i @ '']'') depth v s") (auto split: sum.split)
next
  case (5 label path depth k v ps s)
  then show ?case by (cases "cloneJsonLiteral label (path @ ''.'' @ k) depth v s") (auto split: sum.split)
qed simp_all

lemma clone_counts: "cloneJsonLiteral label path depth v s = Inr (w, t) \<Longrightarrow> schemaNodes t = schemaNodes s"
  using clone_nodes(1) [of s label path depth v] by simp

lemma properties_keep:
  assumes "keeps_limits levels rec" "compile_properties rec src label path s = Inr (ps, t)"
  shows "(case ps of None \<Rightarrow> adds 0 s t
    | Some as \<Rightarrow> length as \<le> 128 \<and> (\<forall>p \<in> set as. valid_name (fst p) \<and> within_limits (snd p) levels)
        \<and> adds (sum_list (map (\<lambda>p. node_count (snd p)) as)) s t)"
proof (cases "map_of src ''properties''")
  case (Some v)
  then obtain qs as where v: "v = VObj qs" "ps = Some as" "length qs \<le> 128" and m: "map_c (compile_property rec label path) qs s = Inr (as, t)"
    using assms(2) by (auto simp: compile_properties_def compiling_simps adds_zero split: jv.splits)
  have "length as = length qs \<and> (\<forall>p \<in> set as. valid_name (fst p) \<and> within_limits (snd p) levels)
      \<and> adds (sum_list (map (\<lambda>p. node_count (snd p)) as)) s t"
    by (rule map_c_counts [OF _ m]) (auto simp: compile_property_def compiling_simps adds_zero dest: keepsD [OF assms(1)])
  then show ?thesis using v by simp
qed (use assms(2) in \<open>auto simp: compile_properties_def compiling_simps adds_zero\<close>)

lemma branches_keep:
  assumes "keeps_limits levels rec" "compileBranches rec src k label path inherited s = Inr (as, t)"
  shows "length as \<le> 32 \<and> (\<forall>a \<in> set as. within_limits a levels) \<and> adds (sum_list (map node_count as)) s t"
proof (cases "map_of src k")
  case (Some v)
  then obtain vs where v: "v = VArr vs" "length vs \<le> 32"
    and m: "map_c (\<lambda>(i, v). rec v (path @ ''.'' @ k @ ''['' @ show_nat i @ '']'') inherited) (number_from 0 vs) s = Inr (as, t)"
    using assms(2) by (auto simp: compileBranches_def compiling_simps adds_zero split: jv.splits if_splits)
  have "length as = length (number_from 0 vs) \<and> (\<forall>a \<in> set as. within_limits a levels) \<and> adds (sum_list (map node_count as)) s t"
    by (rule map_c_counts [OF _ m]) (auto dest: keepsD [OF assms(1)])
  moreover have "length (number_from 0 vs) = length vs" using number_from_snd [of 0 vs] by (metis length_map)
  ultimately show ?thesis using v by simp
qed (use assms(2) in \<open>auto simp: compileBranches_def compiling_simps adds_zero\<close>)

lemma part_keep:
  assumes "keeps_limits levels rec" "compile_part rec src k path inherited s = Inr (a, t)"
  shows "(case a of None \<Rightarrow> adds 0 s t | Some n \<Rightarrow> within_limits n levels \<and> adds (node_count n) s t)"
  using assms(2) keepsD [OF assms(1)] by (auto simp: compile_part_def compiling_simps adds_zero split: option.splits)

lemma additional_keep:
  assumes "keeps_limits levels rec" "compile_additional rec src path s = Inr (a, t)"
  shows "(case a of Some (Inr n) \<Rightarrow> within_limits n levels \<and> adds (node_count n) s t | _ \<Rightarrow> adds 0 s t)"
  using assms(2) keepsD [OF assms(1)] by (auto simp: compile_additional_def compiling_simps adds_zero split: option.splits jv.splits)

lemma required_names_keep: "required_names label path declared seen vs s = Inr (ks, t) \<Longrightarrow>
    t = s \<and> distinct ks \<and> set ks \<inter> set seen = {} \<and> length ks = length vs \<and> (\<forall>k \<in> set ks. valid_name k)"
proof (induction vs arbitrary: seen ks)
  case (Cons v vs)
  then obtain k ls where k: "v = VStr k" "valid_name k" "k \<notin> set seen" "ks = k # ls" "required_names label path declared (k # seen) vs s = Inr (ls, t)"
    by (auto simp: compiling_simps assertPropertyName_def split: jv.splits if_splits)
  from Cons.IH [OF k(5)] k show ?case by auto
qed (simp add: compiling_simps adds_zero)

lemma required_keep: "compile_required src label path declared s = Inr (r, t) \<Longrightarrow>
    t = s \<and> (\<forall>ks. r = Some ks \<longrightarrow> distinct ks \<and> length ks \<le> 128 \<and> (\<forall>k \<in> set ks. valid_name k))"
  by (auto simp: compile_required_def compiling_simps adds_zero split: option.splits jv.splits if_splits dest: required_names_keep)

lemma read_bound_keep: "read_bound read reason src k label path s = Inr (d, t) \<Longrightarrow> t = s"
  by (auto simp: read_bound_def compiling_simps adds_zero split: option.splits)

lemma bounds_keep:
  assumes "compile_bounds src label path f s = Inr (g, t)"
  shows "t = s \<and> ordered_bounds (nf_minimum g) (nf_maximum g) \<and> ordered_bounds (nf_minLength g) (nf_maxLength g)
    \<and> ordered_bounds (nf_minItems g) (nf_maxItems g) \<and> ordered_bounds (nf_minProperties g) (nf_maxProperties g)
    \<and> nf_required g = nf_required f \<and> nf_enum g = nf_enum f"
  using assms unfolding compile_bounds_def compiling_simps assertOrderedBounds_def
  by (elim exE conjE) (drule read_bound_keep | hypsubst | simp)+

lemma enum_keep: "compile_enum number src label path s = Inr (en, t) \<Longrightarrow>
    adds 0 s t \<and> (\<forall>es. en = Some es \<longrightarrow> es \<noteq> [] \<and> length es \<le> 128)"
proof (cases "map_of src ''enum''")
  case (Some v)
  assume e: "compile_enum number src label path s = Inr (en, t)"
  then obtain vs ws where v: "v = VArr vs" "vs \<noteq> []" "length vs \<le> 128" "en = Some ws"
    and m: "map_c (\<lambda>(i, v). cloneJsonLiteral label (path @ ''.enum['' @ show_nat i @ '']'') 0 v) (number_from 0 vs) s = Inr (ws, t)"
    using Some by (auto simp: compile_enum_def compiling_simps adds_zero split: jv.splits if_splits)
  have "length ws = length (number_from 0 vs) \<and> (\<forall>w \<in> set ws. True) \<and> adds (sum_list (map (\<lambda>w. 0) ws)) s t"
    by (rule map_c_counts [OF _ m]) (auto intro: adds_zero dest: clone_counts)
  moreover have "length (number_from 0 vs) = length vs" using number_from_snd [of 0 vs] by (metis length_map)
  ultimately show ?thesis using v by auto
qed (auto simp: compile_enum_def compiling_simps adds_zero)

lemma const_keep: "compile_const src label path s = Inr (c, t) \<Longrightarrow> adds 0 s t"
  by (auto simp: compile_const_def compiling_simps adds_zero split: option.splits intro: adds_zero dest: clone_counts)

lemma format_keep: "compile_format src label path s = Inr (g, t) \<Longrightarrow> t = s"
  by (auto simp: compile_format_def compiling_simps adds_zero split: option.splits)

lemma pattern_keep: "compileSafePattern re2 src label path s = Inr (p, t) \<Longrightarrow> t = s"
  by (auto simp: compileSafePattern_def compiling_simps adds_zero split: option.splits jv.splits if_splits)

lemma map_c_state: "(\<And>k s y t. F k s = Inr (y, t) \<Longrightarrow> t = s) \<Longrightarrow> map_c F ks u = Inr (ys, t) \<Longrightarrow> t = u"
proof (induction ks arbitrary: u ys)
  case (Cons k ks)
  then obtain y v zs where "F k u = Inr (y, v)" "map_c F ks v = Inr (zs, t)" by (auto simp: compiling_simps)
  then show ?case using Cons.IH [of v zs] Cons.prems(1) by metis
qed (simp add: compiling_simps)

lemma put_together_node:
  assumes "put_together src label path p s = Inr (a, t)"
  obtains entries where "a = Node (np_facts p) (case np_additional p of None \<Rightarrow> Inl True | Some b \<Rightarrow> b) (np_all p) (np_any p) (np_one p)
      (np_not p) (np_items p) (case np_properties p of None \<Rightarrow> [] | Some ps \<Rightarrow> ps) (VObj entries)" "t = s"
proof -
  obtain entries where e: "map_c (\<lambda>k. case canonical_entry src p k of
        None \<Rightarrow> throw (schemaError label path (''could not canonicalize '' @ k @ ''.'')) | Some v \<Rightarrow> give (k, v)) (map fst src) s = Inr (entries, t)"
    and a: "a = Node (np_facts p) (case np_additional p of None \<Rightarrow> Inl True | Some b \<Rightarrow> b) (np_all p) (np_any p) (np_one p)
      (np_not p) (np_items p) (case np_properties p of None \<Rightarrow> [] | Some ps \<Rightarrow> ps) (VObj entries)"
    using assms by (auto simp: put_together_def compiling_simps)
  have "t = s" by (rule map_c_state [OF _ e]) (auto simp: compiling_simps split: option.splits)
  with a show thesis by (rule that)
qed

lemma fields_keep:
  assumes "keeps_limits levels rec" "compile_fields x label external rec src path inherited s = Inr (a, t)"
  shows "within_limits a (Suc levels) \<and> (\<exists>n. node_count a = Suc n \<and> adds n s t)"
proof (rule compile_fields_parts [OF assms(2)], elim exE conjE)
  fix declared types ps req ad it f en co fo pa al an oo ng s1 s2 s3 s4 s5 s6 s7 s8 s9 s10 s11 s12 s13
  let ?f = "plain_facts\<lparr>nf_types := types, nf_required := (case req of None \<Rightarrow> [] | Some ks \<Rightarrow> ks)\<rparr>"
  assume r: "compile_properties rec src label path s = Inr (ps, s1)"
    "compile_required src label path (declared_names ps inherited) s1 = Inr (req, s2)"
    "compile_additional rec src path s2 = Inr (ad, s3)"
    "compile_part rec src ''items'' path None s3 = Inr (it, s4)"
    "compile_bounds src label path ?f s4 = Inr (f, s5)"
    "compile_enum (ho_number x) src label path s5 = Inr (en, s6)"
    "compile_const src label path s6 = Inr (co, s7)" "compile_format src label path s7 = Inr (fo, s8)"
    "compileSafePattern (ho_pattern x) src label path s8 = Inr (pa, s9)"
    "compileBranches rec src ''allOf'' label path (declared_names ps inherited) s9 = Inr (al, s10)"
    "compileBranches rec src ''anyOf'' label path (declared_names ps inherited) s10 = Inr (an, s11)"
    "compileBranches rec src ''oneOf'' label path (declared_names ps inherited) s11 = Inr (oo, s12)"
    "compile_part rec src ''not'' path (declared_names ps inherited) s12 = Inr (ng, s13)"
    and p: "put_together src label path
      \<lparr>np_facts = f\<lparr>nf_enum := en, nf_const := co, nf_format := fo, nf_pattern := map_option snd pa\<rparr>,
        np_declared = declared, np_required = req, np_pattern = map_option fst pa, np_additional = ad,
        np_all = al, np_any = an, np_one = oo, np_not = ng, np_items = it, np_properties = ps\<rparr> s13 = Inr (a, t)"
  obtain entries where a: "a = Node (f\<lparr>nf_enum := en, nf_const := co, nf_format := fo, nf_pattern := map_option snd pa\<rparr>)
      (case ad of None \<Rightarrow> Inl True | Some b \<Rightarrow> b) al an oo ng it (case ps of None \<Rightarrow> [] | Some qs \<Rightarrow> qs) (VObj entries)" and t: "t = s13"
    by (rule put_together_node [OF p]) simp
  note k = properties_keep [OF assms(1) r(1)] required_keep [OF r(2)] additional_keep [OF assms(1) r(3)] part_keep [OF assms(1) r(4)]
    bounds_keep [OF r(5)] enum_keep [OF r(6)] const_keep [OF r(7)] format_keep [OF r(8)] pattern_keep [OF r(9)]
    branches_keep [OF assms(1) r(10)] branches_keep [OF assms(1) r(11)] branches_keep [OF assms(1) r(12)] part_keep [OF assms(1) r(13)]
  have en: "\<forall>es. en = Some es \<longrightarrow> es \<noteq> [] \<and> length es \<le> 128" using k(6) by blast
  let ?q = "case req of None \<Rightarrow> [] | Some ks \<Rightarrow> ks" and ?ps = "case ps of None \<Rightarrow> [] | Some qs \<Rightarrow> qs"
  have req: "distinct ?q \<and> length ?q \<le> 128 \<and> (\<forall>k \<in> set ?q. valid_name k)" using k(2) by (cases req) auto
  have ps: "length ?ps \<le> 128 \<and> (\<forall>p \<in> set ?ps. valid_name (fst p) \<and> within_limits (snd p) levels)
      \<and> adds (sum_list (map (\<lambda>p. node_count (snd p)) ?ps)) s s1" using k(1) by (cases ps) auto
  let ?ad = "case ad of None \<Rightarrow> Inl True | Some b \<Rightarrow> b"
  let ?nad = "case map_sum (\<lambda>b. b) node_count ?ad of Inl b \<Rightarrow> 0 | Inr n \<Rightarrow> n"
  let ?nit = "case map_option node_count it of None \<Rightarrow> 0 | Some n \<Rightarrow> n" and ?nng = "case map_option node_count ng of None \<Rightarrow> 0 | Some n \<Rightarrow> n"
  have ad: "(case map_sum (\<lambda>b. b) within_limits ?ad of Inl b \<Rightarrow> True | Inr q \<Rightarrow> q levels)" "adds ?nad s2 s3"
    using k(3) by (auto split: option.splits sum.splits)
  have it: "(case map_option within_limits it of None \<Rightarrow> True | Some q \<Rightarrow> q levels)" "adds ?nit s3 s4" using k(4) by (cases it; simp)+
  have ng: "(case map_option within_limits ng of None \<Rightarrow> True | Some q \<Rightarrow> q levels)" "adds ?nng s12 s13" using k(13) by (cases ng; simp)+
  have f: "nf_required f = ?q" using k(5) by simp
  have all: "\<forall>q \<in> set (map within_limits al @ map within_limits an @ map within_limits oo). q levels" using k(10,11,12) by auto
  have prs: "\<forall>q \<in> set (map snd (map (map_prod (\<lambda>k. k) within_limits) ?ps)). q levels" using ps by auto
  have "within_limits a (Suc levels)" unfolding a within_limits.simps diff_Suc_1
    using k(5,10,11,12) en req ps ad(1) it(1) ng(1) all prs by (intro conjI; simp add: f)
  moreover have same: "s2 = s1" "s5 = s4" "s8 = s7" "s9 = s8" using k by simp_all
  have "adds (sum_list (map (\<lambda>p. node_count (snd p)) ?ps) + (?nad + (?nit + (0 + (0 + (sum_list (map node_count al) + (sum_list (map node_count an)
      + (sum_list (map node_count oo) + ?nng)))))))) s t"
    using ps ad(2) it(2) ng(2) k(6,7,10,11,12) unfolding t same by (intro adds_trans) auto
  then have "\<exists>n. node_count a = Suc n \<and> adds n s t" unfolding a by (simp add: comp_def add_ac)
  ultimately show ?thesis by blast
qed

lemma compile_keeps: "keeps_limits levels (compileSchemaNode levels x label external)"
proof (induction levels)
  case 0
  then show ?case by (simp add: keeps_limits_def compiling_simps)
next
  case (Suc levels)
  show ?case unfolding keeps_limits_def
  proof (intro allI impI)
    fix v path inherited s a t
    assume c: "compileSchemaNode (Suc levels) x label external v path inherited s = Inr (a, t)"
    then obtain src u where u: "count_node label path s = Inr ((), u)"
      "compile_fields x label external (compileSchemaNode levels x label external) src path inherited u = Inr (a, t)"
      by (cases v) (auto simp: compiling_simps)
    have "adds 1 s u" using u(1) by (auto simp: count_node_def adds_def split: if_splits)
    then show "within_limits a (Suc levels) \<and> adds (node_count a) s t"
      using fields_keep [OF Suc u(2)] adds_trans [of 1 s u _ t] by auto
  qed
qed

lemma compile_Inr:
  "compileClosedJsonSchema x schema label requireTop sem = Inr a \<Longrightarrow>
   (\<exists>t. compileSchemaNode max_levels x (safe_label label) (sem = VStr ''external'') schema ''$'' None \<lparr>literalNodes = 0, schemaNodes = 0\<rparr> = Inr (a, t))
   \<and> (requireTop \<longrightarrow> declaresObjectRoot (sem = VStr ''external'') a)"
  by (auto simp: compileClosedJsonSchema_def Let_def split: sum.splits if_splits)

lemma compile_numeral: "compileSchemaNode (numeral k) x label external v path inherited =
    (case v of
        VObj src \<Rightarrow> bind_c (count_node label path)
          (\<lambda>_. compile_fields x label external (compileSchemaNode (pred_numeral k) x label external) src path inherited)
      | _ \<Rightarrow> throw (schemaError label path ''must be a plain object.''))"
  by (simp add: numeral_eq_Suc split: jv.split)

lemma compile_object:
  assumes "compileClosedJsonSchema x schema label requireTop sem = Inr a"
  obtains src n s t where "schema = VObj src"
    "compile_fields x (safe_label label) (sem = VStr ''external'') (compileSchemaNode n x (safe_label label) (sem = VStr ''external'')) src ''$'' None s = Inr (a, t)"
proof -
  obtain t where c: "compileSchemaNode max_levels x (safe_label label) (sem = VStr ''external'') schema ''$'' None \<lparr>literalNodes = 0, schemaNodes = 0\<rparr> = Inr (a, t)"
    using compile_Inr [OF assms] by blast
  then show thesis by (cases schema) (auto simp: max_levels_def compile_numeral compiling_simps intro: that)
qed

section \<open>Examples\<close>

definition plain_host :: host where
  "plain_host = \<lparr>ho_url = (\<lambda>s. None), ho_date = (\<lambda>s. False), ho_pattern = (\<lambda>s. None), ho_number = (\<lambda>q. [])\<rparr>"

definition record_schema :: jv where
  "record_schema = VObj [(''type'', VStr ''object''), (''properties'', VObj [(''id'', VObj [(''type'', VStr ''string'')])]),
     (''required'', VArr [VStr ''id'']), (''additionalProperties'', VBool False)]"

definition record_value :: jv where
  "record_value = VObj [(''id'', VStr ''a'')]"

lemmas compile_defs = compileClosedJsonSchema_def Let_def max_levels_def count_node_def max_schema_nodes_def compile_fields_def bind_c_def
  ensure_def give_def throw_def lift_c_def supported_keywords_def readTypes_def raw_types_def schema_type_of_def
  assertKeywordTypeCompatibility_def keyword_type_def supports_type_def compile_properties_def compile_property_def valid_name_def
  compile_required_def assertPropertyName_def compile_additional_def compile_part_def compile_bounds_def read_bound_def
  assertOrderedBounds_def ordered_bounds_def compile_enum_def compile_const_def compile_format_def compileSafePattern_def compileBranches_def
  put_together_def canonical_entry_def canonical_branches_def canonical_type_def declared_names_def

lemma record_compiles: "\<exists>a. compileClosedJsonSchema plain_host record_schema (VStr ''record'') True VUndef = Inr a"
proof -
  have "valid_name ''id''" by code_simp
  then show ?thesis by (simp add: record_schema_def compile_defs compile_numeral)
qed

text \<open>A schema that forbids an array under \<open>a\<close>, and a value with an array there that is larger than the limit.\<close>

definition no_array_schema :: schema_node where
  "no_array_schema = Node plain_facts (Inl True) [] [] []
      (Some (Node plain_facts (Inl True) [] [] [] None None
        [(''a'', Node (plain_facts\<lparr>nf_types := [TArray]\<rparr>) (Inl True) [] [] [] None None [] VNull)] VNull))
      None [] VNull"

definition oversized_value :: jv where
  "oversized_value = VObj [(''a'', VArr (replicate (Suc max_collection) VNull))]"

section \<open>Properties\<close>

text \<open>The compiled example and a value that it accepts.\<close>

lemma record_accepts:
  assumes "compileClosedJsonSchema plain_host record_schema (VStr ''record'') True VUndef = Inr a"
  shows "\<exists>n. validateNode plain_host a record_value ''$'' 0 = (Accepts, n)"
proof -
  have "valid_name ''id''" by code_simp
  then show ?thesis using assms
    by (auto simp: record_schema_def compile_defs compile_numeral record_value_def node_validator_def max_validation_steps_def type_stage_def
      refuse_if_def pass_def any_stage_def one_stage_def not_stage_def value_stages_def object_stages_def max_collection_def below_def above_def
      property_stage_def string_stages_def plain_facts_def)
qed



text \<open>C20. Acceptance fixes the shape of a value: with an object root demanded the value is a plain object, whatever the
  semantics of types, and a value accepted by a schema of type object without additional properties has only the
  properties that the schema declares and all that it requires.\<close>

theorem accepted_shape:
  assumes "compileClosedJsonSchema x schema label requireTop sem = Inr a" and "validate_root x a v = Accepts"
  shows "(requireTop \<longrightarrow> (\<exists>ps. v = VObj ps))
    \<and> (\<forall>src. schema = VObj src \<and> map_of src ''type'' = Some (VStr ''object'') \<and> map_of src ''additionalProperties'' = Some (VBool False) \<longrightarrow>
         (\<exists>ps. v = VObj ps \<and> fst ` set ps \<subseteq> declared_keys src \<and> required_keys src \<subseteq> fst ` set ps))"
proof -
  obtain n where n: "validateNode x a v ''$'' 0 = (Accepts, n)" using assms(2) by (metis validate_root_def prod.collapse)
  have "requireTop \<longrightarrow> (\<exists>ps. v = VObj ps)" using compile_Inr [OF assms(1)] object_root_accepts [OF _ n] by blast
  moreover have "\<exists>ps. v = VObj ps \<and> fst ` set ps \<subseteq> declared_keys src \<and> required_keys src \<subseteq> fst ` set ps"
    if "schema = VObj src" "map_of src ''type'' = Some (VStr ''object'')" "map_of src ''additionalProperties'' = Some (VBool False)" for src
  proof (rule compile_object [OF assms(1)])
    fix src' m s t
    assume "schema = VObj src'"
      and c: "compile_fields x (safe_label label) (sem = VStr ''external'') (compileSchemaNode m x (safe_label label) (sem = VStr ''external'')) src' ''$'' None s = Inr (a, t)"
    then have e: "src' = src" using that(1) by simp
    show ?thesis using closed_node_accepts [OF n] compiled_shape [OF c [unfolded e] that(2,3)] by auto
  qed
  ultimately show ?thesis by blast
qed

theorem accepted_shape_witness:
  "\<exists>a. compileClosedJsonSchema plain_host record_schema (VStr ''record'') True VUndef = Inr a \<and> validate_root plain_host a record_value = Accepts
    \<and> (\<exists>ps. record_value = VObj ps)"
proof -
  obtain a where c: "compileClosedJsonSchema plain_host record_schema (VStr ''record'') True VUndef = Inr a" using record_compiles by blast
  then have v: "validate_root plain_host a record_value = Accepts" using record_accepts [OF c] by (auto simp: validate_root_def)
  from accepted_shape [OF c v] c v show ?thesis by blast
qed

text \<open>C38. A compiled schema keeps every limit: at most nine levels and 512 nodes, at most 128 properties, required names and
  enum values and 32 branches at every node, only valid property names, ordered bounds.\<close>

theorem compiled_schema_limits:
  assumes "compileClosedJsonSchema x schema label requireTop sem = Inr a"
  shows "within_limits a 9 \<and> node_count a \<le> 512"
proof -
  obtain t where t: "compileSchemaNode max_levels x (safe_label label) (sem = VStr ''external'') schema ''$'' None \<lparr>literalNodes = 0, schemaNodes = 0\<rparr> = Inr (a, t)"
    using compile_Inr [OF assms] by blast
  from keepsD [OF compile_keeps t] show ?thesis by (simp add: max_levels_def adds_def max_schema_nodes_def)
qed

theorem compiled_schema_limits_witness: "\<exists>a. within_limits a 9 \<and> node_count a \<le> 512"
  using record_compiles compiled_schema_limits by blast

text \<open>C39. The canonical schema is the schema: the copy that the compiler builds from the keywords has the same keys and
  values, so compiling it gives the same result.\<close>

theorem canonical_schema_is_source:
  assumes "distinct_keys schema" and "compileClosedJsonSchema x schema label requireTop sem = Inr a"
  shows "source a = schema \<and> compileClosedJsonSchema x (source a) label requireTop sem = Inr a"
  using compile_Inr [OF assms(2)] copiesD [OF compile_copies] assms by metis

theorem canonical_schema_is_source_witness:
  "\<exists>a. compileClosedJsonSchema plain_host record_schema (VStr ''record'') True VUndef = Inr a \<and> source a = record_schema"
proof -
  obtain a where c: "compileClosedJsonSchema plain_host record_schema (VStr ''record'') True VUndef = Inr a" using record_compiles by blast
  have "distinct_keys record_schema" by (simp add: record_schema_def)
  from canonical_schema_is_source [OF this c] c show ?thesis by blast
qed

text \<open>The limit on collections opens \<open>not\<close>: an array of 4097 elements under \<open>a\<close> is an array, so the schema that forbids
  an array there is not satisfied, and the validator accepts the value, because the branch gives up on the size and
  counts as a mismatch.\<close>

lemma negation_accepts_oversized:
  "validate_root x no_array_schema oversized_value = Accepts \<and> \<not> satisfies x no_array_schema oversized_value"
  by (simp add: no_array_schema_def oversized_value_def validate_root_def node_validator_def max_validation_steps_def type_stage_def
      refuse_if_def pass_def any_stage_def one_stage_def not_stage_def value_stages_def object_stages_def array_stages_def
      max_collection_def below_def above_def property_stage_def plain_facts_def node_meaning_def value_meaning_def)

end
