(* ===== verification/AuthCommon.thy ===== *)
theory AuthCommon
  imports JsValue
begin

text \<open>
  The value helpers and the capability rules of the authorization engine
  (\<open>packages/foundation/src/security/authorization/authorization-engine-common.ts\<close> and
  \<open>authorization-capabilities.ts\<close>).  Records of the engine are dynamic objects, so they are kept as the association
  lists of their properties; a reference that may be null is an option.  The lists of operation and tool ids that a
  generator writes are a parameter.
\<close>

section \<open>Reading properties\<close>

text \<open>\<open>o?.k\<close> for a record that may be null, and for an arbitrary value.\<close>

definition oget :: "jsobj option \<Rightarrow> string \<Rightarrow> jsval" where
  "oget r k = (case r of None \<Rightarrow> JUndef | Some ps \<Rightarrow> prop_of ps k)"

definition vget :: "jsval \<Rightarrow> string \<Rightarrow> jsval" where
  "vget v k = (case v of JObj ps \<Rightarrow> prop_of ps k | _ \<Rightarrow> JUndef)"

definition objectOrNull :: "jsval \<Rightarrow> jsobj option" where
  "objectOrNull v = (case v of JObj ps \<Rightarrow> Some ps | _ \<Rightarrow> None)"

definition list_of :: "jsval \<Rightarrow> jsval list" where
  "list_of v = (case v of JArr vs \<Rightarrow> vs | _ \<Rightarrow> [])"

lemma oget_simps [simp]: "oget None k = JUndef" "oget (Some ps) k = prop_of ps k"
  by (simp_all add: oget_def)

lemma vget_simps [simp]: "vget JUndef k = JUndef" "vget JNull k = JUndef" "vget (JObj ps) k = prop_of ps k"
  by (simp_all add: vget_def)

lemma list_of_simps [simp]: "list_of (JArr vs) = vs" "list_of JUndef = []" "list_of JNull = []"
  by (simp_all add: list_of_def)

text \<open>\<open>String(v || "")\<close> and the same trimmed.\<close>

definition raw_text :: "jsval \<Rightarrow> string" where
  "raw_text v = js_string (js_or v (JStr []))"

definition text_of :: "jsval \<Rightarrow> string" where
  "text_of v = js_trim (raw_text v)"

lemma raw_text_simps [simp]: "raw_text (JStr s) = s" "raw_text JUndef = []" "raw_text JNull = []"
  by (simp_all add: raw_text_def js_or_def)

lemma text_of_simps [simp]: "text_of (JStr s) = js_trim s" "text_of JUndef = []" "text_of JNull = []"
  by (simp_all add: text_of_def)

text \<open>The equation to evaluate by: most properties that are tried are missing.\<close>

lemma text_of_code [code]: "text_of v = (case v of JUndef \<Rightarrow> [] | JNull \<Rightarrow> [] | _ \<Rightarrow> js_trim (raw_text v))"
  by (cases v) (simp_all add: text_of_def)

section \<open>Lists of texts\<close>

text \<open>\<open>[...new Set(xs)]\<close>: the first occurrence of each element stays.\<close>

fun uniq :: "'a list \<Rightarrow> 'a list" where
  "uniq [] = []"
| "uniq (x # xs) = x # filter (\<lambda>y. y \<noteq> x) (uniq xs)"

lemma set_uniq [simp]: "set (uniq xs) = set xs"
  by (induction xs) auto

lemma distinct_uniq [simp]: "distinct (uniq xs)"
  by (induction xs) auto

lemma uniq_id [simp]: "distinct xs \<Longrightarrow> uniq xs = xs"
  by (induction xs) (auto simp: filter_id_conv)

lemma uniq_Nil_iff [simp]: "uniq xs = [] \<longleftrightarrow> xs = []"
  by (cases xs) auto

definition uniqueStrings :: "jsval list \<Rightarrow> string list" where
  "uniqueStrings vs = uniq (filter (\<lambda>s. s \<noteq> []) (map text_of vs))"

definition stringSet :: "jsval list \<Rightarrow> string list" where
  "stringSet vs = uniqueStrings vs"

fun firstString :: "jsval list \<Rightarrow> string" where
  "firstString [] = []"
| "firstString (v # vs) = (if text_of v \<noteq> [] then text_of v else firstString vs)"

definition spread_text :: "jsval \<Rightarrow> jsval list" where
  "spread_text v =
     (case v of
        JArr vs \<Rightarrow> vs
      | JStr s \<Rightarrow> if CHR '','' \<in> set s then map JStr (split_on CHR '','' s) else [v]
      | JUndef \<Rightarrow> []
      | JNull \<Rightarrow> []
      | _ \<Rightarrow> [v])"

definition stringsFrom :: "jsval list \<Rightarrow> string list" where
  "stringsFrom vs = uniqueStrings (concat (map spread_text vs))"

definition texts :: "string list \<Rightarrow> jsval" where
  "texts ss = JArr (map JStr ss)"

definition deniedOutsideAllowed :: "jsval list \<Rightarrow> string list \<Rightarrow> string" where
  "deniedOutsideAllowed vs allowedValues =
     (let allowed = stringSet (map JStr allowedValues)
      in case find (\<lambda>v. allowed \<noteq> [] \<and> v \<notin> set allowed) (stringsFrom vs) of None \<Rightarrow> [] | Some v \<Rightarrow> v)"

section \<open>Risk\<close>

text \<open>The table is a plain object, so the names that every object inherits read a function or an object there, which
  compares like the number that is not one.\<close>

definition inherited_names :: "string list" where
  "inherited_names = [''constructor'', ''__defineGetter__'', ''__defineSetter__'', ''hasOwnProperty'', ''__lookupGetter__'',
     ''__lookupSetter__'', ''isPrototypeOf'', ''propertyIsEnumerable'', ''toString'', ''valueOf'', ''__proto__'', ''toLocaleString'']"

definition riskRank :: "jsval \<Rightarrow> jsnum" where
  "riskRank v =
     (let s = js_string (js_or v (JStr ''read_only''))
      in if s = ''read_only'' then Fin 0 else if s = ''safe_write'' then Fin 1
         else if s = ''repair_write'' then Fin 2 else if s = ''destructive'' then Fin 3
         else if s \<in> set inherited_names then NaN else Fin 0)"

fun num_less :: "jsnum \<Rightarrow> jsnum \<Rightarrow> bool" where
  "num_less (Fin a) (Fin b) = (a < b)"
| "num_less NaN _ = False"
| "num_less _ NaN = False"
| "num_less PosInf _ = False"
| "num_less (Fin _) PosInf = True"
| "num_less (Fin _) NegInf = False"
| "num_less NegInf NegInf = False"
| "num_less NegInf _ = True"

section \<open>Details of a verdict\<close>

record effect_details =
  fx_effect :: string
  fx_reasonCode :: string
  fx_redactedReason :: string
  fx_deniedLayer :: jsval
  fx_requiredApproval :: jsval
  fx_snapshot :: jsval

definition effectDetails :: "jsval \<Rightarrow> jsval \<Rightarrow> jsval \<Rightarrow> effect_details" where
  "effectDetails effect reasonCode redactedReason =
     \<lparr>fx_effect = raw_text effect, fx_reasonCode = raw_text reasonCode, fx_redactedReason = raw_text redactedReason,
      fx_deniedLayer = JUndef, fx_requiredApproval = JUndef, fx_snapshot = JUndef\<rparr>"

definition verdict :: "string \<Rightarrow> string \<Rightarrow> string \<Rightarrow> effect_details" where
  "verdict e r m = effectDetails (JStr e) (JStr r) (JStr m)"

lemma verdict_fields [simp]: "fx_effect (verdict e r m) = e" "fx_reasonCode (verdict e r m) = r"
  by (simp_all add: verdict_def effectDetails_def)

section \<open>Capabilities\<close>

record kernel =
  k_api_ops :: "string list"
  k_tool_ids :: "string list"

definition apiCapabilityId :: "string \<Rightarrow> string" where
  "apiCapabilityId operationId = ''cap:api:'' @ js_trim operationId"

definition toolExecuteCapabilityId :: "string \<Rightarrow> string" where
  "toolExecuteCapabilityId toolId = ''cap:tool:'' @ js_trim toolId @ '':execute''"

definition capability_permissions :: "kernel \<Rightarrow> string list" where
  "capability_permissions k =
     map (\<lambda>i. ''cap:api:'' @ i) (k_api_ops k) @ map (\<lambda>i. ''cap:tool:'' @ i @ '':execute'') (k_tool_ids k)"

definition capability_wildcards :: "string list" where
  "capability_wildcards = [''cap:*'', ''cap:api:*'', ''cap:tool:*'']"

definition isKernelCapabilityPermission :: "kernel \<Rightarrow> string \<Rightarrow> bool" where
  "isKernelCapabilityPermission k v =
     (js_trim v \<in> set (capability_permissions k) \<or> js_trim v \<in> set capability_wildcards)"

definition unknownKernelCapabilities :: "kernel \<Rightarrow> jsval list \<Rightarrow> string list" where
  "unknownKernelCapabilities k vs =
     uniqueStrings (map JStr (filter (\<lambda>c. \<not> isKernelCapabilityPermission k c) (stringsFrom vs)))"

definition normalizeKernelCapabilities :: "kernel \<Rightarrow> jsval list \<Rightarrow> string list" where
  "normalizeKernelCapabilities k vs = uniqueStrings (map JStr (filter (isKernelCapabilityPermission k) (stringsFrom vs)))"

definition assertKnownKernelCapabilities :: "kernel \<Rightarrow> jsval list \<Rightarrow> string + string list" where
  "assertKnownKernelCapabilities k vs =
     (let unknown = unknownKernelCapabilities k vs
      in if unknown \<noteq> [] then Inl (''Unknown kernel capability permission: '' @ join '', '' unknown)
         else Inr (normalizeKernelCapabilities k vs))"

definition is_letter :: "char \<Rightarrow> bool" where
  "is_letter c = (let n = of_char c :: nat in 65 \<le> n \<and> n \<le> 90 \<or> 97 \<le> n \<and> n \<le> 122)"

definition is_tool_char :: "char \<Rightarrow> bool" where
  "is_tool_char c = (is_letter c \<or> (let n = of_char c :: nat in 48 \<le> n \<and> n \<le> 57) \<or> c \<in> {CHR ''.'', CHR ''_'', CHR ''-''})"

definition isRegisteredToolCapabilityPermission :: "string \<Rightarrow> bool" where
  "isRegisteredToolCapabilityPermission v =
     (let s = js_trim v; body = take (length s - 17) (drop 9 s)
      in starts_with s ''cap:tool:'' \<and> ends_with s '':execute'' \<and> 18 \<le> length s \<and> length body \<le> 160
         \<and> (let n = of_char (hd body) :: nat in 97 \<le> n \<and> n \<le> 122) \<and> list_all is_tool_char body)"

definition normalizeRegisteredToolCapabilities :: "jsval list \<Rightarrow> string list" where
  "normalizeRegisteredToolCapabilities vs = uniqueStrings (map JStr (filter isRegisteredToolCapabilityPermission (stringsFrom vs)))"

definition requiredCapabilitiesFor :: "kernel \<Rightarrow> jsobj \<Rightarrow> jsobj option \<Rightarrow> string list" where
  "requiredCapabilitiesFor k operation tool =
     (let explicit = uniqueStrings (map JStr (stringsFrom
            [prop_of operation ''requiredCapabilities'', prop_of operation ''capabilities'',
             oget tool ''requiredCapabilities'', oget tool ''capabilities'']));
          toolId = text_of (oget tool ''id'');
          operationId = text_of (js_or (prop_of operation ''id'') (oget tool ''operationId''))
      in if explicit \<noteq> [] then explicit
         else if toolId \<noteq> [] \<and> toolId \<in> set (k_tool_ids k) then [toolExecuteCapabilityId toolId]
         else if operationId \<noteq> [] \<and> operationId \<in> set (k_api_ops k) then [apiCapabilityId operationId]
         else [])"

definition subjectCapabilities :: "kernel \<Rightarrow> jsobj \<Rightarrow> jsobj option \<Rightarrow> jsobj option \<Rightarrow> jsobj option \<Rightarrow> string list" where
  "subjectCapabilities k subject actor authSession grant =
     normalizeKernelCapabilities k
       [prop_of subject ''capabilities'', prop_of subject ''capabilityIds'', prop_of subject ''permissions'',
        oget actor ''capabilities'', oget actor ''capabilityIds'', oget actor ''permissions'',
        vget (oget actor ''user'') ''capabilities'', vget (oget actor ''user'') ''capabilityIds'',
        vget (oget authSession ''user'') ''capabilities'', vget (oget authSession ''user'') ''capabilityIds'',
        oget grant ''capabilities'', oget grant ''capabilityIds'',
        vget (oget grant ''metadata'') ''capabilities'', vget (oget grant ''metadata'') ''capabilityIds'']"

definition covers :: "string list \<Rightarrow> string \<Rightarrow> bool" where
  "covers cs c = (c = [] \<or> ''cap:*'' \<in> set cs \<or> c \<in> set cs
     \<or> starts_with c ''cap:api:'' \<and> ''cap:api:*'' \<in> set cs
     \<or> starts_with c ''cap:tool:'' \<and> ''cap:tool:*'' \<in> set cs)"

definition hasCapability :: "jsval list \<Rightarrow> jsval \<Rightarrow> bool" where
  "hasCapability capabilities capability = covers (stringSet capabilities) (text_of capability)"

section \<open>Facts on texts\<close>

lemma match_ws_prefix: "match_ws ws s = None \<Longrightarrow> prefix r s \<Longrightarrow> match_ws ws r = None"
proof (induction ws)
  case (Cons w ws)
  have "\<not> starts_with s w" using Cons.prems(1) by (auto split: if_splits)
  then have "\<not> starts_with r w" using Cons.prems(2) by (metis starts_with_prefix prefix_order.trans)
  with Cons show ?case by (auto split: if_splits)
qed simp

lemma match_ws_suffix: "match_ws ws s = Some t \<Longrightarrow> suffix t s"
  by (induction ws) (auto split: if_splits simp: suffix_drop)

lemma strip_with_suffix: "suffix (strip_with ws s) s"
proof (induction ws s rule: strip_with.induct)
  case (1 ws s)
  show ?case
  proof (cases "match_ws ws s")
    case None
    then show ?thesis by (simp add: strip_with_match_None)
  next
    case (Some t)
    have e: "strip_with ws s = (if \<forall>w \<in> set ws. w \<noteq> [] then strip_with ws t else s)"
      by (rule trans [OF strip_with.simps]) (simp only: Some option.case)
    show ?thesis
    proof (cases "\<forall>w \<in> set ws. w \<noteq> []")
      case True
      have "suffix (strip_with ws t) s"
        by (rule suffix_order.trans [OF 1 [OF True Some] match_ws_suffix [OF Some]])
      then show ?thesis unfolding e if_P [OF True] .
    next
      case False
      show ?thesis unfolding e if_not_P [OF False] by simp
    qed
  qed
qed

lemma js_trim_idem [simp]: "js_trim (js_trim s) = js_trim s"
proof -
  let ?t = "strip_with ws_chars s" and ?w = "map rev ws_chars"
  let ?u = "strip_with ?w (rev ?t)"
  have "suffix ?u (rev ?t)" by (rule strip_with_suffix)
  then have "prefix (rev ?u) ?t" by (simp add: suffix_to_prefix)
  with strip_with_stripped [OF ws_chars_nonempty, of s] have "match_ws ws_chars (rev ?u) = None"
    by (rule match_ws_prefix)
  then have 1: "strip_with ws_chars (rev ?u) = rev ?u" by (rule strip_with_match_None)
  have "strip_with ?w ?u = ?u"
    by (rule strip_with_match_None, rule strip_with_stripped [OF rev_ws_chars_nonempty])
  with 1 show ?thesis by (simp add: js_trim_def)
qed

lemma distinct_uniqueStrings [simp]: "distinct (uniqueStrings vs)"
  by (simp add: uniqueStrings_def)

lemma uniqueStrings_texts: "list_all (\<lambda>s. js_trim s = s \<and> s \<noteq> []) ss \<Longrightarrow> distinct ss \<Longrightarrow> uniqueStrings (map JStr ss) = ss"
proof -
  assume "list_all (\<lambda>s. js_trim s = s \<and> s \<noteq> []) ss" "distinct ss"
  then have "map (text_of \<circ> JStr) ss = ss" "filter (\<lambda>s. s \<noteq> []) ss = ss"
    by (auto simp: list_all_iff map_idI filter_id_conv)
  with \<open>distinct ss\<close> show ?thesis by (simp add: uniqueStrings_def)
qed

lemma uniqueStrings_trimmed: "list_all (\<lambda>s. js_trim s = s \<and> s \<noteq> []) (uniqueStrings vs)"
  by (auto simp: list_all_iff uniqueStrings_def text_of_def)

lemma uniqueStrings_idem [simp]: "uniqueStrings (map JStr (uniqueStrings vs)) = uniqueStrings vs"
  by (rule uniqueStrings_texts) (simp_all add: uniqueStrings_trimmed)

lemma stringsFrom_idem [simp]: "uniqueStrings (map JStr (stringsFrom vs)) = stringsFrom vs" "stringSet (map JStr (stringsFrom vs)) = stringsFrom vs"
  by (simp_all add: stringsFrom_def stringSet_def)

text \<open>A text of printable characters other than the blank is its own trimmed form.\<close>

definition plain_text :: "string \<Rightarrow> bool" where
  "plain_text s = list_all (\<lambda>c. 33 \<le> (of_char c :: nat) \<and> of_char c < (127 :: nat)) s"

lemma plain_no_ws:
  assumes "list_all (\<lambda>c. 33 \<le> (of_char c :: nat) \<and> of_char c < (127 :: nat)) s"
    and "\<forall>w \<in> set ws. w \<noteq> [] \<and> \<not> (33 \<le> (of_char (hd w) :: nat) \<and> of_char (hd w) < (127 :: nat))"
  shows "match_ws ws s = None"
  using assms(2)
proof (induction ws)
  case (Cons w ws)
  have "\<not> starts_with s w"
  proof
    assume "starts_with s w"
    then obtain t where "s = w @ t" by (auto simp: starts_with_prefix prefix_def)
    with Cons.prems assms(1) show False by (cases w) auto
  qed
  with Cons show ?case by simp
qed simp

lemma js_trim_plain: "plain_text s \<Longrightarrow> js_trim s = s"
proof -
  assume a: "plain_text s"
  have 1: "strip_with ws_chars s = s"
    by (rule strip_with_match_None, rule plain_no_ws) (use a in \<open>simp_all add: plain_text_def ws_chars_def\<close>)
  have 2: "strip_with (map rev ws_chars) (rev s) = rev s"
    by (rule strip_with_match_None, rule plain_no_ws) (use a in \<open>simp_all add: plain_text_def ws_chars_def\<close>)
  show ?thesis by (simp add: js_trim_def 1 2)
qed

lemma uniqueStrings_nonempty: "s \<in> set (uniqueStrings vs) \<Longrightarrow> s \<noteq> []"
  by (simp add: uniqueStrings_def)

lemma set_uniqueStrings: "set (uniqueStrings vs) = {s \<in> text_of ` set vs. s \<noteq> []}"
  by (auto simp: uniqueStrings_def)

end
