(* ===== verification/ResourceContext.thy ===== *)
theory ResourceContext
  imports AuthCommon
begin

text \<open>
  The resource that a request is about
  (\<open>packages/foundation/src/security/authorization/authorization-resource-context.ts\<close>): every field is read from the
  input, the context, the operation and the tool, under several names and in a fixed order.  For each field the list of
  the values that are tried is a definition of its own.  Field maps are configuration and name properties that are not
  inherited by every object.
\<close>

section \<open>Sources\<close>

text \<open>\<open>{ ...a, ...b }\<close> for two records.\<close>

definition merge :: "jsobj \<Rightarrow> jsobj \<Rightarrow> jsobj" where
  "merge a b =
     map (\<lambda>(k, v). (k, case map_of b k of Some w \<Rightarrow> w | None \<Rightarrow> v)) a @ filter (\<lambda>(k, v). k \<notin> fst ` set a) b"

definition or_empty :: "jsobj option \<Rightarrow> jsobj" where
  "or_empty r = (case r of Some ps \<Rightarrow> ps | None \<Rightarrow> [])"

fun walk_path :: "jsval \<Rightarrow> string list \<Rightarrow> jsval" where
  "walk_path v [] = v"
| "walk_path v (p # ps) = (case v of JObj qs \<Rightarrow> walk_path (prop_of qs p) ps | _ \<Rightarrow> JUndef)"

definition valueAtPath :: "jsobj \<Rightarrow> string \<Rightarrow> jsval" where
  "valueAtPath source path =
     (let key = js_trim path
      in if key = [] then JUndef
         else case map_of source key of
                Some v \<Rightarrow> v
              | None \<Rightarrow>
                  if CHR ''.'' \<notin> set key then JUndef else walk_path (JObj source) (split_on CHR ''.'' key))"

record resource_sources =
  rs_input :: jsobj
  rs_context :: jsobj
  rs_inputResource :: jsobj
  rs_contextResource :: jsobj
  rs_operationResource :: jsobj
  rs_operationResourceContext :: jsobj
  rs_toolResource :: jsobj
  rs_toolResourceContext :: jsobj

definition fieldMapAliases :: "string \<Rightarrow> jsobj list \<Rightarrow> string list" where
  "fieldMapAliases key resources =
     stringsFrom (map (\<lambda>r. prop_of (or_empty (objectOrNull (prop_of r ''fieldMap''))) key) resources)"

definition mapped :: "resource_sources \<Rightarrow> string \<Rightarrow> jsval list" where
  "mapped s key =
     concat (map (\<lambda>alias. [valueAtPath (rs_input s) alias, valueAtPath (rs_inputResource s) alias,
                            valueAtPath (rs_context s) alias, valueAtPath (rs_contextResource s) alias])
       (fieldMapAliases key [rs_operationResourceContext s, rs_operationResource s,
                             rs_toolResourceContext s, rs_toolResource s]))"

definition reads :: "jsobj \<Rightarrow> string list \<Rightarrow> jsval list" where
  "reads ps ks = map (prop_of ps) ks"

definition sources_of :: "jsobj \<Rightarrow> jsobj option \<Rightarrow> jsobj \<Rightarrow> jsobj \<Rightarrow> resource_sources" where
  "sources_of operation tool input context1 =
     \<lparr>rs_input = input, rs_context = context1,
      rs_inputResource = merge (or_empty (objectOrNull (prop_of input ''resourceContext''))) (or_empty (objectOrNull (prop_of input ''resource''))),
      rs_contextResource = merge (or_empty (objectOrNull (prop_of context1 ''resourceContext''))) (or_empty (objectOrNull (prop_of context1 ''resource''))),
      rs_operationResource = or_empty (objectOrNull (prop_of operation ''resource'')),
      rs_operationResourceContext = or_empty (objectOrNull (prop_of operation ''resourceContext'')),
      rs_toolResource = or_empty (objectOrNull (oget tool ''resource'')),
      rs_toolResourceContext = or_empty (objectOrNull (oget tool ''resourceContext''))\<rparr>"

section \<open>Fields\<close>

definition tenantId_values :: "resource_sources \<Rightarrow> jsval list" where
  "tenantId_values s =
     reads (rs_input s) [''tenantId'', ''tenant-id''] @ reads (rs_inputResource s) [''tenantId'', ''tenant-id'']
     @ mapped s ''tenantId'' @ reads (rs_context s) [''tenantId'']
     @ reads (rs_contextResource s) [''tenantId'', ''tenant-id''] @ reads (rs_operationResource s) [''tenantId'']
     @ reads (rs_operationResourceContext s) [''tenantId''] @ reads (rs_toolResource s) [''tenantId'']
     @ reads (rs_toolResourceContext s) [''tenantId'']"

definition workspaceId_values :: "resource_sources \<Rightarrow> jsval list" where
  "workspaceId_values s =
     reads (rs_input s) [''workspaceId'', ''workspace'', ''workspace-id'', ''workspaceIds'', ''workspace-ids'',
         ''allowedWorkspaceIds'', ''allowed-workspace-ids'']
     @ [vget (prop_of (rs_input s) ''metadata'') ''allowedWorkspaceIds'']
     @ reads (rs_input s) [''registryWorkspaceId'', ''registry-workspace-id'', ''targetWorkspaceId'',
         ''target-workspace-id'', ''parentWorkspaceId'', ''parent-workspace-id'']
     @ reads (rs_inputResource s) [''workspaceId'', ''workspace'', ''workspace-id'', ''workspaceIds'',
         ''workspace-ids'', ''allowedWorkspaceIds'', ''allowed-workspace-ids'', ''registryWorkspaceId'',
         ''registry-workspace-id'', ''targetWorkspaceId'', ''target-workspace-id'', ''parentWorkspaceId'',
         ''parent-workspace-id'']
     @ mapped s ''workspaceId''
     @ reads (rs_context s) [''workspaceId'', ''workspace'', ''workspace-id'', ''workspaceIds'', ''workspace-ids'',
         ''allowedWorkspaceIds'', ''allowed-workspace-ids'', ''registryWorkspaceId'', ''registry-workspace-id'',
         ''targetWorkspaceId'', ''target-workspace-id'', ''parentWorkspaceId'', ''parent-workspace-id'']
     @ reads (rs_contextResource s) [''workspaceId'', ''workspace'', ''workspace-id'', ''workspaceIds'',
         ''workspace-ids'', ''allowedWorkspaceIds'', ''allowed-workspace-ids'', ''registryWorkspaceId'',
         ''registry-workspace-id'', ''targetWorkspaceId'', ''target-workspace-id'', ''parentWorkspaceId'',
         ''parent-workspace-id'']
     @ reads (rs_operationResource s) [''workspaceId''] @ reads (rs_operationResourceContext s) [''workspaceId'']
     @ reads (rs_toolResource s) [''workspaceId''] @ reads (rs_toolResourceContext s) [''workspaceId'']"

definition workspaceIds_values :: "resource_sources \<Rightarrow> jsval list" where
  "workspaceIds_values s =
     reads (rs_input s) [''workspaceId'', ''workspace'', ''workspace-id'', ''workspaceIds'', ''workspace-ids'',
         ''allowedWorkspaceIds'', ''allowed-workspace-ids'']
     @ [vget (prop_of (rs_input s) ''metadata'') ''allowedWorkspaceIds'']
     @ reads (rs_input s) [''registryWorkspaceId'', ''registry-workspace-id'', ''targetWorkspaceId'',
         ''target-workspace-id'', ''parentWorkspaceId'', ''parent-workspace-id'']
     @ reads (rs_inputResource s) [''workspaceId'', ''workspace'', ''workspace-id'', ''workspaceIds'',
         ''workspace-ids'', ''allowedWorkspaceIds'', ''allowed-workspace-ids'', ''registryWorkspaceId'',
         ''registry-workspace-id'', ''targetWorkspaceId'', ''target-workspace-id'', ''parentWorkspaceId'',
         ''parent-workspace-id'']
     @ mapped s ''workspaceId''
     @ reads (rs_context s) [''workspaceId'', ''workspace'', ''workspace-id'', ''workspaceIds'', ''workspace-ids'',
         ''allowedWorkspaceIds'', ''allowed-workspace-ids'', ''registryWorkspaceId'', ''registry-workspace-id'',
         ''targetWorkspaceId'', ''target-workspace-id'', ''parentWorkspaceId'', ''parent-workspace-id'']
     @ reads (rs_contextResource s) [''workspaceId'', ''workspace'', ''workspace-id'', ''workspaceIds'',
         ''workspace-ids'', ''allowedWorkspaceIds'', ''allowed-workspace-ids'', ''registryWorkspaceId'',
         ''registry-workspace-id'', ''targetWorkspaceId'', ''target-workspace-id'', ''parentWorkspaceId'',
         ''parent-workspace-id'']
     @ reads (rs_operationResource s) [''workspaceId'', ''workspaceIds'']
     @ reads (rs_operationResourceContext s) [''workspaceId'', ''workspaceIds'']
     @ reads (rs_toolResource s) [''workspaceId'', ''workspaceIds'']
     @ reads (rs_toolResourceContext s) [''workspaceId'', ''workspaceIds'']"

definition accountId_values :: "resource_sources \<Rightarrow> jsval list" where
  "accountId_values s =
     reads (rs_input s) [''accountId'', ''account'', ''account-id'']
     @ reads (rs_inputResource s) [''accountId'', ''account'', ''account-id''] @ mapped s ''accountId''
     @ reads (rs_context s) [''accountId'', ''account'', ''account-id'']
     @ reads (rs_contextResource s) [''accountId'', ''account'', ''account-id'']
     @ reads (rs_operationResource s) [''accountId''] @ reads (rs_operationResourceContext s) [''accountId'']
     @ reads (rs_toolResource s) [''accountId''] @ reads (rs_toolResourceContext s) [''accountId'']"

definition endpointId_values :: "resource_sources \<Rightarrow> jsval list" where
  "endpointId_values s =
     reads (rs_input s) [''endpointId'', ''endpoint'', ''endpoint-id'']
     @ reads (rs_inputResource s) [''endpointId'', ''endpoint'', ''endpoint-id''] @ mapped s ''endpointId''
     @ reads (rs_context s) [''endpointId'', ''endpoint'', ''endpoint-id'']
     @ reads (rs_contextResource s) [''endpointId'', ''endpoint'', ''endpoint-id'']
     @ reads (rs_operationResource s) [''endpointId''] @ reads (rs_operationResourceContext s) [''endpointId'']
     @ reads (rs_toolResource s) [''endpointId''] @ reads (rs_toolResourceContext s) [''endpointId'']"

definition opaqueMailboxId_values :: "resource_sources \<Rightarrow> jsval list" where
  "opaqueMailboxId_values s =
     reads (rs_input s) [''opaqueMailboxId'', ''mailboxId'', ''mailbox'', ''opaque-mailbox-id'', ''mailbox-id'']
     @ reads (rs_inputResource s) [''opaqueMailboxId'', ''mailboxId'', ''mailbox'', ''opaque-mailbox-id'',
         ''mailbox-id'']
     @ mapped s ''opaqueMailboxId''
     @ reads (rs_context s) [''opaqueMailboxId'', ''mailboxId'', ''mailbox'', ''opaque-mailbox-id'', ''mailbox-id'']
     @ reads (rs_contextResource s) [''opaqueMailboxId'', ''mailboxId'', ''mailbox'', ''opaque-mailbox-id'',
         ''mailbox-id'']
     @ reads (rs_operationResource s) [''opaqueMailboxId'']
     @ reads (rs_operationResourceContext s) [''opaqueMailboxId''] @ reads (rs_toolResource s) [''opaqueMailboxId'']
     @ reads (rs_toolResourceContext s) [''opaqueMailboxId'']"

definition accountBoundaryRequired_values :: "resource_sources \<Rightarrow> jsval list" where
  "accountBoundaryRequired_values s =
     reads (rs_input s) [''accountBoundaryRequired''] @ reads (rs_inputResource s) [''accountBoundaryRequired'']
     @ reads (rs_context s) [''accountBoundaryRequired''] @ reads (rs_contextResource s) [''accountBoundaryRequired'']
     @ reads (rs_operationResource s) [''accountBoundaryRequired'']
     @ reads (rs_operationResourceContext s) [''accountBoundaryRequired'']
     @ reads (rs_toolResource s) [''accountBoundaryRequired'']
     @ reads (rs_toolResourceContext s) [''accountBoundaryRequired'']"

definition endpointBoundaryRequired_values :: "resource_sources \<Rightarrow> jsval list" where
  "endpointBoundaryRequired_values s =
     reads (rs_input s) [''endpointBoundaryRequired''] @ reads (rs_inputResource s) [''endpointBoundaryRequired'']
     @ reads (rs_context s) [''endpointBoundaryRequired'']
     @ reads (rs_contextResource s) [''endpointBoundaryRequired'']
     @ reads (rs_operationResource s) [''endpointBoundaryRequired'']
     @ reads (rs_operationResourceContext s) [''endpointBoundaryRequired'']
     @ reads (rs_toolResource s) [''endpointBoundaryRequired'']
     @ reads (rs_toolResourceContext s) [''endpointBoundaryRequired'']"

definition mailboxBoundaryRequired_values :: "resource_sources \<Rightarrow> jsval list" where
  "mailboxBoundaryRequired_values s =
     reads (rs_input s) [''mailboxBoundaryRequired''] @ reads (rs_inputResource s) [''mailboxBoundaryRequired'']
     @ reads (rs_context s) [''mailboxBoundaryRequired''] @ reads (rs_contextResource s) [''mailboxBoundaryRequired'']
     @ reads (rs_operationResource s) [''mailboxBoundaryRequired'']
     @ reads (rs_operationResourceContext s) [''mailboxBoundaryRequired'']
     @ reads (rs_toolResource s) [''mailboxBoundaryRequired'']
     @ reads (rs_toolResourceContext s) [''mailboxBoundaryRequired'']"

definition dataClass_values :: "resource_sources \<Rightarrow> jsval list" where
  "dataClass_values s =
     reads (rs_input s) [''dataClass'', ''data-class'', ''allowedDataClasses'', ''allowed-data-classes'']
     @ [vget (prop_of (rs_input s) ''metadata'') ''allowedDataClasses'']
     @ reads (rs_inputResource s) [''dataClass'', ''data-class'', ''allowedDataClasses'', ''allowed-data-classes'']
     @ mapped s ''dataClass''
     @ reads (rs_context s) [''dataClass'', ''data-class'', ''allowedDataClasses'', ''allowed-data-classes'']
     @ reads (rs_contextResource s) [''dataClass'', ''data-class'', ''allowedDataClasses'', ''allowed-data-classes'']
     @ reads (rs_operationResource s) [''dataClass''] @ reads (rs_operationResourceContext s) [''dataClass'']
     @ reads (rs_toolResource s) [''dataClass''] @ reads (rs_toolResourceContext s) [''dataClass'']"

definition requestedEgress_values :: "resource_sources \<Rightarrow> jsval list" where
  "requestedEgress_values s =
     reads (rs_input s) [''requestedEgress'', ''requested-egress'', ''requestedEgresses'', ''requested-egresses'',
         ''allowedEgress'', ''allowed-egress'']
     @ [vget (prop_of (rs_input s) ''metadata'') ''allowedEgress'']
     @ reads (rs_inputResource s) [''requestedEgress'', ''requested-egress'', ''requestedEgresses'',
         ''requested-egresses'', ''allowedEgress'', ''allowed-egress'']
     @ mapped s ''requestedEgress''
     @ reads (rs_context s) [''requestedEgress'', ''requested-egress'', ''requestedEgresses'',
         ''requested-egresses'', ''allowedEgress'', ''allowed-egress'']
     @ reads (rs_contextResource s) [''requestedEgress'', ''requested-egress'', ''requestedEgresses'',
         ''requested-egresses'', ''allowedEgress'', ''allowed-egress'']
     @ reads (rs_operationResource s) [''requestedEgress'']
     @ reads (rs_operationResourceContext s) [''requestedEgress''] @ reads (rs_toolResource s) [''requestedEgress'']
     @ reads (rs_toolResourceContext s) [''requestedEgress'']"

definition requestedEgresses_values :: "resource_sources \<Rightarrow> jsval list" where
  "requestedEgresses_values s =
     reads (rs_input s) [''requestedEgress'', ''requested-egress'', ''requestedEgresses'', ''requested-egresses'',
         ''allowedEgress'', ''allowed-egress'']
     @ [vget (prop_of (rs_input s) ''metadata'') ''allowedEgress'']
     @ reads (rs_inputResource s) [''requestedEgress'', ''requested-egress'', ''requestedEgresses'',
         ''requested-egresses'', ''allowedEgress'', ''allowed-egress'']
     @ mapped s ''requestedEgress''
     @ reads (rs_context s) [''requestedEgress'', ''requested-egress'', ''requestedEgresses'',
         ''requested-egresses'', ''allowedEgress'', ''allowed-egress'']
     @ reads (rs_contextResource s) [''requestedEgress'', ''requested-egress'', ''requestedEgresses'',
         ''requested-egresses'', ''allowedEgress'', ''allowed-egress'']
     @ reads (rs_operationResource s) [''requestedEgress'', ''requestedEgresses'']
     @ reads (rs_operationResourceContext s) [''requestedEgress'', ''requestedEgresses'']
     @ reads (rs_toolResource s) [''requestedEgress'', ''requestedEgresses'']
     @ reads (rs_toolResourceContext s) [''requestedEgress'', ''requestedEgresses'']"

definition serviceId_values :: "resource_sources \<Rightarrow> jsval list" where
  "serviceId_values s =
     reads (rs_input s) [''serviceId'', ''service-id'', ''serviceIds'', ''service-ids'', ''allowedServiceIds'',
         ''allowed-service-ids'']
     @ [vget (prop_of (rs_input s) ''metadata'') ''allowedServiceIds'']
     @ reads (rs_input s) [''upstreamId'', ''upstream-id'']
     @ reads (rs_inputResource s) [''serviceId'', ''service-id'', ''serviceIds'', ''service-ids'',
         ''allowedServiceIds'', ''allowed-service-ids'', ''upstreamId'', ''upstream-id'']
     @ mapped s ''serviceId''
     @ reads (rs_context s) [''serviceId'', ''service-id'', ''serviceIds'', ''service-ids'', ''allowedServiceIds'',
         ''allowed-service-ids'', ''upstreamId'', ''upstream-id'']
     @ reads (rs_contextResource s) [''serviceId'', ''service-id'', ''serviceIds'', ''service-ids'',
         ''allowedServiceIds'', ''allowed-service-ids'', ''upstreamId'', ''upstream-id'']
     @ reads (rs_operationResource s) [''serviceId''] @ reads (rs_operationResourceContext s) [''serviceId'']
     @ reads (rs_toolResource s) [''serviceId''] @ reads (rs_toolResourceContext s) [''serviceId'']"

definition serviceIds_values :: "resource_sources \<Rightarrow> jsval list" where
  "serviceIds_values s =
     reads (rs_input s) [''serviceId'', ''service-id'', ''serviceIds'', ''service-ids'', ''allowedServiceIds'',
         ''allowed-service-ids'']
     @ [vget (prop_of (rs_input s) ''metadata'') ''allowedServiceIds'']
     @ reads (rs_input s) [''upstreamId'', ''upstream-id'']
     @ reads (rs_inputResource s) [''serviceId'', ''service-id'', ''serviceIds'', ''service-ids'',
         ''allowedServiceIds'', ''allowed-service-ids'', ''upstreamId'', ''upstream-id'']
     @ mapped s ''serviceId''
     @ reads (rs_context s) [''serviceId'', ''service-id'', ''serviceIds'', ''service-ids'', ''allowedServiceIds'',
         ''allowed-service-ids'', ''upstreamId'', ''upstream-id'']
     @ reads (rs_contextResource s) [''serviceId'', ''service-id'', ''serviceIds'', ''service-ids'',
         ''allowedServiceIds'', ''allowed-service-ids'', ''upstreamId'', ''upstream-id'']
     @ reads (rs_operationResource s) [''serviceId'', ''serviceIds'']
     @ reads (rs_operationResourceContext s) [''serviceId'', ''serviceIds'']
     @ reads (rs_toolResource s) [''serviceId'', ''serviceIds'']
     @ reads (rs_toolResourceContext s) [''serviceId'', ''serviceIds'']"

definition secretBindingId_values :: "resource_sources \<Rightarrow> jsval list" where
  "secretBindingId_values s =
     reads (rs_input s) [''secretBindingId'', ''secret-binding-id'', ''secretBindingIds'', ''secret-binding-ids'',
         ''allowedSecretBindings'', ''allowed-secret-bindings'']
     @ [vget (prop_of (rs_input s) ''metadata'') ''allowedSecretBindings'']
     @ reads (rs_input s) [''authBindingId'', ''auth-binding-id'', ''bindingId'', ''binding-id'',
         ''credentialRef'', ''credentialRefs'', ''secretRef'', ''secretRefs'']
     @ reads (rs_inputResource s) [''secretBindingId'', ''secret-binding-id'', ''secretBindingIds'',
         ''secret-binding-ids'', ''allowedSecretBindings'', ''allowed-secret-bindings'', ''authBindingId'',
         ''auth-binding-id'', ''bindingId'', ''binding-id'', ''credentialRef'', ''credentialRefs'', ''secretRef'',
         ''secretRefs'']
     @ mapped s ''secretBindingId''
     @ reads (rs_context s) [''secretBindingId'', ''secret-binding-id'', ''secretBindingIds'',
         ''secret-binding-ids'', ''allowedSecretBindings'', ''allowed-secret-bindings'', ''authBindingId'',
         ''auth-binding-id'', ''bindingId'', ''binding-id'', ''credentialRef'', ''credentialRefs'', ''secretRef'',
         ''secretRefs'']
     @ reads (rs_contextResource s) [''secretBindingId'', ''secret-binding-id'', ''secretBindingIds'',
         ''secret-binding-ids'', ''allowedSecretBindings'', ''allowed-secret-bindings'', ''authBindingId'',
         ''auth-binding-id'', ''bindingId'', ''binding-id'', ''credentialRef'', ''credentialRefs'', ''secretRef'',
         ''secretRefs'']
     @ reads (rs_operationResource s) [''secretBindingId'', ''secretBindingIds'', ''authBindingId'', ''bindingId'']
     @ reads (rs_operationResourceContext s) [''secretBindingId'', ''secretBindingIds'', ''authBindingId'',
         ''bindingId'']
     @ reads (rs_toolResource s) [''secretBindingId'', ''secretBindingIds'', ''authBindingId'', ''bindingId'']
     @ reads (rs_toolResourceContext s) [''secretBindingId'', ''secretBindingIds'', ''authBindingId'', ''bindingId'']"

definition secretBindingIds_values :: "resource_sources \<Rightarrow> jsval list" where
  "secretBindingIds_values s =
     reads (rs_input s) [''secretBindingId'', ''secret-binding-id'', ''secretBindingIds'', ''secret-binding-ids'',
         ''allowedSecretBindings'', ''allowed-secret-bindings'']
     @ [vget (prop_of (rs_input s) ''metadata'') ''allowedSecretBindings'']
     @ reads (rs_input s) [''authBindingId'', ''auth-binding-id'', ''bindingId'', ''binding-id'',
         ''credentialRef'', ''credentialRefs'', ''secretRef'', ''secretRefs'']
     @ reads (rs_inputResource s) [''secretBindingId'', ''secret-binding-id'', ''secretBindingIds'',
         ''secret-binding-ids'', ''allowedSecretBindings'', ''allowed-secret-bindings'', ''authBindingId'',
         ''auth-binding-id'', ''bindingId'', ''binding-id'', ''credentialRef'', ''credentialRefs'', ''secretRef'',
         ''secretRefs'']
     @ mapped s ''secretBindingId''
     @ reads (rs_context s) [''secretBindingId'', ''secret-binding-id'', ''secretBindingIds'',
         ''secret-binding-ids'', ''allowedSecretBindings'', ''allowed-secret-bindings'', ''authBindingId'',
         ''auth-binding-id'', ''bindingId'', ''binding-id'', ''credentialRef'', ''credentialRefs'', ''secretRef'',
         ''secretRefs'']
     @ reads (rs_contextResource s) [''secretBindingId'', ''secret-binding-id'', ''secretBindingIds'',
         ''secret-binding-ids'', ''allowedSecretBindings'', ''allowed-secret-bindings'', ''authBindingId'',
         ''auth-binding-id'', ''bindingId'', ''binding-id'', ''credentialRef'', ''credentialRefs'', ''secretRef'',
         ''secretRefs'']
     @ reads (rs_operationResource s) [''secretBindingId'', ''secretBindingIds'', ''authBindingId'', ''bindingId'']
     @ reads (rs_operationResourceContext s) [''secretBindingId'', ''secretBindingIds'', ''authBindingId'',
         ''bindingId'']
     @ reads (rs_toolResource s) [''secretBindingId'', ''secretBindingIds'', ''authBindingId'', ''bindingId'']
     @ reads (rs_toolResourceContext s) [''secretBindingId'', ''secretBindingIds'', ''authBindingId'', ''bindingId'']"

definition staticSemanticFamilyId_values :: "resource_sources \<Rightarrow> jsval list" where
  "staticSemanticFamilyId_values s =
     reads (rs_input s) [''staticSemanticFamilyId'', ''static-semantic-family-id'', ''familyId'', ''family-id'']
     @ reads (rs_inputResource s) [''staticSemanticFamilyId'', ''static-semantic-family-id'', ''familyId'',
         ''family-id'']
     @ mapped s ''staticSemanticFamilyId''
     @ reads (rs_context s) [''staticSemanticFamilyId'', ''static-semantic-family-id'', ''familyId'', ''family-id'']
     @ reads (rs_contextResource s) [''staticSemanticFamilyId'', ''static-semantic-family-id'', ''familyId'',
         ''family-id'']
     @ reads (rs_operationResource s) [''staticSemanticFamilyId'']
     @ reads (rs_operationResourceContext s) [''staticSemanticFamilyId'']
     @ reads (rs_toolResource s) [''staticSemanticFamilyId'']
     @ reads (rs_toolResourceContext s) [''staticSemanticFamilyId'']"

definition capabilityDomain_values :: "resource_sources \<Rightarrow> jsval list" where
  "capabilityDomain_values s =
     reads (rs_input s) [''capabilityDomain'', ''capability-domain'']
     @ reads (rs_inputResource s) [''capabilityDomain'', ''capability-domain''] @ mapped s ''capabilityDomain''
     @ reads (rs_context s) [''capabilityDomain'', ''capability-domain'']
     @ reads (rs_contextResource s) [''capabilityDomain'', ''capability-domain'']
     @ reads (rs_operationResource s) [''capabilityDomain'']
     @ reads (rs_operationResourceContext s) [''capabilityDomain''] @ reads (rs_toolResource s) [''capabilityDomain'']
     @ reads (rs_toolResourceContext s) [''capabilityDomain'']"

definition capabilityVerb_values :: "resource_sources \<Rightarrow> jsval list" where
  "capabilityVerb_values s =
     reads (rs_input s) [''capabilityVerb'', ''capability-verb'']
     @ reads (rs_inputResource s) [''capabilityVerb'', ''capability-verb''] @ mapped s ''capabilityVerb''
     @ reads (rs_context s) [''capabilityVerb'', ''capability-verb'']
     @ reads (rs_contextResource s) [''capabilityVerb'', ''capability-verb'']
     @ reads (rs_operationResource s) [''capabilityVerb'']
     @ reads (rs_operationResourceContext s) [''capabilityVerb''] @ reads (rs_toolResource s) [''capabilityVerb'']
     @ reads (rs_toolResourceContext s) [''capabilityVerb'']"

definition resourceKind_values :: "resource_sources \<Rightarrow> jsval list" where
  "resourceKind_values s =
     reads (rs_input s) [''resourceKind'', ''resource-kind'']
     @ reads (rs_inputResource s) [''resourceKind'', ''resource-kind''] @ mapped s ''resourceKind''
     @ reads (rs_context s) [''resourceKind'', ''resource-kind'']
     @ reads (rs_contextResource s) [''resourceKind'', ''resource-kind'']
     @ reads (rs_operationResource s) [''resourceKind''] @ reads (rs_operationResourceContext s) [''resourceKind'']
     @ reads (rs_toolResource s) [''resourceKind''] @ reads (rs_toolResourceContext s) [''resourceKind'']"

definition effectKind_values :: "resource_sources \<Rightarrow> jsval list" where
  "effectKind_values s =
     reads (rs_input s) [''effectKind'', ''effect-kind'']
     @ reads (rs_inputResource s) [''effectKind'', ''effect-kind''] @ mapped s ''effectKind''
     @ reads (rs_context s) [''effectKind'', ''effect-kind'']
     @ reads (rs_contextResource s) [''effectKind'', ''effect-kind'']
     @ reads (rs_operationResource s) [''effectKind''] @ reads (rs_operationResourceContext s) [''effectKind'']
     @ reads (rs_toolResource s) [''effectKind''] @ reads (rs_toolResourceContext s) [''effectKind'']"

definition dataClasses_values :: "resource_sources \<Rightarrow> jsval list" where
  "dataClasses_values s =
     reads (rs_input s) [''dataClasses'', ''data-classes'', ''allowedDataClasses'', ''allowed-data-classes'']
     @ [vget (prop_of (rs_input s) ''metadata'') ''allowedDataClasses'']
     @ reads (rs_inputResource s) [''dataClasses'', ''data-classes'', ''allowedDataClasses'',
         ''allowed-data-classes'']
     @ [JArr (mapped s ''dataClasses'')]
     @ reads (rs_context s) [''dataClasses'', ''data-classes'', ''allowedDataClasses'', ''allowed-data-classes'']
     @ reads (rs_contextResource s) [''dataClasses'', ''data-classes'', ''allowedDataClasses'',
         ''allowed-data-classes'']
     @ reads (rs_operationResource s) [''dataClasses''] @ reads (rs_operationResourceContext s) [''dataClasses'']
     @ reads (rs_toolResource s) [''dataClasses''] @ reads (rs_toolResourceContext s) [''dataClasses'']"

definition resolve_sources :: "resource_sources \<Rightarrow> jsobj" where
  "resolve_sources s =
     [(''tenantId'', JStr (firstString (tenantId_values s))),
      (''workspaceId'', JStr (firstString (workspaceId_values s))),
      (''workspaceIds'', texts (stringsFrom (workspaceIds_values s))),
      (''accountId'', JStr (firstString (accountId_values s))),
      (''endpointId'', JStr (firstString (endpointId_values s))),
      (''opaqueMailboxId'', JStr (firstString (opaqueMailboxId_values s))),
      (''accountBoundaryRequired'', JBool (list_ex truthy (accountBoundaryRequired_values s))),
      (''endpointBoundaryRequired'', JBool (list_ex truthy (endpointBoundaryRequired_values s))),
      (''mailboxBoundaryRequired'', JBool (list_ex truthy (mailboxBoundaryRequired_values s))),
      (''dataClass'', JStr (firstString (dataClass_values s))),
      (''requestedEgress'', JStr (firstString (requestedEgress_values s))),
      (''requestedEgresses'', texts (stringsFrom (requestedEgresses_values s))),
      (''serviceId'', JStr (firstString (serviceId_values s))),
      (''serviceIds'', texts (stringsFrom (serviceIds_values s))),
      (''secretBindingId'', JStr (firstString (secretBindingId_values s))),
      (''secretBindingIds'', texts (stringsFrom (secretBindingIds_values s))),
      (''staticSemanticFamilyId'', JStr (firstString (staticSemanticFamilyId_values s))),
      (''capabilityDomain'', JStr (firstString (capabilityDomain_values s))),
      (''capabilityVerb'', JStr (firstString (capabilityVerb_values s))),
      (''resourceKind'', JStr (firstString (resourceKind_values s))),
      (''effectKind'', JStr (firstString (effectKind_values s))),
      (''dataClasses'', texts (uniqueStrings (map JStr (stringsFrom (dataClasses_values s)))))]"

definition resolveResourceContext :: "jsobj \<Rightarrow> jsobj option \<Rightarrow> jsobj \<Rightarrow> jsobj \<Rightarrow> jsobj" where
  "resolveResourceContext operation tool input context1 = resolve_sources (sources_of operation tool input context1)"

section \<open>Reading the fields back\<close>

lemma prop_head: "prop_of ((k, v) # ps) j = (if j = k then v else prop_of ps j)"
  by (simp add: prop_of_def)

lemma resource_fields:
  "prop_of (resolve_sources s) ''tenantId'' = JStr (firstString (tenantId_values s))"
  "prop_of (resolve_sources s) ''workspaceId'' = JStr (firstString (workspaceId_values s))"
  "prop_of (resolve_sources s) ''workspaceIds'' = texts (stringsFrom (workspaceIds_values s))"
  "prop_of (resolve_sources s) ''accountId'' = JStr (firstString (accountId_values s))"
  "prop_of (resolve_sources s) ''requestedEgresses'' = texts (stringsFrom (requestedEgresses_values s))"
  "prop_of (resolve_sources s) ''serviceIds'' = texts (stringsFrom (serviceIds_values s))"
  "prop_of (resolve_sources s) ''secretBindingIds'' = texts (stringsFrom (secretBindingIds_values s))"
  "prop_of (resolve_sources s) ''dataClasses'' = texts (stringsFrom (dataClasses_values s))"
  by (simp_all add: resolve_sources_def prop_head)

lemma prop_of_merge: "prop_of (merge a b) k = (case map_of b k of Some w \<Rightarrow> w | None \<Rightarrow> prop_of a k)"
proof -
  have 1: "map_of (map (\<lambda>(k, v). (k, case map_of b k of Some w \<Rightarrow> w | None \<Rightarrow> v)) a) k
      = map_option (\<lambda>v. case map_of b k of Some w \<Rightarrow> w | None \<Rightarrow> v) (map_of a k)"
    by (induction a) (auto split: option.splits)
  have 2: "map_of (filter (\<lambda>(k, v). k \<notin> fst ` set a) b) k = (if k \<in> fst ` set a then None else map_of b k)"
    by (induction b) (auto split: if_splits intro: rev_image_eqI)
  show ?thesis
  proof (cases "map_of a k")
    case None
    then have "k \<notin> fst ` set a" by (simp add: map_of_eq_None_iff)
    then show ?thesis unfolding prop_of_def merge_def map_of_append map_add_def 1 2 None by (auto split: option.splits)
  next
    case (Some v)
    then have "k \<in> fst ` set a" by (metis map_of_eq_None_iff option.distinct(1))
    then show ?thesis unfolding prop_of_def merge_def map_of_append map_add_def 1 2 Some by (simp split: option.splits)
  qed
qed

text \<open>What a caller names under any of the names of a field is among the texts of the field.\<close>

lemma reads_mem: "k \<in> set ks \<Longrightarrow> prop_of ps k \<in> set (reads ps ks)"
  by (simp add: reads_def)

lemma workspace_aliases:
  assumes "k \<in> {''workspaceId'', ''workspace'', ''workspace-id'', ''workspaceIds'', ''workspace-ids'', ''allowedWorkspaceIds'',
       ''allowed-workspace-ids'', ''registryWorkspaceId'', ''registry-workspace-id'', ''targetWorkspaceId'', ''target-workspace-id'',
       ''parentWorkspaceId'', ''parent-workspace-id''}"
  shows "prop_of (rs_input s) k \<in> set (workspaceIds_values s)" "prop_of (rs_inputResource s) k \<in> set (workspaceIds_values s)"
  using assms unfolding workspaceIds_values_def set_append reads_def set_map by auto

lemma stringsFrom_mem: "v \<in> set vs \<Longrightarrow> set (stringsFrom [v]) \<subseteq> set (stringsFrom vs)"
  by (auto simp: stringsFrom_def set_uniqueStrings)

end
