(* ===== verification/AuthSubject.thy ===== *)
theory AuthSubject
  imports ResourceContext
begin

text \<open>
  Who asks and what the request needs
  (\<open>packages/foundation/src/security/authorization/authorization-engine-support.ts\<close>): the subject that is made of the
  records at hand, its scopes, the scopes, the risk and the action of an operation, the confirmation and the origin of a
  request.  Where the types of the code say array of strings, a value that is not an array counts as empty.  The URL parser
  is a parameter.
\<close>

section \<open>Requests\<close>

definition hasConfirmation :: "jsobj \<Rightarrow> jsobj option \<Rightarrow> bool" where
  "hasConfirmation input request =
     (prop_of input ''confirm'' = JBool True \<or> prop_of input ''confirmed'' = JBool True
      \<or> js_lower (raw_text (js_or (vget (oget request ''headers'') ''x-meshrix-confirm'')
           (vget (oget request ''headers'') ''x-meshrix-safety-confirm''))) \<in> {''1'', ''true'', ''yes''})"

definition strip_slashes :: "string \<Rightarrow> string" where
  "strip_slashes s = rev (dropWhile (\<lambda>c. c = CHR ''/'') (rev s))"

definition requestOrigin :: "(string \<Rightarrow> string option) \<Rightarrow> jsobj option \<Rightarrow> string" where
  "requestOrigin url_origin request =
     (let origin = text_of (vget (oget request ''headers'') ''origin'');
          referer = text_of (vget (oget request ''headers'') ''referer'')
      in if origin \<noteq> [] then strip_slashes origin
         else if referer \<noteq> [] then (case url_origin referer of Some p \<Rightarrow> p | None \<Rightarrow> [])
         else [])"

section \<open>Operations\<close>

definition maxRiskAllowed :: "jsobj option \<Rightarrow> jsobj option \<Rightarrow> jsobj \<Rightarrow> jsval \<Rightarrow> jsval" where
  "maxRiskAllowed profile grant subject fallback =
     (case filter truthy [oget profile ''maxRisk'', oget grant ''maxRisk'', vget (oget grant ''metadata'') ''maxRisk'',
                          prop_of subject ''maxRisk''] of
        [] \<Rightarrow> fallback
      | c # cs \<Rightarrow> foldl (\<lambda>lowest item. if num_less (riskRank item) (riskRank lowest) then item else lowest) c cs)"

definition read_verbs :: "string list" where
  "read_verbs = [''list'', ''get'', ''read'', ''download'', ''query'', ''evaluate'', ''preview'', ''history'', ''info'']"

definition inferOperationAction :: "jsobj \<Rightarrow> jsobj option \<Rightarrow> string" where
  "inferOperationAction operation tool =
     (let operationId = raw_text (js_or (prop_of operation ''id'') (oget tool ''operationId''));
          parts = filter (\<lambda>p. p \<noteq> []) (split_on CHR ''.'' operationId);
          verb = (if parts = [] then [] else last parts)
      in if truthy (prop_of operation ''action'') then js_string (prop_of operation ''action'')
         else if operationId = [] then (if oget tool ''readOnly'' = JBool False then ''write'' else ''read'')
         else if verb \<in> set read_verbs then ''read'' else ''write'')"

definition operationRisk :: "jsobj \<Rightarrow> jsobj option \<Rightarrow> string" where
  "operationRisk operation tool =
     js_string (js_or (oget tool ''risk'') (js_or (vget (prop_of operation ''safety'') ''risk'') (js_or (prop_of operation ''risk'')
       (JStr (if prop_of operation ''readOnly'' = JBool False then ''safe_write'' else ''read_only'')))))"

definition requiredScopesFor :: "jsobj \<Rightarrow> jsobj option \<Rightarrow> string list" where
  "requiredScopesFor operation tool =
     uniqueStrings (list_of (prop_of operation ''requiredScopes'') @ list_of (oget tool ''requiredScopes''))"

definition subjectScopes :: "jsobj \<Rightarrow> jsobj option \<Rightarrow> jsobj option \<Rightarrow> jsobj option \<Rightarrow> string list" where
  "subjectScopes subject actor authSession grant =
     uniqueStrings (list_of (prop_of subject ''scopes'') @ list_of (oget actor ''scopes'')
       @ list_of (vget (oget actor ''user'') ''scopes'') @ list_of (vget (oget authSession ''user'') ''scopes'')
       @ list_of (oget grant ''scopes''))"

definition grantHasToolset :: "jsobj option \<Rightarrow> jsobj option \<Rightarrow> bool" where
  "grantHasToolset grant tool =
     (tool = None \<or> list_of (oget grant ''toolsets'') = []
      \<or> list_ex (\<lambda>t. t \<in> set (list_of (oget grant ''toolsets''))) (list_of (oget tool ''toolsets'')))"

definition toolsetMisses :: "jsobj option \<Rightarrow> jsobj option \<Rightarrow> string list" where
  "toolsetMisses grant tool =
     (if tool = None \<or> list_of (oget grant ''toolsets'') = [] then []
      else filter (\<lambda>t. t \<notin> set (stringSet (list_of (oget grant ''toolsets'')))) (uniqueStrings (list_of (oget tool ''toolsets''))))"

section \<open>Subjects\<close>

definition subject_of_subject :: "kernel \<Rightarrow> jsobj \<Rightarrow> jsobj option \<Rightarrow> jsobj option \<Rightarrow> jsobj option \<Rightarrow> jsobj option \<Rightarrow> jsobj \<Rightarrow> jsobj \<Rightarrow> jsobj" where
  "subject_of_subject k subject actor authSession grant user metadata attributes =
     [(''type'', js_or (prop_of subject ''type'')
            (js_or (prop_of subject ''subjectType'') (JStr (if grant \<noteq> None then ''tool-grant'' else if user \<noteq> None then ''console-user'' else ''subject'')))),
      (''subjectId'', JStr (raw_text (js_or (prop_of subject ''subjectId'') (js_or (prop_of subject ''userId'')
             (js_or (prop_of subject ''id'') (js_or (oget user ''userId'') (oget grant ''id''))))))),
      (''username'', JStr (raw_text (js_or (prop_of subject ''username'')
             (js_or (oget user ''username'') (oget grant ''label''))))),
      (''roleId'', JStr (raw_text (js_or (prop_of subject ''roleId'') (oget user ''roleId'')))),
      (''scopes'', texts (uniqueStrings (map JStr (subjectScopes subject actor authSession grant)))),
      (''capabilities'', texts (subjectCapabilities k subject actor authSession grant)),
      (''agentProfileId'', JStr (raw_text
             (js_or (prop_of subject ''agentProfileId'') (prop_of subject ''profileId'')))),
      (''maxRisk'', js_or (prop_of subject ''maxRisk'') (JStr [])),
      (''tenantId'', JStr (firstString [prop_of subject ''tenantId'', oget user ''tenantId'', oget grant ''tenantId'',
             prop_of metadata ''tenantId''])),
      (''accountId'', JStr (firstString [prop_of subject ''accountId'', oget user ''accountId'',
             oget grant ''accountId'', prop_of metadata ''accountId'', oget user ''userId''])),
      (''endpointId'', JStr (firstString [prop_of subject ''endpointId'', oget user ''endpointId'',
             oget grant ''endpointId'', prop_of metadata ''endpointId''])),
      (''opaqueMailboxId'', JStr (firstString [prop_of subject ''opaqueMailboxId'', prop_of subject ''mailboxId'',
             oget user ''opaqueMailboxId'', oget user ''mailboxId'', oget grant ''opaqueMailboxId'',
             oget grant ''mailboxId'', prop_of metadata ''opaqueMailboxId'', prop_of metadata ''mailboxId''])),
      (''orgId'', JStr (firstString [prop_of subject ''orgId'', oget user ''orgId'', oget grant ''orgId'',
             prop_of metadata ''orgId''])),
      (''teamIds'', texts (stringsFrom [prop_of subject ''teamIds'', oget user ''teamIds'', oget grant ''teamIds'',
             prop_of metadata ''teamIds''])),
      (''departmentIds'', texts (stringsFrom [prop_of subject ''departmentIds'', oget user ''departmentIds'',
             oget grant ''departmentIds'', prop_of metadata ''departmentIds''])),
      (''allowedAccountIds'', texts (stringsFrom [prop_of subject ''allowedAccountIds'',
             oget user ''allowedAccountIds'', oget grant ''allowedAccountIds'',
             prop_of metadata ''allowedAccountIds''])),
      (''allowedEndpointIds'', texts (stringsFrom [prop_of subject ''allowedEndpointIds'',
             oget user ''allowedEndpointIds'', oget grant ''allowedEndpointIds'',
             prop_of metadata ''allowedEndpointIds''])),
      (''allowedOpaqueMailboxIds'', texts (stringsFrom [prop_of subject ''allowedOpaqueMailboxIds'',
             prop_of subject ''allowedMailboxIds'', oget user ''allowedOpaqueMailboxIds'',
             oget user ''allowedMailboxIds'', oget grant ''allowedOpaqueMailboxIds'',
             oget grant ''allowedMailboxIds'', prop_of metadata ''allowedOpaqueMailboxIds'',
             prop_of metadata ''allowedMailboxIds''])),
      (''allowedWorkspaceIds'', texts (stringsFrom [prop_of subject ''allowedWorkspaceIds'',
             oget user ''allowedWorkspaceIds'', oget grant ''allowedWorkspaceIds'',
             prop_of metadata ''allowedWorkspaceIds''])),
      (''allowedDataClasses'', texts (stringsFrom [prop_of subject ''allowedDataClasses'',
             oget user ''allowedDataClasses'', oget grant ''allowedDataClasses'',
             prop_of metadata ''allowedDataClasses''])),
      (''allowedEgress'', texts (stringsFrom [prop_of subject ''allowedEgress'', oget user ''allowedEgress'',
             oget grant ''allowedEgress'', prop_of metadata ''allowedEgress''])),
      (''allowedStaticSemanticFamilies'', texts (stringsFrom [prop_of subject ''allowedStaticSemanticFamilies'',
             oget user ''allowedStaticSemanticFamilies'', oget grant ''allowedStaticSemanticFamilies'',
             prop_of metadata ''allowedStaticSemanticFamilies''])),
      (''allowedCapabilityDomains'', texts (stringsFrom [prop_of subject ''allowedCapabilityDomains'',
             oget user ''allowedCapabilityDomains'', oget grant ''allowedCapabilityDomains'',
             prop_of metadata ''allowedCapabilityDomains''])),
      (''allowedCapabilityVerbs'', texts (stringsFrom [prop_of subject ''allowedCapabilityVerbs'',
             oget user ''allowedCapabilityVerbs'', oget grant ''allowedCapabilityVerbs'',
             prop_of metadata ''allowedCapabilityVerbs''])),
      (''allowedResourceKinds'', texts (stringsFrom [prop_of subject ''allowedResourceKinds'',
             oget user ''allowedResourceKinds'', oget grant ''allowedResourceKinds'',
             prop_of metadata ''allowedResourceKinds''])),
      (''allowedEffectKinds'', texts (stringsFrom [prop_of subject ''allowedEffectKinds'',
             oget user ''allowedEffectKinds'', oget grant ''allowedEffectKinds'',
             prop_of metadata ''allowedEffectKinds''])),
      (''allowedServiceIds'', texts (stringsFrom [prop_of subject ''allowedServiceIds'',
             oget user ''allowedServiceIds'', oget grant ''allowedServiceIds'',
             prop_of metadata ''allowedServiceIds''])),
      (''allowedSecretBindings'', texts (stringsFrom [prop_of subject ''allowedSecretBindings'',
             oget user ''allowedSecretBindings'', oget grant ''allowedSecretBindings'',
             prop_of metadata ''allowedSecretBindings''])),
      (''attributes'', JObj attributes)]"

definition subject_of_grant :: "kernel \<Rightarrow> jsobj \<Rightarrow> jsobj option \<Rightarrow> jsobj option \<Rightarrow> jsobj \<Rightarrow> jsobj \<Rightarrow> jsobj" where
  "subject_of_grant k grant actor authSession metadata attributes =
     [(''type'', JStr ''tool-grant''),
      (''subjectId'', JStr (raw_text (prop_of grant ''id''))),
      (''username'', JStr (raw_text (js_or (prop_of grant ''label'') (prop_of grant ''id'')))),
      (''roleId'', JStr ''tool-grant''),
      (''scopes'', texts (uniqueStrings (list_of (prop_of grant ''scopes'')))),
      (''capabilities'', texts (subjectCapabilities k [] actor authSession (Some grant))),
      (''agentProfileId'', JStr []),
      (''maxRisk'', js_or (prop_of grant ''maxRisk'')
             (js_or (vget (prop_of grant ''metadata'') ''maxRisk'') (JStr []))),
      (''tenantId'', JStr (firstString [prop_of grant ''tenantId'', prop_of metadata ''tenantId''])),
      (''accountId'', JStr (firstString [prop_of grant ''accountId'', prop_of metadata ''accountId''])),
      (''endpointId'', JStr (firstString [prop_of grant ''endpointId'', prop_of metadata ''endpointId''])),
      (''opaqueMailboxId'', JStr (firstString [prop_of grant ''opaqueMailboxId'', prop_of grant ''mailboxId'',
             prop_of metadata ''opaqueMailboxId'', prop_of metadata ''mailboxId''])),
      (''orgId'', JStr (firstString [prop_of grant ''orgId'', prop_of metadata ''orgId''])),
      (''teamIds'', texts (stringsFrom [prop_of grant ''teamIds'', prop_of metadata ''teamIds''])),
      (''departmentIds'', texts (stringsFrom [prop_of grant ''departmentIds'', prop_of metadata ''departmentIds''])),
      (''allowedAccountIds'', texts (stringsFrom [prop_of grant ''allowedAccountIds'',
             prop_of metadata ''allowedAccountIds''])),
      (''allowedEndpointIds'', texts (stringsFrom [prop_of grant ''allowedEndpointIds'',
             prop_of metadata ''allowedEndpointIds''])),
      (''allowedOpaqueMailboxIds'', texts (stringsFrom [prop_of grant ''allowedOpaqueMailboxIds'',
             prop_of grant ''allowedMailboxIds'', prop_of metadata ''allowedOpaqueMailboxIds'',
             prop_of metadata ''allowedMailboxIds''])),
      (''allowedWorkspaceIds'', texts (stringsFrom [prop_of grant ''allowedWorkspaceIds'',
             prop_of metadata ''allowedWorkspaceIds''])),
      (''allowedDataClasses'', texts (stringsFrom [prop_of grant ''allowedDataClasses'',
             prop_of metadata ''allowedDataClasses''])),
      (''allowedEgress'', texts (stringsFrom [prop_of grant ''allowedEgress'', prop_of metadata ''allowedEgress''])),
      (''allowedStaticSemanticFamilies'', texts (stringsFrom [prop_of grant ''allowedStaticSemanticFamilies'',
             prop_of metadata ''allowedStaticSemanticFamilies''])),
      (''allowedCapabilityDomains'', texts (stringsFrom [prop_of grant ''allowedCapabilityDomains'',
             prop_of metadata ''allowedCapabilityDomains''])),
      (''allowedCapabilityVerbs'', texts (stringsFrom [prop_of grant ''allowedCapabilityVerbs'',
             prop_of metadata ''allowedCapabilityVerbs''])),
      (''allowedResourceKinds'', texts (stringsFrom [prop_of grant ''allowedResourceKinds'',
             prop_of metadata ''allowedResourceKinds''])),
      (''allowedEffectKinds'', texts (stringsFrom [prop_of grant ''allowedEffectKinds'',
             prop_of metadata ''allowedEffectKinds''])),
      (''allowedServiceIds'', texts (stringsFrom [prop_of grant ''allowedServiceIds'',
             prop_of metadata ''allowedServiceIds''])),
      (''allowedSecretBindings'', texts (stringsFrom [prop_of grant ''allowedSecretBindings'',
             prop_of metadata ''allowedSecretBindings''])),
      (''attributes'', JObj attributes)]"

definition subject_of_user :: "kernel \<Rightarrow> jsobj \<Rightarrow> jsobj option \<Rightarrow> jsobj option \<Rightarrow> jsobj option \<Rightarrow> jsobj \<Rightarrow> jsobj" where
  "subject_of_user k user actor authSession grant attributes =
     [(''type'', JStr ''console-user''),
      (''subjectId'', JStr (raw_text (js_or (prop_of user ''userId'') (prop_of user ''username'')))),
      (''username'', JStr (raw_text (js_or (prop_of user ''username'') (prop_of user ''userId'')))),
      (''roleId'', JStr (raw_text (prop_of user ''roleId''))),
      (''scopes'', texts (uniqueStrings (list_of (prop_of user ''scopes'')))),
      (''capabilities'', texts (subjectCapabilities k [] actor authSession grant)),
      (''agentProfileId'', JStr []),
      (''maxRisk'', JStr []),
      (''tenantId'', JStr (firstString [prop_of user ''tenantId''])),
      (''accountId'', JStr (firstString [prop_of user ''accountId'', prop_of user ''userId''])),
      (''endpointId'', JStr (firstString [prop_of user ''endpointId''])),
      (''opaqueMailboxId'', JStr (firstString [prop_of user ''opaqueMailboxId'', prop_of user ''mailboxId''])),
      (''orgId'', JStr (firstString [prop_of user ''orgId''])),
      (''teamIds'', texts (stringsFrom [prop_of user ''teamIds''])),
      (''departmentIds'', texts (stringsFrom [prop_of user ''departmentIds''])),
      (''allowedAccountIds'', texts (stringsFrom [prop_of user ''allowedAccountIds''])),
      (''allowedEndpointIds'', texts (stringsFrom [prop_of user ''allowedEndpointIds''])),
      (''allowedOpaqueMailboxIds'', texts (stringsFrom [prop_of user ''allowedOpaqueMailboxIds'',
             prop_of user ''allowedMailboxIds''])),
      (''allowedWorkspaceIds'', texts (stringsFrom [prop_of user ''allowedWorkspaceIds''])),
      (''allowedDataClasses'', texts (stringsFrom [prop_of user ''allowedDataClasses''])),
      (''allowedEgress'', texts (stringsFrom [prop_of user ''allowedEgress''])),
      (''allowedStaticSemanticFamilies'', texts (stringsFrom [prop_of user ''allowedStaticSemanticFamilies''])),
      (''allowedCapabilityDomains'', texts (stringsFrom [prop_of user ''allowedCapabilityDomains''])),
      (''allowedCapabilityVerbs'', texts (stringsFrom [prop_of user ''allowedCapabilityVerbs''])),
      (''allowedResourceKinds'', texts (stringsFrom [prop_of user ''allowedResourceKinds''])),
      (''allowedEffectKinds'', texts (stringsFrom [prop_of user ''allowedEffectKinds''])),
      (''allowedServiceIds'', texts (stringsFrom [prop_of user ''allowedServiceIds''])),
      (''allowedSecretBindings'', texts (stringsFrom [prop_of user ''allowedSecretBindings''])),
      (''attributes'', JObj attributes)]"

definition subject_of_actor :: "kernel \<Rightarrow> jsobj \<Rightarrow> jsobj option \<Rightarrow> jsobj option \<Rightarrow> jsobj \<Rightarrow> jsobj" where
  "subject_of_actor k actor authSession grant attributes =
     [(''type'', js_or (prop_of actor ''type'') (JStr ''actor'')),
      (''subjectId'', JStr (raw_text (js_or (prop_of actor ''userId'') (js_or (prop_of actor ''subjectId'')
             (js_or (prop_of actor ''id'') (prop_of actor ''username'')))))),
      (''username'', JStr (raw_text (js_or (prop_of actor ''username'') (prop_of actor ''label'')))),
      (''roleId'', JStr (raw_text (prop_of actor ''roleId''))),
      (''scopes'', texts (uniqueStrings (list_of (prop_of actor ''scopes'')))),
      (''capabilities'', texts (subjectCapabilities k [] (Some actor) authSession grant)),
      (''agentProfileId'', JStr (raw_text (prop_of actor ''agentProfileId''))),
      (''maxRisk'', js_or (prop_of actor ''maxRisk'') (JStr [])),
      (''tenantId'', JStr (firstString [prop_of actor ''tenantId''])),
      (''accountId'', JStr (firstString [prop_of actor ''accountId'', prop_of actor ''userId''])),
      (''endpointId'', JStr (firstString [prop_of actor ''endpointId''])),
      (''opaqueMailboxId'', JStr (firstString [prop_of actor ''opaqueMailboxId'', prop_of actor ''mailboxId''])),
      (''orgId'', JStr (firstString [prop_of actor ''orgId''])),
      (''teamIds'', texts (stringsFrom [prop_of actor ''teamIds''])),
      (''departmentIds'', texts (stringsFrom [prop_of actor ''departmentIds''])),
      (''allowedAccountIds'', texts (stringsFrom [prop_of actor ''allowedAccountIds''])),
      (''allowedEndpointIds'', texts (stringsFrom [prop_of actor ''allowedEndpointIds''])),
      (''allowedOpaqueMailboxIds'', texts (stringsFrom [prop_of actor ''allowedOpaqueMailboxIds'',
             prop_of actor ''allowedMailboxIds''])),
      (''allowedWorkspaceIds'', texts (stringsFrom [prop_of actor ''allowedWorkspaceIds''])),
      (''allowedDataClasses'', texts (stringsFrom [prop_of actor ''allowedDataClasses''])),
      (''allowedEgress'', texts (stringsFrom [prop_of actor ''allowedEgress''])),
      (''allowedStaticSemanticFamilies'', texts (stringsFrom [prop_of actor ''allowedStaticSemanticFamilies''])),
      (''allowedCapabilityDomains'', texts (stringsFrom [prop_of actor ''allowedCapabilityDomains''])),
      (''allowedCapabilityVerbs'', texts (stringsFrom [prop_of actor ''allowedCapabilityVerbs''])),
      (''allowedResourceKinds'', texts (stringsFrom [prop_of actor ''allowedResourceKinds''])),
      (''allowedEffectKinds'', texts (stringsFrom [prop_of actor ''allowedEffectKinds''])),
      (''allowedServiceIds'', texts (stringsFrom [prop_of actor ''allowedServiceIds''])),
      (''allowedSecretBindings'', texts (stringsFrom [prop_of actor ''allowedSecretBindings''])),
      (''attributes'', JObj attributes)]"

definition anonymous_subject :: "jsobj" where
  "anonymous_subject =
     [(''type'', JStr ''anonymous''),
      (''subjectId'', JStr []),
      (''username'', JStr []),
      (''roleId'', JStr []),
      (''scopes'', JArr []),
      (''capabilities'', JArr []),
      (''agentProfileId'', JStr []),
      (''maxRisk'', JStr []),
      (''tenantId'', JStr []),
      (''accountId'', JStr []),
      (''endpointId'', JStr []),
      (''opaqueMailboxId'', JStr []),
      (''orgId'', JStr []),
      (''teamIds'', JArr []),
      (''departmentIds'', JArr []),
      (''allowedAccountIds'', JArr []),
      (''allowedEndpointIds'', JArr []),
      (''allowedOpaqueMailboxIds'', JArr []),
      (''allowedWorkspaceIds'', JArr []),
      (''allowedDataClasses'', JArr []),
      (''allowedEgress'', JArr []),
      (''allowedStaticSemanticFamilies'', JArr []),
      (''allowedCapabilityDomains'', JArr []),
      (''allowedCapabilityVerbs'', JArr []),
      (''allowedResourceKinds'', JArr []),
      (''allowedEffectKinds'', JArr []),
      (''allowedServiceIds'', JArr []),
      (''allowedSecretBindings'', JArr []),
      (''attributes'', JObj [])]"


definition resolveAuthorizationSubject :: "kernel \<Rightarrow> jsobj option \<Rightarrow> jsobj option \<Rightarrow> jsobj option \<Rightarrow> jsobj option \<Rightarrow> jsobj" where
  "resolveAuthorizationSubject k subject actor authSession grant =
     (let user = objectOrNull (js_or (oget authSession ''user'') (oget actor ''user''));
          metadata = (case objectOrNull (oget subject ''metadata'') of Some m \<Rightarrow> m
                      | None \<Rightarrow> or_empty (objectOrNull (oget grant ''metadata'')));
          attributes = merge (merge (merge (or_empty (objectOrNull (oget user ''attributes'')))
             (or_empty (objectOrNull (oget actor ''attributes'')))) (or_empty (objectOrNull (oget subject ''attributes''))))
             (or_empty (objectOrNull (prop_of metadata ''attributes'')))
      in case subject of
           Some s \<Rightarrow> subject_of_subject k s actor authSession grant user metadata attributes
         | None \<Rightarrow>
             (case grant of
                Some g \<Rightarrow> subject_of_grant k g actor authSession metadata attributes
              | None \<Rightarrow>
                  (case user of
                     Some u \<Rightarrow> subject_of_user k u actor authSession grant attributes
                   | None \<Rightarrow>
                       (case actor of
                          Some a \<Rightarrow> subject_of_actor k a authSession grant attributes
                        | None \<Rightarrow> anonymous_subject))))"

text \<open>The scope and the role that lift the boundaries.\<close>

definition includes_text :: "jsval \<Rightarrow> string \<Rightarrow> bool" where
  "includes_text v s = (case v of JArr vs \<Rightarrow> JStr s \<in> set vs | JStr t \<Rightarrow> str_includes t s | _ \<Rightarrow> False)"

definition is_admin :: "jsobj \<Rightarrow> bool" where
  "is_admin subject = (prop_of subject ''roleId'' = JStr ''owner'' \<or> includes_text (prop_of subject ''scopes'') ''auth:admin'')"

end
