(* ===== verification/ClientAddress.thy ===== *)
theory ClientAddress
  imports AuthCommon OutboundHost
begin

text \<open>
  The client address of a request behind trusted proxies
  (\<open>packages/foundation/src/security/trusted-client-ip.ts\<close>) and the address rules of a credential
  (\<open>packages/foundation/src/security/authorization/authorization-engine-support.ts\<close>).  An IPv4 address is a
  \<open>32 word\<close>: the code computes on 32-bit integers and compares two of them that went through the same operator.
  The function \<open>isIP\<close> of the network library is a parameter.
\<close>

section \<open>Client addresses\<close>

definition max_forwarded_chain :: nat where
  "max_forwarded_chain = 32"

definition strip_brackets :: "string \<Rightarrow> string" where
  "strip_brackets s =
     (let t = (case s of c # cs \<Rightarrow> if c = CHR ''['' then cs else s | [] \<Rightarrow> [])
      in if t \<noteq> [] \<and> last t = CHR '']'' then butlast t else t)"

definition normalizeIpAddress :: "jsval \<Rightarrow> string" where
  "normalizeIpAddress v =
     (let t = strip_brackets (text_of v) in if starts_with t ''::ffff:'' then drop 7 t else t)"

definition normalizeNetworkIp :: "(string \<Rightarrow> nat) \<Rightarrow> jsval \<Rightarrow> string" where
  "normalizeNetworkIp isIP v = (let n = normalizeIpAddress v in if isIP n \<noteq> 0 then js_lower n else [])"

text \<open>A list stands for the array and the set that callers pass; the last text's set is only remembered, so the memory
  does not show.\<close>

definition trustedProxySet :: "(string \<Rightarrow> nat) \<Rightarrow> jsval \<Rightarrow> string list" where
  "trustedProxySet isIP v =
     uniq (filter (\<lambda>s. s \<noteq> [])
       (map (normalizeNetworkIp isIP)
          (case v of JArr vs \<Rightarrow> vs | _ \<Rightarrow> map JStr (split_on CHR '','' (raw_text v)))))"

definition header_of :: "jsobj option \<Rightarrow> string \<Rightarrow> jsval" where
  "header_of request k = vget (oget request ''headers'') k"

definition forwardedForChain :: "(string \<Rightarrow> nat) \<Rightarrow> jsobj option \<Rightarrow> string list" where
  "forwardedForChain isIP request =
     (let header = header_of request ''x-forwarded-for'';
          text = (case header of JArr vs \<Rightarrow> js_join '','' vs | _ \<Rightarrow> raw_text header)
      in if js_trim text = [] then []
         else let entries = map js_trim (split_on CHR '','' text)
              in if max_forwarded_chain < length entries \<or> [] \<in> set entries then []
                 else let normalized = map (\<lambda>e. normalizeNetworkIp isIP (JStr e)) entries
                      in if [] \<in> set normalized then [] else normalized)"

definition firstForwardedFor :: "(string \<Rightarrow> nat) \<Rightarrow> jsobj option \<Rightarrow> string" where
  "firstForwardedFor isIP request = (case forwardedForChain isIP request of [] \<Rightarrow> [] | f # fs \<Rightarrow> f)"

definition isTrustedProxyAddress :: "(string \<Rightarrow> nat) \<Rightarrow> jsval \<Rightarrow> jsval \<Rightarrow> bool" where
  "isTrustedProxyAddress isIP v trustedProxies =
     (normalizeNetworkIp isIP v \<noteq> [] \<and> normalizeNetworkIp isIP v \<in> set (trustedProxySet isIP trustedProxies))"

text \<open>The loop from the last entry of the chain towards the first one.\<close>

fun walk_chain :: "string list \<Rightarrow> string \<Rightarrow> string list \<Rightarrow> string" where
  "walk_chain trusted clientAddress [] = clientAddress"
| "walk_chain trusted clientAddress (f # fs) =
     (if clientAddress \<notin> set trusted then clientAddress else walk_chain trusted f fs)"

definition remote_address :: "(string \<Rightarrow> nat) \<Rightarrow> jsobj option \<Rightarrow> string" where
  "remote_address isIP request =
     normalizeNetworkIp isIP (js_or (vget (oget request ''socket'') ''remoteAddress'')
       (js_or (vget (oget request ''connection'') ''remoteAddress'') (JStr [])))"

definition clientIpFromRequest :: "(string \<Rightarrow> nat) \<Rightarrow> jsval \<Rightarrow> string \<Rightarrow> jsobj option \<Rightarrow> string" where
  "clientIpFromRequest isIP trustedProxies unknown request =
     (let remote = remote_address isIP request;
          trusted = trustedProxySet isIP trustedProxies;
          forwarded = (if remote \<noteq> [] \<and> remote \<in> set trusted then forwardedForChain isIP request else [])
      in if forwarded \<noteq> [] then walk_chain trusted remote (rev forwarded)
         else if remote \<noteq> [] then remote else unknown)"

definition isLoopbackAddress :: "jsval \<Rightarrow> bool" where
  "isLoopbackAddress v =
     (let address = js_lower (normalizeIpAddress v)
      in address \<in> {''localhost'', ''127.0.0.1'', ''::1'', ''0:0:0:0:0:0:0:1''} \<or> starts_with address ''127.'')"

definition hostnameFromHostHeader :: "jsval \<Rightarrow> string" where
  "hostnameFromHostHeader v =
     (let host = js_lower (text_of v)
      in case host of
           [] \<Rightarrow> []
         | c # cs \<Rightarrow>
             if c = CHR ''['' then (if CHR '']'' \<in> set cs then takeWhile (\<lambda>x. x \<noteq> CHR '']'') cs else [])
             else takeWhile (\<lambda>x. x \<noteq> CHR '':'') host)"

definition isLocalHttpHost :: "jsval \<Rightarrow> bool" where
  "isLocalHttpHost v = isLoopbackAddress (JStr (hostnameFromHostHeader v))"

section \<open>Address rules\<close>

datatype ip_predicate = ExactIp string | IpRange "32 word" nat "32 word"

definition ipv4ToInt :: "jsval \<Rightarrow> 32 word option" where
  "ipv4ToInt v =
     (case map number_octet (split_on CHR ''.'' (normalizeIpAddress v)) of
        [Some a, Some b, Some c, Some d] \<Rightarrow>
          Some (foldl (\<lambda>output n. push_bit 8 output + ucast n) 0 [a, b, c, d])
      | _ \<Rightarrow> None)"

text \<open>\<open>Number(text)\<close>, where it is an integer between 0 and the limit; as for an octet, with a fraction part allowed.\<close>

definition decimal_small :: "nat \<Rightarrow> bool \<Rightarrow> string \<Rightarrow> nat option" where
  "decimal_small limit negative s =
     (let m = takeWhile (\<lambda>c. \<not> is_exponent_mark c) s; r = dropWhile (\<lambda>c. \<not> is_exponent_mark c) s;
          (a, f) = (case split_on CHR ''.'' m of [a] \<Rightarrow> (a, Some []) | [a, b] \<Rightarrow> (a, Some b) | _ \<Rightarrow> ([], None))
      in case f of
           None \<Rightarrow> None
         | Some b \<Rightarrow>
             (case (unsigned_value 10 (a @ b), if r = [] then Some 0 else exponent_value (tl r)) of
                (Some n, Some e) \<Rightarrow> find (\<lambda>k. rounds_to k n (e - int (length b))) (if negative then [0] else [0..<Suc limit])
              | _ \<Rightarrow> None))"

definition radix_small :: "nat \<Rightarrow> nat \<Rightarrow> string \<Rightarrow> nat option" where
  "radix_small limit base s =
     (case unsigned_value base s of None \<Rightarrow> None | Some n \<Rightarrow> if n \<le> limit then Some n else None)"

definition number_small :: "nat \<Rightarrow> string \<Rightarrow> nat option" where
  "number_small limit s =
     (case js_trim s of
        [] \<Rightarrow> Some 0
      | c # cs \<Rightarrow>
          if c = CHR ''0'' \<and> cs \<noteq> [] \<and> hd cs \<in> {CHR ''x'', CHR ''X''} then radix_small limit 16 (tl cs)
          else if c = CHR ''0'' \<and> cs \<noteq> [] \<and> hd cs \<in> {CHR ''o'', CHR ''O''} then radix_small limit 8 (tl cs)
          else if c = CHR ''0'' \<and> cs \<noteq> [] \<and> hd cs \<in> {CHR ''b'', CHR ''B''} then radix_small limit 2 (tl cs)
          else if c = CHR ''-'' then decimal_small limit True cs
          else if c = CHR ''+'' then decimal_small limit False cs
          else decimal_small limit False (c # cs))"

definition block_mask :: "nat \<Rightarrow> 32 word" where
  "block_mask bits = (if bits = 0 then 0 else push_bit (32 - bits) 0xffffffff)"

definition compileIpRule :: "jsval \<Rightarrow> ip_predicate option" where
  "compileIpRule rule =
     (let normalizedRule = text_of rule
      in if normalizedRule = [] then None
         else if CHR ''/'' \<notin> set normalizedRule
         then (let ip = normalizeIpAddress (JStr normalizedRule) in if ip = [] then None else Some (ExactIp ip))
         else (let parts = split_on CHR ''/'' normalizedRule
               in case (ipv4ToInt (JStr (parts ! 0)), number_small 32 (parts ! 1)) of
                    (Some base, Some bits) \<Rightarrow> Some (IpRange base bits (block_mask bits))
                  | _ \<Rightarrow> None))"

definition ipMatchesPredicate :: "jsval \<Rightarrow> ip_predicate \<Rightarrow> bool" where
  "ipMatchesPredicate ip predicate =
     (let normalizedIp = normalizeIpAddress ip
      in normalizedIp \<noteq> []
         \<and> (case predicate of
              ExactIp e \<Rightarrow> normalizedIp = e
            | IpRange base bits m \<Rightarrow>
                (case ipv4ToInt (JStr normalizedIp) of None \<Rightarrow> False | Some i \<Rightarrow> i AND m = base AND m)))"

definition ipMatchesRule :: "jsval \<Rightarrow> jsval \<Rightarrow> bool" where
  "ipMatchesRule ip rule =
     (let normalizedIp = normalizeIpAddress ip
      in if normalizedIp = [] then False
         else case compileIpRule rule of
                None \<Rightarrow> False
              | Some (ExactIp e) \<Rightarrow> normalizedIp = e
              | Some (IpRange base bits m) \<Rightarrow>
                  (case ipv4ToInt (JStr normalizedIp) of None \<Rightarrow> False | Some i \<Rightarrow> i AND m = base AND m))"

section \<open>Which addresses count\<close>

lemma walk_chain_split:
  "walk_chain trusted c fs = r \<Longrightarrow> \<exists>us vs. c # fs = us @ r # vs \<and> set us \<subseteq> set trusted \<and> (r \<notin> set trusted \<or> vs = [])"
proof (induction trusted c fs rule: walk_chain.induct)
  case (1 trusted c)
  then show ?case by (intro exI [of _ "[]"]) auto
next
  case (2 trusted c f fs)
  show ?case
  proof (cases "c \<in> set trusted")
    case True
    with 2 obtain us vs where "f # fs = us @ r # vs" "set us \<subseteq> set trusted" "r \<notin> set trusted \<or> vs = []"
      by auto
    with True show ?thesis by (intro exI [of _ "c # us"] exI [of _ vs]) auto
  next
    case False
    with 2 show ?thesis by (intro exI [of _ "[]"] exI [of _ "f # fs"]) auto
  qed
qed

lemma block_mask_bit: "bits \<le> 32 \<Longrightarrow> n < 32 \<Longrightarrow> bit (block_mask bits) n \<longleftrightarrow> 32 - bits \<le> n"
proof -
  assume a: "bits \<le> 32" "n < 32"
  have m: "(0xffffffff :: 32 word) = mask 32" by (simp add: mask_eq_exp_minus_1)
  show ?thesis
    using a by (auto simp: block_mask_def m bit_simps)
qed

lemma masked_equal_iff:
  assumes "bits \<le> 32"
  shows "(a :: 32 word) AND block_mask bits = b AND block_mask bits \<longleftrightarrow> drop_bit (32 - bits) a = drop_bit (32 - bits) b"
proof
  assume e: "a AND block_mask bits = b AND block_mask bits"
  show "drop_bit (32 - bits) a = drop_bit (32 - bits) b"
  proof (rule bit_word_eqI)
    fix n assume n: "n < LENGTH(32)"
    show "bit (drop_bit (32 - bits) a) n = bit (drop_bit (32 - bits) b) n"
    proof (cases "32 - bits + n < 32")
      case True
      have "bit (a AND block_mask bits) (32 - bits + n) = bit (b AND block_mask bits) (32 - bits + n)" using e by simp
      moreover have "32 - bits \<le> 32 - bits + n" by simp
      ultimately show ?thesis using True assms by (simp add: bit_simps block_mask_bit del: Nat.add_diff_assoc2 diff_is_0_eq)
    next
      case False
      then show ?thesis by (auto simp: bit_simps dest!: bit_imp_le_length)
    qed
  qed
next
  assume e: "drop_bit (32 - bits) a = drop_bit (32 - bits) b"
  show "a AND block_mask bits = b AND block_mask bits"
  proof (rule bit_word_eqI)
    fix n assume n: "n < LENGTH(32)"
    have "bit (drop_bit (32 - bits) a) (n - (32 - bits)) = bit (drop_bit (32 - bits) b) (n - (32 - bits))" using e by simp
    then show "bit (a AND block_mask bits) n = bit (b AND block_mask bits) n"
      using n assms by (auto simp: bit_simps block_mask_bit)
  qed
qed

lemma find_upt_bound: "find P [0..<Suc l] = Some k \<Longrightarrow> k \<le> l"
  using find_Some_in [of P "[0..<Suc l]" k] by (auto simp del: upt_Suc)

lemma radix_small_bound: "radix_small l b s = Some k \<Longrightarrow> k \<le> l"
  by (auto simp: radix_small_def split: option.splits if_splits)

lemma decimal_small_bound: "decimal_small l neg s = Some k \<Longrightarrow> k \<le> l"
  by (cases neg) (auto simp: decimal_small_def Let_def find_upt_bound simp del: upt_Suc split: option.splits prod.splits if_splits)

lemma number_small_bound: "number_small l s = Some k \<Longrightarrow> k \<le> l"
  by (cases "js_trim s") (auto simp: number_small_def dest: radix_small_bound decimal_small_bound split: if_splits)

lemma compiled_range: "compileIpRule rule = Some (IpRange base bits m) \<Longrightarrow> bits \<le> 32 \<and> m = block_mask bits"
  by (auto simp: compileIpRule_def Let_def number_small_bound split: if_splits option.splits)

lemma ipMatchesRule_compiled:
  "ipMatchesRule ip rule = (case compileIpRule rule of None \<Rightarrow> False | Some p \<Rightarrow> ipMatchesPredicate ip p)"
  by (auto simp: ipMatchesRule_def ipMatchesPredicate_def Let_def split: option.splits ip_predicate.splits)


section \<open>The address that policies see\<close>

lemma client_without_trust: "remote_address isIP request \<notin> set (trustedProxySet isIP tp)
    \<Longrightarrow> clientIpFromRequest isIP tp unknown request = (if remote_address isIP request \<noteq> [] then remote_address isIP request else unknown)"
  by (simp add: clientIpFromRequest_def Let_def)

text \<open>An address claimed in a header counts only when every proxy between it and the server is trusted.\<close>

lemma client_address_needs_trusted_path:
  "clientIpFromRequest isIP tp [] request = remote_address isIP request
   \<or> (remote_address isIP request \<in> set (trustedProxySet isIP tp)
      \<and> (\<exists>pre post. forwardedForChain isIP request = pre @ clientIpFromRequest isIP tp [] request # post
           \<and> set post \<subseteq> set (trustedProxySet isIP tp)
           \<and> (clientIpFromRequest isIP tp [] request \<notin> set (trustedProxySet isIP tp) \<or> pre = [])))"
proof (cases "clientIpFromRequest isIP tp [] request = remote_address isIP request")
  case False
  let ?r = "remote_address isIP request" and ?t = "trustedProxySet isIP tp" and ?f = "forwardedForChain isIP request"
  let ?c = "clientIpFromRequest isIP tp [] request"
  have t: "?r \<noteq> []" "?r \<in> set ?t" "?f \<noteq> []" and c: "?c = walk_chain ?t ?r (rev ?f)"
    using False by (auto simp: clientIpFromRequest_def Let_def split: if_splits)
  from walk_chain_split [OF c [symmetric]] obtain us vs
    where s: "?r # rev ?f = us @ ?c # vs" "set us \<subseteq> set ?t" "?c \<notin> set ?t \<or> vs = []" by blast
  from s(1) False obtain us' where u: "us = ?r # us'" by (cases us) auto
  have post: "set us' \<subseteq> set ?t" using s(2) u by auto
  from s(1) u have "rev ?f = us' @ ?c # vs" by simp
  then have "rev (rev ?f) = rev vs @ ?c # rev us'" by simp
  then have f: "?f = rev vs @ ?c # rev us'" by (simp only: rev_rev_ident)
  have "set (rev us') \<subseteq> set ?t" "?c \<notin> set ?t \<or> rev vs = []" using post s(3) by simp_all
  with f t(2) show ?thesis by blast
qed simp

definition proxied_request :: jsobj where
  "proxied_request =
     [(''socket'', JObj [(''remoteAddress'', JStr ''10.0.0.1'')]),
      (''headers'', JObj [(''x-forwarded-for'', JStr ''6.6.6.6, 9.9.9.9, 10.0.0.2'')])]"

lemma client_address_needs_trusted_path_witness:
  "clientIpFromRequest (\<lambda>s. 4) (JStr ''10.0.0.1,10.0.0.2'') [] (Some proxied_request) = ''9.9.9.9''
   \<and> (\<exists>pre post. forwardedForChain (\<lambda>s. 4) (Some proxied_request) = pre @ ''9.9.9.9'' # post
        \<and> set post \<subseteq> set (trustedProxySet (\<lambda>s. 4) (JStr ''10.0.0.1,10.0.0.2'')))"
proof -
  have c: "clientIpFromRequest (\<lambda>s. 4) (JStr ''10.0.0.1,10.0.0.2'') [] (Some proxied_request) = ''9.9.9.9''"
    by code_simp
  have r: "remote_address (\<lambda>s. 4) (Some proxied_request) = ''10.0.0.1''" by code_simp
  show ?thesis using client_address_needs_trusted_path [of "\<lambda>s. 4" "JStr ''10.0.0.1,10.0.0.2''" "Some proxied_request"]
    unfolding c r by auto
qed

lemma block_rule_iff:
  assumes "compileIpRule rule = Some (IpRange base bits m)"
  shows "ipMatchesRule ip rule \<longleftrightarrow>
    (\<exists>i. ipv4ToInt (JStr (normalizeIpAddress ip)) = Some i \<and> in_block base bits i)"
proof -
  from compiled_range [OF assms] have b: "bits \<le> 32" "m = block_mask bits" by auto
  have n: "ipv4ToInt (JStr []) = None" by (simp add: ipv4ToInt_def normalizeIpAddress_def strip_brackets_def split: option.splits)
  show ?thesis
    by (cases "normalizeIpAddress ip = []")
      (auto simp: ipMatchesRule_compiled assms ipMatchesPredicate_def b masked_equal_iff in_block_def n split: option.splits)
qed


text \<open>A block rule admits exactly the addresses that share its leading bits.\<close>

lemma block_rule_exact:
  assumes "compileIpRule rule = Some (IpRange base bits m)"
  shows "ipMatchesRule ip rule \<longleftrightarrow>
    (\<exists>i. ipv4ToInt (JStr (normalizeIpAddress ip)) = Some i \<and> in_block base bits i)"
  using assms by (rule block_rule_iff)


subsection \<open>Rules on written-out addresses\<close>

lemma ipv4ToInt_quad: "ipv4ToInt v = map_option quad_addr (ipv4Parts (normalizeIpAddress v))"
proof -
  have a: "push_bit 8 (push_bit 8 (push_bit 8 (ucast a) + ucast b) + ucast c) + ucast d = quad_addr (a, b, c, d)"
    for a b c d :: "8 word"
    by (simp add: quad_addr_def push_bit_eq_mult algebra_simps)
  show ?thesis
    by (auto simp: ipv4ToInt_def ipv4Parts_def a split: list.splits option.splits)
qed

lemma octets_char: "x \<in> set (octets_text q) \<Longrightarrow> is_digit x \<or> x = CHR ''.''"
  using show_nat_digits by (cases q) (auto simp: octets_text_def dottedQuad_def)

lemma octets_plain: "plain_text (octets_text q)"
  by (auto simp: plain_text_def list_all_iff is_digit_def dest!: octets_char)

lemma octets_normal: "normalizeIpAddress (JStr (octets_text q)) = octets_text q"
proof -
  have n: "octets_text q \<noteq> []" by (cases q) (simp add: octets_text_def dottedQuad_def)
  then obtain c cs where s: "octets_text q = c # cs" by (cases "octets_text q") auto
  have c: "is_digit c \<or> c = CHR ''.''" "is_digit (last (c # cs)) \<or> last (c # cs) = CHR ''.''"
    using octets_char [of c q] octets_char [of "last (c # cs)" q] last_in_set [of "c # cs"] by (simp_all add: s del: last.simps)
  then have "c \<noteq> CHR ''[''" "last (c # cs) \<noteq> CHR '']''" "c \<noteq> CHR '':''" by (auto simp: is_digit_def simp del: last.simps)
  then have "strip_brackets (c # cs) = c # cs" "\<not> starts_with (c # cs) ''::ffff:''"
    by (simp_all add: strip_brackets_def del: last.simps)
  then show ?thesis using octets_plain [of q] by (auto simp: normalizeIpAddress_def js_trim_plain Let_def s)
qed

lemma octets_int: "ipv4ToInt (JStr (octets_text q)) = Some (quad_addr q)"
  by (simp add: ipv4ToInt_quad octets_normal octets_parts)


lemma small_integer: "n \<le> l \<Longrightarrow> l < 256 \<Longrightarrow> number_small l (show_nat n) = Some n"
proof -
  assume n: "n \<le> l" "l < 256"
  let ?s = "show_nat n"
  have d: "list_all is_digit ?s" "?s \<noteq> []" using show_nat_digits by (simp_all add: list_all_iff)
  then obtain c cs where s: "?s = c # cs" by (cases ?s) auto
  have dc: "\<And>x. x \<in> set ?s \<Longrightarrow> is_digit x" using d by (simp add: list_all_iff)
  have t: "takeWhile (\<lambda>c. \<not> is_exponent_mark c) ?s = ?s" "dropWhile (\<lambda>c. \<not> is_exponent_mark c) ?s = []"
    using dc [of "CHR ''e''"] dc [of "CHR ''E''"]
    by (auto simp: takeWhile_eq_all_conv dropWhile_eq_Nil_conv is_exponent_mark_def is_digit_def)
  have "find (\<lambda>k. rounds_to k n 0) [0..<Suc l] = Some n"
    by (rule find_unique) (use n in \<open>auto simp: rounds_to_integer simp del: upt_Suc\<close>)
  then have r: "decimal_small l False ?s = Some n"
    by (simp add: decimal_small_def t show_nat_value split_on_plain digits_no_point del: upt_Suc)
  have "c \<noteq> CHR ''-''" "c \<noteq> CHR ''+''" using dc [of c] s by (auto simp: is_digit_def)
  moreover have "hd cs \<notin> {CHR ''x'', CHR ''X'', CHR ''o'', CHR ''O'', CHR ''b'', CHR ''B''}" if "cs \<noteq> []"
    using dc [of "hd cs"] s that by (auto simp: is_digit_def)
  moreover have "js_trim (c # cs) = c # cs" using trim_digits [OF d(1)] by (simp add: s)
  ultimately show ?thesis using r unfolding s number_small_def by auto
qed

definition block_text :: "quad \<Rightarrow> string \<Rightarrow> string" where
  "block_text q n = octets_text q @ CHR ''/'' # n"

lemma octets_no_slash: "CHR ''/'' \<notin> set (octets_text q)"
  by (auto simp: is_digit_def dest!: octets_char)

lemma block_rule_compiles:
  assumes "number_small 32 n = Some k" "plain_text n" "CHR ''/'' \<notin> set n"
  shows "compileIpRule (JStr (block_text q n)) = Some (IpRange (quad_addr q) k (block_mask k))"
proof -
  have p: "js_trim (block_text q n) = block_text q n"
    by (rule js_trim_plain) (use octets_plain [of q] assms(2) in \<open>simp add: plain_text_def block_text_def\<close>)
  have s: "split_on CHR ''/'' (block_text q n) = [octets_text q, n]"
    by (simp add: block_text_def split_on_append split_on_plain octets_no_slash assms(3))
  show ?thesis using p s
    by (simp add: compileIpRule_def Let_def octets_int assms(1)) (simp add: block_text_def)
qed

lemma block_rule_on_texts:
  assumes "bits \<le> 32"
  shows "ipMatchesRule (JStr (octets_text a)) (JStr (block_text q (show_nat bits))) \<longleftrightarrow> in_block (quad_addr q) bits (quad_addr a)"
proof -
  have p: "plain_text (show_nat bits)" "CHR ''/'' \<notin> set (show_nat bits)"
    using show_nat_digits [of bits] by (auto simp: plain_text_def list_all_iff is_digit_def)
  show ?thesis
    using block_rule_compiles [OF small_integer [OF assms] p] by (simp add: block_rule_iff octets_normal octets_int)
qed

lemma block_rule_exact_witness:
  "ipMatchesRule (JStr ''10.1.2.3'') (JStr ''10.0.0.0/8'') \<and> \<not> ipMatchesRule (JStr ''11.1.2.3'') (JStr ''10.0.0.0/8'')"
proof -
  have t: "octets_text (10, 1, 2, 3) = ''10.1.2.3''" "octets_text (11, 1, 2, 3) = ''11.1.2.3''"
    "block_text (10, 0, 0, 0) (show_nat 8) = ''10.0.0.0/8''" by code_simp+
  have "plain_text (show_nat 8)" "CHR ''/'' \<notin> set (show_nat 8)" by code_simp+
  then have c: "compileIpRule (JStr ''10.0.0.0/8'') = Some (IpRange (quad_addr (10, 0, 0, 0)) 8 (block_mask 8))"
    using block_rule_compiles [OF small_integer [of 8 32], of "(10, 0, 0, 0)"] by (simp add: t)
  have v: "ipv4ToInt (JStr (normalizeIpAddress (JStr ''10.1.2.3''))) = Some (quad_addr (10, 1, 2, 3))"
    "ipv4ToInt (JStr (normalizeIpAddress (JStr ''11.1.2.3''))) = Some (quad_addr (11, 1, 2, 3))"
    using octets_int [of "(10, 1, 2, 3)"] octets_int [of "(11, 1, 2, 3)"] octets_normal [of "(10, 1, 2, 3)"] octets_normal [of "(11, 1, 2, 3)"]
    by (simp_all only: t)
  show ?thesis unfolding block_rule_exact [OF c] v by (simp add: in_block_def quad_addr_def drop_bit_eq_div)
qed

text \<open>A rule whose prefix length was left out after the slash is read as the length zero and admits every IPv4 address,
  and a part without digits is read as the octet zero.\<close>

lemma empty_prefix_admits_all:
  assumes "ipv4ToInt (JStr (normalizeIpAddress ip)) = Some i"
  shows "ipMatchesRule ip (JStr (block_text q []))"
proof -
  have "number_small 32 [] = Some 0" "plain_text []" "CHR ''/'' \<notin> set []" by (simp_all add: number_small_def plain_text_def)
  from block_rule_iff [OF block_rule_compiles [OF this]] assms show ?thesis by (auto simp: in_block_def)
qed

lemma empty_octets_are_zero: "number_octet [] = Some 0"
  by (simp add: number_octet_def)

text \<open>Every host name that starts with the digits of the loopback block counts as local.\<close>

lemma loopback_names: "isLocalHttpHost (JStr ''127.attacker.example:8080'')"
  by code_simp

end
