(* ===== verification/AuthDecision.thy ===== *)
theory AuthDecision
  imports AuthBoundary ClientAddress
begin

text \<open>
  The authorization decision (\<open>packages/foundation/src/security/authorization/authorization-engine.ts\<close>): the facts that
  are compiled from the credential, the profile and the subject, the chain of gates that a request passes, and the
  decision record.  The gates are kept as a list in the order of the branches of the code; the first one that holds gives
  the verdict.  The clock, \<open>Date.parse\<close>, the URL parser, \<open>Number\<close> on texts, \<open>isIP\<close>, the random ids and the verdict of the
  governance store are parameters.
\<close>

section \<open>Inputs\<close>

record auth_world =
  aw_now :: int
  aw_date :: "string \<Rightarrow> int option"
  aw_number :: "string \<Rightarrow> jsnum"
  aw_origin :: "string \<Rightarrow> string option"
  aw_url :: "string \<Rightarrow> (string \<times> string) option"
  aw_isIP :: "string \<Rightarrow> nat"
  aw_proxies :: string
  aw_id :: "string \<Rightarrow> string"
  aw_iso :: string
  aw_kernel :: kernel

record auth_request =
  ai_operation :: jsobj
  ai_tool :: "jsobj option"
  ai_grant :: "jsobj option"
  ai_restriction :: "jsobj option"
  ai_profile :: "jsobj option"
  ai_subject :: "jsobj option"
  ai_actor :: "jsobj option"
  ai_authSession :: "jsobj option"
  ai_input :: jsobj
  ai_request :: "jsobj option"
  ai_context :: jsobj
  ai_dryRun :: jsval
  ai_traceId :: jsval
  ai_toolExecutionId :: jsval
  ai_grantRequired :: jsval
  ai_enforceConfirmation :: jsval

definition policy_of :: "auth_request \<Rightarrow> jsobj option" where
  "policy_of i = (case ai_grant i of Some g \<Rightarrow> Some g | None \<Rightarrow> ai_restriction i)"

definition own_subject :: "auth_world \<Rightarrow> auth_request \<Rightarrow> jsobj" where
  "own_subject w i = resolveAuthorizationSubject (aw_kernel w) (ai_subject i) (ai_actor i) (ai_authSession i) (policy_of i)"

definition effectiveSubjectCapabilities :: "jsobj \<Rightarrow> jsval list" where
  "effectiveSubjectCapabilities subject =
     (let capabilities = list_of (prop_of subject ''capabilities'')
      in if is_admin subject then capabilities else filter (\<lambda>c. \<not> ends_with (text_of c) '':*'') capabilities)"

definition approvedPendingOperationMatches :: "jsobj \<Rightarrow> jsobj \<Rightarrow> bool" where
  "approvedPendingOperationMatches context1 operation =
     (case prop_of context1 ''approvedPendingOperation'' of
        JObj approval \<Rightarrow>
          (let approvedOperationId = raw_text (prop_of approval ''operationId'');
               requiredApprovalScope = raw_text (vget (prop_of operation ''safety'') ''approvalScope'')
           in raw_text (prop_of approval ''status'') \<in> {''approved'', ''completed''}
              \<and> (approvedOperationId = [] \<or> approvedOperationId = raw_text (prop_of operation ''id''))
              \<and> (requiredApprovalScope = [] \<or> raw_text (prop_of approval ''approvalScope'') = requiredApprovalScope))
      | _ \<Rightarrow> False)"

section \<open>Compiled facts\<close>

fun js_number :: "(string \<Rightarrow> jsnum) \<Rightarrow> jsval \<Rightarrow> jsnum" where
  "js_number num (JNum n) = n"
| "js_number num JUndef = NaN"
| "js_number num JNull = Fin 0"
| "js_number num (JBool b) = Fin (if b then 1 else 0)"
| "js_number num (JStr s) = num s"
| "js_number num (JArr vs) = num (js_string (JArr vs))"
| "js_number num (JObj ps) = NaN"

definition num_le :: "jsnum \<Rightarrow> jsnum \<Rightarrow> bool" where
  "num_le a b = (num_less a b \<or> a = b \<and> a \<noteq> NaN)"

definition is_safe_integer :: "jsnum \<Rightarrow> bool" where
  "is_safe_integer n = (case n of Fin i \<Rightarrow> \<bar>i\<bar> \<le> 2 ^ 53 - 1 | _ \<Rightarrow> False)"

definition normalizeOriginEntry :: "auth_world \<Rightarrow> jsval \<Rightarrow> string" where
  "normalizeOriginEntry w v =
     (let raw = strip_slashes (text_of v)
      in if raw = [] then []
         else case aw_url w raw of
                None \<Rightarrow> []
              | Some (protocol, host) \<Rightarrow>
                  if protocol \<notin> {''http:'', ''https:''} \<or> host = [] then [] else strip_slashes (protocol @ ''//'' @ host))"

definition revision_keys :: "string list" where
  "revision_keys = [''revision'', ''version'', ''policyFingerprint'', ''generation'', ''sourceRevision'', ''catalogRevision'', ''updatedAt'']"

definition identity_keys :: "string list" where
  "identity_keys = [''id'', ''subjectId'', ''userId'', ''operationId'', ''profileId'', ''username'']"

fun firstFactField :: "jsobj \<Rightarrow> string list \<Rightarrow> string" where
  "firstFactField ps [] = []"
| "firstFactField ps (k # ks) =
     (let v = prop_of ps k
      in if v \<noteq> JUndef \<and> v \<noteq> JNull \<and> js_trim (js_string v) \<noteq> [] then js_string v else firstFactField ps ks)"

definition revisionOf :: "jsobj option \<Rightarrow> string" where
  "revisionOf r = (case r of None \<Rightarrow> [] | Some f \<Rightarrow> firstFactField f revision_keys)"

record compiled_facts =
  cf_subject :: jsobj
  cf_scopeSet :: "string list"
  cf_capabilitySet :: "string list"
  cf_effectiveCapabilities :: "jsval list"
  cf_grantToolsets :: "string list"
  cf_toolToolsets :: "string list"
  cf_missingToolsets :: "string list"
  cf_allowedOrigins :: "string list"
  cf_allowedCidrs :: "ip_predicate list"
  cf_maxUses :: jsnum
  cf_maxRisk :: jsval
  cf_toolDeny :: "string list"
  cf_toolAllow :: "string list"
  cf_profileToolDeny :: "string list"
  cf_profileToolAllow :: "string list"
  cf_abac :: abac_facts
  cf_key :: string
  cf_policyRevision :: string
  cf_credentialRevision :: string
  cf_subjectRevision :: string
  cf_profileRevision :: string
  cf_catalogRevision :: string

text \<open>A loop that stops at the first value that does not compile.\<close>

fun map_opt :: "('a \<Rightarrow> 'b option) \<Rightarrow> 'a list \<Rightarrow> 'b list option" where
  "map_opt f [] = Some []"
| "map_opt f (x # xs) = (case f x of None \<Rightarrow> None | Some y \<Rightarrow> map_option (\<lambda>ys. y # ys) (map_opt f xs))"

definition compile_origins :: "auth_world \<Rightarrow> jsobj option \<Rightarrow> string list option" where
  "compile_origins w policy =
     map_opt (\<lambda>v. if normalizeOriginEntry w v = [] then None else Some (normalizeOriginEntry w v)) (list_of (oget policy ''allowedOrigins''))"

definition compile_cidrs :: "jsobj option \<Rightarrow> ip_predicate list option" where
  "compile_cidrs policy = map_opt compileIpRule (list_of (oget policy ''allowedCidrs''))"

definition compile_max_uses :: "auth_world \<Rightarrow> jsobj option \<Rightarrow> jsnum option" where
  "compile_max_uses w policy =
     (let v = oget policy ''maxUses''
      in if v \<noteq> JUndef \<and> v \<noteq> JNull \<and> js_trim (js_string v) \<noteq> []
         then (let n = js_number (aw_number w) v in if is_safe_integer n \<and> \<not> num_less n (Fin 0) then Some n else None)
         else Some (Fin 0))"

definition risk_fallback :: "bool \<Rightarrow> jsobj option \<Rightarrow> jsobj option \<Rightarrow> jsval" where
  "risk_fallback grantRequired policy tool =
     JStr (if grantRequired \<or> policy \<noteq> None \<or> tool \<noteq> None then ''safe_write'' else ''destructive'')"

definition compileAuthorizationFacts :: "auth_world \<Rightarrow> string \<Rightarrow> jsobj \<Rightarrow> auth_request \<Rightarrow> (string \<times> string) + compiled_facts" where
  "compileAuthorizationFacts w key resolvedSubject i =
     (let policy = policy_of i; tool = ai_tool i; profile = ai_profile i;
          grantToolsets = stringSet (list_of (oget policy ''toolsets''));
          toolToolsets = uniqueStrings (list_of (oget tool ''toolsets''))
      in case compile_origins w policy of
           None \<Rightarrow> Inl (''malformed_credential_origin'', ''Credential contains a malformed allowed origin.'')
         | Some origins \<Rightarrow>
         case compile_cidrs policy of
           None \<Rightarrow> Inl (''malformed_credential_cidr'', ''Credential contains a malformed CIDR rule.'')
         | Some cidrs \<Rightarrow>
         case compile_max_uses w policy of
           None \<Rightarrow> Inl (''malformed_credential_max_uses'', ''Credential contains a malformed maximum use count.'')
         | Some maxUses \<Rightarrow>
           Inr \<lparr>cf_subject = resolvedSubject,
                cf_scopeSet = stringSet (list_of (prop_of resolvedSubject ''scopes'')),
                cf_capabilitySet = stringSet (effectiveSubjectCapabilities resolvedSubject),
                cf_effectiveCapabilities = effectiveSubjectCapabilities resolvedSubject,
                cf_grantToolsets = grantToolsets,
                cf_toolToolsets = toolToolsets,
                cf_missingToolsets = (if list_of (oget policy ''toolsets'') = [] then []
                   else filter (\<lambda>t. t \<notin> set grantToolsets) toolToolsets),
                cf_allowedOrigins = origins,
                cf_allowedCidrs = cidrs,
                cf_maxUses = maxUses,
                cf_maxRisk = maxRiskAllowed profile policy resolvedSubject
                   (risk_fallback (ai_grantRequired i = JBool True) policy tool),
                cf_toolDeny = uniqueStrings (list_of (oget policy ''toolDeny'')),
                cf_toolAllow = uniqueStrings (list_of (oget policy ''toolAllow'')),
                cf_profileToolDeny = uniqueStrings (list_of (oget profile ''toolDeny'')),
                cf_profileToolAllow = uniqueStrings (list_of (oget profile ''toolAllow'')),
                cf_abac = compileAbacFacts resolvedSubject policy profile,
                cf_key = key,
                cf_policyRevision = revisionOf policy,
                cf_credentialRevision = revisionOf (case ai_restriction i of Some r \<Rightarrow> Some r | None \<Rightarrow> ai_grant i),
                cf_subjectRevision = revisionOf (ai_subject i),
                cf_profileRevision = revisionOf profile,
                cf_catalogRevision = revisionOf tool\<rparr>)"


section \<open>The gates\<close>

type_synonym governance = "(jsobj \<Rightarrow> auth_request \<Rightarrow> jsobj) option"

fun first_gate :: "(bool \<times> 'v) list \<Rightarrow> 'v \<Rightarrow> 'v" where
  "first_gate [] d = d"
| "first_gate ((c, v) # gs) d = (if c then v else first_gate gs d)"

definition decided_subject :: "auth_world \<Rightarrow> compiled_facts option \<Rightarrow> auth_request \<Rightarrow> jsobj" where
  "decided_subject w c i = (case c of Some f \<Rightarrow> cf_subject f | None \<Rightarrow> own_subject w i)"

definition decided_resource :: "auth_request \<Rightarrow> jsobj" where
  "decided_resource i = resolveResourceContext (ai_operation i) (ai_tool i) (ai_input i) (ai_context i)"

definition required_scopes :: "auth_request \<Rightarrow> string list" where
  "required_scopes i = requiredScopesFor (ai_operation i) (ai_tool i)"

definition required_capabilities :: "auth_world \<Rightarrow> auth_request \<Rightarrow> string list" where
  "required_capabilities w i =
     uniqueStrings (map JStr (requiredCapabilitiesFor (aw_kernel w) (ai_operation i) (ai_tool i)
       @ stringsFrom [prop_of (ai_context i) ''requiredCapabilities'']))"

definition missing_scopes :: "auth_world \<Rightarrow> compiled_facts option \<Rightarrow> auth_request \<Rightarrow> string list" where
  "missing_scopes w c i =
     (let scopeSet = (case c of Some f \<Rightarrow> cf_scopeSet f | None \<Rightarrow> stringSet (list_of (prop_of (decided_subject w c i) ''scopes'')))
      in filter (\<lambda>s. s \<notin> set scopeSet) (required_scopes i))"

definition capability_mode :: "auth_world \<Rightarrow> compiled_facts option \<Rightarrow> auth_request \<Rightarrow> bool" where
  "capability_mode w c i =
     (required_capabilities w i \<noteq> [] \<and> raw_text (prop_of (decided_subject w c i) ''type'') \<noteq> ''console-user''
      \<and> prop_of (ai_context i) ''skipAuthorization'' \<noteq> JBool True)"

definition missing_capabilities :: "auth_world \<Rightarrow> compiled_facts option \<Rightarrow> auth_request \<Rightarrow> string list" where
  "missing_capabilities w c i =
     (if capability_mode w c i
      then filter (\<lambda>r. \<not> (case c of Some f \<Rightarrow> covers (cf_capabilitySet f) (js_trim r)
                             | None \<Rightarrow> hasCapability (effectiveSubjectCapabilities (decided_subject w c i)) (JStr r)))
             (required_capabilities w i)
      else [])"

definition missing_toolsets :: "compiled_facts option \<Rightarrow> auth_request \<Rightarrow> string list" where
  "missing_toolsets c i = (case c of Some f \<Rightarrow> cf_missingToolsets f | None \<Rightarrow> toolsetMisses (policy_of i) (ai_tool i))"

definition request_ip :: "auth_world \<Rightarrow> auth_request \<Rightarrow> string" where
  "request_ip w i = clientIpFromRequest (aw_isIP w) (JStr (aw_proxies w)) [] (ai_request i)"

definition origin_denied :: "auth_world \<Rightarrow> compiled_facts option \<Rightarrow> auth_request \<Rightarrow> bool" where
  "origin_denied w c i =
     (let raw = list_of (oget (policy_of i) ''allowedOrigins'');
          effective = (case c of Some f \<Rightarrow> cf_allowedOrigins f | None \<Rightarrow> map (\<lambda>v. strip_slashes (raw_text v)) raw);
          origin = requestOrigin (aw_origin w) (ai_request i)
      in (case c of Some f \<Rightarrow> cf_allowedOrigins f \<noteq> [] | None \<Rightarrow> raw \<noteq> []) \<and> (origin = [] \<or> origin \<notin> set effective))"

definition source_denied :: "auth_world \<Rightarrow> compiled_facts option \<Rightarrow> auth_request \<Rightarrow> bool" where
  "source_denied w c i =
     (let raw = list_of (oget (policy_of i) ''allowedCidrs''); ip = JStr (request_ip w i)
      in case c of
           Some f \<Rightarrow> cf_allowedCidrs f \<noteq> [] \<and> \<not> list_ex (ipMatchesPredicate ip) (cf_allowedCidrs f)
         | None \<Rightarrow> raw \<noteq> [] \<and> \<not> list_ex (ipMatchesRule ip) raw)"

definition tool_id :: "auth_request \<Rightarrow> string" where
  "tool_id i = raw_text (oget (ai_tool i) ''id'')"

definition tool_list :: "(compiled_facts \<Rightarrow> string list) \<Rightarrow> jsobj option \<Rightarrow> string \<Rightarrow> compiled_facts option \<Rightarrow> jsval list" where
  "tool_list field source key c = (case c of Some f \<Rightarrow> map JStr (field f) | None \<Rightarrow> list_of (oget source key))"

definition grant_expired :: "auth_world \<Rightarrow> auth_request \<Rightarrow> bool" where
  "grant_expired w i =
     (let v = oget (policy_of i) ''expiresAt''
      in truthy v \<and> (case aw_date w (js_string v) of None \<Rightarrow> False | Some t \<Rightarrow> t \<le> aw_now w))"

definition uses_exhausted :: "auth_world \<Rightarrow> auth_request \<Rightarrow> bool" where
  "uses_exhausted w i =
     (let maxUses = js_number (aw_number w) (js_or (oget (policy_of i) ''maxUses'') (JNum (Fin 0)));
          useCount = js_number (aw_number w) (js_or (oget (policy_of i) ''useCount'') (JNum (Fin 0)))
      in num_less (Fin 0) maxUses \<and> num_le maxUses useCount)"

definition max_risk :: "auth_world \<Rightarrow> compiled_facts option \<Rightarrow> auth_request \<Rightarrow> jsval" where
  "max_risk w c i =
     (case c of
        Some f \<Rightarrow> cf_maxRisk f
      | None \<Rightarrow> maxRiskAllowed (ai_profile i) (policy_of i) (own_subject w i)
                  (risk_fallback (truthy (ai_grantRequired i)) (policy_of i) (ai_tool i)))"

definition needs_receipt :: "auth_request \<Rightarrow> bool" where
  "needs_receipt i =
     (operationRisk (ai_operation i) (ai_tool i) = ''destructive'' \<or> truthy (oget (ai_tool i) ''destructive'')
      \<or> truthy (oget (ai_tool i) ''requiresApproval'') \<or> prop_of (ai_operation i) ''requiresApproval'' = JBool True
      \<or> vget (prop_of (ai_operation i) ''safety'') ''requiresApproval'' = JBool True)"

definition needs_confirmation :: "auth_request \<Rightarrow> bool" where
  "needs_confirmation i =
     (truthy (ai_enforceConfirmation i)
      \<and> (truthy (oget (ai_tool i) ''destructive'') \<or> truthy (oget (ai_tool i) ''requiresApproval'')
         \<or> truthy (vget (prop_of (ai_operation i) ''safety'') ''requiresConfirmation'')))"

definition governance_decision :: "governance \<Rightarrow> auth_world \<Rightarrow> compiled_facts option \<Rightarrow> auth_request \<Rightarrow> jsobj option" where
  "governance_decision gov w c i = map_option (\<lambda>g. g (decided_subject w c i) i) gov"

definition governed :: "jsobj option \<Rightarrow> string \<Rightarrow> bool" where
  "governed gd e = (truthy (oget gd ''applicable'') \<and> oget gd ''effect'' = JStr e)"

definition governance_details :: "jsobj option \<Rightarrow> string \<Rightarrow> effect_details" where
  "governance_details gd e =
     (let snapshot = js_or (oget gd ''effectivePolicySnapshot'') JNull; layer = js_or (oget gd ''deniedLayer'') (JStr ''governance'')
      in if e = ''allow''
         then (effectDetails (JStr e) (js_or (oget gd ''reasonCode'') (JStr ''governance_allowed'')) (JStr ''Request allowed by governance policy.''))
                \<lparr>fx_snapshot := snapshot\<rparr>
         else if e = ''needsApproval''
         then (effectDetails (JStr e) (oget gd ''reasonCode'') (oget gd ''redactedReason''))
                \<lparr>fx_deniedLayer := layer, fx_requiredApproval := js_or (oget gd ''requiredApproval'') JNull, fx_snapshot := snapshot\<rparr>
         else (effectDetails (JStr e) (oget gd ''reasonCode'') (oget gd ''redactedReason''))
                \<lparr>fx_deniedLayer := layer, fx_snapshot := snapshot\<rparr>)"

definition abac_details :: "auth_world \<Rightarrow> compiled_facts option \<Rightarrow> auth_request \<Rightarrow> effect_details option" where
  "abac_details w c i =
     abacDenyDetails \<lparr>ab_subject = decided_subject w c i, ab_grant = policy_of i, ab_profile = ai_profile i,
       ab_resource = decided_resource i, ab_compiled = map_option cf_abac c\<rparr>"

definition deny :: "string \<Rightarrow> string \<Rightarrow> effect_details" where
  "deny r m = verdict ''deny'' r m"

definition governance_gates :: "governance \<Rightarrow> auth_world \<Rightarrow> compiled_facts option \<Rightarrow> auth_request \<Rightarrow> (bool \<times> effect_details) list" where
  "governance_gates gov w c i =
     (let gd = governance_decision gov w c i
      in [(governed gd ''deny'', governance_details gd ''deny''),
          (governed gd ''needsApproval'', governance_details gd ''needsApproval''),
          (governed gd ''allow'', governance_details gd ''allow'')])"

definition credential_gates :: "auth_world \<Rightarrow> compiled_facts option \<Rightarrow> auth_request \<Rightarrow> (bool \<times> effect_details) list" where
  "credential_gates w c i =
     [(ai_tool i = None \<and> prop_of (ai_context i) ''toolExpected'' = JBool True, deny ''unknown_tool'' ''Tool is not registered.''),
      (abac_details w c i \<noteq> None, the (abac_details w c i)),
      (ai_tool i \<noteq> None \<and> oget (ai_tool i) ''status'' \<noteq> JStr ''active'', deny ''tool_inactive'' ''Tool is inactive.''),
      (truthy (ai_grantRequired i) \<and> policy_of i = None, deny ''missing_credential'' ''No authorization credential was provided.''),
      (grant_expired w i, deny ''grant_expired'' ''Grant is expired.''),
      (uses_exhausted w i, deny ''grant_max_uses'' ''Grant has exceeded its maximum use count.''),
      (origin_denied w c i, deny ''origin_not_allowed'' ''Request origin is not allowed by grant.''),
      (source_denied w c i, deny ''cidr_not_allowed'' ''Request source address is not allowed by grant.''),
      (prop_of (ai_context i) ''grantRateLimited'' = JBool True \<or> prop_of (ai_context i) ''rateLimited'' = JBool True,
         deny ''rate_limited'' ''Grant rate limit has been exceeded.''),
      (prop_of (ai_operation i) ''externalAuth'' = JBool True \<and> prop_of (ai_context i) ''externalAuthVerified'' \<noteq> JBool True,
         deny ''external_auth_not_verified'' ''External authentication has not been verified by the dispatcher.'')]"

definition open_gates :: "auth_request \<Rightarrow> (bool \<times> effect_details) list" where
  "open_gates i =
     [(prop_of (ai_operation i) ''public'' = JBool True, verdict ''allow'' ''allowed_public'' ''Public operation.''),
      (prop_of (ai_operation i) ''externalAuth'' = JBool True \<and> prop_of (ai_context i) ''externalAuthVerified'' = JBool True,
         verdict ''allow'' ''allowed_external_auth_verified'' ''Externally authenticated operation.'')]"

definition privilege_gates :: "auth_world \<Rightarrow> compiled_facts option \<Rightarrow> auth_request \<Rightarrow> (bool \<times> effect_details) list" where
  "privilege_gates w c i =
     (let t = tool_id i;
          gd = tool_list cf_toolDeny (policy_of i) ''toolDeny'' c; ga = tool_list cf_toolAllow (policy_of i) ''toolAllow'' c;
          pd = tool_list cf_profileToolDeny (ai_profile i) ''toolDeny'' c; pa = tool_list cf_profileToolAllow (ai_profile i) ''toolAllow'' c
      in [(missing_capabilities w c i \<noteq> [], deny ''missing_capabilities'' ''Credential is missing required capabilities.''),
          (missing_scopes w c i \<noteq> [], deny ''missing_scopes'' ''Subject is missing required scopes.''),
          (\<not> grantHasToolset (policy_of i) (ai_tool i), deny ''missing_toolsets'' ''Grant is missing a toolset that contains this tool.''),
          (t \<noteq> [] \<and> JStr t \<in> set gd, deny ''tool_denied'' ''Grant denies this tool.''),
          (t \<noteq> [] \<and> ga \<noteq> [] \<and> JStr t \<notin> set ga, deny ''tool_not_allowed'' ''Tool is not in the grant allowlist.''),
          (t \<noteq> [] \<and> JStr t \<in> set pd, deny ''profile_tool_denied'' ''Agent profile denies this tool.''),
          (t \<noteq> [] \<and> pa \<noteq> [] \<and> JStr t \<notin> set pa, deny ''profile_tool_not_allowed'' ''Tool is not in the profile allowlist.''),
          (num_less (riskRank (max_risk w c i)) (riskRank (JStr (operationRisk (ai_operation i) (ai_tool i)))),
             deny ''risk_exceeds_policy'' ''Requested risk exceeds effective policy.'')])"

definition consent_gates :: "auth_request \<Rightarrow> (bool \<times> effect_details) list" where
  "consent_gates i =
     [(needs_receipt i \<and> \<not> approvedPendingOperationMatches (ai_context i) (ai_operation i),
         verdict ''require_approval'' ''approval_receipt_required'' ''Operation requires an approval receipt.''),
      (needs_confirmation i \<and> \<not> hasConfirmation (ai_input i) (ai_request i),
         verdict ''require_confirmation'' ''confirmation_required'' ''Request requires confirmation.''),
      (truthy (ai_dryRun i), verdict ''dry_run_only'' ''dry_run'' ''Dry-run requested.'')]"

definition authorization_details :: "governance \<Rightarrow> auth_world \<Rightarrow> compiled_facts option \<Rightarrow> auth_request \<Rightarrow> effect_details" where
  "authorization_details gov w c i =
     first_gate (governance_gates gov w c i @ credential_gates w c i @ open_gates i @ privilege_gates w c i @ consent_gates i)
       (verdict ''allow'' ''allowed'' ''Request allowed.'')"


section \<open>The decision\<close>

definition or_text :: "jsval \<Rightarrow> jsval" where
  "or_text v = js_or v (JStr [])"

definition or_list :: "jsval \<Rightarrow> jsval" where
  "or_list v = js_or v (JArr [])"

definition fields_from :: "jsobj \<Rightarrow> (jsval \<Rightarrow> jsval) \<Rightarrow> string list \<Rightarrow> jsobj" where
  "fields_from r f ks = map (\<lambda>k. (k, f (prop_of r k))) ks"

definition flag :: "jsval \<Rightarrow> jsval" where
  "flag v = JBool (v = JBool True)"

definition operation_id :: "auth_request \<Rightarrow> string" where
  "operation_id i = raw_text (js_or (prop_of (ai_operation i) ''id'') (oget (ai_tool i) ''operationId''))"

definition resource_part :: "auth_request \<Rightarrow> jsobj" where
  "resource_part i =
     (let r = decided_resource i
      in [(''operationId'', JStr (operation_id i)),
          (''toolId'', JStr (tool_id i)),
          (''feature'', JStr (raw_text (js_or (prop_of (ai_operation i) ''feature'') (oget (ai_tool i) ''featureId'')))),
          (''risk'', JStr (operationRisk (ai_operation i) (ai_tool i)))]
         @ fields_from r id [''tenantId'', ''accountId'', ''endpointId'', ''opaqueMailboxId'']
         @ fields_from r flag [''accountBoundaryRequired'', ''endpointBoundaryRequired'', ''mailboxBoundaryRequired'']
         @ fields_from r id [''workspaceId''] @ fields_from r or_list [''workspaceIds'']
         @ fields_from r id [''dataClass''] @ fields_from r or_list [''dataClasses'']
         @ fields_from r or_text [''serviceId''] @ fields_from r or_list [''serviceIds'']
         @ fields_from r or_text [''secretBindingId''] @ fields_from r or_list [''secretBindingIds'']
         @ fields_from r or_text [''staticSemanticFamilyId'', ''capabilityDomain'', ''capabilityVerb'', ''resourceKind'', ''effectKind''])"

definition tenant_part :: "jsobj \<Rightarrow> auth_request \<Rightarrow> jsobj" where
  "tenant_part subject i =
     [(''subjectTenantId'', or_text (prop_of subject ''tenantId'')),
      (''resourceTenantId'', or_text (prop_of (decided_resource i) ''tenantId'')),
      (''orgId'', or_text (prop_of subject ''orgId'')),
      (''teamIds'', or_list (prop_of subject ''teamIds'')),
      (''departmentIds'', or_list (prop_of subject ''departmentIds''))]"

definition abac_part :: "jsobj \<Rightarrow> auth_request \<Rightarrow> jsobj" where
  "abac_part subject i =
     (let r = decided_resource i
      in fields_from r or_text [''workspaceId''] @ fields_from r or_list [''workspaceIds'']
         @ fields_from r or_text [''accountId'', ''endpointId'', ''opaqueMailboxId'']
         @ fields_from r flag [''accountBoundaryRequired'', ''endpointBoundaryRequired'', ''mailboxBoundaryRequired'']
         @ fields_from subject or_list [''allowedAccountIds'', ''allowedEndpointIds'', ''allowedOpaqueMailboxIds'']
         @ fields_from r or_text [''dataClass''] @ fields_from r or_list [''dataClasses'']
         @ fields_from r or_text [''requestedEgress''] @ fields_from r or_list [''requestedEgresses'']
         @ fields_from r or_text [''serviceId''] @ fields_from r or_list [''serviceIds'']
         @ fields_from r or_text [''secretBindingId''] @ fields_from r or_list [''secretBindingIds'']
         @ fields_from r or_text [''staticSemanticFamilyId'', ''capabilityDomain'', ''capabilityVerb'', ''resourceKind'', ''effectKind'']
         @ fields_from subject or_list [''allowedWorkspaceIds'', ''allowedDataClasses'', ''allowedEgress'', ''allowedStaticSemanticFamilies'',
             ''allowedCapabilityDomains'', ''allowedCapabilityVerbs'', ''allowedResourceKinds'', ''allowedEffectKinds'',
             ''allowedServiceIds'', ''allowedSecretBindings''])"

text \<open>\<open>x?.length\<close> of a list of the resource, as a condition.\<close>

definition nonempty_list :: "jsval \<Rightarrow> bool" where
  "nonempty_list v = (list_of v \<noteq> [])"

definition evaluated_layers :: "auth_world \<Rightarrow> auth_request \<Rightarrow> string list" where
  "evaluated_layers w i =
     (let r = decided_resource i; layer = (\<lambda>b s. JStr (if b then s else []))
      in uniqueStrings
        [JStr ''authorization_subject'',
         layer (required_capabilities w i \<noteq> []) ''operation_capability_policy'',
         JStr ''operation_scope_policy'',
         layer (ai_tool i \<noteq> None) ''tool_catalog_policy'',
         JStr (if ai_grant i \<noteq> None then ''grant_policy'' else if ai_restriction i \<noteq> None then ''credential_policy'' else []),
         layer (ai_profile i \<noteq> None) ''agent_profile_policy'',
         layer (truthy (prop_of r ''tenantId'')) ''tenant_boundary_policy'',
         layer (truthy (prop_of r ''accountId'') \<or> truthy (prop_of r ''accountBoundaryRequired'')) ''account_boundary_policy'',
         layer (truthy (prop_of r ''endpointId'') \<or> truthy (prop_of r ''endpointBoundaryRequired'')) ''endpoint_boundary_policy'',
         layer (truthy (prop_of r ''opaqueMailboxId'') \<or> truthy (prop_of r ''mailboxBoundaryRequired'')) ''mailbox_boundary_policy'',
         layer (list_ex (\<lambda>k. truthy (prop_of r k)) [''workspaceId'', ''dataClass'', ''requestedEgress'', ''serviceId'', ''secretBindingId'',
                  ''staticSemanticFamilyId'', ''capabilityDomain'', ''capabilityVerb'', ''resourceKind'', ''effectKind'']
                \<or> list_ex (\<lambda>k. nonempty_list (prop_of r k)) [''workspaceIds'', ''dataClasses'', ''requestedEgresses'', ''serviceIds'', ''secretBindingIds''])
           ''abac_resource_policy'',
         JStr ''runtime_safety_policy''])"

definition authorization_protocol :: string where
  "authorization_protocol = ''v0.0.1:risk-control:authorization-1''"

definition evaluateAuthorizationPolicy :: "governance \<Rightarrow> auth_world \<Rightarrow> compiled_facts option \<Rightarrow> auth_request \<Rightarrow> jsobj" where
  "evaluateAuthorizationPolicy gov w c i =
     (let d = authorization_details gov w c i; subject = decided_subject w c i; r = decided_resource i;
          gd = governance_decision gov w c i
      in [(''protocolVersion'', JStr authorization_protocol),
          (''decisionId'', JStr (aw_id w ''authz_decision'')),
          (''auditId'', JStr (aw_id w ''authz_audit'')),
          (''toolExecutionId'', ai_toolExecutionId i),
          (''traceId'', ai_traceId i),
          (''operationId'', JStr (operation_id i)),
          (''toolId'', JStr (tool_id i)),
          (''grantId'', JStr (raw_text (oget (ai_grant i) ''id''))),
          (''subject'', JObj subject),
          (''resource'', JObj (resource_part i)),
          (''action'', JStr (js_string (js_or (prop_of (ai_input i) ''requestedAction'') (js_or (prop_of (ai_context i) ''requestedAction'')
             (JStr (inferOperationAction (ai_operation i) (ai_tool i))))))),
          (''requestedEgress'', prop_of r ''requestedEgress''),
          (''requestedEgresses'', or_list (prop_of r ''requestedEgresses'')),
          (''effect'', JStr (fx_effect d)),
          (''allowed'', JBool (fx_effect d \<in> {''allow'', ''dry_run_only''})),
          (''reasonCode'', JStr (fx_reasonCode d)),
          (''redactedReason'', JStr (fx_redactedReason d)),
          (''deniedLayer'', or_text (fx_deniedLayer d)),
          (''effectivePolicySnapshot'', js_or (fx_snapshot d) (js_or (oget gd ''effectivePolicySnapshot'') JNull)),
          (''requiredCapabilities'', texts (required_capabilities w i)),
          (''subjectCapabilities'', prop_of subject ''capabilities''),
          (''missingCapabilities'', texts (uniqueStrings (map JStr (missing_capabilities w c i)))),
          (''requiredScopes'', texts (required_scopes i)),
          (''subjectScopes'', prop_of subject ''scopes''),
          (''missingScopes'', texts (uniqueStrings (map JStr (missing_scopes w c i)))),
          (''missingToolsets'', texts (if fx_effect d = ''deny'' then uniqueStrings (map JStr (missing_toolsets c i)) else [])),
          (''requiredApproval'', js_or (fx_requiredApproval d)
             (if fx_effect d = ''require_approval'' then JObj [(''reasonCode'', JStr (fx_reasonCode d))] else JNull)),
          (''requiredConfirmation'', JBool (fx_effect d = ''require_confirmation'')),
          (''evaluatedLayers'', texts (evaluated_layers w i)),
          (''tenant'', JObj (tenant_part subject i)),
          (''abac'', JObj (abac_part subject i)),
          (''createdAt'', JStr (aw_iso w))])"

definition malformedFactDecision :: "auth_world \<Rightarrow> string \<Rightarrow> string \<Rightarrow> auth_request \<Rightarrow> jsobj" where
  "malformedFactDecision w reasonCode message i =
     (let subject = resolveAuthorizationSubject (aw_kernel w) (ai_subject i) (ai_actor i) (ai_authSession i) (ai_grant i)
      in [(''protocolVersion'', JStr authorization_protocol),
          (''decisionId'', JStr (aw_id w ''authz_decision'')),
          (''auditId'', JStr (aw_id w ''authz_audit'')),
          (''toolExecutionId'', or_text (ai_toolExecutionId i)),
          (''traceId'', or_text (ai_traceId i)),
          (''operationId'', JStr (operation_id i)),
          (''toolId'', JStr (tool_id i)),
          (''grantId'', JStr (raw_text (oget (ai_grant i) ''id''))),
          (''subject'', JObj subject),
          (''resource'', JObj
             [(''operationId'', JStr (operation_id i)), (''toolId'', JStr (tool_id i)),
              (''feature'', JStr (raw_text (js_or (prop_of (ai_operation i) ''feature'') (oget (ai_tool i) ''featureId'')))),
              (''risk'', JStr (operationRisk (ai_operation i) (ai_tool i)))]),
          (''action'', JStr (js_string (js_or (prop_of (ai_input i) ''requestedAction'') (js_or (prop_of (ai_context i) ''requestedAction'')
             (JStr (inferOperationAction (ai_operation i) (ai_tool i))))))),
          (''effect'', JStr ''deny''),
          (''allowed'', JBool False),
          (''reasonCode'', JStr reasonCode),
          (''redactedReason'', JStr message),
          (''deniedLayer'', JStr ''authorization_compiler''),
          (''effectivePolicySnapshot'', JNull),
          (''requiredCapabilities'', texts (requiredCapabilitiesFor (aw_kernel w) (ai_operation i) (ai_tool i))),
          (''subjectCapabilities'', prop_of subject ''capabilities''),
          (''missingCapabilities'', JArr []),
          (''requiredScopes'', texts (requiredScopesFor (ai_operation i) (ai_tool i))),
          (''subjectScopes'', prop_of subject ''scopes''),
          (''missingScopes'', JArr []),
          (''missingToolsets'', JArr []),
          (''requiredApproval'', JNull),
          (''requiredConfirmation'', JBool False),
          (''evaluatedLayers'', JArr [JStr ''authorization_compiler'']),
          (''tenant'', JObj
             [(''subjectTenantId'', or_text (prop_of subject ''tenantId'')), (''resourceTenantId'', JStr []),
              (''orgId'', or_text (prop_of subject ''orgId'')), (''teamIds'', or_list (prop_of subject ''teamIds'')),
              (''departmentIds'', or_list (prop_of subject ''departmentIds''))]),
          (''abac'', JObj []),
          (''createdAt'', JStr (aw_iso w))])"

lemma decision_fields:
  "prop_of (evaluateAuthorizationPolicy gov w c i) ''effect'' = JStr (fx_effect (authorization_details gov w c i))"
  "prop_of (evaluateAuthorizationPolicy gov w c i) ''allowed'' = JBool (fx_effect (authorization_details gov w c i) \<in> {''allow'', ''dry_run_only''})"
  "prop_of (evaluateAuthorizationPolicy gov w c i) ''reasonCode'' = JStr (fx_reasonCode (authorization_details gov w c i))"
  by (simp_all add: evaluateAuthorizationPolicy_def Let_def prop_head)

lemma malformed_fields:
  "prop_of (malformedFactDecision w r m i) ''effect'' = JStr ''deny''" "prop_of (malformedFactDecision w r m i) ''allowed'' = JBool False"
  "prop_of (malformedFactDecision w r m i) ''reasonCode'' = JStr r"
  by (simp_all add: malformedFactDecision_def Let_def prop_head)


section \<open>When a request is allowed\<close>

lemma first_gate_append: "first_gate (gs @ hs) d = first_gate gs (first_gate hs d)"
  by (induction gs) auto

definition permits :: "effect_details \<Rightarrow> bool" where
  "permits d = (fx_effect d \<in> {''allow'', ''dry_run_only''})"

lemma permits_verdict [simp]: "permits (verdict e r m) \<longleftrightarrow> e = ''allow'' \<or> e = ''dry_run_only''" "permits (deny r m) \<longleftrightarrow> False"
  by (simp_all add: permits_def deny_def)

lemma permits_through_denials: "(\<forall>g \<in> set gs. fst g \<longrightarrow> \<not> permits (snd g)) \<Longrightarrow>
    permits (first_gate gs d) \<longleftrightarrow> (\<forall>g \<in> set gs. \<not> fst g) \<and> permits d"
  by (induction gs) (auto split: if_splits)

lemma first_error_mem: "first_error es = Some e \<Longrightarrow> Some e \<in> set es"
  by (induction es rule: first_error.induct) auto

lemma check_denies:
  "tenant_check a = Some d \<Longrightarrow> fx_effect d = ''deny''" "workspace_check a = Some d \<Longrightarrow> fx_effect d = ''deny''"
  "account_check a = Some d \<Longrightarrow> fx_effect d = ''deny''" "endpoint_check a = Some d \<Longrightarrow> fx_effect d = ''deny''"
  "mailbox_check a = Some d \<Longrightarrow> fx_effect d = ''deny''" "data_class_check a = Some d \<Longrightarrow> fx_effect d = ''deny''"
  "egress_check a = Some d \<Longrightarrow> fx_effect d = ''deny''" "semantic_check a r = Some d \<Longrightarrow> fx_effect d = ''deny''"
  "descriptive_check a r = Some d \<Longrightarrow> fx_effect d = ''deny''"
  unfolding tenant_check_def workspace_check_def account_check_def endpoint_check_def mailbox_check_def data_class_check_def
    egress_check_def semantic_check_def descriptive_check_def Let_def
  by (auto split: if_splits prod.splits)

lemma abac_denies: "abacDenyDetails a = Some d \<Longrightarrow> fx_effect d = ''deny''"
proof -
  assume "abacDenyDetails a = Some d"
  from first_error_mem [OF this [unfolded abacDenyDetails_def]]
  have "Some d \<in> {tenant_check a, workspace_check a, account_check a, endpoint_check a, mailbox_check a, data_class_check a, egress_check a}
      \<union> semantic_check a ` set semantic_rows \<union> descriptive_check a ` set descriptive_rows" by auto
  then show ?thesis by (elim UnE insertE imageE emptyE) (simp_all only: check_denies [OF sym])
qed

text \<open>The conditions, without their order.\<close>

definition credential_accepted :: "auth_world \<Rightarrow> compiled_facts option \<Rightarrow> auth_request \<Rightarrow> bool" where
  "credential_accepted w c i =
     ((ai_tool i = None \<longrightarrow> prop_of (ai_context i) ''toolExpected'' \<noteq> JBool True)
      \<and> (ai_tool i \<noteq> None \<longrightarrow> oget (ai_tool i) ''status'' = JStr ''active'')
      \<and> abac_details w c i = None
      \<and> (truthy (ai_grantRequired i) \<longrightarrow> policy_of i \<noteq> None)
      \<and> \<not> grant_expired w i \<and> \<not> uses_exhausted w i \<and> \<not> origin_denied w c i \<and> \<not> source_denied w c i
      \<and> prop_of (ai_context i) ''grantRateLimited'' \<noteq> JBool True \<and> prop_of (ai_context i) ''rateLimited'' \<noteq> JBool True
      \<and> (prop_of (ai_operation i) ''externalAuth'' = JBool True \<longrightarrow> prop_of (ai_context i) ''externalAuthVerified'' = JBool True))"

definition open_operation :: "auth_request \<Rightarrow> bool" where
  "open_operation i = (prop_of (ai_operation i) ''public'' = JBool True \<or> prop_of (ai_operation i) ''externalAuth'' = JBool True)"

definition tool_admitted :: "jsval list \<Rightarrow> jsval list \<Rightarrow> auth_request \<Rightarrow> bool" where
  "tool_admitted denied allowed i =
     (tool_id i = [] \<or> JStr (tool_id i) \<notin> set denied \<and> (allowed = [] \<or> JStr (tool_id i) \<in> set allowed))"

definition privileges_suffice :: "auth_world \<Rightarrow> compiled_facts option \<Rightarrow> auth_request \<Rightarrow> bool" where
  "privileges_suffice w c i =
     (missing_capabilities w c i = [] \<and> missing_scopes w c i = [] \<and> grantHasToolset (policy_of i) (ai_tool i)
      \<and> tool_admitted (tool_list cf_toolDeny (policy_of i) ''toolDeny'' c) (tool_list cf_toolAllow (policy_of i) ''toolAllow'' c) i
      \<and> tool_admitted (tool_list cf_profileToolDeny (ai_profile i) ''toolDeny'' c) (tool_list cf_profileToolAllow (ai_profile i) ''toolAllow'' c) i
      \<and> \<not> num_less (riskRank (max_risk w c i)) (riskRank (JStr (operationRisk (ai_operation i) (ai_tool i)))))"

definition consent_given :: "auth_request \<Rightarrow> bool" where
  "consent_given i =
     ((needs_receipt i \<longrightarrow> approvedPendingOperationMatches (ai_context i) (ai_operation i))
      \<and> (needs_confirmation i \<longrightarrow> hasConfirmation (ai_input i) (ai_request i)))"

lemma credential_gates_permit: "permits (first_gate (credential_gates w c i) d) \<longleftrightarrow> credential_accepted w c i \<and> permits d"
proof -
  have a: "abac_details w c i \<noteq> None \<longrightarrow> \<not> permits (the (abac_details w c i))"
  proof (cases "abac_details w c i")
    case (Some d)
    then have "fx_effect d = ''deny''" unfolding abac_details_def by (rule abac_denies)
    then show ?thesis by (simp add: Some permits_def)
  qed simp
  have "permits (first_gate (credential_gates w c i) d) \<longleftrightarrow> (\<forall>g \<in> set (credential_gates w c i). \<not> fst g) \<and> permits d"
    by (rule permits_through_denials) (use a in \<open>simp add: credential_gates_def\<close>)
  also have "(\<forall>g \<in> set (credential_gates w c i). \<not> fst g) \<longleftrightarrow> credential_accepted w c i"
    unfolding credential_gates_def credential_accepted_def by (simp only: list.set ball_simps(5,7) ball_empty fst_conv) argo
  finally show ?thesis .
qed

lemma privilege_gates_permit: "permits (first_gate (privilege_gates w c i) d) \<longleftrightarrow> privileges_suffice w c i \<and> permits d"
proof -
  have "permits (first_gate (privilege_gates w c i) d) \<longleftrightarrow> (\<forall>g \<in> set (privilege_gates w c i). \<not> fst g) \<and> permits d"
    by (rule permits_through_denials) (simp add: privilege_gates_def Let_def)
  also have "(\<forall>g \<in> set (privilege_gates w c i). \<not> fst g) \<longleftrightarrow> privileges_suffice w c i"
    unfolding privilege_gates_def privileges_suffice_def tool_admitted_def Let_def
    by (simp only: list.set ball_simps(5,7) ball_empty fst_conv) argo
  finally show ?thesis .
qed

lemma consent_gates_permit: "permits (first_gate (consent_gates i) (verdict ''allow'' r m)) \<longleftrightarrow> consent_given i"
  by (auto simp: consent_gates_def consent_given_def)

lemma governed_unique: "governed gd e \<Longrightarrow> governed gd e' \<Longrightarrow> e = e'"
  by (simp add: governed_def)

lemma allowed_iff:
  "prop_of (evaluateAuthorizationPolicy gov w c i) ''allowed'' = JBool
     (governed (governance_decision gov w c i) ''allow''
      \<or> \<not> governed (governance_decision gov w c i) ''deny'' \<and> \<not> governed (governance_decision gov w c i) ''needsApproval''
        \<and> credential_accepted w c i \<and> (open_operation i \<or> privileges_suffice w c i \<and> consent_given i))"
proof -
  let ?gd = "governance_decision gov w c i"
  have g: "permits (governance_details ?gd ''allow'')" "\<not> permits (governance_details ?gd ''deny'')"
    "\<not> permits (governance_details ?gd ''needsApproval'')"
    by (simp_all add: permits_def governance_details_def effectDetails_def Let_def)
  have o1: "permits (first_gate (open_gates i) d) \<longleftrightarrow> open_operation i \<or> permits d" if "credential_accepted w c i" for d
    using that by (auto simp: open_gates_def open_operation_def credential_accepted_def)
  have u: "\<not> (governed ?gd ''allow'' \<and> governed ?gd ''deny'')" "\<not> (governed ?gd ''allow'' \<and> governed ?gd ''needsApproval'')"
    using governed_unique [of ?gd "''allow''" "''deny''"] governed_unique [of ?gd "''allow''" "''needsApproval''"] by auto
  have "permits (authorization_details gov w c i) \<longleftrightarrow> governed ?gd ''allow''
      \<or> \<not> governed ?gd ''deny'' \<and> \<not> governed ?gd ''needsApproval''
        \<and> credential_accepted w c i \<and> (open_operation i \<or> privileges_suffice w c i \<and> consent_given i)"
  proof -
    let ?rest = "first_gate (credential_gates w c i) (first_gate (open_gates i) (first_gate (privilege_gates w c i)
      (first_gate (consent_gates i) (verdict ''allow'' ''allowed'' ''Request allowed.''))))"
    have r: "permits ?rest \<longleftrightarrow> credential_accepted w c i \<and> (open_operation i \<or> privileges_suffice w c i \<and> consent_given i)"
      unfolding credential_gates_permit using o1 privilege_gates_permit consent_gates_permit by blast
    have d: "authorization_details gov w c i = (if governed ?gd ''deny'' then governance_details ?gd ''deny''
        else if governed ?gd ''needsApproval'' then governance_details ?gd ''needsApproval''
        else if governed ?gd ''allow'' then governance_details ?gd ''allow'' else ?rest)"
      unfolding authorization_details_def first_gate_append governance_gates_def Let_def by (simp only: first_gate.simps append_Nil2)
    show ?thesis unfolding d using g u r by (simp only: split: if_splits) blast
  qed
  then show ?thesis by (simp add: decision_fields permits_def)
qed




section \<open>Compiled and direct decisions\<close>

lemma map_opt_Some: "map_opt f xs = Some ys \<Longrightarrow> list_all2 (\<lambda>x y. f x = Some y) xs ys"
  by (induction xs arbitrary: ys) (auto split: option.splits)

lemma list_all2_ex: "list_all2 (\<lambda>x y. f x = Some y) xs ys \<Longrightarrow> list_ex P ys \<longleftrightarrow> list_ex (\<lambda>x. case f x of None \<Rightarrow> False | Some y \<Rightarrow> P y) xs"
  by (induction rule: list_all2_induct) auto

lemma cidrs_agree:
  assumes "compile_cidrs policy = Some ps"
  shows "ps = [] \<longleftrightarrow> list_of (oget policy ''allowedCidrs'') = []"
    and "list_ex (ipMatchesPredicate ip) ps \<longleftrightarrow> list_ex (ipMatchesRule ip) (list_of (oget policy ''allowedCidrs''))"
proof -
  from map_opt_Some [OF assms [unfolded compile_cidrs_def]]
  have a: "list_all2 (\<lambda>x y. compileIpRule x = Some y) (list_of (oget policy ''allowedCidrs'')) ps" .
  then show "ps = [] \<longleftrightarrow> list_of (oget policy ''allowedCidrs'') = []" by (auto dest: list_all2_lengthD)
  have f: "ipMatchesRule ip = (\<lambda>x. case compileIpRule x of None \<Rightarrow> False | Some y \<Rightarrow> ipMatchesPredicate ip y)"
    by (rule ext) (rule ipMatchesRule_compiled)
  show "list_ex (ipMatchesPredicate ip) ps \<longleftrightarrow> list_ex (ipMatchesRule ip) (list_of (oget policy ''allowedCidrs''))"
    unfolding f by (rule list_all2_ex [OF a])
qed

text \<open>Lists on which compilation has nothing to change: origins that are their own normal form, and tool ids that are
  trimmed, nonempty texts.\<close>

definition settled_origins :: "auth_world \<Rightarrow> jsval list \<Rightarrow> bool" where
  "settled_origins w vs = list_all (\<lambda>v. normalizeOriginEntry w v = strip_slashes (raw_text v)) vs"

definition settled_texts :: "jsval list \<Rightarrow> bool" where
  "settled_texts vs = list_all (\<lambda>v. v = JStr (text_of v) \<and> text_of v \<noteq> []) vs"

definition settled_request :: "auth_world \<Rightarrow> auth_request \<Rightarrow> bool" where
  "settled_request w i =
     (settled_origins w (list_of (oget (policy_of i) ''allowedOrigins''))
      \<and> list_all (\<lambda>(r, k). settled_texts (list_of (oget r k)))
          [(policy_of i, ''toolDeny''), (policy_of i, ''toolAllow''), (ai_profile i, ''toolDeny''), (ai_profile i, ''toolAllow'')]
      \<and> ai_grantRequired i \<in> {JBool True, JBool False})"

lemma settled_set: "settled_texts vs \<Longrightarrow> set (map JStr (uniqueStrings vs)) = set vs \<and> (map JStr (uniqueStrings vs) = [] \<longleftrightarrow> vs = [])"
proof -
  assume s: "settled_texts vs"
  then have e: "v \<in> set vs \<Longrightarrow> v = JStr (text_of v) \<and> text_of v \<noteq> []" for v by (simp add: settled_texts_def list_all_iff)
  have "set (map JStr (uniqueStrings vs)) = set vs"
    using e by (auto simp: set_uniqueStrings image_iff)
  then show ?thesis by (metis set_empty)
qed

lemma compiled_origins:
  assumes "compile_origins w policy = Some os" "settled_origins w (list_of (oget policy ''allowedOrigins''))"
  shows "os = map (\<lambda>v. strip_slashes (raw_text v)) (list_of (oget policy ''allowedOrigins''))"
proof -
  let ?vs = "list_of (oget policy ''allowedOrigins'')"
  from map_opt_Some [OF assms(1) [unfolded compile_origins_def]]
  have "list_all2 (\<lambda>v x. x = normalizeOriginEntry w v) ?vs os" by (rule list_all2_mono) (auto split: if_splits)
  then have "os = map (normalizeOriginEntry w) ?vs" by (simp add: list_all2_eq list.rel_map list_all2_conv_all_nth list_eq_iff_nth_eq)
  then show ?thesis using assms(2) by (simp add: settled_origins_def list_all_iff)
qed

lemma toolset_lists: "toolsetMisses policy tool = (if list_of (oget policy ''toolsets'') = [] then []
    else filter (\<lambda>t. t \<notin> set (stringSet (list_of (oget policy ''toolsets'')))) (uniqueStrings (list_of (oget tool ''toolsets''))))"
  by (auto simp: toolsetMisses_def uniqueStrings_def)

lemma compiled_fields:
  assumes "compileAuthorizationFacts w key s i = Inr f"
  shows "cf_subject f = s" "cf_scopeSet f = stringSet (list_of (prop_of s ''scopes''))"
    "cf_capabilitySet f = stringSet (effectiveSubjectCapabilities s)"
    "cf_missingToolsets f = (if list_of (oget (policy_of i) ''toolsets'') = [] then []
       else filter (\<lambda>t. t \<notin> set (stringSet (list_of (oget (policy_of i) ''toolsets'')))) (uniqueStrings (list_of (oget (ai_tool i) ''toolsets''))))"
    "compile_origins w (policy_of i) = Some (cf_allowedOrigins f)" "compile_cidrs (policy_of i) = Some (cf_allowedCidrs f)"
    "cf_maxRisk f = maxRiskAllowed (ai_profile i) (policy_of i) s
       (risk_fallback (ai_grantRequired i = JBool True) (policy_of i) (ai_tool i))"
    "cf_toolDeny f = uniqueStrings (list_of (oget (policy_of i) ''toolDeny''))"
    "cf_toolAllow f = uniqueStrings (list_of (oget (policy_of i) ''toolAllow''))"
    "cf_profileToolDeny f = uniqueStrings (list_of (oget (ai_profile i) ''toolDeny''))"
    "cf_profileToolAllow f = uniqueStrings (list_of (oget (ai_profile i) ''toolAllow''))"
    "cf_abac f = compileAbacFacts s (policy_of i) (ai_profile i)"
  using assms by (auto simp: compileAuthorizationFacts_def Let_def split: option.splits)

text \<open>C23. On settled lists the decision on compiled facts is the decision on the records.\<close>

theorem compiled_decision_agrees:
  assumes c: "compileAuthorizationFacts w key (own_subject w i) i = Inr f" and s: "settled_request w i"
  shows "evaluateAuthorizationPolicy gov w (Some f) i = evaluateAuthorizationPolicy gov w None i"
proof -
  note f = compiled_fields [OF c]
  have sub: "decided_subject w (Some f) i = own_subject w i" "decided_subject w None i = own_subject w i"
    by (simp_all add: decided_subject_def f)
  have gr: "truthy (ai_grantRequired i) = (ai_grantRequired i = JBool True)" using s by (auto simp: settled_request_def)
  have mr: "max_risk w (Some f) i = max_risk w None i" by (simp add: max_risk_def f gr)
  have ms: "missing_scopes w (Some f) i = missing_scopes w None i" by (simp add: missing_scopes_def sub f)
  have cm: "capability_mode w (Some f) i = capability_mode w None i" by (simp add: capability_mode_def sub)
  have mc: "missing_capabilities w (Some f) i = missing_capabilities w None i"
    by (simp add: missing_capabilities_def cm sub f hasCapability_def)
  have mt: "missing_toolsets (Some f) i = missing_toolsets None i" by (simp add: missing_toolsets_def f toolset_lists)
  have so: "settled_origins w (list_of (oget (policy_of i) ''allowedOrigins''))" using s by (simp add: settled_request_def)
  have od: "origin_denied w (Some f) i = origin_denied w None i"
    by (simp add: origin_denied_def Let_def compiled_origins [OF f(5) so])
  have sd: "source_denied w (Some f) i = source_denied w None i"
    by (simp add: source_denied_def Let_def cidrs_agree [OF f(6)])
  have gd: "governance_decision gov w (Some f) i = governance_decision gov w None i" by (simp add: governance_decision_def sub)
  have ab: "abac_details w (Some f) i = abac_details w None i"
    using compiled_boundaries_agree [of "\<lparr>ab_subject = own_subject w i, ab_grant = policy_of i, ab_profile = ai_profile i,
       ab_resource = decided_resource i, ab_compiled = None\<rparr>"]
    by (simp add: abac_details_def sub f)
  have tl: "settled_texts (list_of (oget (policy_of i) ''toolDeny''))" "settled_texts (list_of (oget (policy_of i) ''toolAllow''))"
    "settled_texts (list_of (oget (ai_profile i) ''toolDeny''))" "settled_texts (list_of (oget (ai_profile i) ''toolAllow''))"
    using s by (simp_all add: settled_request_def)
  have cg: "credential_gates w (Some f) i = credential_gates w None i"
    by (simp only: credential_gates_def ab od sd)
  have pg: "privilege_gates w (Some f) i = privilege_gates w None i"
    unfolding privilege_gates_def Let_def tool_list_def option.case f mc ms mr
    by (simp only: settled_set [OF tl(1)] settled_set [OF tl(2)] settled_set [OF tl(3)] settled_set [OF tl(4)])
  have gg: "governance_gates gov w (Some f) i = governance_gates gov w None i" by (simp only: governance_gates_def gd)
  have d: "authorization_details gov w (Some f) i = authorization_details gov w None i"
    by (simp only: authorization_details_def cg pg gg)
  show ?thesis unfolding evaluateAuthorizationPolicy_def d gd sub mc ms mt ..
qed


section \<open>Privileges\<close>

lemma ends_with_last: "ends_with (xs @ ys) ys"
  by (simp add: ends_with_def starts_with_prefix)



section \<open>Examples\<close>

definition demo_auth_world :: auth_world where
  "demo_auth_world = \<lparr>aw_now = 100, aw_date = (\<lambda>s. None), aw_number = (\<lambda>s. NaN), aw_origin = (\<lambda>s. None), aw_url = (\<lambda>s. None),
     aw_isIP = (\<lambda>s. 0), aw_proxies = [], aw_id = (\<lambda>s. s), aw_iso = ''now'', aw_kernel = \<lparr>k_api_ops = [], k_tool_ids = []\<rparr>\<rparr>"

definition demo_auth_request :: auth_request where
  "demo_auth_request = \<lparr>ai_operation = [(''requiredScopes'', JArr [JStr ''files:read''])], ai_tool = None,
     ai_grant = Some [(''scopes'', JArr [JStr ''files:read''])], ai_restriction = None, ai_profile = None, ai_subject = None, ai_actor = None,
     ai_authSession = None, ai_input = [], ai_request = None, ai_context = [], ai_dryRun = JBool False, ai_traceId = JStr [],
     ai_toolExecutionId = JStr [], ai_grantRequired = JBool True, ai_enforceConfirmation = JBool True\<rparr>"

lemma compile_total:
  "compile_origins w (policy_of i) = Some a \<Longrightarrow> compile_cidrs (policy_of i) = Some b \<Longrightarrow> compile_max_uses w (policy_of i) = Some m
   \<Longrightarrow> \<exists>f. compileAuthorizationFacts w key s i = Inr f"
  by (simp add: compileAuthorizationFacts_def Let_def)

lemma demo_policy: "policy_of demo_auth_request = Some [(''scopes'', JArr [JStr ''files:read''])]"
  by (simp add: policy_of_def demo_auth_request_def)

lemma demo_compiles: "\<exists>f. compileAuthorizationFacts demo_auth_world [] (own_subject demo_auth_world demo_auth_request) demo_auth_request = Inr f"
proof (rule compile_total)
  show "compile_origins demo_auth_world (policy_of demo_auth_request) = Some []"
    "compile_cidrs (policy_of demo_auth_request) = Some []" "compile_max_uses demo_auth_world (policy_of demo_auth_request) = Some (Fin 0)"
    unfolding demo_policy by (simp_all add: compile_origins_def compile_cidrs_def compile_max_uses_def prop_of_def)
qed

theorem compiled_decision_agrees_witness:
  "\<exists>f. compileAuthorizationFacts demo_auth_world [] (own_subject demo_auth_world demo_auth_request) demo_auth_request = Inr f
     \<and> evaluateAuthorizationPolicy None demo_auth_world (Some f) demo_auth_request
       = evaluateAuthorizationPolicy None demo_auth_world None demo_auth_request"
proof -
  from demo_compiles obtain f where f: "compileAuthorizationFacts demo_auth_world [] (own_subject demo_auth_world demo_auth_request) demo_auth_request = Inr f"
    by blast
  have "settled_request demo_auth_world demo_auth_request"
    unfolding settled_request_def demo_policy by (simp add: settled_origins_def settled_texts_def demo_auth_request_def prop_of_def)
  from compiled_decision_agrees [OF f this] f show ?thesis by blast
qed

text \<open>An expiry that cannot be parsed never expires, and a risk outside the table ranks lowest.\<close>

lemma unparsable_expiry_is_open: "aw_date w (js_string (oget (policy_of i) ''expiresAt'')) = None \<Longrightarrow> \<not> grant_expired w i"
  by (simp add: grant_expired_def)

lemma unknown_risk_is_lowest:
  "s \<noteq> [] \<Longrightarrow> s \<notin> {''safe_write'', ''repair_write'', ''destructive''} \<Longrightarrow> \<not> num_less (riskRank m) (riskRank (JStr s)) \<or> riskRank m \<notin> {Fin 0, Fin 1, Fin 2, Fin 3}"
  by (auto simp: riskRank_def js_or_def Let_def)

text \<open>A verdict of the governance store allows the request whatever the credential looks like.\<close>

lemma governance_allow_overrides:
  "governed (governance_decision gov w c i) ''allow'' \<Longrightarrow> prop_of (evaluateAuthorizationPolicy gov w c i) ''allowed'' = JBool True"
  by (simp add: allowed_iff)





lemma empty_texts: "stringsFrom [JStr []] = []" "stringsFrom [JArr []] = []" "firstString [JStr []] = []" "stringsFrom [] = []"
  by (simp_all add: stringsFrom_def spread_text_def uniqueStrings_def)



lemma demo_fields [simp]:
  "ai_operation demo_auth_request = [(''requiredScopes'', JArr [JStr ''files:read''])]" "ai_tool demo_auth_request = None"
  "ai_grant demo_auth_request = Some [(''scopes'', JArr [JStr ''files:read''])]" "ai_profile demo_auth_request = None"
  "ai_subject demo_auth_request = None" "ai_actor demo_auth_request = None" "ai_authSession demo_auth_request = None"
  "ai_input demo_auth_request = []" "ai_request demo_auth_request = None" "ai_context demo_auth_request = []"
  "ai_grantRequired demo_auth_request = JBool True" "ai_enforceConfirmation demo_auth_request = JBool True"
  by (simp_all add: demo_auth_request_def)







end
