(* ===== verification/PolicyEnforcement.thy ===== *)
theory PolicyEnforcement
  imports AuthDecision
begin

text \<open>
  The policy enforcement point
  (\<open>packages/foundation/src/security/authorization/pdp/policy-enforcement-point.ts\<close>) over the authorization engine
  (\<open>createAuthorizationEngine\<close> of \<open>authorization-engine.ts\<close>).  What the enforcement asks and records outside of itself is
  kept as a trace.  The receipt store is a parameter that may reject; the decision point is a locale, interpreted on the
  modelled engine.  The cache of compiled facts is left out, it only saves compiling.
\<close>

section \<open>The engine\<close>

definition authorization_engine :: "governance \<Rightarrow> auth_world \<Rightarrow> auth_request \<Rightarrow> jsobj" where
  "authorization_engine gov w i =
     (case compileAuthorizationFacts w [] (own_subject w i) i of
        Inl (reasonCode, message) \<Rightarrow> malformedFactDecision w reasonCode message i
      | Inr facts \<Rightarrow> evaluateAuthorizationPolicy gov w (Some facts) i)"

section \<open>Enforcement\<close>

record pep_call =
  pc_operation :: jsobj
  pc_tool :: "jsobj option"
  pc_subject :: jsobj
  pc_resource :: jsobj
  pc_input :: jsobj
  pc_request :: "jsobj option"
  pc_context :: jsobj
  pc_traceId :: jsval

type_synonym receipt_store = "(jsobj \<Rightarrow> jsval option) option"

datatype pep_step = AskReceipt jsobj | RecordDecision jsobj jsobj

record enforcement =
  en_allowed :: bool
  en_decision :: jsobj
  en_needsApproval :: bool
  en_approvalReceipt :: jsval

definition authorizationDecision :: "jsval \<Rightarrow> string + jsobj" where
  "authorizationDecision v =
     (case v of
        JObj d \<Rightarrow>
          if is_bool (prop_of d ''allowed'') \<and> is_string (prop_of d ''effect'') then Inr d
          else Inl ''Authorization engine returned an incomplete decision.''
      | _ \<Rightarrow> Inl ''Authorization engine returned an invalid decision.'')"

definition isApprovalEffect :: "jsval \<Rightarrow> bool" where
  "isApprovalEffect v = (v = JStr ''require_approval'' \<or> v = JStr ''needsApproval'')"

text \<open>\<open>o.k = v\<close>.\<close>

fun set_prop :: "jsobj \<Rightarrow> string \<Rightarrow> jsval \<Rightarrow> jsobj" where
  "set_prop [] k v = [(k, v)]"
| "set_prop ((j, u) # ps) k v = (if j = k then (k, v) # ps else (j, u) # set_prop ps k v)"

definition amend :: "jsobj \<Rightarrow> string \<Rightarrow> bool \<Rightarrow> string \<Rightarrow> string \<Rightarrow> jsobj" where
  "amend d effect allowed reasonCode reason =
     set_prop (set_prop (set_prop (set_prop d ''effect'' (JStr effect)) ''allowed'' (JBool allowed)) ''reasonCode'' (JStr reasonCode))
       ''redactedReason'' (JStr reason)"

definition receipt_query :: "jsobj \<Rightarrow> jsobj" where
  "receipt_query d =
     [(''decisionId'', prop_of d ''decisionId''), (''operationId'', prop_of d ''operationId''),
      (''subjectId'', vget (prop_of d ''subject'') ''subjectId''), (''inputHash'', prop_of d ''inputHash'')]"

definition checkApprovalReceipt :: "receipt_store \<Rightarrow> jsobj \<Rightarrow> pep_step list \<times> jsval" where
  "checkApprovalReceipt store d =
     (case store of
        None \<Rightarrow> ([], JNull)
      | Some ask \<Rightarrow> ([AskReceipt (receipt_query d)], case ask (receipt_query d) of None \<Rightarrow> JNull | Some r \<Rightarrow> r))"

definition receipt_valid :: "jsval \<Rightarrow> bool" where
  "receipt_valid r = truthy (vget r ''valid'')"

definition high_risk :: "jsobj \<Rightarrow> jsobj option \<Rightarrow> bool" where
  "high_risk operation tool =
     (raw_text (js_or (oget tool ''risk'') (js_or (vget (prop_of operation ''safety'') ''risk'') (prop_of operation ''risk''))) = ''destructive''
      \<or> truthy (oget tool ''destructive'') \<or> truthy (oget tool ''requiresApproval'')
      \<or> prop_of operation ''requiresApproval'' = JBool True \<or> vget (prop_of operation ''safety'') ''requiresApproval'' = JBool True)"

text \<open>The two uses of a receipt, in the order of the code: it lifts a demand for approval, and it is demanded from an
  operation of high risk that is allowed otherwise.\<close>

definition lift_approval :: "receipt_store \<Rightarrow> jsobj \<Rightarrow> pep_step list \<times> jsval \<times> jsobj" where
  "lift_approval store d =
     (if isApprovalEffect (prop_of d ''effect'') \<and> store \<noteq> None
      then (let (asked, r) = checkApprovalReceipt store d
            in (asked, r, if receipt_valid r then amend d ''allow'' True ''approval_receipt_valid'' ''Approval receipt validated.'' else d))
      else ([], JNull, d))"

definition demand_receipt :: "receipt_store \<Rightarrow> pep_call \<Rightarrow> jsobj \<Rightarrow> pep_step list \<times> jsobj" where
  "demand_receipt store c d =
     (if high_risk (pc_operation c) (pc_tool c) \<and> prop_of d ''effect'' = JStr ''allow''
         \<and> prop_of d ''reasonCode'' \<noteq> JStr ''approval_receipt_valid''
      then (let (asked, r) = checkApprovalReceipt store d
            in (asked, if receipt_valid r then d
                 else amend d ''require_approval'' False ''approval_receipt_required''
                   ''High-risk operation requires an approval receipt (confirm:true is insufficient).''))
      else ([], d))"

definition enforce :: "(pep_call \<Rightarrow> string + jsval) \<Rightarrow> receipt_store \<Rightarrow> bool \<Rightarrow> pep_call \<Rightarrow> string + pep_step list \<times> enforcement" where
  "enforce evaluate store audit c =
     (case evaluate c of
        Inl e \<Rightarrow> Inl e
      | Inr v \<Rightarrow>
          case authorizationDecision v of
            Inl e \<Rightarrow> Inl e
          | Inr d0 \<Rightarrow>
              (let (asked1, receipt, d1) = lift_approval store d0; (asked2, d2) = demand_receipt store c d1
               in Inr (asked1 @ asked2 @ (if audit then [RecordDecision d2 (pc_context c)] else []),
                    \<lparr>en_allowed = (prop_of d2 ''allowed'' = JBool True), en_decision = d2,
                     en_needsApproval = isApprovalEffect (prop_of d2 ''effect''), en_approvalReceipt = receipt\<rparr>)))"

section \<open>The HTTP middleware and the route guard\<close>

definition effectToStatusCode :: "jsval \<Rightarrow> int" where
  "effectToStatusCode e = (if e = JStr ''require_confirmation'' then 412 else 403)"

definition external_caller :: "jsobj \<Rightarrow> bool" where
  "external_caller req =
     (\<not> truthy (prop_of req ''authorizationSubject'') \<or> vget (prop_of req ''authorizationSubject'') ''type'' = JStr ''anonymous'')"

definition buildErrorEnvelope :: "jsobj \<Rightarrow> jsobj \<Rightarrow> jsobj" where
  "buildErrorEnvelope req d =
     [(''error'', JObj
        ([(''code'', js_or (prop_of d ''reasonCode'') (JStr ''forbidden'')),
          (''message'', if external_caller req then JStr ''Access denied.'' else js_or (prop_of d ''redactedReason'') (JStr ''Access denied.''))]
         @ (if external_caller req then [] else [(''operationId'', prop_of d ''operationId'')])
         @ [(''decisionId'', prop_of d ''decisionId''), (''traceId'', js_or (prop_of d ''traceId'') (JStr []))]))]"

definition record_at :: "jsobj \<Rightarrow> string \<Rightarrow> jsobj" where
  "record_at req k = or_empty (objectOrNull (prop_of req k))"

definition middleware_call :: "jsobj \<Rightarrow> pep_call" where
  "middleware_call req =
     \<lparr>pc_operation = or_empty (objectOrNull (vget (prop_of req ''routeConfig'') ''operation'')),
      pc_tool = objectOrNull (vget (prop_of req ''routeConfig'') ''tool''),
      pc_subject = record_at req ''authorizationSubject'', pc_resource = record_at req ''resourceContext'',
      pc_input = record_at req ''body'', pc_request = Some req, pc_context = record_at req ''context'',
      pc_traceId = or_text (prop_of req ''traceId'')\<rparr>"

datatype http_outcome =
    Failed string
  | Responded int jsobj
  | Raised int jsval jsobj
  | Passed jsobj

definition httpMiddleware ::
  "(pep_call \<Rightarrow> string + jsval) \<Rightarrow> receipt_store \<Rightarrow> bool \<Rightarrow> bool \<Rightarrow> jsobj \<Rightarrow> pep_step list \<times> http_outcome" where
  "httpMiddleware evaluate store audit has_response req =
     (case enforce evaluate store audit (middleware_call req) of
        Inl e \<Rightarrow> ([], Failed e)
      | Inr (trace, r) \<Rightarrow>
          (trace,
           if \<not> en_allowed r
           then (let status = effectToStatusCode (prop_of (en_decision r) ''effect''); body = buildErrorEnvelope req (en_decision r)
                 in if has_response then Responded status body
                    else Raised status (vget (prop_of body ''error'') ''message'') (en_decision r))
           else Passed (set_prop (set_prop req ''authorizationDecision'' (JObj (en_decision r))) ''approvalReceipt'' (en_approvalReceipt r))))"

definition guard_call :: "string list \<Rightarrow> string list \<Rightarrow> jsobj \<Rightarrow> jsobj option \<Rightarrow> pep_call" where
  "guard_call requiredScopes requiredCapabilities subject request =
     \<lparr>pc_operation = [(''id'', JStr ''console.route_guard''), (''requiredScopes'', texts requiredScopes), (''readOnly'', JBool True)],
      pc_tool = None, pc_subject = subject, pc_resource = [], pc_input = [], pc_request = request,
      pc_context = [(''requiredCapabilities'', texts requiredCapabilities)], pc_traceId = JStr []\<rparr>"

definition guardRoute ::
  "(pep_call \<Rightarrow> string + jsval) \<Rightarrow> receipt_store \<Rightarrow> bool \<Rightarrow> string list \<Rightarrow> string list \<Rightarrow> jsobj \<Rightarrow> jsobj option
   \<Rightarrow> string + bool \<times> jsval \<times> jsobj" where
  "guardRoute evaluate store audit requiredScopes requiredCapabilities subject request =
     (case enforce evaluate store audit (guard_call requiredScopes requiredCapabilities subject request) of
        Inl e \<Rightarrow> Inl e
      | Inr (trace, r) \<Rightarrow> Inr (en_allowed r, prop_of (en_decision r) ''redactedReason'', en_decision r))"

text \<open>The request that the engine reads out of a call.  The resource of the call has no place in it.\<close>

definition engine_request :: "pep_call \<Rightarrow> auth_request" where
  "engine_request c =
     \<lparr>ai_operation = pc_operation c, ai_tool = pc_tool c, ai_grant = None, ai_restriction = None, ai_profile = None,
      ai_subject = Some (pc_subject c), ai_actor = None, ai_authSession = None, ai_input = pc_input c, ai_request = pc_request c,
      ai_context = pc_context c, ai_dryRun = JBool False, ai_traceId = pc_traceId c, ai_toolExecutionId = JStr [],
      ai_grantRequired = JBool False, ai_enforceConfirmation = JBool True\<rparr>"

definition engine_answer :: "governance \<Rightarrow> auth_world \<Rightarrow> pep_call \<Rightarrow> string + jsval" where
  "engine_answer gov w c = Inr (JObj (authorization_engine gov w (engine_request c)))"

section \<open>Records that are amended\<close>

lemma prop_of_set_prop [simp]: "prop_of (set_prop ps k v) j = (if j = k then v else prop_of ps j)"
  by (induction ps k v rule: set_prop.induct) (auto simp: prop_of_def)

lemma amend_fields [simp]:
  "prop_of (amend d e a r m) ''effect'' = JStr e" "prop_of (amend d e a r m) ''allowed'' = JBool a"
  "prop_of (amend d e a r m) ''reasonCode'' = JStr r"
  by (simp_all add: amend_def)

lemma approval_effects: "\<not> isApprovalEffect (JStr ''allow'')" "isApprovalEffect (JStr ''require_approval'')" "isApprovalEffect (JStr ''needsApproval'')"
  "\<not> isApprovalEffect (JStr ''deny'')" "\<not> isApprovalEffect (JStr ''dry_run_only'')"
  by (simp_all add: isApprovalEffect_def)

section \<open>Decision points\<close>

definition receipt_ok :: "receipt_store \<Rightarrow> jsobj \<Rightarrow> bool" where
  "receipt_ok store d = receipt_valid (snd (checkApprovalReceipt store d))"

definition receipt_needed :: "pep_call \<Rightarrow> jsobj \<Rightarrow> bool" where
  "receipt_needed c d =
     (isApprovalEffect (prop_of d ''effect'')
      \<or> prop_of d ''effect'' = JStr ''allow'' \<and> high_risk (pc_operation c) (pc_tool c)
        \<and> prop_of d ''reasonCode'' \<noteq> JStr ''approval_receipt_valid'')"

definition permitting :: "jsval set" where
  "permitting = {JStr ''allow'', JStr ''dry_run_only''}"

lemma no_store: "\<not> receipt_ok None d"
  by (simp add: receipt_ok_def checkApprovalReceipt_def receipt_valid_def)

text \<open>What an enforcement point relies on: an answer is a record whose flag agrees with its effect.\<close>

locale decision_point =
  fixes evaluate :: "pep_call \<Rightarrow> string + jsval"
  assumes answers: "evaluate c = Inr v \<Longrightarrow> \<exists>d e. v = JObj d \<and> prop_of d ''effect'' = JStr e
    \<and> prop_of d ''allowed'' = JBool (JStr e \<in> permitting)"
begin

lemma enforced:
  assumes "evaluate c = Inr (JObj d)"
  shows "\<exists>trace r. enforce evaluate store audit c = Inr (trace, r)
    \<and> (en_allowed r \<longleftrightarrow> (if receipt_needed c d then receipt_ok store d else prop_of d ''effect'' \<in> permitting))
    \<and> trace = (if receipt_needed c d \<and> store \<noteq> None then [AskReceipt (receipt_query d)] else [])
              @ (if audit then [RecordDecision (en_decision r) (pc_context c)] else [])
    \<and> (en_allowed r \<longleftrightarrow> prop_of (en_decision r) ''effect'' \<in> permitting)"
proof -
  from answers [OF assms] obtain e where e: "prop_of d ''effect'' = JStr e" "prop_of d ''allowed'' = JBool (JStr e \<in> permitting)" by auto
  then have a: "authorizationDecision (JObj d) = Inr d" by (simp add: authorizationDecision_def)
  consider (approve) "isApprovalEffect (prop_of d ''effect'')"
    | (risk) "\<not> isApprovalEffect (prop_of d ''effect'')" "receipt_needed c d"
    | (plain) "\<not> receipt_needed c d"
    by blast
  then show ?thesis
  proof cases
    case approve
    then have n: "receipt_needed c d" "e \<noteq> ''allow''" "JStr e \<notin> permitting"
      using e(1) by (auto simp: receipt_needed_def isApprovalEffect_def permitting_def)
    show ?thesis
      using approve n e assms no_store
      by (cases store)
        (auto simp: enforce_def a lift_approval_def demand_receipt_def checkApprovalReceipt_def receipt_ok_def isApprovalEffect_def
          permitting_def split: prod.splits option.splits)
  next
    case risk
    then have n: "e = ''allow''" "high_risk (pc_operation c) (pc_tool c)" "prop_of d ''reasonCode'' \<noteq> JStr ''approval_receipt_valid''"
      using e(1) by (auto simp: receipt_needed_def)
    show ?thesis
      using risk n e assms no_store
      by (cases store)
        (auto simp: enforce_def a lift_approval_def demand_receipt_def checkApprovalReceipt_def receipt_ok_def isApprovalEffect_def
          permitting_def split: prod.splits option.splits)
  next
    case plain
    then have l: "lift_approval store d = ([], JNull, d)" "demand_receipt store c d = ([], d)"
      by (auto simp: receipt_needed_def lift_approval_def demand_receipt_def)
    show ?thesis using plain e assms by (simp add: enforce_def a l)
  qed
qed

end

section \<open>The engine as a decision point\<close>

lemma engine_fields: "\<exists>e. prop_of (authorization_engine gov w i) ''effect'' = JStr e
    \<and> prop_of (authorization_engine gov w i) ''allowed'' = JBool (JStr e \<in> permitting)"
  by (auto simp: authorization_engine_def decision_fields malformed_fields permitting_def split: sum.splits)

interpretation authz: decision_point "engine_answer gov w" for gov w
  using engine_fields by unfold_locales (auto simp: engine_answer_def)


section \<open>Enforcement without governance\<close>

lemma high_risk_receipts: "high_risk (pc_operation c) (pc_tool c) \<longleftrightarrow> needs_receipt (engine_request c)"
  by (auto simp: high_risk_def needs_receipt_def operationRisk_def engine_request_def js_or_def raw_text_def)







section \<open>What receipts and resources do not do\<close>

text \<open>The resource of a call is not part of the decision.\<close>

lemma resource_argument_unread:
  "enforce (engine_answer gov w) store audit (c\<lparr>pc_resource := res1\<rparr>) = enforce (engine_answer gov w) store audit c"
  by (simp add: enforce_def engine_answer_def engine_request_def demand_receipt_def split: sum.splits prod.splits)

text \<open>The decisions of the engine carry no hash of the input, so a receipt is not bound to one.\<close>

lemma no_input_hash: "prop_of (authorization_engine gov w i) ''inputHash'' = JUndef"
  by (auto simp: authorization_engine_def evaluateAuthorizationPolicy_def malformedFactDecision_def Let_def prop_head prop_of_def [of "[]"]
      split: sum.splits)

text \<open>A demand for approval by the governance store comes before the boundaries, the credential and the privileges are
  looked at; a receipt that lifts it lets the call through without them.\<close>

lemma receipt_overrides_gates:
  assumes f: "compileAuthorizationFacts w [] (own_subject w (engine_request c)) (engine_request c) = Inr f"
    and g: "governed (governance_decision gov w (Some f) (engine_request c)) ''needsApproval''"
    and r: "receipt_ok store (authorization_engine gov w (engine_request c))"
  shows "\<exists>trace r. enforce (engine_answer gov w) store audit c = Inr (trace, r) \<and> en_allowed r"
proof -
  let ?d = "authorization_engine gov w (engine_request c)"
  have "\<not> governed (governance_decision gov w (Some f) (engine_request c)) ''deny''" using g governed_unique by fastforce
  then have "fx_effect (authorization_details gov w (Some f) (engine_request c)) = ''needsApproval''"
    using g by (simp add: authorization_details_def first_gate_append governance_gates_def Let_def governance_details_def effectDetails_def)
  then have "prop_of ?d ''effect'' = JStr ''needsApproval''" by (simp add: authorization_engine_def f decision_fields)
  then have "receipt_needed c ?d" by (simp add: receipt_needed_def approval_effects)
  then show ?thesis using authz.enforced [of gov w c ?d store audit] r by (auto simp: engine_answer_def)
qed

text \<open>The receipt that an operation of high risk needed is not handed on.\<close>

lemma demanded_receipt_dropped:
  assumes "enforce (engine_answer gov w) store audit c = Inr (trace, r)"
    and "\<not> isApprovalEffect (prop_of (authorization_engine gov w (engine_request c)) ''effect'')"
  shows "en_approvalReceipt r = JNull"
proof -
  let ?d = "authorization_engine gov w (engine_request c)"
  from engine_fields [of gov w "engine_request c"] have "authorizationDecision (JObj ?d) = Inr ?d" by (auto simp: authorizationDecision_def)
  then show ?thesis using assms by (auto simp: enforce_def engine_answer_def lift_approval_def split: prod.splits)
qed

section \<open>Refusals\<close>

text \<open>The next handler runs exactly for the calls that are enforced with an allowance, and a refusal tells an external
  caller neither the operation nor the reason in words.\<close>

lemma middleware_passes_enforced:
  "snd (httpMiddleware evaluate store audit hr req) = Passed req' \<Longrightarrow>
    \<exists>trace r. enforce evaluate store audit (middleware_call req) = Inr (trace, r) \<and> en_allowed r"
  by (auto simp: httpMiddleware_def Let_def split: sum.splits if_splits)

lemma refusal_hides_operation:
  assumes "external_caller req" "prop_of d ''operationId'' \<noteq> JUndef"
  shows "buildErrorEnvelope req d = buildErrorEnvelope req (set_prop (set_prop d ''operationId'' v) ''redactedReason'' u)"
  using assms(1) by (simp add: buildErrorEnvelope_def)

section \<open>Examples\<close>








end
