(* ===== verification/TagPolicy.thy ===== *)
theory TagPolicy
  imports AuthCommon
begin

text \<open>
  Tag hierarchies and the policy on the tags of an entity
  (\<open>packages/foundation/src/security/authorization/tag-tree.ts\<close> and \<open>universal-tag-policy.ts\<close>).  The tag store is a
  lookup function that may name ever new parents, so the walk to the ancestors is a partial function; on a store that
  knows finitely many tags it is proved to return.  \<open>Number\<close> on texts is a parameter.
\<close>

section \<open>Tags\<close>

record tag_record =
  tg_tagId :: string
  tg_parentTagId :: string
  tg_kind :: string
  tg_status :: string
  tg_enabled :: bool
  tg_scopePrerequisites :: "string list"

type_synonym tag_lookup = "string \<Rightarrow> jsval"

definition normalizeId :: "jsval \<Rightarrow> string" where
  "normalizeId v = text_of v"

definition unique_tags :: "jsval \<Rightarrow> string list" where
  "unique_tags v = uniqueStrings (case v of JArr vs \<Rightarrow> vs | _ \<Rightarrow> [v])"

definition normalizeTagRecord :: "string \<Rightarrow> jsval \<Rightarrow> tag_record option" where
  "normalizeTagRecord tagId tag =
     (case tag of
        JObj ps \<Rightarrow>
          (let t = \<lparr>tg_tagId = normalizeId (js_or (prop_of ps ''tagId'') (js_or (prop_of ps ''id'') (JStr tagId))),
                    tg_parentTagId = normalizeId (js_or (prop_of ps ''parentTagId'') (prop_of ps ''parentId'')),
                    tg_kind = normalizeId (js_or (prop_of ps ''kind'') (JStr ''custom'')),
                    tg_status = normalizeId (js_or (prop_of ps ''status'') (JStr ''active'')),
                    tg_enabled = (prop_of ps ''enabled'' \<noteq> JBool False),
                    tg_scopePrerequisites = unique_tags (js_or (prop_of ps ''scopePrerequisites'')
                       (js_or (prop_of ps ''scopesRequired'') (JArr [])))\<rparr>
           in if tg_tagId t = [] then None else Some t)
      | _ \<Rightarrow> None)"

definition activeTagFromStore :: "tag_lookup \<Rightarrow> string \<Rightarrow> tag_record option" where
  "activeTagFromStore getTag tagId =
     (case normalizeTagRecord (js_trim tagId) (getTag (js_trim tagId)) of
        None \<Rightarrow> None
      | Some t \<Rightarrow> if \<not> tg_enabled t \<or> tg_status t = ''archived'' then None else Some t)"

definition tagFromGetTag :: "tag_lookup \<Rightarrow> bool \<Rightarrow> string \<Rightarrow> tag_record option" where
  "tagFromGetTag getTag activeOnly tagId =
     (if activeOnly then activeTagFromStore getTag tagId
      else normalizeTagRecord (js_trim tagId) (getTag (js_trim tagId)))"

text \<open>The walk from a tag to its ancestors; \<open>None\<close> is a walk that never ends.\<close>

partial_function (option) lineage_loop ::
  "(string \<Rightarrow> tag_record option) \<Rightarrow> (tag_record \<Rightarrow> bool) \<Rightarrow> string set \<Rightarrow> tag_record list \<Rightarrow> string \<Rightarrow> tag_record list option" where
  "lineage_loop look keep seen output cursorId =
     (if cursorId = [] \<or> cursorId \<in> seen then Some output
      else case look cursorId of
             None \<Rightarrow> Some output
           | Some t \<Rightarrow> lineage_loop look keep (insert cursorId seen) (if keep t then output @ [t] else output) (tg_parentTagId t))"

definition lineageOf :: "tag_lookup \<Rightarrow> bool \<Rightarrow> bool \<Rightarrow> bool \<Rightarrow> string \<Rightarrow> tag_record list option" where
  "lineageOf getTag includeSelf activeOnly rootFirst tagId =
     map_option (\<lambda>output. if rootFirst then rev output else output)
       (lineage_loop (tagFromGetTag getTag activeOnly) (\<lambda>t. includeSelf \<or> tg_tagId t \<noteq> js_trim tagId) {} [] (js_trim tagId))"

definition ancestorsOf :: "tag_lookup \<Rightarrow> bool \<Rightarrow> bool \<Rightarrow> bool \<Rightarrow> string \<Rightarrow> string list option" where
  "ancestorsOf getTag includeSelf activeOnly rootFirst tagId =
     map_option (\<lambda>ts. map tg_tagId (filter (\<lambda>t. includeSelf \<or> tg_tagId t \<noteq> js_trim tagId) ts))
       (lineageOf getTag includeSelf activeOnly rootFirst (js_trim tagId))"

text \<open>Verdicts of the parent check: an error message, or accepted.\<close>

fun first_repeat :: "string set \<Rightarrow> string list \<Rightarrow> bool" where
  "first_repeat seen [] = False"
| "first_repeat seen (x # xs) = (x \<in> seen \<or> first_repeat (insert x seen) xs)"

definition assertParentAllowed :: "tag_lookup \<Rightarrow> string \<Rightarrow> string \<Rightarrow> (string + unit) option" where
  "assertParentAllowed getTag tagId parentTagId =
     (let t = js_trim tagId; p = js_trim parentTagId
      in if p = [] then Some (Inr ())
         else if p = t then Some (Inl ''Tag cannot parent itself.'')
         else if tagFromGetTag getTag False p = None then Some (Inl (''Unknown parent tag: '' @ p))
         else map_option (\<lambda>ts. if first_repeat {t} (map tg_tagId ts) then Inl ''Tag hierarchy cannot contain cycles.'' else Inr ())
                (lineageOf getTag True False False p))"

definition scopePrerequisitesFor :: "tag_lookup \<Rightarrow> string \<Rightarrow> string list option" where
  "scopePrerequisitesFor getTag tagId =
     map_option (\<lambda>ts. uniqueStrings (map JStr (concat (map tg_scopePrerequisites ts)))) (lineageOf getTag True False True tagId)"

fun sequence_opt :: "'a option list \<Rightarrow> 'a list option" where
  "sequence_opt [] = Some []"
| "sequence_opt (x # xs) = (case x of None \<Rightarrow> None | Some y \<Rightarrow> map_option (\<lambda>ys. y # ys) (sequence_opt xs))"

definition effectiveTagsFor :: "tag_lookup \<Rightarrow> string list \<Rightarrow> string list option" where
  "effectiveTagsFor getTag tagIds =
     map_option (\<lambda>ls. uniqueStrings (map JStr (concat ls)))
       (sequence_opt (map (ancestorsOf getTag True True False) (uniqueStrings (map JStr tagIds))))"

section \<open>Policy\<close>

record entity_ref =
  er_entityType :: string
  er_entityId :: string

record entity_tags =
  et_ref :: entity_ref
  et_directTags :: "string list"
  et_effectiveTags :: "string list"

record tag_store =
  ts_getTag :: tag_lookup
  ts_projections :: "(string \<Rightarrow> jsobj list) option"
  ts_revision :: "jsval option"

record policy_revision =
  pr_protocolVersion :: string
  pr_revision :: int
  pr_updatedAt :: string

record tag_decision =
  td_effect :: string
  td_reasonCode :: string
  td_redactedReason :: string
  td_deniedLayer :: string
  td_entityTags :: "entity_tags list"
  td_policyRevision :: policy_revision
  td_inputRevision :: int
  td_stale :: bool
  td_matchedDenyTags :: "string list"
  td_matchedAllowTags :: "string list"
  td_missingRequiredTags :: "string list"

definition td_allowed :: "tag_decision \<Rightarrow> bool" where
  "td_allowed d = (td_effect d = ''allow'')"

record tag_policy =
  tp_entityRefs :: jsval
  tp_entities :: jsval
  tp_denyTags :: jsval
  tp_deniedTags :: jsval
  tp_allowTags :: jsval
  tp_allowedTags :: jsval
  tp_requiredTags :: jsval
  tp_policyRevision :: jsval
  tp_failOnStale :: jsval
  tp_requireFreshRevision :: jsval

definition entity_of :: "jsval \<Rightarrow> entity_ref list" where
  "entity_of v =
     (case v of
        JObj ps \<Rightarrow>
          (let t = text_of (js_or (prop_of ps ''entityType'') (prop_of ps ''type''));
               i = text_of (js_or (prop_of ps ''entityId'') (prop_of ps ''id''))
           in if t \<noteq> [] \<and> i \<noteq> [] then [\<lparr>er_entityType = t, er_entityId = i\<rparr>] else [])
      | _ \<Rightarrow> [])"

definition normalizeEntityRefs :: "jsval \<Rightarrow> entity_ref list" where
  "normalizeEntityRefs v = concat (map entity_of (case v of JArr vs \<Rightarrow> vs | _ \<Rightarrow> [v]))"

definition revisionNumber :: "(string \<Rightarrow> jsnum) \<Rightarrow> jsval \<Rightarrow> int" where
  "revisionNumber num v =
     (case (case js_or v (JNum (Fin 0)) of JNum n \<Rightarrow> n | JStr s \<Rightarrow> num s | JBool b \<Rightarrow> Fin (if b then 1 else 0)
              | JArr vs \<Rightarrow> num (js_string (JArr vs)) | _ \<Rightarrow> NaN) of
        Fin i \<Rightarrow> if 0 < i then i else 0
      | _ \<Rightarrow> 0)"

definition hasUniversalTagPolicyRules :: "tag_policy \<Rightarrow> bool" where
  "hasUniversalTagPolicyRules p =
     (normalizeEntityRefs (js_or (tp_entityRefs p) (tp_entities p)) \<noteq> [] \<or> unique_tags (js_or (tp_denyTags p) (tp_deniedTags p)) \<noteq> []
      \<or> unique_tags (js_or (tp_allowTags p) (tp_allowedTags p)) \<noteq> [] \<or> unique_tags (tp_requiredTags p) \<noteq> []
      \<or> tp_requireFreshRevision p = JBool True \<or> tp_failOnStale p = JBool True)"

definition projectionsForEntity :: "tag_store \<Rightarrow> entity_ref \<Rightarrow> jsobj list" where
  "projectionsForEntity store e =
     (case ts_projections store of
        None \<Rightarrow> []
      | Some f \<Rightarrow> filter (\<lambda>p. raw_text (prop_of p ''entityId'') = er_entityId e) (f (er_entityType e)))"

definition entity_tags_of :: "tag_store \<Rightarrow> entity_ref \<Rightarrow> entity_tags option" where
  "entity_tags_of store e =
     (let direct = uniqueStrings (map (\<lambda>p. prop_of p ''tagId'') (projectionsForEntity store e))
      in map_option (\<lambda>es. \<lparr>et_ref = e, et_directTags = direct, et_effectiveTags = es\<rparr>) (effectiveTagsFor (ts_getTag store) direct))"

definition collectEntityTags :: "tag_store \<Rightarrow> entity_ref list \<Rightarrow> entity_tags list option" where
  "collectEntityTags store refs = sequence_opt (map (entity_tags_of store) refs)"

definition policyRevisionFromStore :: "(string \<Rightarrow> jsnum) \<Rightarrow> tag_store \<Rightarrow> policy_revision" where
  "policyRevisionFromStore num store =
     (let r = (case ts_revision store of Some (JObj ps) \<Rightarrow> ps | _ \<Rightarrow> [])
      in \<lparr>pr_protocolVersion = raw_text (prop_of r ''protocolVersion''), pr_revision = revisionNumber num (prop_of r ''revision''),
          pr_updatedAt = raw_text (prop_of r ''updatedAt'')\<rparr>)"

definition policyRevisionValue :: "jsval \<Rightarrow> jsval" where
  "policyRevisionValue v = (case v of JObj ps \<Rightarrow> prop_of ps ''revision'' | _ \<Rightarrow> v)"

definition both_tags :: "jsval \<Rightarrow> jsval \<Rightarrow> string list" where
  "both_tags a b = uniqueStrings (map JStr (unique_tags a @ unique_tags b))"

definition policy_refs :: "tag_policy \<Rightarrow> entity_ref list" where
  "policy_refs p = normalizeEntityRefs (case tp_entityRefs p of JArr (v # vs) \<Rightarrow> JArr (v # vs) | _ \<Rightarrow> tp_entities p)"

definition evaluateUniversalTagPolicy :: "(string \<Rightarrow> jsnum) \<Rightarrow> tag_store option \<Rightarrow> tag_policy \<Rightarrow> tag_decision option" where
  "evaluateUniversalTagPolicy num tagStore p =
     (case tagStore of
        None \<Rightarrow> Some \<lparr>td_effect = ''deny'', td_reasonCode = ''tag_store_unavailable'',
                  td_redactedReason = ''Tag policy store is unavailable.'', td_deniedLayer = ''tag_policy'', td_entityTags = [],
                  td_policyRevision = \<lparr>pr_protocolVersion = [], pr_revision = 0, pr_updatedAt = []\<rparr>, td_inputRevision = 0,
                  td_stale = True, td_matchedDenyTags = [], td_matchedAllowTags = [], td_missingRequiredTags = []\<rparr>
      | Some store \<Rightarrow>
          map_option (\<lambda>entityTags.
            let current = policyRevisionFromStore num store;
                inputRevision = revisionNumber num (policyRevisionValue (tp_policyRevision p));
                stale = (0 < inputRevision \<and> inputRevision < pr_revision current);
                effective = concat (map et_effectiveTags entityTags);
                allow = both_tags (tp_allowTags p) (tp_allowedTags p);
                denied = filter (\<lambda>t. t \<in> set effective) (both_tags (tp_denyTags p) (tp_deniedTags p));
                matched = filter (\<lambda>t. t \<in> set effective) allow;
                missing = filter (\<lambda>t. t \<notin> set effective) (unique_tags (tp_requiredTags p));
                decision = (\<lambda>effect code reason layer.
                  \<lparr>td_effect = effect, td_reasonCode = code, td_redactedReason = reason, td_deniedLayer = layer, td_entityTags = entityTags,
                   td_policyRevision = current, td_inputRevision = inputRevision, td_stale = stale, td_matchedDenyTags = denied,
                   td_matchedAllowTags = matched, td_missingRequiredTags = missing\<rparr>)
            in if denied \<noteq> []
               then decision ''deny'' ''tag_policy_denied'' ''A deny tag matched the governed entity.'' ''tag_policy''
               else if (truthy (tp_failOnStale p) \<or> truthy (tp_requireFreshRevision p)) \<and> stale
               then decision ''deny'' ''tag_policy_stale'' ''Tag policy revision is stale.'' ''tag_policy''
               else if missing \<noteq> []
               then decision ''deny'' ''tag_policy_required_tag_missing'' ''A required tag is missing from the governed entity.'' ''tag_policy''
               else if allow \<noteq> [] \<and> matched = []
               then decision ''deny'' ''tag_policy_allow_tag_missing'' ''No allow tag matched the governed entity.'' ''tag_policy''
               else decision ''allow'' ''tag_policy_allowed'' ''Tag policy allowed the governed entity.'' [])
          (collectEntityTags store (policy_refs p)))"


section \<open>The walk ends\<close>

text \<open>The specification of the walk: the records met on the way up, until an id that is empty, met before or unknown.\<close>

inductive walk :: "(string \<Rightarrow> tag_record option) \<Rightarrow> string set \<Rightarrow> string \<Rightarrow> tag_record list \<Rightarrow> bool" for look where
  walk_stop: "c = [] \<or> c \<in> seen \<or> look c = None \<Longrightarrow> walk look seen c []"
| walk_step: "c \<noteq> [] \<Longrightarrow> c \<notin> seen \<Longrightarrow> look c = Some t \<Longrightarrow> walk look (insert c seen) (tg_parentTagId t) ts \<Longrightarrow> walk look seen c (t # ts)"

definition known :: "(string \<Rightarrow> tag_record option) \<Rightarrow> string set" where
  "known look = {k. js_trim k = k \<and> look k \<noteq> None}"

lemma record_normal: "normalizeTagRecord k v = Some t \<Longrightarrow> js_trim (tg_parentTagId t) = tg_parentTagId t \<and> tg_tagId t \<noteq> [] \<and> js_trim (tg_tagId t) = tg_tagId t"
  by (auto simp: normalizeTagRecord_def normalizeId_def text_of_def Let_def split: jsval.splits if_splits)

lemma look_normal: "tagFromGetTag getTag a k = Some t \<Longrightarrow> js_trim (tg_parentTagId t) = tg_parentTagId t \<and> tg_tagId t \<noteq> []"
  by (auto simp: tagFromGetTag_def activeTagFromStore_def dest: record_normal split: if_splits option.splits)

lemma active_known: "known (tagFromGetTag getTag a) \<subseteq> known (tagFromGetTag getTag False)"
  by (auto simp: known_def tagFromGetTag_def activeTagFromStore_def split: option.splits)

lemma loop_walks:
  assumes fin: "finite (known look)" and par: "\<And>k t. look k = Some t \<Longrightarrow> js_trim (tg_parentTagId t) = tg_parentTagId t"
  shows "js_trim c = c \<Longrightarrow> \<exists>ts. lineage_loop look keep seen acc c = Some (acc @ filter keep ts) \<and> walk look seen c ts
           \<and> length ts \<le> card (known look - seen)"
proof (induction "card (known look - seen)" arbitrary: seen c acc rule: less_induct)
  case less
  show ?case
  proof (cases "c = [] \<or> c \<in> seen \<or> look c = None")
    case True
    then have "lineage_loop look keep seen acc c = Some (acc @ filter keep [])"
      by (subst lineage_loop.simps) auto
    with True walk_stop show ?thesis by (metis le0 list.size(3))
  next
    case False
    then obtain t where c: "c \<noteq> []" "c \<notin> seen" "look c = Some t" by auto
    with less.prems have k: "c \<in> known look - seen" by (simp add: known_def)
    have e: "known look - insert c seen = (known look - seen) - {c}" by auto
    have s: "Suc (card (known look - insert c seen)) = card (known look - seen)"
      using k fin card_Suc_Diff1 [of "known look - seen" c] unfolding e by simp
    then have "card (known look - insert c seen) < card (known look - seen)" by simp
    from less.hyps [OF this par [OF c(3)], of "if keep t then acc @ [t] else acc"] obtain ts
      where ts: "lineage_loop look keep (insert c seen) (if keep t then acc @ [t] else acc) (tg_parentTagId t)
            = Some ((if keep t then acc @ [t] else acc) @ filter keep ts)"
        "walk look (insert c seen) (tg_parentTagId t) ts" "length ts \<le> card (known look - insert c seen)" by blast
    have "lineage_loop look keep seen acc c = Some (acc @ filter keep (t # ts))"
      by (subst lineage_loop.simps) (use c ts(1) in auto)
    moreover have "walk look seen c (t # ts)" using c ts(2) by (intro walk_step)
    moreover have "length (t # ts) \<le> card (known look - seen)" using ts(3) s by simp
    ultimately show ?thesis by blast
  qed
qed

lemma lineage_walks:
  assumes "finite (known (tagFromGetTag getTag False))"
  shows "\<exists>ts. lineageOf getTag s a r tagId = Some ((if r then rev else id) (filter (\<lambda>t. s \<or> tg_tagId t \<noteq> js_trim tagId) ts))
    \<and> walk (tagFromGetTag getTag a) {} (js_trim tagId) ts \<and> length ts \<le> card (known (tagFromGetTag getTag False))"
proof -
  have f: "finite (known (tagFromGetTag getTag a))" using assms active_known by (rule rev_finite_subset)
  from loop_walks [OF f, of "js_trim tagId" "\<lambda>t. s \<or> tg_tagId t \<noteq> js_trim tagId" "{}" "[]"] look_normal obtain ts
    where "lineage_loop (tagFromGetTag getTag a) (\<lambda>t. s \<or> tg_tagId t \<noteq> js_trim tagId) {} [] (js_trim tagId)
        = Some (filter (\<lambda>t. s \<or> tg_tagId t \<noteq> js_trim tagId) ts)"
      "walk (tagFromGetTag getTag a) {} (js_trim tagId) ts" "length ts \<le> card (known (tagFromGetTag getTag a))" by force
  moreover have "card (known (tagFromGetTag getTag a)) \<le> card (known (tagFromGetTag getTag False))"
    using assms active_known by (rule card_mono)
  ultimately show ?thesis by (intro exI [of _ ts]) (auto simp: lineageOf_def)
qed

lemma sequence_total: "(\<And>x. x \<in> set xs \<Longrightarrow> x \<noteq> None) \<Longrightarrow> sequence_opt xs \<noteq> None"
  by (induction xs) (auto split: option.splits)

lemma ancestors_total: "finite (known (tagFromGetTag getTag False)) \<Longrightarrow> ancestorsOf getTag s a r tagId \<noteq> None"
  using lineage_walks [of getTag s a r "js_trim tagId"] by (auto simp: ancestorsOf_def)

lemma entity_tags_total: "finite (known (tagFromGetTag (ts_getTag store) False)) \<Longrightarrow> entity_tags_of store e \<noteq> None"
proof -
  assume f: "finite (known (tagFromGetTag (ts_getTag store) False))"
  have "effectiveTagsFor (ts_getTag store) ids \<noteq> None" for ids
  proof -
    have "sequence_opt (map (ancestorsOf (ts_getTag store) True True False) (uniqueStrings (map JStr ids))) \<noteq> None"
      by (rule sequence_total) (use ancestors_total [OF f] in auto)
    then show ?thesis by (auto simp: effectiveTagsFor_def)
  qed
  then show ?thesis by (simp add: entity_tags_of_def Let_def)
qed

text \<open>C24. On a store that knows finitely many tags every walk and every evaluation of a policy returns, also when the
  parents form a cycle, and a walk meets at most as many tags as the store knows.\<close>

theorem tag_policy_returns:
  assumes "finite (known (tagFromGetTag (ts_getTag store) False))"
  shows "(\<exists>ts. lineageOf (ts_getTag store) s a r tagId = Some ts \<and> length ts \<le> card (known (tagFromGetTag (ts_getTag store) False)))
    \<and> (\<exists>d. evaluateUniversalTagPolicy num (Some store) p = Some d)"
proof
  from lineage_walks [OF assms, of s a r tagId] obtain ts
    where "lineageOf (ts_getTag store) s a r tagId = Some ((if r then rev else id) (filter (\<lambda>t. s \<or> tg_tagId t \<noteq> js_trim tagId) ts))"
      "length ts \<le> card (known (tagFromGetTag (ts_getTag store) False))" by blast
  then show "\<exists>ts. lineageOf (ts_getTag store) s a r tagId = Some ts \<and> length ts \<le> card (known (tagFromGetTag (ts_getTag store) False))"
    by (auto intro: order_trans [OF length_filter_le])
  have "collectEntityTags store (policy_refs p) \<noteq> None"
    unfolding collectEntityTags_def by (rule sequence_total) (use entity_tags_total [OF assms] in auto)
  then show "\<exists>d. evaluateUniversalTagPolicy num (Some store) p = Some d"
    unfolding evaluateUniversalTagPolicy_def option.case by (auto simp only: option.map)
qed

section \<open>The hierarchy stays a forest\<close>

definition parent_edges :: "tag_lookup \<Rightarrow> (string \<times> string) set" where
  "parent_edges getTag =
     {(c, p). js_trim c = c \<and> (\<exists>t. tagFromGetTag getTag False c = Some t \<and> p = tg_parentTagId t) \<and> p \<noteq> []}"

definition hierarchy_ok :: "tag_lookup \<Rightarrow> bool" where
  "hierarchy_ok getTag =
     (finite (known (tagFromGetTag getTag False))
      \<and> (\<forall>k t. js_trim k = k \<longrightarrow> tagFromGetTag getTag False k = Some t \<longrightarrow> tg_tagId t = k)
      \<and> snd ` parent_edges getTag \<subseteq> known (tagFromGetTag getTag False)
      \<and> acyclic (parent_edges getTag))"

lemma walk_meets_ancestors:
  assumes w: "walk (tagFromGetTag getTag False) seen c ts" and ok: "hierarchy_ok getTag"
  shows "js_trim c = c \<Longrightarrow> \<forall>s \<in> seen. (c, s) \<notin> (parent_edges getTag)\<^sup>* \<Longrightarrow> (c, x) \<in> (parent_edges getTag)\<^sup>*
    \<Longrightarrow> x \<in> known (tagFromGetTag getTag False) \<Longrightarrow> x \<in> tg_tagId ` set ts"
  using w
proof (induction rule: walk.induct)
  case (walk_stop c seen)
  have k: "\<And>k t. js_trim k = k \<Longrightarrow> tagFromGetTag getTag False k = Some t \<Longrightarrow> tg_tagId t = k" using ok by (simp add: hierarchy_ok_def)
  have "tagFromGetTag getTag False [] = None"
    using k [of "[]"] look_normal [of getTag False "[]"] by (cases "tagFromGetTag getTag False []") auto
  then have "c \<in> seen \<or> tagFromGetTag getTag False c = None" using walk_stop.hyps by auto
  then have n: "tagFromGetTag getTag False c = None" using walk_stop.prems(2) by auto
  from walk_stop.prems(3) show ?case
  proof (cases rule: converse_rtranclE)
    case base
    then show ?thesis using n walk_stop.prems(4) by (simp add: known_def)
  next
    case (step y)
    then show ?thesis using n by (simp add: parent_edges_def)
  qed
next
  case (walk_step c seen t ts)
  from walk_step.prems(3) show ?case
  proof (cases rule: converse_rtranclE)
    case base
    then show ?thesis using ok walk_step.hyps(3) walk_step.prems(1) by (auto simp: hierarchy_ok_def)
  next
    case (step y)
    then have y: "y = tg_parentTagId t" "(c, y) \<in> parent_edges getTag" using walk_step.hyps(3) by (auto simp: parent_edges_def)
    have "\<forall>s \<in> insert c seen. (tg_parentTagId t, s) \<notin> (parent_edges getTag)\<^sup>*"
    proof
      fix s assume "s \<in> insert c seen"
      then consider "s = c" | "s \<in> seen" by auto
      then show "(tg_parentTagId t, s) \<notin> (parent_edges getTag)\<^sup>*"
      proof cases
        case 1
        show ?thesis
        proof
          assume "(tg_parentTagId t, s) \<in> (parent_edges getTag)\<^sup>*"
          with y 1 have "(c, c) \<in> (parent_edges getTag)\<^sup>+" by (metis rtrancl_into_trancl2)
          with ok show False by (auto simp: hierarchy_ok_def acyclic_def)
        qed
      next
        case 2
        then show ?thesis using walk_step.prems(2) y by (metis converse_rtrancl_into_rtrancl)
      qed
    qed
    moreover have "js_trim (tg_parentTagId t) = tg_parentTagId t" using look_normal [OF walk_step.hyps(3)] by simp
    ultimately show ?thesis using walk_step.IH step y(1) walk_step.prems(4) by auto
  qed
qed

lemma first_repeat_mem: "s \<in> seen \<Longrightarrow> s \<in> set xs \<Longrightarrow> first_repeat seen xs"
  by (induction xs arbitrary: seen) auto

text \<open>A parent that the check accepts is known and has the tag not among its ancestors.\<close>

lemma accepted_parent:
  assumes ok: "hierarchy_ok getTag" and a: "assertParentAllowed getTag tagId parentTagId = Some (Inr ())"
    and t: "js_trim tagId = tagId" and n: "js_trim parentTagId \<noteq> []"
  shows "js_trim parentTagId \<in> known (tagFromGetTag getTag False)" "(js_trim parentTagId, tagId) \<notin> (parent_edges getTag)\<^sup>*"
proof -
  let ?p = "js_trim parentTagId" and ?l = "tagFromGetTag getTag False"
  from a n t have 1: "?p \<noteq> tagId" and 2: "?l ?p \<noteq> None"
    by (auto simp: assertParentAllowed_def Let_def split: if_splits)
  from 2 show "?p \<in> known ?l" by (simp add: known_def)
  have fin: "finite (known ?l)" and closed: "snd ` parent_edges getTag \<subseteq> known ?l" using ok by (auto simp: hierarchy_ok_def)
  from lineage_walks [OF fin, of True False False ?p] obtain ts
    where ts: "lineageOf getTag True False False ?p = Some ts" "walk ?l {} ?p ts" by auto
  from a n 1 2 ts(1) t have 3: "\<not> first_repeat {tagId} (map tg_tagId ts)"
    by (auto simp: assertParentAllowed_def Let_def split: if_splits)
  show "(?p, tagId) \<notin> (parent_edges getTag)\<^sup>*"
  proof
    assume r: "(?p, tagId) \<in> (parent_edges getTag)\<^sup>*"
    with 1 obtain y where "(y, tagId) \<in> parent_edges getTag" by (metis rtranclE)
    with closed have "tagId \<in> known ?l" by force
    with walk_meets_ancestors [OF ts(2) ok _ _ r] have "tagId \<in> set (map tg_tagId ts)" by simp
    with 3 show False using first_repeat_mem by blast
  qed
qed

text \<open>Storing one record changes the edges of its tag only.\<close>

lemma stored_edges:
  assumes same: "\<And>k. js_trim k = k \<Longrightarrow> k \<noteq> tagId \<Longrightarrow> tagFromGetTag getTag' False k = tagFromGetTag getTag False k"
    and new: "tagFromGetTag getTag' False tagId = Some r"
  shows "parent_edges getTag' \<subseteq> (if tg_parentTagId r = [] then {} else {(tagId, tg_parentTagId r)}) \<union> parent_edges getTag"
proof
  fix e assume "e \<in> parent_edges getTag'"
  then obtain c u where e: "e = (c, tg_parentTagId u)" "js_trim c = c" "tagFromGetTag getTag' False c = Some u" "tg_parentTagId u \<noteq> []"
    by (auto simp: parent_edges_def)
  show "e \<in> (if tg_parentTagId r = [] then {} else {(tagId, tg_parentTagId r)}) \<union> parent_edges getTag"
    using e new same [of c] by (cases "c = tagId") (auto simp: parent_edges_def)
qed

text \<open>C25. Storing a tag under a parent that the check accepted keeps the hierarchy finite, closed and free of cycles.\<close>

theorem parent_check_keeps_hierarchy:
  assumes ok: "hierarchy_ok getTag" and a: "assertParentAllowed getTag tagId parentTagId = Some (Inr ())"
    and t: "js_trim tagId = tagId"
    and others: "\<And>k. k \<noteq> tagId \<Longrightarrow> getTag' k = getTag k"
    and new: "tagFromGetTag getTag' False tagId = Some r" "tg_tagId r = tagId" "tg_parentTagId r = js_trim parentTagId"
  shows "hierarchy_ok getTag'"
proof -
  let ?p = "js_trim parentTagId" and ?l = "tagFromGetTag getTag False" and ?l' = "tagFromGetTag getTag' False"
  let ?new = "if ?p = [] then {} else {(tagId, ?p)}"
  have fin: "finite (known ?l)" and key: "\<And>k t. js_trim k = k \<Longrightarrow> ?l k = Some t \<Longrightarrow> tg_tagId t = k"
    and closed: "snd ` parent_edges getTag \<subseteq> known ?l" and acyc: "acyclic (parent_edges getTag)"
    using ok by (auto simp: hierarchy_ok_def)
  have same: "?l' k = ?l k" if "js_trim k = k" "k \<noteq> tagId" for k
    using that others by (simp add: tagFromGetTag_def)
  have kn: "known ?l' \<subseteq> insert tagId (known ?l)" using same by (auto simp: known_def)
  have kept: "k \<in> known ?l'" if "k \<in> known ?l" for k
    using that same [of k] new(1) t by (cases "k = tagId") (auto simp: known_def)
  have edges: "parent_edges getTag' \<subseteq> ?new \<union> parent_edges getTag" using stored_edges [OF same new(1)] unfolding new(3) .
  note p = accepted_parent [OF ok a t]
  have "acyclic (?new \<union> parent_edges getTag)" using acyc p by (auto simp: acyclic_insert)
  then have "acyclic (parent_edges getTag')" using edges by (rule acyclic_subset)
  moreover have "snd ` parent_edges getTag' \<subseteq> known ?l'"
  proof
    fix q assume "q \<in> snd ` parent_edges getTag'"
    then have "q \<in> snd ` parent_edges getTag \<or> ?p \<noteq> [] \<and> q = ?p" using edges by (auto split: if_splits)
    with closed p(1) kept show "q \<in> known ?l'" by auto
  qed
  moreover have "finite (known ?l')" using kn fin by (meson finite_insert finite_subset)
  moreover have "\<forall>k t. js_trim k = k \<longrightarrow> ?l' k = Some t \<longrightarrow> tg_tagId t = k"
    using key same new by (metis option.inject)
  ultimately show ?thesis by (simp add: hierarchy_ok_def)
qed


section \<open>The verdict\<close>

text \<open>An entity is allowed exactly when none of the deny tags is among its tags and their ancestors, the policy is
  not stale where that matters, every required tag is there, and one of the allow tags is if there are any.\<close>

lemma tag_policy_allows_iff:
  assumes "evaluateUniversalTagPolicy num (Some store) p = Some d"
    and "effective = (\<Union>e \<in> set (td_entityTags d). set (et_effectiveTags e))"
  shows "td_allowed d \<longleftrightarrow>
    set (both_tags (tp_denyTags p) (tp_deniedTags p)) \<inter> effective = {}
    \<and> (truthy (tp_failOnStale p) \<or> truthy (tp_requireFreshRevision p) \<longrightarrow> \<not> td_stale d)
    \<and> set (unique_tags (tp_requiredTags p)) \<subseteq> effective
    \<and> (both_tags (tp_allowTags p) (tp_allowedTags p) = [] \<or> set (both_tags (tp_allowTags p) (tp_allowedTags p)) \<inter> effective \<noteq> {})"
proof -
  from assms(1) obtain tags where c: "collectEntityTags store (policy_refs p) = Some tags"
    by (auto simp only: evaluateUniversalTagPolicy_def option.case map_option_eq_Some)
  let ?e = "set (concat (map et_effectiveTags tags))"
  let ?denied = "filter (\<lambda>t. t \<in> ?e) (both_tags (tp_denyTags p) (tp_deniedTags p))"
  let ?allow = "both_tags (tp_allowTags p) (tp_allowedTags p)"
  let ?missing = "filter (\<lambda>t. t \<notin> ?e) (unique_tags (tp_requiredTags p))"
  have "td_entityTags d = tags \<and> (td_allowed d \<longleftrightarrow>
      ?denied = [] \<and> \<not> ((truthy (tp_failOnStale p) \<or> truthy (tp_requireFreshRevision p)) \<and> td_stale d) \<and> ?missing = []
      \<and> \<not> (?allow \<noteq> [] \<and> filter (\<lambda>t. t \<in> ?e) ?allow = []))"
    using assms(1) unfolding evaluateUniversalTagPolicy_def option.case c option.map Let_def option.inject
    by (elim subst) (simp add: td_allowed_def del: set_concat set_map filter_False filter_True)
  moreover from this assms(2) have "effective = ?e" by simp
  ultimately show ?thesis by (auto simp only: filter_empty_conv)
qed

text \<open>An archived or disabled tag has no effective tags at all, so neither it nor its ancestors can deny.\<close>

lemma archived_tag_is_invisible: "activeTagFromStore getTag k = None \<Longrightarrow> ancestorsOf getTag True True r k = Some []"
proof -
  assume a: "activeTagFromStore getTag k = None"
  have l: "activeTagFromStore getTag (js_trim k) = activeTagFromStore getTag k" by (simp add: activeTagFromStore_def)
  have "lineage_loop (tagFromGetTag getTag True) keep {} [] (js_trim k) = Some []" for keep
    by (subst lineage_loop.simps) (simp add: tagFromGetTag_def l a)
  then show ?thesis by (simp add: ancestorsOf_def lineageOf_def)
qed

section \<open>Examples\<close>

definition two_tags :: "string \<Rightarrow> tag_lookup" where
  "two_tags parent k =
     (if k = ''a'' then JObj [(''tagId'', JStr ''a''), (''parentTagId'', JStr parent)]
      else if k = ''b'' then JObj [(''tagId'', JStr ''b''), (''parentTagId'', JStr ''a'')] else JNull)"

lemma two_tags_known: "known (tagFromGetTag (two_tags x) False) \<subseteq> {''a'', ''b''}"
  by (auto simp: known_def tagFromGetTag_def two_tags_def normalizeTagRecord_def split: if_splits)

lemma two_tags_finite: "finite (known (tagFromGetTag (two_tags x) False))"
  using two_tags_known by (rule finite_subset) simp

lemma demo_tag_trims: "js_trim ''a'' = ''a''" "js_trim ''b'' = ''b''" "js_trim ''custom'' = ''custom''" "js_trim ''active'' = ''active''"
  by (rule js_trim_plain, simp add: plain_text_def)+

theorem tag_policy_returns_witness:
  "\<exists>ts. lineageOf (two_tags ''b'') True True False ''a'' = Some ts \<and> length ts \<le> card (known (tagFromGetTag (two_tags ''b'') False))"
proof -
  let ?store = "\<lparr>ts_getTag = two_tags ''b'', ts_projections = None, ts_revision = None\<rparr>"
  have "finite (known (tagFromGetTag (ts_getTag ?store) False))" using two_tags_finite by simp
  from tag_policy_returns [OF this, of True True False "''a''"] show ?thesis by simp
qed

definition one_tag :: tag_lookup where
  "one_tag k = (if k = ''a'' then JObj [(''tagId'', JStr ''a'')] else JNull)"

lemma one_tag_look: "js_trim k = k \<Longrightarrow> tagFromGetTag one_tag False k =
    (if k = ''a'' then Some \<lparr>tg_tagId = ''a'', tg_parentTagId = [], tg_kind = ''custom'', tg_status = ''active'', tg_enabled = True,
       tg_scopePrerequisites = []\<rparr> else None)"
  by (simp add: tagFromGetTag_def one_tag_def normalizeTagRecord_def normalizeId_def demo_tag_trims prop_of_def js_or_def Let_def
      unique_tags_def uniqueStrings_def)

lemma two_tags_look: "tagFromGetTag (two_tags []) False ''b'' =
    Some \<lparr>tg_tagId = ''b'', tg_parentTagId = ''a'', tg_kind = ''custom'', tg_status = ''active'', tg_enabled = True, tg_scopePrerequisites = []\<rparr>"
  by (simp add: tagFromGetTag_def two_tags_def normalizeTagRecord_def normalizeId_def demo_tag_trims prop_of_def js_or_def Let_def
      unique_tags_def uniqueStrings_def)

theorem parent_check_keeps_hierarchy_witness: "hierarchy_ok (\<lambda>k. if k = ''b'' then two_tags [] ''b'' else one_tag k)"
proof -
  have e: "parent_edges one_tag = {}" by (auto simp: parent_edges_def one_tag_look split: if_splits)
  have k: "known (tagFromGetTag one_tag False) = {''a''}" by (auto simp: known_def one_tag_look demo_tag_trims split: if_splits)
  have ok: "hierarchy_ok one_tag" by (simp add: hierarchy_ok_def e k one_tag_look acyclic_def)
  have "assertParentAllowed one_tag ''b'' ''a'' = Some (Inr ())"
    by (simp add: assertParentAllowed_def demo_tag_trims one_tag_look lineageOf_def lineage_loop.simps)
  moreover have "tagFromGetTag (\<lambda>k. if k = ''b'' then two_tags [] ''b'' else one_tag k) False ''b'' = tagFromGetTag (two_tags []) False ''b''"
    by (simp add: tagFromGetTag_def demo_tag_trims)
  ultimately show ?thesis
    by (intro parent_check_keeps_hierarchy [where parentTagId = "''a''", OF ok _ demo_tag_trims(2) _ trans [OF _ two_tags_look]])
      (simp_all add: demo_tag_trims)
qed

definition deny_policy :: tag_policy where
  "deny_policy = \<lparr>tp_entityRefs = JObj [(''type'', JStr ''doc''), (''id'', JStr ''x'')], tp_entities = JObj [(''type'', JStr ''doc''), (''id'', JStr ''x'')],
     tp_denyTags = JStr ''a'', tp_deniedTags = JUndef, tp_allowTags = JUndef, tp_allowedTags = JUndef, tp_requiredTags = JUndef,
     tp_policyRevision = JUndef, tp_failOnStale = JBool False, tp_requireFreshRevision = JBool False\<rparr>"

definition deny_store :: tag_store where
  "deny_store = \<lparr>ts_getTag = two_tags [], ts_projections = Some (\<lambda>t. [[(''entityId'', JStr ''x''), (''tagId'', JStr ''b'')]]), ts_revision = None\<rparr>"

lemma demo_lineage: "ancestorsOf (two_tags []) True True False ''b'' = Some [''b'', ''a'']"
  by (simp add: ancestorsOf_def lineageOf_def lineage_loop.simps tagFromGetTag_def activeTagFromStore_def two_tags_def normalizeTagRecord_def
      normalizeId_def demo_tag_trims prop_of_def js_or_def Let_def unique_tags_def uniqueStrings_def)

lemma tag_policy_allows_iff_witness:
  "\<exists>d. evaluateUniversalTagPolicy (\<lambda>s. NaN) (Some deny_store) deny_policy = Some d \<and> \<not> td_allowed d"
proof -
  have u: "uniqueStrings [JStr ''b''] = [''b'']" "uniqueStrings [JStr ''b'', JStr ''a''] = [''b'', ''a'']" "unique_tags (JStr ''a'') = [''a'']"
    by (simp_all add: uniqueStrings_def unique_tags_def demo_tag_trims)
  have r: "policy_refs deny_policy = [\<lparr>er_entityType = ''doc'', er_entityId = ''x''\<rparr>]" by code_simp
  have e: "effectiveTagsFor (two_tags []) [''b''] = Some [''b'', ''a'']" by (simp add: effectiveTagsFor_def u demo_lineage)
  have c: "collectEntityTags deny_store (policy_refs deny_policy) =
      Some [\<lparr>et_ref = \<lparr>er_entityType = ''doc'', er_entityId = ''x''\<rparr>, et_directTags = [''b''], et_effectiveTags = [''b'', ''a'']\<rparr>]"
    by (simp add: collectEntityTags_def r entity_tags_of_def projectionsForEntity_def deny_store_def prop_of_def u e Let_def)
  then obtain d where d: "evaluateUniversalTagPolicy (\<lambda>s. NaN) (Some deny_store) deny_policy = Some d" "''a'' \<in> (\<Union>e \<in> set (td_entityTags d). set (et_effectiveTags e))"
    by (auto simp: evaluateUniversalTagPolicy_def Let_def)
  have "''a'' \<in> set (both_tags (tp_denyTags deny_policy) (tp_deniedTags deny_policy))"
    by (simp add: both_tags_def deny_policy_def u set_uniqueStrings demo_tag_trims)
  with tag_policy_allows_iff [OF d(1) refl] d(2) have "\<not> td_allowed d" by blast
  with d(1) show ?thesis by blast
qed

end
