(* ===== verification/Governance.thy ===== *)
theory Governance
  imports AuthDecision "HOL-Library.List_Lexorder" "HOL-Library.Char_ord"
begin

text \<open>
  The governance store
  (\<open>packages/foundation/src/security/authorization/authorization-governance-store.ts\<close> and
  \<open>authorization-governance-store-support.ts\<close>): policies, the request that governance sees, approvals with their table, and
  the verdict of the four layers.  The tables of user policies and approvals are lists, the latter in the order of the
  query; roles, teams, departments, groups and bindings come from the tag store, a port whose lookups are fields.
\<close>

section \<open>Texts\<close>

definition unique_list :: "jsval \<Rightarrow> string list" where
  "unique_list v = uniqueStrings (list_of v)"

definition star :: "string \<Rightarrow> string" where
  "star s = (if s = [] then ''*'' else s)"

definition id_char :: "char \<Rightarrow> bool" where
  "id_char c = (is_letter c \<or> is_digit c \<or> c \<in> {CHR ''_'', CHR ''.'', CHR '':'', CHR ''-''})"

fun squeeze :: "bool \<Rightarrow> string \<Rightarrow> string" where
  "squeeze b [] = []"
| "squeeze b (c # cs) =
     (if id_char c then c # squeeze False cs else if b then squeeze True cs else CHR ''-'' # squeeze True cs)"

definition normalizeId :: "auth_world \<Rightarrow> jsval \<Rightarrow> string \<Rightarrow> string" where
  "normalizeId w v fallbackPrefix =
     (if text_of v \<noteq> [] then take 160 (squeeze False (text_of v)) else aw_id w fallbackPrefix)"

section \<open>Policies\<close>

record policy_entry =
  pe_resourceType :: string
  pe_resourceId :: string
  pe_actions :: "string list"
  pe_targetProviders :: "string list"
  pe_label :: string

definition policy_entry_of :: "jsval \<Rightarrow> policy_entry" where
  "policy_entry_of v =
     (let e = or_empty (objectOrNull v); r = or_empty (objectOrNull (prop_of e ''resource''))
      in \<lparr>pe_resourceType = star (text_of (js_or (prop_of e ''resourceType'') (js_or (prop_of e ''type'')
            (js_or (prop_of r ''type'') (JStr ''*''))))),
          pe_resourceId = star (text_of (js_or (prop_of e ''resourceId'') (js_or (prop_of e ''id'') (js_or (prop_of e ''repoId'')
            (js_or (prop_of e ''repositoryRef'') (js_or (prop_of r ''id'') (JStr ''*''))))))),
          pe_actions = unique_list (js_or (prop_of e ''actions'') (js_or (prop_of e ''action'') (prop_of e ''scopes''))),
          pe_targetProviders = unique_list (js_or (prop_of e ''targetProviders'') (js_or (prop_of e ''providers'')
            (js_or (prop_of e ''provider'') (prop_of e ''targets'')))),
          pe_label = text_of (prop_of e ''label'')\<rparr>)"


section \<open>The request that is governed\<close>

record gov_request =
  rq_operationId :: string
  rq_resourceType :: string
  rq_resourceId :: string
  rq_targetProvider :: string
  rq_action :: string
  rq_scopeAction :: string
  rq_discoveryLike :: bool
  rq_agentId :: string
  rq_boundUserId :: string
  rq_teamIds :: "string list"
  rq_departmentIds :: "string list"
  rq_applies :: bool
  rq_writeLike :: bool

definition includes_any :: "string list \<Rightarrow> string \<Rightarrow> bool" where
  "includes_any ws s = list_ex (str_includes s) ws"

definition inferScopeAction :: "string \<Rightarrow> string \<Rightarrow> string" where
  "inferScopeAction operation action =
     (if starts_with action ''repo:'' then action
      else if str_includes (js_lower operation) ''approve'' then ''repo:approve''
      else if includes_any [''review.comment'', ''review.requestChanges''] operation then ''repo:review''
      else if includes_any [''upload'', ''git_upload'', ''submit'', ''maintain'', ''abandon'', ''rebase'', ''merge'', ''revert''] operation
      then ''repo:maintain''
      else if includes_any [''prepare'', ''write'', ''create'', ''update'', ''delete'', ''push'', ''link''] operation then ''repo:write''
      else ''repo:read'')"

definition write_words :: "string list" where
  "write_words = [''prepare'', ''upload'', ''write'', ''create'', ''update'', ''delete'', ''move'', ''push'', ''approve'', ''requestChanges'',
     ''comment'', ''submit'', ''maintain'', ''rebase'', ''merge'', ''abandon'', ''restore'', ''review'']"

definition word_char :: "char \<Rightarrow> bool" where
  "word_char c = (is_letter c \<or> is_digit c \<or> c = CHR ''_'')"

text \<open>A point, one of the words and the end of a word.\<close>

definition word_at :: "string \<Rightarrow> string \<Rightarrow> bool" where
  "word_at s u = (starts_with s (CHR ''.'' # u)
     \<and> (case drop (Suc (length u)) s of [] \<Rightarrow> True | c # cs \<Rightarrow> \<not> word_char c))"

fun write_action :: "string \<Rightarrow> bool" where
  "write_action [] = False"
| "write_action (c # cs) =
     (list_ex (word_at (c # cs)) write_words
      \<or> list_ex (starts_with (c # cs)) ['':write'', '':maintain'', '':approve'', '':review'', '':admin''] \<or> write_action cs)"

definition console_subject :: "jsobj \<Rightarrow> jsval" where
  "console_subject subject = (if prop_of subject ''type'' = JStr ''console-user'' then prop_of subject ''subjectId'' else JStr [])"

definition inferGovernanceRequest :: "jsobj \<Rightarrow> auth_request \<Rightarrow> gov_request" where
  "inferGovernanceRequest subject i =
     (let input = ai_input i; context1 = ai_context i; tool = ai_tool i; metadata = oget (ai_grant i) ''metadata'';
          inputResource = or_empty (objectOrNull (prop_of input ''resource''));
          contextResource = or_empty (objectOrNull (prop_of context1 ''resource''));
          operationResource = or_empty (objectOrNull (prop_of (ai_operation i) ''resource''));
          operationResourceContext = or_empty (objectOrNull (prop_of (ai_operation i) ''resourceContext''));
          toolResource = or_empty (objectOrNull (oget tool ''resource''));
          toolResourceContext = or_empty (objectOrNull (oget tool ''resourceContext''));
          operationId = text_of (js_or (prop_of (ai_operation i) ''id'') (js_or (oget tool ''operationId'') (prop_of input ''operationId'')));
          rawAction = firstString [prop_of input ''requestedAction'', prop_of context1 ''requestedAction'', prop_of input ''action'', JStr operationId];
          action = (if rawAction \<noteq> [] then rawAction else if operationId \<noteq> [] then operationId else ''read'');
          resourceType = firstString
            ([prop_of input ''resourceType'', prop_of input ''resource-type'', prop_of inputResource ''resourceType'', prop_of inputResource ''type'',
              prop_of context1 ''resourceType'', prop_of contextResource ''resourceType'',
              prop_of operationResourceContext ''resourceType'', prop_of operationResource ''resourceType'', prop_of operationResource ''type'',
              prop_of toolResourceContext ''resourceType'', prop_of toolResource ''resourceType'', prop_of toolResource ''type''])
      in \<lparr>rq_operationId = operationId,
          rq_resourceType = resourceType,
          rq_resourceId = firstString [prop_of input ''resourceId'', prop_of inputResource ''resourceId'', prop_of inputResource ''id'',
            prop_of context1 ''resourceId'', prop_of contextResource ''resourceId'', JStr ''*''],
          rq_targetProvider = firstString [prop_of input ''targetProvider'', prop_of input ''provider'', prop_of inputResource ''targetProvider'',
            prop_of context1 ''targetProvider'', prop_of contextResource ''targetProvider''],
          rq_action = action,
          rq_scopeAction = inferScopeAction operationId action,
          rq_discoveryLike = (operationId \<in> {''operation_permission.catalog'', ''operation_permission.tools.list'', ''operation_permission.toolsets.list''}),
          rq_agentId = firstString [prop_of input ''agentId'', prop_of input ''agentProfileId'', prop_of context1 ''agentId'',
            prop_of context1 ''profileId'', prop_of context1 ''agentProfileId'', vget metadata ''agentId'', vget metadata ''agentProfileId'',
            prop_of subject ''agentProfileId''],
          rq_boundUserId = firstString [prop_of input ''boundUserId'', prop_of input ''userId'', prop_of context1 ''boundUserId'',
            prop_of context1 ''userId'', vget metadata ''boundUserId'', vget metadata ''userId'', console_subject subject],
          rq_teamIds = uniqueStrings (list_of (prop_of subject ''teamIds'')
            @ map JStr (stringsFrom [prop_of input ''teamIds'', prop_of context1 ''teamIds'', vget metadata ''teamIds''])),
          rq_departmentIds = uniqueStrings (list_of (prop_of subject ''departmentIds'')
            @ map JStr (stringsFrom [prop_of input ''departmentIds'', prop_of context1 ''departmentIds'', vget metadata ''departmentIds''])),
          rq_applies = (resourceType \<noteq> []),
          rq_writeLike = (write_action action \<or> write_action operationId)\<rparr>)"

definition policyMatches :: "policy_entry \<Rightarrow> gov_request \<Rightarrow> bool" where
  "policyMatches p rq =
     (let actions = uniqueStrings (map JStr (pe_actions p)); targetProviders = uniqueStrings (map JStr (pe_targetProviders p))
      in (star (pe_resourceType p) = ''*'' \<or> star (pe_resourceType p) = js_trim (rq_resourceType rq))
         \<and> (star (pe_resourceId p) = ''*'' \<or> star (pe_resourceId p) = js_trim (rq_resourceId rq))
         \<and> (''*'' \<in> set actions \<or> js_trim (rq_action rq) \<in> set actions \<or> rq_scopeAction rq \<in> set actions)
         \<and> (targetProviders = [] \<or> ''*'' \<in> set targetProviders \<or> js_trim (rq_targetProvider rq) \<in> set targetProviders))"


section \<open>Approvals\<close>

record approval =
  ap_approvalId :: string
  ap_userId :: string
  ap_agentId :: string
  ap_resourceType :: string
  ap_resourceId :: string
  ap_actions :: "string list"
  ap_targetProviders :: "string list"
  ap_teamIds :: "string list"
  ap_departmentIds :: "string list"
  ap_approvalLayers :: "string list"
  ap_grantKind :: string
  ap_effect :: string
  ap_expiresAt :: string
  ap_revokedAt :: string
  ap_reason :: string
  ap_createdAt :: string
  ap_updatedAt :: string

definition isActiveApproval :: "auth_world \<Rightarrow> approval \<Rightarrow> gov_request \<Rightarrow> string \<Rightarrow> string \<Rightarrow> string \<Rightarrow> bool" where
  "isActiveApproval w a rq userId agentId approvalLayer =
     (ap_effect a \<noteq> ''deny'' \<and> ap_revokedAt a = []
      \<and> \<not> (ap_expiresAt a \<noteq> [] \<and> (case aw_date w (ap_expiresAt a) of None \<Rightarrow> False | Some t \<Rightarrow> t \<le> aw_now w))
      \<and> \<not> (ap_userId a \<noteq> [] \<and> userId \<noteq> [] \<and> ap_userId a \<noteq> userId)
      \<and> \<not> (ap_agentId a \<noteq> [] \<and> agentId \<noteq> [] \<and> ap_agentId a \<noteq> agentId)
      \<and> (let teams = uniqueStrings (map JStr (ap_teamIds a)); own = uniqueStrings (map JStr (rq_teamIds rq))
         in teams = [] \<or> list_ex (\<lambda>t. t \<in> set own) teams)
      \<and> (let departments = uniqueStrings (map JStr (ap_departmentIds a)); own = uniqueStrings (map JStr (rq_departmentIds rq))
         in departments = [] \<or> list_ex (\<lambda>d. d \<in> set own) departments)
      \<and> (let layers = uniqueStrings (map JStr (ap_approvalLayers a))
         in layers = [] \<or> approvalLayer = [] \<or> ''*'' \<in> set layers \<or> approvalLayer \<in> set layers)
      \<and> policyMatches \<lparr>pe_resourceType = ap_resourceType a, pe_resourceId = ap_resourceId a, pe_actions = ap_actions a,
           pe_targetProviders = ap_targetProviders a, pe_label = []\<rparr> rq)"

text \<open>\<open>String(v || w || d)\<close> on a property of the input and a text of the fallback.\<close>

definition input_or :: "jsobj \<Rightarrow> string list \<Rightarrow> string \<Rightarrow> jsval" where
  "input_or ps ks fallback = foldr (\<lambda>k v. js_or (prop_of ps k) v) ks (JStr fallback)"

definition list_or :: "jsobj \<Rightarrow> string list \<Rightarrow> string list \<Rightarrow> string list" where
  "list_or ps ks fallback = unique_list (foldr (\<lambda>k v. js_or (prop_of ps k) v) ks (JArr (map JStr fallback)))"

definition no_approval :: approval where
  "no_approval = \<lparr>ap_approvalId = [], ap_userId = [], ap_agentId = [], ap_resourceType = [], ap_resourceId = [], ap_actions = [],
     ap_targetProviders = [], ap_teamIds = [], ap_departmentIds = [], ap_approvalLayers = [], ap_grantKind = [], ap_effect = [],
     ap_expiresAt = [], ap_revokedAt = [], ap_reason = [], ap_createdAt = [], ap_updatedAt = []\<rparr>"

definition or_default :: "string \<Rightarrow> string \<Rightarrow> string" where
  "or_default s d = (if s = [] then d else s)"

definition normalizeApproval :: "auth_world \<Rightarrow> jsobj \<Rightarrow> approval \<Rightarrow> approval" where
  "normalizeApproval w input fallback =
     (let text = (\<lambda>ks s d. js_trim (raw_text (js_or (input_or input ks s) (JStr d))))
      in \<lparr>ap_approvalId = normalizeId w (input_or input [''approvalId'', ''id''] (ap_approvalId fallback)) ''approval'',
          ap_userId = text [''userId'', ''subjectId''] (ap_userId fallback) [],
          ap_agentId = text [''agentId''] (ap_agentId fallback) [],
          ap_resourceType = star (text [''resourceType''] (ap_resourceType fallback) ''*''),
          ap_resourceId = star (text [''resourceId'', ''repoId'', ''repositoryRef''] (ap_resourceId fallback) ''*''),
          ap_actions = list_or input [''actions'', ''action''] (ap_actions fallback),
          ap_targetProviders = list_or input [''targetProviders'', ''provider'', ''providers''] (ap_targetProviders fallback),
          ap_teamIds = list_or input [''teamIds'', ''teams''] (ap_teamIds fallback),
          ap_departmentIds = list_or input [''departmentIds'', ''departments''] (ap_departmentIds fallback),
          ap_approvalLayers = list_or input [''approvalLayers'', ''approvalLayer'', ''layers''] (ap_approvalLayers fallback),
          ap_grantKind = text [''grantKind'', ''kind''] (ap_grantKind fallback) ''once'',
          ap_effect = text [''effect''] (ap_effect fallback) ''allow'',
          ap_expiresAt = text [''expiresAt''] (ap_expiresAt fallback) [],
          ap_revokedAt = text [''revokedAt''] (ap_revokedAt fallback) [],
          ap_reason = text [''reason''] (ap_reason fallback) [],
          ap_createdAt = (if ap_createdAt fallback \<noteq> [] then ap_createdAt fallback
            else raw_text (js_or (prop_of input ''createdAt'') (JStr (aw_iso w)))),
          ap_updatedAt = aw_iso w\<rparr>)"

text \<open>What a row of the table reads as, and an approval as the record that is handed on.\<close>

definition approvalFromRow :: "approval \<Rightarrow> approval" where
  "approvalFromRow a =
     a\<lparr>ap_resourceType := star (ap_resourceType a), ap_resourceId := star (ap_resourceId a),
       ap_actions := uniqueStrings (map JStr (ap_actions a)), ap_targetProviders := uniqueStrings (map JStr (ap_targetProviders a)),
       ap_teamIds := uniqueStrings (map JStr (ap_teamIds a)), ap_departmentIds := uniqueStrings (map JStr (ap_departmentIds a)),
       ap_approvalLayers := uniqueStrings (map JStr (ap_approvalLayers a)), ap_grantKind := or_default (ap_grantKind a) ''once'',
       ap_effect := or_default (ap_effect a) ''allow''\<rparr>"


subsection \<open>The table\<close>

definition getApproval :: "approval list \<Rightarrow> jsval \<Rightarrow> approval option" where
  "getApproval table approvalId = map_option approvalFromRow (find (\<lambda>a. ap_approvalId a = raw_text approvalId) table)"

text \<open>\<open>INSERT ... ON CONFLICT(approval_id) DO UPDATE\<close>: every column but \<open>created_at\<close> is replaced.\<close>

fun put_row :: "approval list \<Rightarrow> approval \<Rightarrow> approval list" where
  "put_row [] a = [a]"
| "put_row (b # bs) a =
     (if ap_approvalId b = ap_approvalId a then a\<lparr>ap_createdAt := ap_createdAt b\<rparr> # bs else b # put_row bs a)"

definition upsertApproval :: "auth_world \<Rightarrow> approval list \<Rightarrow> jsobj \<Rightarrow> approval list \<times> approval" where
  "upsertApproval w table input =
     (let existing = getApproval table (js_or (prop_of input ''approvalId'') (prop_of input ''id''));
          a = normalizeApproval w input (case existing of None \<Rightarrow> no_approval | Some e \<Rightarrow> e)
      in (put_row table a, a))"


definition listApprovals :: "approval list \<Rightarrow> string \<Rightarrow> string \<Rightarrow> bool \<Rightarrow> approval list" where
  "listApprovals table userId agentId includeRevoked =
     map approvalFromRow (rev (sort_key ap_createdAt (rev (filter
       (\<lambda>a. (userId = [] \<or> ap_userId a = userId) \<and> (agentId = [] \<or> ap_agentId a = agentId) \<and> (includeRevoked \<or> ap_revokedAt a = []))
       table))))"

section \<open>The store\<close>

text \<open>A role or an agent group; a team or a department; the policy of a user; the binding of an agent.\<close>

record gov_group =
  gg_enabled :: bool
  gg_resourcePolicies :: "jsval list"

record gov_unit =
  gu_id :: string
  gu_enabled :: bool
  gu_memberUserIds :: "string list"
  gu_linkedIds :: "string list"
  gu_resourcePolicies :: "jsval list"
  gu_roleIds :: "string list"

record user_policy =
  up_userId :: string
  up_enabled :: bool
  up_roleIds :: "string list"
  up_teamIds :: "string list"
  up_departmentIds :: "string list"
  up_resourcePolicies :: "jsval list"

record agent_binding =
  bn_enabled :: bool
  bn_boundUserId :: string
  bn_groupIds :: "string list"
  bn_resourcePolicies :: "jsval list"

record gov_store =
  gs_getRole :: "string \<Rightarrow> gov_group option"
  gs_getTeam :: "string \<Rightarrow> gov_unit option"
  gs_listTeams :: "gov_unit list"
  gs_getDepartment :: "string \<Rightarrow> gov_unit option"
  gs_listDepartments :: "gov_unit list"
  gs_getAgentGroup :: "string \<Rightarrow> gov_group option"
  gs_listAgentGroups :: "gov_group list"
  gs_getAgentBinding :: "string \<Rightarrow> agent_binding option"
  gs_listAgentBindings :: "agent_binding list"
  gs_users :: "user_policy list"
  gs_approvals :: "approval list"
  gs_revision :: jsval

definition getUserPolicy :: "gov_store \<Rightarrow> string \<Rightarrow> user_policy option" where
  "getUserPolicy store userId = find (\<lambda>u. up_userId u = userId) (gs_users store)"




section \<open>The layers\<close>

record gov_view =
  gv_request :: gov_request
  gv_userId :: string
  gv_userPolicy :: "user_policy option"
  gv_teamIds :: "string list"
  gv_teams :: "gov_unit list"
  gv_departmentIds :: "string list"
  gv_departments :: "gov_unit list"
  gv_approvals :: "approval list"
  gv_binding :: "agent_binding option"
  gv_direct :: bool

definition active_policy :: "user_policy option \<Rightarrow> user_policy option" where
  "active_policy u = (case u of Some p \<Rightarrow> if up_enabled p then Some p else None | None \<Rightarrow> None)"

definition active_units :: "(string \<Rightarrow> gov_unit option) \<Rightarrow> string list \<Rightarrow> gov_unit list" where
  "active_units get ids = filter gu_enabled (concat (map (\<lambda>i. case get i of None \<Rightarrow> [] | Some u \<Rightarrow> [u]) ids))"

definition governance_view :: "auth_world \<Rightarrow> gov_store \<Rightarrow> jsobj \<Rightarrow> auth_request \<Rightarrow> gov_view" where
  "governance_view w store subject i =
     (let rq = inferGovernanceRequest subject i;
          userId = firstString [JStr (rq_boundUserId rq), console_subject subject];
          agentId = rq_agentId rq;
          userPolicy = (if userId \<noteq> [] then getUserPolicy store userId else None);
          policy_ids = (\<lambda>f. case active_policy userPolicy of None \<Rightarrow> [] | Some p \<Rightarrow> f p);
          member_of = (\<lambda>us. if userId \<noteq> [] then map gu_id (filter (\<lambda>u. userId \<in> set (gu_memberUserIds u)) us) else []);
          teamIds = uniqueStrings (map JStr (rq_teamIds rq @ policy_ids up_teamIds @ member_of (gs_listTeams store)));
          teams = active_units (gs_getTeam store) teamIds;
          departmentIds = uniqueStrings (map JStr (rq_departmentIds rq @ policy_ids up_departmentIds @ concat (map gu_linkedIds teams)
            @ member_of (gs_listDepartments store)
            @ map gu_id (filter (\<lambda>d. list_ex (\<lambda>t. t \<in> set teamIds) (gu_linkedIds d)) (gs_listDepartments store))));
          departments = active_units (gs_getDepartment store) departmentIds;
          governed_rq = rq\<lparr>rq_teamIds := teamIds, rq_departmentIds := departmentIds\<rparr>
      in \<lparr>gv_request = governed_rq, gv_userId = userId, gv_userPolicy = userPolicy, gv_teamIds = teamIds, gv_teams = teams,
          gv_departmentIds = departmentIds, gv_departments = departments,
          gv_approvals = filter (\<lambda>a. isActiveApproval w a governed_rq userId agentId []) (listApprovals (gs_approvals store) userId agentId False),
          gv_binding = (if agentId \<noteq> [] then gs_getAgentBinding store agentId else None),
          gv_direct = (agentId = [] \<and> prop_of subject ''type'' = JStr ''console-user'')\<rparr>)"










section \<open>The verdict\<close>










section \<open>What a verdict rests on\<close>
















section \<open>The verdict, branch by branch\<close>







section \<open>Governance and the decision\<close>


section \<open>Revocation\<close>



























section \<open>Examples\<close>













text \<open>A write under the same id before it is made regular finds no row to fall back on, and clears the revocation.\<close>

lemma irregular_id_revives:
  "let rows = fst (upsertApproval demo_auth_world [] [(''approvalId'', JStr ''a-1''), (''revokedAt'', JStr ''now'')]);
       rows' = fst (upsertApproval demo_auth_world rows [(''approvalId'', JStr ''a 1'')])
   in map ap_revokedAt rows = [''now''] \<and> map ap_revokedAt rows' = [[]] \<and> map ap_approvalId rows' = [''a-1'']"
  by code_simp

text \<open>A single text where a list is read counts as no entry: an action drops the policy, a provider lifts its restriction.\<close>

lemma single_text_dropped:
  "pe_targetProviders (policy_entry_of (JObj [(''provider'', JStr p), (''actions'', vs)])) = []"
  "pe_actions (policy_entry_of (JObj [(''action'', JStr a)])) = []"
proof -
  have u: "unique_list (JStr s) = []" "unique_list JUndef = []" for s by (simp_all add: unique_list_def uniqueStrings_def list_of_def)
  have o1: "or_empty (objectOrNull (JObj ps)) = ps" for ps by (simp add: or_empty_def objectOrNull_def)
  show "pe_targetProviders (policy_entry_of (JObj [(''provider'', JStr p), (''actions'', vs)])) = []"
    "pe_actions (policy_entry_of (JObj [(''action'', JStr a)])) = []"
    by (simp_all only: policy_entry_of_def Let_def policy_entry.select_convs o1) (simp_all add: prop_of_def js_or_def u)
qed

text \<open>The user that governance judges is the one the input names, whoever is signed in.\<close>

lemma named_user_is_judged:
  assumes "prop_of (ai_input i) ''boundUserId'' = JStr u" "js_trim u \<noteq> []"
  shows "gv_userId (governance_view w store subject i) = js_trim u"
proof -
  have "rq_boundUserId (inferGovernanceRequest subject i) = js_trim u"
    by (simp only: inferGovernanceRequest_def Let_def gov_request.select_convs) (simp add: assms)
  then show ?thesis
    by (simp only: governance_view_def Let_def gov_view.select_convs) (simp add: assms)
qed

end
