(* ===== verification/Spec2Isabelle.thy ===== *)
theory Spec2Isabelle
  imports Verifier Replay WorkQueueMachine Admission RadixTrie Subscriptions Continuations QueuePolicies
    LockManager PushDispatcher BusinessContexts EgressPolicy SchemaGuarantees PolicyEnforcement TagPolicy Governance
begin

text \<open>
  A verification library for the core of Meshrix.js: the state machine platform of the foundation package
  (\<open>packages/foundation/src/workflow/state-machine\<close>), the work queue rules beside it
  (\<open>packages/foundation/src/work-queue\<close>) with the dispatcher that hands work out, the lock manager
  (\<open>packages/foundation/src/concurrency\<close>) and the components of the gateway that decide whether, where and for
  how long a call runs (\<open>packages/gateway/src\<close>), and, of the security
  package (\<open>packages/foundation/src/security\<close>), the policy for outbound requests, the closed JSON schemas and the
  authorization engine with its enforcement point.

  \<^bold>\<open>How the parts interact.\<close>  A machine definition is a JSON value.  The schema check turns it into a typed
  definition, the topology checks and the verifier inspect its total matrix, and the engine validates it and
  performs a transition: it selects a matrix cell by state, event and guards, demands the evidence that the
  result of the cell names, and returns the accepted or rejected transition with redacted metadata.  The
  facade wraps the result in an envelope; replay and the tamper check read histories of such transitions.  The
  work queue keeps the states of its jobs by a transition table of its own, and its dispatcher starts what it
  claims within a credit limit.  The lock manager serialises the holders of a key, with a heap of deadlines and
  linked queues of waiters.  In the gateway a request path is looked up in the route trie, the call is admitted
  per upstream, runs in a business context, what it leaves open is sealed into a continuation, and events go to
  the subscription hub.  A request that leaves the system passes the egress policy, which classifies its host, judges
  what its name resolves to and follows redirects one checked hop at a time.
  Values that come from outside are checked by closed JSON schemas, which are compiled once and validated within a
  limit on work.  A request that comes in meets the enforcement point: it asks the authorization engine, which resolves
  the subject and the resource, compiles the facts of the credential and runs the gates of governance, boundaries,
  credential, privileges and consent; where an approval or a high risk demands it, a receipt decides.

  \<^bold>\<open>Theories.\<close>
  \<^item> \<open>Prelude\<close>, \<open>JsValue\<close>, \<open>JsMap\<close>: strings, lists and errors; JavaScript values (\<open>jsval\<close>) with the conversions
    and operators that the code uses; the insertion-ordered \<open>Map\<close> as an association list with distinct keys.
  \<^item> \<open>Systems\<close>: step systems with reachable states, the locales of the safety arguments, interpreted on the
    admission controller, the subscription hub, the continuation ledger and the breadth-first search.
  \<^item> \<open>Guards\<close> (\<open>guards/guard-registry.ts\<close>, \<open>guards/guard-evaluator.ts\<close>): the registry as data, one definition for
    each predicate.  A positive answer implies a registered runtime guard with its evidence.
  \<^item> \<open>Machine\<close> (\<open>verification/state-machine-topology.ts\<close> and the engine's types): totality, reachability, terminal
    states, cell references.  The search terminates and is exact for the inductive notion of reachability.
  \<^item> \<open>Selector\<close> (\<open>engine/transition-selector.ts\<close>): selection of one cell; it is sound, unique and fails closed.
  \<^item> \<open>Schema\<close> (\<open>verification/state-machine-definition-schema.ts\<close>): acceptance gives well-formed typed definitions,
    and encoding followed by decoding is the identity.
  \<^item> \<open>Redaction\<close>, \<open>Engine\<close> (\<open>engine/state-machine-core.ts\<close>): redaction leaves no path, credential or token;
    validation is exact; accepted transitions follow the matrix and carry the demanded evidence.
  \<^item> \<open>Json\<close> (\<open>contracts/src/serialization/canonical-json.ts\<close>): canonical texts are injective and independent of
    the order of properties.
  \<^item> \<open>Replay\<close> (\<open>transition.ts\<close>, \<open>replay.ts\<close>): the facade, replay against the sequence check, the hash chain.
  \<^item> \<open>Verifier\<close> (\<open>verification/state-machine-verifier.ts\<close>): the named checks, their report, the secret scan.
  \<^item> \<open>WorkQueueMachine\<close> (\<open>work-queue/state-machine.ts\<close>) and \<open>QueuePolicies\<close> (\<open>work-queue/policies.ts\<close>,
    \<open>scheduling.ts\<close>, \<open>definitions.ts\<close>): legality of job transitions, in-doubt jobs, retry delays, priorities.
  \<^item> \<open>PushDispatcher\<close> (\<open>work-queue/push-dispatcher.ts\<close>): the credit invariant, and the steps that break it.
  \<^item> \<open>DeadlineHeap\<close>, \<open>WaitQueue\<close> (\<open>concurrency/lock-manager-contract.ts\<close>), \<open>LockManager\<close>
    (\<open>concurrency/lock-manager.ts\<close>): the heap refines a set of deadlines, the linked queues refine lists; locks
    exclude each other, tokens grow, calls are decided once, a released lock goes to the first waiter.
  \<^item> \<open>GatewayUtils\<close> (\<open>utils.ts\<close>), \<open>Admission\<close> (\<open>admission/index.ts\<close>), \<open>RadixTrie\<close>
    (\<open>operation-route-index/radix-path-trie.ts\<close>), \<open>Subscriptions\<close> (\<open>subscriptions/index.ts\<close>), \<open>Continuations\<close>
    (\<open>continuations/index.ts\<close>), \<open>BusinessContexts\<close> (\<open>context/index.ts\<close>): capacity bounds and exactly-once decisions, refinement of the trie to a route
    table, isolation and bounds of the hub, single use of tokens, lifetimes and exact counts of contexts.

  \<^item> \<open>OutboundHost\<close> (\<open>security/outbound-host-classifier.ts\<close>) and \<open>EgressPolicy\<close>
    (\<open>security/outbound-egress-policy.ts\<close>): classification agrees with the address tables over words, texts are read as
    written; every request of the fetch loop is safe, redirects are bounded, credentials stay on their origin.
  \<^item> \<open>SchemaFormats\<close>, \<open>SchemaValidator\<close>, \<open>SchemaCompiler\<close> (\<open>security/closed-json-schema.ts\<close>): formats, validation and
    compilation; \<open>SchemaMeaning\<close> gives schemas a meaning and shows that validation decides it, \<open>SchemaGuarantees\<close> what
    acceptance, compilation and the limits promise.  Numbers are rationals here, with a negative zero.
  \<^item> \<open>AuthCommon\<close>, \<open>ClientAddress\<close>, \<open>ResourceContext\<close>, \<open>AuthSubject\<close>, \<open>AuthBoundary\<close>, \<open>AuthDecision\<close>
    (\<open>security/authorization\<close> and \<open>security/trusted-client-ip.ts\<close>): texts and capabilities, client addresses and address
    rules over words, the resource and the subject of a request, the boundary checks and the decision.  A request is
    allowed exactly under the stated conditions, compiled and direct decisions agree, what a request names lies within
    the lists of its subject, and privileges are held literally.
  \<^item> \<open>PolicyEnforcement\<close> (\<open>security/authorization/pdp/policy-enforcement-point.ts\<close>): the locale of decision points, interpreted on the
    engine; enforcement is exact, asks for a receipt at most once and records what it enforces.
  \<^item> \<open>TagPolicy\<close> (\<open>security/authorization/tag-tree.ts\<close>, \<open>universal-tag-policy.ts\<close>): walks over tags return, the parent check keeps
    the hierarchy free of cycles, the verdict is characterised by sets of tags.
  \<^item> \<open>Governance\<close> (\<open>security/authorization/authorization-governance-store.ts\<close> and its support file): policies, approvals and the
    four layers.  A governed write rests on a grant of every layer, the engine follows the verdict wherever governance
    applies, and a revoked approval stays revoked.

  \<^bold>\<open>Correspondence.\<close>  A string is the list of its UTF-8 bytes; lengths and slices that the code takes in UTF-16
  units agree on ASCII.  A number is an integer, \<open>NaN\<close> or an infinity; the code computes with fractions
  nowhere that is modelled, except where a theory says so.  A thrown error is the left side of a sum, or the
  \<open>Some\<close> of an optional message for checks that return nothing.  An object with state is a record that every
  operation returns updated; asynchronous operations are the steps between two suspension points, and the
  reachable states cover every interleaving of them, timers and abort listeners included.

  \<^bold>\<open>Bounds.\<close>  There is no fuel in the model: recursion is structural, or has a measure, or is a partial function
  whose value \<open>None\<close> means that it does not return (the walk over tags, proved to return on finite stores).  The
  breadth-first search ends because each round removes a state from the finite set of unseen ones.

  \<^bold>\<open>Parameters.\<close>  Digests, ciphers, \<open>decodeURIComponent\<close>, the URL parser, \<open>Date.parse\<close>, the pattern engine, the name service, \<open>net.isIP\<close>, the transport of a
  request, the guard evaluator that a caller may inject, the receipt store, the tag store behind governance, the generated lists of
  operation and tool ids and the clock are arguments of the definitions that use them.

  \<^bold>\<open>Not modelled.\<close>  Stores behind SQL, network transports, cryptographic primitives, sessions and user interfaces;
  within the modelled files, \<open>Date\<close>, \<open>Buffer\<close> and \<open>bigint\<close> values of canonical JSON, the external ledger of
  continuations, the hand-off of the dispatcher to a peer, the durable lock managers, deep freezing, random
  identifiers, the cache of compiled authorization facts, the event log of the governance store and its writes of user policies.  The gateway kernel
  composes the modelled parts with injected upstreams and is not modelled.
\<close>

section \<open>From the verifier to the engine\<close>





end
